(* ===== verification/Prelude.thy ===== *)
theory Prelude
  imports Main "HOL-Library.Product_Lexorder"
begin

text \<open>
  The prelude of the Fenceline development: the types every component shares (identifiers,
  timestamps, result values), the operations on tables seen as lists of rows, and the lemmas on
  them that carry the component proofs.

  A table is the list of its rows. An SQL \<open>update ... set f where P\<close> is \<open>update_where P f\<close>, an
  \<open>update\<close> whose rows can be refused by a trigger or a check constraint is \<open>try_update\<close>, a
  \<open>delete ... where P\<close> is \<open>delete_where P\<close>, a \<open>count(*)\<close> is \<open>count_where P\<close>. A statement that can
  fail returns a value of the sum type, \<open>Inl\<close> the error, and \<open>rbind\<close> sequences such statements:
  the first error ends the transaction.
\<close>

section \<open>Types\<close>

text \<open>
  Identifiers are opaque; only their equality and, in \<open>order by id\<close>, their order matter.
  Timestamps count microseconds, the resolution of \<open>timestamptz\<close>; so do intervals.
\<close>

type_synonym uuid = nat
type_synonym timestamptz = int
type_synonym interval = int

section \<open>Results\<close>

named_theorems result_simps

definition rbind :: "'e + 'a \<Rightarrow> ('a \<Rightarrow> 'e + 'b) \<Rightarrow> 'e + 'b" where
  "rbind m f = (case m of Inl e \<Rightarrow> Inl e | Inr a \<Rightarrow> f a)"

lemma rbind_Inl [simp]: "rbind (Inl e) f = Inl e"
  by (simp add: rbind_def)

lemma rbind_Inr [simp]: "rbind (Inr a) f = f a"
  by (simp add: rbind_def)

lemma rbind_eq_Inr [result_simps]:
  "rbind m f = Inr b \<longleftrightarrow> (\<exists>a. m = Inr a \<and> f a = Inr b)"
  by (cases m) auto

lemma rbind_eq_Inl [result_simps]:
  "rbind m f = Inl e \<longleftrightarrow> m = Inl e \<or> (\<exists>a. m = Inr a \<and> f a = Inl e)"
  by (cases m) auto

lemma rbind_cong [fundef_cong]:
  assumes "m = m'" and "\<And>a. m' = Inr a \<Longrightarrow> f a = g a"
  shows "rbind m f = rbind m' g"
  using assms by (cases m') auto

text \<open>
  Running an action over a list left to right, threading a state; a failing action ends the run.
\<close>

fun foldr_result :: "('a \<Rightarrow> 's \<Rightarrow> 'e + 's) \<Rightarrow> 'a list \<Rightarrow> 's \<Rightarrow> 'e + 's" where
  "foldr_result f [] s = Inr s"
| "foldr_result f (x # xs) s = rbind (f x s) (foldr_result f xs)"

section \<open>Tables as lists of rows\<close>

named_theorems table_simps

definition update_where :: "('r \<Rightarrow> bool) \<Rightarrow> ('r \<Rightarrow> 'r) \<Rightarrow> 'r list \<Rightarrow> 'r list" where
  "update_where P f rs = map (\<lambda>r. if P r then f r else r) rs"

definition delete_where :: "('r \<Rightarrow> bool) \<Rightarrow> 'r list \<Rightarrow> 'r list" where
  "delete_where P rs = filter (\<lambda>r. \<not> P r) rs"

definition count_where :: "('r \<Rightarrow> bool) \<Rightarrow> 'r list \<Rightarrow> nat" where
  "count_where P rs = length (filter P rs)"

text \<open>
  An update each of whose row writes may be refused: the first refusal is the statement's error
  and no row changes.
\<close>

fun try_update :: "('r \<Rightarrow> bool) \<Rightarrow> ('r \<Rightarrow> 'e + 'r) \<Rightarrow> 'r list \<Rightarrow> 'e + 'r list" where
  "try_update P w [] = Inr []"
| "try_update P w (r # rs) =
     rbind (if P r then w r else Inr r) (\<lambda>r'. rbind (try_update P w rs) (\<lambda>rs'. Inr (r' # rs')))"

lemma set_update_where [table_simps]:
  "set (update_where P f rs) = (\<lambda>r. if P r then f r else r) ` set rs"
  by (simp add: update_where_def)

lemma set_delete_where [table_simps]: "set (delete_where P rs) = {r \<in> set rs. \<not> P r}"
  by (auto simp: delete_where_def)

lemma in_update_where_iff [table_simps]:
  "r' \<in> set (update_where P f rs) \<longleftrightarrow>
     (\<exists>r \<in> set rs. P r \<and> r' = f r) \<or> (r' \<in> set rs \<and> \<not> P r')"
  by (auto simp: update_where_def)

lemma update_where_Nil [simp]: "update_where P f [] = []"
  by (simp add: update_where_def)

lemma update_where_Cons [simp]:
  "update_where P f (r # rs) = (if P r then f r else r) # update_where P f rs"
  by (simp add: update_where_def)

lemma update_where_append [simp]:
  "update_where P f (rs @ ts) = update_where P f rs @ update_where P f ts"
  by (simp add: update_where_def)

lemma length_update_where [simp]: "length (update_where P f rs) = length rs"
  by (simp add: update_where_def)

lemma delete_where_Nil [simp]: "delete_where P [] = []"
  by (simp add: delete_where_def)

lemma delete_where_Cons [simp]:
  "delete_where P (r # rs) = (if P r then delete_where P rs else r # delete_where P rs)"
  by (simp add: delete_where_def)

lemma count_where_Nil [simp]: "count_where P [] = 0"
  by (simp add: count_where_def)

lemma count_where_Cons [simp]:
  "count_where P (r # rs) = (if P r then Suc (count_where P rs) else count_where P rs)"
  by (simp add: count_where_def)

lemma count_where_append [simp]:
  "count_where P (rs @ ts) = count_where P rs + count_where P ts"
  by (simp add: count_where_def)

text \<open>An update that no row matches is the identity.\<close>

lemma update_where_none: "(\<And>r. r \<in> set rs \<Longrightarrow> \<not> P r) \<Longrightarrow> update_where P f rs = rs"
  by (induction rs) auto

lemma delete_where_none: "(\<And>r. r \<in> set rs \<Longrightarrow> \<not> P r) \<Longrightarrow> delete_where P rs = rs"
  by (induction rs) auto

lemma update_where_cong:
  "(\<And>r. r \<in> set rs \<Longrightarrow> P r = Q r) \<Longrightarrow> (\<And>r. r \<in> set rs \<Longrightarrow> Q r \<Longrightarrow> f r = g r) \<Longrightarrow>
   update_where P f rs = update_where Q g rs"
  by (induction rs) auto

text \<open>Columns an update does not write keep their values, so keys stay keys.\<close>

lemma map_update_where:
  "(\<And>r. r \<in> set rs \<Longrightarrow> P r \<Longrightarrow> k (f r) = k r) \<Longrightarrow> map k (update_where P f rs) = map k rs"
  by (induction rs) auto

lemma image_update_where:
  "(\<And>r. r \<in> set rs \<Longrightarrow> P r \<Longrightarrow> k (f r) = k r) \<Longrightarrow> k ` set (update_where P f rs) = k ` set rs"
  using map_update_where [of rs P k f] by (metis set_map)

lemma mem_mapE:
  assumes "x \<in> set (map g rs)"
  obtains r where "r \<in> set rs" "x = g r"
  using assms by auto

lemma distinct_delete_where: "distinct (map k rs) \<Longrightarrow> distinct (map k (delete_where P rs))"
  by (auto simp: delete_where_def distinct_map_filter)

lemma count_where_mono: "(\<And>r. r \<in> set rs \<Longrightarrow> P r \<Longrightarrow> Q r) \<Longrightarrow> count_where P rs \<le> count_where Q rs"
  by (induction rs) auto

lemma count_where_cong: "(\<And>r. r \<in> set rs \<Longrightarrow> P r = Q r) \<Longrightarrow> count_where P rs = count_where Q rs"
  by (induction rs) auto

lemma count_where_zero_iff: "count_where P rs = 0 \<longleftrightarrow> (\<forall>r \<in> set rs. \<not> P r)"
  by (induction rs) auto

text \<open>
  The effect of an update on a count: rows that enter the counted set are added, rows that leave it
  are taken away.
\<close>

lemma count_where_update:
  "count_where Q (update_where P f rs) + count_where (\<lambda>r. P r \<and> Q r) rs =
   count_where Q rs + count_where (\<lambda>r. P r \<and> Q (f r)) rs"
  by (induction rs) auto

lemma count_where_delete:
  "count_where Q (delete_where P rs) + count_where (\<lambda>r. P r \<and> Q r) rs = count_where Q rs"
  by (induction rs) auto

text \<open>With a key, a condition on the key selects at most one row.\<close>

lemma key_unique:
  "distinct (map k rs) \<Longrightarrow> r \<in> set rs \<Longrightarrow> s \<in> set rs \<Longrightarrow> k r = k s \<Longrightarrow> r = s"
  by (metis distinct_map inj_onD)

lemma count_where_key_le:
  assumes "distinct (map k rs)"
  shows "count_where (\<lambda>r. k r = i \<and> P r) rs \<le> 1"
  using assms
proof (induction rs)
  case Nil
  then show ?case by simp
next
  case (Cons r rs)
  show ?case
  proof (cases "k r = i \<and> P r")
    case True
    then have "count_where (\<lambda>r. k r = i \<and> P r) rs = 0"
      using Cons.prems by (auto simp: count_where_zero_iff intro: rev_image_eqI)
    then show ?thesis by simp
  next
    case False
    then show ?thesis using Cons by auto
  qed
qed

lemma count_where_key_one:
  assumes "distinct (map k rs)" and "r \<in> set rs" and "k r = i" and "P r"
  shows "count_where (\<lambda>r. k r = i \<and> P r) rs = 1"
proof -
  have "count_where (\<lambda>r. k r = i \<and> P r) rs \<noteq> 0"
    using assms by (auto simp: count_where_zero_iff)
  with count_where_key_le [OF assms(1), of i P] show ?thesis by simp
qed

text \<open>
  A checked update succeeds exactly when every row it writes is accepted, and then it is the plain
  update.
\<close>

lemma try_update_Inr_iff:
  "try_update P w rs = Inr rs' \<longleftrightarrow>
     (\<forall>r \<in> set rs. P r \<longrightarrow> (\<exists>r'. w r = Inr r')) \<and> rs' = update_where P (\<lambda>r. projr (w r)) rs"
proof (induction rs arbitrary: rs')
  case Nil
  then show ?case by auto
next
  case (Cons r rs)
  show ?case
    by (cases "P r"; cases "w r") (auto simp: result_simps Cons.IH)
qed

lemma try_update_ok:
  "(\<And>r. r \<in> set rs \<Longrightarrow> P r \<Longrightarrow> w r = Inr (f r)) \<Longrightarrow> try_update P w rs = Inr (update_where P f rs)"
  by (induction rs) auto

section \<open>Looking a row up by its key\<close>

definition lookup_row :: "('r \<Rightarrow> 'k) \<Rightarrow> 'k \<Rightarrow> 'r list \<Rightarrow> 'r option" where
  "lookup_row k i rs = find (\<lambda>r. k r = i) rs"

lemma lookup_row_Nil [simp]: "lookup_row k i [] = None"
  by (simp add: lookup_row_def)

lemma lookup_row_Cons [simp]:
  "lookup_row k i (r # rs) = (if k r = i then Some r else lookup_row k i rs)"
  by (simp add: lookup_row_def)

lemma lookup_row_SomeD: "lookup_row k i rs = Some r \<Longrightarrow> r \<in> set rs \<and> k r = i"
  by (induction rs) (auto split: if_splits)

lemma lookup_row_None_iff: "lookup_row k i rs = None \<longleftrightarrow> (\<forall>r \<in> set rs. k r \<noteq> i)"
  by (induction rs) auto

lemma lookup_row_Some_iff:
  "distinct (map k rs) \<Longrightarrow> lookup_row k i rs = Some r \<longleftrightarrow> r \<in> set rs \<and> k r = i"
  by (induction rs) force+

lemma lookup_row_append:
  "lookup_row k i (rs @ ts) = (case lookup_row k i rs of None \<Rightarrow> lookup_row k i ts | Some r \<Rightarrow> Some r)"
  by (induction rs) auto

lemma lookup_row_update:
  assumes "\<And>r. r \<in> set rs \<Longrightarrow> P r \<Longrightarrow> k (f r) = k r"
  shows "lookup_row k i (update_where P f rs) =
    map_option (\<lambda>r. if P r then f r else r) (lookup_row k i rs)"
  using assms by (induction rs) auto

lemma lookup_row_delete_key:
  "lookup_row k i (delete_where (\<lambda>r. k r = i') rs) = (if i = i' then None else lookup_row k i rs)"
  by (induction rs) auto

section \<open>Sorting\<close>

text \<open>\<open>order by key limit n\<close>: the \<open>n\<close> first rows of the sorted selection.\<close>

definition order_limit :: "('r \<Rightarrow> 'k::linorder) \<Rightarrow> nat \<Rightarrow> 'r list \<Rightarrow> 'r list" where
  "order_limit key n rs = take n (sort_key key rs)"

lemma set_order_limit: "set (order_limit key n rs) \<subseteq> set rs"
  using set_take_subset [of n "sort_key key rs"] by (auto simp: order_limit_def)

lemma length_order_limit [simp]: "length (order_limit key n rs) = min (length rs) n"
  by (simp add: order_limit_def)

lemma distinct_map_sort_key: "distinct (map k xs) \<Longrightarrow> distinct (map k (sort_key key xs))"
  by (simp only: distinct_map distinct_sort set_sort)

lemma distinct_order_limit:
  assumes "distinct (map k rs)"
  shows "distinct (map k (order_limit key n rs))"
proof -
  have "distinct (map k (sort_key key rs))"
    using assms by (rule distinct_map_sort_key)
  then show ?thesis
    by (simp add: order_limit_def flip: take_map)
qed

lemma sorted_order_limit: "sorted (map key (order_limit key n rs))"
  by (simp add: order_limit_def flip: take_map)

text \<open>Nothing left out sorts strictly before something taken.\<close>

lemma order_limit_minimal:
  assumes x: "x \<in> set (order_limit key n rs)" and y: "y \<in> set rs" "y \<notin> set (order_limit key n rs)"
  shows "key x \<le> key y"
proof -
  let ?s = "sort_key key rs"
  have "y \<in> set (drop n ?s)"
    using y by (metis append_take_drop_id order_limit_def set_append set_sort Un_iff)
  moreover have "sorted (map key (take n ?s @ drop n ?s))"
    by simp
  ultimately show ?thesis
    using x by (auto simp: order_limit_def sorted_append simp del: append_take_drop_id)
qed

lemma sum_list_sort_key:
  fixes f :: "'a \<Rightarrow> 'b::comm_monoid_add"
  shows "sum_list (map f (sort_key k xs)) = sum_list (map f xs)"
proof -
  have ins: "sum_list (map f (insort_key k x ys)) = f x + sum_list (map f ys)" for x ys
    by (induction ys) (simp_all add: add.left_commute)
  show ?thesis by (induction xs) (simp_all add: ins)
qed

lemma sum_groups: "(\<Sum>c \<in> g ` set xs. length (filter (\<lambda>x. g x = c) xs)) = length xs"
proof (induction xs)
  case (Cons y ys)
  have "(\<Sum>c \<in> g ` set (y # ys). length (filter (\<lambda>x. g x = c) (y # ys))) =
      (\<Sum>c \<in> insert (g y) (g ` set ys). length (filter (\<lambda>x. g x = c) ys) + (if c = g y then 1 else 0))"
    by (intro sum.cong) auto
  also have "\<dots> = (\<Sum>c \<in> insert (g y) (g ` set ys). length (filter (\<lambda>x. g x = c) ys)) + 1"
    by (simp add: sum.distrib)
  also have "(\<Sum>c \<in> insert (g y) (g ` set ys). length (filter (\<lambda>x. g x = c) ys)) =
      (\<Sum>c \<in> g ` set ys. length (filter (\<lambda>x. g x = c) ys))"
    by (rule sum.mono_neutral_right) (auto simp: filter_empty_conv)
  finally show ?case using Cons by simp
qed simp

section \<open>State machines\<close>

text \<open>
  Reachability in a transition system, and the interface an invariant proof offers: a set of initial
  states, a step relation and a predicate that the first establishes and the second keeps. The
  step relations of the components are interpreted as instances.
\<close>

inductive reachable :: "('s \<Rightarrow> bool) \<Rightarrow> ('s \<Rightarrow> 's \<Rightarrow> bool) \<Rightarrow> 's \<Rightarrow> bool" for init step where
  start: "init s \<Longrightarrow> reachable init step s"
| more: "reachable init step s \<Longrightarrow> step s s' \<Longrightarrow> reachable init step s'"

locale transition_system =
  fixes init :: "'s \<Rightarrow> bool" and step :: "'s \<Rightarrow> 's \<Rightarrow> bool" and inv :: "'s \<Rightarrow> bool"
  assumes init_inv: "init s \<Longrightarrow> inv s"
    and step_inv: "inv s \<Longrightarrow> step s s' \<Longrightarrow> inv s'"
begin

lemma reachable_inv: "reachable init step s \<Longrightarrow> inv s"
  by (induction rule: reachable.induct) (auto intro: init_inv step_inv)

lemma steps_inv: "rtranclp step s s' \<Longrightarrow> inv s \<Longrightarrow> inv s'"
  by (induction rule: rtranclp_induct) (auto intro: step_inv)

end

end
