(* ===== verification/Schema.thy ===== *)
theory Schema
  imports Complex_Main Prelude
begin

text \<open>
  The relational schema of \<open>src/migrations\<close> after the last migration: one record per table row, one
  record \<open>db\<close> for the whole database, the job state machine with its trigger, the check
  constraints of \<open>jobs\<close>, and the transactional outbox.

  Column names carry a prefix per table (\<open>j_\<close> jobs, \<open>l_\<close> leases, \<open>x_\<close> executions, \<open>q_\<close> queues,
  \<open>s_\<close> queue shards, \<open>p_\<close> retry policies, \<open>d_\<close> dead letters, \<open>e_\<close> events, \<open>m_\<close> minute statistics,
  \<open>v_\<close> fence violations, \<open>w_\<close> workers, \<open>g_\<close> logs, \<open>sc_\<close> schedules, \<open>k_\<close> idempotency keys, \<open>a_\<close> audit, \<open>fs_\<close> failure
  summaries, \<open>u_\<close> users, \<open>o_\<close> organizations, \<open>om_\<close> members, \<open>pr_\<close> projects, \<open>ss_\<close> sessions). The field
  \<open>partitions\<close> lists the daily partitions that exist, by parent table and day. \<open>numeric\<close> columns are rational numbers.
\<close>

section \<open>Enumerations\<close>

datatype job_status =
  Scheduled | Queued | Claimed | Running | Completed | Retry_wait | Dead_letter | Cancelled

datatype exec_outcome =
  X_success | X_retryable_error | X_permanent_error | X_timeout | X_lost | X_fenced
| X_cancelled | X_snoozed

datatype backoff_kind = Fixed | Linear | Exponential

datatype breaker_state = Closed | Open | Half_open

text \<open>The text Postgres prints for an enum value (\<open>status::text\<close>), read by the Go code.\<close>

fun status_text :: "job_status \<Rightarrow> string" where
  "status_text Scheduled = ''scheduled''"
| "status_text Queued = ''queued''"
| "status_text Claimed = ''claimed''"
| "status_text Running = ''running''"
| "status_text Completed = ''completed''"
| "status_text Retry_wait = ''retry_wait''"
| "status_text Dead_letter = ''dead_letter''"
| "status_text Cancelled = ''cancelled''"

fun outcome_text :: "exec_outcome \<Rightarrow> string" where
  "outcome_text X_success = ''success''"
| "outcome_text X_retryable_error = ''retryable_error''"
| "outcome_text X_permanent_error = ''permanent_error''"
| "outcome_text X_timeout = ''timeout''"
| "outcome_text X_lost = ''lost''"
| "outcome_text X_fenced = ''fenced''"
| "outcome_text X_cancelled = ''cancelled''"
| "outcome_text X_snoozed = ''snoozed''"

definition terminal :: "job_status \<Rightarrow> bool" where
  "terminal s \<longleftrightarrow> s \<in> {Completed, Dead_letter, Cancelled}"

definition active :: "job_status \<Rightarrow> bool" where
  "active s \<longleftrightarrow> s \<in> {Claimed, Running}"

lemma terminal_simps [simp]:
  "\<not> terminal Scheduled" "\<not> terminal Queued" "\<not> terminal Claimed" "\<not> terminal Running"
  "terminal Completed" "\<not> terminal Retry_wait" "terminal Dead_letter" "terminal Cancelled"
  by (simp_all add: terminal_def)

lemma active_simps [simp]:
  "\<not> active Scheduled" "\<not> active Queued" "active Claimed" "active Running"
  "\<not> active Completed" "\<not> active Retry_wait" "\<not> active Dead_letter" "\<not> active Cancelled"
  by (simp_all add: active_def)

section \<open>Rows\<close>

record job =
  j_id :: uuid
  j_project_id :: uuid
  j_queue_id :: uuid
  j_schedule_id :: "uuid option"
  j_scheduled_for :: "timestamptz option"
  j_batch_id :: "uuid option"
  j_type :: string
  j_payload :: string
  j_status :: job_status
  j_priority :: int
  j_run_at :: timestamptz
  j_fence :: nat
  j_attempt_count :: nat
  j_replay_generation :: nat
  j_snooze_count :: nat
  j_worker_id :: "uuid option"
  j_deadline_at :: "timestamptz option"
  j_timeout_ms :: int
  j_retry_policy_id :: uuid
  j_pending_deps :: int
  j_created_at :: timestamptz
  j_claimed_at :: "timestamptz option"
  j_started_at :: "timestamptz option"
  j_finished_at :: "timestamptz option"
  j_shard :: int

record lease =
  l_job_id :: uuid
  l_fence :: nat
  l_worker_id :: uuid
  l_expires_at :: timestamptz
  l_progress :: "string option"
  l_updated_at :: timestamptz

record execution =
  x_id :: uuid
  x_job_id :: uuid
  x_queue_id :: uuid
  x_attempt :: nat
  x_replay_generation :: nat
  x_fence :: nat
  x_worker_id :: uuid
  x_outcome :: "exec_outcome option"
  x_error_class :: "string option"
  x_error_message :: "string option"
  x_started_at :: timestamptz
  x_finished_at :: "timestamptz option"

text \<open>
  The generated column \<open>duration_ms\<close>: \<open>(extract(epoch from interval) * 1000)::bigint\<close>. The cast
  rounds to the nearest integer, halves away from zero; durations are not negative here, so this
  is adding half a millisecond and cutting off.
\<close>

definition duration_ms :: "execution \<Rightarrow> int option" where
  "duration_ms x = map_option (\<lambda>f. (f - x_started_at x + 500) div 1000) (x_finished_at x)"

record queue =
  q_id :: uuid
  q_project_id :: uuid
  q_name :: string
  q_paused :: bool
  q_retry_policy_id :: uuid
  q_default_priority :: int
  q_max_concurrency :: int
  q_shards :: int
  q_max_depth :: "int option"
  q_rl_limit_per_sec :: rat
  q_rl_burst :: rat
  q_breaker_state :: breaker_state
  q_breaker_open_until :: "timestamptz option"
  q_breaker_probe_budget :: int
  q_created_at :: timestamptz

record queue_shard =
  s_queue_id :: uuid
  s_shard :: int
  s_in_flight :: int
  s_rl_tokens :: rat
  s_rl_refilled_at :: timestamptz

record retry_policy =
  p_id :: uuid
  p_project_id :: uuid
  p_name :: string
  p_kind :: backoff_kind
  p_max_attempts :: nat
  p_max_lost_attempts :: nat
  p_base_delay_ms :: int
  p_max_delay_ms :: int
  p_jitter :: bool

datatype dead_reason = Attempts_exhausted | Permanent_reason | Lost_exhausted | Timeout_exhausted

record dead_letter =
  d_job_id :: uuid
  d_queue_id :: uuid
  d_project_id :: uuid
  d_reason :: dead_reason
  d_last_error_class :: "string option"
  d_last_error_message :: "string option"
  d_execution_history :: "execution list"
  d_dead_at :: timestamptz
  d_replayed_at :: "timestamptz option"
  d_replayed_by :: "uuid option"

text \<open>A JSON object, as the code builds it for an event's payload.\<close>

datatype jval = JString string | JInt int | JBool bool

type_synonym json_object = "(string \<times> jval) list"

record event =
  e_id :: int
  e_topic :: string
  e_entity_id :: uuid
  e_project_id :: uuid
  e_payload :: json_object
  e_created_at :: timestamptz

record minute_stats =
  m_queue_id :: uuid
  m_minute :: timestamptz
  m_completed :: int
  m_failed :: int
  m_dead_lettered :: int
  m_duration_ms_sum :: int
  m_duration_ms_p50 :: "int option"
  m_duration_ms_p95 :: "int option"

record fence_violation =
  v_job_id :: uuid
  v_worker_id :: uuid
  v_held_fence :: nat
  v_actual_fence :: "nat option"
  v_actual_status :: "job_status option"
  v_noticed_at :: timestamptz

datatype worker_state = W_active | W_draining | W_dead

record worker_row =
  w_id :: uuid
  w_project_id :: uuid
  w_hostname :: string
  w_pid :: int
  w_max_concurrency :: int
  w_handlers :: "string list"
  w_state :: worker_state
  w_started_at :: timestamptz
  w_last_seen_at :: timestamptz

record log_row =
  g_execution_id :: uuid
  g_ts :: timestamptz
  g_level :: string
  g_message :: string

datatype overlap_policy = Overlap_allow | Overlap_skip

datatype catchup_policy = Catchup_skip | Catchup_fire_once

record schedule =
  sc_id :: uuid
  sc_queue_id :: uuid
  sc_name :: string
  sc_cron_expr :: string
  sc_timezone :: string
  sc_job_type :: string
  sc_payload :: string
  sc_enabled :: bool
  sc_overlap_policy :: overlap_policy
  sc_catchup_policy :: catchup_policy
  sc_next_run_at :: timestamptz
  sc_last_fired_for :: "timestamptz option"
  sc_created_at :: timestamptz

record idempotency_key =
  k_queue_id :: uuid
  k_key :: string
  k_job_id :: uuid
  k_fingerprint :: string
  k_expires_at :: timestamptz

record audit_row =
  a_project_id :: uuid
  a_actor_id :: "uuid option"
  a_action :: string
  a_entity :: string
  a_entity_id :: "uuid option"
  a_detail :: "json_object option"
  a_at :: timestamptz

record failure_summary =
  fs_queue_id :: uuid
  fs_digest :: string
  fs_summary :: string
  fs_model :: string
  fs_generated_at :: timestamptz

record user_row =
  u_id :: uuid
  u_email :: string
  u_password_hash :: string
  u_name :: "string option"
  u_created_at :: timestamptz

record organization =
  o_id :: uuid
  o_name :: string
  o_created_at :: timestamptz

record org_member =
  om_org_id :: uuid
  om_user_id :: uuid
  om_role :: string

record project =
  pr_id :: uuid
  pr_org_id :: uuid
  pr_name :: string
  pr_created_at :: timestamptz

record session_row =
  ss_id :: uuid
  ss_user_id :: uuid
  ss_issued_at :: timestamptz
  ss_expires_at :: timestamptz
  ss_revoked_at :: "timestamptz option"

section \<open>The database\<close>

record db =
  queues :: "queue list"
  queue_shards :: "queue_shard list"
  retry_policies :: "retry_policy list"
  jobs :: "job list"
  job_leases :: "lease list"
  job_executions :: "execution list"
  job_dependencies :: "(uuid \<times> uuid) list"
  dead_letter_jobs :: "dead_letter list"
  events :: "event list"
  event_seq :: int
  queue_stats_minute :: "minute_stats list"
  job_fence_violations :: "fence_violation list"
  workers :: "worker_row list"
  worker_queues :: "(uuid \<times> uuid) list"
  job_logs :: "log_row list"
  schedules :: "schedule list"
  idempotency_keys :: "idempotency_key list"
  jobs_archive :: "(job \<times> timestamptz) list"
  job_executions_archive :: "execution list"
  job_logs_archive :: "log_row list"
  dead_letter_jobs_archive :: "dead_letter list"
  low_water_id :: int
  audit_log :: "audit_row list"
  partitions :: "(string \<times> int) list"
  failure_summaries :: "failure_summary list"
  users :: "user_row list"
  organizations :: "organization list"
  org_members :: "org_member list"
  projects :: "project list"
  sessions :: "session_row list"

definition empty_db :: db where
  "empty_db = \<lparr>queues = [], queue_shards = [], retry_policies = [], jobs = [], job_leases = [],
     job_executions = [], job_dependencies = [], dead_letter_jobs = [], events = [], event_seq = 0,
     queue_stats_minute = [], job_fence_violations = [], workers = [], worker_queues = [],
     job_logs = [], schedules = [], idempotency_keys = [], jobs_archive = [], job_executions_archive = [],
     job_logs_archive = [], dead_letter_jobs_archive = [], low_water_id = 0, audit_log = [],
     partitions = [], failure_summaries = [], users = [], organizations = [], org_members = [],
     projects = [], sessions = []\<rparr>"

abbreviation job_of :: "db \<Rightarrow> uuid \<Rightarrow> job option" where
  "job_of d i \<equiv> lookup_row j_id i (jobs d)"

abbreviation queue_of :: "db \<Rightarrow> uuid \<Rightarrow> queue option" where
  "queue_of d i \<equiv> lookup_row q_id i (queues d)"

abbreviation policy_of :: "db \<Rightarrow> uuid \<Rightarrow> retry_policy option" where
  "policy_of d i \<equiv> lookup_row p_id i (retry_policies d)"

abbreviation lease_of :: "db \<Rightarrow> uuid \<Rightarrow> lease option" where
  "lease_of d i \<equiv> lookup_row l_job_id i (job_leases d)"

abbreviation exec_of :: "db \<Rightarrow> uuid \<Rightarrow> execution option" where
  "exec_of d i \<equiv> lookup_row x_id i (job_executions d)"

abbreviation shard_of :: "db \<Rightarrow> uuid \<Rightarrow> int \<Rightarrow> queue_shard option" where
  "shard_of d q s \<equiv> lookup_row (\<lambda>r. (s_queue_id r, s_shard r)) (q, s) (queue_shards d)"

section \<open>Errors\<close>

text \<open>
  What a statement can raise: an error with its SQLSTATE, as the Go code reads it from
  \<open>pgconn.PgError.Code\<close>. \<open>P0001\<close> is \<open>raise exception\<close>, \<open>23514\<close> a check violation, \<open>23505\<close> a
  unique violation, \<open>23503\<close> a foreign key violation, \<open>55006\<close> object in use.
\<close>

datatype pg_error = PgError string

abbreviation raise_exception :: pg_error where "raise_exception \<equiv> PgError ''P0001''"
abbreviation check_violation :: pg_error where "check_violation \<equiv> PgError ''23514''"
abbreviation unique_violation :: pg_error where "unique_violation \<equiv> PgError ''23505''"
abbreviation fk_violation :: pg_error where "fk_violation \<equiv> PgError ''23503''"
abbreviation object_in_use :: pg_error where "object_in_use \<equiv> PgError ''55006''"

type_synonym 'a tx = "db \<Rightarrow> pg_error + 'a \<times> db"

section \<open>The job state machine\<close>

fun legal_transition :: "job_status \<Rightarrow> job_status \<Rightarrow> bool" where
  "legal_transition Scheduled Queued = True"
| "legal_transition Scheduled Cancelled = True"
| "legal_transition Queued Claimed = True"
| "legal_transition Queued Cancelled = True"
| "legal_transition Claimed Running = True"
| "legal_transition Claimed Queued = True"
| "legal_transition Claimed Retry_wait = True"
| "legal_transition Claimed Cancelled = True"
| "legal_transition Claimed Dead_letter = True"
| "legal_transition Running Completed = True"
| "legal_transition Running Retry_wait = True"
| "legal_transition Running Dead_letter = True"
| "legal_transition Running Cancelled = True"
| "legal_transition Running Queued = True"
| "legal_transition Running Scheduled = True"
| "legal_transition Retry_wait Queued = True"
| "legal_transition Retry_wait Cancelled = True"
| "legal_transition Retry_wait Dead_letter = True"
| "legal_transition Dead_letter Queued = True"
| "legal_transition _ _ = False"

text \<open>The table \<open>job_transitions\<close>, in the order of its \<open>insert\<close>.\<close>

definition job_transitions :: "(job_status \<times> job_status) list" where
  "job_transitions =
    [(Scheduled, Queued), (Scheduled, Cancelled),
     (Queued, Claimed), (Queued, Cancelled),
     (Claimed, Running), (Claimed, Queued), (Claimed, Retry_wait), (Claimed, Cancelled),
     (Claimed, Dead_letter),
     (Running, Completed), (Running, Retry_wait), (Running, Dead_letter), (Running, Cancelled),
     (Running, Queued), (Running, Scheduled),
     (Retry_wait, Queued), (Retry_wait, Cancelled), (Retry_wait, Dead_letter),
     (Dead_letter, Queued)]"

text \<open>
  The trigger \<open>jobs_fsm\<close>, fired before an update that changes the status or the fence: \<open>None\<close>
  lets the row through.
\<close>

definition jobs_fsm :: "job \<Rightarrow> job \<Rightarrow> pg_error option" where
  "jobs_fsm old new =
    (if j_status old = j_status new \<and> j_fence old = j_fence new then None
     else if j_fence new < j_fence old then Some raise_exception
     else if j_status old \<noteq> j_status new \<and> \<not> legal_transition (j_status old) (j_status new)
       then Some raise_exception
     else None)"

text \<open>
  The check constraints of \<open>jobs\<close>: \<open>jobs_terminal_has_finished\<close>, \<open>jobs_active_has_owner\<close>,
  \<open>jobs_running_has_started\<close>, \<open>jobs_idle_has_no_owner\<close>, \<open>jobs_scheduled_deps_or_future\<close>,
  \<open>jobs_fence_matches_attempts\<close>, \<open>jobs_deps_only_while_scheduled\<close> and the column checks on
  \<open>timeout_ms\<close>, \<open>pending_deps\<close> and \<open>scheduled_for\<close>.
\<close>

definition check_job :: "job \<Rightarrow> bool" where
  "check_job j \<longleftrightarrow>
     terminal (j_status j) = (j_finished_at j \<noteq> None) \<and>
     (active (j_status j) \<longrightarrow>
        j_worker_id j \<noteq> None \<and> j_claimed_at j \<noteq> None \<and> j_deadline_at j \<noteq> None) \<and>
     (j_status j = Running \<longrightarrow> j_started_at j \<noteq> None) \<and>
     (j_status j \<in> {Scheduled, Queued, Retry_wait} \<longrightarrow> j_worker_id j = None) \<and>
     (j_status j = Scheduled \<longrightarrow> 0 < j_pending_deps j \<or> j_created_at j < j_run_at j) \<and>
     j_attempt_count j \<le> j_fence j \<and>
     (j_pending_deps j = 0 \<or> j_status j = Scheduled) \<and>
     0 < j_timeout_ms j \<and> 0 \<le> j_pending_deps j \<and>
     (j_schedule_id j = None \<or> j_scheduled_for j \<noteq> None)"

text \<open>One row write of an \<open>update jobs\<close>: the trigger, then the constraints.\<close>

definition write_job :: "job \<Rightarrow> job \<Rightarrow> pg_error + job" where
  "write_job old new =
    (case jobs_fsm old new of
       Some e \<Rightarrow> Inl e
     | None \<Rightarrow> if check_job new then Inr new else Inl check_violation)"

definition update_jobs :: "(job \<Rightarrow> bool) \<Rightarrow> (job \<Rightarrow> job) \<Rightarrow> db \<Rightarrow> pg_error + db" where
  "update_jobs P f d =
     rbind (try_update P (\<lambda>j. write_job j (f j)) (jobs d)) (\<lambda>js. Inr (d\<lparr>jobs := js\<rparr>))"

definition write_ok :: "job \<Rightarrow> job \<Rightarrow> bool" where
  "write_ok old new \<longleftrightarrow>
     j_fence old \<le> j_fence new \<and>
     (j_status old = j_status new \<or> legal_transition (j_status old) (j_status new)) \<and>
     check_job new"

lemma write_job_eq: "write_job old new = (if write_ok old new then Inr new else
    (if jobs_fsm old new = None then Inl check_violation else Inl raise_exception))"
  by (auto simp: write_job_def write_ok_def jobs_fsm_def)

lemma write_job_accepts: "(\<exists>r. write_job old new = Inr r) \<longleftrightarrow> write_ok old new"
  by (simp add: write_job_eq)

text \<open>
  The one fact about updates of \<open>jobs\<close> the rest of the development uses: an update succeeds exactly
  when the trigger and the constraints accept every row it writes, and then only \<open>jobs\<close> changes.
\<close>

lemma update_jobs_Inr_iff:
  "update_jobs P f d = Inr d' \<longleftrightarrow>
     (\<forall>j \<in> set (jobs d). P j \<longrightarrow> write_ok j (f j)) \<and>
     d' = d\<lparr>jobs := update_where P f (jobs d)\<rparr>"
proof -
  have "update_where P (\<lambda>r. projr (write_job r (f r))) (jobs d) = update_where P f (jobs d)"
    if "\<forall>j \<in> set (jobs d). P j \<longrightarrow> write_ok j (f j)"
    using that by (auto intro!: update_where_cong simp: write_job_eq)
  then show ?thesis
    unfolding update_jobs_def result_simps try_update_Inr_iff write_job_accepts by auto
qed

lemma update_jobs_ok:
  "(\<And>j. j \<in> set (jobs d) \<Longrightarrow> P j \<Longrightarrow> write_ok j (f j)) \<Longrightarrow>
   update_jobs P f d = Inr (d\<lparr>jobs := update_where P f (jobs d)\<rparr>)"
  by (simp add: update_jobs_Inr_iff)

section \<open>The outbox\<close>

text \<open>
  \<open>fl.emit\<close>: one event row, its id the next of the table's sequence. The advisory lock the function
  takes makes emissions of one project totally ordered; here they are ordered by the list.
\<close>

definition emit :: "string \<Rightarrow> uuid \<Rightarrow> uuid \<Rightarrow> json_object \<Rightarrow> timestamptz \<Rightarrow> db \<Rightarrow> db" where
  "emit topic entity project payload now d =
     d\<lparr>events := events d @ [\<lparr>e_id = event_seq d + 1, e_topic = topic, e_entity_id = entity,
          e_project_id = project, e_payload = payload, e_created_at = now\<rparr>],
       event_seq := event_seq d + 1\<rparr>"

text \<open>\<open>perform fl.emit(...) from (select ...)\<close>: one emission per selected row.\<close>

definition emit_all :: "('r \<Rightarrow> string \<times> uuid \<times> uuid \<times> json_object) \<Rightarrow> timestamptz \<Rightarrow> 'r list \<Rightarrow> db \<Rightarrow> db"
  where
  "emit_all g now rs d = fold (\<lambda>r. case g r of (t, i, p, o') \<Rightarrow> emit t i p o' now) rs d"

text \<open>Emission touches the outbox only.\<close>

lemma emit_frame [simp]:
  "queues (emit t i p o' n d) = queues d" "queue_shards (emit t i p o' n d) = queue_shards d"
  "retry_policies (emit t i p o' n d) = retry_policies d" "jobs (emit t i p o' n d) = jobs d"
  "job_leases (emit t i p o' n d) = job_leases d"
  "job_executions (emit t i p o' n d) = job_executions d"
  "job_dependencies (emit t i p o' n d) = job_dependencies d"
  "dead_letter_jobs (emit t i p o' n d) = dead_letter_jobs d"
  "queue_stats_minute (emit t i p o' n d) = queue_stats_minute d"
  "job_fence_violations (emit t i p o' n d) = job_fence_violations d"
  "workers (emit t i p o' n d) = workers d" "worker_queues (emit t i p o' n d) = worker_queues d"
  "job_logs (emit t i p o' n d) = job_logs d" "schedules (emit t i p o' n d) = schedules d"
  "idempotency_keys (emit t i p o' n d) = idempotency_keys d" "jobs_archive (emit t i p o' n d) = jobs_archive d"
  "audit_log (emit t i p o' n d) = audit_log d" "low_water_id (emit t i p o' n d) = low_water_id d"
  "partitions (emit t i p o' n d) = partitions d"
  "failure_summaries (emit t i p o' n d) = failure_summaries d"
  "users (emit t i p o' n d) = users d"
  "organizations (emit t i p o' n d) = organizations d"
  "org_members (emit t i p o' n d) = org_members d"
  "projects (emit t i p o' n d) = projects d"
  "sessions (emit t i p o' n d) = sessions d"
  "job_executions_archive (emit t i p o' n d) = job_executions_archive d"
  "job_logs_archive (emit t i p o' n d) = job_logs_archive d"
  "dead_letter_jobs_archive (emit t i p o' n d) = dead_letter_jobs_archive d"
  by (simp_all add: emit_def)

lemma emit_all_Nil [simp]: "emit_all g n [] d = d"
  by (simp add: emit_all_def)

lemma emit_all_Cons:
  "emit_all g n (r # rs) d = emit_all g n rs (case g r of (t, i, p, o') \<Rightarrow> emit t i p o' n d)"
  by (simp add: emit_all_def split: prod.split)

lemma emit_all_frame [simp]:
  "queues (emit_all g n rs d) = queues d" "queue_shards (emit_all g n rs d) = queue_shards d"
  "retry_policies (emit_all g n rs d) = retry_policies d" "jobs (emit_all g n rs d) = jobs d"
  "job_leases (emit_all g n rs d) = job_leases d"
  "job_executions (emit_all g n rs d) = job_executions d"
  "job_dependencies (emit_all g n rs d) = job_dependencies d"
  "dead_letter_jobs (emit_all g n rs d) = dead_letter_jobs d"
  "queue_stats_minute (emit_all g n rs d) = queue_stats_minute d"
  "job_fence_violations (emit_all g n rs d) = job_fence_violations d"
  "workers (emit_all g n rs d) = workers d" "worker_queues (emit_all g n rs d) = worker_queues d"
  "job_logs (emit_all g n rs d) = job_logs d" "schedules (emit_all g n rs d) = schedules d"
  "idempotency_keys (emit_all g n rs d) = idempotency_keys d" "jobs_archive (emit_all g n rs d) = jobs_archive d"
  "audit_log (emit_all g n rs d) = audit_log d" "low_water_id (emit_all g n rs d) = low_water_id d"
  "partitions (emit_all g n rs d) = partitions d"
  "failure_summaries (emit_all g n rs d) = failure_summaries d"
  "users (emit_all g n rs d) = users d"
  "organizations (emit_all g n rs d) = organizations d"
  "org_members (emit_all g n rs d) = org_members d"
  "projects (emit_all g n rs d) = projects d"
  "sessions (emit_all g n rs d) = sessions d"
  "job_executions_archive (emit_all g n rs d) = job_executions_archive d"
  "job_logs_archive (emit_all g n rs d) = job_logs_archive d"
  "dead_letter_jobs_archive (emit_all g n rs d) = dead_letter_jobs_archive d"
  by (induction rs arbitrary: d; simp add: emit_all_Cons split: prod.split)+

text \<open>Emission appends to the outbox, one event per row, with the topic and the entity given.\<close>

lemma emit_all_events:
  "\<exists>es. events (emit_all g n rs d) = events d @ es \<and>
     map (\<lambda>e. (e_topic e, e_entity_id e, e_project_id e, e_payload e)) es = map g rs"
proof (induction rs arbitrary: d)
  case (Cons r rs)
  obtain t i p o' where g: "g r = (t, i, p, o')" by (cases "g r") auto
  from Cons [of "emit t i p o' n d"] obtain es where
    "events (emit_all g n rs (emit t i p o' n d)) = events (emit t i p o' n d) @ es"
    "map (\<lambda>e. (e_topic e, e_entity_id e, e_project_id e, e_payload e)) es = map g rs" by blast
  with g show ?case
    by (intro exI [of _ "\<lparr>e_id = event_seq d + 1, e_topic = t, e_entity_id = i, e_project_id = p,
        e_payload = o', e_created_at = n\<rparr> # es"]) (simp add: emit_all_Cons emit_def)
qed simp

lemma emit_all_topic:
  assumes "\<And>r. fst (g r) = t"
  shows "\<exists>es. events (emit_all g n rs d) = events d @ es \<and> (\<forall>e \<in> set es. e_topic e = t)"
proof -
  from emit_all_events obtain es where es: "events (emit_all g n rs d) = events d @ es"
    "map (\<lambda>e. (e_topic e, e_entity_id e, e_project_id e, e_payload e)) es = map g rs" by blast
  have "map e_topic es = map (\<lambda>r. fst (g r)) rs"
    using arg_cong [OF es(2), of "map fst"] by (simp add: comp_def)
  then have "set (map e_topic es) \<subseteq> {t}" by (simp add: assms image_subset_iff)
  with es(1) show ?thesis by auto
qed

text \<open>Event ids: strictly increasing along the table and never above the sequence.\<close>

definition outbox_ok :: "db \<Rightarrow> bool" where
  "outbox_ok d \<longleftrightarrow> sorted_wrt (<) (map e_id (events d)) \<and> (\<forall>e \<in> set (events d). e_id e \<le> event_seq d)"

lemma emit_outbox_ok: "outbox_ok d \<Longrightarrow> outbox_ok (emit t i p o' n d)"
  by (force simp: outbox_ok_def emit_def sorted_wrt_append)

lemma emit_all_outbox_ok: "outbox_ok d \<Longrightarrow> outbox_ok (emit_all g n rs d)"
  by (induction rs arbitrary: d) (auto simp: emit_all_Cons emit_outbox_ok split: prod.split)

end
