(* ===== verification/Lifecycle.thy ===== *)
theory Lifecycle
  imports Schema
begin

text \<open>
  The job state machine seen from outside: what the trigger \<open>jobs_fsm\<close> guarantees about every row
  any statement ever writes, and the graph facts of \<open>fl.legal_transition\<close> the other theories use.
  \<open>fl.backoff\<close>, the delay a failed attempt waits, is here too: it is the only arithmetic of a
  transition.
\<close>

section \<open>The transition graph\<close>

lemma legal_transition_from_completed [simp]: "\<not> legal_transition Completed s"
  by (cases s) auto

lemma legal_transition_from_cancelled [simp]: "\<not> legal_transition Cancelled s"
  by (cases s) auto

lemma legal_transition_from_dead_letter: "legal_transition Dead_letter s \<longleftrightarrow> s = Queued"
  by (cases s) auto

lemma legal_transition_to_running: "legal_transition s Running \<longleftrightarrow> s = Claimed"
  by (cases s) auto

lemma legal_transition_to_claimed: "legal_transition s Claimed \<longleftrightarrow> s = Queued"
  by (cases s) auto

lemma legal_transition_to_completed: "legal_transition s Completed \<longleftrightarrow> s = Running"
  by (cases s) auto

text \<open>Reachability in the graph, by the edges of the trigger.\<close>

inductive reaches :: "job_status \<Rightarrow> job_status \<Rightarrow> bool" where
  here: "reaches s s"
| edge: "reaches s t \<Longrightarrow> legal_transition t u \<Longrightarrow> reaches s u"

lemma reaches_trans: "reaches t u \<Longrightarrow> reaches s t \<Longrightarrow> reaches s u"
  by (induction rule: reaches.induct) (auto intro: reaches.edge)

lemma reaches_from_completed: "reaches s t \<Longrightarrow> s = Completed \<Longrightarrow> t = Completed"
  by (induction rule: reaches.induct) auto

lemma reaches_from_cancelled: "reaches s t \<Longrightarrow> s = Cancelled \<Longrightarrow> t = Cancelled"
  by (induction rule: reaches.induct) auto

lemma reaches_edge: "legal_transition s t \<Longrightarrow> reaches s t"
  by (blast intro: reaches.intros)

text \<open>
  The transition function compiled into the trigger and the table \<open>job_transitions\<close> that documents
  it are the same relation on all status pairs, in both directions, as the migration's \<open>do\<close> block asserts;
  the table lists each of its nineteen edges once; and exactly \<open>completed\<close> and \<open>cancelled\<close> have no way out.
\<close>

theorem legal_transition_is_table:
  "(\<forall>a b. legal_transition a b \<longleftrightarrow> (a, b) \<in> set job_transitions) \<and>
   distinct job_transitions \<and> length job_transitions = 19 \<and>
   {s. \<forall>t. \<not> legal_transition s t} = {Completed, Cancelled}"
proof (intro conjI allI)
  fix a b
  show "legal_transition a b \<longleftrightarrow> (a, b) \<in> set job_transitions"
    by (cases a; cases b) (simp_all add: job_transitions_def)
next
  show "distinct job_transitions" by (simp add: job_transitions_def)
  show "length job_transitions = 19" by (simp add: job_transitions_def)
  have "\<exists>t. legal_transition s t" if "s \<noteq> Completed" "s \<noteq> Cancelled" for s
    using that by (cases s) (auto intro: exI [of _ Cancelled] exI [of _ Queued])
  then show "{s. \<forall>t. \<not> legal_transition s t} = {Completed, Cancelled}" by auto
qed

section \<open>What an update of jobs can do to a row\<close>

text \<open>
  \<open>evolves d d'\<close>: every job of \<open>d'\<close> that \<open>d\<close> knew kept its identity columns, did not lose fence and moved
  along the graph. It is reflexive and transitive, and every accepted update gives it.
\<close>

definition row_evolves :: "job \<Rightarrow> job \<Rightarrow> bool" where
  "row_evolves j j' \<longleftrightarrow> j_id j' = j_id j \<and> j_fence j \<le> j_fence j' \<and> reaches (j_status j) (j_status j')"

lemma row_evolves_refl [simp]: "row_evolves j j"
  by (simp add: row_evolves_def reaches.here)

lemma row_evolves_trans: "row_evolves a b \<Longrightarrow> row_evolves b c \<Longrightarrow> row_evolves a c"
  by (auto simp: row_evolves_def intro: reaches_trans)

lemma write_ok_evolves: "write_ok j j' \<Longrightarrow> j_id j' = j_id j \<Longrightarrow> row_evolves j j'"
  by (auto simp: write_ok_def row_evolves_def intro: reaches.here reaches_edge)

definition evolves :: "db \<Rightarrow> db \<Rightarrow> bool" where
  "evolves d d' \<longleftrightarrow> (\<forall>j' \<in> set (jobs d'). \<forall>j \<in> set (jobs d). j_id j = j_id j' \<longrightarrow> row_evolves j j')"

lemma evolves_same_jobs:
  assumes "distinct (map j_id (jobs d))" and "jobs d' = jobs d"
  shows "evolves d d'"
  unfolding evolves_def assms(2) by (metis assms(1) key_unique row_evolves_refl)

lemma update_jobs_evolves:
  assumes "distinct (map j_id (jobs d))" and "update_jobs P f d = Inr d'"
    and "\<And>j. j_id (f j) = j_id j"
  shows "evolves d d'"
proof -
  have ok: "\<forall>j \<in> set (jobs d). P j \<longrightarrow> write_ok j (f j)"
    and d': "d' = d\<lparr>jobs := update_where P f (jobs d)\<rparr>"
    using assms(2) by (auto simp: update_jobs_Inr_iff)
  show ?thesis
    unfolding evolves_def
  proof (intro ballI impI)
    fix j' j assume "j' \<in> set (jobs d')" and j: "j \<in> set (jobs d)" and id: "j_id j = j_id j'"
    then obtain k where k: "k \<in> set (jobs d)" "j' = (if P k then f k else k)"
      using d' by (auto simp: set_update_where)
    with id assms(3) have "j_id j = j_id k" by (auto split: if_splits)
    with assms(1) j k(1) have "j = k" by (blast intro: key_unique)
    with k ok assms(3) show "row_evolves j j'" by (auto intro: write_ok_evolves)
  qed
qed

section \<open>Rows of jobs\<close>

text \<open>The key and the constraints of \<open>jobs\<close>, kept by every accepted update that leaves ids alone.\<close>

definition jobs_wf :: "db \<Rightarrow> bool" where
  "jobs_wf d \<longleftrightarrow> distinct (map j_id (jobs d)) \<and> (\<forall>j \<in> set (jobs d). check_job j)"

lemma jobs_wfD:
  assumes "jobs_wf d"
  shows "distinct (map j_id (jobs d))" "j \<in> set (jobs d) \<Longrightarrow> check_job j"
    "job_of d i = Some j \<longleftrightarrow> j \<in> set (jobs d) \<and> j_id j = i"
    "j \<in> set (jobs d) \<Longrightarrow> k \<in> set (jobs d) \<Longrightarrow> j_id j = j_id k \<Longrightarrow> j = k"
  using assms key_unique [of j_id "jobs d" j k] by (auto simp: jobs_wf_def lookup_row_Some_iff)

lemma jobs_wf_same: "jobs d' = jobs d \<Longrightarrow> jobs_wf d \<Longrightarrow> jobs_wf d'"
  by (simp add: jobs_wf_def)

lemma update_jobs_wf:
  assumes "jobs_wf d" and "update_jobs P f d = Inr d'" and "\<And>j. j_id (f j) = j_id j"
  shows "jobs_wf d'"
  using assms by (auto simp: jobs_wf_def update_jobs_Inr_iff map_update_where in_update_where_iff write_ok_def)

lemma job_of_update:
  "(\<And>j. j_id (f j) = j_id j) \<Longrightarrow>
   lookup_row j_id i (update_where P f js) = map_option (\<lambda>j. if P j then f j else j) (lookup_row j_id i js)"
  by (simp add: lookup_row_update)

section \<open>Backoff\<close>

text \<open>
  \<open>fl.backoff\<close>. The delay in milliseconds before jitter is exact; \<open>jitter_on\<close> is the session
  setting \<open>fl.jitter\<close> and \<open>rnd\<close> the value of \<open>random()\<close>. The result is an interval, rounded to
  the microsecond by \<open>make_interval\<close>.
\<close>

definition backoff_ms :: "backoff_kind \<Rightarrow> int \<Rightarrow> int \<Rightarrow> nat \<Rightarrow> int" where
  "backoff_ms kind base_ms max_ms attempt =
     min max_ms (base_ms * (case kind of
        Fixed \<Rightarrow> 1
      | Linear \<Rightarrow> int (max attempt 1)
      | Exponential \<Rightarrow> 2 ^ (attempt - 1)))"

definition backoff :: "backoff_kind \<Rightarrow> int \<Rightarrow> int \<Rightarrow> bool \<Rightarrow> bool \<Rightarrow> rat \<Rightarrow> nat \<Rightarrow> interval" where
  "backoff kind base_ms max_ms jitter jitter_on rnd attempt =
     (let d = backoff_ms kind base_ms max_ms attempt
      in if jitter \<and> jitter_on then round (rnd * of_int (d * 1000)) else d * 1000)"

lemma backoff_ms_bounds:
  assumes "0 < base_ms" and "base_ms \<le> max_ms"
  shows "0 < backoff_ms kind base_ms max_ms attempt" "base_ms \<le> backoff_ms kind base_ms max_ms attempt"
    "backoff_ms kind base_ms max_ms attempt \<le> max_ms"
proof -
  have "1 \<le> (case kind of Fixed \<Rightarrow> 1 | Linear \<Rightarrow> int (max attempt 1) | Exponential \<Rightarrow> 2 ^ (attempt - 1))"
    by (auto split: backoff_kind.split)
  then have "base_ms \<le> base_ms * (case kind of Fixed \<Rightarrow> 1 | Linear \<Rightarrow> int (max attempt 1)
      | Exponential \<Rightarrow> 2 ^ (attempt - 1))"
    using assms(1) by simp
  then show "base_ms \<le> backoff_ms kind base_ms max_ms attempt"
    using assms by (simp add: backoff_ms_def)
  then show "0 < backoff_ms kind base_ms max_ms attempt"
    using assms by linarith
  show "backoff_ms kind base_ms max_ms attempt \<le> max_ms" by (simp add: backoff_ms_def)
qed

lemma backoff_ms_mono:
  assumes "0 < base_ms" and "a \<le> b"
  shows "backoff_ms kind base_ms max_ms a \<le> backoff_ms kind base_ms max_ms b"
proof -
  have "(2::int) ^ (a - 1) \<le> 2 ^ (b - 1)"
    using assms(2) by (intro power_increasing) auto
  moreover have "int (max a 1) \<le> int (max b 1)"
    using assms(2) by simp
  ultimately show ?thesis
    using assms(1) unfolding backoff_ms_def
    by (cases kind) (simp_all only: backoff_kind.case order_refl min.mono mult_left_mono less_imp_le)
qed

lemma backoff_bounds:
  assumes "0 < base_ms" and "base_ms \<le> max_ms" and "0 \<le> rnd" and "rnd < 1"
  shows "0 \<le> backoff kind base_ms max_ms jitter on rnd attempt"
    "backoff kind base_ms max_ms jitter on rnd attempt \<le> max_ms * 1000"
proof -
  let ?d = "backoff_ms kind base_ms max_ms attempt"
  have d: "0 < ?d" "?d \<le> max_ms" using backoff_ms_bounds [OF assms(1,2)] by auto
  have r: "0 \<le> rnd * rat_of_int (?d * 1000)" "rnd * rat_of_int (?d * 1000) \<le> rat_of_int (?d * 1000)"
    using d assms(3,4) by (auto simp: mult_le_cancel_right1)
  have "round (0::rat) \<le> round (rnd * rat_of_int (?d * 1000))"
    using r(1) by (rule round_mono)
  moreover have "round (rnd * rat_of_int (?d * 1000)) \<le> ?d * 1000"
    using round_mono [OF r(2)] by (simp only: round_of_int)
  ultimately show "0 \<le> backoff kind base_ms max_ms jitter on rnd attempt"
    "backoff kind base_ms max_ms jitter on rnd attempt \<le> max_ms * 1000"
    using d by (auto simp: backoff_def Let_def)
qed

text \<open>
  A retry is never scheduled in the past nor later than the policy's \<open>max_delay_ms\<close>, whatever the kind
  of backoff, the attempt number and the random draw; with jitter off the delay never shrinks from one
  attempt to the next, and the first failure waits exactly \<open>base_delay_ms\<close>.
\<close>

theorem backoff_within_policy:
  assumes "0 < base_ms" and "base_ms \<le> max_ms" and "0 \<le> rnd" and "rnd < 1"
  shows "0 \<le> backoff kind base_ms max_ms jitter on rnd attempt \<and>
    backoff kind base_ms max_ms jitter on rnd attempt \<le> max_ms * 1000 \<and>
    backoff kind base_ms max_ms False on rnd attempt \<le> backoff kind base_ms max_ms False on rnd (attempt + 1) \<and>
    backoff kind base_ms max_ms False on rnd 1 = base_ms * 1000"
proof (intro conjI)
  show "0 \<le> backoff kind base_ms max_ms jitter on rnd attempt"
    "backoff kind base_ms max_ms jitter on rnd attempt \<le> max_ms * 1000"
    using backoff_bounds [OF assms] by auto
  show "backoff kind base_ms max_ms False on rnd attempt \<le> backoff kind base_ms max_ms False on rnd (attempt + 1)"
    using backoff_ms_mono [OF assms(1), of attempt "attempt + 1"] by (simp add: backoff_def)
  show "backoff kind base_ms max_ms False on rnd 1 = base_ms * 1000"
    using assms(2) by (auto simp: backoff_def backoff_ms_def split: backoff_kind.split)
qed

theorem backoff_within_policy_witness:
  "0 \<le> backoff Exponential 1000 3600000 True True (1/2) 3 \<and>
   backoff Exponential 1000 3600000 True True (1/2) 3 \<le> 3600000 * 1000 \<and>
   backoff Exponential 1000 3600000 False True (1/2) 3 \<le> backoff Exponential 1000 3600000 False True (1/2) (3 + 1) \<and>
   backoff Exponential 1000 3600000 False True (1/2) 1 = 1000 * 1000"
  by (rule backoff_within_policy [of 1000 3600000 "1/2" Exponential True True 3]) simp_all

end
