(* ===== verification/Samples.thy ===== *)
theory Samples
  imports Schema
begin

text \<open>
  One small concrete database, on which the witnesses of the development evaluate the model: a queue with
  two slots on one shard, a running job (11) whose completion releases a dependent job (12), and a job that
  is ready to be claimed (10).
\<close>

definition sample_now :: timestamptz where "sample_now = 100000000"

definition sample_policy :: retry_policy where
  "sample_policy = \<lparr>p_id = 9, p_project_id = 3, p_name = ''standard'', p_kind = Exponential, p_max_attempts = 3,
     p_max_lost_attempts = 3, p_base_delay_ms = 1000, p_max_delay_ms = 60000, p_jitter = False\<rparr>"

definition sample_queue :: queue where
  "sample_queue = \<lparr>q_id = 7, q_project_id = 3, q_name = ''mail'', q_paused = False, q_retry_policy_id = 9,
     q_default_priority = 0, q_max_concurrency = 2, q_shards = 1, q_max_depth = None,
     q_rl_limit_per_sec = 0, q_rl_burst = 0, q_breaker_state = Closed, q_breaker_open_until = None,
     q_breaker_probe_budget = 0, q_created_at = 0\<rparr>"

definition sample_shard :: queue_shard where
  "sample_shard = \<lparr>s_queue_id = 7, s_shard = 0, s_in_flight = 1, s_rl_tokens = 0, s_rl_refilled_at = 0\<rparr>"

definition sample_queued :: job where
  "sample_queued = \<lparr>j_id = 10, j_project_id = 3, j_queue_id = 7, j_schedule_id = None, j_scheduled_for = None,
     j_batch_id = None, j_type = ''email'', j_payload = '''', j_status = Queued, j_priority = 0, j_run_at = 50,
     j_fence = 0, j_attempt_count = 0, j_replay_generation = 0, j_snooze_count = 0, j_worker_id = None,
     j_deadline_at = None, j_timeout_ms = 300000, j_retry_policy_id = 9, j_pending_deps = 0,
     j_created_at = 50, j_claimed_at = None, j_started_at = None, j_finished_at = None, j_shard = 0\<rparr>"

definition sample_running :: job where
  "sample_running = sample_queued\<lparr>j_id := 11, j_status := Running, j_fence := 1, j_attempt_count := 1,
     j_worker_id := Some 5, j_deadline_at := Some 300000060, j_claimed_at := Some 60, j_started_at := Some 70\<rparr>"

definition sample_waiting :: job where
  "sample_waiting = sample_queued\<lparr>j_id := 12, j_status := Scheduled, j_pending_deps := 1\<rparr>"

definition sample_lease :: lease where
  "sample_lease = \<lparr>l_job_id = 11, l_fence = 1, l_worker_id = 5, l_expires_at = 30000060,
     l_progress = None, l_updated_at = 60\<rparr>"

definition sample_exec :: execution where
  "sample_exec = \<lparr>x_id = 100, x_job_id = 11, x_queue_id = 7, x_attempt = 1, x_replay_generation = 0,
     x_fence = 1, x_worker_id = 5, x_outcome = None, x_error_class = None, x_error_message = None,
     x_started_at = 70, x_finished_at = None\<rparr>"

definition sample_worker :: worker_row where
  "sample_worker = \<lparr>w_id = 5, w_project_id = 3, w_hostname = ''host'', w_pid = 1, w_max_concurrency = 4,
     w_handlers = [''email''], w_state = W_active, w_started_at = 0, w_last_seen_at = 0\<rparr>"

definition sample_db :: db where
  "sample_db = empty_db\<lparr>queues := [sample_queue], queue_shards := [sample_shard],
     retry_policies := [sample_policy], jobs := [sample_queued, sample_running, sample_waiting],
     job_leases := [sample_lease], job_executions := [sample_exec], job_dependencies := [(11, 12)],
     workers := [sample_worker], worker_queues := [(5, 7)]\<rparr>"

lemmas sample_defs = sample_now_def sample_policy_def sample_queue_def sample_shard_def sample_queued_def
  sample_running_def sample_waiting_def sample_lease_def sample_exec_def sample_worker_def sample_db_def
  empty_db_def

end
