(* ===== verification/Admission.thy ===== *)
theory Admission
  imports Lifecycle Samples
begin

text \<open>
  Admission to a queue: \<open>fl.queue_admit\<close>, \<open>fl.queue_release\<close>, \<open>fl.in_flight\<close>, \<open>fl.shard_slots\<close>,
  \<open>fl.reconcile_in_flight\<close> and the trigger \<open>fl.spread\<close> of \<open>src/migrations/027_shards.sql\<close> and
  \<open>030_shard_resize.sql\<close>, with the Go wrappers \<open>admit\<close>, \<open>Release\<close> and \<open>ReconcileInFlight\<close> of
  \<open>src/internal/jobs\<close>.

  \<open>queue_admit\<close> reads the queue and picks a shard without a lock, then locks the rows it changes.
  The unlocked reads come from \<open>seen\<close>, an earlier state of the database; the locked ones from the
  current state. \<open>seen = d\<close> is the case without interference.
\<close>

section \<open>Row constraints\<close>

text \<open>The checks of \<open>queues\<close> and \<open>queue_shards\<close> that the statements here can run into.\<close>

definition check_queue :: "queue \<Rightarrow> bool" where
  "check_queue q \<longleftrightarrow>
     0 < q_max_concurrency q \<and> 1 \<le> q_shards q \<and> q_shards q \<le> 64 \<and>
     (\<forall>m. q_max_depth q = Some m \<longrightarrow> 0 < m) \<and>
     0 \<le> q_rl_limit_per_sec q \<and> 0 \<le> q_rl_burst q \<and>
     (q_breaker_state q = Open \<longrightarrow> q_breaker_open_until q \<noteq> None) \<and>
     0 \<le> q_breaker_probe_budget q \<and>
     (q_breaker_state q = Half_open \<or> q_breaker_probe_budget q = 0)"

definition check_shard :: "queue_shard \<Rightarrow> bool" where
  "check_shard s \<longleftrightarrow> 0 \<le> s_shard s \<and> 0 \<le> s_in_flight s \<and> 0 \<le> s_rl_tokens s"

definition update_queues :: "(queue \<Rightarrow> bool) \<Rightarrow> (queue \<Rightarrow> queue) \<Rightarrow> db \<Rightarrow> pg_error + db" where
  "update_queues P f d =
     rbind (try_update P (\<lambda>q. if check_queue (f q) then Inr (f q) else Inl check_violation) (queues d))
       (\<lambda>qs. Inr (d\<lparr>queues := qs\<rparr>))"

definition update_shards :: "(queue_shard \<Rightarrow> bool) \<Rightarrow> (queue_shard \<Rightarrow> queue_shard) \<Rightarrow> db \<Rightarrow> pg_error + db"
  where
  "update_shards P f d =
     rbind (try_update P (\<lambda>s. if check_shard (f s) then Inr (f s) else Inl check_violation) (queue_shards d))
       (\<lambda>ss. Inr (d\<lparr>queue_shards := ss\<rparr>))"

lemma try_update_check_Inr_iff:
  "try_update P (\<lambda>r. if C (f r) then Inr (f r) else Inl e) rs = Inr rs' \<longleftrightarrow>
     (\<forall>r \<in> set rs. P r \<longrightarrow> C (f r)) \<and> rs' = update_where P f rs"
proof (induction rs arbitrary: rs')
  case Nil
  then show ?case by auto
next
  case (Cons r rs)
  show ?case by (cases "P r"; cases "C (f r)") (auto simp: result_simps Cons.IH)
qed

lemma update_queues_Inr_iff:
  "update_queues P f d = Inr d' \<longleftrightarrow>
     (\<forall>q \<in> set (queues d). P q \<longrightarrow> check_queue (f q)) \<and> d' = d\<lparr>queues := update_where P f (queues d)\<rparr>"
  by (auto simp: update_queues_def result_simps try_update_check_Inr_iff)

lemma update_shards_Inr_iff:
  "update_shards P f d = Inr d' \<longleftrightarrow>
     (\<forall>s \<in> set (queue_shards d). P s \<longrightarrow> check_shard (f s)) \<and>
     d' = d\<lparr>queue_shards := update_where P f (queue_shards d)\<rparr>"
  by (auto simp: update_shards_def result_simps try_update_check_Inr_iff)

section \<open>Slots per shard\<close>

definition shard_slots :: "int \<Rightarrow> int \<Rightarrow> int \<Rightarrow> int" where
  "shard_slots max_concurrency shards s =
     max_concurrency div shards + (if s < max_concurrency mod shards then 1 else 0)"

definition in_flight :: "uuid \<Rightarrow> db \<Rightarrow> int" where
  "in_flight q d = sum_list (map s_in_flight (filter (\<lambda>s. s_queue_id s = q) (queue_shards d)))"

section \<open>Admission\<close>

text \<open>The tokens a shard's bucket holds at \<open>now\<close>, refilled at its share of the rate, at most its share of the burst.\<close>

definition rl_available :: "queue \<Rightarrow> queue_shard \<Rightarrow> timestamptz \<Rightarrow> rat" where
  "rl_available qr s now =
     min (q_rl_burst qr / of_int (q_shards qr))
         (s_rl_tokens s + of_int (now - s_rl_refilled_at s) / 1000000 *
            (q_rl_limit_per_sec qr / of_int (q_shards qr)))"

text \<open>
  The circuit breaker part: \<open>None\<close> when the queue is not admitting, otherwise how many slots may be
  wanted and the state after a cooled down breaker went half open. The row is locked here, so the
  reads are of the current state; a row deleted in between reads as nulls, which pass the tests.
\<close>

definition coalesce :: "'a option \<Rightarrow> 'a \<Rightarrow> 'a" where
  "coalesce x y = (case x of None \<Rightarrow> y | Some v \<Rightarrow> v)"

definition breaker_gate :: "queue \<Rightarrow> int \<Rightarrow> timestamptz \<Rightarrow> db \<Rightarrow> pg_error + (int \<times> db) option" where
  "breaker_gate qr want now d =
    (if q_breaker_state qr = Closed then Inr (Some (want, d))
     else case queue_of d (q_id qr) of
       None \<Rightarrow> Inr (Some (1, d))
     | Some br \<Rightarrow>
         if q_breaker_state br = Open then
           (if now < coalesce (q_breaker_open_until br) now then Inr None
            else rbind (update_queues (\<lambda>q. q_id q = q_id qr)
                          (\<lambda>q. q\<lparr>q_breaker_state := Half_open, q_breaker_probe_budget := 1\<rparr>) d)
                   (\<lambda>d1. Inr (Some (1, d1))))
         else if q_breaker_probe_budget br \<le> 0 then Inr None
         else Inr (Some (1, d)))"

text \<open>The shard with a free slot that comes first in the caller's rotation.\<close>

definition pick_shard :: "queue \<Rightarrow> int \<Rightarrow> db \<Rightarrow> int option" where
  "pick_shard qr rot seen =
    (case order_limit (\<lambda>s. (s_shard s + rot) mod q_shards qr) 1
            (filter (\<lambda>s. s_queue_id s = q_id qr \<and>
                         s_in_flight s < shard_slots (q_max_concurrency qr) (q_shards qr) (s_shard s))
              (queue_shards seen)) of
       [] \<Rightarrow> None
     | s # _ \<Rightarrow> Some (s_shard s))"

definition admit_slots :: "queue \<Rightarrow> int \<Rightarrow> queue_shard \<Rightarrow> timestamptz \<Rightarrow> int" where
  "admit_slots qr want sr now =
     min want (min (max (shard_slots (q_max_concurrency qr) (q_shards qr) (s_shard sr) - s_in_flight sr) 0)
       (if q_rl_limit_per_sec qr = 0 then want else \<lfloor>rl_available qr sr now\<rfloor>))"

definition take_slots :: "queue \<Rightarrow> int \<Rightarrow> timestamptz \<Rightarrow> queue_shard \<Rightarrow> queue_shard" where
  "take_slots qr slots now s =
     s\<lparr>s_in_flight := s_in_flight s + slots,
       s_rl_tokens := (if q_rl_limit_per_sec qr = 0 then s_rl_tokens s
                       else rl_available qr s now - of_int slots),
       s_rl_refilled_at := (if q_rl_limit_per_sec qr = 0 then s_rl_refilled_at s else now)\<rparr>"

definition queue_admit :: "uuid \<Rightarrow> int \<Rightarrow> int \<Rightarrow> db \<Rightarrow> timestamptz \<Rightarrow> (int \<times> int) tx" where
  "queue_admit q want rot seen now d =
    (case queue_of seen q of
       None \<Rightarrow> Inr ((0, 0), d)
     | Some qr \<Rightarrow>
         if q_paused qr then Inr ((0, 0), d)
         else rbind (breaker_gate qr want now d) (\<lambda>g. case g of
           None \<Rightarrow> Inr ((0, 0), d)
         | Some (want', d1) \<Rightarrow>
             (case pick_shard qr rot seen of
                None \<Rightarrow> Inr ((0, 0), d1)
              | Some sh \<Rightarrow>
                  (case shard_of d1 q sh of
                     None \<Rightarrow> Inr ((0, sh), d1)
                   | Some sr \<Rightarrow>
                       let slots = admit_slots qr want' sr now
                       in if slots \<le> 0 then Inr ((0, sh), d1)
                          else rbind (update_shards (\<lambda>s. s_queue_id s = q \<and> s_shard s = sh)
                                        (take_slots qr slots now) d1)
                            (\<lambda>d2. if q_breaker_state qr = Closed then Inr ((slots, sh), d2)
                                  else rbind (update_queues (\<lambda>q'. q_id q' = q)
                                         (\<lambda>q'. q'\<lparr>q_breaker_probe_budget := q_breaker_probe_budget q' - slots\<rparr>) d2)
                                       (\<lambda>d3. Inr ((slots, sh), d3)))))))"

section \<open>Release and repair\<close>

definition queue_release :: "uuid \<Rightarrow> int \<Rightarrow> int \<Rightarrow> db \<Rightarrow> db" where
  "queue_release q s n d =
     d\<lparr>queue_shards := update_where (\<lambda>r. s_queue_id r = q \<and> s_shard r = s)
        (\<lambda>r. r\<lparr>s_in_flight := max (s_in_flight r - n) 0\<rparr>) (queue_shards d)\<rparr>"

definition active_in :: "uuid \<Rightarrow> int \<Rightarrow> db \<Rightarrow> nat" where
  "active_in q s d = count_where (\<lambda>j. j_queue_id j = q \<and> j_shard j = s \<and> active (j_status j)) (jobs d)"

text \<open>One round of the loop of \<open>fl.reconcile_in_flight\<close>, and the loop; the result counts the repaired rows.\<close>

definition reconcile_row :: "queue_shard \<Rightarrow> int \<times> db \<Rightarrow> int \<times> db" where
  "reconcile_row r st =
    (let (fixed, d) = st; real = int (active_in (s_queue_id r) (s_shard r) d);
         hit = (\<lambda>s. s_queue_id s = s_queue_id r \<and> s_shard s = s_shard r \<and> s_in_flight s \<noteq> real)
     in (if \<exists>s \<in> set (queue_shards d). hit s then fixed + 1 else fixed,
         d\<lparr>queue_shards := update_where hit (\<lambda>s. s\<lparr>s_in_flight := real\<rparr>) (queue_shards d)\<rparr>))"

definition reconcile_in_flight :: "db \<Rightarrow> int \<times> db" where
  "reconcile_in_flight d =
     fold reconcile_row (sort_key (\<lambda>r. (s_queue_id r, s_shard r)) (queue_shards d)) (0, d)"

section \<open>Creating and resizing shards\<close>

text \<open>
  The trigger \<open>fl.spread\<close> after an insert (\<open>old = None\<close>) or an update of \<open>shards\<close> or \<open>rl_burst\<close>.
\<close>

definition spread_insert :: "queue \<Rightarrow> timestamptz \<Rightarrow> queue_shard list \<Rightarrow> queue_shard list" where
  "spread_insert new now ss =
     ss @ map (\<lambda>g. \<lparr>s_queue_id = q_id new, s_shard = g, s_in_flight = 0,
                   s_rl_tokens = q_rl_burst new / of_int (q_shards new), s_rl_refilled_at = now\<rparr>)
       (filter (\<lambda>g. \<forall>s \<in> set ss. \<not> (s_queue_id s = q_id new \<and> s_shard s = g))
          [0 .. q_shards new - 1])"

definition spread :: "queue option \<Rightarrow> queue \<Rightarrow> timestamptz \<Rightarrow> db \<Rightarrow> pg_error + db" where
  "spread old new now d =
     (let resized = (case old of None \<Rightarrow> False | Some o' \<Rightarrow> q_shards new \<noteq> q_shards o');
          busy = (\<exists>s \<in> set (queue_shards d). s_queue_id s = q_id new \<and> 0 < s_in_flight s) \<or>
                 (\<exists>j \<in> set (jobs d). j_queue_id j = q_id new \<and> active (j_status j))
      in if resized \<and> busy then Inl object_in_use
         else let kept = (if resized then delete_where
                            (\<lambda>s. s_queue_id s = q_id new \<and> q_shards new \<le> s_shard s) (queue_shards d)
                          else queue_shards d)
              in Inr (d\<lparr>queue_shards := update_where (\<lambda>s. s_queue_id s = q_id new)
                    (\<lambda>s. s\<lparr>s_rl_tokens := min (s_rl_tokens s) (q_rl_burst new / of_int (q_shards new))\<rparr>)
                    (spread_insert new now kept)\<rparr>))"

section \<open>The slots of the shards add up to the cap\<close>

lemma sum_below:
  assumes "0 \<le> m" and "m \<le> k"
  shows "(\<Sum>s \<in> {0..<k}. if s < m then 1 else 0) = (m :: int)"
proof -
  have "(\<Sum>s \<in> {0..<k}. if s < m then 1 else 0) = (\<Sum>s \<in> {0..<m}. (1::int))"
    using assms by (intro sum.mono_neutral_cong_right) auto
  then show ?thesis using assms(1) by simp
qed

lemma shard_slots_nonneg: "0 \<le> mc \<Longrightarrow> 0 < k \<Longrightarrow> 0 \<le> shard_slots mc k s"
  by (simp add: shard_slots_def pos_imp_zdiv_nonneg_iff)

lemma shard_slots_sum:
  assumes "0 < k"
  shows "(\<Sum>s \<in> {0..<k}. shard_slots mc k s) = mc"
proof -
  have "(\<Sum>s \<in> {0..<k}. shard_slots mc k s) =
      (\<Sum>s \<in> {0..<k}. mc div k) + (\<Sum>s \<in> {0..<k}. if s < mc mod k then 1 else 0)"
    by (simp add: shard_slots_def sum.distrib)
  also have "\<dots> = k * (mc div k) + mc mod k"
    using assms by (simp add: sum_below less_imp_le)
  finally show ?thesis by simp
qed

text \<open>The rows of a queue: one per shard number below \<open>shards\<close>.\<close>

definition shard_rows :: "uuid \<Rightarrow> db \<Rightarrow> queue_shard list" where
  "shard_rows q d = filter (\<lambda>s. s_queue_id s = q) (queue_shards d)"

definition shards_wf :: "queue \<Rightarrow> db \<Rightarrow> bool" where
  "shards_wf q d \<longleftrightarrow>
     distinct (map s_shard (shard_rows (q_id q) d)) \<and>
     (\<forall>s \<in> set (shard_rows (q_id q) d). 0 \<le> s_shard s \<and> s_shard s < q_shards q)"

definition within_slots :: "queue \<Rightarrow> queue_shard \<Rightarrow> bool" where
  "within_slots q s \<longleftrightarrow> s_in_flight s \<le> shard_slots (q_max_concurrency q) (q_shards q) (s_shard s)"

lemma in_flight_le_cap:
  assumes "shards_wf q d" and "0 \<le> q_max_concurrency q" and "0 < q_shards q"
    and "\<forall>s \<in> set (shard_rows (q_id q) d). within_slots q s"
  shows "in_flight (q_id q) d \<le> q_max_concurrency q"
proof -
  let ?rows = "shard_rows (q_id q) d" and ?slots = "shard_slots (q_max_concurrency q) (q_shards q)"
  have "in_flight (q_id q) d = sum_list (map s_in_flight ?rows)"
    by (simp add: in_flight_def shard_rows_def)
  also have "\<dots> \<le> sum_list (map (\<lambda>s. ?slots (s_shard s)) ?rows)"
    using assms(4) by (intro sum_list_mono) (auto simp: within_slots_def)
  also have "\<dots> = (\<Sum>n \<in> set (map s_shard ?rows). ?slots n)"
    using assms(1) sum_list_distinct_conv_sum_set [of "map s_shard ?rows" ?slots]
    by (simp add: shards_wf_def comp_def)
  also have "\<dots> \<le> (\<Sum>n \<in> {0..<q_shards q}. ?slots n)"
    using assms(1-3) by (intro sum_mono2) (auto simp: shards_wf_def shard_slots_nonneg)
  finally show ?thesis using assms(3) by (simp add: shard_slots_sum)
qed

section \<open>What admission does\<close>

lemma breaker_gate_frame:
  assumes "breaker_gate qr want now d = Inr (Some (w, d1))"
  shows "d1 = d\<lparr>queues := queues d1\<rparr>" and "w = want \<or> (w = 1 \<and> q_breaker_state qr \<noteq> Closed)"
  using assms
  by (auto simp: breaker_gate_def update_queues_Inr_iff result_simps split: if_splits option.splits)

lemma queue_admit_result:
  assumes "queue_admit q want rot seen now d = Inr ((n, sh), d')"
  shows "d' = d\<lparr>queues := queues d', queue_shards := queue_shards d'\<rparr> \<and>
    (n = 0 \<and> queue_shards d' = queue_shards d \<or>
     (\<exists>qr sr w. queue_of seen q = Some qr \<and> \<not> q_paused qr \<and> shard_of d q sh = Some sr \<and>
        n = admit_slots qr w sr now \<and> 0 < n \<and> (w = want \<or> (w = 1 \<and> q_breaker_state qr \<noteq> Closed)) \<and>
        queue_shards d' = update_where (\<lambda>s. s_queue_id s = q \<and> s_shard s = sh)
          (take_slots qr n now) (queue_shards d)))"
proof (cases "queue_of seen q")
  case None
  with assms show ?thesis by (simp add: queue_admit_def)
next
  case (Some qr)
  show ?thesis
  proof (cases "q_paused qr")
    case True
    with Some assms show ?thesis by (simp add: queue_admit_def)
  next
    case False
    from Some False assms obtain g where g: "breaker_gate qr want now d = Inr g"
      by (auto simp: queue_admit_def result_simps)
    show ?thesis
    proof (cases g)
      case None
      with Some False assms g show ?thesis by (simp add: queue_admit_def)
    next
      case (Some wd)
      then obtain w d1 where wd: "g = Some (w, d1)" by (cases wd) auto
      note gate = breaker_gate_frame [OF g [unfolded wd]]
      from gate(1) have sh1: "queue_shards d1 = queue_shards d" by (metis db.select_convs(2) db.surjective db.update_convs(1))
      show ?thesis
        using assms g wd gate \<open>queue_of seen q = Some qr\<close> False sh1
        apply (cases d; cases d1; cases d')
        apply (auto simp: queue_admit_def Let_def result_simps update_shards_Inr_iff update_queues_Inr_iff
              split: option.splits if_splits)
        done
    qed
  qed
qed

text \<open>A grant fits in the free slots of its shard and in the tokens of its bucket.\<close>

lemma admit_slots_le:
  "admit_slots qr w sr now \<le> w"
  "0 < admit_slots qr w sr now \<Longrightarrow>
     s_in_flight sr + admit_slots qr w sr now \<le> shard_slots (q_max_concurrency qr) (q_shards qr) (s_shard sr)"
  "q_rl_limit_per_sec qr \<noteq> 0 \<Longrightarrow> of_int (admit_slots qr w sr now) \<le> rl_available qr sr now"
proof -
  show "admit_slots qr w sr now \<le> w" by (simp add: admit_slots_def)
  show "s_in_flight sr + admit_slots qr w sr now \<le> shard_slots (q_max_concurrency qr) (q_shards qr) (s_shard sr)"
    if "0 < admit_slots qr w sr now"
    using that by (simp add: admit_slots_def min_def max_def split: if_splits)
  show "of_int (admit_slots qr w sr now) \<le> rl_available qr sr now" if "q_rl_limit_per_sec qr \<noteq> 0"
    using that by (simp add: admit_slots_def le_floor_iff [symmetric])
qed

lemma take_slots_key [simp]:
  "s_queue_id (take_slots qr n now s) = s_queue_id s" "s_shard (take_slots qr n now s) = s_shard s"
  "s_in_flight (take_slots qr n now s) = s_in_flight s + n"
  by (simp_all add: take_slots_def)

lemma shard_of_update:
  assumes "\<And>s. P s \<Longrightarrow> s_queue_id (f s) = s_queue_id s \<and> s_shard (f s) = s_shard s"
  shows "lookup_row (\<lambda>r. (s_queue_id r, s_shard r)) k (update_where P f ss) =
    map_option (\<lambda>s. if P s then f s else s) (lookup_row (\<lambda>r. (s_queue_id r, s_shard r)) k ss)"
  using assms by (intro lookup_row_update) auto

lemma shard_of_key: "shard_of d q sh = Some s \<Longrightarrow> s_queue_id s = q \<and> s_shard s = sh \<and> s \<in> set (queue_shards d)"
  by (auto dest: lookup_row_SomeD)

lemma queue_admit_grant:
  assumes "queue_admit q want rot seen now d = Inr ((n, sh), d')" and "n \<noteq> 0"
  shows "\<exists>qr sr. queue_of seen q = Some qr \<and> \<not> q_paused qr \<and> shard_of d q sh = Some sr \<and>
       s_in_flight sr + n \<le> shard_slots (q_max_concurrency qr) (q_shards qr) sh \<and>
       (q_rl_limit_per_sec qr \<noteq> 0 \<longrightarrow> of_int n \<le> rl_available qr sr now) \<and>
       shard_of d' q sh = Some (take_slots qr n now sr) \<and>
       (\<forall>q' s'. (q', s') \<noteq> (q, sh) \<longrightarrow> shard_of d' q' s' = shard_of d q' s')"
    and "0 < n" and "1 \<le> want \<Longrightarrow> n \<le> want"
proof -
  from queue_admit_result [OF assms(1)] assms(2)
  obtain qr sr w where *: "queue_of seen q = Some qr" "\<not> q_paused qr" "shard_of d q sh = Some sr"
      "n = admit_slots qr w sr now" "0 < n" "w = want \<or> w = 1"
      "queue_shards d' = update_where (\<lambda>s. s_queue_id s = q \<and> s_shard s = sh) (take_slots qr n now) (queue_shards d)"
    by auto
  note key = shard_of_key [OF *(3)]
  have here: "shard_of d' q sh = Some (take_slots qr n now sr)"
    using * key by (simp add: shard_of_update)
  have "shard_of d' q' s' = shard_of d q' s'" if "(q', s') \<noteq> (q, sh)" for q' s'
    using that unfolding *(7)
    by (subst shard_of_update) (auto simp: map_option_case split: option.splits dest: lookup_row_SomeD)
  moreover have "s_in_flight sr + n \<le> shard_slots (q_max_concurrency qr) (q_shards qr) sh"
      "q_rl_limit_per_sec qr \<noteq> 0 \<longrightarrow> of_int n \<le> rl_available qr sr now"
    using admit_slots_le(2,3) [of qr w sr now] *(4,5) key by auto
  ultimately show "\<exists>qr sr. queue_of seen q = Some qr \<and> \<not> q_paused qr \<and> shard_of d q sh = Some sr \<and>
       s_in_flight sr + n \<le> shard_slots (q_max_concurrency qr) (q_shards qr) sh \<and>
       (q_rl_limit_per_sec qr \<noteq> 0 \<longrightarrow> of_int n \<le> rl_available qr sr now) \<and>
       shard_of d' q sh = Some (take_slots qr n now sr) \<and>
       (\<forall>q' s'. (q', s') \<noteq> (q, sh) \<longrightarrow> shard_of d' q' s' = shard_of d q' s')"
    using *(1-3) here by blast
  show "0 < n" using *(5) .
  show "n \<le> want" if "1 \<le> want" using admit_slots_le(1) [of qr w sr now] * that by auto
qed

lemma queue_admit_frame:
  assumes "queue_admit q want rot seen now d = Inr ((n, sh), d')"
  shows "d' = d\<lparr>queues := queues d', queue_shards := queue_shards d'\<rparr>"
    and "n = 0 \<Longrightarrow> queue_shards d' = queue_shards d"
  using queue_admit_result [OF assms] by auto

text \<open>
  A successful admission grants between zero slots and what was asked for, and when it grants any, the
  queue was not paused, the chosen shard had room for all of them at the moment its row was locked and its
  token bucket covered them; the shard row records exactly that grant, every other shard and every table
  but the breaker columns of \<open>queues\<close> is as before.
\<close>

theorem admission_sound:
  assumes "queue_admit q want rot seen now d = Inr ((n, sh), d')" and "1 \<le> want"
  shows "0 \<le> n \<and> n \<le> want \<and> d' = d\<lparr>queues := queues d', queue_shards := queue_shards d'\<rparr> \<and>
    (n = 0 \<longrightarrow> queue_shards d' = queue_shards d) \<and>
    (0 < n \<longrightarrow> (\<exists>qr sr. queue_of seen q = Some qr \<and> \<not> q_paused qr \<and> shard_of d q sh = Some sr \<and>
       s_in_flight sr + n \<le> shard_slots (q_max_concurrency qr) (q_shards qr) sh \<and>
       (q_rl_limit_per_sec qr \<noteq> 0 \<longrightarrow> of_int n \<le> rl_available qr sr now) \<and>
       shard_of d' q sh = Some (take_slots qr n now sr) \<and>
       (\<forall>q' s'. (q', s') \<noteq> (q, sh) \<longrightarrow> shard_of d' q' s' = shard_of d q' s')))"
proof (cases "n = 0")
  case True
  then show ?thesis using queue_admit_frame [OF assms(1)] assms(2) by auto
next
  case False
  note g = queue_admit_grant [OF assms(1) False]
  have "0 \<le> n" "n \<le> want" "0 < n" using g(2,3) assms(2) by auto
  then show ?thesis using g(1) queue_admit_frame(1) [OF assms(1)] False by blast
qed

theorem admission_sound_witness:
  "\<exists>d'. queue_admit 7 4 0 sample_db sample_now sample_db = Inr ((1, 0), d') \<and> (1::int) \<le> 4"
proof -
  obtain d' where "queue_admit 7 4 0 sample_db sample_now sample_db = Inr ((1, 0), d')"
    by (simp add: queue_admit_def breaker_gate_def pick_shard_def order_limit_def admit_slots_def shard_slots_def
        update_shards_def check_shard_def take_slots_def sample_defs)
  with admission_sound [OF this] show ?thesis by auto
qed

section \<open>Admission never fails, and grants when there is room\<close>

definition slots_db_ok :: "db \<Rightarrow> bool" where
  "slots_db_ok d \<longleftrightarrow> (\<forall>q \<in> set (queues d). check_queue q) \<and> (\<forall>s \<in> set (queue_shards d). check_shard s) \<and>
     distinct (map q_id (queues d)) \<and> distinct (map (\<lambda>s. (s_queue_id s, s_shard s)) (queue_shards d))"

lemma slots_db_okD:
  assumes "slots_db_ok d"
  shows "q \<in> set (queues d) \<Longrightarrow> check_queue q" "s \<in> set (queue_shards d) \<Longrightarrow> check_shard s"
    "distinct (map q_id (queues d))" "distinct (map (\<lambda>s. (s_queue_id s, s_shard s)) (queue_shards d))"
  using assms by (auto simp: slots_db_ok_def)

lemma take_slots_check:
  assumes "check_shard s" and "0 < admit_slots qr w s now"
  shows "check_shard (take_slots qr (admit_slots qr w s now) now s)"
  using assms admit_slots_le(3) [of qr w s now] by (auto simp: check_shard_def take_slots_def)

text \<open>The breaker's part: it never fails, and lets one probe through only while there is budget for it.\<close>

definition probe_open :: "uuid \<Rightarrow> db \<Rightarrow> bool" where
  "probe_open i d \<longleftrightarrow>
     (\<forall>q \<in> set (queues d). q_id q = i \<longrightarrow> q_breaker_state q = Half_open \<and> 1 \<le> q_breaker_probe_budget q)"

lemma breaker_gate_ok:
  assumes "slots_db_ok d"
  shows "breaker_gate qr want now d = Inr None \<or>
    (\<exists>w d1. breaker_gate qr want now d = Inr (Some (w, d1)) \<and> slots_db_ok d1 \<and>
      (q_breaker_state qr \<noteq> Closed \<longrightarrow> w = 1 \<and> probe_open (q_id qr) d1))"
proof (cases "q_breaker_state qr = Closed")
  case True
  then show ?thesis using assms by (simp add: breaker_gate_def)
next
  case False
  show ?thesis
  proof (cases "queue_of d (q_id qr)")
    case None
    then have "probe_open (q_id qr) d" by (auto simp: lookup_row_None_iff probe_open_def)
    with None False show ?thesis using assms by (simp add: breaker_gate_def)
  next
    case (Some br)
    then have br: "br \<in> set (queues d)" "q_id br = q_id qr" by (auto dest: lookup_row_SomeD)
    have only: "q = br" if "q \<in> set (queues d)" "q_id q = q_id qr" for q
      using key_unique [OF slots_db_okD(3) [OF assms] that(1) br(1)] that(2) br(2) by simp
    show ?thesis
    proof (cases "q_breaker_state br = Open")
      case True
      let ?f = "\<lambda>q. q\<lparr>q_breaker_state := Half_open, q_breaker_probe_budget := 1\<rparr>"
      let ?d1 = "d\<lparr>queues := update_where (\<lambda>q. q_id q = q_id qr) ?f (queues d)\<rparr>"
      have cf: "check_queue (?f q)" if "q \<in> set (queues d)" for q
        using slots_db_okD(1) [OF assms that] by (simp add: check_queue_def)
      have ok: "slots_db_ok ?d1"
        using assms cf unfolding slots_db_ok_def
        by (auto simp: in_update_where_iff map_update_where)
      have "update_queues (\<lambda>q. q_id q = q_id qr) ?f d = Inr ?d1"
        using cf by (simp add: update_queues_Inr_iff)
      then have "breaker_gate qr want now d =
          (if now < coalesce (q_breaker_open_until br) now then Inr None else Inr (Some (1, ?d1)))"
        using False True Some by (simp add: breaker_gate_def)
      moreover have "probe_open (q_id qr) ?d1" by (auto simp: in_update_where_iff probe_open_def)
      ultimately show ?thesis using ok by auto
    next
      case nopen: False
      have "q_breaker_state br = Half_open" if "0 < q_breaker_probe_budget br"
        using slots_db_okD(1) [OF assms br(1)] that by (auto simp: check_queue_def)
      then have live: "probe_open (q_id qr) d" if "0 < q_breaker_probe_budget br"
        using that only by (auto simp: probe_open_def)
      have "breaker_gate qr want now d = (if q_breaker_probe_budget br \<le> 0 then Inr None else Inr (Some (1, d)))"
        using False nopen Some by (simp add: breaker_gate_def)
      then show ?thesis using assms live by auto
    qed
  qed
qed

lemma spend_probe:
  assumes "slots_db_ok d" and "n \<le> 1" and "0 \<le> n"
    and "probe_open i d"
  shows "\<exists>d'. update_queues (\<lambda>q. q_id q = i)
      (\<lambda>q. q\<lparr>q_breaker_probe_budget := q_breaker_probe_budget q - n\<rparr>) d = Inr d'"
proof -
  have "check_queue (q\<lparr>q_breaker_probe_budget := q_breaker_probe_budget q - n\<rparr>)"
    if "q \<in> set (queues d)" "q_id q = i" for q
    using slots_db_okD(1) [OF assms(1) that(1)] that assms by (auto simp: check_queue_def probe_open_def)
  then show ?thesis by (simp add: update_queues_Inr_iff)
qed

lemma take_slots_ok:
  assumes "slots_db_ok d" and "shard_of d q sh = Some sr" and "0 < admit_slots qr w sr now"
  shows "\<exists>d'. update_shards (\<lambda>s. s_queue_id s = q \<and> s_shard s = sh)
      (take_slots qr (admit_slots qr w sr now) now) d = Inr d' \<and> queues d' = queues d"
proof -
  note sr = shard_of_key [OF assms(2)]
  have "s = sr" if "s \<in> set (queue_shards d)" "s_queue_id s = q" "s_shard s = sh" for s
    using key_unique [OF slots_db_okD(4) [OF assms(1)] that(1), of sr] sr that by simp
  then show ?thesis
    using take_slots_check [OF slots_db_okD(2) [OF assms(1)] assms(3)] sr
    by (auto simp: update_shards_Inr_iff)
qed

lemma pick_shard_free:
  assumes "distinct (map (\<lambda>s. (s_queue_id s, s_shard s)) (queue_shards d))" and "s \<in> set (queue_shards d)"
    and "s_queue_id s = q_id qr" and "s_in_flight s < shard_slots (q_max_concurrency qr) (q_shards qr) (s_shard s)"
  shows "\<exists>sh sr. pick_shard qr rot d = Some sh \<and> shard_of d (q_id qr) sh = Some sr \<and>
    s_in_flight sr < shard_slots (q_max_concurrency qr) (q_shards qr) sh"
proof -
  let ?free = "filter (\<lambda>s. s_queue_id s = q_id qr \<and>
       s_in_flight s < shard_slots (q_max_concurrency qr) (q_shards qr) (s_shard s)) (queue_shards d)"
  let ?pick = "order_limit (\<lambda>s. (s_shard s + rot) mod q_shards qr) 1 ?free"
  have "s \<in> set ?free" using assms by auto
  then have "0 < length ?free" by (rule length_pos_if_in_set)
  then have "length ?pick = 1" unfolding length_order_limit by linarith
  then obtain sr where sr: "?pick = [sr]" by (auto simp only: One_nat_def length_Suc_conv length_0_conv)
  then have in_free: "sr \<in> set ?free"
    using set_order_limit [of "\<lambda>s. (s_shard s + rot) mod q_shards qr" 1 ?free] by auto
  then have "shard_of d (q_id qr) (s_shard sr) = Some sr"
    by (subst lookup_row_Some_iff [OF assms(1)]) auto
  moreover have "pick_shard qr rot d = Some (s_shard sr)" by (simp only: pick_shard_def sr list.case)
  ultimately show ?thesis using in_free by auto
qed

text \<open>
  On a database that satisfies the constraints of \<open>queues\<close> and \<open>queue_shards\<close>, admission never raises an
  error, whatever stale state its unlocked reads saw; and when the reads are current, the queue is not
  paused, the breaker is closed, there is no rate limit and some shard has a free slot, it grants at
  least one.
\<close>

theorem admission_total:
  assumes "slots_db_ok d" and "1 \<le> want"
  shows "(\<exists>n sh d'. queue_admit q want rot seen now d = Inr ((n, sh), d')) \<and>
    (\<forall>qr s. queue_of d q = Some qr \<longrightarrow> \<not> q_paused qr \<longrightarrow> q_breaker_state qr = Closed \<longrightarrow>
       q_rl_limit_per_sec qr = 0 \<longrightarrow> s \<in> set (queue_shards d) \<longrightarrow> s_queue_id s = q \<longrightarrow>
       s_in_flight s < shard_slots (q_max_concurrency qr) (q_shards qr) (s_shard s) \<longrightarrow>
       (\<exists>n sh d'. queue_admit q want rot d now d = Inr ((n, sh), d') \<and> 0 < n))"
  (is "?total \<and> ?grant")
proof
  show ?total
  proof (cases "queue_of seen q")
    case (Some qr)
    then have qid: "q_id qr = q" by (auto dest: lookup_row_SomeD)
    consider "breaker_gate qr want now d = Inr None"
    | w d1 where "breaker_gate qr want now d = Inr (Some (w, d1))" "slots_db_ok d1"
        "q_breaker_state qr \<noteq> Closed \<longrightarrow> w = 1 \<and> probe_open (q_id qr) d1"
      using breaker_gate_ok [OF assms(1), of qr want now] by blast
    then show ?thesis
    proof cases
      case 1
      with Some show ?thesis by (simp add: queue_admit_def)
    next
      case 2
      show ?thesis
      proof (cases "\<exists>sh sr. pick_shard qr rot seen = Some sh \<and> shard_of d1 q sh = Some sr \<and>
          0 < admit_slots qr w sr now")
        case False
        with Some 2(1) show ?thesis
          by (auto simp: queue_admit_def Let_def split: option.splits)
      next
        case True
        then obtain sh sr where sh: "pick_shard qr rot seen = Some sh" "shard_of d1 q sh = Some sr"
          "0 < admit_slots qr w sr now" by blast
        from take_slots_ok [OF 2(2) sh(2,3)] obtain d2 where
          d2: "update_shards (\<lambda>s. s_queue_id s = q \<and> s_shard s = sh)
             (take_slots qr (admit_slots qr w sr now) now) d1 = Inr d2" "queues d2 = queues d1" by blast
        have ok2: "\<exists>d'. update_queues (\<lambda>q'. q_id q' = q) (\<lambda>q'. q'\<lparr>q_breaker_probe_budget :=
             q_breaker_probe_budget q' - admit_slots qr w sr now\<rparr>) d2 = Inr d'"
          if "q_breaker_state qr \<noteq> Closed"
        proof -
          have "\<exists>d'. update_queues (\<lambda>q'. q_id q' = q) (\<lambda>q'. q'\<lparr>q_breaker_probe_budget :=
             q_breaker_probe_budget q' - admit_slots qr w sr now\<rparr>) d1 = Inr d'"
            using spend_probe [OF 2(2)] 2(3) that admit_slots_le(1) [of qr w sr now] sh(3) qid by auto
          then show ?thesis using d2(2) by (simp add: update_queues_Inr_iff)
        qed
        show ?thesis
          using Some 2(1) sh d2 ok2
          by (cases "q_paused qr"; cases "q_breaker_state qr = Closed") (auto simp: queue_admit_def Let_def)
      qed
    qed
  qed (simp add: queue_admit_def)
  show ?grant
  proof (intro allI impI)
    fix qr s assume qr: "queue_of d q = Some qr" "\<not> q_paused qr" "q_breaker_state qr = Closed"
      "q_rl_limit_per_sec qr = 0"
      and s: "s \<in> set (queue_shards d)" "s_queue_id s = q"
        "s_in_flight s < shard_slots (q_max_concurrency qr) (q_shards qr) (s_shard s)"
    have qid: "q_id qr = q" using qr(1) by (auto dest: lookup_row_SomeD)
    obtain sh sr where sh: "pick_shard qr rot d = Some sh" "shard_of d q sh = Some sr"
      "s_in_flight sr < shard_slots (q_max_concurrency qr) (q_shards qr) sh"
      using pick_shard_free [OF slots_db_okD(4) [OF assms(1)] s(1)] s(2,3) qid by metis
    have pos: "0 < admit_slots qr want sr now"
      using sh(3) qr(4) assms(2) shard_of_key [OF sh(2)] by (simp add: admit_slots_def)
    from take_slots_ok [OF assms(1) sh(2) pos] obtain d2 where
      "update_shards (\<lambda>s. s_queue_id s = q \<and> s_shard s = sh)
         (take_slots qr (admit_slots qr want sr now) now) d = Inr d2" by blast
    then show "\<exists>n sh d'. queue_admit q want rot d now d = Inr ((n, sh), d') \<and> 0 < n"
      using qr sh pos by (simp add: queue_admit_def breaker_gate_def Let_def)
  qed
qed

lemma sample_slots_ok: "slots_db_ok sample_db"
  by (simp add: slots_db_ok_def check_queue_def check_shard_def sample_defs)

theorem admission_total_witness:
  "\<exists>n sh d'. queue_admit 7 4 0 sample_db sample_now sample_db = Inr ((n, sh), d') \<and> 0 < n"
proof -
  have "queue_of sample_db 7 = Some sample_queue" "sample_shard \<in> set (queue_shards sample_db)"
    "\<not> q_paused sample_queue" "q_breaker_state sample_queue = Closed" "q_rl_limit_per_sec sample_queue = 0"
    "s_queue_id sample_shard = 7"
    "s_in_flight sample_shard < shard_slots (q_max_concurrency sample_queue) (q_shards sample_queue) (s_shard sample_shard)"
    by (simp_all add: sample_defs shard_slots_def)
  with admission_total [OF sample_slots_ok, of 4 7 0 sample_db sample_now] show ?thesis by auto
qed

section \<open>The cap over any sequence of admissions and releases\<close>

text \<open>
  The slots of one queue as a transition system: admissions, whose unlocked reads may be stale but see
  the queue's present cap and shard count, and releases.
\<close>

inductive slot_step :: "queue \<Rightarrow> db \<Rightarrow> db \<Rightarrow> bool" for qr where
  admit: "queue_admit (q_id qr) want rot seen now d = Inr ((n, sh), d') \<Longrightarrow>
    (\<And>qs. queue_of seen (q_id qr) = Some qs \<Longrightarrow>
       q_max_concurrency qs = q_max_concurrency qr \<and> q_shards qs = q_shards qr) \<Longrightarrow> slot_step qr d d'"
| release: "0 \<le> n \<Longrightarrow> slot_step qr d (queue_release (q_id qr) sh n d)"

definition slot_inv :: "queue \<Rightarrow> db \<Rightarrow> bool" where
  "slot_inv qr d \<longleftrightarrow> shards_wf qr d \<and> (\<forall>s \<in> set (shard_rows (q_id qr) d). 0 \<le> s_in_flight s \<and> within_slots qr s)"

lemma shard_rows_update:
  assumes "\<And>s. P s \<Longrightarrow> s_queue_id (f s) = s_queue_id s"
    and "queue_shards d' = update_where P f (queue_shards d)"
  shows "shard_rows q d' = update_where P f (shard_rows q d)"
proof -
  have "filter (\<lambda>s. s_queue_id s = q) (update_where P f ss) =
      update_where P f (filter (\<lambda>s. s_queue_id s = q) ss)" for ss
    using assms(1) by (induction ss) auto
  then show ?thesis using assms(2) by (simp add: shard_rows_def)
qed

lemma slot_inv_update:
  assumes "slot_inv qr d" and "queue_shards d' = update_where P f (queue_shards d)"
    and keys: "\<And>s. P s \<Longrightarrow> s_queue_id (f s) = s_queue_id s" "\<And>s. P s \<Longrightarrow> s_shard (f s) = s_shard s"
    and ok: "\<And>s. s \<in> set (shard_rows (q_id qr) d) \<Longrightarrow> P s \<Longrightarrow> 0 \<le> s_in_flight (f s) \<and> within_slots qr (f s)"
  shows "slot_inv qr d'"
proof -
  have rows: "shard_rows (q_id qr) d' = update_where P f (shard_rows (q_id qr) d)"
    using keys(1) assms(2) by (intro shard_rows_update) auto
  have "map s_shard (shard_rows (q_id qr) d') = map s_shard (shard_rows (q_id qr) d)"
    unfolding rows using keys(2) by (intro map_update_where) auto
  moreover have "\<forall>s \<in> set (shard_rows (q_id qr) d'). 0 \<le> s_shard s \<and> s_shard s < q_shards qr"
    using assms(1) keys(2) unfolding rows slot_inv_def shards_wf_def by (auto simp: in_update_where_iff)
  moreover have "\<forall>s \<in> set (shard_rows (q_id qr) d'). 0 \<le> s_in_flight s \<and> within_slots qr s"
    using assms(1) ok unfolding rows slot_inv_def by (auto simp: in_update_where_iff)
  ultimately show ?thesis using assms(1) by (simp add: slot_inv_def shards_wf_def)
qed

lemma slot_inv_release:
  assumes "slot_inv qr d" and "0 \<le> n"
  shows "slot_inv qr (queue_release (q_id qr) sh n d)"
  using assms(1)
proof (rule slot_inv_update)
  show "queue_shards (queue_release (q_id qr) sh n d) =
      update_where (\<lambda>r. s_queue_id r = q_id qr \<and> s_shard r = sh)
        (\<lambda>r. r\<lparr>s_in_flight := max (s_in_flight r - n) 0\<rparr>) (queue_shards d)"
    by (simp add: queue_release_def)
qed (use assms in \<open>auto simp: slot_inv_def within_slots_def\<close>)

lemma slot_inv_admit:
  assumes "slot_inv qr d" and adm: "queue_admit (q_id qr) want rot seen now d = Inr ((n, sh), d')"
    and "\<And>qs. queue_of seen (q_id qr) = Some qs \<Longrightarrow>
       q_max_concurrency qs = q_max_concurrency qr \<and> q_shards qs = q_shards qr"
  shows "slot_inv qr d'"
proof -
  consider "queue_shards d' = queue_shards d"
  | qs sr w where "queue_of seen (q_id qr) = Some qs" "shard_of d (q_id qr) sh = Some sr"
      "n = admit_slots qs w sr now" "0 < n"
      "queue_shards d' = update_where (\<lambda>s. s_queue_id s = q_id qr \<and> s_shard s = sh)
          (take_slots qs n now) (queue_shards d)"
    using queue_admit_result [OF adm] by auto
  then show ?thesis
  proof cases
    case 1
    with assms(1) show ?thesis by (simp add: slot_inv_def shards_wf_def shard_rows_def)
  next
    case 2
    note sr = shard_of_key [OF 2(2)]
    have only: "s = sr" if "s \<in> set (shard_rows (q_id qr) d)" "s_shard s = sh" for s
      using assms(1) sr that key_unique [of s_shard "shard_rows (q_id qr) d" s sr]
      by (auto simp: slot_inv_def shards_wf_def shard_rows_def)
    have room: "s_in_flight sr + n \<le> shard_slots (q_max_concurrency qr) (q_shards qr) sh"
      using admit_slots_le(2) [of qs w sr now] 2(3,4) sr assms(3) [OF 2(1)] by simp
    show ?thesis
      using assms(1) 2(5)
    proof (rule slot_inv_update)
      fix s assume s: "s \<in> set (shard_rows (q_id qr) d)" "s_queue_id s = q_id qr \<and> s_shard s = sh"
      then have "s = sr" using only by blast
      moreover have "0 \<le> s_in_flight s" using assms(1) s(1) by (simp add: slot_inv_def)
      ultimately show "0 \<le> s_in_flight (take_slots qs n now s) \<and> within_slots qr (take_slots qs n now s)"
        using room 2(4) sr by (simp add: within_slots_def)
    qed simp_all
  qed
qed

interpretation slots: transition_system "slot_inv qr" "slot_step qr" "slot_inv qr" for qr
proof unfold_locales
  fix d d' assume "slot_inv qr d" and "slot_step qr d d'"
  from this(2,1) show "slot_inv qr d'"
  proof cases
    case (admit want rot seen now n sh)
    then show ?thesis using \<open>slot_inv qr d\<close> by (blast intro: slot_inv_admit)
  next
    case (release n sh)
    then show ?thesis using \<open>slot_inv qr d\<close> by (simp add: slot_inv_release)
  qed
qed

text \<open>
  The sum over the shards never exceeds \<open>max_concurrency\<close>: from a state where every shard is within its
  share, any sequence of admissions with stale reads and of releases, in any interleaving, keeps every
  shard between zero and its share, and \<open>fl.in_flight\<close> at or below the queue's cap.
\<close>

theorem admission_keeps_cap:
  assumes "slot_inv qr d" and "rtranclp (slot_step qr) d d'"
    and "0 \<le> q_max_concurrency qr" and "0 < q_shards qr"
  shows "in_flight (q_id qr) d' \<le> q_max_concurrency qr \<and>
    (\<forall>s \<in> set (shard_rows (q_id qr) d'). 0 \<le> s_in_flight s \<and>
       s_in_flight s \<le> shard_slots (q_max_concurrency qr) (q_shards qr) (s_shard s))"
proof -
  have "slot_inv qr d'" using slots.steps_inv [OF assms(2,1)] .
  then show ?thesis
    using in_flight_le_cap [of qr d'] assms(3,4) by (auto simp: slot_inv_def within_slots_def)
qed

theorem admission_keeps_cap_witness:
  "in_flight (q_id sample_queue) (queue_release 7 0 1 sample_db) \<le> q_max_concurrency sample_queue"
proof -
  have "slot_step sample_queue sample_db (queue_release (q_id sample_queue) 0 1 sample_db)"
    by (rule slot_step.release) simp
  moreover have "slot_inv sample_queue sample_db"
    by (simp add: slot_inv_def shards_wf_def shard_rows_def within_slots_def shard_slots_def sample_defs)
  moreover have "0 \<le> q_max_concurrency sample_queue" "0 < q_shards sample_queue" by (simp_all add: sample_queue_def)
  ultimately have "in_flight (q_id sample_queue) (queue_release (q_id sample_queue) 0 1 sample_db) \<le>
      q_max_concurrency sample_queue"
    using admission_keeps_cap by blast
  then show ?thesis by (simp add: sample_queue_def)
qed

section \<open>Repair\<close>

text \<open>
  \<open>fl.reconcile_in_flight\<close> only writes rows that differ; the effect is the same as writing all of them.
\<close>

definition reconciled :: "db \<Rightarrow> queue_shard \<Rightarrow> queue_shard" where
  "reconciled d s = s\<lparr>s_in_flight := int (active_in (s_queue_id s) (s_shard s) d)\<rparr>"

definition drifted :: "db \<Rightarrow> queue_shard \<Rightarrow> bool" where
  "drifted d s \<longleftrightarrow> s_in_flight s \<noteq> int (active_in (s_queue_id s) (s_shard s) d)"

abbreviation shard_key :: "queue_shard \<Rightarrow> uuid \<times> int" where
  "shard_key s \<equiv> (s_queue_id s, s_shard s)"

lemma reconciled_same: "\<not> drifted d s \<Longrightarrow> reconciled d s = s"
  by (simp add: reconciled_def drifted_def)

lemma reconciled_simps [simp]:
  "s_queue_id (reconciled d s) = s_queue_id s" "s_shard (reconciled d s) = s_shard s"
  "s_in_flight (reconciled d s) = int (active_in (s_queue_id s) (s_shard s) d)"
  "reconciled (d\<lparr>queue_shards := ss\<rparr>) = reconciled d" "drifted (d\<lparr>queue_shards := ss\<rparr>) = drifted d"
  by (auto simp: reconciled_def drifted_def active_in_def fun_eq_iff)

lemma drifted_eq: "drifted d = (\<lambda>s. s_in_flight s \<noteq> int (active_in (s_queue_id s) (s_shard s) d))"
  by (simp add: drifted_def fun_eq_iff)

lemma reconcile_row_eq:
  "reconcile_row r (n, d) =
     (if \<exists>s \<in> set (queue_shards d). shard_key s = shard_key r \<and> drifted d s then n + 1 else n,
      d\<lparr>queue_shards := update_where (\<lambda>s. shard_key s = shard_key r) (reconciled d) (queue_shards d)\<rparr>)"
proof -
  let ?real = "int (active_in (s_queue_id r) (s_shard r) d)"
  have "update_where (\<lambda>s. s_queue_id s = s_queue_id r \<and> s_shard s = s_shard r \<and> s_in_flight s \<noteq> ?real)
      (\<lambda>s. s\<lparr>s_in_flight := ?real\<rparr>) ss =
    update_where (\<lambda>s. shard_key s = shard_key r) (reconciled d) ss" for ss
    by (induction ss) (auto simp: reconciled_def)
  then show ?thesis by (auto simp: reconcile_row_def Let_def drifted_def)
qed

lemma reconcile_fold:
  assumes "distinct (map shard_key rs)"
  shows "fold reconcile_row rs (n, d) =
    (n + int (length (filter (\<lambda>r. \<exists>s \<in> set (queue_shards d). shard_key s = shard_key r \<and> drifted d s) rs)),
     d\<lparr>queue_shards := update_where (\<lambda>s. shard_key s \<in> shard_key ` set rs) (reconciled d) (queue_shards d)\<rparr>)"
  using assms
proof (induction rs arbitrary: n d)
  case Nil
  then show ?case by (simp add: update_where_none)
next
  case (Cons r rs)
  let ?u = "update_where (\<lambda>s. shard_key s = shard_key r) (reconciled d) (queue_shards d)"
  let ?hit = "\<lambda>r. \<exists>s \<in> set (queue_shards d). shard_key s = shard_key r \<and> drifted d s"
  have fresh: "shard_key t \<noteq> shard_key r" if "t \<in> set rs" for t
    using Cons.prems that by (auto simp: image_iff)
  have "(\<exists>s \<in> set ?u. shard_key s = shard_key t \<and> drifted d s) \<longleftrightarrow> ?hit t" if "t \<in> set rs" for t
    using fresh [OF that] by (auto simp: in_update_where_iff)
  then have hits: "filter (\<lambda>t. \<exists>s \<in> set ?u. shard_key s = shard_key t \<and> drifted d s) rs = filter ?hit rs"
    by (intro filter_cong) auto
  have "reconciled d (reconciled d s) = reconciled d s" for s by (simp add: reconciled_def)
  then have upd: "update_where (\<lambda>s. shard_key s \<in> shard_key ` set rs) (reconciled d) ?u =
      update_where (\<lambda>s. shard_key s \<in> shard_key ` set (r # rs)) (reconciled d) (queue_shards d)"
    by (simp add: update_where_def reconciled_def)
  show ?case
    using Cons hits upd by (auto simp: reconcile_row_eq)
qed

text \<open>
  \<open>ReconcileInFlight\<close> sets the counter of every shard to the number of claimed and running jobs that carry
  its queue and shard number, changes nothing else, and returns how many counters were off; a second run
  repairs nothing.
\<close>

theorem reconcile_repairs:
  assumes "distinct (map (\<lambda>s. (s_queue_id s, s_shard s)) (queue_shards d))"
  shows "reconcile_in_flight d =
    (int (count_where (\<lambda>s. s_in_flight s \<noteq> int (active_in (s_queue_id s) (s_shard s) d)) (queue_shards d)),
     d\<lparr>queue_shards := map (\<lambda>s. s\<lparr>s_in_flight := int (active_in (s_queue_id s) (s_shard s) d)\<rparr>) (queue_shards d)\<rparr>) \<and>
    fst (reconcile_in_flight (snd (reconcile_in_flight d))) = 0"
proof -
  have main: "reconcile_in_flight d =
    (int (count_where (drifted d) (queue_shards d)), d\<lparr>queue_shards := map (reconciled d) (queue_shards d)\<rparr>)"
    if dist: "distinct (map shard_key (queue_shards d))" for d
  proof -
    let ?rs = "sort_key shard_key (queue_shards d)"
    have "distinct (map shard_key ?rs)" using dist by (simp add: distinct_map)
    note fold = reconcile_fold [OF this, of 0 d]
    have "(\<exists>s \<in> set (queue_shards d). shard_key s = shard_key r \<and> drifted d s) \<longleftrightarrow> drifted d r"
      if "r \<in> set ?rs" for r
      using that key_unique [OF dist, of _ r] by auto
    then have "filter (\<lambda>r. \<exists>s \<in> set (queue_shards d). shard_key s = shard_key r \<and> drifted d s) ?rs = filter (drifted d) ?rs"
      by (intro filter_cong) auto
    moreover have "length (filter (drifted d) ?rs) = count_where (drifted d) (queue_shards d)"
      by (simp add: count_where_def filter_sort)
    moreover have "update_where (\<lambda>s. shard_key s \<in> shard_key ` set ?rs) (reconciled d) (queue_shards d) =
        map (reconciled d) (queue_shards d)"
      by (auto simp: update_where_def)
    ultimately show ?thesis using fold by (simp add: reconcile_in_flight_def)
  qed
  let ?d' = "d\<lparr>queue_shards := map (reconciled d) (queue_shards d)\<rparr>"
  have "distinct (map shard_key (queue_shards ?d'))"
    using assms by (simp add: comp_def)
  moreover have "\<forall>s \<in> set (map (reconciled d) (queue_shards d)). \<not> drifted d s"
    by (auto simp: drifted_def reconciled_def)
  ultimately have "fst (reconcile_in_flight ?d') = 0"
    by (simp add: main count_where_zero_iff)
  then show ?thesis
    using main [OF assms] by (simp add: drifted_eq reconciled_def)
qed

theorem reconcile_repairs_witness:
  "fst (reconcile_in_flight (sample_db\<lparr>jobs := []\<rparr>)) = 1 \<and>
   fst (reconcile_in_flight (snd (reconcile_in_flight (sample_db\<lparr>jobs := []\<rparr>)))) = 0"
proof -
  let ?d = "sample_db\<lparr>jobs := []\<rparr>"
  have A: "distinct (map (\<lambda>s. (s_queue_id s, s_shard s)) (queue_shards ?d))" by (simp add: sample_defs)
  have B: "count_where (\<lambda>s. s_in_flight s \<noteq> int (active_in (s_queue_id s) (s_shard s) ?d)) (queue_shards ?d) = 1"
    by (simp add: sample_defs active_in_def)
  note r = reconcile_repairs [OF A]
  have "fst (reconcile_in_flight ?d) = 1" by (simp only: conjunct1 [OF r] fst_conv B of_nat_1)
  then show ?thesis using conjunct2 [OF r] by blast
qed

section \<open>Shard rows after the trigger\<close>

abbreviation rows_of :: "uuid \<Rightarrow> queue_shard list \<Rightarrow> queue_shard list" where
  "rows_of q ss \<equiv> filter (\<lambda>s. s_queue_id s = q) ss"

lemma rows_of_update:
  "(\<And>s. s_queue_id (f s) = s_queue_id s) \<Longrightarrow>
   rows_of q (update_where (\<lambda>s. s_queue_id s = q') f ss) =
     (if q = q' then map f (rows_of q ss) else rows_of q ss)"
  by (induction ss) auto

lemma rows_of_delete:
  "rows_of q (delete_where (\<lambda>s. s_queue_id s = q' \<and> P s) ss) =
     (if q = q' then filter (\<lambda>s. \<not> P s) (rows_of q ss) else rows_of q ss)"
  by (induction ss) auto

lemma rows_of_spread_insert:
  "rows_of q (spread_insert new now ss) = rows_of q ss @
     (if q = q_id new then map (\<lambda>g. \<lparr>s_queue_id = q_id new, s_shard = g, s_in_flight = 0,
                   s_rl_tokens = q_rl_burst new / of_int (q_shards new), s_rl_refilled_at = now\<rparr>)
       (filter (\<lambda>g. g \<notin> s_shard ` set (rows_of q ss)) [0 .. q_shards new - 1]) else [])"
proof -
  have "(\<forall>s \<in> set ss. \<not> (s_queue_id s = q_id new \<and> s_shard s = g)) \<longleftrightarrow> g \<notin> s_shard ` set (rows_of (q_id new) ss)" for g
    by auto
  then show ?thesis
    unfolding spread_insert_def filter_append filter_map by (auto simp: comp_def)
qed

lemma spread_rows:
  assumes "spread old new now d = Inr d'"
  shows "q' \<noteq> q_id new \<Longrightarrow> shard_rows q' d' = shard_rows q' d"
    and "\<exists>K. shard_rows (q_id new) d' = map (\<lambda>s. s\<lparr>s_rl_tokens := min (s_rl_tokens s) (q_rl_burst new / of_int (q_shards new))\<rparr>)
       (K @ map (\<lambda>g. \<lparr>s_queue_id = q_id new, s_shard = g, s_in_flight = 0,
                   s_rl_tokens = q_rl_burst new / of_int (q_shards new), s_rl_refilled_at = now\<rparr>)
          (filter (\<lambda>g. g \<notin> s_shard ` set K) [0 .. q_shards new - 1])) \<and>
       K = (if \<exists>o'. old = Some o' \<and> q_shards new \<noteq> q_shards o'
            then filter (\<lambda>s. s_shard s < q_shards new) (shard_rows (q_id new) d) else shard_rows (q_id new) d)"
  using assms
  by (auto simp: spread_def Let_def shard_rows_def rows_of_update rows_of_spread_insert rows_of_delete not_le
      split: if_splits option.splits cong: filter_cong)

text \<open>
  The trigger \<open>spread\<close> refuses, as object in use, to change the number of shards of a queue that has slots
  taken or active jobs. Otherwise it leaves the queue with exactly one row per shard number below
  \<open>shards\<close>, if it had exactly one per number below the old count; tokens never exceed the share of the
  burst, a row's counter is the one it had or zero when it is new, and no row of another queue changes.
\<close>

theorem spread_shards:
  assumes "distinct (map s_shard (shard_rows (q_id new) d))"
    and "set (map s_shard (shard_rows (q_id new) d)) = {0..<(case old of None \<Rightarrow> 0 | Some o' \<Rightarrow> q_shards o')}"
  shows "(spread old new now d = Inl object_in_use \<longleftrightarrow>
       (\<exists>o'. old = Some o' \<and> q_shards new \<noteq> q_shards o') \<and>
       ((\<exists>s \<in> set (queue_shards d). s_queue_id s = q_id new \<and> 0 < s_in_flight s) \<or>
        (\<exists>j \<in> set (jobs d). j_queue_id j = q_id new \<and> active (j_status j)))) \<and>
    (\<forall>d'. spread old new now d = Inr d' \<longrightarrow>
       distinct (map s_shard (shard_rows (q_id new) d')) \<and>
       set (map s_shard (shard_rows (q_id new) d')) = {0..<q_shards new} \<and>
       (\<forall>s \<in> set (shard_rows (q_id new) d'). s_rl_tokens s \<le> q_rl_burst new / of_int (q_shards new) \<and>
          (s_in_flight s = 0 \<or>
           (\<exists>s0 \<in> set (shard_rows (q_id new) d). s_shard s0 = s_shard s \<and> s_in_flight s0 = s_in_flight s))) \<and>
       (\<forall>q'. q' \<noteq> q_id new \<longrightarrow> shard_rows q' d' = shard_rows q' d))"
proof (intro conjI allI impI ballI)
  show "spread old new now d = Inl object_in_use \<longleftrightarrow>
       (\<exists>o'. old = Some o' \<and> q_shards new \<noteq> q_shards o') \<and>
       ((\<exists>s \<in> set (queue_shards d). s_queue_id s = q_id new \<and> 0 < s_in_flight s) \<or>
        (\<exists>j \<in> set (jobs d). j_queue_id j = q_id new \<and> active (j_status j)))"
    by (auto simp: spread_def Let_def split: option.splits)
next
  fix d' assume d': "spread old new now d = Inr d'"
  let ?tok = "q_rl_burst new / of_int (q_shards new)"
  let ?cut = "\<lambda>s. s\<lparr>s_rl_tokens := min (s_rl_tokens s) ?tok\<rparr>"
  obtain K where rows: "shard_rows (q_id new) d' = map ?cut
       (K @ map (\<lambda>g. \<lparr>s_queue_id = q_id new, s_shard = g, s_in_flight = 0, s_rl_tokens = ?tok, s_rl_refilled_at = now\<rparr>)
          (filter (\<lambda>g. g \<notin> s_shard ` set K) [0 .. q_shards new - 1]))"
    and K: "K = (if \<exists>o'. old = Some o' \<and> q_shards new \<noteq> q_shards o'
            then filter (\<lambda>s. s_shard s < q_shards new) (shard_rows (q_id new) d) else shard_rows (q_id new) d)"
    using spread_rows(2) [OF d'] by blast
  have dK: "distinct (map s_shard K)" and subK: "set K \<subseteq> set (shard_rows (q_id new) d)"
    using assms(1) by (auto simp: K distinct_map_filter)
  have "s_shard s \<in> {0..<q_shards new}" if "s \<in> set K" for s
  proof -
    from that subK have "s_shard s \<in> set (map s_shard (shard_rows (q_id new) d))" by auto
    with that assms(2) show ?thesis by (auto simp: K split: option.splits if_splits)
  qed
  then have upK: "s_shard ` set K \<subseteq> {0..<q_shards new}" by auto
  have shards: "map s_shard (shard_rows (q_id new) d') =
      map s_shard K @ filter (\<lambda>g. g \<notin> s_shard ` set K) [0 .. q_shards new - 1]"
    by (simp add: rows comp_def)
  show "distinct (map s_shard (shard_rows (q_id new) d'))"
    unfolding shards using dK by auto
  show "set (map s_shard (shard_rows (q_id new) d')) = {0..<q_shards new}"
    unfolding shards using upK by auto
  fix s assume s: "s \<in> set (shard_rows (q_id new) d')"
  show "s_rl_tokens s \<le> ?tok" using s by (auto simp: rows)
  show "s_in_flight s = 0 \<or> (\<exists>s0 \<in> set (shard_rows (q_id new) d). s_shard s0 = s_shard s \<and> s_in_flight s0 = s_in_flight s)"
    using s subK by (auto simp: rows)
next
  fix d' q' assume "spread old new now d = Inr d'" "q' \<noteq> q_id new"
  then show "shard_rows q' d' = shard_rows q' d" by (rule spread_rows(1))
qed

theorem spread_shards_witness:
  "(spread (Some sample_queue) (sample_queue\<lparr>q_shards := 2\<rparr>) 0 sample_db = Inl object_in_use) \<and>
   distinct (map s_shard (shard_rows (q_id sample_queue) sample_db))"
proof -
  let ?new = "sample_queue\<lparr>q_shards := 2\<rparr>"
  have "distinct (map s_shard (shard_rows (q_id ?new) sample_db))"
    "set (map s_shard (shard_rows (q_id ?new) sample_db)) =
       {0..<(case Some sample_queue of None \<Rightarrow> 0 | Some o' \<Rightarrow> q_shards o')}"
    by (auto simp: shard_rows_def sample_defs)
  note w = spread_shards [OF this, of 0]
  moreover have "\<exists>s \<in> set (queue_shards sample_db). s_queue_id s = q_id ?new \<and> 0 < s_in_flight s"
    by (simp add: sample_defs)
  moreover have "\<exists>o'. Some sample_queue = Some o' \<and> q_shards ?new \<noteq> q_shards o'"
    by (simp add: sample_defs)
  ultimately show ?thesis by (simp add: shard_rows_def sample_defs)
qed

end
