(* ===== verification/Calls.thy ===== *)
theory Calls
  imports Admission
begin

text \<open>
  A call from Go to the database: \<open>pool.QueryRow\<close>, \<open>pool.Exec\<close>, or a transaction from \<open>pool.Begin\<close> to
  \<open>tx.Commit\<close>. A transaction either takes effect as a whole or not at all, but the caller does not
  always learn which: the environment chooses a \<open>fate\<close> for each call, and \<open>run_tx\<close> says what the
  caller sees and what is left in the database.

  \<open>pgconn.SafeToRetry\<close> is third-party code. It is the argument \<open>safe\<close> of the definitions that use it;
  what the code relies on, that it holds only of errors raised before anything was sent to the
  server, is the predicate \<open>safe_for\<close>.
\<close>

section \<open>Errors seen by Go\<close>

datatype go_error =
  Pg pg_error              \<comment> \<open>\<open>pgconn.PgError\<close>\<close>
| Conn nat                 \<comment> \<open>any other error of the driver: dial, reset, context deadline\<close>
| ErrNoRows                \<comment> \<open>\<open>pgx.ErrNoRows\<close>\<close>
| ErrFenced                \<comment> \<open>\<open>jobs.ErrFenced\<close>\<close>
| ErrNoQueue               \<comment> \<open>\<open>worker.ErrNoQueue\<close>\<close>

datatype fate =
  Runs                     \<comment> \<open>the transaction runs to its end and the answer arrives\<close>
| Aborts string            \<comment> \<open>the server rolls it back with this SQLSTATE (deadlock, shutdown, ...)\<close>
| Lost nat bool            \<comment> \<open>the connection fails with this error; the flag says whether the commit had landed\<close>

definition run_tx :: "fate \<Rightarrow> 'a tx \<Rightarrow> db \<Rightarrow> (go_error + 'a) \<times> db" where
  "run_tx fate t d =
    (case fate of
       Runs \<Rightarrow> (case t d of Inl e \<Rightarrow> (Inl (Pg e), d) | Inr (a, d') \<Rightarrow> (Inr a, d'))
     | Aborts c \<Rightarrow> (Inl (Pg (PgError c)), d)
     | Lost e landed \<Rightarrow>
         (Inl (Conn e), if landed then (case t d of Inl _ \<Rightarrow> d | Inr (_, d') \<Rightarrow> d') else d))"

text \<open>\<open>QueryRow(...).Scan\<close> on a statement that returns at most one row: no row is \<open>ErrNoRows\<close>.\<close>

definition scan_row :: "(go_error + 'a option) \<times> db \<Rightarrow> (go_error + 'a) \<times> db" where
  "scan_row r = (case r of
     (Inl e, d) \<Rightarrow> (Inl e, d)
   | (Inr None, d) \<Rightarrow> (Inl ErrNoRows, d)
   | (Inr (Some a), d) \<Rightarrow> (Inr a, d))"

text \<open>\<open>if errors.Is(err, pgx.ErrNoRows) { return ErrFenced }\<close>.\<close>

definition no_rows_fenced :: "(go_error + 'a) \<times> db \<Rightarrow> (go_error + 'a) \<times> db" where
  "no_rows_fenced r = (case r of (Inl ErrNoRows, d) \<Rightarrow> (Inl ErrFenced, d) | _ \<Rightarrow> r)"

section \<open>Which errors may be retried\<close>

definition safe_for :: "(nat \<Rightarrow> bool) \<Rightarrow> fate \<Rightarrow> bool" where
  "safe_for safe fate \<longleftrightarrow> (\<forall>e landed. fate = Lost e landed \<longrightarrow> safe e \<longrightarrow> \<not> landed)"

fun transient :: "(nat \<Rightarrow> bool) \<Rightarrow> go_error \<Rightarrow> bool" where
  "transient safe (Pg (PgError c)) \<longleftrightarrow> c = ''40001'' \<or> c = ''40P01''"
| "transient safe (Conn e) \<longleftrightarrow> safe e"
| "transient safe _ \<longleftrightarrow> False"

lemma run_tx_outcome:
  "run_tx f t d = (r, d') \<Longrightarrow> (\<exists>a. t d = Inr (a, d')) \<or> (d' = d \<and> (\<exists>e. r = Inl e))"
  by (auto simp: run_tx_def split: fate.splits sum.splits if_splits)

lemma run_tx_Inr: "run_tx f t d = (Inr a, d') \<longleftrightarrow> f = Runs \<and> t d = Inr (a, d')"
  by (auto simp: run_tx_def split: fate.splits sum.splits if_splits)

lemma run_tx_Runs_ok [simp]: "t d = Inr (a, d') \<Longrightarrow> run_tx Runs t d = (Inr a, d')"
  by (simp add: run_tx_def)

lemma run_tx_Pg: "run_tx f t d = (Inl (Pg e), d') \<Longrightarrow> d' = d"
  by (auto simp: run_tx_def split: fate.splits sum.splits if_splits)

text \<open>An error the worker retries left nothing behind.\<close>

lemma transient_no_effect:
  assumes "run_tx f t d = (Inl e, d')" and "safe_for safe f" and "transient safe e"
  shows "d' = d"
  using assms
  by (cases f) (auto simp: run_tx_def safe_for_def split: sum.splits if_splits)

lemma scan_row_Inr: "scan_row r = (Inr a, d) \<longleftrightarrow> r = (Inr (Some a), d)"
  by (auto simp: scan_row_def split: prod.splits sum.splits option.splits)

lemma scan_row_Inl:
  "scan_row r = (Inl e, d) \<longleftrightarrow> r = (Inl e, d) \<or> (r = (Inr None, d) \<and> e = ErrNoRows)"
  by (auto simp: scan_row_def split: prod.splits sum.splits option.splits)

lemma snd_scan_row [simp]: "snd (scan_row r) = snd r"
  by (auto simp: scan_row_def split: prod.splits sum.splits option.splits)

lemma snd_no_rows_fenced [simp]: "snd (no_rows_fenced r) = snd r"
  by (auto simp: no_rows_fenced_def split: prod.splits sum.splits go_error.splits)

lemma no_rows_fenced_Inr: "no_rows_fenced r = (Inr a, d) \<longleftrightarrow> r = (Inr a, d)"
  by (auto simp: no_rows_fenced_def split: prod.splits sum.splits go_error.splits)

lemma no_rows_fenced_Inl:
  "no_rows_fenced r = (Inl e, d) \<longleftrightarrow>
     (r = (Inl e, d) \<and> e \<noteq> ErrNoRows) \<or> (r = (Inl ErrNoRows, d) \<and> e = ErrFenced)"
  by (auto simp: no_rows_fenced_def split: prod.splits sum.splits go_error.splits)

end
