(* ===== verification/Claim.thy ===== *)
theory Claim
  imports Calls
begin

text \<open>
  Claiming jobs: \<open>src/internal/jobs/claim.go\<close>, \<open>release.go\<close> and the types of \<open>jobs.go\<close>. \<open>claim_sql\<close> is the
  statement \<open>claimSQL\<close> (candidates, update, lease upsert), \<open>take_jobs\<close> the transaction around it that gives
  back the slots it did not use, \<open>Claim\<close> the whole call: admission in one transaction, the take in
  another, and the release of every slot when the take failed.

  \<open>for update skip locked\<close> skips the rows other transactions hold at that moment; \<open>locked\<close> says which.
  Durations are in microseconds.
\<close>

record Claimed =
  c_ID :: uuid
  c_Fence :: nat
  c_Type :: string
  c_Payload :: string
  c_AttemptCount :: nat
  c_DeadlineAt :: timestamptz

record ClaimRequest =
  r_QueueID :: uuid
  r_WorkerID :: uuid
  r_FreeSlots :: int
  r_Lease :: interval
  r_Types :: "string list option"

section \<open>The claim statement\<close>

definition claimable :: "ClaimRequest \<Rightarrow> (uuid \<Rightarrow> bool) \<Rightarrow> timestamptz \<Rightarrow> job \<Rightarrow> bool" where
  "claimable req locked now j \<longleftrightarrow>
     j_queue_id j = r_QueueID req \<and> j_status j = Queued \<and> j_run_at j \<le> now \<and>
     (case r_Types req of None \<Rightarrow> True | Some ts \<Rightarrow> j_type j \<in> set ts) \<and> \<not> locked (j_id j)"

text \<open>\<open>order by priority desc, run_at asc, id asc\<close>.\<close>

definition claim_order :: "job \<Rightarrow> int \<times> int \<times> nat" where
  "claim_order j = (- j_priority j, j_run_at j, j_id j)"

definition cand :: "ClaimRequest \<Rightarrow> nat \<Rightarrow> (uuid \<Rightarrow> bool) \<Rightarrow> timestamptz \<Rightarrow> db \<Rightarrow> job list" where
  "cand req n locked now d = order_limit claim_order n (filter (claimable req locked now) (jobs d))"

definition claim_row :: "ClaimRequest \<Rightarrow> int \<Rightarrow> timestamptz \<Rightarrow> job \<Rightarrow> job" where
  "claim_row req shard now j =
     j\<lparr>j_status := Claimed, j_fence := j_fence j + 1, j_shard := shard, j_worker_id := Some (r_WorkerID req),
       j_claimed_at := Some now, j_deadline_at := Some (now + j_timeout_ms j * 1000)\<rparr>"

definition upsert_lease :: "lease \<Rightarrow> lease list \<Rightarrow> lease list" where
  "upsert_lease l ls =
     (if \<exists>m \<in> set ls. l_job_id m = l_job_id l
      then update_where (\<lambda>m. l_job_id m = l_job_id l)
             (\<lambda>m. m\<lparr>l_fence := l_fence l, l_worker_id := l_worker_id l, l_expires_at := l_expires_at l,
                    l_updated_at := l_updated_at l\<rparr>) ls
      else ls @ [l])"

definition claim_lease :: "ClaimRequest \<Rightarrow> timestamptz \<Rightarrow> job \<Rightarrow> lease" where
  "claim_lease req now j =
     \<lparr>l_job_id = j_id j, l_fence = j_fence j, l_worker_id = r_WorkerID req,
      l_expires_at = now + r_Lease req, l_progress = None, l_updated_at = now\<rparr>"

definition claimed_of :: "job \<Rightarrow> Claimed" where
  "claimed_of j = \<lparr>c_ID = j_id j, c_Fence = j_fence j, c_Type = j_type j, c_Payload = j_payload j,
     c_AttemptCount = j_attempt_count j, c_DeadlineAt = coalesce (j_deadline_at j) 0\<rparr>"

text \<open>
  The worker must exist: \<open>jobs.worker_id\<close> and \<open>job_leases.worker_id\<close> refer to \<open>workers\<close>. The rows come back
  in the order of the candidates.
\<close>

definition claim_sql :: "ClaimRequest \<Rightarrow> nat \<Rightarrow> int \<Rightarrow> (uuid \<Rightarrow> bool) \<Rightarrow> timestamptz \<Rightarrow> Claimed list tx" where
  "claim_sql req n shard locked now d =
     (let cs = cand req n locked now d;
          upd = map (claim_row req shard now) cs
      in if cs \<noteq> [] \<and> (\<forall>w \<in> set (workers d). w_id w \<noteq> r_WorkerID req) then Inl fk_violation
         else rbind (update_jobs (\<lambda>j. j_id j \<in> j_id ` set cs) (claim_row req shard now) d)
           (\<lambda>d1. Inr (map claimed_of upd,
                  d1\<lparr>job_leases := fold (\<lambda>j. upsert_lease (claim_lease req now j)) upd (job_leases d1)\<rparr>)))"

section \<open>Take and claim\<close>

definition take_jobs :: "ClaimRequest \<Rightarrow> int \<Rightarrow> int \<Rightarrow> (uuid \<Rightarrow> bool) \<Rightarrow> timestamptz \<Rightarrow> Claimed list tx" where
  "take_jobs req shard n locked now d =
     rbind (claim_sql req (nat n) shard locked now d) (\<lambda>(out, d1).
       Inr (out, if int (length out) < n
                 then queue_release (r_QueueID req) shard (n - int (length out)) d1 else d1))"

text \<open>
  The three transactions of one call: their fates, the rotation and stale reads of the admission, and what
  the rest of the system does between admission and take.
\<close>

record claim_env =
  ce_admit :: fate
  ce_take :: fate
  ce_give :: fate
  ce_rot :: int
  ce_seen :: db
  ce_locked :: "uuid \<Rightarrow> bool"
  ce_now :: timestamptz
  ce_between :: "db \<Rightarrow> db"

definition admit :: "ClaimRequest \<Rightarrow> claim_env \<Rightarrow> db \<Rightarrow> (go_error + int \<times> int) \<times> db" where
  "admit req env d =
     run_tx (ce_admit env) (queue_admit (r_QueueID req) (r_FreeSlots req) (ce_rot env) (ce_seen env) (ce_now env)) d"

definition Claim :: "ClaimRequest \<Rightarrow> claim_env \<Rightarrow> db \<Rightarrow> (go_error + Claimed list) \<times> db" where
  "Claim req env d =
    (case admit req env d of
       (Inl e, d1) \<Rightarrow> (Inl e, d1)
     | (Inr (n, shard), d1) \<Rightarrow>
         if n = 0 then (Inr [], d1)
         else case run_tx (ce_take env) (take_jobs req shard n (ce_locked env) (ce_now env)) (ce_between env d1) of
                (Inr out, d2) \<Rightarrow> (Inr out, d2)
              | (Inl e, d2) \<Rightarrow>
                  (Inl e, snd (run_tx (ce_give env) (\<lambda>x. Inr ((), queue_release (r_QueueID req) shard n x)) d2)))"

section \<open>Candidates\<close>

lemma cand_sub: "j \<in> set (cand req n locked now d) \<Longrightarrow> j \<in> set (jobs d) \<and> claimable req locked now j"
  using set_order_limit [of claim_order n "filter (claimable req locked now) (jobs d)"] by (auto simp: cand_def)

lemma length_cand [simp]: "length (cand req n locked now d) = min (count_where (claimable req locked now) (jobs d)) n"
  by (simp add: cand_def count_where_def)

lemma distinct_cand: "distinct (map j_id (jobs d)) \<Longrightarrow> distinct (map j_id (cand req n locked now d))"
  by (simp add: cand_def distinct_order_limit distinct_map_filter)

lemma cand_first:
  "x \<in> set (cand req n locked now d) \<Longrightarrow> y \<in> set (jobs d) \<Longrightarrow> claimable req locked now y \<Longrightarrow>
   y \<notin> set (cand req n locked now d) \<Longrightarrow> claim_order x \<le> claim_order y"
  unfolding cand_def by (rule order_limit_minimal) auto

lemma claim_row_simps [simp]:
  "j_id (claim_row req sh now j) = j_id j" "j_status (claim_row req sh now j) = Claimed"
  "j_fence (claim_row req sh now j) = Suc (j_fence j)" "j_queue_id (claim_row req sh now j) = j_queue_id j"
  "j_shard (claim_row req sh now j) = sh" "j_worker_id (claim_row req sh now j) = Some (r_WorkerID req)"
  "j_project_id (claim_row req sh now j) = j_project_id j" "j_pending_deps (claim_row req sh now j) = j_pending_deps j"
  "j_attempt_count (claim_row req sh now j) = j_attempt_count j"
  by (simp_all add: claim_row_def)

lemma claim_row_ok: "check_job j \<Longrightarrow> j_status j = Queued \<Longrightarrow> write_ok j (claim_row req sh now j)"
  by (auto simp: write_ok_def check_job_def claim_row_def)

section \<open>Leases\<close>

lemma lookup_upsert_lease:
  "lookup_row l_job_id i (upsert_lease l ls) =
    (if i = l_job_id l
     then Some (case lookup_row l_job_id i ls of
         None \<Rightarrow> l
       | Some m \<Rightarrow> m\<lparr>l_fence := l_fence l, l_worker_id := l_worker_id l, l_expires_at := l_expires_at l,
                    l_updated_at := l_updated_at l\<rparr>)
     else lookup_row l_job_id i ls)"
proof (cases "\<exists>m \<in> set ls. l_job_id m = l_job_id l")
  case True
  then have "lookup_row l_job_id (l_job_id l) ls \<noteq> None" by (auto simp: lookup_row_None_iff)
  with True show ?thesis
    by (auto simp: upsert_lease_def lookup_row_update map_option_case split: option.splits dest: lookup_row_SomeD)
next
  case False
  then have "lookup_row l_job_id (l_job_id l) ls = None" by (auto simp: lookup_row_None_iff)
  with False show ?thesis
    by (auto simp: upsert_lease_def lookup_row_append split: option.splits)
qed

lemma keys_upsert_lease:
  "distinct (map l_job_id ls) \<Longrightarrow> distinct (map l_job_id (upsert_lease l ls))"
  "l_job_id ` set (upsert_lease l ls) = insert (l_job_id l) (l_job_id ` set ls)"
proof -
  show "distinct (map l_job_id (upsert_lease l ls))" if "distinct (map l_job_id ls)"
    using that by (auto simp: upsert_lease_def map_update_where)
  show "l_job_id ` set (upsert_lease l ls) = insert (l_job_id l) (l_job_id ` set ls)"
  proof (cases "l_job_id l \<in> l_job_id ` set ls")
    case True
    then have "\<exists>m \<in> set ls. l_job_id m = l_job_id l" by (metis imageE)
    with True show ?thesis by (simp add: upsert_lease_def image_update_where insert_absorb)
  next
    case False
    then have "\<not> (\<exists>m \<in> set ls. l_job_id m = l_job_id l)" by (metis imageI)
    then show ?thesis by (simp add: upsert_lease_def)
  qed
qed

text \<open>The leases the claim statement leaves: one per candidate with its new fence, the others untouched.\<close>

lemma lookup_claim_leases:
  assumes "distinct (map j_id js)"
  shows "lookup_row l_job_id i (fold (\<lambda>j. upsert_lease (claim_lease req now j)) js ls) =
    (case lookup_row j_id i js of
       None \<Rightarrow> lookup_row l_job_id i ls
     | Some j \<Rightarrow> lookup_row l_job_id i (upsert_lease (claim_lease req now j) ls))"
  using assms
proof (induction js arbitrary: ls)
  case (Cons j js)
  have "lookup_row j_id (j_id j) js = None" using Cons.prems by (auto simp: lookup_row_None_iff image_iff)
  with Cons show ?case
    by (auto simp: lookup_upsert_lease claim_lease_def split: option.splits dest: lookup_row_SomeD)
qed simp

lemma keys_claim_leases:
  "distinct (map l_job_id ls) \<Longrightarrow>
   distinct (map l_job_id (fold (\<lambda>j. upsert_lease (claim_lease req now j)) js ls))"
  by (induction js arbitrary: ls) (auto simp: keys_upsert_lease)

lemma set_claim_leases:
  "l_job_id ` set (fold (\<lambda>j. upsert_lease (claim_lease req now j)) js ls) = l_job_id ` set ls \<union> j_id ` set js"
  by (induction js arbitrary: ls) (auto simp: keys_upsert_lease claim_lease_def)

section \<open>What the claim statement does\<close>

abbreviation is_worker :: "uuid \<Rightarrow> db \<Rightarrow> bool" where
  "is_worker w d \<equiv> \<exists>r \<in> set (workers d). w_id r = w"

lemma in_cand_iff:
  assumes "jobs_wf d" and "j \<in> set (jobs d)"
  shows "j_id j \<in> j_id ` set (cand req n locked now d) \<longleftrightarrow> j \<in> set (cand req n locked now d)"
  using jobs_wfD(4) [OF assms] cand_sub [of _ req n locked now d] by auto

lemma claim_sql_eq:
  assumes "jobs_wf d" and "is_worker (r_WorkerID req) d \<or> cand req n locked now d = []"
  shows "claim_sql req n sh locked now d =
    Inr (map (\<lambda>j. claimed_of (claim_row req sh now j)) (cand req n locked now d),
      d\<lparr>jobs := update_where (\<lambda>j. j \<in> set (cand req n locked now d)) (claim_row req sh now) (jobs d),
        job_leases := fold (\<lambda>j. upsert_lease (claim_lease req now j))
           (map (claim_row req sh now) (cand req n locked now d)) (job_leases d)\<rparr>)"
proof -
  let ?cs = "cand req n locked now d"
  have "update_jobs (\<lambda>j. j_id j \<in> j_id ` set ?cs) (claim_row req sh now) d =
      Inr (d\<lparr>jobs := update_where (\<lambda>j. j_id j \<in> j_id ` set ?cs) (claim_row req sh now) (jobs d)\<rparr>)"
  proof (rule update_jobs_ok)
    fix j assume j: "j \<in> set (jobs d)" "j_id j \<in> j_id ` set ?cs"
    then have "j \<in> set ?cs" using in_cand_iff [OF assms(1)] by blast
    then show "write_ok j (claim_row req sh now j)"
      using cand_sub [of j req n locked now d] jobs_wfD(2) [OF assms(1)]
      by (intro claim_row_ok) (auto simp: claimable_def)
  qed
  moreover have "update_where (\<lambda>j. j_id j \<in> j_id ` set ?cs) (claim_row req sh now) (jobs d) =
      update_where (\<lambda>j. j \<in> set ?cs) (claim_row req sh now) (jobs d)"
    by (rule update_where_cong) (auto simp: in_cand_iff [OF assms(1)])
  ultimately show ?thesis
    using assms(2) unfolding claim_sql_def Let_def by (auto simp: comp_def)
qed

lemma lookup_claimed:
  assumes wf: "jobs_wf d" and j: "j \<in> set (jobs d)"
  shows "lookup_row j_id (j_id j) (map (claim_row req sh now) (cand req n locked now d)) =
    (if j \<in> set (cand req n locked now d) then Some (claim_row req sh now j) else None)"
proof (cases "j \<in> set (cand req n locked now d)")
  case False
  then have "\<forall>r \<in> set (cand req n locked now d). j_id r \<noteq> j_id j"
    using in_cand_iff [OF wf j, of req n locked now] by (metis imageI)
  with False show ?thesis by (simp add: lookup_row_None_iff)
next
  case True
  have "distinct (map j_id (map (claim_row req sh now) (cand req n locked now d)))"
    using distinct_cand jobs_wfD(1) [OF wf] by (simp add: comp_def)
  then show ?thesis using True by (simp add: lookup_row_Some_iff)
qed

lemma lease_claimed:
  assumes wf: "jobs_wf d" and j: "j \<in> set (jobs d)"
  shows "lookup_row l_job_id (j_id j) (fold (\<lambda>j. upsert_lease (claim_lease req now j)) (map (claim_row req sh now) (cand req n locked now d)) (job_leases d)) =
    (if j \<in> set (cand req n locked now d)
     then lookup_row l_job_id (j_id j) (upsert_lease (claim_lease req now (claim_row req sh now j)) (job_leases d))
     else lease_of d (j_id j))"
proof -
  have "distinct (map j_id (map (claim_row req sh now) (cand req n locked now d)))"
    using distinct_cand jobs_wfD(1) [OF wf] by (simp add: comp_def)
  from lookup_claim_leases [OF this, of "j_id j" req now "job_leases d"] show ?thesis
    using lookup_claimed [OF wf j, of req sh now n locked] by simp
qed

text \<open>
  C11. The claim takes exactly the first \<open>n\<close> queued, due, unlocked jobs of the queue in the order priority
  descending, then \<open>run_at\<close>, then id (all of them when there are fewer): nothing that could have been taken
  sorts before something taken. Each taken row becomes \<open>claimed\<close> with its fence raised by one and a lease
  of that fence for the worker, valid for the lease duration; no other job and no other lease changes. It
  fails only when the worker is unknown.
\<close>

theorem claim_takes_first:
  assumes "jobs_wf d" and "is_worker (r_WorkerID req) d"
  shows "\<exists>out d'. claim_sql req n sh locked now d = Inr (out, d') \<and>
    length out = min n (count_where (claimable req locked now) (jobs d)) \<and>
    distinct (map c_ID out) \<and>
    (\<forall>j \<in> set (jobs d). if j_id j \<in> c_ID ` set out
       then claimable req locked now j \<and>
         job_of d' (j_id j) = Some (claim_row req sh now j) \<and>
         (\<exists>l. lease_of d' (j_id j) = Some l \<and> l_fence l = j_fence j + 1 \<and>
            l_worker_id l = r_WorkerID req \<and> l_expires_at l = now + r_Lease req) \<and>
         (\<forall>k \<in> set (jobs d). claimable req locked now k \<longrightarrow> j_id k \<notin> c_ID ` set out \<longrightarrow>
            claim_order j \<le> claim_order k)
       else job_of d' (j_id j) = Some j \<and> lease_of d' (j_id j) = lease_of d (j_id j))"
proof -
  let ?cs = "cand req n locked now d"
  let ?d' = "d\<lparr>jobs := update_where (\<lambda>j. j \<in> set ?cs) (claim_row req sh now) (jobs d),
        job_leases := fold (\<lambda>j. upsert_lease (claim_lease req now j))
           (map (claim_row req sh now) ?cs) (job_leases d)\<rparr>"
  let ?out = "map (\<lambda>j. claimed_of (claim_row req sh now j)) ?cs"
  have eq: "claim_sql req n sh locked now d = Inr (?out, ?d')"
    using claim_sql_eq [of d req n locked now sh] assms by blast
  have dist: "distinct (map j_id ?cs)" using distinct_cand jobs_wfD(1) [OF assms(1)] by blast
  have ids: "map c_ID ?out = map j_id ?cs" by (simp add: claimed_of_def comp_def)
  then have idset: "c_ID ` set ?out = j_id ` set ?cs" by (metis set_map)
  have job: "job_of ?d' (j_id j) = Some (if j \<in> set ?cs then claim_row req sh now j else j)"
    if "j \<in> set (jobs d)" for j
  proof -
    have "job_of d (j_id j) = Some j" using that jobs_wfD(3) [OF assms(1)] by blast
    then show ?thesis by (simp add: job_of_update)
  qed
  have lease_in: "\<exists>l. lease_of ?d' (j_id j) = Some l \<and> l_fence l = j_fence j + 1 \<and>
      l_worker_id l = r_WorkerID req \<and> l_expires_at l = now + r_Lease req"
    if "j \<in> set (jobs d)" "j \<in> set ?cs" for j
    using that lease_claimed [OF assms(1) that(1), of req now sh n locked]
    by (auto simp: lookup_upsert_lease claim_lease_def split: option.splits)
  show ?thesis
    unfolding eq
  proof (intro exI [of _ ?out] exI [of _ ?d'] conjI ballI)
    fix j assume j: "j \<in> set (jobs d)"
    show "if j_id j \<in> c_ID ` set ?out
       then claimable req locked now j \<and> job_of ?d' (j_id j) = Some (claim_row req sh now j) \<and>
         (\<exists>l. lease_of ?d' (j_id j) = Some l \<and> l_fence l = j_fence j + 1 \<and>
            l_worker_id l = r_WorkerID req \<and> l_expires_at l = now + r_Lease req) \<and>
         (\<forall>k \<in> set (jobs d). claimable req locked now k \<longrightarrow> j_id k \<notin> c_ID ` set ?out \<longrightarrow>
            claim_order j \<le> claim_order k)
       else job_of ?d' (j_id j) = Some j \<and> lease_of ?d' (j_id j) = lease_of d (j_id j)"
    proof (cases "j \<in> set ?cs")
      case True
      then show ?thesis
        unfolding idset using job [OF j] lease_in [OF j] cand_sub [OF True] in_cand_iff [OF assms(1)]
          cand_first [OF True] by simp
    next
      case False
      then show ?thesis
        unfolding idset using job [OF j] lease_claimed [OF assms(1) j, of req now sh n locked]
          in_cand_iff [OF assms(1) j, of req n locked now] by simp
    qed
  next
    show "distinct (map c_ID ?out)" unfolding ids by (rule dist)
  qed simp_all
qed

definition sample_req :: ClaimRequest where
  "sample_req = \<lparr>r_QueueID = 7, r_WorkerID = 5, r_FreeSlots = 4, r_Lease = 30000000, r_Types = Some [''email'']\<rparr>"

lemma sample_jobs_wf: "jobs_wf sample_db"
  by (simp add: jobs_wf_def check_job_def sample_defs)

theorem claim_takes_first_witness:
  "\<exists>out d'. claim_sql sample_req 4 0 (\<lambda>_. False) sample_now sample_db = Inr (out, d') \<and> length out = 1"
proof -
  have "is_worker (r_WorkerID sample_req) sample_db" by (simp add: sample_req_def sample_defs)
  moreover have "count_where (claimable sample_req (\<lambda>_. False) sample_now) (jobs sample_db) = 1"
    by (simp add: claimable_def sample_req_def sample_defs)
  ultimately show ?thesis
    using claim_takes_first [OF sample_jobs_wf, of sample_req 4 0 "\<lambda>_. False" sample_now] by auto
qed

section \<open>Slots\<close>

text \<open>
  The slack of a shard: the slots its counter holds beyond the jobs that are claimed or running on it.
  The queue's cap on running jobs rests on the slack never being negative.
\<close>

definition slack :: "uuid \<Rightarrow> int \<Rightarrow> db \<Rightarrow> int" where
  "slack q s d = (case shard_of d q s of None \<Rightarrow> 0 | Some r \<Rightarrow> s_in_flight r) - int (active_in q s d)"

lemma queue_release_frame [simp]:
  "jobs (queue_release q s n d) = jobs d" "queues (queue_release q s n d) = queues d"
  "job_leases (queue_release q s n d) = job_leases d" "job_executions (queue_release q s n d) = job_executions d"
  "job_dependencies (queue_release q s n d) = job_dependencies d" "workers (queue_release q s n d) = workers d"
  "dead_letter_jobs (queue_release q s n d) = dead_letter_jobs d" "events (queue_release q s n d) = events d"
  "event_seq (queue_release q s n d) = event_seq d" "retry_policies (queue_release q s n d) = retry_policies d"
  "queue_stats_minute (queue_release q s n d) = queue_stats_minute d"
  "job_fence_violations (queue_release q s n d) = job_fence_violations d"
  "worker_queues (queue_release q s n d) = worker_queues d" "job_logs (queue_release q s n d) = job_logs d"
  "schedules (queue_release q s n d) = schedules d" "jobs_archive (queue_release q s n d) = jobs_archive d"
  by (simp_all add: queue_release_def)

lemma shard_of_release:
  "shard_of (queue_release q s n d) q' s' =
    (if (q', s') = (q, s) then map_option (\<lambda>r. r\<lparr>s_in_flight := max (s_in_flight r - n) 0\<rparr>) (shard_of d q s)
     else shard_of d q' s')"
  unfolding queue_release_def
  by (auto simp: shard_of_update map_option_case split: option.splits dest: lookup_row_SomeD)

lemma active_in_same: "jobs d' = jobs d \<Longrightarrow> active_in q s d' = active_in q s d"
  by (simp add: active_in_def)

lemma slack_release:
  assumes "shard_of d q s = Some r" and "n \<le> s_in_flight r"
  shows "slack q s (queue_release q s n d) = slack q s d - n"
  using assms by (simp add: slack_def shard_of_release active_in_def)

lemma active_in_update:
  assumes "\<And>j. P j \<Longrightarrow> j_queue_id (f j) = j_queue_id j" and "jobs d' = update_where P f (jobs d)"
  shows "int (active_in q s d') = int (active_in q s d) +
    int (count_where (\<lambda>j. P j \<and> j_queue_id j = q \<and> j_shard (f j) = s \<and> active (j_status (f j))) (jobs d)) -
    int (count_where (\<lambda>j. P j \<and> j_queue_id j = q \<and> j_shard j = s \<and> active (j_status j)) (jobs d))"
proof -
  let ?Q = "\<lambda>j. j_queue_id j = q \<and> j_shard j = s \<and> active (j_status j)"
  have "count_where (\<lambda>j. P j \<and> ?Q (f j)) (jobs d) =
      count_where (\<lambda>j. P j \<and> j_queue_id j = q \<and> j_shard (f j) = s \<and> active (j_status (f j))) (jobs d)"
    using assms(1) by (intro count_where_cong) auto
  then show ?thesis
    using count_where_update [of ?Q P f "jobs d"] assms(2) by (simp add: active_in_def)
qed

lemma count_where_in_sublist:
  assumes "distinct (map k rs)" and "distinct (map k xs)" and "set xs \<subseteq> set rs"
  shows "count_where (\<lambda>r. r \<in> set xs) rs = length xs"
proof -
  have "distinct rs" "distinct xs" using assms by (auto simp: distinct_map)
  then have "length (filter (\<lambda>r. r \<in> set xs) rs) = card (set (filter (\<lambda>r. r \<in> set xs) rs))"
    by (metis distinct_card distinct_filter)
  also have "set (filter (\<lambda>r. r \<in> set xs) rs) = set xs" using assms(3) by auto
  finally show ?thesis using \<open>distinct xs\<close> by (simp add: count_where_def distinct_card)
qed

lemma active_in_claim:
  assumes "jobs_wf d"
    and "jobs d' = update_where (\<lambda>j. j \<in> set (cand req n locked now d)) (claim_row req sh now) (jobs d)"
  shows "active_in q s d' =
    active_in q s d + (if (q, s) = (r_QueueID req, sh) then length (cand req n locked now d) else 0)"
proof -
  let ?cs = "cand req n locked now d"
  have in_cs: "j_queue_id j = r_QueueID req \<and> \<not> active (j_status j)" if "j \<in> set ?cs" for j
    using cand_sub [OF that] by (auto simp: claimable_def)
  have "count_where (\<lambda>j. j \<in> set ?cs \<and> j_queue_id j = q \<and> j_shard (claim_row req sh now j) = s \<and>
      active (j_status (claim_row req sh now j))) (jobs d) =
     (if (q, s) = (r_QueueID req, sh) then count_where (\<lambda>j. j \<in> set ?cs) (jobs d) else 0)"
    using in_cs by (auto simp: count_where_zero_iff intro!: count_where_cong)
  moreover have "count_where (\<lambda>j. j \<in> set ?cs) (jobs d) = length ?cs"
  proof (rule count_where_in_sublist)
    show "distinct (map j_id (jobs d))" "distinct (map j_id ?cs)"
      using jobs_wfD(1) [OF assms(1)] distinct_cand by auto
    show "set ?cs \<subseteq> set (jobs d)" using cand_sub by blast
  qed
  moreover have "count_where (\<lambda>j. j \<in> set ?cs \<and> j_queue_id j = q \<and> j_shard j = s \<and> active (j_status j)) (jobs d) = 0"
    using in_cs by (auto simp: count_where_zero_iff)
  ultimately have "int (active_in q s d') =
      int (active_in q s d + (if (q, s) = (r_QueueID req, sh) then length ?cs else 0))"
    using active_in_update [of "\<lambda>j. j \<in> set ?cs" "claim_row req sh now" d' d q s] assms(2) by (auto split: if_splits)
  then show ?thesis by (simp only: of_nat_eq_iff)
qed

text \<open>A take that commits uses up the slots it was admitted with: some become jobs, the others go back.\<close>

lemma take_jobs_slack:
  assumes "jobs_wf d" and "take_jobs req sh n locked now d = Inr (out, d')"
    and "shard_of d (r_QueueID req) sh = Some r" and "0 \<le> n" and "n \<le> s_in_flight r"
  shows "slack (r_QueueID req) sh d' = slack (r_QueueID req) sh d - n"
    and "(q, s) \<noteq> (r_QueueID req, sh) \<Longrightarrow> slack q s d' = slack q s d"
    and "active_in (r_QueueID req) sh d' = active_in (r_QueueID req) sh d + length out"
    and "int (length out) \<le> n"
proof -
  let ?cs = "cand req (nat n) locked now d"
  from assms(2) obtain d1 where c: "claim_sql req (nat n) sh locked now d = Inr (out, d1)"
    and d': "d' = (if int (length out) < n then queue_release (r_QueueID req) sh (n - int (length out)) d1 else d1)"
    by (auto simp: take_jobs_def result_simps)
  have "is_worker (r_WorkerID req) d \<or> ?cs = []"
    using c by (auto simp: claim_sql_def Let_def split: if_splits)
  note eq = claim_sql_eq [OF assms(1) this, of sh]
  have out: "length out = length ?cs" and d1: "queue_shards d1 = queue_shards d"
    "jobs d1 = update_where (\<lambda>j. j \<in> set ?cs) (claim_row req sh now) (jobs d)"
    using c unfolding eq by auto
  have act: "active_in q s d' = active_in q s d + (if (q, s) = (r_QueueID req, sh) then length out else 0)" for q s
  proof -
    have "active_in q s d' = active_in q s d1" using d' by (simp add: active_in_def)
    then show ?thesis using active_in_claim [OF assms(1) d1(2), of q s] out by simp
  qed
  show le: "int (length out) \<le> n" using out assms(4) by auto
  show "active_in (r_QueueID req) sh d' = active_in (r_QueueID req) sh d + length out" using act by simp
  show "slack (r_QueueID req) sh d' = slack (r_QueueID req) sh d - n"
    using act [of "r_QueueID req" sh] assms(3,5) le d' d1
    by (simp add: slack_def shard_of_release)
  show "slack q s d' = slack q s d" if "(q, s) \<noteq> (r_QueueID req, sh)"
    using that act [of q s] d' d1 by (auto simp: slack_def shard_of_release split: if_splits)
qed

lemma admit_slack:
  assumes "queue_admit q want rot seen now d = Inr ((n, sh), d1)" and "n \<noteq> 0"
  shows "\<exists>r r0. shard_of d1 q sh = Some r \<and> shard_of d q sh = Some r0 \<and> s_in_flight r = s_in_flight r0 + n"
    and "slack q sh d1 = slack q sh d + n" and "jobs d1 = jobs d"
    and "(q', s') \<noteq> (q, sh) \<Longrightarrow> slack q' s' d1 = slack q' s' d"
proof -
  note g = queue_admit_grant [OF assms]
  show "\<exists>r r0. shard_of d1 q sh = Some r \<and> shard_of d q sh = Some r0 \<and> s_in_flight r = s_in_flight r0 + n"
    using g(1) by auto
  show j: "jobs d1 = jobs d" using queue_admit_frame(1) [OF assms(1)] by (metis db.ext_inject db.surjective db.update_convs(1,2))
  then show "slack q sh d1 = slack q sh d + n"
    using g(1) by (auto simp: slack_def active_in_def)
  show "slack q' s' d1 = slack q' s' d" if "(q', s') \<noteq> (q, sh)"
    using that g(1) j by (auto simp: slack_def active_in_def)
qed

lemma admit_zero_slack:
  assumes "queue_admit q want rot seen now d = Inr ((0, sh), d1)"
  shows "slack q' s' d1 = slack q' s' d" "jobs d1 = jobs d"
  using queue_admit_frame [OF assms] by (auto simp: slack_def active_in_def dest: arg_cong [of _ _ jobs])

lemma granted_fits:
  assumes "queue_admit q want rot seen now d = Inr ((n, sh), d1)" and "n \<noteq> 0"
    and "\<forall>s \<in> set (queue_shards d). 0 \<le> s_in_flight s"
  shows "\<exists>r. shard_of d1 q sh = Some r \<and> n \<le> s_in_flight r"
proof -
  obtain r r0 where r: "shard_of d1 q sh = Some r" "shard_of d q sh = Some r0" "s_in_flight r = s_in_flight r0 + n"
    using admit_slack(1) [OF assms(1,2)] by blast
  moreover have "0 \<le> s_in_flight r0" using assms(3) shard_of_key [OF r(2)] by blast
  ultimately show ?thesis by auto
qed

text \<open>The two ways a claim that was admitted ends: the take commits, or it fails and the slots go back.\<close>

lemma claim_taken:
  assumes "jobs_wf d" and adm: "queue_admit (r_QueueID req) want rot seen now d = Inr ((n, sh), d1)"
    and n: "n \<noteq> 0" and nonneg: "\<forall>s \<in> set (queue_shards d). 0 \<le> s_in_flight s"
    and tk: "take_jobs req sh n locked now d1 = Inr (out, d2)"
  shows "slack q s d2 = slack q s d"
    and "active_in (r_QueueID req) sh d2 = active_in (r_QueueID req) sh d + length out"
    and "int (length out) \<le> n"
proof -
  obtain r where r: "shard_of d1 (r_QueueID req) sh = Some r" "n \<le> s_in_flight r"
    using granted_fits [OF adm n nonneg] by blast
  have wf1: "jobs_wf d1" using assms(1) admit_slack(3) [OF adm n] by (simp add: jobs_wf_def)
  have pos: "0 \<le> n" using queue_admit_grant(2) [OF adm n] by simp
  note t = take_jobs_slack [OF wf1 tk r(1) pos r(2)]
  show "slack q s d2 = slack q s d"
    using t(1) t(2) [of q s] admit_slack(2) [OF adm n] admit_slack(4) [OF adm n, of q s]
    by (cases "(q, s) = (r_QueueID req, sh)") auto
  show "active_in (r_QueueID req) sh d2 = active_in (r_QueueID req) sh d + length out"
    using t(3) active_in_same [OF admit_slack(3) [OF adm n]] by simp
  show "int (length out) \<le> n" using t(4) .
qed

lemma claim_given_back:
  assumes adm: "queue_admit q want rot seen now d = Inr ((n, sh), d1)" and n: "n \<noteq> 0"
    and nonneg: "\<forall>s \<in> set (queue_shards d). 0 \<le> s_in_flight s"
  shows "slack q' s (queue_release q sh n d1) = slack q' s d"
proof (cases "(q', s) = (q, sh)")
  case True
  obtain r where "shard_of d1 q sh = Some r" "n \<le> s_in_flight r" using granted_fits [OF assms] by blast
  then show ?thesis using True slack_release admit_slack(2) [OF adm n] by simp
next
  case False
  then show ?thesis using admit_slack(4) [OF adm n False] by (auto simp: slack_def shard_of_release active_in_def)
qed

text \<open>
  A claim on a quiet database conserves slots. When it returns jobs, the running count of the shard it was
  admitted to grows by exactly their number, which is at most the free slots the worker asked for, and
  no shard's counter drifts from its running count; when the take fails without having committed and the
  slots are given back, jobs and drift are as before the call.
\<close>

theorem claim_conserves_slots:
  assumes "jobs_wf d" and "1 \<le> r_FreeSlots req" and "ce_between env = id"
    and nonneg: "\<forall>s \<in> set (queue_shards d). 0 \<le> s_in_flight s"
    and call: "Claim req env d = (res, d')"
    and "\<forall>e. ce_take env \<noteq> Lost e True" and "ce_give env = Runs"
    and "\<forall>e. ce_admit env \<noteq> Lost e True"
  shows "(\<forall>q s. slack q s d' = slack q s d) \<and>
    (\<forall>out. res = Inr out \<longrightarrow> int (length out) \<le> r_FreeSlots req \<and>
       (\<exists>sh. active_in (r_QueueID req) sh d' = active_in (r_QueueID req) sh d + length out)) \<and>
    (\<forall>e. res = Inl e \<longrightarrow> jobs d' = jobs d)"
proof -
  obtain a d1 where a: "admit req env d = (a, d1)" by (cases "admit req env d")
  show ?thesis
  proof (cases a)
    case (Inl e)
    then have "d1 = d"
      using a assms(8) by (auto simp: admit_def run_tx_def split: fate.splits sum.splits if_splits)
    with call a Inl show ?thesis by (auto simp: Claim_def)
  next
    case (Inr p)
    then obtain n sh where p: "a = Inr (n, sh)" by (cases p) auto
    then have adm: "queue_admit (r_QueueID req) (r_FreeSlots req) (ce_rot env) (ce_seen env) (ce_now env) d = Inr ((n, sh), d1)"
      using a by (simp add: admit_def run_tx_Inr)
    let ?take = "take_jobs req sh n (ce_locked env) (ce_now env)"
    obtain t d2 where t: "run_tx (ce_take env) ?take d1 = (t, d2)" by (cases "run_tx (ce_take env) ?take d1")
    consider (none) "n = 0" | (taken) out where "n \<noteq> 0" "t = Inr out" | (failed) e where "n \<noteq> 0" "t = Inl e"
      by (cases t) auto
    then show ?thesis
    proof cases
      case none
      then have "queue_admit (r_QueueID req) (r_FreeSlots req) (ce_rot env) (ce_seen env) (ce_now env) d = Inr ((0, sh), d1)"
        and "res = Inr []" "d' = d1" using adm call a p by (auto simp: Claim_def)
      then show ?thesis using admit_zero_slack(1) active_in_same [OF admit_zero_slack(2)] assms(2) by auto
    next
      case taken
      then have tk: "?take d1 = Inr (out, d2)" and res: "res = Inr out" "d' = d2"
        using t call a p assms(3) by (auto simp: Claim_def run_tx_Inr)
      show ?thesis
        using claim_taken [OF assms(1) adm taken(1) nonneg tk] queue_admit_grant(3) [OF adm taken(1) assms(2)] res
        by auto
    next
      case failed
      then have "d2 = d1"
        using t assms(6) by (auto simp: run_tx_def split: fate.splits sum.splits if_splits)
      then have "res = Inl e" "d' = queue_release (r_QueueID req) sh n d1"
        using call a p failed t assms(3,7) by (auto simp: Claim_def run_tx_def)
      then show ?thesis
        using claim_given_back [OF adm failed(1) nonneg] admit_slack(3) [OF adm failed(1)] by simp
    qed
  qed
qed

definition quiet_env :: claim_env where
  "quiet_env = \<lparr>ce_admit = Runs, ce_take = Runs, ce_give = Runs, ce_rot = 0, ce_seen = sample_db,
     ce_locked = (\<lambda>_. False), ce_now = sample_now, ce_between = id\<rparr>"

theorem claim_conserves_slots_witness:
  "slack 7 0 (snd (Claim sample_req quiet_env sample_db)) = slack 7 0 sample_db \<and>
   (1::int) \<le> r_FreeSlots sample_req"
proof -
  obtain res d' where c: "Claim sample_req quiet_env sample_db = (res, d')" by (cases "Claim sample_req quiet_env sample_db")
  have "1 \<le> r_FreeSlots sample_req" "ce_between quiet_env = id" "\<forall>s \<in> set (queue_shards sample_db). 0 \<le> s_in_flight s"
    "\<forall>e. ce_take quiet_env \<noteq> Lost e True" "ce_give quiet_env = Runs" "\<forall>e. ce_admit quiet_env \<noteq> Lost e True"
    by (simp_all add: sample_req_def quiet_env_def sample_defs)
  with claim_conserves_slots [OF sample_jobs_wf _ _ _ c] c show ?thesis by simp
qed

end
