(* ===== verification/Dependencies.thy ===== *)
theory Dependencies
  imports Calls
begin

text \<open>
  Job dependencies: \<open>fl.finish_dependents\<close> and \<open>fl.cancel_descendants\<close> of
  \<open>src/migrations/021_dependency_flow.sql\<close>, run inside the reports of \<open>src/internal/jobs/report.go\<close>. The
  edges are the pairs (parent, child) of \<open>job_dependencies\<close>.

  The recursive query of \<open>cancel_descendants\<close> carries the path of each row and does not step onto a node
  of its own path, so its rows at level \<open>k\<close> are the simple paths of \<open>k + 1\<close> edges; \<open>down_from\<close> iterates
  the levels, as many as there are edges, and \<open>level_empty\<close> shows that no row is left after that.
\<close>

section \<open>Releasing the children of a completed job\<close>

definition waits_on :: "uuid \<Rightarrow> db \<Rightarrow> job \<Rightarrow> bool" where
  "waits_on parent d c \<longleftrightarrow>
     (parent, j_id c) \<in> set (job_dependencies d) \<and> j_status c = Scheduled \<and> 0 < j_pending_deps c"

definition finish_row :: "timestamptz \<Rightarrow> job \<Rightarrow> job" where
  "finish_row now c =
     c\<lparr>j_pending_deps := j_pending_deps c - 1,
       j_status := (if j_pending_deps c - 1 = 0 \<and> j_run_at c \<le> now then Queued else j_status c)\<rparr>"

definition finish_dependents :: "uuid \<Rightarrow> timestamptz \<Rightarrow> uuid list tx" where
  "finish_dependents parent now d =
     rbind (update_jobs (waits_on parent d) (finish_row now) d)
       (\<lambda>d1. Inr (map j_id (filter (waits_on parent d) (jobs d)), d1))"

section \<open>Cancelling the descendants of a dead job\<close>

type_synonym down_row = "uuid \<times> uuid list"

definition down_start :: "(uuid \<times> uuid) list \<Rightarrow> uuid \<Rightarrow> down_row list" where
  "down_start deps top_id = map (\<lambda>(p, c). (c, [p, c])) (filter (\<lambda>(p, c). p = top_id) deps)"

definition down_step :: "(uuid \<times> uuid) list \<Rightarrow> down_row list \<Rightarrow> down_row list" where
  "down_step deps rows =
     concat (map (\<lambda>(p, c). map (\<lambda>(i, path). (c, path @ [c])) (filter (\<lambda>(i, path). i = p \<and> c \<notin> set path) rows)) deps)"

fun down_from :: "nat \<Rightarrow> (uuid \<times> uuid) list \<Rightarrow> down_row list \<Rightarrow> down_row list" where
  "down_from 0 deps rows = rows"
| "down_from (Suc n) deps rows = rows @ (if rows = [] then [] else down_from n deps (down_step deps rows))"

definition down :: "(uuid \<times> uuid) list \<Rightarrow> uuid \<Rightarrow> uuid list" where
  "down deps top_id = map fst (down_from (length deps) deps (down_start deps top_id))"

definition cancellable_below :: "uuid \<Rightarrow> db \<Rightarrow> job \<Rightarrow> bool" where
  "cancellable_below top_id d j \<longleftrightarrow>
     j_id j \<in> set (down (job_dependencies d) top_id) \<and> j_status j \<in> {Scheduled, Queued, Retry_wait}"

definition cancel_row :: "timestamptz \<Rightarrow> job \<Rightarrow> job" where
  "cancel_row now j = j\<lparr>j_status := Cancelled, j_finished_at := Some now, j_pending_deps := 0, j_worker_id := None\<rparr>"

definition cancel_descendants :: "uuid \<Rightarrow> timestamptz \<Rightarrow> uuid list tx" where
  "cancel_descendants top_id now d =
     rbind (update_jobs (cancellable_below top_id d) (cancel_row now) d)
       (\<lambda>d1. Inr (map j_id (filter (cancellable_below top_id d) (jobs d)), d1))"

section \<open>The rows of the recursive query\<close>

abbreviation level :: "(uuid \<times> uuid) list \<Rightarrow> uuid \<Rightarrow> nat \<Rightarrow> down_row list" where
  "level deps top_id k \<equiv> (down_step deps ^^ k) (down_start deps top_id)"

lemma in_down_step:
  "(c, q) \<in> set (down_step deps rows) \<longleftrightarrow>
     (\<exists>i path. (i, path) \<in> set rows \<and> (i, c) \<in> set deps \<and> c \<notin> set path \<and> q = path @ [c])"
  unfolding down_step_def by (auto simp: image_iff split_beta) force

lemma down_step_Nil [simp]: "down_step deps [] = []"
  by (simp add: down_step_def)

lemma set_down_from: "set (down_from n deps rows) = (\<Union>k \<le> n. set ((down_step deps ^^ k) rows))"
proof (induction n arbitrary: rows)
  case (Suc n)
  have nil: "(down_step deps ^^ k) [] = []" for k by (induction k) simp_all
  have "(\<Union>k \<le> Suc n. set ((down_step deps ^^ k) rows)) =
      set rows \<union> (\<Union>k \<le> n. set ((down_step deps ^^ k) (down_step deps rows)))"
    by (simp add: atMost_Suc_eq_insert_0 funpow_Suc_right del: funpow.simps)
  with Suc show ?case by (cases "rows = []") (auto simp: nil)
qed simp

text \<open>
  A row at level \<open>k\<close>: its path starts at the top_id, ends at its id, has \<open>k + 2\<close> distinct nodes, all but the
  top_id are children of an edge, and each of them is the id of a row at a level up to \<open>k\<close>.
\<close>

lemma level_path:
  assumes "\<forall>(p, c) \<in> set deps. p \<noteq> c" and "(c, path) \<in> set (level deps top_id k)"
  shows "distinct path \<and> length path = k + 2 \<and> hd path = top_id \<and> last path = c \<and>
    set (tl path) \<subseteq> snd ` set deps \<and> (top_id, c) \<in> (set deps)\<^sup>+ \<and>
    (\<forall>x \<in> set (tl path). \<exists>m \<le> k. x \<in> fst ` set (level deps top_id m))"
  using assms(2)
proof (induction k arbitrary: c path)
  case 0
  then have "(top_id, c) \<in> set deps" "path = [top_id, c]" by (auto simp: down_start_def)
  moreover from this have "c \<in> fst ` set (level deps top_id 0)" by (force simp: down_start_def)
  ultimately show ?case using assms(1) by (force simp: down_start_def)
next
  case (Suc k)
  then obtain i p where i: "(i, p) \<in> set (level deps top_id k)" "(i, c) \<in> set deps" "c \<notin> set p" "path = p @ [c]"
    by (auto simp: in_down_step)
  note IH = Suc.IH [OF i(1)]
  have ne: "p \<noteq> []" using IH by auto
  have "c \<in> fst ` set (level deps top_id (Suc k))" using Suc.prems by force
  moreover have "x = c \<or> (\<exists>m \<le> k. x \<in> fst ` set (level deps top_id m))" if "x \<in> set (tl path)" for x
    using IH that i(4) ne by auto
  ultimately have "\<exists>m \<le> Suc k. x \<in> fst ` set (level deps top_id m)" if "x \<in> set (tl path)" for x
    using that le_SucI order_refl by metis
  moreover have "(top_id, c) \<in> (set deps)\<^sup>+" using IH i(2) by (auto intro: trancl_into_trancl)
  moreover have "c \<in> snd ` set deps" using i(2) by force
  ultimately show ?case using IH i(3,4) ne by auto
qed

lemma level_empty:
  assumes "\<forall>(p, c) \<in> set deps. p \<noteq> c" and "length deps \<le> k"
  shows "level deps top_id k = []"
proof (rule ccontr)
  assume "level deps top_id k \<noteq> []"
  then obtain c path where "(c, path) \<in> set (level deps top_id k)" by (cases "level deps top_id k") auto
  note p = level_path [OF assms(1) this]
  have "length (tl path) = card (set (tl path))"
    using p by (simp add: distinct_card distinct_tl)
  also have "\<dots> \<le> card (snd ` set deps)" using p by (intro card_mono) auto
  also have "\<dots> \<le> length deps" by (metis List.finite_set card_image_le card_length order_trans)
  finally show False using p assms(2) by simp
qed

text \<open>The query finds exactly the descendants of the root, the root itself apart.\<close>

lemma down_descendants:
  assumes "\<forall>(p, c) \<in> set deps. p \<noteq> c"
  shows "set (down deps top_id) = {c. (top_id, c) \<in> (set deps)\<^sup>+} - {top_id}"
proof -
  let ?R = "set (down deps top_id)"
  have R: "?R = (\<Union>k \<le> length deps. fst ` set (level deps top_id k))"
    by (auto simp: down_def set_down_from)
  have in_R: "c \<in> ?R" if "c \<in> fst ` set (level deps top_id k)" for c k
    using that level_empty [OF assms, of k top_id] unfolding R by (cases "k \<le> length deps") auto
  have "c \<noteq> top_id \<and> (top_id, c) \<in> (set deps)\<^sup>+" if c: "c \<in> ?R" for c
  proof -
    from c obtain k path where "(c, path) \<in> set (level deps top_id k)" unfolding R by auto
    note p = level_path [OF assms this]
    then obtain a b t where "path = a # b # t" by (cases path; cases "tl path") auto
    moreover have "c \<in> set (b # t)" using p calculation last_in_set [of "b # t"] by (simp only: last.simps) simp
    ultimately show ?thesis using p by auto
  qed
  moreover have "c \<in> ?R" if "(top_id, c) \<in> (set deps)\<^sup>+" "c \<noteq> top_id" for c
    using that
  proof (induction rule: trancl_induct)
    case (base c)
    then have "c \<in> fst ` set (level deps top_id 0)" by (force simp: down_start_def)
    then show ?case by (rule in_R)
  next
    case (step i c)
    show ?case
    proof (cases "i = top_id")
      case True
      with step(2) have "c \<in> fst ` set (level deps top_id 0)" by (force simp: down_start_def)
      then show ?thesis by (rule in_R)
    next
      case False
      with step obtain k path where row: "(i, path) \<in> set (level deps top_id k)" unfolding R by auto
      note p = level_path [OF assms row]
      show ?thesis
      proof (cases "c \<in> set path")
        case True
        then have "c \<in> set (tl path)" using p step.prems by (cases path) auto
        then show ?thesis using p in_R by blast
      next
        case False
        then have "(c, path @ [c]) \<in> set (level deps top_id (Suc k))"
          using row step(2) by (auto simp: in_down_step)
        then show ?thesis by (metis fst_conv image_eqI in_R)
      qed
    qed
  qed
  ultimately show ?thesis by blast
qed

section \<open>What the two functions do\<close>

definition deps_ok :: "db \<Rightarrow> bool" where
  "deps_ok d \<longleftrightarrow> (\<forall>(p, c) \<in> set (job_dependencies d). p \<noteq> c)"

lemma finish_row_simps [simp]:
  "j_id (finish_row now c) = j_id c" "j_queue_id (finish_row now c) = j_queue_id c"
  "j_shard (finish_row now c) = j_shard c" "j_fence (finish_row now c) = j_fence c"
  "j_project_id (finish_row now c) = j_project_id c" "j_worker_id (finish_row now c) = j_worker_id c"
  by (simp_all add: finish_row_def)

lemma cancel_row_simps [simp]:
  "j_id (cancel_row now c) = j_id c" "j_queue_id (cancel_row now c) = j_queue_id c"
  "j_shard (cancel_row now c) = j_shard c" "j_fence (cancel_row now c) = j_fence c"
  "j_project_id (cancel_row now c) = j_project_id c" "j_status (cancel_row now c) = Cancelled"
  by (simp_all add: cancel_row_def)

lemma finish_row_ok:
  "check_job c \<Longrightarrow> j_status c = Scheduled \<Longrightarrow> 0 < j_pending_deps c \<Longrightarrow> j_created_at c \<le> now \<Longrightarrow>
   write_ok c (finish_row now c)"
  by (auto simp: write_ok_def check_job_def finish_row_def)

lemma cancel_row_ok:
  "check_job j \<Longrightarrow> j_status j \<in> {Scheduled, Queued, Retry_wait} \<Longrightarrow> write_ok j (cancel_row now j)"
  by (cases "j_status j") (simp_all add: write_ok_def check_job_def cancel_row_def)

lemma finish_dependents_eq:
  assumes "jobs_wf d" and "\<forall>j \<in> set (jobs d). j_created_at j \<le> now"
  shows "finish_dependents parent now d =
    Inr (map j_id (filter (waits_on parent d) (jobs d)),
         d\<lparr>jobs := update_where (waits_on parent d) (finish_row now) (jobs d)\<rparr>)"
proof -
  have "update_jobs (waits_on parent d) (finish_row now) d =
      Inr (d\<lparr>jobs := update_where (waits_on parent d) (finish_row now) (jobs d)\<rparr>)"
    using assms jobs_wfD(2) by (intro update_jobs_ok finish_row_ok) (auto simp: waits_on_def)
  then show ?thesis by (simp add: finish_dependents_def)
qed

lemma cancel_descendants_eq:
  assumes "jobs_wf d"
  shows "cancel_descendants i now d =
    Inr (map j_id (filter (cancellable_below i d) (jobs d)),
         d\<lparr>jobs := update_where (cancellable_below i d) (cancel_row now) (jobs d)\<rparr>)"
proof -
  have "update_jobs (cancellable_below i d) (cancel_row now) d =
      Inr (d\<lparr>jobs := update_where (cancellable_below i d) (cancel_row now) (jobs d)\<rparr>)"
    using assms jobs_wfD(2) by (intro update_jobs_ok cancel_row_ok) (auto simp: cancellable_below_def)
  then show ?thesis by (simp add: cancel_descendants_def)
qed

text \<open>
  C13. Dead-lettering reaches the whole downstream graph, cycles included: \<open>cancel_descendants\<close> always succeeds
  and cancels exactly the jobs reachable from the root along dependency edges that are scheduled, queued
  or waiting for a retry, stamping them finished with no dependencies left; the root and every other
  job keep their rows, and the returned ids are the cancelled ones.
\<close>

theorem cancel_descendants_exact:
  assumes "jobs_wf d" and "deps_ok d"
  shows "\<exists>ids d'. cancel_descendants i now d = Inr (ids, d') \<and> d' = d\<lparr>jobs := jobs d'\<rparr> \<and>
    (\<forall>j \<in> set (jobs d).
       (j_id j \<in> set ids \<longleftrightarrow> j_id j \<noteq> i \<and> (i, j_id j) \<in> (set (job_dependencies d))\<^sup>+ \<and>
          j_status j \<in> {Scheduled, Queued, Retry_wait}) \<and>
       job_of d' (j_id j) = Some (if j_id j \<in> set ids
          then j\<lparr>j_status := Cancelled, j_finished_at := Some now, j_pending_deps := 0, j_worker_id := None\<rparr> else j))"
proof -
  let ?P = "cancellable_below i d" and ?ids = "map j_id (filter (cancellable_below i d) (jobs d))"
  let ?d' = "d\<lparr>jobs := update_where ?P (cancel_row now) (jobs d)\<rparr>"
  have P: "?P j \<longleftrightarrow> j_id j \<noteq> i \<and> (i, j_id j) \<in> (set (job_dependencies d))\<^sup>+ \<and>
      j_status j \<in> {Scheduled, Queued, Retry_wait}" for j
    using down_descendants [of "job_dependencies d" i] assms(2)
    by (auto simp: cancellable_below_def deps_ok_def)
  have ids: "j_id j \<in> set ?ids \<longleftrightarrow> ?P j" if "j \<in> set (jobs d)" for j
    using that jobs_wfD(4) [OF assms(1) that] by auto
  have job: "job_of ?d' (j_id j) = Some (if ?P j then cancel_row now j else j)" if "j \<in> set (jobs d)" for j
  proof -
    have "job_of d (j_id j) = Some j" using that jobs_wfD(3) [OF assms(1)] by blast
    then show ?thesis by (simp add: job_of_update)
  qed
  show ?thesis
  proof (intro exI conjI ballI)
    show "cancel_descendants i now d = Inr (?ids, ?d')" by (rule cancel_descendants_eq [OF assms(1)])
    fix j assume j: "j \<in> set (jobs d)"
    show "j_id j \<in> set ?ids \<longleftrightarrow> j_id j \<noteq> i \<and> (i, j_id j) \<in> (set (job_dependencies d))\<^sup>+ \<and>
        j_status j \<in> {Scheduled, Queued, Retry_wait}"
      unfolding ids [OF j] by (rule P)
    show "job_of ?d' (j_id j) = Some (if j_id j \<in> set ?ids
        then j\<lparr>j_status := Cancelled, j_finished_at := Some now, j_pending_deps := 0, j_worker_id := None\<rparr> else j)"
      unfolding ids [OF j] job [OF j] cancel_row_def ..
  qed simp
qed

lemma sample_deps:
  "jobs_wf sample_db" "deps_ok sample_db" "sample_waiting \<in> set (jobs sample_db)" "j_id sample_waiting = 12"
  "j_status sample_waiting = Scheduled" "j_pending_deps sample_waiting = 1" "j_run_at sample_waiting \<le> sample_now"
  "(11, 12) \<in> set (job_dependencies sample_db)" "\<forall>j \<in> set (jobs sample_db). j_created_at j \<le> sample_now"
  by (simp_all add: jobs_wf_def check_job_def deps_ok_def sample_defs)

theorem cancel_descendants_exact_witness:
  "\<exists>ids d'. cancel_descendants 11 sample_now sample_db = Inr (ids, d') \<and> 12 \<in> set ids"
proof -
  from cancel_descendants_exact [OF sample_deps(1,2), of 11 sample_now] obtain ids d'
    where c: "cancel_descendants 11 sample_now sample_db = Inr (ids, d')"
      and j: "j_id sample_waiting \<in> set ids \<longleftrightarrow> j_id sample_waiting \<noteq> 11 \<and>
        (11, j_id sample_waiting) \<in> (set (job_dependencies sample_db))\<^sup>+ \<and>
        j_status sample_waiting \<in> {Scheduled, Queued, Retry_wait}"
    using sample_deps(3) by blast
  have "(11, 12) \<in> (set (job_dependencies sample_db))\<^sup>+" using sample_deps(8) by (rule r_into_trancl)
  then have "12 \<in> set ids" using j unfolding sample_deps(4,5) by simp
  with c show ?thesis by blast
qed

text \<open>
  Completing a parent lowers the pending count of each of its waiting children by exactly one, and moves a
  child to \<open>queued\<close> exactly when that was its last pending parent and its time has come; a child whose
  \<open>run_at\<close> is still ahead stays scheduled with no pending parents, for the promoter. No other job changes
  and the statement never fails.
\<close>

theorem finish_dependents_counts:
  assumes "jobs_wf d" and "\<forall>j \<in> set (jobs d). j_created_at j \<le> now"
  shows "\<exists>ids d'. finish_dependents parent now d = Inr (ids, d') \<and> d' = d\<lparr>jobs := jobs d'\<rparr> \<and> jobs_wf d' \<and>
    (\<forall>j \<in> set (jobs d). \<exists>j'. job_of d' (j_id j) = Some j' \<and>
       (if (parent, j_id j) \<in> set (job_dependencies d) \<and> j_status j = Scheduled \<and> 0 < j_pending_deps j
        then j_id j \<in> set ids \<and> j_pending_deps j' = j_pending_deps j - 1 \<and>
             (j_status j' = Queued \<longleftrightarrow> j_pending_deps j = 1 \<and> j_run_at j \<le> now) \<and>
             (j_status j' \<noteq> Queued \<longrightarrow> j_status j' = Scheduled)
        else j_id j \<notin> set ids \<and> j' = j))"
proof -
  let ?P = "waits_on parent d" and ?ids = "map j_id (filter (waits_on parent d) (jobs d))"
  let ?d' = "d\<lparr>jobs := update_where ?P (finish_row now) (jobs d)\<rparr>"
  have eq: "finish_dependents parent now d = Inr (?ids, ?d')" by (rule finish_dependents_eq [OF assms])
  then have "update_jobs ?P (finish_row now) d = Inr ?d'" by (auto simp: finish_dependents_def result_simps)
  then have wf: "jobs_wf ?d'" using update_jobs_wf [OF assms(1)] by simp
  have ids: "j_id j \<in> set ?ids \<longleftrightarrow> ?P j" if "j \<in> set (jobs d)" for j
    using that jobs_wfD(4) [OF assms(1) that] by auto
  have "job_of ?d' (j_id j) = Some (if ?P j then finish_row now j else j)" if "j \<in> set (jobs d)" for j
  proof -
    have "job_of d (j_id j) = Some j" using that jobs_wfD(3) [OF assms(1)] by blast
    then show ?thesis by (simp add: job_of_update)
  qed
  then have "job_of ?d' (j_id j) = Some (if ?P j then finish_row now j else j) \<and> (j_id j \<in> set ?ids \<longleftrightarrow> ?P j)"
    if "j \<in> set (jobs d)" for j using that ids by blast
  moreover have "?P j \<longleftrightarrow> (parent, j_id j) \<in> set (job_dependencies d) \<and> j_status j = Scheduled \<and> 0 < j_pending_deps j" for j
    by (rule waits_on_def)
  ultimately have "\<forall>j \<in> set (jobs d). \<exists>j'. job_of ?d' (j_id j) = Some j' \<and>
       (if (parent, j_id j) \<in> set (job_dependencies d) \<and> j_status j = Scheduled \<and> 0 < j_pending_deps j
        then j_id j \<in> set ?ids \<and> j_pending_deps j' = j_pending_deps j - 1 \<and>
             (j_status j' = Queued \<longleftrightarrow> j_pending_deps j = 1 \<and> j_run_at j \<le> now) \<and>
             (j_status j' \<noteq> Queued \<longrightarrow> j_status j' = Scheduled)
        else j_id j \<notin> set ?ids \<and> j' = j)"
    by (simp add: finish_row_def del: set_map)
  moreover have "?d' = d\<lparr>jobs := jobs ?d'\<rparr>" by simp
  ultimately show ?thesis using eq wf by blast
qed

theorem finish_dependents_counts_witness:
  "\<exists>ids d'. finish_dependents 11 sample_now sample_db = Inr (ids, d') \<and> jobs_wf d' \<and> 12 \<in> set ids"
proof -
  from finish_dependents_counts [OF sample_deps(1,9), of 11] obtain ids d'
    where c: "finish_dependents 11 sample_now sample_db = Inr (ids, d')" "jobs_wf d'"
      and j: "(11, j_id sample_waiting) \<in> set (job_dependencies sample_db) \<and> j_status sample_waiting = Scheduled \<and>
        0 < j_pending_deps sample_waiting \<longrightarrow> j_id sample_waiting \<in> set ids"
    using sample_deps(3) by metis
  have "12 \<in> set ids" using j sample_deps(8) unfolding sample_deps(4-6) by simp
  with c show ?thesis by blast
qed

end
