(* ===== verification/Report.thy ===== *)
theory Report
  imports Claim Dependencies
begin

text \<open>
  Starting a claimed job and reporting its end: \<open>src/internal/jobs/report.go\<close> with the database functions
  \<open>fl.report_success\<close>, \<open>fl.report_failure\<close>, \<open>fl.report_snooze\<close> and \<open>fl.report_success_batch\<close> in their last
  version, \<open>src/migrations/028_shard_release.sql\<close>. Each function is one transaction and returns no row
  (\<open>None\<close>) when the caller's fence is stale.

  \<open>now\<close> is the value of \<open>fl.now()\<close> during the call; \<open>jit\<close> pairs the session setting \<open>fl.jitter\<close> with the
  value \<open>random()\<close> returns; \<open>xid\<close> is the id \<open>fl.uuidv7()\<close> gives the new execution.
\<close>

section \<open>Executions\<close>

text \<open>The checks \<open>je_finished_after_started\<close> and \<open>je_outcome_with_finish\<close>, and the trigger \<open>je_no_reclose\<close>.\<close>

definition check_exec :: "execution \<Rightarrow> bool" where
  "check_exec x \<longleftrightarrow>
     (\<forall>f. x_finished_at x = Some f \<longrightarrow> x_started_at x \<le> f) \<and>
     (x_outcome x = None) = (x_finished_at x = None) \<and> 0 < x_attempt x"

definition write_exec :: "execution \<Rightarrow> execution \<Rightarrow> pg_error + execution" where
  "write_exec old new =
     (if x_finished_at old \<noteq> None then Inl raise_exception
      else if check_exec new then Inr new else Inl check_violation)"

definition update_execs :: "(execution \<Rightarrow> bool) \<Rightarrow> (execution \<Rightarrow> execution) \<Rightarrow> db \<Rightarrow> pg_error + db" where
  "update_execs P f d =
     rbind (try_update P (\<lambda>x. write_exec x (f x)) (job_executions d)) (\<lambda>xs. Inr (d\<lparr>job_executions := xs\<rparr>))"

definition close_row :: "exec_outcome \<Rightarrow> string option \<Rightarrow> string option \<Rightarrow> timestamptz \<Rightarrow> execution \<Rightarrow> execution" where
  "close_row outcome cls msg now x =
     x\<lparr>x_outcome := Some outcome, x_finished_at := Some now, x_error_class := cls, x_error_message := msg\<rparr>"

text \<open>A close that leaves the error columns alone.\<close>

definition close_plain :: "exec_outcome \<Rightarrow> timestamptz \<Rightarrow> execution \<Rightarrow> execution" where
  "close_plain outcome now x = x\<lparr>x_outcome := Some outcome, x_finished_at := Some now\<rparr>"

abbreviation is_open :: "execution \<Rightarrow> bool" where
  "is_open x \<equiv> x_finished_at x = None"

section \<open>Statistics\<close>

definition trunc_minute :: "timestamptz \<Rightarrow> timestamptz" where
  "trunc_minute t = t - t mod 60000000"

text \<open>\<open>insert into queue_stats_minute ... on conflict (queue_id, minute) do update\<close>.\<close>

definition bump_stats :: "minute_stats \<Rightarrow> db \<Rightarrow> db" where
  "bump_stats m d =
     (let same = (\<lambda>s. m_queue_id s = m_queue_id m \<and> m_minute s = m_minute m)
      in if \<exists>s \<in> set (queue_stats_minute d). same s
         then d\<lparr>queue_stats_minute := update_where same
                (\<lambda>s. s\<lparr>m_completed := m_completed s + m_completed m, m_failed := m_failed s + m_failed m,
                       m_dead_lettered := m_dead_lettered s + m_dead_lettered m,
                       m_duration_ms_sum := m_duration_ms_sum s + m_duration_ms_sum m\<rparr>) (queue_stats_minute d)\<rparr>
         else d\<lparr>queue_stats_minute := queue_stats_minute d @ [m]\<rparr>)"

section \<open>Start\<close>

record Execution =
  ex_ID :: uuid
  ex_Attempt :: nat

definition startable :: "uuid \<Rightarrow> nat \<Rightarrow> job \<Rightarrow> bool" where
  "startable job fence j \<longleftrightarrow> j_id j = job \<and> j_fence j = fence \<and> j_status j = Claimed"

definition start_row :: "timestamptz \<Rightarrow> job \<Rightarrow> job" where
  "start_row now j = j\<lparr>j_status := Running, j_started_at := Some now, j_attempt_count := j_attempt_count j + 1\<rparr>"

definition start_exec :: "uuid \<Rightarrow> uuid \<Rightarrow> timestamptz \<Rightarrow> job \<Rightarrow> execution" where
  "start_exec xid worker now j =
     \<lparr>x_id = xid, x_job_id = j_id j, x_queue_id = j_queue_id j, x_attempt = j_attempt_count j,
      x_replay_generation = j_replay_generation j, x_fence = j_fence j, x_worker_id = worker,
      x_outcome = None, x_error_class = None, x_error_message = None, x_started_at = now, x_finished_at = None\<rparr>"

text \<open>
  \<open>startSQL\<close>. The insert can run into the primary key, into the unique key (job, replay generation,
  attempt), into \<open>uq_exec_one_open\<close>, which allows a job one open execution, and into the reference to \<open>workers\<close>.
\<close>

definition start_sql :: "uuid \<Rightarrow> uuid \<Rightarrow> timestamptz \<Rightarrow> uuid \<Rightarrow> nat \<Rightarrow> Execution option tx" where
  "start_sql worker xid now job fence d =
    (case find (startable job fence) (jobs d) of
       None \<Rightarrow> Inr (None, d)
     | Some j \<Rightarrow>
         rbind (update_jobs (startable job fence) (start_row now) d) (\<lambda>d1.
           let x = start_exec xid worker now (start_row now j)
           in if \<exists>y \<in> set (job_executions d1). x_id y = xid \<or>
                   (x_job_id y = x_job_id x \<and>
                     (x_finished_at y = None \<or> x_replay_generation y = x_replay_generation x \<and> x_attempt y = x_attempt x))
              then Inl unique_violation
              else if \<forall>w \<in> set (workers d1). w_id w \<noteq> worker then Inl fk_violation
              else Inr (Some \<lparr>ex_ID = xid, ex_Attempt = x_attempt x\<rparr>,
                        d1\<lparr>job_executions := job_executions d1 @ [x]\<rparr>)))"

section \<open>Reporting success\<close>

definition reportable :: "uuid \<Rightarrow> nat \<Rightarrow> job \<Rightarrow> bool" where
  "reportable job fence j \<longleftrightarrow> j_id j = job \<and> j_fence j = fence \<and> j_status j = Running"

definition complete_row :: "timestamptz \<Rightarrow> job \<Rightarrow> job" where
  "complete_row now j = j\<lparr>j_status := Completed, j_finished_at := Some now, j_worker_id := None\<rparr>"

definition by_project :: "job \<Rightarrow> uuid \<times> uuid" where
  "by_project j = (j_project_id j, j_id j)"

text \<open>\<open>fl.emit('job.queued', ...)\<close> for the jobs of \<open>woke\<close> that are queued now.\<close>

definition emit_woken :: "uuid list \<Rightarrow> timestamptz \<Rightarrow> db \<Rightarrow> db" where
  "emit_woken woke now d =
     emit_all (\<lambda>j. (''job.queued'', j_id j, j_project_id j, [])) now
       (sort_key by_project (filter (\<lambda>j. j_id j \<in> set woke \<and> j_status j = Queued) (jobs d))) d"

definition completed_payload :: json_object where
  "completed_payload = [(''status'', JString ''completed''), (''outcome'', JString ''success'')]"

definition report_success :: "uuid \<Rightarrow> timestamptz \<Rightarrow> uuid \<Rightarrow> nat \<Rightarrow> uuid option tx" where
  "report_success exec now job fence d =
    (case find (reportable job fence) (jobs d) of
       None \<Rightarrow> Inr (None, d)
     | Some j \<Rightarrow>
         rbind (update_jobs (reportable job fence) (complete_row now) d) (\<lambda>d1.
         rbind (update_execs (\<lambda>x. x_id x = exec \<and> is_open x) (close_plain X_success now) d1) (\<lambda>d2.
         rbind (finish_dependents job now d2) (\<lambda>(woke, d3).
           let dur = (case find (\<lambda>x. x_id x = exec \<and> is_open x) (job_executions d1) of
                        None \<Rightarrow> 0 | Some x \<Rightarrow> coalesce (duration_ms (close_plain X_success now x)) 0);
               d4 = d3\<lparr>job_leases := delete_where (\<lambda>l. l_job_id l = job) (job_leases d3)\<rparr>;
               d5 = bump_stats \<lparr>m_queue_id = j_queue_id j, m_minute = trunc_minute now, m_completed = 1,
                      m_failed = 0, m_dead_lettered = 0, m_duration_ms_sum = dur,
                      m_duration_ms_p50 = None, m_duration_ms_p95 = None\<rparr> d4;
               d6 = queue_release (j_queue_id j) (j_shard j) 1 d5;
               d7 = emit_woken woke now d6
           in Inr (Some (j_queue_id j), emit ''job.completed'' job (j_project_id j) completed_payload now d7)))))"

section \<open>Reporting failure\<close>

definition failable :: "uuid \<Rightarrow> nat option \<Rightarrow> db \<Rightarrow> job \<Rightarrow> bool" where
  "failable job fence d j \<longleftrightarrow>
     j_id j = job \<and> policy_of d (j_retry_policy_id j) \<noteq> None \<and> active (j_status j) \<and>
     (case fence of None \<Rightarrow> True | Some f \<Rightarrow> j_fence j = f)"

definition exhausted :: "bool \<Rightarrow> retry_policy \<Rightarrow> job \<Rightarrow> bool" where
  "exhausted permanent rp j \<longleftrightarrow> permanent \<or> p_max_attempts rp \<le> j_attempt_count j"

definition fail_row :: "retry_policy \<Rightarrow> bool \<Rightarrow> bool \<times> rat \<Rightarrow> timestamptz \<Rightarrow> job \<Rightarrow> job" where
  "fail_row rp permanent jit now j =
     (if exhausted permanent rp j
      then j\<lparr>j_status := Dead_letter, j_finished_at := Some now, j_worker_id := None\<rparr>
      else j\<lparr>j_status := Retry_wait,
             j_run_at := now + backoff (p_kind rp) (p_base_delay_ms rp) (p_max_delay_ms rp) (p_jitter rp)
                           (fst jit) (snd jit) (j_attempt_count j),
             j_finished_at := None, j_worker_id := None\<rparr>)"

definition dead_reason_of :: "bool \<Rightarrow> exec_outcome \<Rightarrow> dead_reason" where
  "dead_reason_of permanent outcome =
     (if permanent then Permanent_reason else if outcome = X_lost then Lost_exhausted else Attempts_exhausted)"

text \<open>\<open>insert into dead_letter_jobs ... on conflict (job_id) do nothing\<close>.\<close>

definition add_dead_letter :: "dead_letter \<Rightarrow> db \<Rightarrow> db" where
  "add_dead_letter dl d =
     (if \<exists>e \<in> set (dead_letter_jobs d). d_job_id e = d_job_id dl then d
      else d\<lparr>dead_letter_jobs := dead_letter_jobs d @ [dl]\<rparr>)"

definition emit_cancelled :: "uuid list \<Rightarrow> timestamptz \<Rightarrow> db \<Rightarrow> db" where
  "emit_cancelled killed now d =
     emit_all (\<lambda>j. (''job.cancelled'', j_id j, j_project_id j, [(''from'', JString ''ancestor_dead_lettered'')])) now
       (sort_key by_project (filter (\<lambda>j. j_id j \<in> set killed) (jobs d))) d"

record failure =
  f_outcome :: exec_outcome
  f_class :: "string option"
  f_message :: "string option"
  f_permanent :: bool

definition report_failure ::
  "failure \<Rightarrow> bool \<times> rat \<Rightarrow> timestamptz \<Rightarrow> uuid \<Rightarrow> nat option \<Rightarrow> uuid option tx" where
  "report_failure f jit now job fence d =
    (case find (failable job fence d) (jobs d) of
       None \<Rightarrow> Inr (None, d)
     | Some j \<Rightarrow>
        (case policy_of d (j_retry_policy_id j) of
           None \<Rightarrow> Inr (None, d)
         | Some rp \<Rightarrow>
             let dead = exhausted (f_permanent f) rp j; st = (if dead then Dead_letter else Retry_wait)
             in rbind (update_jobs (failable job fence d) (fail_row rp (f_permanent f) jit now) d) (\<lambda>d1.
                rbind (if dead then cancel_descendants job now d1 else Inr ([], d1)) (\<lambda>(killed, d2).
                rbind (update_execs (\<lambda>x. x_job_id x = job \<and> is_open x)
                         (close_row (f_outcome f) (f_class f) (f_message f) now) d2) (\<lambda>d3.
                  let d4 = d3\<lparr>job_leases := delete_where (\<lambda>l. l_job_id l = job) (job_leases d3)\<rparr>;
                      d5 = bump_stats \<lparr>m_queue_id = j_queue_id j, m_minute = trunc_minute now, m_completed = 0,
                             m_failed = (if dead then 0 else 1), m_dead_lettered = (if dead then 1 else 0),
                             m_duration_ms_sum = 0, m_duration_ms_p50 = None, m_duration_ms_p95 = None\<rparr> d4;
                      d6 = (if dead then add_dead_letter
                              \<lparr>d_job_id = job, d_queue_id = j_queue_id j, d_project_id = j_project_id j,
                               d_reason = dead_reason_of (f_permanent f) (f_outcome f),
                               d_last_error_class = f_class f, d_last_error_message = f_message f,
                               d_execution_history = sort_key x_attempt (filter (\<lambda>x. x_job_id x = job) (job_executions d5)),
                               d_dead_at = now, d_replayed_at = None, d_replayed_by = None\<rparr> d5 else d5);
                      d7 = queue_release (j_queue_id j) (j_shard j) 1 d6;
                      d8 = emit_cancelled killed now d7
                  in Inr (Some (j_queue_id j),
                       emit (if dead then ''job.dead_lettered'' else if f_outcome f = X_lost then ''job.lost'' else ''job.failed'')
                         job (j_project_id j)
                         [(''status'', JString (status_text st)), (''outcome'', JString (outcome_text (f_outcome f)))] now d8))))))"

section \<open>Snoozing\<close>

definition snoozable :: "uuid \<Rightarrow> nat option \<Rightarrow> db \<Rightarrow> job \<Rightarrow> bool" where
  "snoozable job fence d j \<longleftrightarrow>
     j_id j = job \<and> j_status j = Running \<and> (case fence of None \<Rightarrow> True | Some f \<Rightarrow> j_fence j = f) \<and>
     (case policy_of d (j_retry_policy_id j) of None \<Rightarrow> False | Some rp \<Rightarrow> j_snooze_count j < p_max_attempts rp)"

definition snooze_row :: "retry_policy \<Rightarrow> int \<Rightarrow> timestamptz \<Rightarrow> job \<Rightarrow> job" where
  "snooze_row rp delay_ms now j =
     j\<lparr>j_status := Scheduled, j_fence := j_fence j + 1,
       j_run_at := now + max (min delay_ms (p_max_delay_ms rp)) 0 * 1000,
       j_snooze_count := j_snooze_count j + 1, j_worker_id := None, j_claimed_at := None, j_deadline_at := None\<rparr>"

definition report_snooze :: "uuid \<Rightarrow> int \<Rightarrow> timestamptz \<Rightarrow> uuid \<Rightarrow> nat option \<Rightarrow> uuid option tx" where
  "report_snooze exec delay_ms now job fence d =
    (case find (snoozable job fence d) (jobs d) of
       None \<Rightarrow> Inr (None, d)
     | Some j \<Rightarrow>
        (case policy_of d (j_retry_policy_id j) of
           None \<Rightarrow> Inr (None, d)
         | Some rp \<Rightarrow>
             rbind (update_jobs (snoozable job fence d) (snooze_row rp delay_ms now) d) (\<lambda>d1.
             rbind (update_execs (\<lambda>x. x_id x = exec \<and> is_open x) (close_plain X_snoozed now) d1) (\<lambda>d2.
               let d3 = d2\<lparr>job_leases := delete_where (\<lambda>l. l_job_id l = job) (job_leases d2)\<rparr>;
                   d4 = queue_release (j_queue_id j) (j_shard j) 1 d3
               in Inr (Some (j_queue_id j),
                    emit ''job.snoozed'' job (j_project_id j) [(''delay_ms'', JInt delay_ms)] now d4)))))"

section \<open>Reporting a batch of successes\<close>

record Done =
  dn_JobID :: uuid
  dn_Fence :: nat
  dn_Exec :: uuid

text \<open>
  The update joins \<open>jobs\<close> with the input; a job that several entries match is updated once, with the first of
  them. Groups come in the order of their keys.
\<close>

definition batch_entry :: "Done list \<Rightarrow> job \<Rightarrow> Done option" where
  "batch_entry batch j = find (\<lambda>b. reportable (dn_JobID b) (dn_Fence b) j) batch"

definition in_batch :: "Done list \<Rightarrow> job \<Rightarrow> bool" where
  "in_batch batch j \<longleftrightarrow> batch_entry batch j \<noteq> None"

fun finish_all :: "uuid list \<Rightarrow> timestamptz \<Rightarrow> uuid list tx" where
  "finish_all [] now d = Inr ([], d)"
| "finish_all (i # is) now d =
     rbind (finish_dependents i now d) (\<lambda>(woke, d1).
     rbind (finish_all is now d1) (\<lambda>(more, d2). Inr (woke @ more, d2)))"

definition release_groups :: "(uuid \<times> int) list \<Rightarrow> db \<Rightarrow> db" where
  "release_groups keys d =
     fold (\<lambda>(q, s). queue_release q s (int (count_where (\<lambda>k. k = (q, s)) keys))) (sort (remdups keys)) d"

definition stats_groups :: "uuid list \<Rightarrow> timestamptz \<Rightarrow> db \<Rightarrow> db" where
  "stats_groups execs now d =
     (let xs = filter (\<lambda>x. x_id x \<in> set execs) (job_executions d)
      in fold (\<lambda>q. bump_stats \<lparr>m_queue_id = q, m_minute = trunc_minute now,
               m_completed = int (count_where (\<lambda>x. x_queue_id x = q) xs), m_failed = 0, m_dead_lettered = 0,
               m_duration_ms_sum = sum_list (map (\<lambda>x. coalesce (duration_ms x) 0) (filter (\<lambda>x. x_queue_id x = q) xs)),
               m_duration_ms_p50 = None, m_duration_ms_p95 = None\<rparr>)
           (sort (remdups (map x_queue_id xs))) d)"

definition report_success_batch :: "Done list \<Rightarrow> timestamptz \<Rightarrow> uuid list tx" where
  "report_success_batch batch now d =
     (let found = filter (in_batch batch) (jobs d);
          ids = map j_id found;
          execs = map (\<lambda>j. dn_Exec (the (batch_entry batch j))) found
      in if found = [] then Inr ([], d)
         else rbind (update_jobs (in_batch batch) (complete_row now) d) (\<lambda>d1.
              rbind (finish_all (sort ids) now d1) (\<lambda>(woke, d2).
              rbind (update_execs (\<lambda>x. x_id x \<in> set execs \<and> is_open x) (close_plain X_success now) d2) (\<lambda>d3.
                let d4 = d3\<lparr>job_leases := delete_where (\<lambda>l. l_job_id l \<in> set ids) (job_leases d3)\<rparr>;
                    d5 = stats_groups execs now d4;
                    d6 = release_groups (map (\<lambda>j. (j_queue_id j, j_shard j)) found) d5;
                    d7 = emit_woken woke now d6;
                    d8 = emit_all (\<lambda>j. (''job.completed'', j_id j, j_project_id j, completed_payload)) now
                           (sort_key by_project (filter (\<lambda>j. j_id j \<in> set ids) (jobs d7))) d7
                in Inr (ids, d8)))))"

section \<open>The Go functions\<close>

definition Start :: "fate \<Rightarrow> uuid \<Rightarrow> timestamptz \<Rightarrow> uuid \<Rightarrow> nat \<Rightarrow> uuid \<Rightarrow> db \<Rightarrow> (go_error + Execution) \<times> db" where
  "Start fate xid now job fence worker d =
     no_rows_fenced (scan_row (run_tx fate (start_sql worker xid now job fence) d))"

definition Complete :: "fate \<Rightarrow> timestamptz \<Rightarrow> uuid \<Rightarrow> nat \<Rightarrow> uuid \<Rightarrow> db \<Rightarrow> (go_error + uuid) \<times> db" where
  "Complete fate now job fence exec d =
     no_rows_fenced (scan_row (run_tx fate (report_success exec now job fence) d))"

text \<open>
  The cause a handler returned: whether \<open>errors.Is(cause, ErrPermanent)\<close>, and its text, \<open>None\<close> for a nil
  error (whose message is the empty string).
\<close>

definition fail_args :: "bool \<Rightarrow> string option \<Rightarrow> failure" where
  "fail_args permanent cause =
     (let outcome = (if permanent then X_permanent_error else X_retryable_error)
      in \<lparr>f_outcome = outcome, f_class = Some (outcome_text outcome), f_message = Some (coalesce cause []),
          f_permanent = permanent\<rparr>)"

definition Fail :: "fate \<Rightarrow> bool \<times> rat \<Rightarrow> timestamptz \<Rightarrow> uuid \<Rightarrow> nat \<Rightarrow> bool \<Rightarrow> string option \<Rightarrow> db \<Rightarrow> (go_error + uuid) \<times> db" where
  "Fail fate jit now job fence permanent cause d =
     no_rows_fenced (scan_row (run_tx fate (report_failure (fail_args permanent cause) jit now job (Some fence)) d))"

definition Snooze :: "fate \<Rightarrow> timestamptz \<Rightarrow> uuid \<Rightarrow> nat \<Rightarrow> uuid \<Rightarrow> int \<Rightarrow> db \<Rightarrow> (go_error + uuid) \<times> db" where
  "Snooze fate now job fence exec delay_ms d =
     no_rows_fenced (scan_row (run_tx fate (report_snooze exec delay_ms now job (Some fence)) d))"

definition CompleteBatch :: "fate \<Rightarrow> timestamptz \<Rightarrow> Done list \<Rightarrow> db \<Rightarrow> (go_error + uuid list) \<times> db" where
  "CompleteBatch fate now batch d = run_tx fate (report_success_batch batch now) d"

end
