(* ===== verification/Fencing.thy ===== *)
theory Fencing
  imports Report
begin

text \<open>
  What the reports of \<open>Report\<close> do, and what a fence is worth. A worker holds a token: the pair of a job id
  and the fence its claim returned. The locale \<open>fenced_write\<close> states the contract of an operation that
  takes such a token: with a stale token it changes nothing and says so. \<open>fenced_once\<close> adds that the
  operation uses its token up, so that running it again is a stale write. The operations that start and
  end an execution are instances.
\<close>

section \<open>Tables an operation leaves alone\<close>

lemma bump_stats_frame [simp]:
  "queues (bump_stats m d) = queues d" "queue_shards (bump_stats m d) = queue_shards d"
  "retry_policies (bump_stats m d) = retry_policies d" "jobs (bump_stats m d) = jobs d"
  "job_leases (bump_stats m d) = job_leases d" "job_executions (bump_stats m d) = job_executions d"
  "job_dependencies (bump_stats m d) = job_dependencies d" "dead_letter_jobs (bump_stats m d) = dead_letter_jobs d"
  "events (bump_stats m d) = events d" "event_seq (bump_stats m d) = event_seq d"
  "job_fence_violations (bump_stats m d) = job_fence_violations d" "workers (bump_stats m d) = workers d"
  "worker_queues (bump_stats m d) = worker_queues d" "job_logs (bump_stats m d) = job_logs d"
  "schedules (bump_stats m d) = schedules d" "jobs_archive (bump_stats m d) = jobs_archive d"
  by (simp_all add: bump_stats_def Let_def)

lemma add_dead_letter_frame [simp]:
  "queues (add_dead_letter m d) = queues d" "queue_shards (add_dead_letter m d) = queue_shards d"
  "retry_policies (add_dead_letter m d) = retry_policies d" "jobs (add_dead_letter m d) = jobs d"
  "job_leases (add_dead_letter m d) = job_leases d" "job_executions (add_dead_letter m d) = job_executions d"
  "job_dependencies (add_dead_letter m d) = job_dependencies d" "queue_stats_minute (add_dead_letter m d) = queue_stats_minute d"
  "events (add_dead_letter m d) = events d" "event_seq (add_dead_letter m d) = event_seq d"
  "job_fence_violations (add_dead_letter m d) = job_fence_violations d" "workers (add_dead_letter m d) = workers d"
  "worker_queues (add_dead_letter m d) = worker_queues d" "job_logs (add_dead_letter m d) = job_logs d"
  "schedules (add_dead_letter m d) = schedules d" "jobs_archive (add_dead_letter m d) = jobs_archive d"
  by (simp_all add: add_dead_letter_def)

lemma add_dead_letter_present:
  "d_job_id dl = i \<Longrightarrow> \<exists>e \<in> set (dead_letter_jobs (add_dead_letter dl d)). d_job_id e = i"
  by (auto simp: add_dead_letter_def)

lemma emit_woken_frame [simp]:
  "queues (emit_woken w n d) = queues d" "queue_shards (emit_woken w n d) = queue_shards d"
  "retry_policies (emit_woken w n d) = retry_policies d" "jobs (emit_woken w n d) = jobs d"
  "job_leases (emit_woken w n d) = job_leases d" "job_executions (emit_woken w n d) = job_executions d"
  "job_dependencies (emit_woken w n d) = job_dependencies d" "dead_letter_jobs (emit_woken w n d) = dead_letter_jobs d"
  "queue_stats_minute (emit_woken w n d) = queue_stats_minute d" "workers (emit_woken w n d) = workers d"
  by (simp_all add: emit_woken_def)

lemma emit_woken_events:
  "\<exists>es. events (emit_woken w n d) = events d @ es \<and> (\<forall>e \<in> set es. e_topic e = ''job.queued'')"
  unfolding emit_woken_def by (rule emit_all_topic) simp

lemma emit_cancelled_frame [simp]:
  "queues (emit_cancelled w n d) = queues d" "queue_shards (emit_cancelled w n d) = queue_shards d"
  "retry_policies (emit_cancelled w n d) = retry_policies d" "jobs (emit_cancelled w n d) = jobs d"
  "job_leases (emit_cancelled w n d) = job_leases d" "job_executions (emit_cancelled w n d) = job_executions d"
  "job_dependencies (emit_cancelled w n d) = job_dependencies d" "dead_letter_jobs (emit_cancelled w n d) = dead_letter_jobs d"
  "queue_stats_minute (emit_cancelled w n d) = queue_stats_minute d" "workers (emit_cancelled w n d) = workers d"
  by (simp_all add: emit_cancelled_def)

lemma queue_shards_release:
  "queue_shards d1 = queue_shards d2 \<Longrightarrow> queue_shards (queue_release q s n d1) = queue_shards (queue_release q s n d2)"
  by (simp add: queue_release_def)

section \<open>Executions\<close>

definition execs_wf :: "db \<Rightarrow> bool" where
  "execs_wf d \<longleftrightarrow> distinct (map x_id (job_executions d)) \<and> (\<forall>x \<in> set (job_executions d). check_exec x)"

text \<open>The clock has not gone back before a time stamp of the database.\<close>

definition clock_ok :: "timestamptz \<Rightarrow> db \<Rightarrow> bool" where
  "clock_ok now d \<longleftrightarrow>
     (\<forall>j \<in> set (jobs d). j_created_at j \<le> now) \<and> (\<forall>x \<in> set (job_executions d). x_started_at x \<le> now)"

lemma update_execs_Inr_iff:
  "update_execs P f d = Inr d' \<longleftrightarrow>
     (\<forall>x \<in> set (job_executions d). P x \<longrightarrow> is_open x \<and> check_exec (f x)) \<and>
     d' = d\<lparr>job_executions := update_where P f (job_executions d)\<rparr>"
proof -
  have acc: "(\<exists>r. write_exec x (f x) = Inr r) \<longleftrightarrow> is_open x \<and> check_exec (f x)" for x
    by (auto simp: write_exec_def)
  have "update_where P (\<lambda>x. projr (write_exec x (f x))) (job_executions d) = update_where P f (job_executions d)"
    if "\<forall>x \<in> set (job_executions d). P x \<longrightarrow> is_open x \<and> check_exec (f x)"
    using that by (auto intro!: update_where_cong simp: write_exec_def)
  then show ?thesis
    unfolding update_execs_def result_simps try_update_Inr_iff acc by auto
qed

lemma close_row_simps [simp]:
  "x_id (close_row oc c m n x) = x_id x" "x_job_id (close_row oc c m n x) = x_job_id x"
  "x_fence (close_row oc c m n x) = x_fence x" "x_attempt (close_row oc c m n x) = x_attempt x"
  "x_replay_generation (close_row oc c m n x) = x_replay_generation x" "x_started_at (close_row oc c m n x) = x_started_at x"
  "x_finished_at (close_row oc c m n x) = Some n" "x_queue_id (close_row oc c m n x) = x_queue_id x"
  by (simp_all add: close_row_def)

lemma close_plain_simps [simp]:
  "x_id (close_plain oc n x) = x_id x" "x_job_id (close_plain oc n x) = x_job_id x"
  "x_fence (close_plain oc n x) = x_fence x" "x_attempt (close_plain oc n x) = x_attempt x"
  "x_replay_generation (close_plain oc n x) = x_replay_generation x" "x_started_at (close_plain oc n x) = x_started_at x"
  "x_finished_at (close_plain oc n x) = Some n" "x_queue_id (close_plain oc n x) = x_queue_id x"
  by (simp_all add: close_plain_def)

lemma close_ok:
  assumes "execs_wf d" and "clock_ok now d" and "x \<in> set (job_executions d)"
  shows "check_exec (close_row oc c m now x)" "check_exec (close_plain oc now x)"
  using assms by (auto simp: execs_wf_def clock_ok_def check_exec_def close_row_def close_plain_def)

lemma close_execs_eq:
  assumes "job_executions d = xs" and "\<forall>x \<in> set xs. P x \<longrightarrow> is_open x" and "\<forall>x \<in> set xs. check_exec (f x)"
  shows "update_execs P f d = Inr (d\<lparr>job_executions := update_where P f xs\<rparr>)"
  using assms by (auto simp: update_execs_Inr_iff)

section \<open>Rows after a report\<close>

lemma find_key:
  assumes "jobs_wf d" and "find P (jobs d) = Some j" and "\<And>k. P k \<Longrightarrow> j_id k = j_id j"
  shows "j \<in> set (jobs d)" "P j" "\<And>k. k \<in> set (jobs d) \<Longrightarrow> P k \<longleftrightarrow> j_id k = j_id j"
proof -
  show j: "j \<in> set (jobs d)" "P j" using assms(2) by (auto simp: find_Some_iff)
  show "P k \<longleftrightarrow> j_id k = j_id j" if "k \<in> set (jobs d)" for k
    using assms(3) j(2) jobs_wfD(4) [OF assms(1) that j(1)] by blast
qed

lemma update_where_map: "update_where P f rs = map (\<lambda>r. if P r then f r else r) rs"
  by (simp add: update_where_def)

lemma start_row_simps [simp]:
  "j_id (start_row n j) = j_id j" "j_fence (start_row n j) = j_fence j" "j_status (start_row n j) = Running"
  "j_queue_id (start_row n j) = j_queue_id j" "j_shard (start_row n j) = j_shard j"
  "j_worker_id (start_row n j) = j_worker_id j" "j_attempt_count (start_row n j) = Suc (j_attempt_count j)"
  "j_replay_generation (start_row n j) = j_replay_generation j" "j_created_at (start_row n j) = j_created_at j"
  by (simp_all add: start_row_def)

lemma complete_row_simps [simp]:
  "j_id (complete_row n j) = j_id j" "j_fence (complete_row n j) = j_fence j" "j_status (complete_row n j) = Completed"
  "j_queue_id (complete_row n j) = j_queue_id j" "j_shard (complete_row n j) = j_shard j"
  "j_attempt_count (complete_row n j) = j_attempt_count j" "j_project_id (complete_row n j) = j_project_id j"
  "j_replay_generation (complete_row n j) = j_replay_generation j" "j_created_at (complete_row n j) = j_created_at j"
  by (simp_all add: complete_row_def)

lemma fail_row_simps [simp]:
  "j_id (fail_row rp p jit n j) = j_id j" "j_fence (fail_row rp p jit n j) = j_fence j"
  "j_queue_id (fail_row rp p jit n j) = j_queue_id j" "j_shard (fail_row rp p jit n j) = j_shard j"
  "j_status (fail_row rp p jit n j) = (if exhausted p rp j then Dead_letter else Retry_wait)"
  "j_attempt_count (fail_row rp p jit n j) = j_attempt_count j" "j_project_id (fail_row rp p jit n j) = j_project_id j"
  "j_replay_generation (fail_row rp p jit n j) = j_replay_generation j" "j_created_at (fail_row rp p jit n j) = j_created_at j"
  by (simp_all add: fail_row_def)

lemma snooze_row_simps [simp]:
  "j_id (snooze_row rp dl n j) = j_id j" "j_fence (snooze_row rp dl n j) = Suc (j_fence j)"
  "j_queue_id (snooze_row rp dl n j) = j_queue_id j" "j_shard (snooze_row rp dl n j) = j_shard j"
  "j_status (snooze_row rp dl n j) = Scheduled" "j_attempt_count (snooze_row rp dl n j) = j_attempt_count j"
  "j_project_id (snooze_row rp dl n j) = j_project_id j" "j_replay_generation (snooze_row rp dl n j) = j_replay_generation j"
  "j_created_at (snooze_row rp dl n j) = j_created_at j"
  by (simp_all add: snooze_row_def)

lemma start_row_ok: "check_job j \<Longrightarrow> j_status j = Claimed \<Longrightarrow> j_attempt_count j < j_fence j \<Longrightarrow> write_ok j (start_row now j)"
  by (simp add: write_ok_def check_job_def start_row_def)

lemma complete_row_ok: "check_job j \<Longrightarrow> j_status j = Running \<Longrightarrow> write_ok j (complete_row now j)"
  by (simp add: write_ok_def check_job_def complete_row_def)

lemma fail_row_ok: "check_job j \<Longrightarrow> active (j_status j) \<Longrightarrow> write_ok j (fail_row rp p jit now j)"
  by (cases "j_status j") (simp_all add: write_ok_def check_job_def fail_row_def)

lemma snooze_row_ok:
  "check_job j \<Longrightarrow> j_status j = Running \<Longrightarrow>
   j_created_at j < now + max (min dl (p_max_delay_ms rp)) 0 * 1000 \<Longrightarrow> write_ok j (snooze_row rp dl now j)"
  by (simp add: write_ok_def check_job_def snooze_row_def)

section \<open>The effect of each report\<close>

text \<open>Completing one job: its row completes, the rows that wait on it count down.\<close>

definition success_row :: "uuid \<Rightarrow> nat \<Rightarrow> timestamptz \<Rightarrow> db \<Rightarrow> job \<Rightarrow> job" where
  "success_row job fence now d j =
     (if reportable job fence j then complete_row now j
      else if waits_on job d j then finish_row now j else j)"

lemma waits_on_cong:
  "job_dependencies d' = job_dependencies d \<Longrightarrow> waits_on p d' = waits_on p d"
  by (auto simp: waits_on_def)

lemma reportable_waits [simp]: "waits_on p d (complete_row n j) = False"
  by (simp add: waits_on_def)

lemma report_success_eq:
  assumes "jobs_wf d" and "execs_wf d" and "clock_ok now d" and found: "find (reportable job fence) (jobs d) = Some j"
  shows "\<exists>d'. report_success exec now job fence d = Inr (Some (j_queue_id j), d') \<and>
    jobs d' = map (success_row job fence now d) (jobs d) \<and>
    job_executions d' = update_where (\<lambda>x. x_id x = exec \<and> is_open x) (close_plain X_success now) (job_executions d) \<and>
    job_leases d' = delete_where (\<lambda>l. l_job_id l = job) (job_leases d) \<and>
    queue_shards d' = queue_shards (queue_release (j_queue_id j) (j_shard j) 1 d) \<and>
    queues d' = queues d \<and> retry_policies d' = retry_policies d \<and> job_dependencies d' = job_dependencies d \<and>
    dead_letter_jobs d' = dead_letter_jobs d \<and> workers d' = workers d \<and>
    (\<exists>e0. d' = emit ''job.completed'' job (j_project_id j) completed_payload now
       (emit_woken (map j_id (filter (waits_on job d) (map (\<lambda>j. if reportable job fence j then complete_row now j else j) (jobs d)))) now e0) \<and>
       events e0 = events d \<and> event_seq e0 = event_seq d \<and> jobs e0 = jobs d')"
proof -
  let ?d1 = "d\<lparr>jobs := update_where (reportable job fence) (complete_row now) (jobs d)\<rparr>"
  let ?P = "\<lambda>x. x_id x = exec \<and> is_open x"
  let ?d2 = "?d1\<lparr>job_executions := update_where ?P (close_plain X_success now) (job_executions d)\<rparr>"
  have u1: "update_jobs (reportable job fence) (complete_row now) d = Inr ?d1"
    using jobs_wfD(2) [OF assms(1)] by (intro update_jobs_ok complete_row_ok) (auto simp: reportable_def)
  have wf1: "jobs_wf ?d1" using update_jobs_wf [OF assms(1) u1] by simp
  have u2: "update_execs ?P (close_plain X_success now) ?d1 = Inr ?d2"
    using close_ok(2) [OF assms(2,3)] by (subst close_execs_eq [where xs = "job_executions d"]) auto
  have "\<forall>k \<in> set (jobs ?d2). j_created_at k \<le> now"
    using assms(3) by (auto simp: clock_ok_def in_update_where_iff)
  then have u3: "finish_dependents job now ?d2 =
      Inr (map j_id (filter (waits_on job d) (jobs ?d2)), ?d2\<lparr>jobs := update_where (waits_on job d) (finish_row now) (jobs ?d2)\<rparr>)"
    using finish_dependents_eq [of ?d2 now job] wf1 waits_on_cong [of ?d2 d job] jobs_wf_same [of ?d2 ?d1] by simp
  have rows: "update_where (waits_on job d) (finish_row now) (jobs ?d2) = map (success_row job fence now d) (jobs d)"
    by (simp add: update_where_map success_row_def)
  show ?thesis
    unfolding report_success_def found option.case u1 u2 rbind_Inr u3 prod.case Let_def rows
    by (auto simp: queue_release_def update_where_map)
qed

lemma report_success_stale:
  "find (reportable job fence) (jobs d) = None \<Longrightarrow> report_success exec now job fence d = Inr (None, d)"
  by (simp add: report_success_def)

text \<open>Failing one job: its row waits or dies, and when it dies the rows below it are cancelled.\<close>

definition failure_row :: "uuid \<Rightarrow> nat option \<Rightarrow> retry_policy \<Rightarrow> bool \<Rightarrow> bool \<times> rat \<Rightarrow> timestamptz \<Rightarrow> bool \<Rightarrow> db \<Rightarrow> job \<Rightarrow> job" where
  "failure_row job fence rp permanent jit now dead d j =
     (if failable job fence d j then fail_row rp permanent jit now j
      else if dead \<and> cancellable_below job d j then cancel_row now j else j)"

lemma cancellable_cong: "job_dependencies d' = job_dependencies d \<Longrightarrow> cancellable_below p d' = cancellable_below p d"
  by (auto simp: cancellable_below_def)

lemma down_not_self: "deps_ok d \<Longrightarrow> i \<notin> set (down (job_dependencies d) i)"
  using down_descendants [of "job_dependencies d" i] by (auto simp: deps_ok_def)

lemma report_failure_eq:
  assumes "jobs_wf d" and "execs_wf d" and "clock_ok now d" and "deps_ok d"
    and found: "find (failable job fence d) (jobs d) = Some j" and rp: "policy_of d (j_retry_policy_id j) = Some rp"
  shows "\<exists>d'. report_failure f jit now job fence d = Inr (Some (j_queue_id j), d') \<and>
    jobs d' = map (failure_row job fence rp (f_permanent f) jit now (exhausted (f_permanent f) rp j) d) (jobs d) \<and>
    job_executions d' = update_where (\<lambda>x. x_job_id x = job \<and> is_open x)
      (close_row (f_outcome f) (f_class f) (f_message f) now) (job_executions d) \<and>
    job_leases d' = delete_where (\<lambda>l. l_job_id l = job) (job_leases d) \<and>
    queue_shards d' = queue_shards (queue_release (j_queue_id j) (j_shard j) 1 d) \<and>
    queues d' = queues d \<and> retry_policies d' = retry_policies d \<and> job_dependencies d' = job_dependencies d \<and>
    workers d' = workers d \<and>
    (if exhausted (f_permanent f) rp j then \<exists>dl \<in> set (dead_letter_jobs d'). d_job_id dl = job
     else dead_letter_jobs d' = dead_letter_jobs d)"
proof -
  let ?dead = "exhausted (f_permanent f) rp j" and ?g = "fail_row rp (f_permanent f) jit now"
  let ?d1 = "d\<lparr>jobs := update_where (failable job fence d) ?g (jobs d)\<rparr>"
  let ?P = "\<lambda>x. x_job_id x = job \<and> is_open x" and ?c = "close_row (f_outcome f) (f_class f) (f_message f) now"
  have u1: "update_jobs (failable job fence d) ?g d = Inr ?d1"
    using jobs_wfD(2) [OF assms(1)] by (intro update_jobs_ok fail_row_ok) (auto simp: failable_def)
  have wf1: "jobs_wf ?d1" using update_jobs_wf [OF assms(1) u1] by simp
  define killed where "killed = (if ?dead then map j_id (filter (cancellable_below job d) (jobs ?d1)) else [])"
  define d2 where "d2 = (if ?dead then ?d1\<lparr>jobs := update_where (cancellable_below job d) (cancel_row now) (jobs ?d1)\<rparr> else ?d1)"
  have u2: "(if ?dead then cancel_descendants job now ?d1 else Inr ([], ?d1)) = Inr (killed, d2)"
    using cancel_descendants_eq [OF wf1, of job now] cancellable_cong [of ?d1 d job]
    by (simp add: killed_def d2_def)
  let ?d3 = "d2\<lparr>job_executions := update_where ?P ?c (job_executions d)\<rparr>"
  have u3: "update_execs ?P ?c d2 = Inr ?d3"
    using close_ok(1) [OF assms(2,3)] by (subst close_execs_eq [where xs = "job_executions d"]) (auto simp: d2_def)
  have nc: "\<not> cancellable_below job d (?g k)" if "failable job fence d k" for k
    using that down_not_self [OF assms(4), of job] by (auto simp: cancellable_below_def failable_def)
  have rows: "jobs d2 = map (failure_row job fence rp (f_permanent f) jit now ?dead d) (jobs d)"
    using nc by (auto simp: d2_def update_where_map failure_row_def)
  have frame: "queue_shards d2 = queue_shards d" "queues d2 = queues d" "retry_policies d2 = retry_policies d"
    "job_dependencies d2 = job_dependencies d" "workers d2 = workers d" "job_leases d2 = job_leases d"
    "dead_letter_jobs d2 = dead_letter_jobs d"
    by (simp_all add: d2_def)
  show ?thesis
    unfolding report_failure_def found option.case rp Let_def u1 rbind_Inr u2 prod.case u3
    by (auto simp: rows frame queue_release_def intro: add_dead_letter_present)
qed

lemma report_failure_stale:
  "find (failable job fence d) (jobs d) = None \<Longrightarrow> report_failure f jit now job fence d = Inr (None, d)"
  by (simp add: report_failure_def)

lemma report_snooze_eq:
  assumes "jobs_wf d" and "execs_wf d" and "clock_ok now d"
    and found: "find (snoozable job fence d) (jobs d) = Some j" and rp: "policy_of d (j_retry_policy_id j) = Some rp"
    and later: "j_created_at j < now + max (min delay (p_max_delay_ms rp)) 0 * 1000"
  shows "\<exists>d'. report_snooze exec delay now job fence d = Inr (Some (j_queue_id j), d') \<and>
    jobs d' = map (\<lambda>k. if snoozable job fence d k then snooze_row rp delay now k else k) (jobs d) \<and>
    job_executions d' = update_where (\<lambda>x. x_id x = exec \<and> is_open x) (close_plain X_snoozed now) (job_executions d) \<and>
    job_leases d' = delete_where (\<lambda>l. l_job_id l = job) (job_leases d) \<and>
    queue_shards d' = queue_shards (queue_release (j_queue_id j) (j_shard j) 1 d) \<and>
    queues d' = queues d \<and> retry_policies d' = retry_policies d \<and> job_dependencies d' = job_dependencies d \<and>
    dead_letter_jobs d' = dead_letter_jobs d \<and> workers d' = workers d"
proof -
  let ?P = "\<lambda>x. x_id x = exec \<and> is_open x"
  let ?d1 = "d\<lparr>jobs := update_where (snoozable job fence d) (snooze_row rp delay now) (jobs d)\<rparr>"
  have "j_id j = job" using found by (auto simp: find_Some_iff snoozable_def)
  then have one: "k = j" if "k \<in> set (jobs d)" "snoozable job fence d k" for k
    using find_key(1,3) [OF assms(1) found] that jobs_wfD(4) [OF assms(1) that(1)] by (auto simp: snoozable_def)
  have u1: "update_jobs (snoozable job fence d) (snooze_row rp delay now) d = Inr ?d1"
    using jobs_wfD(2) [OF assms(1)] one later by (intro update_jobs_ok snooze_row_ok) (auto simp: snoozable_def)
  have u2: "update_execs ?P (close_plain X_snoozed now) ?d1 =
      Inr (?d1\<lparr>job_executions := update_where ?P (close_plain X_snoozed now) (job_executions d)\<rparr>)"
    using close_ok(2) [OF assms(2,3)] by (subst close_execs_eq [where xs = "job_executions d"]) auto
  show ?thesis
    unfolding report_snooze_def found option.case rp u1 rbind_Inr u2 Let_def
    by (auto simp: queue_release_def update_where_map)
qed

lemma report_snooze_stale:
  "find (snoozable job fence d) (jobs d) = None \<Longrightarrow> report_snooze exec delay now job fence d = Inr (None, d)"
  by (simp add: report_snooze_def)

section \<open>The contract of a fenced operation\<close>

locale fenced_write =
  fixes op :: "'p \<Rightarrow> uuid \<Rightarrow> nat \<Rightarrow> db \<Rightarrow> pg_error + 'a option \<times> db"
    and live :: "uuid \<Rightarrow> nat \<Rightarrow> job \<Rightarrow> db \<Rightarrow> bool"
  assumes stale: "(\<And>j. j \<in> set (jobs d) \<Longrightarrow> \<not> live job fence j d) \<Longrightarrow> op p job fence d = Inr (None, d)"
    and live_token: "live job fence j d \<Longrightarrow> j_id j = job \<and> j_fence j = fence \<and> active (j_status j)"
begin

text \<open>A token whose fence the job has moved past, or whose job is no longer claimed or running, writes nothing.\<close>

lemma stale_token:
  assumes "\<And>j. j \<in> set (jobs d) \<Longrightarrow> j_id j = job \<Longrightarrow> j_fence j \<noteq> fence \<or> \<not> active (j_status j)"
  shows "op p job fence d = Inr (None, d)"
  using assms live_token by (intro stale) blast

lemma effect_live:
  assumes "op p job fence d = Inr (r, d')" and "d' \<noteq> d \<or> r \<noteq> None"
  shows "\<exists>j \<in> set (jobs d). live job fence j d"
  using assms stale [of d job fence p] by auto

end

locale fenced_once = fenced_write op live
  for op :: "'p \<Rightarrow> uuid \<Rightarrow> nat \<Rightarrow> db \<Rightarrow> pg_error + 'a option \<times> db" and live +
  assumes spends: "op p job fence d = Inr (Some a, d') \<Longrightarrow> j \<in> set (jobs d') \<Longrightarrow> \<not> live job fence j d'"
    and refused: "op p job fence d = Inr (None, d') \<Longrightarrow> d' = d"
begin

text \<open>Once it has succeeded, the same call finds nothing to do, at any later time and with any other arguments.\<close>

lemma second_call:
  assumes "op p job fence d = Inr (Some a, d')"
  shows "op p' job fence d' = Inr (None, d')"
  using spends [OF assms] by (intro stale) blast

text \<open>
  One call from Go, whatever its fate: it left nothing behind and returned an error, or it took effect and
  returned the row, or it took effect and the reply was lost with an error that \<open>SafeToRetry\<close> does not call safe.
\<close>

lemma attempt:
  assumes "no_rows_fenced (scan_row (run_tx f (op p job fence) d)) = (r, d')" and "safe_for safe f"
  shows "(d' = d \<and> (\<exists>e. r = Inl e)) \<or>
    (\<exists>a. op p job fence d = Inr (Some a, d') \<and> (r = Inr a \<or> (\<exists>e. r = Inl (Conn e) \<and> \<not> safe e)))"
proof (cases f)
  case Runs
  then show ?thesis using assms(1) refused [of p job fence d]
    by (auto simp: run_tx_def scan_row_def no_rows_fenced_def split: sum.splits option.splits)
next
  case (Aborts c)
  then show ?thesis using assms(1) by (auto simp: run_tx_def scan_row_def no_rows_fenced_def)
next
  case (Lost e landed)
  show ?thesis
  proof (cases "landed \<and> (\<exists>a x. op p job fence d = Inr (a, x))")
    case True
    then obtain a x where "landed" "op p job fence d = Inr (a, x)" by blast
    then show ?thesis using Lost assms refused [of p job fence d x]
      by (cases a) (auto simp: run_tx_def scan_row_def no_rows_fenced_def safe_for_def)
  next
    case False
    then show ?thesis using Lost assms(1)
      by (auto simp: run_tx_def scan_row_def no_rows_fenced_def split: sum.splits)
  qed
qed

lemma transient_attempt:
  assumes "no_rows_fenced (scan_row (run_tx f (op p job fence) d)) = (Inl e, d')" and "safe_for safe f" and "transient safe e"
  shows "d' = d"
  using attempt [OF assms(1,2)] assms(3) by auto

end

section \<open>The instances\<close>

lemma start_sql_Some:
  assumes "start_sql worker xid now job fence d = Inr (Some e, d')"
  shows "\<exists>j. find (startable job fence) (jobs d) = Some j \<and>
    (\<forall>k \<in> set (jobs d). startable job fence k \<longrightarrow> write_ok k (start_row now k)) \<and>
    (\<forall>y \<in> set (job_executions d). x_id y \<noteq> xid) \<and> is_worker worker d \<and>
    e = \<lparr>ex_ID = xid, ex_Attempt = Suc (j_attempt_count j)\<rparr> \<and>
    d' = d\<lparr>jobs := map (\<lambda>k. if startable job fence k then start_row now k else k) (jobs d),
           job_executions := job_executions d @ [start_exec xid worker now (start_row now j)]\<rparr>"
  using assms
  by (auto simp: start_sql_def result_simps update_jobs_Inr_iff Let_def update_where_map start_exec_def
      split: option.splits if_splits)

lemma report_success_Some:
  assumes "report_success exec now job fence d = Inr (Some q, d')"
  shows "jobs d' = map (success_row job fence now d) (jobs d)"
proof -
  let ?js = "map (\<lambda>j. if reportable job fence j then complete_row now j else j) (jobs d)"
  have "jobs d' = update_where (waits_on job d) (finish_row now) ?js"
    using assms
    by (auto simp: report_success_def result_simps update_jobs_Inr_iff update_execs_Inr_iff finish_dependents_def
        Let_def update_where_map split: option.splits if_splits prod.splits cong: waits_on_cong)
  then show ?thesis by (simp add: update_where_map success_row_def)
qed

lemma report_failure_Some:
  assumes "report_failure f jit now job fence d = Inr (Some q, d')"
  shows "\<exists>j rp dead. find (failable job fence d) (jobs d) = Some j \<and> policy_of d (j_retry_policy_id j) = Some rp \<and>
    retry_policies d' = retry_policies d \<and>
    jobs d' = map ((\<lambda>j. if dead \<and> cancellable_below job d j then cancel_row now j else j) \<circ>
      (\<lambda>j. if failable job fence d j then fail_row rp (f_permanent f) jit now j else j)) (jobs d)"
proof -
  from assms obtain j rp where j: "find (failable job fence d) (jobs d) = Some j" "policy_of d (j_retry_policy_id j) = Some rp"
    by (auto simp: report_failure_def split: option.splits)
  let ?g = "\<lambda>j. if failable job fence d j then fail_row rp (f_permanent f) jit now j else j"
  show ?thesis
  proof (cases "exhausted (f_permanent f) rp j")
    case True
    with assms j have "jobs d' = map ((\<lambda>j. if True \<and> cancellable_below job d j then cancel_row now j else j) \<circ> ?g) (jobs d) \<and>
        retry_policies d' = retry_policies d"
      by (auto simp: report_failure_def result_simps update_jobs_Inr_iff update_execs_Inr_iff cancel_descendants_def
          Let_def update_where_map cong: cancellable_cong)
    with j show ?thesis by blast
  next
    case False
    with assms j have "jobs d' = map ((\<lambda>j. if False \<and> cancellable_below job d j then cancel_row now j else j) \<circ> ?g) (jobs d) \<and>
        retry_policies d' = retry_policies d"
      by (auto simp: report_failure_def result_simps update_jobs_Inr_iff update_execs_Inr_iff Let_def update_where_map)
    with j show ?thesis by blast
  qed
qed

lemma failable_cong: "retry_policies d' = retry_policies d \<Longrightarrow> failable job fence d' = failable job fence d"
  by (simp add: failable_def fun_eq_iff)

lemma snoozable_cong: "retry_policies d' = retry_policies d \<Longrightarrow> snoozable job fence d' = snoozable job fence d"
  by (simp add: snoozable_def fun_eq_iff)

lemma report_snooze_Some:
  assumes "report_snooze exec delay now job fence d = Inr (Some q, d')"
  shows "\<exists>j rp. find (snoozable job fence d) (jobs d) = Some j \<and> policy_of d (j_retry_policy_id j) = Some rp \<and>
    (\<forall>k \<in> set (jobs d). snoozable job fence d k \<longrightarrow> write_ok k (snooze_row rp delay now k)) \<and>
    retry_policies d' = retry_policies d \<and>
    jobs d' = map (\<lambda>k. if snoozable job fence d k then snooze_row rp delay now k else k) (jobs d)"
  using assms
  by (auto simp: report_snooze_def result_simps update_jobs_Inr_iff update_execs_Inr_iff Let_def update_where_map
      split: option.splits)

interpretation start: fenced_once "\<lambda>(w, xid, now). start_sql w xid now" "\<lambda>job fence j d. startable job fence j"
proof unfold_locales
  fix d :: db and job fence and p :: "uuid \<times> uuid \<times> timestamptz"
  assume "\<And>j. j \<in> set (jobs d) \<Longrightarrow> \<not> startable job fence j"
  then have "find (startable job fence) (jobs d) = None" by (auto simp: find_None_iff)
  then show "(case p of (w, xid, now) \<Rightarrow> start_sql w xid now) job fence d = Inr (None, d)"
    by (simp add: start_sql_def split: prod.split)
next
  fix job fence j and d :: db
  assume "startable job fence j"
  then show "j_id j = job \<and> j_fence j = fence \<and> active (j_status j)" by (auto simp: startable_def)
next
  fix job fence d a d' j and p :: "uuid \<times> uuid \<times> timestamptz"
  assume "(case p of (w, xid, now) \<Rightarrow> start_sql w xid now) job fence d = Inr (Some a, d')" and j: "j \<in> set (jobs d')"
  then obtain w xid now where "start_sql w xid now job fence d = Inr (Some a, d')" by (cases p) auto
  from start_sql_Some [OF this] have "jobs d' = map (\<lambda>k. if startable job fence k then start_row now k else k) (jobs d)" by auto
  from j [unfolded this] obtain k where "j = (if startable job fence k then start_row now k else k)" by (rule mem_mapE)
  then show "\<not> startable job fence j" by (cases "startable job fence k") (simp_all add: startable_def)
next
  fix d d' job fence and p :: "uuid \<times> uuid \<times> timestamptz"
  assume "(case p of (w, xid, now) \<Rightarrow> start_sql w xid now) job fence d = Inr (None, d')"
  then show "d' = d" by (cases p) (auto simp: start_sql_def result_simps Let_def split: option.splits prod.splits if_splits)
qed

interpretation success: fenced_once "\<lambda>(exec, now). report_success exec now" "\<lambda>job fence j d. reportable job fence j"
proof unfold_locales
  fix d :: db and job fence and p :: "uuid \<times> timestamptz"
  assume "\<And>j. j \<in> set (jobs d) \<Longrightarrow> \<not> reportable job fence j"
  then have "find (reportable job fence) (jobs d) = None" by (auto simp: find_None_iff)
  then show "(case p of (exec, now) \<Rightarrow> report_success exec now) job fence d = Inr (None, d)"
    by (simp add: report_success_def split: prod.split)
next
  fix job fence j and d :: db
  assume "reportable job fence j"
  then show "j_id j = job \<and> j_fence j = fence \<and> active (j_status j)" by (auto simp: reportable_def)
next
  fix job fence d a d' j and p :: "uuid \<times> timestamptz"
  assume "(case p of (exec, now) \<Rightarrow> report_success exec now) job fence d = Inr (Some a, d')" and j: "j \<in> set (jobs d')"
  then obtain exec now where "report_success exec now job fence d = Inr (Some a, d')" by (cases p) auto
  from j [unfolded report_success_Some [OF this]] obtain k where "j = success_row job fence now d k" by (rule mem_mapE)
  then show "\<not> reportable job fence j"
    by (cases "reportable job fence k"; cases "waits_on job d k")
       (simp_all add: success_row_def reportable_def waits_on_def finish_row_def)
next
  fix d d' job fence and p :: "uuid \<times> timestamptz"
  assume "(case p of (exec, now) \<Rightarrow> report_success exec now) job fence d = Inr (None, d')"
  then show "d' = d" by (cases p) (auto simp: report_success_def result_simps Let_def split: option.splits prod.splits if_splits)
qed

interpretation failure: fenced_once "\<lambda>(f, jit, now) job fence. report_failure f jit now job (Some fence)"
  "\<lambda>job fence j d. failable job (Some fence) d j"
proof unfold_locales
  fix d job fence and p :: "failure \<times> (bool \<times> rat) \<times> timestamptz"
  assume "\<And>j. j \<in> set (jobs d) \<Longrightarrow> \<not> failable job (Some fence) d j"
  then have "find (failable job (Some fence) d) (jobs d) = None" by (auto simp: find_None_iff)
  then show "(case p of (f, jit, now) \<Rightarrow> \<lambda>job fence. report_failure f jit now job (Some fence)) job fence d = Inr (None, d)"
    by (simp add: report_failure_def split: prod.split)
next
  fix job fence j and d :: db
  assume "failable job (Some fence) d j"
  then show "j_id j = job \<and> j_fence j = fence \<and> active (j_status j)" by (auto simp: failable_def)
next
  fix job fence d a d' j and p :: "failure \<times> (bool \<times> rat) \<times> timestamptz"
  assume "(case p of (f, jit, now) \<Rightarrow> \<lambda>job fence. report_failure f jit now job (Some fence)) job fence d = Inr (Some a, d')"
    and j: "j \<in> set (jobs d')"
  then obtain f jit now where "report_failure f jit now job (Some fence) d = Inr (Some a, d')" by (cases p) auto
  from report_failure_Some [OF this] obtain rp dead where pol: "retry_policies d' = retry_policies d"
    and rows: "jobs d' = map ((\<lambda>j. if dead \<and> cancellable_below job d j then cancel_row now j else j) \<circ>
      (\<lambda>j. if failable job (Some fence) d j then fail_row rp (f_permanent f) jit now j else j)) (jobs d)" by blast
  from j [unfolded rows] obtain k where "j = ((\<lambda>j. if dead \<and> cancellable_below job d j then cancel_row now j else j) \<circ>
      (\<lambda>j. if failable job (Some fence) d j then fail_row rp (f_permanent f) jit now j else j)) k" by (rule mem_mapE)
  then show "\<not> failable job (Some fence) d' j"
    unfolding failable_cong [OF pol] by (cases "failable job (Some fence) d k") (simp_all add: failable_def)
next
  fix d d' job fence and p :: "failure \<times> (bool \<times> rat) \<times> timestamptz"
  assume "(case p of (f, jit, now) \<Rightarrow> \<lambda>job fence. report_failure f jit now job (Some fence)) job fence d = Inr (None, d')"
  then show "d' = d" by (cases p) (auto simp: report_failure_def result_simps Let_def split: option.splits prod.splits if_splits)
qed

interpretation snooze: fenced_once "\<lambda>(exec, delay, now) job fence. report_snooze exec delay now job (Some fence)"
  "\<lambda>job fence j d. snoozable job (Some fence) d j"
proof unfold_locales
  fix d job fence and p :: "uuid \<times> int \<times> timestamptz"
  assume "\<And>j. j \<in> set (jobs d) \<Longrightarrow> \<not> snoozable job (Some fence) d j"
  then have "find (snoozable job (Some fence) d) (jobs d) = None" by (auto simp: find_None_iff)
  then show "(case p of (exec, delay, now) \<Rightarrow> \<lambda>job fence. report_snooze exec delay now job (Some fence)) job fence d = Inr (None, d)"
    by (simp add: report_snooze_def split: prod.split)
next
  fix job fence j and d :: db
  assume "snoozable job (Some fence) d j"
  then show "j_id j = job \<and> j_fence j = fence \<and> active (j_status j)" by (auto simp: snoozable_def)
next
  fix job fence d a d' j and p :: "uuid \<times> int \<times> timestamptz"
  assume "(case p of (exec, delay, now) \<Rightarrow> \<lambda>job fence. report_snooze exec delay now job (Some fence)) job fence d = Inr (Some a, d')"
    and j: "j \<in> set (jobs d')"
  then obtain exec delay now where "report_snooze exec delay now job (Some fence) d = Inr (Some a, d')" by (cases p) auto
  from report_snooze_Some [OF this] obtain rp where pol: "retry_policies d' = retry_policies d"
    and rows: "jobs d' = map (\<lambda>k. if snoozable job (Some fence) d k then snooze_row rp delay now k else k) (jobs d)" by blast
  from j [unfolded rows] obtain k where "j = (if snoozable job (Some fence) d k then snooze_row rp delay now k else k)"
    by (rule mem_mapE)
  then show "\<not> snoozable job (Some fence) d' j"
    unfolding snoozable_cong [OF pol] by (cases "snoozable job (Some fence) d k") (simp_all add: snoozable_def)
next
  fix d d' job fence and p :: "uuid \<times> int \<times> timestamptz"
  assume "(case p of (exec, delay, now) \<Rightarrow> \<lambda>job fence. report_snooze exec delay now job (Some fence)) job fence d = Inr (None, d')"
  then show "d' = d" by (cases p) (auto simp: report_snooze_def result_simps Let_def split: option.splits prod.splits if_splits)
qed


section \<open>Outcomes\<close>

text \<open>The well-formedness of the tables the reports read and write.\<close>

definition tables_wf :: "timestamptz \<Rightarrow> db \<Rightarrow> bool" where
  "tables_wf now d \<longleftrightarrow> jobs_wf d \<and> execs_wf d \<and> clock_ok now d \<and> deps_ok d \<and> distinct (map l_job_id (job_leases d))"

lemma tables_wfD:
  assumes "tables_wf now d"
  shows "jobs_wf d" "execs_wf d" "clock_ok now d" "deps_ok d" "distinct (map l_job_id (job_leases d))"
  using assms by (auto simp: tables_wf_def)

lemma find_job:
  assumes "jobs_wf d" and "job_of d i = Some j" and "P j" and "\<And>k. P k \<Longrightarrow> j_id k = i"
  shows "find P (jobs d) = Some j"
proof -
  have j: "j \<in> set (jobs d)" "j_id j = i" using assms(2) by (auto dest: lookup_row_SomeD)
  then obtain k where k: "find P (jobs d) = Some k" using assms(3) by (cases "find P (jobs d)") (auto simp: find_None_iff)
  then have "k \<in> set (jobs d)" "P k" by (auto simp: find_Some_iff)
  with assms(4) j jobs_wfD(4) [OF assms(1)] have "k = j" by blast
  with k show ?thesis by simp
qed

lemma lookup_map: "(\<And>j. j_id (g j) = j_id j) \<Longrightarrow> lookup_row j_id i (map g js) = map_option g (lookup_row j_id i js)"
  by (induction js) auto

lemma failure_row_id [simp]: "j_id (failure_row job fence rp p jit now dead d j) = j_id j"
  by (simp add: failure_row_def)

lemma success_row_id [simp]: "j_id (success_row job fence now d j) = j_id j"
  by (simp add: success_row_def)

text \<open>
  C10. A failure report with a live token always succeeds and leaves the job in one of two places. Permanent, or
  with its attempts used up, it is dead-lettered: finished now, with a row in \<open>dead_letter_jobs\<close>, and every
  idle job downstream of it is cancelled. Otherwise it waits for a retry, due no earlier than now and no
  later than the policy's maximum delay. Either way its owner, its lease and its open executions are
  gone and its shard has one slot less in use.
\<close>

theorem report_failure_outcome:
  assumes "tables_wf now d" and "job_of d job = Some j" and "active (j_status j)" and "fence = None \<or> fence = Some (j_fence j)"
    and "policy_of d (j_retry_policy_id j) = Some rp" and "0 < p_base_delay_ms rp" and "p_base_delay_ms rp \<le> p_max_delay_ms rp"
    and "0 \<le> snd jit" and "snd jit < 1"
  shows "\<exists>d' j'. report_failure f jit now job fence d = Inr (Some (j_queue_id j), d') \<and> job_of d' job = Some j' \<and>
    j_fence j' = j_fence j \<and> j_worker_id j' = None \<and> lease_of d' job = None \<and>
    (\<forall>x \<in> set (job_executions d'). x_job_id x = job \<longrightarrow> x_finished_at x \<noteq> None) \<and>
    shard_of d' (j_queue_id j) (j_shard j) =
      map_option (\<lambda>s. s\<lparr>s_in_flight := max (s_in_flight s - 1) 0\<rparr>) (shard_of d (j_queue_id j) (j_shard j)) \<and>
    (if f_permanent f \<or> p_max_attempts rp \<le> j_attempt_count j
     then j_status j' = Dead_letter \<and> j_finished_at j' = Some now \<and> (\<exists>dl \<in> set (dead_letter_jobs d'). d_job_id dl = job) \<and>
          (\<forall>k \<in> set (jobs d). (job, j_id k) \<in> (set (job_dependencies d))\<^sup>+ \<longrightarrow> j_id k \<noteq> job \<longrightarrow>
             j_status k \<in> {Scheduled, Queued, Retry_wait} \<longrightarrow> (\<exists>k'. job_of d' (j_id k) = Some k' \<and> j_status k' = Cancelled))
     else j_status j' = Retry_wait \<and> now \<le> j_run_at j' \<and> j_run_at j' \<le> now + p_max_delay_ms rp * 1000)"
proof -
  note wf = tables_wfD [OF assms(1)]
  let ?P = "failable job fence d" and ?dead = "exhausted (f_permanent f) rp j"
  let ?g = "failure_row job fence rp (f_permanent f) jit now ?dead d"
  have idj: "j_id j = job" using assms(2) by (auto dest: lookup_row_SomeD)
  have Pj: "?P j" using assms(3-5) idj by (auto simp: failable_def)
  have "find ?P (jobs d) = Some j" using wf(1) assms(2) Pj by (rule find_job) (simp add: failable_def)
  from report_failure_eq [OF wf(1-4) this assms(5), of f jit] obtain d' where
    run: "report_failure f jit now job fence d = Inr (Some (j_queue_id j), d')"
    and rows: "jobs d' = map ?g (jobs d)"
    and execs: "job_executions d' = update_where (\<lambda>x. x_job_id x = job \<and> is_open x)
      (close_row (f_outcome f) (f_class f) (f_message f) now) (job_executions d)"
    and leases: "job_leases d' = delete_where (\<lambda>l. l_job_id l = job) (job_leases d)"
    and shards: "queue_shards d' = queue_shards (queue_release (j_queue_id j) (j_shard j) 1 d)"
    and dl: "if ?dead then \<exists>dl \<in> set (dead_letter_jobs d'). d_job_id dl = job else dead_letter_jobs d' = dead_letter_jobs d"
    by - (elim exE conjE, rule that; assumption)
  have job': "job_of d' job = Some (fail_row rp (f_permanent f) jit now j)"
    unfolding rows using assms(2) Pj by (simp add: lookup_map failure_row_def)
  have lease': "lease_of d' job = None" unfolding leases by (simp add: lookup_row_delete_key)
  have execs': "\<forall>x \<in> set (job_executions d'). x_job_id x = job \<longrightarrow> x_finished_at x \<noteq> None"
    unfolding execs update_where_map by (simp, blast intro: close_row_simps(7))
  have shard': "shard_of d' (j_queue_id j) (j_shard j) =
      map_option (\<lambda>s. s\<lparr>s_in_flight := max (s_in_flight s - 1) 0\<rparr>) (shard_of d (j_queue_id j) (j_shard j))"
    unfolding shards by (simp add: shard_of_release)
  have below: "\<exists>k'. job_of d' (j_id k) = Some k' \<and> j_status k' = Cancelled"
    if "?dead" "k \<in> set (jobs d)" "(job, j_id k) \<in> (set (job_dependencies d))\<^sup>+" "j_id k \<noteq> job"
      "j_status k \<in> {Scheduled, Queued, Retry_wait}" for k
  proof -
    have "cancellable_below job d k"
      using that wf(4) down_descendants [of "job_dependencies d" job] by (auto simp: cancellable_below_def deps_ok_def)
    moreover have "\<not> ?P k" using that(4) by (simp add: failable_def)
    ultimately have "?g k = cancel_row now k" using that(1) by (simp add: failure_row_def)
    moreover have "job_of d (j_id k) = Some k" using that(2) jobs_wfD(3) [OF wf(1)] by blast
    ultimately show ?thesis unfolding rows by (simp add: lookup_map)
  qed
  have late: "now \<le> j_run_at (fail_row rp (f_permanent f) jit now j) \<and>
      j_run_at (fail_row rp (f_permanent f) jit now j) \<le> now + p_max_delay_ms rp * 1000" if "\<not> ?dead"
    using that backoff_bounds [OF assms(6-9), of "p_kind rp" "p_jitter rp" "fst jit" "j_attempt_count j"]
    by (simp add: fail_row_def)
  have dead_iff: "?dead \<longleftrightarrow> f_permanent f \<or> p_max_attempts rp \<le> j_attempt_count j" by (simp add: exhausted_def)
  have row: "j_worker_id (fail_row rp (f_permanent f) jit now j) = None"
    "?dead \<Longrightarrow> j_finished_at (fail_row rp (f_permanent f) jit now j) = Some now" by (simp_all add: fail_row_def)
  show ?thesis
    unfolding dead_iff [symmetric]
    using run job' lease' execs' shard' dl below late row by (intro exI [of _ d'] exI [of _ "fail_row rp (f_permanent f) jit now j"]) simp
qed

lemma sample_tables_wf: "tables_wf sample_now sample_db"
  by (simp add: tables_wf_def jobs_wf_def check_job_def execs_wf_def check_exec_def clock_ok_def deps_ok_def sample_defs)

lemma sample_running_row:
  "job_of sample_db 11 = Some sample_running" "active (j_status sample_running)" "j_status sample_running = Running"
  "policy_of sample_db (j_retry_policy_id sample_running) = Some sample_policy" "0 < p_base_delay_ms sample_policy"
  "p_base_delay_ms sample_policy \<le> p_max_delay_ms sample_policy" "j_fence sample_running = 1"
  "j_attempt_count sample_running = 1" "p_max_attempts sample_policy = 3" "j_queue_id sample_running = 7"
  by (simp_all add: sample_defs)


theorem report_failure_outcome_witness:
  "\<exists>d' j'. report_failure (fail_args False None) (False, 0) sample_now 11 (Some 1) sample_db = Inr (Some 7, d') \<and>
     job_of d' 11 = Some j' \<and> j_status j' = Retry_wait"
proof -
  have "Some 1 = None \<or> Some 1 = Some (j_fence sample_running)" by (simp add: sample_running_row)
  from report_failure_outcome [OF sample_tables_wf sample_running_row(1,2) this sample_running_row(4-6),
      of "(False, 0)" "fail_args False None"]
  show ?thesis by (auto simp: sample_running_row(8-10) fail_args_def)
qed

text \<open>
  A success report with a live token always succeeds: the job is completed and finished now, its owner and
  lease are gone, the execution named in the report is closed as a success, the shard has one slot less
  in use, and the last event written is this job's completion, the only one the report adds.
\<close>

theorem report_success_outcome:
  assumes "tables_wf now d" and "job_of d job = Some j" and "j_status j = Running"
  shows "\<exists>d' j'. report_success exec now job (j_fence j) d = Inr (Some (j_queue_id j), d') \<and> job_of d' job = Some j' \<and>
    j_status j' = Completed \<and> j_finished_at j' = Some now \<and> j_worker_id j' = None \<and> j_fence j' = j_fence j \<and>
    lease_of d' job = None \<and>
    (\<forall>x \<in> set (job_executions d). x_id x = exec \<longrightarrow> x_finished_at x = None \<longrightarrow>
       exec_of d' exec = Some (x\<lparr>x_outcome := Some X_success, x_finished_at := Some now\<rparr>)) \<and>
    shard_of d' (j_queue_id j) (j_shard j) =
      map_option (\<lambda>s. s\<lparr>s_in_flight := max (s_in_flight s - 1) 0\<rparr>) (shard_of d (j_queue_id j) (j_shard j)) \<and>
    (\<exists>es e. events d' = events d @ es @ [e] \<and> e_topic e = ''job.completed'' \<and> e_entity_id e = job \<and>
       (\<forall>e' \<in> set es. e_topic e' = ''job.queued''))"
proof -
  note wf = tables_wfD [OF assms(1)]
  have idj: "j_id j = job" using assms(2) by (auto dest: lookup_row_SomeD)
  have Pj: "reportable job (j_fence j) j" using assms(3) idj by (simp add: reportable_def)
  have "find (reportable job (j_fence j)) (jobs d) = Some j"
    using wf(1) assms(2) Pj by (rule find_job) (simp add: reportable_def)
  from report_success_eq [OF wf(1-3) this, of exec] obtain d' e0 woke where
    run: "report_success exec now job (j_fence j) d = Inr (Some (j_queue_id j), d')"
    and rows: "jobs d' = map (success_row job (j_fence j) now d) (jobs d)"
    and execs: "job_executions d' = update_where (\<lambda>x. x_id x = exec \<and> is_open x) (close_plain X_success now) (job_executions d)"
    and leases: "job_leases d' = delete_where (\<lambda>l. l_job_id l = job) (job_leases d)"
    and shards: "queue_shards d' = queue_shards (queue_release (j_queue_id j) (j_shard j) 1 d)"
    and ev: "d' = emit ''job.completed'' job (j_project_id j) completed_payload now (emit_woken woke now e0)"
    and ev0: "events e0 = events d"
    by - (elim exE conjE, rule that; assumption)
  have job': "job_of d' job = Some (complete_row now j)"
    unfolding rows using assms(2) Pj by (simp add: lookup_map success_row_def)
  have lease': "lease_of d' job = None" unfolding leases by (simp add: lookup_row_delete_key)
  have shard': "shard_of d' (j_queue_id j) (j_shard j) =
      map_option (\<lambda>s. s\<lparr>s_in_flight := max (s_in_flight s - 1) 0\<rparr>) (shard_of d (j_queue_id j) (j_shard j))"
    unfolding shards by (simp add: shard_of_release)
  have exec': "exec_of d' exec = Some (x\<lparr>x_outcome := Some X_success, x_finished_at := Some now\<rparr>)"
    if "x \<in> set (job_executions d)" "x_id x = exec" "is_open x" for x
  proof -
    have "exec_of d exec = Some x" using wf(2) that by (simp add: execs_wf_def lookup_row_Some_iff)
    then show ?thesis unfolding execs using that by (simp add: lookup_row_update close_plain_def)
  qed
  obtain es where "events (emit_woken woke now e0) = events d @ es" "\<forall>e \<in> set es. e_topic e = ''job.queued''"
    using emit_woken_events [of woke now e0] ev0 by auto
  then have ev': "\<exists>es e. events d' = events d @ es @ [e] \<and> e_topic e = ''job.completed'' \<and> e_entity_id e = job \<and>
       (\<forall>e' \<in> set es. e_topic e' = ''job.queued'')"
    unfolding ev by (simp add: emit_def)
  have row: "j_finished_at (complete_row now j) = Some now" "j_worker_id (complete_row now j) = None"
    by (simp_all add: complete_row_def)
  show ?thesis
    using run job' lease' shard' exec' ev' row by (intro exI [of _ d'] exI [of _ "complete_row now j"]) simp
qed

theorem report_success_outcome_witness:
  "\<exists>d' j'. report_success 100 sample_now 11 1 sample_db = Inr (Some 7, d') \<and> job_of d' 11 = Some j' \<and> j_status j' = Completed"
  using report_success_outcome [OF sample_tables_wf sample_running_row(1,3), of 100]
  by (auto simp: sample_running_row(7,10))

text \<open>
  A snooze with a live token puts the job back to \<open>scheduled\<close>, due after the requested delay clamped between
  zero and the policy's maximum, raises its fence so that the snoozed token is dead, counts the snooze
  and keeps the attempt count that the start had already raised; owner, lease and slot are given up. A
  job that has used up its snoozes is not touched at all: it stays running with its lease.
\<close>

theorem report_snooze_outcome:
  assumes "tables_wf now d" and "job_of d job = Some j" and "j_status j = Running"
    and "policy_of d (j_retry_policy_id j) = Some rp" and "j_created_at j < now"
  shows "(j_snooze_count j < p_max_attempts rp \<longrightarrow>
     (\<exists>d' j'. report_snooze exec delay now job (Some (j_fence j)) d = Inr (Some (j_queue_id j), d') \<and> job_of d' job = Some j' \<and>
       j_status j' = Scheduled \<and> j_fence j' = j_fence j + 1 \<and> j_snooze_count j' = j_snooze_count j + 1 \<and>
       j_attempt_count j' = j_attempt_count j \<and> j_worker_id j' = None \<and>
       (0 \<le> delay \<and> delay \<le> p_max_delay_ms rp \<longrightarrow> j_run_at j' = now + delay * 1000) \<and>
       now \<le> j_run_at j' \<and> (0 \<le> p_max_delay_ms rp \<longrightarrow> j_run_at j' \<le> now + p_max_delay_ms rp * 1000) \<and>
       lease_of d' job = None \<and>
       shard_of d' (j_queue_id j) (j_shard j) =
         map_option (\<lambda>s. s\<lparr>s_in_flight := max (s_in_flight s - 1) 0\<rparr>) (shard_of d (j_queue_id j) (j_shard j)))) \<and>
    (p_max_attempts rp \<le> j_snooze_count j \<longrightarrow> report_snooze exec delay now job (Some (j_fence j)) d = Inr (None, d))"
proof (intro conjI impI)
  note wf = tables_wfD [OF assms(1)]
  have idj: "j_id j = job" using assms(2) by (auto dest: lookup_row_SomeD)
  show "report_snooze exec delay now job (Some (j_fence j)) d = Inr (None, d)" if "p_max_attempts rp \<le> j_snooze_count j"
  proof (rule report_snooze_stale)
    have "\<not> snoozable job (Some (j_fence j)) d k" if "k \<in> set (jobs d)" for k
      using that assms(2,4) jobs_wfD(3) [OF wf(1), of job k] \<open>p_max_attempts rp \<le> j_snooze_count j\<close>
      by (auto simp: snoozable_def)
    then show "find (snoozable job (Some (j_fence j)) d) (jobs d) = None" by (auto simp: find_None_iff)
  qed
  assume left: "j_snooze_count j < p_max_attempts rp"
  have Pj: "snoozable job (Some (j_fence j)) d j" using assms(3,4) idj left by (simp add: snoozable_def)
  have found: "find (snoozable job (Some (j_fence j)) d) (jobs d) = Some j"
    using wf(1) assms(2) Pj by (rule find_job) (simp add: snoozable_def)
  have later: "j_created_at j < now + max (min delay (p_max_delay_ms rp)) 0 * 1000"
    using assms(5) by (simp add: max_def)
  from report_snooze_eq [OF wf(1-3) found assms(4) later, of exec] obtain d' where
    run: "report_snooze exec delay now job (Some (j_fence j)) d = Inr (Some (j_queue_id j), d')"
    and rows: "jobs d' = map (\<lambda>k. if snoozable job (Some (j_fence j)) d k then snooze_row rp delay now k else k) (jobs d)"
    and leases: "job_leases d' = delete_where (\<lambda>l. l_job_id l = job) (job_leases d)"
    and shards: "queue_shards d' = queue_shards (queue_release (j_queue_id j) (j_shard j) 1 d)"
    by - (elim exE conjE, rule that; assumption)
  have "job_of d' job = Some (snooze_row rp delay now j)"
    unfolding rows using assms(2) Pj by (simp add: lookup_map)
  moreover have "lease_of d' job = None" unfolding leases by (simp add: lookup_row_delete_key)
  moreover have "shard_of d' (j_queue_id j) (j_shard j) =
      map_option (\<lambda>s. s\<lparr>s_in_flight := max (s_in_flight s - 1) 0\<rparr>) (shard_of d (j_queue_id j) (j_shard j))"
    unfolding shards by (simp add: shard_of_release)
  ultimately show "\<exists>d' j'. report_snooze exec delay now job (Some (j_fence j)) d = Inr (Some (j_queue_id j), d') \<and> job_of d' job = Some j' \<and>
       j_status j' = Scheduled \<and> j_fence j' = j_fence j + 1 \<and> j_snooze_count j' = j_snooze_count j + 1 \<and>
       j_attempt_count j' = j_attempt_count j \<and> j_worker_id j' = None \<and>
       (0 \<le> delay \<and> delay \<le> p_max_delay_ms rp \<longrightarrow> j_run_at j' = now + delay * 1000) \<and>
       now \<le> j_run_at j' \<and> (0 \<le> p_max_delay_ms rp \<longrightarrow> j_run_at j' \<le> now + p_max_delay_ms rp * 1000) \<and>
       lease_of d' job = None \<and>
       shard_of d' (j_queue_id j) (j_shard j) =
         map_option (\<lambda>s. s\<lparr>s_in_flight := max (s_in_flight s - 1) 0\<rparr>) (shard_of d (j_queue_id j) (j_shard j))"
    using run by (intro exI [of _ d'] exI [of _ "snooze_row rp delay now j"]) (simp add: snooze_row_def max_def min_def)
qed

theorem report_snooze_outcome_witness:
  "\<exists>d' j'. report_snooze 100 5000 sample_now 11 (Some 1) sample_db = Inr (Some 7, d') \<and> job_of d' 11 = Some j' \<and>
     j_run_at j' = sample_now + 5000000"
proof -
  have "j_created_at sample_running < sample_now" "j_snooze_count sample_running < p_max_attempts sample_policy"
    "p_max_delay_ms sample_policy = 60000" by (simp_all add: sample_defs)
  with report_snooze_outcome [OF sample_tables_wf sample_running_row(1,3,4), of 100 5000]
  show ?thesis by (auto simp: sample_running_row(7,10))
qed

section \<open>Reports keep the rows well-formed\<close>

lemma jobs_wf_map:
  assumes "jobs_wf d" and "jobs d' = map (\<lambda>k. if P k then f k else k) (jobs d)"
    and "\<forall>k \<in> set (jobs d). P k \<longrightarrow> write_ok k (f k)" and "\<And>j. j_id (f j) = j_id j"
  shows "jobs_wf d'"
proof -
  have "update_jobs P f d = Inr (d\<lparr>jobs := update_where P f (jobs d)\<rparr>)"
    using assms(3) by (intro update_jobs_ok) blast
  from update_jobs_wf [OF assms(1) this assms(4)] show ?thesis
    using assms(2) by (simp add: jobs_wf_def update_where_map)
qed

lemma finish_dependents_wf:
  assumes "jobs_wf d" and "finish_dependents p now d = Inr (woke, d')"
  shows "jobs_wf d'" "job_executions d' = job_executions d" "job_leases d' = job_leases d"
    "job_dependencies d' = job_dependencies d"
proof -
  from assms(2) have u: "update_jobs (waits_on p d) (finish_row now) d = Inr d'"
    by (auto simp: finish_dependents_def result_simps)
  then show "jobs_wf d'" using update_jobs_wf [OF assms(1)] by simp
  show "job_executions d' = job_executions d" "job_leases d' = job_leases d" "job_dependencies d' = job_dependencies d"
    using u by (auto simp: update_jobs_Inr_iff)
qed

lemma cancel_descendants_wf:
  assumes "jobs_wf d" and "cancel_descendants p now d = Inr (killed, d')"
  shows "jobs_wf d'"
proof -
  from assms(2) have "update_jobs (cancellable_below p d) (cancel_row now) d = Inr d'"
    by (auto simp: cancel_descendants_def result_simps)
  then show ?thesis using update_jobs_wf [OF assms(1)] by simp
qed

lemma report_success_wf:
  assumes "jobs_wf d" and "report_success exec now job fence d = Inr (r, d')"
  shows "jobs_wf d'"
proof (cases "find (reportable job fence) (jobs d)")
  case None
  with assms show ?thesis by (simp add: report_success_def)
next
  case (Some j)
  from assms(2) Some obtain d1 d2 woke d3 where
    "update_jobs (reportable job fence) (complete_row now) d = Inr d1"
    "update_execs (\<lambda>x. x_id x = exec \<and> is_open x) (close_plain X_success now) d1 = Inr d2"
    "finish_dependents job now d2 = Inr (woke, d3)" "jobs d' = jobs d3"
    by (auto simp: report_success_def result_simps Let_def)
  moreover from this have "jobs_wf d1" using update_jobs_wf [OF assms(1)] by simp
  moreover have "jobs d2 = jobs d1" using calculation(2) by (auto simp: update_execs_Inr_iff)
  ultimately show ?thesis using finish_dependents_wf(1) jobs_wf_same by metis
qed

lemma report_failure_wf:
  assumes "jobs_wf d" and "report_failure f jit now job fence d = Inr (r, d')"
  shows "jobs_wf d'"
proof (cases "find (failable job fence d) (jobs d)")
  case None
  with assms show ?thesis by (simp add: report_failure_def)
next
  case (Some j)
  show ?thesis
  proof (cases "policy_of d (j_retry_policy_id j)")
    case None
    with assms Some show ?thesis by (simp add: report_failure_def)
  next
    case rp: (Some rp)
    let ?dead = "exhausted (f_permanent f) rp j"
    obtain d1 killed d2 d3 where
      u: "update_jobs (failable job fence d) (fail_row rp (f_permanent f) jit now) d = Inr d1"
      "(if ?dead then cancel_descendants job now d1 else Inr ([], d1)) = Inr (killed, d2)"
      "update_execs (\<lambda>x. x_job_id x = job \<and> is_open x) (close_row (f_outcome f) (f_class f) (f_message f) now) d2 = Inr d3"
      "jobs d' = jobs d3"
      using assms(2) Some rp by (cases ?dead) (auto simp: report_failure_def result_simps Let_def)
    have "jobs_wf d1" using update_jobs_wf [OF assms(1) u(1)] by simp
    then have "jobs_wf d2" using u(2) cancel_descendants_wf by (cases ?dead) auto
    moreover have "jobs d' = jobs d2" using u(3,4) by (auto simp: update_execs_Inr_iff)
    ultimately show ?thesis using jobs_wf_same by metis
  qed
qed

lemma report_snooze_wf:
  assumes "jobs_wf d" and "report_snooze exec delay now job fence d = Inr (r, d')"
  shows "jobs_wf d'"
proof (cases "r")
  case None
  with assms show ?thesis
    by (auto simp: report_snooze_def result_simps Let_def split: option.splits)
next
  case (Some q)
  from report_snooze_Some [OF assms(2) [unfolded Some]] obtain rp where
    "\<forall>k \<in> set (jobs d). snoozable job fence d k \<longrightarrow> write_ok k (snooze_row rp delay now k)"
    "jobs d' = map (\<lambda>k. if snoozable job fence d k then snooze_row rp delay now k else k) (jobs d)" by blast
  from jobs_wf_map [OF assms(1) this(2,1)] show ?thesis by simp
qed

lemma start_sql_wf:
  assumes "jobs_wf d" and "start_sql w xid now job fence d = Inr (r, d')"
  shows "jobs_wf d'"
proof (cases r)
  case None
  with assms show ?thesis
    by (auto simp: start_sql_def result_simps Let_def split: option.splits if_splits)
next
  case (Some e)
  from start_sql_Some [OF assms(2) [unfolded Some]] have
    "\<forall>k \<in> set (jobs d). startable job fence k \<longrightarrow> write_ok k (start_row now k)"
    "jobs d' = map (\<lambda>k. if startable job fence k then start_row now k else k) (jobs d)" by auto
  from jobs_wf_map [OF assms(1) this(2,1)] show ?thesis by simp
qed

end
