(* ===== verification/Lease.thy ===== *)
theory Lease
  imports Fencing
begin

text \<open>
  What a worker does between the start and the end of an execution: \<open>src/internal/jobs/lease.go\<close> (extending the
  lease, probing a token that was refused, closing an execution, writing logs) and the failure digest query
  of \<open>failures.go\<close>.
\<close>

section \<open>Extending a lease\<close>

text \<open>\<open>least\<close> ignores nulls.\<close>

definition least_opt :: "timestamptz \<Rightarrow> timestamptz option \<Rightarrow> timestamptz" where
  "least_opt t u = (case u of None \<Rightarrow> t | Some v \<Rightarrow> min t v)"

definition extend_row :: "interval \<Rightarrow> string option \<Rightarrow> timestamptz \<Rightarrow> job \<Rightarrow> lease \<Rightarrow> lease" where
  "extend_row lease progress now j l =
     l\<lparr>l_expires_at := least_opt (now + lease) (j_deadline_at j),
       l_progress := (case progress of None \<Rightarrow> l_progress l | Some p \<Rightarrow> Some p), l_updated_at := now\<rparr>"

text \<open>\<open>extendSQL\<close>, with the number of rows it affected.\<close>

definition extend_sql :: "interval \<Rightarrow> string option \<Rightarrow> timestamptz \<Rightarrow> uuid \<Rightarrow> nat \<Rightarrow> nat tx" where
  "extend_sql lease progress now job fence d =
    (case find (reportable job fence) (jobs d) of
       None \<Rightarrow> Inr (0, d)
     | Some j \<Rightarrow> Inr (count_where (\<lambda>l. l_job_id l = job) (job_leases d),
                 d\<lparr>job_leases := update_where (\<lambda>l. l_job_id l = job) (extend_row lease progress now j) (job_leases d)\<rparr>))"

definition ExtendLease :: "fate \<Rightarrow> timestamptz \<Rightarrow> uuid \<Rightarrow> nat \<Rightarrow> interval \<Rightarrow> string \<Rightarrow> db \<Rightarrow> (go_error + bool) \<times> db" where
  "ExtendLease fate now job fence lease progress d =
     (let p = (if length progress > 0 then Some progress else None)
      in case run_tx fate (extend_sql lease p now job fence) d of
           (Inl e, d') \<Rightarrow> (Inl e, d')
         | (Inr n, d') \<Rightarrow> (Inr (n = 1), d'))"

section \<open>Probing a refused token\<close>

datatype Status = StatusFenced | StatusCancelled | StatusTimeout | StatusLive

definition probe_sql :: "timestamptz \<Rightarrow> uuid \<Rightarrow> (nat \<times> job_status \<times> bool) option tx" where
  "probe_sql now job d =
     Inr (map_option (\<lambda>j. (j_fence j, j_status j, (case j_deadline_at j of None \<Rightarrow> False | Some t \<Rightarrow> t < now))) (job_of d job), d)"

definition violation_sql :: "timestamptz \<Rightarrow> uuid \<Rightarrow> uuid \<Rightarrow> nat \<Rightarrow> nat option \<Rightarrow> job_status option \<Rightarrow> unit tx" where
  "violation_sql now job worker held actual_fence actual_status d =
     Inr ((), d\<lparr>job_fence_violations := job_fence_violations d @
       [\<lparr>v_job_id = job, v_worker_id = worker, v_held_fence = held, v_actual_fence = actual_fence,
         v_actual_status = actual_status, v_noticed_at = now\<rparr>]\<rparr>)"

text \<open>
  \<open>violation\<close> returns only an error; \<open>Probe\<close> returns its status beside that error, and its caller looks at
  the error first.
\<close>

definition violation :: "fate \<Rightarrow> timestamptz \<Rightarrow> uuid \<Rightarrow> uuid \<Rightarrow> nat \<Rightarrow> nat option \<Rightarrow> job_status option \<Rightarrow> db \<Rightarrow> go_error option \<times> db" where
  "violation fate now job worker held actual_fence actual_status d =
    (case run_tx fate (violation_sql now job worker held actual_fence actual_status) d of
       (Inl e, d') \<Rightarrow> (Some e, d') | (Inr _, d') \<Rightarrow> (None, d'))"

definition Probe :: "fate \<Rightarrow> fate \<Rightarrow> timestamptz \<Rightarrow> uuid \<Rightarrow> nat \<Rightarrow> uuid \<Rightarrow> db \<Rightarrow> (Status option \<times> go_error option) \<times> db" where
  "Probe read note now job fence worker d =
    (case scan_row (run_tx read (probe_sql now job) d) of
       (Inl ErrNoRows, d1) \<Rightarrow>
         (case violation note now job worker fence None None d1 of (e, d2) \<Rightarrow> ((Some StatusFenced, e), d2))
     | (Inl e, d1) \<Rightarrow> ((None, Some e), d1)
     | (Inr (curFence, status, pastDeadline), d1) \<Rightarrow>
         if curFence \<noteq> fence then
           (case violation note now job worker fence (Some curFence) (Some status) d1 of (e, d2) \<Rightarrow> ((Some StatusFenced, e), d2))
         else if status = Claimed \<or> status = Running then ((Some StatusLive, None), d1)
         else if status = Cancelled then ((Some StatusCancelled, None), d1)
         else if pastDeadline then ((Some StatusTimeout, None), d1)
         else (case violation note now job worker fence (Some curFence) (Some status) d1 of (e, d2) \<Rightarrow> ((Some StatusFenced, e), d2)))"

section \<open>Closing an execution\<close>

fun execOutcome :: "Status \<Rightarrow> exec_outcome option" where
  "execOutcome StatusCancelled = Some X_cancelled"
| "execOutcome StatusFenced = Some X_fenced"
| "execOutcome StatusTimeout = Some X_timeout"
| "execOutcome StatusLive = None"

definition close_exec_sql :: "uuid \<Rightarrow> exec_outcome \<Rightarrow> string option \<Rightarrow> string option \<Rightarrow> timestamptz \<Rightarrow> unit tx" where
  "close_exec_sql exec outcome cls msg now d =
     rbind (update_execs (\<lambda>x. x_id x = exec \<and> is_open x) (close_row outcome cls msg now) d) (\<lambda>d1. Inr ((), d1))"

definition CloseExecution :: "fate \<Rightarrow> timestamptz \<Rightarrow> uuid \<Rightarrow> Status \<Rightarrow> db \<Rightarrow> go_error option \<times> db" where
  "CloseExecution fate now exec st d =
    (case execOutcome st of
       None \<Rightarrow> (None, d)
     | Some outcome \<Rightarrow>
        (case run_tx fate (close_exec_sql exec outcome None None now) d of
           (Inl e, d') \<Rightarrow> (Some e, d') | (Inr _, d') \<Rightarrow> (None, d')))"

section \<open>Logs\<close>

record LogLine =
  ll_Level :: string
  ll_Message :: string

definition log_level_ok :: "string \<Rightarrow> bool" where
  "log_level_ok l \<longleftrightarrow> l \<in> {''debug'', ''info'', ''warn'', ''error''}"

definition append_logs_sql :: "timestamptz \<Rightarrow> uuid \<Rightarrow> LogLine list \<Rightarrow> unit tx" where
  "append_logs_sql now exec lines d =
     (if \<forall>l \<in> set lines. log_level_ok (ll_Level l)
      then Inr ((), d\<lparr>job_logs := job_logs d @
        map (\<lambda>l. \<lparr>g_execution_id = exec, g_ts = now, g_level = ll_Level l, g_message = ll_Message l\<rparr>) lines\<rparr>)
      else Inl check_violation)"

definition AppendLogs :: "fate \<Rightarrow> timestamptz \<Rightarrow> uuid \<Rightarrow> LogLine list \<Rightarrow> db \<Rightarrow> go_error option \<times> db" where
  "AppendLogs fate now exec lines d =
    (case run_tx fate (append_logs_sql now exec lines) d of
       (Inl e, d') \<Rightarrow> (Some e, d') | (Inr _, d') \<Rightarrow> (None, d'))"

section \<open>Failures of a queue\<close>

record Failure =
  fl_Class :: string
  fl_Count :: nat
  fl_Variants :: nat
  fl_Sample :: string
  fl_First :: timestamptz
  fl_Last :: timestamptz

definition FailureWindow :: int where
  "FailureWindow = 24"

definition failed_outcome :: "exec_outcome option \<Rightarrow> bool" where
  "failed_outcome oc \<longleftrightarrow> oc \<in> {Some X_retryable_error, Some X_permanent_error, Some X_timeout, Some X_lost}"

definition failure_rows :: "timestamptz \<Rightarrow> uuid \<Rightarrow> int \<Rightarrow> db \<Rightarrow> execution list" where
  "failure_rows now queue hours d =
     filter (\<lambda>x. x_queue_id x = queue \<and> failed_outcome (x_outcome x) \<and>
              (case x_finished_at x of None \<Rightarrow> False | Some t \<Rightarrow> now - hours * 3600000000 \<le> t)) (job_executions d)"

definition error_class_of :: "execution \<Rightarrow> string" where
  "error_class_of x = coalesce (x_error_class x) ''unknown''"

text \<open>One group: \<open>count(distinct ...)\<close> skips nulls; the sample is the message of the latest row.\<close>

definition failure_group :: "execution list \<Rightarrow> string \<Rightarrow> Failure" where
  "failure_group xs c =
     (let g = filter (\<lambda>x. error_class_of x = c) xs; ts = map (\<lambda>x. the (x_finished_at x)) g
      in \<lparr>fl_Class = c, fl_Count = length g,
          fl_Variants = length (remdups (filter (\<lambda>m. m \<noteq> None) (map x_error_message g))),
          fl_Sample = coalesce (x_error_message (hd (sort_key (\<lambda>x. - the (x_finished_at x)) g))) [],
          fl_First = Min (set ts), fl_Last = Max (set ts)\<rparr>)"

text \<open>\<open>order by 2 desc, 1 limit $3\<close>; \<open>by_class\<close> is the order of the classes under the database's collation.\<close>

definition Failures :: "(string \<Rightarrow> nat) \<Rightarrow> timestamptz \<Rightarrow> uuid \<Rightarrow> int \<Rightarrow> nat \<Rightarrow> db \<Rightarrow> Failure list" where
  "Failures by_class now queue hours limit d =
     (let xs = failure_rows now queue hours d
      in order_limit (\<lambda>g. (- int (fl_Count g), by_class (fl_Class g))) limit
           (map (failure_group xs) (remdups (map error_class_of xs))))"

section \<open>Stale tokens\<close>

lemma extend_stale:
  "find (reportable job fence) (jobs d) = None \<Longrightarrow> extend_sql lease p now job fence d = Inr (0, d)"
  by (simp add: extend_sql_def)

text \<open>Extension as a fenced write: a row affected is an effect.\<close>

interpretation extension: fenced_write
  "\<lambda>(lease, p, now) job fence d. rbind (extend_sql lease p now job fence d) (\<lambda>(n, d'). Inr (if n = 0 then None else Some n, d'))"
  "\<lambda>job fence j d. reportable job fence j"
proof unfold_locales
  fix d :: db and job fence and p :: "interval \<times> string option \<times> timestamptz"
  assume "\<And>j. j \<in> set (jobs d) \<Longrightarrow> \<not> reportable job fence j"
  then have "find (reportable job fence) (jobs d) = None" by (auto simp: find_None_iff)
  then show "(case p of (lease, p, now) \<Rightarrow> \<lambda>job fence d. rbind (extend_sql lease p now job fence d)
      (\<lambda>(n, d'). Inr (if n = 0 then None else Some n, d'))) job fence d = Inr (None, d)"
    by (simp add: extend_sql_def split: prod.split)
next
  fix job fence j and d :: db
  assume "reportable job fence j"
  then show "j_id j = job \<and> j_fence j = fence \<and> active (j_status j)" by (auto simp: reportable_def)
qed



text \<open>
  A live token extends its lease to one lease duration from now, but never past the job's deadline; the
  call reports success exactly when there was one lease row, keeps progress when none is sent, and
  changes nothing but that lease: in particular neither the job nor its fence.
\<close>

theorem extend_within_deadline:
  assumes "jobs_wf d" and "distinct (map l_job_id (job_leases d))"
    and "job_of d job = Some j" and "j_status j = Running" and "lease_of d job = Some l"
  shows "\<exists>d' l'. ExtendLease Runs now job (j_fence j) lease progress d = (Inr True, d') \<and>
    d' = d\<lparr>job_leases := job_leases d'\<rparr> \<and> lease_of d' job = Some l' \<and> l_fence l' = l_fence l \<and>
    l_worker_id l' = l_worker_id l \<and> l_expires_at l' \<le> now + lease \<and>
    (\<forall>t. j_deadline_at j = Some t \<longrightarrow> l_expires_at l' = min (now + lease) t) \<and>
    (progress = [] \<longrightarrow> l_progress l' = l_progress l) \<and> (progress \<noteq> [] \<longrightarrow> l_progress l' = Some progress) \<and>
    (\<forall>i. i \<noteq> job \<longrightarrow> lease_of d' i = lease_of d i)"
proof -
  let ?p = "if length progress > 0 then Some progress else None"
  let ?d' = "d\<lparr>job_leases := update_where (\<lambda>l. l_job_id l = job) (extend_row lease ?p now j) (job_leases d)\<rparr>"
  have "j_id j = job" using assms(3) by (auto dest: lookup_row_SomeD)
  then have "find (reportable job (j_fence j)) (jobs d) = Some j"
    using assms(4) by (intro find_job [OF assms(1,3)]) (auto simp: reportable_def)
  moreover have "count_where (\<lambda>l. l_job_id l = job) (job_leases d) = 1"
    using count_where_key_one [OF assms(2), of l job "\<lambda>_. True"] lookup_row_SomeD [OF assms(5)] by simp
  ultimately have run: "ExtendLease Runs now job (j_fence j) lease progress d = (Inr True, ?d')"
    by (simp add: ExtendLease_def extend_sql_def run_tx_def)
  have key: "l_job_id l = job" using assms(5) by (auto dest: lookup_row_SomeD)
  have here: "lease_of ?d' job = Some (extend_row lease ?p now j l)"
    using assms(5) key by (simp add: lookup_row_update extend_row_def)
  have "lease_of ?d' i = lease_of d i" if "i \<noteq> job" for i
    using that by (auto simp: lookup_row_update extend_row_def map_option_case split: option.splits dest: lookup_row_SomeD)
  then show ?thesis
    using run here
    by (intro exI [of _ ?d'] exI [of _ "extend_row lease ?p now j l"])
       (auto simp: extend_row_def least_opt_def split: option.splits)
qed

theorem extend_within_deadline_witness:
  "\<exists>d' l'. ExtendLease Runs sample_now 11 1 30000000 [] sample_db = (Inr True, d') \<and> lease_of d' 11 = Some l' \<and>
     l_expires_at l' \<le> sample_now + 30000000"
proof -
  have "distinct (map l_job_id (job_leases sample_db))" "lease_of sample_db 11 = Some sample_lease"
    by (simp_all add: sample_defs)
  from extend_within_deadline [OF sample_jobs_wf this(1) sample_running_row(1,3) this(2), of sample_now 30000000 "[]"]
  show ?thesis by (auto simp: sample_running_row(7))
qed

section \<open>Probes\<close>

lemma violation_Runs:
  "violation Runs now job worker held af st d =
    (None, d\<lparr>job_fence_violations := job_fence_violations d @
       [\<lparr>v_job_id = job, v_worker_id = worker, v_held_fence = held, v_actual_fence = af, v_actual_status = st,
         v_noticed_at = now\<rparr>]\<rparr>)"
  by (simp add: violation_def violation_sql_def run_tx_def)

text \<open>
  A probe classifies a refused token completely: it is live exactly when the job still carries the worker's
  fence and is claimed or running; cancelled when it carries the fence and was cancelled; timed out when it
  carries the fence, left the running states otherwise and its deadline has passed; fenced in every other
  case, a deleted job included. A fence violation is recorded exactly in the fenced cases, with what the
  worker held and what the job has, and nothing else changes.
\<close>

theorem probe_classifies:
  "\<exists>st. Probe Runs Runs now job fence worker d = ((Some st, None),
     if st = StatusFenced then d\<lparr>job_fence_violations := job_fence_violations d @
       [\<lparr>v_job_id = job, v_worker_id = worker, v_held_fence = fence,
         v_actual_fence = map_option j_fence (job_of d job), v_actual_status = map_option j_status (job_of d job),
         v_noticed_at = now\<rparr>]\<rparr> else d) \<and>
    (st = StatusLive \<longleftrightarrow> (\<exists>j. job_of d job = Some j \<and> j_fence j = fence \<and> active (j_status j))) \<and>
    (st = StatusCancelled \<longleftrightarrow> (\<exists>j. job_of d job = Some j \<and> j_fence j = fence \<and> j_status j = Cancelled)) \<and>
    (st = StatusTimeout \<longleftrightarrow> (\<exists>j t. job_of d job = Some j \<and> j_fence j = fence \<and> \<not> active (j_status j) \<and>
       j_status j \<noteq> Cancelled \<and> j_deadline_at j = Some t \<and> t < now))"
proof (cases "job_of d job")
  case None
  then show ?thesis
    by (intro exI [of _ StatusFenced]) (simp add: Probe_def probe_sql_def scan_row_def run_tx_def violation_Runs)
next
  case (Some j)
  let ?st = "if j_fence j \<noteq> fence then StatusFenced else if active (j_status j) then StatusLive
     else if j_status j = Cancelled then StatusCancelled
     else if (case j_deadline_at j of None \<Rightarrow> False | Some t \<Rightarrow> t < now) then StatusTimeout else StatusFenced"
  have "active (j_status j) \<longleftrightarrow> j_status j = Claimed \<or> j_status j = Running" by (auto simp: active_def)
  then show ?thesis
    using Some by (intro exI [of _ ?st])
      (auto simp: Probe_def probe_sql_def scan_row_def run_tx_def violation_Runs split: option.splits)
qed

text \<open>
  The failure digest of a queue loses no failure: without a limit the counts of its groups add up to the
  number of failed executions finished in the window, no class appears twice, and the groups come in
  descending order of count.
\<close>

theorem failures_complete:
  assumes "length (remdups (map error_class_of (failure_rows now queue hours d))) \<le> limit"
  shows "sum_list (map fl_Count (Failures by_class now queue hours limit d)) = length (failure_rows now queue hours d) \<and>
    distinct (map fl_Class (Failures by_class now queue hours limit d)) \<and>
    sorted_wrt (\<ge>) (map fl_Count (Failures by_class now queue hours limit d))"
proof -
  let ?xs = "failure_rows now queue hours d" and ?key = "\<lambda>g. (- int (fl_Count g), by_class (fl_Class g))"
  let ?cs = "remdups (map error_class_of ?xs)"
  let ?gs = "map (failure_group ?xs) ?cs"
  have F: "Failures by_class now queue hours limit d = sort_key ?key ?gs"
    using assms by (simp add: Failures_def Let_def order_limit_def)
  have "sum_list (map fl_Count (sort_key ?key ?gs)) = sum_list (map fl_Count ?gs)"
    by (rule sum_list_sort_key)
  also have "\<dots> = (\<Sum>c \<in> set ?cs. length (filter (\<lambda>x. error_class_of x = c) ?xs))"
    by (simp add: failure_group_def Let_def comp_def sum_list_distinct_conv_sum_set)
  also have "\<dots> = length ?xs" using sum_groups [of error_class_of ?xs] by simp
  finally have "sum_list (map fl_Count (sort_key ?key ?gs)) = length ?xs" .
  moreover have "distinct (map fl_Class (sort_key ?key ?gs))"
  proof -
    have "map fl_Class ?gs = ?cs" by (simp add: failure_group_def Let_def comp_def)
    then have "distinct (map fl_Class ?gs)" by simp
    then show ?thesis by (rule distinct_map_sort_key)
  qed
  moreover have "sorted_wrt (\<ge>) (map fl_Count (sort_key ?key ?gs))"
  proof -
    have "sorted_wrt (\<lambda>a b. ?key a \<le> ?key b) (sort_key ?key ?gs)"
      using sorted_sort_key [of ?key ?gs] by (simp add: sorted_map)
    then show ?thesis unfolding sorted_wrt_map by (rule sorted_wrt_mono_rel [rotated]) (auto simp: less_eq_prod_def)
  qed
  ultimately show ?thesis by (simp add: F)
qed

theorem failures_complete_witness:
  "sum_list (map fl_Count (Failures length 0 7 24 20 sample_db)) = length (failure_rows 0 7 24 sample_db)"
  using failures_complete [of 0 7 24 sample_db 20 length] by (simp add: failure_rows_def failed_outcome_def sample_defs)

end
