(* ===== verification/Reaper.thy ===== *)
theory Reaper
  imports Lease
begin

text \<open>
  Recovery from workers that died: \<open>src/internal/scheduler/reaper.go\<close>. \<open>Reap\<close> selects the active jobs whose
  lease has expired and reports each as lost, one transaction per job; \<open>SweepOrphanExecutions\<close> closes
  executions left open by jobs that are no longer active.

  The environment of a call is a function: for each statement its fate, what the rest of the system did
  before it ran, and the clock and the random draw it saw.
\<close>

record stmt_env =
  se_fate :: fate
  se_before :: "db \<Rightarrow> db"
  se_now :: timestamptz
  se_jit :: "bool \<times> rat"

definition quiet_stmt :: "timestamptz \<Rightarrow> stmt_env" where
  "quiet_stmt now = \<lparr>se_fate = Runs, se_before = id, se_now = now, se_jit = (False, 0)\<rparr>"

section \<open>Reap\<close>

definition expired_sql :: "nat \<Rightarrow> timestamptz \<Rightarrow> uuid list tx" where
  "expired_sql limit now d =
     Inr (map l_job_id (order_limit l_expires_at limit
            (filter (\<lambda>l. l_expires_at l < now \<and>
                (\<exists>j \<in> set (jobs d). j_id j = l_job_id l \<and> active (j_status j))) (job_leases d))), d)"

definition lost_failure :: failure where
  "lost_failure = \<lparr>f_outcome = X_lost, f_class = None, f_message = None, f_permanent = False\<rparr>"

definition report_lost :: "stmt_env \<Rightarrow> uuid \<Rightarrow> db \<Rightarrow> (go_error + uuid) \<times> db" where
  "report_lost env job d =
     scan_row (run_tx (se_fate env) (report_failure lost_failure (se_jit env) (se_now env) job None) (se_before env d))"

fun reap_loop :: "(nat \<Rightarrow> stmt_env) \<Rightarrow> nat \<Rightarrow> uuid list \<Rightarrow> nat \<Rightarrow> db \<Rightarrow> (nat \<times> go_error option) \<times> db" where
  "reap_loop env i [] reaped d = ((reaped, None), d)"
| "reap_loop env i (job # rest) reaped d =
    (case report_lost (env i) job d of
       (Inl e, d1) \<Rightarrow> if e = ErrNoRows then reap_loop env (Suc i) rest reaped d1 else ((reaped, Some e), d1)
     | (Inr _, d1) \<Rightarrow> reap_loop env (Suc i) rest (Suc reaped) d1)"

definition Reap :: "(nat \<Rightarrow> stmt_env) \<Rightarrow> nat \<Rightarrow> db \<Rightarrow> (nat \<times> go_error option) \<times> db" where
  "Reap env limit d =
    (case run_tx (se_fate (env 0)) (expired_sql limit (se_now (env 0))) (se_before (env 0) d) of
       (Inl e, d1) \<Rightarrow> ((0, Some e), d1)
     | (Inr ids, d1) \<Rightarrow> reap_loop env 1 ids 0 d1)"

section \<open>Orphan executions\<close>

text \<open>The subquery has no order; the model takes the first rows of the table.\<close>

definition orphan :: "timestamptz \<Rightarrow> db \<Rightarrow> execution \<Rightarrow> bool" where
  "orphan now d x \<longleftrightarrow> is_open x \<and>
     (\<exists>j \<in> set (jobs d). j_id j = x_job_id x \<and> \<not> active (j_status j) \<and>
        x_started_at x < now - max (j_timeout_ms j * 1000) 60000000 * 2)"

definition sweep_sql :: "nat \<Rightarrow> timestamptz \<Rightarrow> nat tx" where
  "sweep_sql limit now d =
     (let ids = map x_id (take limit (filter (orphan now d) (job_executions d)))
      in rbind (update_execs (\<lambda>x. x_id x \<in> set ids) (close_plain X_lost now) d) (\<lambda>d1. Inr (length ids, d1)))"

definition SweepOrphanExecutions :: "stmt_env \<Rightarrow> nat \<Rightarrow> db \<Rightarrow> (go_error + nat) \<times> db" where
  "SweepOrphanExecutions env limit d = run_tx (se_fate env) (sweep_sql limit (se_now env)) (se_before env d)"

section \<open>One report of the reaper\<close>

definition policies_exist :: "db \<Rightarrow> bool" where
  "policies_exist d \<longleftrightarrow> (\<forall>j \<in> set (jobs d). policy_of d (j_retry_policy_id j) \<noteq> None)"

lemma failure_row_inactive:
  "\<not> active (j_status j) \<Longrightarrow> \<not> active (j_status (failure_row job f rp p jit now dead d j))"
  by (auto simp: failure_row_def failable_def)

lemma failure_row_other:
  assumes "active (j_status j)" and "j_id j \<noteq> job"
  shows "failure_row job f rp p jit now dead d j = j"
  using assms by (auto simp: failure_row_def failable_def cancellable_below_def)

lemma failure_row_cols [simp]:
  "j_retry_policy_id (failure_row job f rp p jit now dead d j) = j_retry_policy_id j"
  "j_created_at (failure_row job f rp p jit now dead d j) = j_created_at j"
  by (simp_all add: failure_row_def fail_row_def cancel_row_def)

text \<open>
  Reporting an active job lost: it leaves the active states, no other active job is touched, its lease goes,
  and the tables stay well-formed.
\<close>

lemma report_lost_active:
  assumes "tables_wf now d" and "policies_exist d" and "job_of d job = Some j" and "active (j_status j)"
  shows "\<exists>d'. report_failure lost_failure jit now job None d = Inr (Some (j_queue_id j), d') \<and>
    tables_wf now d' \<and> policies_exist d' \<and> map j_id (jobs d') = map j_id (jobs d) \<and>
    (\<forall>k \<in> set (jobs d). \<exists>k'. job_of d' (j_id k) = Some k' \<and>
       (if j_id k = job then j_status k' \<in> {Retry_wait, Dead_letter}
        else if active (j_status k) then k' = k else \<not> active (j_status k'))) \<and>
    job_leases d' = delete_where (\<lambda>l. l_job_id l = job) (job_leases d)"
proof -
  note wf = tables_wfD [OF assms(1)]
  let ?P = "failable job None d"
  have j: "j \<in> set (jobs d)" "j_id j = job" using assms(3) by (auto dest: lookup_row_SomeD)
  obtain rp where rp: "policy_of d (j_retry_policy_id j) = Some rp"
    using assms(2) j(1) by (auto simp: policies_exist_def)
  have Pj: "?P j" using assms(4) j(2) rp by (simp add: failable_def)
  have found: "find ?P (jobs d) = Some j" using wf(1) assms(3) Pj by (rule find_job) (simp add: failable_def)
  let ?g = "failure_row job None rp (f_permanent lost_failure) jit now (exhausted (f_permanent lost_failure) rp j) d"
  from report_failure_eq [OF wf(1-4) found rp, of lost_failure jit] obtain d' where
    run: "report_failure lost_failure jit now job None d = Inr (Some (j_queue_id j), d')"
    and rows: "jobs d' = map ?g (jobs d)"
    and execs: "job_executions d' = update_where (\<lambda>x. x_job_id x = job \<and> is_open x)
      (close_row (f_outcome lost_failure) (f_class lost_failure) (f_message lost_failure) now) (job_executions d)"
    and leases: "job_leases d' = delete_where (\<lambda>l. l_job_id l = job) (job_leases d)"
    and pol: "retry_policies d' = retry_policies d" and deps: "job_dependencies d' = job_dependencies d"
    by - (elim exE conjE, rule that; assumption)
  have ids: "map j_id (jobs d') = map j_id (jobs d)" by (simp add: rows comp_def)
  have wf': "jobs_wf d'" using report_failure_wf [OF wf(1) run] .
  have "execs_wf d'"
    using wf(2) close_ok(1) [OF wf(2,3)] unfolding execs_wf_def execs
    by (auto simp: map_update_where in_update_where_iff)
  moreover have "clock_ok now d'"
    using wf(3) unfolding clock_ok_def execs rows by (auto simp: in_update_where_iff)
  moreover have "distinct (map l_job_id (job_leases d'))" using wf(5) leases by (simp add: distinct_delete_where)
  ultimately have tw: "tables_wf now d'" using wf' wf(4) deps by (simp add: tables_wf_def deps_ok_def)
  have pe: "policies_exist d'" using assms(2) by (auto simp: policies_exist_def rows pol)
  have "\<exists>k'. job_of d' (j_id k) = Some k' \<and>
       (if j_id k = job then j_status k' \<in> {Retry_wait, Dead_letter}
        else if active (j_status k) then k' = k else \<not> active (j_status k'))" if "k \<in> set (jobs d)" for k
  proof -
    have "job_of d (j_id k) = Some k" using that jobs_wfD(3) [OF wf(1)] by blast
    then have "job_of d' (j_id k) = Some (?g k)" unfolding rows by (simp add: lookup_map)
    moreover have "j_status (?g k) \<in> {Retry_wait, Dead_letter}" if "j_id k = job"
      using that jobs_wfD(4) [OF wf(1) \<open>k \<in> set (jobs d)\<close> j(1)] j(2) Pj by (simp add: failure_row_def)
    ultimately show ?thesis using failure_row_inactive [of k] failure_row_other [of k job] by simp
  qed
  then show ?thesis using run tw pe ids leases by blast
qed

section \<open>A reap on a quiet database\<close>

text \<open>
  \<open>lost_rows ids d d'\<close>: the active jobs named in \<open>ids\<close> have left the active states, the other active jobs have
  their rows unchanged, and no job became active.
\<close>

definition lost_rows :: "uuid set \<Rightarrow> db \<Rightarrow> db \<Rightarrow> bool" where
  "lost_rows ids d d' \<longleftrightarrow> map j_id (jobs d') = map j_id (jobs d) \<and>
     (\<forall>k \<in> set (jobs d). \<exists>k'. job_of d' (j_id k) = Some k' \<and>
        (if active (j_status k) \<and> j_id k \<notin> ids then k' = k else \<not> active (j_status k')))"

lemma lost_rows_refl: "jobs_wf d \<Longrightarrow> lost_rows {} d d"
  by (auto simp: lost_rows_def jobs_wfD(3))

lemma lost_rows_trans:
  assumes "jobs_wf d1" and "lost_rows A d d1" and "lost_rows B d1 d'"
  shows "lost_rows (A \<union> B) d d'"
  unfolding lost_rows_def
proof (intro conjI ballI)
  show "map j_id (jobs d') = map j_id (jobs d)" using assms(2,3) by (simp add: lost_rows_def)
  fix k assume "k \<in> set (jobs d)"
  then obtain k1 where k1: "job_of d1 (j_id k) = Some k1"
    "if active (j_status k) \<and> j_id k \<notin> A then k1 = k else \<not> active (j_status k1)"
    using assms(2) unfolding lost_rows_def by blast
  then have "k1 \<in> set (jobs d1)" "j_id k1 = j_id k" by (auto dest: lookup_row_SomeD)
  then obtain k' where "job_of d' (j_id k) = Some k'"
    "if active (j_status k1) \<and> j_id k \<notin> B then k' = k1 else \<not> active (j_status k')"
    using assms(3) unfolding lost_rows_def by metis
  with k1 show "\<exists>k'. job_of d' (j_id k) = Some k' \<and>
      (if active (j_status k) \<and> j_id k \<notin> A \<union> B then k' = k else \<not> active (j_status k'))"
    by (auto split: if_splits)
qed

lemma report_lost_rows:
  assumes "tables_wf now d" and "policies_exist d" and "job_of d job = Some j" and "active (j_status j)"
  shows "\<exists>d'. report_failure lost_failure jit now job None d = Inr (Some (j_queue_id j), d') \<and>
    tables_wf now d' \<and> policies_exist d' \<and> lost_rows {job} d d' \<and>
    job_leases d' = delete_where (\<lambda>l. l_job_id l = job) (job_leases d)"
proof -
  from report_lost_active [OF assms, of jit] obtain d' where
    run: "report_failure lost_failure jit now job None d = Inr (Some (j_queue_id j), d')"
    and tw: "tables_wf now d'" "policies_exist d'" "map j_id (jobs d') = map j_id (jobs d)"
    and rows: "\<forall>k \<in> set (jobs d). \<exists>k'. job_of d' (j_id k) = Some k' \<and>
       (if j_id k = job then j_status k' \<in> {Retry_wait, Dead_letter}
        else if active (j_status k) then k' = k else \<not> active (j_status k'))"
    and l: "job_leases d' = delete_where (\<lambda>l. l_job_id l = job) (job_leases d)"
    by - (elim exE conjE, rule that; assumption)
  have "\<exists>k'. job_of d' (j_id k) = Some k' \<and> (if active (j_status k) \<and> j_id k \<notin> {job} then k' = k else \<not> active (j_status k'))"
    if "k \<in> set (jobs d)" for k
    using rows [rule_format, OF that] by (auto split: if_splits)
  then have "lost_rows {job} d d'" using tw(3) by (simp add: lost_rows_def)
  with run tw l show ?thesis by blast
qed

text \<open>The loop over distinct active jobs reports every one of them and touches no other active job.\<close>

lemma reap_loop_quiet:
  assumes "tables_wf now d" and "policies_exist d" and "distinct ids"
    and "\<forall>i \<in> set ids. \<exists>j. job_of d i = Some j \<and> active (j_status j)" and env: "env = (\<lambda>_. quiet_stmt now)"
  shows "\<exists>d'. reap_loop env m ids r d = ((r + length ids, None), d') \<and> tables_wf now d' \<and>
    lost_rows (set ids) d d' \<and> job_leases d' = delete_where (\<lambda>l. l_job_id l \<in> set ids) (job_leases d)"
  using assms(1-4)
proof (induction ids arbitrary: m r d)
  case Nil
  then show ?case using lost_rows_refl [OF tables_wfD(1)] by (simp add: delete_where_none)
next
  case (Cons i ids)
  obtain j where j: "job_of d i = Some j" "active (j_status j)" using Cons.prems(4) by auto
  from report_lost_rows [OF Cons.prems(1,2) j, of "(False, 0)"] obtain d1 where
    run: "report_failure lost_failure (False, 0) now i None d = Inr (Some (j_queue_id j), d1)"
    and tw: "tables_wf now d1" and pe: "policies_exist d1" and rows1: "lost_rows {i} d d1"
    and l1: "job_leases d1 = delete_where (\<lambda>l. l_job_id l = i) (job_leases d)"
    by - (elim exE conjE, rule that; assumption)
  have act1: "\<forall>a \<in> set ids. \<exists>k'. job_of d1 a = Some k' \<and> active (j_status k')"
  proof
    fix a assume a: "a \<in> set ids"
    then obtain k where k: "job_of d a = Some k" "active (j_status k)" using Cons.prems(4) by auto
    moreover have "a \<noteq> i" using Cons.prems(3) a by auto
    moreover have "k \<in> set (jobs d)" "j_id k = a" using k(1) by (auto dest: lookup_row_SomeD)
    ultimately show "\<exists>k'. job_of d1 a = Some k' \<and> active (j_status k')"
      using rows1 unfolding lost_rows_def by (metis singletonD)
  qed
  have "distinct ids" using Cons.prems(3) by simp
  from Cons.IH [OF tw pe this act1, of "Suc m" "Suc r"] obtain d' where
    loop: "reap_loop env (Suc m) ids (Suc r) d1 = ((Suc r + length ids, None), d')"
    and tw': "tables_wf now d'" and rows': "lost_rows (set ids) d1 d'"
    and l': "job_leases d' = delete_where (\<lambda>l. l_job_id l \<in> set ids) (job_leases d1)"
    by - (elim exE conjE, rule that; assumption)
  have step: "report_lost (env m) i d = (Inr (j_queue_id j), d1)"
    using run by (simp add: report_lost_def env quiet_stmt_def scan_row_def)
  have "job_leases d' = delete_where (\<lambda>l. l_job_id l \<in> set (i # ids)) (job_leases d)"
    by (simp add: l' l1 delete_where_def conj_commute)
  moreover have "lost_rows (set (i # ids)) d d'"
    using lost_rows_trans [OF tables_wfD(1) [OF tw] rows1 rows'] by simp
  ultimately show ?case using loop tw' step by simp
qed

lemma reap_quiet:
  assumes "tables_wf now d" and "policies_exist d"
  shows "\<exists>n d'. Reap (\<lambda>_. quiet_stmt now) limit d = ((n, None), d') \<and>
    n = min limit (count_where (\<lambda>l. l_expires_at l < now \<and>
       (\<exists>j \<in> set (jobs d). j_id j = l_job_id l \<and> active (j_status j))) (job_leases d)) \<and>
    (\<forall>k \<in> set (jobs d). \<exists>k'. job_of d' (j_id k) = Some k' \<and>
       (active (j_status k') \<longrightarrow> k' = k) \<and>
       (active (j_status k) \<longrightarrow> (\<forall>l. lease_of d (j_id k) = Some l \<longrightarrow> now \<le> l_expires_at l \<longrightarrow> k' = k)) \<and>
       (\<forall>l. active (j_status k) \<longrightarrow> lease_of d (j_id k) = Some l \<longrightarrow> l_expires_at l < now \<longrightarrow>
          length (job_leases d) \<le> limit \<longrightarrow> \<not> active (j_status k') \<and> lease_of d' (j_id k) = None))"
proof -
  note wf = tables_wfD [OF assms(1)]
  let ?hit = "\<lambda>l. l_expires_at l < now \<and> (\<exists>j \<in> set (jobs d). j_id j = l_job_id l \<and> active (j_status j))"
  let ?ls = "order_limit l_expires_at limit (filter ?hit (job_leases d))"
  let ?ids = "map l_job_id ?ls"
  have sub: "l \<in> set (job_leases d) \<and> ?hit l" if "l \<in> set ?ls" for l
    using that set_order_limit [of l_expires_at limit "filter ?hit (job_leases d)"] by auto
  have dist: "distinct ?ids" by (intro distinct_order_limit) (simp add: distinct_map_filter wf(5))
  have act: "\<forall>i \<in> set ?ids. \<exists>j. job_of d i = Some j \<and> active (j_status j)"
  proof
    fix i assume "i \<in> set ?ids"
    then obtain l where "l \<in> set ?ls" "i = l_job_id l" by (rule mem_mapE)
    then obtain j where "j \<in> set (jobs d)" "j_id j = i" "active (j_status j)" using sub by blast
    then show "\<exists>j. job_of d i = Some j \<and> active (j_status j)" using jobs_wfD(3) [OF wf(1)] by blast
  qed
  from reap_loop_quiet [OF assms dist act refl, where m = 1 and r = 0] obtain d' where
    loop: "reap_loop (\<lambda>_. quiet_stmt now) 1 ?ids 0 d = ((0 + length ?ids, None), d')"
    and rows: "lost_rows (set ?ids) d d'"
    and leases: "job_leases d' = delete_where (\<lambda>l. l_job_id l \<in> set ?ids) (job_leases d)"
    by - (elim exE conjE, rule that; assumption)
  have run: "Reap (\<lambda>_. quiet_stmt now) limit d = ((length ?ids, None), d')"
    using loop by (simp add: Reap_def quiet_stmt_def expired_sql_def)
  have lease_in: "l \<in> set (job_leases d) \<and> l_job_id l = i" if "lease_of d i = Some l" for l i
    using lookup_row_SomeD [OF that] .
  have valid: "j_id k \<notin> set ?ids" if "lease_of d (j_id k) = Some l" "now \<le> l_expires_at l" for k l
  proof
    assume "j_id k \<in> set ?ids"
    then obtain l1 where l1: "l1 \<in> set ?ls" "j_id k = l_job_id l1" by (rule mem_mapE)
    have "l_job_id l1 = l_job_id l" using l1(2) lease_in [OF that(1)] by (simp only:)
    with sub [OF l1(1)] lease_in [OF that(1)] have "l1 = l" by (blast intro: key_unique [OF wf(5)])
    with sub [OF l1(1)] that(2) show False by simp
  qed
  have all: "j_id k \<in> set ?ids" if "k \<in> set (jobs d)" "active (j_status k)" "lease_of d (j_id k) = Some l" "l_expires_at l < now"
    "length (job_leases d) \<le> limit" for k l
  proof -
    have "length (filter ?hit (job_leases d)) \<le> limit" using that(5) length_filter_le order_trans by blast
    then have "set ?ls = set (filter ?hit (job_leases d))" by (simp add: order_limit_def)
    moreover have l: "l \<in> set (job_leases d)" "l_job_id l = j_id k" using lease_in [OF that(3)] by blast+
    moreover have "?hit l" using that(1,2,4) l(2) by metis
    ultimately have "l \<in> set ?ls" by simp
    then have "l_job_id l \<in> set ?ids" by simp
    then show ?thesis unfolding l(2) .
  qed
  have gone: "lease_of d' i = None" if "i \<in> set ?ids" for i
    using that unfolding leases lookup_row_None_iff set_delete_where by blast
  show ?thesis
  proof (rule exI [of _ "length ?ids"], rule exI [of _ d'], intro conjI ballI)
    show "Reap (\<lambda>_. quiet_stmt now) limit d = ((length ?ids, None), d')" by (rule run)
    show "length ?ids = min limit (count_where ?hit (job_leases d))" by (simp add: count_where_def min.commute)
    fix k assume k: "k \<in> set (jobs d)"
    then obtain k' where k': "job_of d' (j_id k) = Some k'"
      "if active (j_status k) \<and> j_id k \<notin> set ?ids then k' = k else \<not> active (j_status k')"
      using rows unfolding lost_rows_def by blast
    show "\<exists>k'. job_of d' (j_id k) = Some k' \<and> (active (j_status k') \<longrightarrow> k' = k) \<and>
       (active (j_status k) \<longrightarrow> (\<forall>l. lease_of d (j_id k) = Some l \<longrightarrow> now \<le> l_expires_at l \<longrightarrow> k' = k)) \<and>
       (\<forall>l. active (j_status k) \<longrightarrow> lease_of d (j_id k) = Some l \<longrightarrow> l_expires_at l < now \<longrightarrow>
          length (job_leases d) \<le> limit \<longrightarrow> \<not> active (j_status k') \<and> lease_of d' (j_id k) = None)"
    proof (intro exI [of _ k'] conjI allI impI)
      show "job_of d' (j_id k) = Some k'" by (rule k')
      show "k' = k" if "active (j_status k')" using that k'(2) by (auto split: if_splits)
      show "k' = k" if "active (j_status k)" "lease_of d (j_id k) = Some l" "now \<le> l_expires_at l" for l
        using valid [OF that(2,3)] that(1) k'(2) by simp
      fix l assume h: "active (j_status k)" "lease_of d (j_id k) = Some l" "l_expires_at l < now" "length (job_leases d) \<le> limit"
      have "j_id k \<in> set ?ids" using all [OF k h] .
      then show "\<not> active (j_status k')" "lease_of d' (j_id k) = None" using k'(2) gone by auto
    qed
  qed
qed



text \<open>
  The reaper does not look at the lease again. If, after a job was selected as expired and before it is
  reported, its worker renewed the lease, or the job was lost, retried and claimed by another worker, the
  report still takes the job away from its present owner: it leaves the active states and the valid
  lease is deleted.
\<close>

theorem reap_ignores_renewal:
  assumes "tables_wf now (se_before (env i) d)" and "policies_exist (se_before (env i) d)"
    and "job_of (se_before (env i) d) job = Some j" and "active (j_status j)"
    and "lease_of (se_before (env i) d) job = Some l" and "now \<le> l_expires_at l"
    and "se_fate (env i) = Runs" and "se_now (env i) = now"
  shows "\<exists>d' j'. reap_loop env i [job] r d = ((Suc r, None), d') \<and> job_of d' job = Some j' \<and>
    \<not> active (j_status j') \<and> lease_of d' job = None"
proof -
  from report_lost_rows [OF assms(1-4), of "se_jit (env i)"] obtain d' where
    run: "report_failure lost_failure (se_jit (env i)) now job None (se_before (env i) d) = Inr (Some (j_queue_id j), d')"
    and rows: "lost_rows {job} (se_before (env i) d) d'"
    and l: "job_leases d' = delete_where (\<lambda>l. l_job_id l = job) (job_leases (se_before (env i) d))"
    by - (elim exE conjE, rule that; assumption)
  have "j \<in> set (jobs (se_before (env i) d))" "j_id j = job" using assms(3) by (auto dest: lookup_row_SomeD)
  then obtain j' where "job_of d' job = Some j'" "\<not> active (j_status j')"
    using rows unfolding lost_rows_def by fastforce
  moreover have "lease_of d' job = None" unfolding l by (simp add: lookup_row_delete_key)
  moreover have "reap_loop env i [job] r d = ((Suc r, None), d')"
    using run by (simp add: report_lost_def assms(7,8) scan_row_def run_tx_def)
  ultimately show ?thesis by blast
qed

theorem reap_ignores_renewal_witness:
  "\<exists>d' j'. reap_loop (\<lambda>_. quiet_stmt 100) 0 [11] 0 sample_db = ((Suc 0, None), d') \<and> job_of d' 11 = Some j' \<and>
     \<not> active (j_status j') \<and> lease_of d' 11 = None"
proof (rule reap_ignores_renewal)
  show "tables_wf 100 (se_before (quiet_stmt 100) sample_db)" "policies_exist (se_before (quiet_stmt 100) sample_db)"
    by (simp_all add: tables_wf_def jobs_wf_def check_job_def execs_wf_def check_exec_def clock_ok_def deps_ok_def
        policies_exist_def quiet_stmt_def sample_defs)
  show "job_of (se_before (quiet_stmt 100) sample_db) 11 = Some sample_running"
    "lease_of (se_before (quiet_stmt 100) sample_db) 11 = Some sample_lease" "100 \<le> l_expires_at sample_lease"
    by (simp_all add: quiet_stmt_def sample_defs)
qed (simp_all add: sample_running_row quiet_stmt_def)

end
