(* ===== verification/Promote.thy ===== *)
theory Promote
  imports Reaper
begin

text \<open>
  Promotion and aging: \<open>src/internal/scheduler/promote.go\<close>. \<open>Promote\<close> moves due scheduled and retrying jobs to
  \<open>queued\<close> in one transaction; \<open>Age\<close> raises the priority of jobs that have waited long, up to a ceiling.
\<close>

definition promotable :: "(uuid \<Rightarrow> bool) \<Rightarrow> timestamptz \<Rightarrow> job \<Rightarrow> bool" where
  "promotable locked now j \<longleftrightarrow>
     j_status j \<in> {Scheduled, Retry_wait} \<and> j_run_at j \<le> now \<and> j_pending_deps j = 0 \<and> \<not> locked (j_id j)"

definition promote_row :: "job \<Rightarrow> job" where
  "promote_row j = j\<lparr>j_status := Queued\<rparr>"

definition promote_select :: "nat \<Rightarrow> (uuid \<Rightarrow> bool) \<Rightarrow> timestamptz \<Rightarrow> db \<Rightarrow> uuid list" where
  "promote_select limit locked now d = map j_id (order_limit j_run_at limit (filter (promotable locked now) (jobs d)))"

definition promote_update :: "uuid list \<Rightarrow> timestamptz \<Rightarrow> nat tx" where
  "promote_update ids now d =
     rbind (update_jobs (\<lambda>j. j_id j \<in> set ids) promote_row d) (\<lambda>d1.
       let promoted = filter (\<lambda>j. j_id j \<in> set ids) (jobs d1)
       in Inr (length promoted, emit_all (\<lambda>j. (''job.queued'', j_id j, j_project_id j, [])) now promoted d1))"

definition promote_tx :: "nat \<Rightarrow> (uuid \<Rightarrow> bool) \<Rightarrow> timestamptz \<Rightarrow> nat tx" where
  "promote_tx limit locked now d =
     (let ids = promote_select limit locked now d in if ids = [] then Inr (0, d) else promote_update ids now d)"

definition Promote :: "stmt_env \<Rightarrow> (uuid \<Rightarrow> bool) \<Rightarrow> nat \<Rightarrow> db \<Rightarrow> (go_error + nat) \<times> db" where
  "Promote env locked limit d = run_tx (se_fate env) (promote_tx limit locked (se_now env)) (se_before env d)"

text \<open>The subquery of \<open>ageSQL\<close> has no order; the model takes the first rows of the table.\<close>

definition ageable :: "interval \<Rightarrow> int \<Rightarrow> timestamptz \<Rightarrow> job \<Rightarrow> bool" where
  "ageable olderThan ceil now j \<longleftrightarrow> j_status j = Queued \<and> j_created_at j < now - olderThan \<and> j_priority j < ceil"

definition age_row :: "job \<Rightarrow> job" where
  "age_row j = j\<lparr>j_priority := j_priority j + 1\<rparr>"

definition age_sql :: "interval \<Rightarrow> int \<Rightarrow> nat \<Rightarrow> timestamptz \<Rightarrow> nat tx" where
  "age_sql olderThan ceil limit now d =
     (let ids = map j_id (take limit (filter (ageable olderThan ceil now) (jobs d)))
      in rbind (update_jobs (\<lambda>j. j_id j \<in> set ids) age_row d) (\<lambda>d1. Inr (length ids, d1)))"

definition Age :: "stmt_env \<Rightarrow> interval \<Rightarrow> int \<Rightarrow> nat \<Rightarrow> db \<Rightarrow> (go_error + nat) \<times> db" where
  "Age env olderThan ceil limit d = run_tx (se_fate env) (age_sql olderThan ceil limit (se_now env)) (se_before env d)"

section \<open>Promotion\<close>

lemma promote_row_simps [simp]:
  "j_id (promote_row j) = j_id j" "j_status (promote_row j) = Queued" "j_fence (promote_row j) = j_fence j"
  "j_queue_id (promote_row j) = j_queue_id j" "j_shard (promote_row j) = j_shard j"
  "j_project_id (promote_row j) = j_project_id j" "j_created_at (promote_row j) = j_created_at j"
  "j_attempt_count (promote_row j) = j_attempt_count j" "j_replay_generation (promote_row j) = j_replay_generation j"
  by (simp_all add: promote_row_def)

lemma promote_row_ok: "check_job j \<Longrightarrow> promotable locked now j \<Longrightarrow> write_ok j (promote_row j)"
  by (cases "j_status j") (simp_all add: write_ok_def check_job_def promote_row_def promotable_def)

text \<open>Selecting rows by the ids of some of them selects these rows.\<close>

lemma ids_select:
  assumes "jobs_wf d" and "set sel \<subseteq> set (jobs d)" and "j \<in> set (jobs d)"
  shows "j_id j \<in> set (map j_id sel) \<longleftrightarrow> j \<in> set sel"
  using assms jobs_wfD(4) [OF assms(1) assms(3)] by auto

lemma count_selected:
  assumes "jobs_wf d" and "set sel \<subseteq> set (jobs d)" and "distinct (map j_id sel)"
  shows "length (filter (\<lambda>j. j \<in> set sel) (jobs d)) = length sel"
  using count_where_in_sublist [OF jobs_wfD(1) [OF assms(1)] assms(3,2)] by (simp add: count_where_def)

lemma promote_sel:
  assumes "jobs_wf d"
  shows "set (order_limit j_run_at limit (filter (promotable locked now) (jobs d))) \<subseteq> {j \<in> set (jobs d). promotable locked now j}"
    and "distinct (map j_id (order_limit j_run_at limit (filter (promotable locked now) (jobs d))))"
  using set_order_limit [of j_run_at limit "filter (promotable locked now) (jobs d)"] jobs_wfD(1) [OF assms]
  by (auto intro!: distinct_order_limit simp: distinct_map_filter)

lemma promote_tx_eq:
  assumes "jobs_wf d" and sel: "sel = order_limit j_run_at limit (filter (promotable locked now) (jobs d))"
  shows "promote_tx limit locked now d =
    Inr (length sel, emit_all (\<lambda>j. (''job.queued'', j_id j, j_project_id j, [])) now
        (map promote_row (filter (\<lambda>j. j \<in> set sel) (jobs d)))
        (d\<lparr>jobs := update_where (\<lambda>j. j \<in> set sel) promote_row (jobs d)\<rparr>))"
proof (cases "sel = []")
  case True
  then show ?thesis
    by (simp add: promote_tx_def promote_select_def flip: sel) (simp add: update_where_none)
next
  case False
  let ?d1 = "d\<lparr>jobs := update_where (\<lambda>j. j \<in> set sel) promote_row (jobs d)\<rparr>"
  note s = promote_sel [OF assms(1), of limit locked now, folded sel]
  have ids: "j_id j \<in> set (map j_id sel) \<longleftrightarrow> j \<in> set sel" if "j \<in> set (jobs d)" for j
    using ids_select [OF assms(1) _ that] s(1) by blast
  have eq: "update_where (\<lambda>j. j_id j \<in> set (map j_id sel)) promote_row (jobs d) = jobs ?d1"
    using ids by (auto intro!: update_where_cong)
  have "write_ok j (promote_row j)" if "j \<in> set (jobs d)" "j_id j \<in> set (map j_id sel)" for j
    using ids [OF that(1)] that(2) s(1) jobs_wfD(2) [OF assms(1) that(1)] by (intro promote_row_ok) auto
  then have "update_jobs (\<lambda>j. j_id j \<in> set (map j_id sel)) promote_row d = Inr ?d1"
    using eq by (simp add: update_jobs_ok del: set_map)
  moreover have "filter (\<lambda>j. j_id j \<in> set (map j_id sel)) (jobs ?d1) = map promote_row (filter (\<lambda>j. j \<in> set sel) (jobs d))"
  proof -
    have "filter (\<lambda>j. j_id j \<in> set (map j_id sel)) (update_where (\<lambda>j. j \<in> set sel) promote_row js) =
        map promote_row (filter (\<lambda>j. j \<in> set sel) js)" if "set js \<subseteq> set (jobs d)" for js
      using that ids by (induction js) auto
    then show ?thesis by simp
  qed
  moreover have "promote_select limit locked now d = map j_id sel" by (simp add: promote_select_def sel)
  ultimately show ?thesis
    using False count_selected [OF assms(1) _ s(2)] s(1)
    by (simp add: promote_tx_def promote_update_def Let_def del: set_map) blast
qed

lemma promoted_rows:
  fixes locked now limit d
  defines "sel \<equiv> order_limit j_run_at limit (filter (promotable locked now) (jobs d))"
  assumes job: "\<And>j. j \<in> set (jobs d) \<Longrightarrow> job_of d' (j_id j) = Some (if j \<in> set sel then promote_row j else j)"
    and j: "j \<in> set (jobs d)"
  shows "\<exists>j'. job_of d' (j_id j) = Some j' \<and>
    (j' = j \<or> promotable locked now j \<and> j' = j\<lparr>j_status := Queued\<rparr>) \<and>
    (j' \<noteq> j \<longrightarrow> (\<forall>k \<in> set (jobs d). promotable locked now k \<longrightarrow> job_of d' (j_id k) = Some k \<longrightarrow> j_run_at j \<le> j_run_at k)) \<and>
    (promotable locked now j \<longrightarrow> length (jobs d) \<le> limit \<longrightarrow> j_status j' = Queued)"
proof (cases "j \<in> set sel")
  case True
  then have "promotable locked now j" using set_order_limit unfolding sel_def by fastforce
  moreover have "j_run_at j \<le> j_run_at k"
    if "k \<in> set (jobs d)" "promotable locked now k" "job_of d' (j_id k) = Some k" for k
  proof -
    have "k \<notin> set sel" using job [OF that(1)] that(2,3) by (auto simp: promotable_def dest: arg_cong [of _ _ j_status])
    then show ?thesis using that True order_limit_minimal [of j j_run_at limit "filter (promotable locked now) (jobs d)" k] by (auto simp: sel_def)
  qed
  ultimately show ?thesis using job [OF j] True by (intro exI [of _ "promote_row j"]) (simp add: promote_row_def)
next
  case False
  have "j \<in> set sel" if "promotable locked now j" "length (jobs d) \<le> limit"
  proof -
    have "length (filter (promotable locked now) (jobs d)) \<le> limit" using that(2) length_filter_le order_trans by blast
    then show ?thesis using that j by (simp add: sel_def order_limit_def)
  qed
  then show ?thesis using job [OF j] False by (intro exI [of _ j]) auto
qed

text \<open>
  C14. Promotion never fails on well-formed jobs. It moves to \<open>queued\<close> exactly the first \<open>limit\<close> unlocked jobs in
  order of \<open>run_at\<close> that are scheduled or waiting for a retry, due, and not waiting for a parent; it writes
  one \<open>job.queued\<close> event for each, leaves every other job alone, and with a large enough limit leaves no
  such job behind.
\<close>

theorem promote_moves_due:
  assumes "jobs_wf d"
  shows "\<exists>n d' es. promote_tx limit locked now d = Inr (n, d') \<and>
    n = min limit (count_where (promotable locked now) (jobs d)) \<and>
    events d' = events d @ es \<and> length es = n \<and> (\<forall>e \<in> set es. e_topic e = ''job.queued'') \<and>
    job_leases d' = job_leases d \<and> queue_shards d' = queue_shards d \<and>
    (\<forall>j \<in> set (jobs d). \<exists>j'. job_of d' (j_id j) = Some j' \<and>
       (j' = j \<or> promotable locked now j \<and> j' = j\<lparr>j_status := Queued\<rparr>) \<and>
       (j' \<noteq> j \<longrightarrow> (\<forall>k \<in> set (jobs d). promotable locked now k \<longrightarrow> job_of d' (j_id k) = Some k \<longrightarrow> j_run_at j \<le> j_run_at k)) \<and>
       (promotable locked now j \<longrightarrow> length (jobs d) \<le> limit \<longrightarrow> j_status j' = Queued))"
proof -
  let ?F = "filter (promotable locked now) (jobs d)"
  define sel where "sel = order_limit j_run_at limit ?F"
  note s = promote_sel [OF assms, of limit locked now, folded sel_def]
  let ?g = "\<lambda>j. (''job.queued'', j_id j, j_project_id j, [] :: json_object)"
  let ?rs = "map promote_row (filter (\<lambda>j. j \<in> set sel) (jobs d))"
  let ?d1 = "d\<lparr>jobs := update_where (\<lambda>j. j \<in> set sel) promote_row (jobs d)\<rparr>"
  let ?d' = "emit_all ?g now ?rs ?d1"
  have run: "promote_tx limit locked now d = Inr (length sel, ?d')" by (rule promote_tx_eq [OF assms sel_def])
  obtain es where es: "events ?d' = events d @ es" "\<forall>e \<in> set es. e_topic e = ''job.queued''" "length es = length sel"
  proof -
    from emit_all_events [of ?g now ?rs ?d1] obtain es where e: "events ?d' = events ?d1 @ es"
      "map (\<lambda>e. (e_topic e, e_entity_id e, e_project_id e, e_payload e)) es = map ?g ?rs" by blast
    from emit_all_topic [of ?g "''job.queued''" now ?rs ?d1] e(1) have "\<forall>e \<in> set es. e_topic e = ''job.queued''" by auto
    moreover have "length es = length sel"
      using arg_cong [OF e(2), of length] count_selected [OF assms _ s(2)] s(1) by auto
    ultimately show thesis using that e(1) by simp
  qed
  have job: "job_of ?d' (j_id j) = Some (if j \<in> set sel then promote_row j else j)" if "j \<in> set (jobs d)" for j
    using jobs_wfD(3) [OF assms, of "j_id j" j] that by (simp add: job_of_update)
  from promoted_rows [OF job [unfolded sel_def], folded sel_def]
  have "\<forall>j \<in> set (jobs d). \<exists>j'. job_of ?d' (j_id j) = Some j' \<and>
       (j' = j \<or> promotable locked now j \<and> j' = j\<lparr>j_status := Queued\<rparr>) \<and>
       (j' \<noteq> j \<longrightarrow> (\<forall>k \<in> set (jobs d). promotable locked now k \<longrightarrow> job_of ?d' (j_id k) = Some k \<longrightarrow> j_run_at j \<le> j_run_at k)) \<and>
       (promotable locked now j \<longrightarrow> length (jobs d) \<le> limit \<longrightarrow> j_status j' = Queued)" by blast
  moreover have "length sel = min limit (count_where (promotable locked now) (jobs d))"
    by (simp add: sel_def count_where_def min.commute)
  ultimately show ?thesis using run es by (intro exI [of _ "length sel"] exI [of _ ?d'] exI [of _ es]) simp
qed

theorem promote_moves_due_witness:
  "\<exists>n d'. promote_tx 10 (\<lambda>_. False) sample_now (sample_db\<lparr>jobs := [sample_waiting\<lparr>j_status := Retry_wait, j_pending_deps := 0\<rparr>]\<rparr>) = Inr (n, d') \<and> n = 1"
proof -
  let ?d = "sample_db\<lparr>jobs := [sample_waiting\<lparr>j_status := Retry_wait, j_pending_deps := 0\<rparr>]\<rparr>"
  have "jobs_wf ?d" by (simp add: jobs_wf_def check_job_def sample_defs)
  moreover have "min 10 (count_where (promotable (\<lambda>_. False) sample_now) (jobs ?d)) = 1"
    by (simp add: promotable_def sample_defs)
  ultimately show ?thesis using promote_moves_due [of ?d 10 "\<lambda>_. False" sample_now] by auto
qed

section \<open>Aging\<close>

lemma age_row_simps [simp]:
  "j_id (age_row j) = j_id j" "j_status (age_row j) = j_status j" "j_fence (age_row j) = j_fence j"
  "j_queue_id (age_row j) = j_queue_id j" "j_shard (age_row j) = j_shard j"
  "j_created_at (age_row j) = j_created_at j" "j_attempt_count (age_row j) = j_attempt_count j"
  "j_replay_generation (age_row j) = j_replay_generation j"
  by (simp_all add: age_row_def)

lemma age_row_ok: "check_job j \<Longrightarrow> write_ok j (age_row j)"
  by (simp add: write_ok_def check_job_def age_row_def)

lemma age_sql_eq:
  assumes "jobs_wf d" and sel: "sel = take limit (filter (ageable olderThan ceil now) (jobs d))"
  shows "age_sql olderThan ceil limit now d =
    Inr (length sel, d\<lparr>jobs := update_where (\<lambda>j. j \<in> set sel) age_row (jobs d)\<rparr>)"
proof -
  have sub: "set sel \<subseteq> set (jobs d)" unfolding sel using set_take_subset by fastforce
  have "update_where (\<lambda>j. j_id j \<in> set (map j_id sel)) age_row (jobs d) = update_where (\<lambda>j. j \<in> set sel) age_row (jobs d)"
    using ids_select [OF assms(1) sub] by (auto intro!: update_where_cong)
  moreover have "write_ok j (age_row j)" if "j \<in> set (jobs d)" for j
    using age_row_ok [OF jobs_wfD(2) [OF assms(1) that]] .
  ultimately have "update_jobs (\<lambda>j. j_id j \<in> set (map j_id sel)) age_row d =
      Inr (d\<lparr>jobs := update_where (\<lambda>j. j \<in> set sel) age_row (jobs d)\<rparr>)"
    by (simp add: update_jobs_ok del: set_map)
  then show ?thesis by (simp add: age_sql_def Let_def flip: sel del: set_map)
qed

text \<open>
  Aging never fails, raises the priority of at most \<open>limit\<close> jobs by exactly one, touches only queued jobs
  that are older than the threshold, and never lifts a priority above the ceiling; status, fence and every
  other column stay.
\<close>

theorem age_respects_ceiling:
  assumes "jobs_wf d"
  shows "\<exists>n d'. age_sql olderThan ceil limit now d = Inr (n, d') \<and> n \<le> limit \<and> d' = d\<lparr>jobs := jobs d'\<rparr> \<and>
    (\<forall>j \<in> set (jobs d). \<exists>j'. job_of d' (j_id j) = Some j' \<and>
       (j' = j \<or> (j_status j = Queued \<and> j_created_at j < now - olderThan \<and> j' = j\<lparr>j_priority := j_priority j + 1\<rparr> \<and>
          j_priority j' \<le> ceil)))"
proof -
  define sel where "sel = take limit (filter (ageable olderThan ceil now) (jobs d))"
  let ?d' = "d\<lparr>jobs := update_where (\<lambda>j. j \<in> set sel) age_row (jobs d)\<rparr>"
  have run: "age_sql olderThan ceil limit now d = Inr (length sel, ?d')" by (rule age_sql_eq [OF assms sel_def])
  have sel: "ageable olderThan ceil now j" if "j \<in> set sel" for j
    using in_set_takeD [OF that [unfolded sel_def]] by simp
  have "\<exists>j'. job_of ?d' (j_id j) = Some j' \<and>
       (j' = j \<or> (j_status j = Queued \<and> j_created_at j < now - olderThan \<and> j' = j\<lparr>j_priority := j_priority j + 1\<rparr> \<and>
          j_priority j' \<le> ceil))" if "j \<in> set (jobs d)" for j
  proof -
    have "job_of ?d' (j_id j) = Some (if j \<in> set sel then age_row j else j)"
      using jobs_wfD(3) [OF assms, of "j_id j" j] that by (simp add: job_of_update)
    then show ?thesis using sel [of j] by (auto simp: ageable_def age_row_def)
  qed
  moreover have "length sel \<le> limit" by (simp add: sel_def)
  moreover have "?d' = d\<lparr>jobs := jobs ?d'\<rparr>" by simp
  ultimately show ?thesis using run by blast
qed

theorem age_respects_ceiling_witness:
  "\<exists>n d'. age_sql 0 3 10 sample_now sample_db = Inr (n, d') \<and> n \<le> 10"
  using age_respects_ceiling [OF sample_jobs_wf, of 0 3 10 sample_now] by blast

end
