(* ===== verification/Breaker.thy ===== *)
theory Breaker
  imports Promote
begin

text \<open>
  The circuit breaker sweep: \<open>src/internal/scheduler/breaker.go\<close>. Closed queues open when enough of their last
  executions failed; half-open ones close or reopen on the outcome of the probe. The other half of the
  breaker, going half open and spending the probe budget, is in \<open>queue_admit\<close>.

  The sweep is a sequence of separate statements: statement 0 reads the queues, statement 1 the window of
  outcomes, and the queue at position \<open>i\<close> of the list uses statements \<open>2 i + 2\<close> and \<open>2 i + 3\<close>.
\<close>

section \<open>Statements\<close>

definition latest_first :: "execution \<Rightarrow> int" where
  "latest_first x = - coalesce (x_finished_at x) 0"

text \<open>\<open>breakerWindowSQL\<close>: the outcomes of the last \<open>window\<close> closed executions of each queue.\<close>

definition window_of :: "nat \<Rightarrow> uuid \<Rightarrow> db \<Rightarrow> exec_outcome list" where
  "window_of window q d = map (\<lambda>x. the (x_outcome x))
     (order_limit latest_first window (filter (\<lambda>x. x_queue_id x = q \<and> x_outcome x \<noteq> None) (job_executions d)))"

definition breaker_window :: "nat \<Rightarrow> (uuid \<times> exec_outcome) list tx" where
  "breaker_window window d = Inr (concat (map (\<lambda>q. map (Pair (q_id q)) (window_of window (q_id q) d)) (queues d)), d)"

text \<open>\<open>breakerProbeSQL\<close>; a comparison with a null \<open>open_until\<close> holds of no row.\<close>

definition breaker_probe :: "uuid \<Rightarrow> timestamptz option \<Rightarrow> exec_outcome option tx" where
  "breaker_probe q since d =
     Inr (case order_limit latest_first 1 (filter (\<lambda>x. x_queue_id x = q \<and> x_outcome x \<noteq> None \<and>
              (case (x_finished_at x, since) of (Some t, Some s) \<Rightarrow> s \<le> t | _ \<Rightarrow> False)) (job_executions d)) of
            [] \<Rightarrow> None | x # _ \<Rightarrow> x_outcome x, d)"

definition breaker_switch :: "string \<Rightarrow> (queue \<Rightarrow> bool) \<Rightarrow> (queue \<Rightarrow> queue) \<Rightarrow> timestamptz \<Rightarrow> nat tx" where
  "breaker_switch topic P f now d =
     rbind (update_queues P f d) (\<lambda>d1.
       let sw = filter P (queues d)
       in Inr (length sw, emit_all (\<lambda>q. (topic, q_id q, q_project_id q, [])) now sw d1))"

definition open_row :: "interval \<Rightarrow> timestamptz \<Rightarrow> queue \<Rightarrow> queue" where
  "open_row cooldown now q = q\<lparr>q_breaker_state := Open, q_breaker_open_until := Some (now + cooldown), q_breaker_probe_budget := 0\<rparr>"

definition close_row_q :: "queue \<Rightarrow> queue" where
  "close_row_q q = q\<lparr>q_breaker_state := Closed, q_breaker_open_until := None, q_breaker_probe_budget := 0\<rparr>"

definition breaker_open :: "uuid \<Rightarrow> interval \<Rightarrow> timestamptz \<Rightarrow> nat tx" where
  "breaker_open q cooldown now =
     breaker_switch ''queue.breaker_opened'' (\<lambda>r. q_id r = q \<and> q_breaker_state r = Closed) (open_row cooldown now) now"

definition breaker_reopen :: "uuid \<Rightarrow> interval \<Rightarrow> timestamptz \<Rightarrow> nat tx" where
  "breaker_reopen q cooldown now =
     breaker_switch ''queue.breaker_reopened'' (\<lambda>r. q_id r = q \<and> q_breaker_state r = Half_open) (open_row cooldown now) now"

definition breaker_close :: "uuid \<Rightarrow> timestamptz \<Rightarrow> nat tx" where
  "breaker_close q now =
     breaker_switch ''queue.breaker_closed'' (\<lambda>r. q_id r = q \<and> q_breaker_state r = Half_open) close_row_q now"

section \<open>The sweep\<close>

record queueBreaker =
  qb_id :: uuid
  qb_projectID :: uuid
  qb_state :: breaker_state
  qb_openUntil :: "timestamptz option"

definition isFailure :: "exec_outcome \<Rightarrow> bool" where
  "isFailure oc \<longleftrightarrow> oc \<in> {X_retryable_error, X_permanent_error, X_timeout, X_lost}"

definition breaker_queues :: "queueBreaker list tx" where
  "breaker_queues d = Inr (map (\<lambda>q. \<lparr>qb_id = q_id q, qb_projectID = q_project_id q, qb_state = q_breaker_state q,
     qb_openUntil = q_breaker_open_until q\<rparr>) (queues d), d)"

definition failureCounts :: "(uuid \<times> exec_outcome) list \<Rightarrow> uuid \<Rightarrow> nat" where
  "failureCounts rows q = count_where (\<lambda>(i, oc). i = q \<and> isFailure oc) rows"

definition stmt :: "stmt_env \<Rightarrow> (timestamptz \<Rightarrow> 'a tx) \<Rightarrow> db \<Rightarrow> (go_error + 'a) \<times> db" where
  "stmt env t d = run_tx (se_fate env) (t (se_now env)) (se_before env d)"

text \<open>One round of the loop: the number of queues it changed, or the error that ends the sweep.\<close>

definition breaker_queue :: "stmt_env \<Rightarrow> stmt_env \<Rightarrow> (uuid \<Rightarrow> nat) \<Rightarrow> nat \<Rightarrow> interval \<Rightarrow> queueBreaker \<Rightarrow> db \<Rightarrow> (go_error + nat) \<times> db" where
  "breaker_queue e1 e2 failures trip cooldown q d =
    (case qb_state q of
       Closed \<Rightarrow> if trip \<le> failures (qb_id q) then stmt e2 (breaker_open (qb_id q) cooldown) d else (Inr 0, d)
     | Open \<Rightarrow> (Inr 0, d)
     | Half_open \<Rightarrow>
        (case stmt e1 (\<lambda>_. breaker_probe (qb_id q) (qb_openUntil q)) d of
           (Inl e, d1) \<Rightarrow> (Inl e, d1)
         | (Inr None, d1) \<Rightarrow> (Inr 0, d1)
         | (Inr (Some oc), d1) \<Rightarrow>
             if oc = X_success then stmt e2 (breaker_close (qb_id q)) d1
             else if isFailure oc then stmt e2 (breaker_reopen (qb_id q) cooldown) d1
             else (Inr 0, d1)))"

fun breaker_loop :: "(nat \<Rightarrow> stmt_env) \<Rightarrow> nat \<Rightarrow> (uuid \<Rightarrow> nat) \<Rightarrow> nat \<Rightarrow> interval \<Rightarrow> queueBreaker list \<Rightarrow> nat \<Rightarrow> db \<Rightarrow> (go_error + nat) \<times> db" where
  "breaker_loop env i failures trip cooldown [] changed d = (Inr changed, d)"
| "breaker_loop env i failures trip cooldown (q # qs) changed d =
    (case breaker_queue (env (2 * i + 2)) (env (2 * i + 3)) failures trip cooldown q d of
       (Inl e, d1) \<Rightarrow> (Inl e, d1)
     | (Inr n, d1) \<Rightarrow> breaker_loop env (Suc i) failures trip cooldown qs (changed + n) d1)"

definition Breaker :: "(nat \<Rightarrow> stmt_env) \<Rightarrow> nat \<Rightarrow> nat \<Rightarrow> interval \<Rightarrow> db \<Rightarrow> (go_error + nat) \<times> db" where
  "Breaker env window trip cooldown d =
    (case stmt (env 0) (\<lambda>_. breaker_queues) d of
       (Inl e, d1) \<Rightarrow> (Inl e, d1)
     | (Inr qs, d1) \<Rightarrow>
        (case stmt (env 1) (\<lambda>_. breaker_window window) d1 of
           (Inl e, d2) \<Rightarrow> (Inl e, d2)
         | (Inr rows, d2) \<Rightarrow> breaker_loop env 0 (failureCounts rows) trip cooldown qs 0 d2))"

section \<open>A sweep on a quiet database\<close>

text \<open>Where one sweep takes a queue, given its failure count and the executions of the database.\<close>

definition probe_outcome :: "execution list \<Rightarrow> queue \<Rightarrow> exec_outcome option" where
  "probe_outcome xs q =
     (case order_limit latest_first 1 (filter (\<lambda>x. x_queue_id x = q_id q \<and> x_outcome x \<noteq> None \<and>
          (case (x_finished_at x, q_breaker_open_until q) of (Some t, Some s) \<Rightarrow> s \<le> t | _ \<Rightarrow> False)) xs) of
        [] \<Rightarrow> None | x # _ \<Rightarrow> x_outcome x)"

definition breaker_next :: "(uuid \<Rightarrow> nat) \<Rightarrow> nat \<Rightarrow> interval \<Rightarrow> timestamptz \<Rightarrow> execution list \<Rightarrow> queue \<Rightarrow> queue" where
  "breaker_next failures trip cooldown now xs q =
    (case q_breaker_state q of
       Closed \<Rightarrow> if trip \<le> failures (q_id q) then open_row cooldown now q else q
     | Open \<Rightarrow> q
     | Half_open \<Rightarrow>
        (case probe_outcome xs q of
           None \<Rightarrow> q
         | Some oc \<Rightarrow> if oc = X_success then close_row_q q else if isFailure oc then open_row cooldown now q else q))"

lemma breaker_next_id [simp]: "q_id (breaker_next f t c n xs q) = q_id q"
  by (simp add: breaker_next_def open_row_def close_row_q_def split: breaker_state.split option.split)

lemma breaker_rows_check:
  "check_queue q \<Longrightarrow> check_queue (open_row c n q)" "check_queue q \<Longrightarrow> check_queue (close_row_q q)"
  by (simp_all add: open_row_def close_row_q_def check_queue_def)

lemma breaker_next_check: "check_queue q \<Longrightarrow> check_queue (breaker_next f t c n xs q)"
  by (simp add: breaker_next_def breaker_rows_check split: breaker_state.split option.split)

definition queues_wf :: "db \<Rightarrow> bool" where
  "queues_wf d \<longleftrightarrow> distinct (map q_id (queues d)) \<and> (\<forall>q \<in> set (queues d). check_queue q)"

lemma breaker_switch_one:
  assumes "queues_wf d" and "q \<in> set (queues d)" and "P q" and "\<And>r. P r \<Longrightarrow> q_id r = q_id q"
    and "check_queue (f q)"
  shows "\<exists>d'. breaker_switch topic P f now d = Inr (1, d') \<and>
    queues d' = update_where (\<lambda>r. q_id r = q_id q) f (queues d) \<and> job_executions d' = job_executions d \<and> jobs d' = jobs d"
proof -
  have dist: "distinct (map q_id (queues d))" using assms(1) by (simp add: queues_wf_def)
  have only: "r = q" if "r \<in> set (queues d)" "q_id r = q_id q" for r
    using key_unique [OF dist that(1) assms(2) that(2)] .
  have one: "P r \<longleftrightarrow> q_id r = q_id q" if "r \<in> set (queues d)" for r
    using assms(3,4) only [OF that] by blast
  have "\<forall>r \<in> set (queues d). P r \<longrightarrow> check_queue (f r)" using assms(4,5) only by blast
  then have u: "update_queues P f d = Inr (d\<lparr>queues := update_where P f (queues d)\<rparr>)" by (simp add: update_queues_Inr_iff)
  have "length (filter P (queues d)) = count_where (\<lambda>r. q_id r = q_id q \<and> True) (queues d)"
    unfolding count_where_def using one by (simp cong: filter_cong)
  also have "\<dots> = 1" by (rule count_where_key_one [OF dist assms(2)]) simp_all
  finally have "length (filter P (queues d)) = 1" .
  moreover have "update_where P f (queues d) = update_where (\<lambda>r. q_id r = q_id q) f (queues d)"
    using one by (intro update_where_cong) simp_all
  ultimately show ?thesis using u by (simp add: breaker_switch_def Let_def)
qed

definition qb_of :: "queue \<Rightarrow> queueBreaker" where
  "qb_of q = \<lparr>qb_id = q_id q, qb_projectID = q_project_id q, qb_state = q_breaker_state q, qb_openUntil = q_breaker_open_until q\<rparr>"

lemma update_where_same: "(\<And>r. r \<in> set rs \<Longrightarrow> P r \<Longrightarrow> f r = r) \<Longrightarrow> update_where P f rs = rs"
  by (induction rs) auto

lemma stmt_quiet: "t now d = Inr (a, d') \<Longrightarrow> stmt (quiet_stmt now) t d = (Inr a, d')"
  by (simp add: stmt_def quiet_stmt_def)

lemma breaker_queue_quiet:
  assumes "queues_wf d" and "q \<in> set (queues d)"
  shows "\<exists>n d'. breaker_queue (quiet_stmt now) (quiet_stmt now) failures trip cooldown (qb_of q) d = (Inr n, d') \<and>
    queues d' = update_where (\<lambda>r. q_id r = q_id q) (breaker_next failures trip cooldown now (job_executions d)) (queues d) \<and>
    job_executions d' = job_executions d \<and> jobs d' = jobs d"
proof -
  let ?nx = "breaker_next failures trip cooldown now (job_executions d)"
  have dist: "distinct (map q_id (queues d))" using assms(1) by (simp add: queues_wf_def)
  have only: "r = q" if "r \<in> set (queues d)" "q_id r = q_id q" for r
    using key_unique [OF dist that(1) assms(2) that(2)] .
  have upd: "update_where (\<lambda>r. q_id r = q_id q) g (queues d) = update_where (\<lambda>r. q_id r = q_id q) ?nx (queues d)"
    if "?nx q = g q" for g
  proof (rule update_where_cong)
    fix r assume "r \<in> set (queues d)" "q_id r = q_id q"
    then have "r = q" by (rule only)
    then show "g r = ?nx r" using that by simp
  qed simp
  have same: "update_where (\<lambda>r. q_id r = q_id q) ?nx (queues d) = queues d" if "?nx q = q"
  proof (rule update_where_same)
    fix r assume "r \<in> set (queues d)" "q_id r = q_id q"
    then have "r = q" by (rule only)
    then show "?nx r = r" using that by simp
  qed
  have chk: "check_queue (?nx q)" using assms by (intro breaker_next_check) (auto simp: queues_wf_def)
  have pr: "breaker_probe (q_id q) (q_breaker_open_until q) d = Inr (probe_outcome (job_executions d) q, d)"
    by (simp add: breaker_probe_def probe_outcome_def)
  have pst: "stmt (quiet_stmt now) (\<lambda>_. breaker_probe (q_id q) (q_breaker_open_until q)) d =
      (Inr (probe_outcome (job_executions d) q), d)"
    by (rule stmt_quiet) (rule pr)
  note switch = breaker_switch_one [OF assms]
  have fin: "\<exists>n d'. stmt (quiet_stmt now) t d = (Inr n, d') \<and>
      queues d' = update_where (\<lambda>r. q_id r = q_id q) ?nx (queues d) \<and> job_executions d' = job_executions d \<and> jobs d' = jobs d"
    if "t now = breaker_switch topic P g now" "P q" "\<And>r. P r \<Longrightarrow> q_id r = q_id q" "?nx q = g q" for t topic P g
  proof -
    have "check_queue (g q)" using chk that(4) by simp
    from switch [where P = P and f = g and topic = topic and now = now, OF that(2,3) this] obtain d' where
      d': "breaker_switch topic P g now d = Inr (1, d')" "queues d' = update_where (\<lambda>r. q_id r = q_id q) g (queues d)"
        "job_executions d' = job_executions d" "jobs d' = jobs d" by blast
    have "stmt (quiet_stmt now) t d = (Inr 1, d')" using d'(1) that(1) by (intro stmt_quiet) simp
    moreover have "queues d' = update_where (\<lambda>r. q_id r = q_id q) ?nx (queues d)"
      unfolding d'(2) by (rule upd) (rule that(4))
    ultimately show ?thesis using d'(3,4) by blast
  qed
  let ?run = "breaker_queue (quiet_stmt now) (quiet_stmt now) failures trip cooldown (qb_of q) d"
  have bq: "?run = (case q_breaker_state q of
       Closed \<Rightarrow> if trip \<le> failures (q_id q) then stmt (quiet_stmt now) (breaker_open (q_id q) cooldown) d else (Inr 0, d)
     | Open \<Rightarrow> (Inr 0, d)
     | Half_open \<Rightarrow> (case probe_outcome (job_executions d) q of
           None \<Rightarrow> (Inr 0, d)
         | Some oc \<Rightarrow> if oc = X_success then stmt (quiet_stmt now) (breaker_close (q_id q)) d
             else if isFailure oc then stmt (quiet_stmt now) (breaker_reopen (q_id q) cooldown) d else (Inr 0, d)))"
    by (simp add: breaker_queue_def qb_of_def pst split: breaker_state.split option.split)
  have "?nx q = q \<and> ?run = (Inr 0, d) \<or>
      ?nx q = open_row cooldown now q \<and> q_breaker_state q = Closed \<and> ?run = stmt (quiet_stmt now) (breaker_open (q_id q) cooldown) d \<or>
      ?nx q = close_row_q q \<and> q_breaker_state q = Half_open \<and> ?run = stmt (quiet_stmt now) (breaker_close (q_id q)) d \<or>
      ?nx q = open_row cooldown now q \<and> q_breaker_state q = Half_open \<and> ?run = stmt (quiet_stmt now) (breaker_reopen (q_id q) cooldown) d"
    unfolding bq breaker_next_def
    by (cases "q_breaker_state q"; cases "probe_outcome (job_executions d) q") simp_all
  then show ?thesis
  proof (elim disjE conjE)
    assume "?nx q = q" "?run = (Inr 0, d)"
    then show ?thesis using same by simp
  next
    assume o: "?nx q = open_row cooldown now q" "q_breaker_state q = Closed" "?run = stmt (quiet_stmt now) (breaker_open (q_id q) cooldown) d"
    show ?thesis unfolding o(3) by (rule fin [where P = "\<lambda>r. q_id r = q_id q \<and> q_breaker_state r = Closed" and g = "open_row cooldown now" and topic = "''queue.breaker_opened''"])
      (simp_all add: o breaker_open_def breaker_close_def breaker_reopen_def)
  next
    assume o: "?nx q = close_row_q q" "q_breaker_state q = Half_open" "?run = stmt (quiet_stmt now) (breaker_close (q_id q)) d"
    show ?thesis unfolding o(3) by (rule fin [where P = "\<lambda>r. q_id r = q_id q \<and> q_breaker_state r = Half_open" and g = close_row_q and topic = "''queue.breaker_closed''"])
      (simp_all add: o breaker_open_def breaker_close_def breaker_reopen_def)
  next
    assume o: "?nx q = open_row cooldown now q" "q_breaker_state q = Half_open" "?run = stmt (quiet_stmt now) (breaker_reopen (q_id q) cooldown) d"
    show ?thesis unfolding o(3) by (rule fin [where P = "\<lambda>r. q_id r = q_id q \<and> q_breaker_state r = Half_open" and g = "open_row cooldown now" and topic = "''queue.breaker_reopened''"])
      (simp_all add: o breaker_open_def breaker_close_def breaker_reopen_def)
  qed
qed

lemma breaker_loop_quiet:
  assumes "queues_wf d" and "distinct (map q_id qs)" and "set qs \<subseteq> set (queues d)"
  shows "\<exists>n d'. breaker_loop (\<lambda>_. quiet_stmt now) i failures trip cooldown (map qb_of qs) c d = (Inr n, d') \<and>
    queues d' = update_where (\<lambda>r. q_id r \<in> q_id ` set qs) (breaker_next failures trip cooldown now (job_executions d)) (queues d) \<and>
    job_executions d' = job_executions d \<and> jobs d' = jobs d"
  using assms
proof (induction qs arbitrary: d i c)
  case Nil
  then show ?case by (simp add: update_where_none)
next
  case (Cons q qs)
  let ?nx = "breaker_next failures trip cooldown now (job_executions d)"
  have q: "q \<in> set (queues d)" using Cons.prems(3) by simp
  from breaker_queue_quiet [OF Cons.prems(1) q, of now failures trip cooldown] obtain n d1 where
    one: "breaker_queue (quiet_stmt now) (quiet_stmt now) failures trip cooldown (qb_of q) d = (Inr n, d1)"
    and q1: "queues d1 = update_where (\<lambda>r. q_id r = q_id q) ?nx (queues d)"
    and x1: "job_executions d1 = job_executions d" "jobs d1 = jobs d" by blast
  have wf1: "queues_wf d1"
    using Cons.prems(1) unfolding queues_wf_def q1
    by (auto simp: map_update_where in_update_where_iff breaker_next_check)
  have fresh: "q_id r \<noteq> q_id q" if "r \<in> set qs" for r using Cons.prems(2) that by (auto simp: image_iff)
  have sub1: "set qs \<subseteq> set (queues d1)"
    using Cons.prems(3) fresh unfolding q1 by (auto simp: in_update_where_iff)
  have "distinct (map q_id qs)" using Cons.prems(2) by simp
  from Cons.IH [OF wf1 this sub1, of "Suc i" "c + n"] obtain m d' where
    rest: "breaker_loop (\<lambda>_. quiet_stmt now) (Suc i) failures trip cooldown (map qb_of qs) (c + n) d1 = (Inr m, d')"
    and q': "queues d' = update_where (\<lambda>r. q_id r \<in> q_id ` set qs) ?nx (queues d1)"
    and x': "job_executions d' = job_executions d" "jobs d' = jobs d"
    unfolding x1 by blast
  have "queues d' = update_where (\<lambda>r. q_id r \<in> q_id ` set (q # qs)) ?nx (queues d)"
    unfolding q' q1 using Cons.prems(2) by (simp add: update_where_map)
  then show ?case using one rest x' by simp
qed

lemma failureCounts_groups:
  assumes "distinct (map q_id qs)" and "q \<in> set qs"
  shows "failureCounts (concat (map (\<lambda>q. map (Pair (q_id q)) (w q)) qs)) (q_id q) = count_where isFailure (w q)"
  using assms
proof (induction qs)
  case (Cons a qs)
  have one: "count_where (\<lambda>(k, oc). k = i \<and> isFailure oc) (map (Pair (q_id a)) xs) =
      (if q_id a = i then count_where isFailure xs else 0)" for xs i by (induction xs) auto
  have none: "failureCounts (concat (map (\<lambda>q. map (Pair (q_id q)) (w q)) qs)) (q_id a) = 0"
    using Cons.prems(1) by (auto simp: failureCounts_def count_where_zero_iff) (metis imageI)
  show ?case
  proof (cases "q = a")
    case True
    then show ?thesis using none one by (simp add: failureCounts_def)
  next
    case False
    then have "q \<in> set qs" "q_id a \<noteq> q_id q" using Cons.prems by auto
    then show ?thesis using Cons one by (simp add: failureCounts_def)
  qed
qed simp

text \<open>
  C15. On a quiet database a sweep never fails and takes each queue exactly one step of the breaker's state
  machine: a closed queue opens for the cooldown when at least \<open>trip\<close> of its last \<open>window\<close> outcomes are
  failures; an open queue stays; a half-open queue closes when the latest outcome since it may probe is a
  success, opens again when it is a failure, and otherwise stays. Nothing but breaker columns and events
  changes.
\<close>

theorem breaker_sweep_steps:
  assumes "distinct (map q_id (queues d))" and "\<forall>q \<in> set (queues d). check_queue q"
  shows "\<exists>n d'. Breaker (\<lambda>_. quiet_stmt now) window trip cooldown d = (Inr n, d') \<and>
    queues d' = map (\<lambda>q. case q_breaker_state q of
       Closed \<Rightarrow> if trip \<le> count_where isFailure (window_of window (q_id q) d) then open_row cooldown now q else q
     | Open \<Rightarrow> q
     | Half_open \<Rightarrow> (case probe_outcome (job_executions d) q of
           None \<Rightarrow> q
         | Some oc \<Rightarrow> if oc = X_success then close_row_q q else if isFailure oc then open_row cooldown now q else q)) (queues d) \<and>
    jobs d' = jobs d \<and> job_executions d' = job_executions d"
proof -
  have wf: "queues_wf d" using assms by (simp add: queues_wf_def)
  let ?rows = "concat (map (\<lambda>q. map (Pair (q_id q)) (window_of window (q_id q) d)) (queues d))"
  have counts: "failureCounts ?rows (q_id q) = count_where isFailure (window_of window (q_id q) d)"
    if "q \<in> set (queues d)" for q
    using failureCounts_groups [OF assms(1) that, of "\<lambda>q. window_of window (q_id q) d"] .
  from breaker_loop_quiet [OF wf assms(1) subset_refl, of now 0 "failureCounts ?rows" trip cooldown 0] obtain n d' where
    loop: "breaker_loop (\<lambda>_. quiet_stmt now) 0 (failureCounts ?rows) trip cooldown (map qb_of (queues d)) 0 d = (Inr n, d')"
    and qs: "queues d' = update_where (\<lambda>r. q_id r \<in> q_id ` set (queues d)) (breaker_next (failureCounts ?rows) trip cooldown now (job_executions d)) (queues d)"
    and x: "job_executions d' = job_executions d" "jobs d' = jobs d" by blast
  have s0: "stmt (quiet_stmt now) (\<lambda>_. breaker_queues) d = (Inr (map qb_of (queues d)), d)"
    by (rule stmt_quiet) (simp add: breaker_queues_def qb_of_def)
  have s1: "stmt (quiet_stmt now) (\<lambda>_. breaker_window window) d = (Inr ?rows, d)"
    by (rule stmt_quiet) (simp add: breaker_window_def)
  have run: "Breaker (\<lambda>_. quiet_stmt now) window trip cooldown d = (Inr n, d')"
    unfolding Breaker_def s0 prod.case sum.case s1 by (rule loop)
  have "queues d' = map (breaker_next (failureCounts ?rows) trip cooldown now (job_executions d)) (queues d)"
    unfolding qs update_where_map by simp
  also have "\<dots> = map (\<lambda>q. case q_breaker_state q of
       Closed \<Rightarrow> if trip \<le> count_where isFailure (window_of window (q_id q) d) then open_row cooldown now q else q
     | Open \<Rightarrow> q
     | Half_open \<Rightarrow> (case probe_outcome (job_executions d) q of
           None \<Rightarrow> q
         | Some oc \<Rightarrow> if oc = X_success then close_row_q q else if isFailure oc then open_row cooldown now q else q)) (queues d)"
    using counts by (intro map_cong) (simp_all add: breaker_next_def split: breaker_state.split)
  finally show ?thesis using run x by blast
qed

theorem breaker_sweep_steps_witness:
  "\<exists>n d'. Breaker (\<lambda>_. quiet_stmt sample_now) 20 10 30000000 sample_db = (Inr n, d') \<and> queues d' = [sample_queue]"
proof -
  have "distinct (map q_id (queues sample_db))" "\<forall>q \<in> set (queues sample_db). check_queue q"
    by (simp_all add: check_queue_def sample_defs)
  from breaker_sweep_steps [OF this, of sample_now 20 10 30000000]
  show ?thesis by (auto simp: window_of_def order_limit_def sample_defs)
qed

section \<open>The half-open state\<close>

text \<open>
  A half-open queue whose probe budget is spent waits for one execution to end: as long as no closed
  execution of the queue has finished since the breaker allowed probing, every admission grants nothing
  and changes nothing, and every sweep leaves the queue as it is. The budget is spent by the admission
  itself, before it is known whether there is a job to take; if there is none, no execution ever comes.
\<close>

theorem half_open_waits_for_probe:
  assumes "queue_of d q = Some r" and "q_breaker_state r = Half_open" and "q_breaker_probe_budget r = 0"
    and "probe_outcome (job_executions d) r = None"
    and "distinct (map q_id (queues d))"
  shows "queue_admit q want rot d now d = Inr ((0, 0), d) \<and>
    breaker_queue (quiet_stmt now) (quiet_stmt now) failures trip cooldown (qb_of r) d = (Inr 0, d)"
proof
  have id: "q_id r = q" using assms(1) by (auto dest: lookup_row_SomeD)
  show "queue_admit q want rot d now d = Inr ((0, 0), d)"
    using assms(1-3) id by (simp add: queue_admit_def breaker_gate_def)
  have "stmt (quiet_stmt now) (\<lambda>_. breaker_probe (q_id r) (q_breaker_open_until r)) d = (Inr None, d)"
    by (rule stmt_quiet) (use assms(4) in \<open>simp add: breaker_probe_def probe_outcome_def\<close>)
  then show "breaker_queue (quiet_stmt now) (quiet_stmt now) failures trip cooldown (qb_of r) d = (Inr 0, d)"
    using assms(2) by (simp add: breaker_queue_def qb_of_def)
qed

definition stuck_db :: db where
  "stuck_db = sample_db\<lparr>queues := [sample_queue\<lparr>q_breaker_state := Half_open, q_breaker_open_until := Some 50\<rparr>], jobs := [],
     job_executions := [], job_leases := []\<rparr>"

theorem half_open_waits_for_probe_witness:
  "queue_admit 7 4 0 stuck_db sample_now stuck_db = Inr ((0, 0), stuck_db)"
proof -
  let ?r = "sample_queue\<lparr>q_breaker_state := Half_open, q_breaker_open_until := Some 50\<rparr>"
  have "queue_of stuck_db 7 = Some ?r" "q_breaker_state ?r = Half_open" "q_breaker_probe_budget ?r = 0"
    "probe_outcome (job_executions stuck_db) ?r = None" "distinct (map q_id (queues stuck_db))"
    by (simp_all add: stuck_db_def sample_defs probe_outcome_def order_limit_def)
  from half_open_waits_for_probe [OF this] show ?thesis by blast
qed

end
