(* ===== verification/Cron.thy ===== *)
theory Cron
  imports Breaker
begin

text \<open>
  Recurring schedules: \<open>src/internal/scheduler/cron.go\<close>. \<open>Materialize\<close> turns the ticks of the due schedules
  into jobs, in one transaction. The tick loop of a schedule, its catch-up and overlap policies, the unique
  index that makes a tick fire once, and the disabling of a schedule whose expression does not parse are
  modelled as written.

  Parsing a cron expression, loading a time zone and computing the next tick are library code: the record
  \<open>cron_lib\<close> holds them, and the theorems speak of the ticks it produces, whatever they are.
\<close>

section \<open>Inserting a job\<close>

definition tick_taken :: "uuid \<Rightarrow> timestamptz \<Rightarrow> db \<Rightarrow> bool" where
  "tick_taken sch t d \<longleftrightarrow> (\<exists>j \<in> set (jobs d). j_schedule_id j = Some sch \<and> j_scheduled_for j = Some t)"

definition refs_ok :: "job \<Rightarrow> db \<Rightarrow> bool" where
  "refs_ok j d \<longleftrightarrow> (\<exists>q \<in> set (queues d). q_id q = j_queue_id j \<and> q_project_id q = j_project_id j) \<and>
     (\<exists>p \<in> set (retry_policies d). p_id p = j_retry_policy_id j)"

definition insert_job :: "job \<Rightarrow> db \<Rightarrow> pg_error + db" where
  "insert_job j d =
    (if \<not> check_job j then Inl check_violation
     else if j_id j \<in> j_id ` set (jobs d) then Inl unique_violation
     else if (case j_schedule_id j of None \<Rightarrow> False | Some s \<Rightarrow> tick_taken s (the (j_scheduled_for j)) d)
       then Inl unique_violation
     else if \<not> refs_ok j d then Inl fk_violation
     else Inr (d\<lparr>jobs := jobs d @ [j]\<rparr>))"

text \<open>A row as \<open>insert into jobs\<close> builds it: the defaults of the table for the columns not named.\<close>

definition new_job :: "uuid \<Rightarrow> uuid \<Rightarrow> uuid \<Rightarrow> string \<Rightarrow> string \<Rightarrow> job_status \<Rightarrow> timestamptz \<Rightarrow> uuid \<Rightarrow> timestamptz \<Rightarrow> job" where
  "new_job i project queue typ payload st run_at policy now =
     \<lparr>j_id = i, j_project_id = project, j_queue_id = queue, j_schedule_id = None, j_scheduled_for = None,
      j_batch_id = None, j_type = typ, j_payload = payload, j_status = st, j_priority = 0, j_run_at = run_at,
      j_fence = 0, j_attempt_count = 0, j_replay_generation = 0, j_snooze_count = 0, j_worker_id = None,
      j_deadline_at = None, j_timeout_ms = 300000, j_retry_policy_id = policy, j_pending_deps = 0,
      j_created_at = now, j_claimed_at = None, j_started_at = None, j_finished_at = None, j_shard = 0\<rparr>"

section \<open>The library\<close>

record ('loc, 'sched) cron_lib =
  load_location :: "string \<Rightarrow> 'loc option"
  parse_standard :: "string \<Rightarrow> 'sched option"
  sched_next :: "'sched \<Rightarrow> 'loc \<Rightarrow> timestamptz \<Rightarrow> timestamptz"

definition NextTick :: "('loc, 'sched) cron_lib \<Rightarrow> string \<Rightarrow> string \<Rightarrow> timestamptz \<Rightarrow> timestamptz option" where
  "NextTick lib expr tz after =
    (case load_location lib tz of None \<Rightarrow> None
     | Some loc \<Rightarrow> (case parse_standard lib expr of None \<Rightarrow> None
        | Some sched \<Rightarrow> Some (sched_next lib sched loc after)))"

section \<open>Materialize\<close>

record due =
  du_id :: uuid
  du_queueID :: uuid
  du_projectID :: uuid
  du_policyID :: uuid
  du_expr :: string
  du_tz :: string
  du_jobType :: string
  du_payload :: string
  du_overlap :: overlap_policy
  du_catchup :: catchup_policy
  du_nextRunAt :: timestamptz

definition due_of :: "schedule \<Rightarrow> queue \<Rightarrow> due" where
  "due_of s q = \<lparr>du_id = sc_id s, du_queueID = sc_queue_id s, du_projectID = q_project_id q,
     du_policyID = q_retry_policy_id q, du_expr = sc_cron_expr s, du_tz = sc_timezone s,
     du_jobType = sc_job_type s, du_payload = sc_payload s, du_overlap = sc_overlap_policy s,
     du_catchup = sc_catchup_policy s, du_nextRunAt = sc_next_run_at s\<rparr>"

definition is_due :: "(uuid \<Rightarrow> bool) \<Rightarrow> timestamptz \<Rightarrow> schedule \<Rightarrow> bool" where
  "is_due locked now s \<longleftrightarrow> sc_enabled s \<and> sc_next_run_at s \<le> now \<and> \<not> locked (sc_id s)"

definition due_schedules :: "nat \<Rightarrow> (uuid \<Rightarrow> bool) \<Rightarrow> timestamptz \<Rightarrow> db \<Rightarrow> due list" where
  "due_schedules limit locked now d =
     order_limit du_nextRunAt limit
       (List.map_filter (\<lambda>s. if is_due locked now s then map_option (due_of s) (queue_of d (sc_queue_id s)) else None)
          (schedules d))"

text \<open>
  The loop over the ticks that have passed. The source breaks out once \<open>count\<close> exceeds 100000, which bounds
  the recursion; \<open>None\<close> is the error of \<open>NextTick\<close>.
\<close>

function due_loop :: "(timestamptz \<Rightarrow> timestamptz option) \<Rightarrow> timestamptz \<Rightarrow> timestamptz \<Rightarrow> timestamptz \<Rightarrow> nat \<Rightarrow>
    (timestamptz \<times> nat) option" where
  "due_loop next now t lst count =
    (if now < t then Some (lst, count)
     else case next t of
       None \<Rightarrow> None
     | Some nt \<Rightarrow> if 100000 < count + 1 then Some (t, count + 1) else due_loop next now nt t (count + 1))"
  by pat_completeness auto
termination by (relation "measure (\<lambda>(_, _, _, _, c). 100001 - c)") auto

declare due_loop.simps [simp del]

definition fire_decision :: "catchup_policy \<Rightarrow> nat \<Rightarrow> bool \<times> nat" where
  "fire_decision catchup count =
    (if 1 < count then (if catchup = Catchup_fire_once then (True, count - 1) else (False, count))
     else (True, 0))"

definition overlap_clear :: "uuid \<Rightarrow> db \<Rightarrow> bool" where
  "overlap_clear sch d \<longleftrightarrow>
     \<not> (\<exists>j \<in> set (jobs d). j_schedule_id j = Some sch \<and>
          j_status j \<in> {Scheduled, Queued, Claimed, Running, Retry_wait})"

definition scheduled_job :: "uuid \<Rightarrow> due \<Rightarrow> timestamptz \<Rightarrow> timestamptz \<Rightarrow> job" where
  "scheduled_job i du target now =
     (new_job i (du_projectID du) (du_queueID du) (du_jobType du) (du_payload du) Queued target (du_policyID du) now)
       \<lparr>j_schedule_id := Some (du_id du), j_scheduled_for := Some target\<rparr>"

definition insert_scheduled :: "uuid \<Rightarrow> due \<Rightarrow> timestamptz \<Rightarrow> timestamptz \<Rightarrow> bool tx" where
  "insert_scheduled i du target now d =
    (if tick_taken (du_id du) target d then Inr (False, d)
     else rbind (insert_job (scheduled_job i du target now) d) (\<lambda>d1. Inr (True, d1)))"

definition advance_schedule :: "uuid \<Rightarrow> timestamptz \<Rightarrow> timestamptz option \<Rightarrow> db \<Rightarrow> db" where
  "advance_schedule i nextFuture firedFor d =
     d\<lparr>schedules := update_where (\<lambda>s. sc_id s = i)
        (\<lambda>s. s\<lparr>sc_next_run_at := nextFuture,
               sc_last_fired_for := (case firedFor of None \<Rightarrow> sc_last_fired_for s | Some t \<Rightarrow> Some t)\<rparr>) (schedules d)\<rparr>"

definition disableSchedule :: "timestamptz \<Rightarrow> uuid \<Rightarrow> uuid \<Rightarrow> db \<Rightarrow> db" where
  "disableSchedule now i project d =
     emit ''schedule.error'' i project [] now
       (d\<lparr>schedules := update_where (\<lambda>s. sc_id s = i) (\<lambda>s. s\<lparr>sc_enabled := False\<rparr>) (schedules d)\<rparr>)"

text \<open>The events and the advance after the insert of one schedule.\<close>

definition settle :: "timestamptz \<Rightarrow> uuid \<Rightarrow> due \<Rightarrow> timestamptz \<Rightarrow> timestamptz \<Rightarrow> bool \<Rightarrow> bool \<Rightarrow> nat \<Rightarrow> db \<Rightarrow> db" where
  "settle now i du target nextFuture fired overlapSkip skipped d =
    (let d1 = (if fired then emit ''job.scheduled'' i (du_projectID du) [] now d else d);
         d2 = (if overlapSkip then emit ''schedule.tick_skipped_overlap'' (du_id du) (du_projectID du) [] now d1 else d1);
         d3 = (if 0 < skipped
               then emit ''schedule.ticks_skipped'' (du_id du) (du_projectID du) [(''count'', JInt (int skipped))] now d2
               else d2)
     in advance_schedule (du_id du) nextFuture (if fired then Some target else None) d3)"

definition materialize_one :: "('loc, 'sched) cron_lib \<Rightarrow> timestamptz \<Rightarrow> uuid \<Rightarrow> due \<Rightarrow> bool tx" where
  "materialize_one lib now i du d =
    (let next = NextTick lib (du_expr du) (du_tz du) in
     case due_loop next now (du_nextRunAt du) (du_nextRunAt du) 0 of
       None \<Rightarrow> Inr (False, disableSchedule now (du_id du) (du_projectID du) d)
     | Some (lst, count) \<Rightarrow>
        (case next lst of
           None \<Rightarrow> Inr (False, disableSchedule now (du_id du) (du_projectID du) d)
         | Some nextFuture \<Rightarrow>
            (let fs = fire_decision (du_catchup du) count;
                 overlapSkip = fst fs \<and> du_overlap du = Overlap_skip \<and> \<not> overlap_clear (du_id du) d
             in rbind (if fst fs \<and> \<not> overlapSkip then insert_scheduled i du lst now d else Inr (False, d)) (\<lambda>r.
                  Inr (fst r, settle now i du lst nextFuture (fst r) overlapSkip (snd fs) (snd r))))))"

fun materialize_loop :: "('loc, 'sched) cron_lib \<Rightarrow> timestamptz \<Rightarrow> (nat \<Rightarrow> uuid) \<Rightarrow> nat \<Rightarrow> due list \<Rightarrow> nat \<Rightarrow> nat tx" where
  "materialize_loop lib now ids k [] materialized d = Inr (materialized, d)"
| "materialize_loop lib now ids k (du # rest) materialized d =
     rbind (materialize_one lib now (ids k) du d) (\<lambda>r.
       materialize_loop lib now ids (Suc k) rest (if fst r then Suc materialized else materialized) (snd r))"

definition materialize_tx :: "('loc, 'sched) cron_lib \<Rightarrow> (nat \<Rightarrow> uuid) \<Rightarrow> nat \<Rightarrow> (uuid \<Rightarrow> bool) \<Rightarrow> timestamptz \<Rightarrow> nat tx" where
  "materialize_tx lib ids limit locked now d = materialize_loop lib now ids 0 (due_schedules limit locked now d) 0 d"

definition Materialize :: "('loc, 'sched) cron_lib \<Rightarrow> (nat \<Rightarrow> uuid) \<Rightarrow> stmt_env \<Rightarrow> (uuid \<Rightarrow> bool) \<Rightarrow> nat \<Rightarrow> db \<Rightarrow>
    (go_error + nat) \<times> db" where
  "Materialize lib ids env locked limit d = stmt env (materialize_tx lib ids limit locked) d"

section \<open>The tick loop\<close>

lemma due_loop_le: "due_loop nt now t lst c = Some (l, n) \<Longrightarrow> lst \<le> now \<Longrightarrow> l \<le> now"
proof (induction nt now t lst c rule: due_loop.induct)
  case (1 nt now t lst c)
  then show ?case
    by (cases "now < t"; cases "nt t"; cases "100000 < c + 1") (simp_all add: due_loop.simps [of nt now t lst c])
qed

lemma due_loop_run:
  assumes "\<And>t. nt t = Some (nx t)" and "\<And>k. k < n \<Longrightarrow> (nx ^^ k) t \<le> now"
    and "now < (nx ^^ n) t \<or> c + n = 100001" and "c + n \<le> 100001" and "0 < n"
  shows "due_loop nt now t lst c = Some ((nx ^^ (n - 1)) t, c + n)"
  using assms(2-5)
proof (induction n arbitrary: t lst c)
  case (Suc n)
  have le: "\<not> now < t" using Suc.prems(1) [of 0] by simp
  have shift: "(nx ^^ k) (nx t) = (nx ^^ Suc k) t" for k by (simp add: funpow_Suc_right del: funpow.simps)
  show ?case
  proof (cases n)
    case 0
    have "now < nx t \<or> 100000 < c + 1" using Suc.prems(2) 0 by auto
    then show ?thesis using le 0
      by (subst due_loop.simps) (auto simp: assms(1) due_loop.simps [of nt now "nx t" t "Suc c"])
  next
    case (Suc m)
    have "due_loop nt now (nx t) t (c + 1) = Some ((nx ^^ (n - 1)) (nx t), (c + 1) + n)"
      using Suc.prems Suc by (intro Suc.IH) (auto simp: shift simp del: funpow.simps)
    moreover have "(nx ^^ (n - 1)) (nx t) = (nx ^^ n) t" using Suc by (simp add: shift del: funpow.simps)
    ultimately show ?thesis using le Suc.prems(3) Suc by (subst due_loop.simps) (simp add: assms(1))
  qed
qed simp

section \<open>One schedule\<close>

lemma advance_schedule_frame [simp]:
  "jobs (advance_schedule i t f d) = jobs d" "queues (advance_schedule i t f d) = queues d"
  "retry_policies (advance_schedule i t f d) = retry_policies d" "events (advance_schedule i t f d) = events d"
  by (simp_all add: advance_schedule_def)

lemma settle_frame [simp]:
  "jobs (settle now i du t nf fired os sk d) = jobs d" "queues (settle now i du t nf fired os sk d) = queues d"
  "retry_policies (settle now i du t nf fired os sk d) = retry_policies d"
  "schedules (settle now i du t nf fired os sk d) =
     schedules (advance_schedule (du_id du) nf (if fired then Some t else None) d)"
  by (simp_all add: settle_def Let_def advance_schedule_def)

lemma disableSchedule_frame [simp]:
  "jobs (disableSchedule now i p d) = jobs d" "queues (disableSchedule now i p d) = queues d"
  "retry_policies (disableSchedule now i p d) = retry_policies d"
  "schedules (disableSchedule now i p d) = update_where (\<lambda>s. sc_id s = i) (\<lambda>s. s\<lparr>sc_enabled := False\<rparr>) (schedules d)"
  by (simp_all add: disableSchedule_def)

lemma scheduled_job_simps [simp]:
  "j_id (scheduled_job i du t now) = i" "j_schedule_id (scheduled_job i du t now) = Some (du_id du)"
  "j_scheduled_for (scheduled_job i du t now) = Some t" "j_status (scheduled_job i du t now) = Queued"
  "j_run_at (scheduled_job i du t now) = t" "j_queue_id (scheduled_job i du t now) = du_queueID du"
  "check_job (scheduled_job i du t now)"
  by (simp_all add: scheduled_job_def new_job_def check_job_def)

lemma scheduled_job_refs:
  "j_project_id (scheduled_job i du t now) = du_projectID du"
  "j_retry_policy_id (scheduled_job i du t now) = du_policyID du"
  by (simp_all add: scheduled_job_def new_job_def)

definition due_refs :: "due \<Rightarrow> db \<Rightarrow> bool" where
  "due_refs du d \<longleftrightarrow> (\<exists>q \<in> set (queues d). q_id q = du_queueID du \<and> q_project_id q = du_projectID du) \<and>
     (\<exists>p \<in> set (retry_policies d). p_id p = du_policyID du)"

lemma insert_scheduled_eq:
  assumes "i \<notin> j_id ` set (jobs d)" and "due_refs du d"
  shows "insert_scheduled i du t now d =
    Inr (\<not> tick_taken (du_id du) t d,
         if tick_taken (du_id du) t d then d else d\<lparr>jobs := jobs d @ [scheduled_job i du t now]\<rparr>)"
  using assms
  by (auto simp: insert_scheduled_def insert_job_def refs_ok_def due_refs_def scheduled_job_refs)

lemma materialize_one_jobs:
  assumes "i \<notin> j_id ` set (jobs d)" and "due_refs du d" and "du_nextRunAt du \<le> now"
  shows "\<exists>fired t d'. materialize_one lib now i du d = Inr (fired, d') \<and> t \<le> now \<and>
    queues d' = queues d \<and> retry_policies d' = retry_policies d \<and>
    (\<exists>f. schedules d' = update_where (\<lambda>s. sc_id s = du_id du) f (schedules d)) \<and>
    jobs d' = jobs d @ (if fired then [scheduled_job i du t now] else []) \<and>
    (fired \<longrightarrow> \<not> tick_taken (du_id du) t d)"
proof (cases "due_loop (NextTick lib (du_expr du) (du_tz du)) now (du_nextRunAt du) (du_nextRunAt du) 0")
  case None
  then show ?thesis using assms(3)
    by (intro exI [of _ False] exI [of _ now]) (auto simp: materialize_one_def)
next
  case (Some r)
  obtain l n where r: "r = (l, n)" by (cases r)
  have l: "l \<le> now" using Some assms(3) unfolding r by (rule due_loop_le)
  show ?thesis
  proof (cases "NextTick lib (du_expr du) (du_tz du) l")
    case None
    then show ?thesis using Some r l
      by (intro exI [of _ False] exI [of _ now]) (auto simp: materialize_one_def)
  next
    case (Some nf)
    then show ?thesis
      using \<open>due_loop _ _ _ _ _ = Some r\<close> r l insert_scheduled_eq [OF assms(1,2), of l now]
      by (auto simp: materialize_one_def Let_def advance_schedule_def intro!: exI [of _ l])
  qed
qed

text \<open>
  C24. What one due schedule does. With an expression and a time zone that parse and at most 100000 ticks
  passed since \<open>next_run_at\<close> (the \<open>n\<close> ticks \<open>t\<^sub>0, nx t\<^sub>0, \<dots>\<close> at or before \<open>now\<close>), the transaction goes on to the
  first tick after \<open>now\<close>, so the schedule is not due any more; it inserts a job for the last of the passed
  ticks exactly when it was the only one or the policy is \<open>fire_once\<close>, no live job of the schedule
  forbids it under the \<open>skip\<close> overlap policy, and the tick has no job yet; and it touches no other job.
\<close>

theorem schedule_fires_latest_tick:
  assumes loc: "load_location lib (du_tz du) = Some loc" and sched: "parse_standard lib (du_expr du) = Some sched"
    and past: "\<And>k. k < n \<Longrightarrow> (sched_next lib sched loc ^^ k) (du_nextRunAt du) \<le> now"
    and future: "now < (sched_next lib sched loc ^^ n) (du_nextRunAt du)" and n: "0 < n" "n \<le> 100000"
    and fresh: "i \<notin> j_id ` set (jobs d)" and refs: "due_refs du d"
    and target: "target = (sched_next lib sched loc ^^ (n - 1)) (du_nextRunAt du)"
    and fires: "fires \<longleftrightarrow> (n = 1 \<or> du_catchup du = Catchup_fire_once) \<and>
        (du_overlap du = Overlap_skip \<longrightarrow> overlap_clear (du_id du) d) \<and> \<not> tick_taken (du_id du) target d"
  shows "\<exists>d'. materialize_one lib now i du d = Inr (fires, d') \<and>
    jobs d' = jobs d @ (if fires then [scheduled_job i du target now] else []) \<and>
    (\<forall>s' \<in> set (schedules d'). sc_id s' = du_id du \<longrightarrow>
       sc_next_run_at s' = (sched_next lib sched loc ^^ n) (du_nextRunAt du) \<and> now < sc_next_run_at s' \<and>
       (fires \<longrightarrow> sc_last_fired_for s' = Some target))"
proof -
  let ?nx = "sched_next lib sched loc"
  have nt: "NextTick lib (du_expr du) (du_tz du) t = Some (?nx t)" for t using loc sched by (simp add: NextTick_def)
  have loop: "due_loop (NextTick lib (du_expr du) (du_tz du)) now (du_nextRunAt du) (du_nextRunAt du) 0 =
      Some (target, n)"
    using due_loop_run [of "NextTick lib (du_expr du) (du_tz du)" ?nx n "du_nextRunAt du" now 0 "du_nextRunAt du"]
      nt past future n target by simp
  have step: "?nx target = (?nx ^^ n) (du_nextRunAt du)"
    using n(1) target by (cases n) auto
  have dec: "fst (fire_decision (du_catchup du) n) \<longleftrightarrow> n = 1 \<or> du_catchup du = Catchup_fire_once"
    using n(1) by (cases "du_catchup du") (auto simp: fire_decision_def)
  show ?thesis
    using insert_scheduled_eq [OF fresh refs, of target now] future
    by (auto simp: materialize_one_def Let_def loop nt dec fires step advance_schedule_def in_update_where_iff
        split: option.splits)
qed

definition minutely :: "(unit, unit) cron_lib" where
  "minutely = \<lparr>load_location = (\<lambda>tz. if tz = ''UTC'' then Some () else None),
     parse_standard = (\<lambda>e. if e = ''* * * * *'' then Some () else None),
     sched_next = (\<lambda>_ _ t. (t div 60000000 + 1) * 60000000)\<rparr>"

definition sample_schedule :: schedule where
  "sample_schedule = \<lparr>sc_id = 20, sc_queue_id = 7, sc_name = ''digest'', sc_cron_expr = ''* * * * *'',
     sc_timezone = ''UTC'', sc_job_type = ''email'', sc_payload = '''', sc_enabled = True,
     sc_overlap_policy = Overlap_skip, sc_catchup_policy = Catchup_fire_once, sc_next_run_at = 0,
     sc_last_fired_for = None, sc_created_at = 0\<rparr>"

definition cron_db :: db where
  "cron_db = sample_db\<lparr>schedules := [sample_schedule]\<rparr>"

lemmas cron_sample_defs = minutely_def sample_schedule_def cron_db_def sample_defs

theorem schedule_fires_latest_tick_witness:
  "\<exists>d'. materialize_one minutely sample_now 21 (due_of sample_schedule sample_queue) cron_db = Inr (True, d') \<and>
    jobs d' = jobs cron_db @ (if True then [scheduled_job 21 (due_of sample_schedule sample_queue) 60000000 sample_now] else []) \<and>
    (\<forall>s' \<in> set (schedules d'). sc_id s' = du_id (due_of sample_schedule sample_queue) \<longrightarrow>
       sc_next_run_at s' = (sched_next minutely () () ^^ 2) (du_nextRunAt (due_of sample_schedule sample_queue)) \<and>
       sample_now < sc_next_run_at s' \<and> (True \<longrightarrow> sc_last_fired_for s' = Some 60000000))"
proof (rule schedule_fires_latest_tick)
  fix k :: nat assume "k < 2"
  then have "k = 0 \<or> k = 1" by auto
  then show "(sched_next minutely () () ^^ k) (du_nextRunAt (due_of sample_schedule sample_queue)) \<le> sample_now"
    by (auto simp: due_of_def cron_sample_defs)
qed (simp_all add: due_of_def due_refs_def overlap_clear_def tick_taken_def numeral_2_eq_2 cron_sample_defs)

section \<open>The whole transaction\<close>

definition ticks_unique :: "db \<Rightarrow> bool" where
  "ticks_unique d \<longleftrightarrow>
     distinct (map (\<lambda>j. (j_schedule_id j, j_scheduled_for j)) (filter (\<lambda>j. j_schedule_id j \<noteq> None) (jobs d)))"

lemma ticks_unique_insert:
  "ticks_unique d \<Longrightarrow> \<not> tick_taken (du_id du) t d \<Longrightarrow> jobs d' = jobs d @ [scheduled_job i du t now] \<Longrightarrow> ticks_unique d'"
  by (auto simp: ticks_unique_def tick_taken_def)

lemma jobs_wf_insert:
  "jobs_wf d \<Longrightarrow> check_job j \<Longrightarrow> j_id j \<notin> j_id ` set (jobs d) \<Longrightarrow> jobs d' = jobs d @ [j] \<Longrightarrow> jobs_wf d'"
  by (auto simp: jobs_wf_def)

lemma materialize_loop_jobs:
  assumes "jobs_wf d" and "ticks_unique d" and "distinct (map du_id dus)"
    and "\<forall>du \<in> set dus. due_refs du d \<and> du_nextRunAt du \<le> now"
    and "inj ids" and "\<forall>m \<ge> k. ids m \<notin> j_id ` set (jobs d)"
  shows "\<exists>new d'. materialize_loop lib now ids k dus c d = Inr (c + length new, d') \<and> jobs d' = jobs d @ new \<and>
    length new \<le> length dus \<and> jobs_wf d' \<and> ticks_unique d' \<and> distinct (map j_schedule_id new) \<and>
    (\<forall>j \<in> set new. \<exists>du \<in> set dus. \<exists>i. \<exists>t \<le> now. j = scheduled_job i du t now) \<and>
    (\<forall>s \<in> set (schedules d). sc_id s \<notin> du_id ` set dus \<longrightarrow> s \<in> set (schedules d'))"
  using assms
proof (induction dus arbitrary: k c d)
  case Nil
  then show ?case by (intro exI [of _ "[]"]) simp
next
  case (Cons du dus)
  have fresh: "ids k \<notin> j_id ` set (jobs d)" using Cons.prems(6) by simp
  have du: "due_refs du d" "du_nextRunAt du \<le> now" using Cons.prems(4) by auto
  obtain fired t d1 f where one: "materialize_one lib now (ids k) du d = Inr (fired, d1)" and t: "t \<le> now"
    and qs: "queues d1 = queues d" "retry_policies d1 = retry_policies d"
    and sc: "schedules d1 = update_where (\<lambda>s. sc_id s = du_id du) f (schedules d)"
    and js: "jobs d1 = jobs d @ (if fired then [scheduled_job (ids k) du t now] else [])"
    and tk: "fired \<longrightarrow> \<not> tick_taken (du_id du) t d"
    using materialize_one_jobs [OF fresh du, of lib] by - (elim exE conjE, rule that; assumption)
  have wf: "jobs_wf d1"
    using Cons.prems(1) fresh js by (cases fired) (auto intro: jobs_wf_insert simp: jobs_wf_def)
  have tu: "ticks_unique d1"
  proof (cases fired)
    case True
    with js tk show ?thesis by (intro ticks_unique_insert [OF Cons.prems(2)]) auto
  qed (use Cons.prems(2) js in \<open>simp add: ticks_unique_def\<close>)
  have "m \<noteq> k \<Longrightarrow> ids m \<noteq> ids k" for m using injD [OF Cons.prems(5), of m k] by blast
  then have fresh': "\<forall>m \<ge> Suc k. ids m \<notin> j_id ` set (jobs d1)"
    using Cons.prems(6) js by (cases fired) auto
  have dist: "distinct (map du_id dus)" using Cons.prems(3) by simp
  have refs: "\<forall>e \<in> set dus. due_refs e d1 \<and> du_nextRunAt e \<le> now"
    using Cons.prems(4) by (simp add: due_refs_def qs)
  obtain new d' where ih: "materialize_loop lib now ids (Suc k) dus (if fired then Suc c else c) d1 =
        Inr ((if fired then Suc c else c) + length new, d')"
    "jobs d' = jobs d1 @ new" "length new \<le> length dus" "jobs_wf d'" "ticks_unique d'" "distinct (map j_schedule_id new)"
    and new: "\<forall>j \<in> set new. \<exists>du \<in> set dus. \<exists>i. \<exists>t \<le> now. j = scheduled_job i du t now"
    and keep: "\<forall>s \<in> set (schedules d1). sc_id s \<notin> du_id ` set dus \<longrightarrow> s \<in> set (schedules d')"
    using Cons.IH [of d1 "Suc k" "if fired then Suc c else c", OF wf tu dist refs Cons.prems(5) fresh']
    by - (elim exE conjE, rule that; assumption)
  have apart: "Some (du_id du) \<notin> j_schedule_id ` set new" using new Cons.prems(3) by force
  let ?new = "(if fired then [scheduled_job (ids k) du t now] else []) @ new"
  have "\<exists>du' \<in> set (du # dus). \<exists>i. \<exists>t \<le> now. j = scheduled_job i du' t now" if "j \<in> set ?new" for j
    using that new t by (cases fired) auto
  moreover have "s \<in> set (schedules d')" if "s \<in> set (schedules d)" "sc_id s \<notin> du_id ` set (du # dus)" for s
    using that keep by (simp add: sc in_update_where_iff)
  ultimately show ?case
    using one ih apart by (intro exI [of _ ?new] exI [of _ d']) (auto simp: js)
qed

lemma mem_map_filter: "y \<in> set (List.map_filter f xs) \<longleftrightarrow> (\<exists>x \<in> set xs. f x = Some y)"
  by (induction xs) (auto simp: List.map_filter_simps split: option.split)

lemma due_schedules_sel:
  assumes "du \<in> set (due_schedules limit locked now d)"
  shows "\<exists>s \<in> set (schedules d). \<exists>q \<in> set (queues d). is_due locked now s \<and> q_id q = sc_queue_id s \<and> du = due_of s q"
proof -
  from subsetD [OF set_order_limit assms [unfolded due_schedules_def]] obtain s q where
    "s \<in> set (schedules d)" "is_due locked now s" "queue_of d (sc_queue_id s) = Some q" "du = due_of s q"
    by (auto simp: mem_map_filter split: if_splits)
  with lookup_row_SomeD [of q_id "sc_queue_id s" "queues d" q] show ?thesis by blast
qed

lemma map_filter_keys:
  assumes "distinct (map k rs)" and "\<And>r y. f r = Some y \<Longrightarrow> k' y = k r"
  shows "distinct (map k' (List.map_filter f rs))"
  using assms(1)
proof (induction rs)
  case (Cons r rs)
  have "k' y \<in> k ` set rs" if "y \<in> set (List.map_filter f rs)" for y
    using that assms(2) by (auto simp: mem_map_filter)
  then show ?case using Cons assms(2) by (auto simp: List.map_filter_simps split: option.split)
qed (simp add: List.map_filter_simps)

definition schedules_wf :: "db \<Rightarrow> bool" where
  "schedules_wf d \<longleftrightarrow> distinct (map sc_id (schedules d)) \<and>
     (\<forall>q \<in> set (queues d). \<exists>p \<in> set (retry_policies d). p_id p = q_retry_policy_id q)"



end
