(* ===== verification/Housekeeping.thy ===== *)
theory Housekeeping
  imports Cron
begin

text \<open>
  The remaining duties of the scheduler, \<open>src/internal/scheduler\<close>: waking listeners (\<open>notify.go\<close>), partition
  maintenance and the retention of the outbox (\<open>partitions.go\<close> with the functions of \<open>006_archive.sql\<close>), the
  latency percentiles (\<open>rollup.go\<close>), failure summaries (\<open>summary.go\<close>) and the process that runs all of them
  (\<open>scheduler.go\<close>).

  Days are counted in UTC. Percentiles are exact rational interpolation where Postgres uses double precision.
  The language model behind the summaries is the record \<open>ai_service\<close>, and \<open>md5\<close> is a parameter.
\<close>

section \<open>Notify\<close>

definition event_head :: "db \<Rightarrow> int" where
  "event_head d = (if events d = [] then 0 else Max (e_id ` set (events d)))"

text \<open>
  The result is the new head, the error, and whether \<open>pg_notify\<close> was delivered: a notification is part of
  the statement's transaction, so a lost reply leaves it open.
\<close>

definition delivered :: "fate \<Rightarrow> bool" where
  "delivered f = (case f of Runs \<Rightarrow> True | Aborts _ \<Rightarrow> False | Lost _ landed \<Rightarrow> landed)"

definition Notify :: "stmt_env \<Rightarrow> stmt_env \<Rightarrow> int \<Rightarrow> db \<Rightarrow> ((int \<times> go_error option) \<times> bool) \<times> db" where
  "Notify e1 e2 since d =
    (case stmt e1 (\<lambda>_ d. Inr (event_head d, d)) d of
       (Inl e, d1) \<Rightarrow> (((since, Some e), False), d1)
     | (Inr head, d1) \<Rightarrow>
         if head \<le> since then (((since, None), False), d1)
         else (case stmt e2 (\<lambda>_ d. Inr ((), d)) d1 of
             (Inl e, d2) \<Rightarrow> (((since, Some e), delivered (se_fate e2)), d2)
           | (Inr _, d2) \<Rightarrow> (((head, None), True), d2)))"

section \<open>Partitions\<close>

definition day_of :: "timestamptz \<Rightarrow> int" where
  "day_of t = t div 86400000000"

definition ensure_partitions :: "string \<Rightarrow> int \<Rightarrow> int \<Rightarrow> db \<Rightarrow> db" where
  "ensure_partitions parent from_day to_day d =
     d\<lparr>partitions := partitions d @
        filter (\<lambda>p. p \<notin> set (partitions d)) (map (\<lambda>k. (parent, k)) [from_day..to_day])\<rparr>"

text \<open>The rows that go with a dropped partition, by the parent's partition key.\<close>

definition drop_rows :: "string \<Rightarrow> (int \<Rightarrow> bool) \<Rightarrow> db \<Rightarrow> db" where
  "drop_rows parent gone d =
    (if parent = ''events'' then
       d\<lparr>events := delete_where (\<lambda>e. gone (day_of (e_created_at e))) (events d)\<rparr>
     else if parent = ''job_logs'' then
       d\<lparr>job_logs := delete_where (\<lambda>g. gone (day_of (g_ts g))) (job_logs d)\<rparr>
     else if parent = ''jobs_archive'' then
       d\<lparr>jobs_archive := delete_where (\<lambda>(j, t). gone (day_of t)) (jobs_archive d)\<rparr>
     else if parent = ''job_executions_archive'' then
       d\<lparr>job_executions_archive :=
          delete_where (\<lambda>x. gone (day_of (the (x_finished_at x)))) (job_executions_archive d)\<rparr>
     else if parent = ''job_logs_archive'' then
       d\<lparr>job_logs_archive := delete_where (\<lambda>g. gone (day_of (g_ts g))) (job_logs_archive d)\<rparr>
     else if parent = ''dead_letter_jobs_archive'' then
       d\<lparr>dead_letter_jobs_archive :=
          delete_where (\<lambda>l. gone (day_of (d_dead_at l))) (dead_letter_jobs_archive d)\<rparr>
     else d)"

definition drop_partitions_before :: "string \<Rightarrow> int \<Rightarrow> db \<Rightarrow> nat \<times> db" where
  "drop_partitions_before parent cutoff d =
    (let gone = filter (\<lambda>(p, k). p = parent \<and> k < cutoff) (partitions d)
     in (length gone,
         drop_rows parent (\<lambda>k. (parent, k) \<in> set gone) (d\<lparr>partitions := filter (\<lambda>p. p \<notin> set gone) (partitions d)\<rparr>)))"

definition hotParents :: "string list" where
  "hotParents = [''events'', ''job_logs'']"

definition coldParents :: "string list" where
  "coldParents = [''jobs_archive'', ''job_executions_archive'', ''job_logs_archive'', ''dead_letter_jobs_archive'']"

definition hot_step :: "interval \<Rightarrow> interval \<Rightarrow> timestamptz \<Rightarrow> string \<Rightarrow> nat \<times> db \<Rightarrow> nat \<times> db" where
  "hot_step hot horizon now parent s =
    (let r = drop_partitions_before parent (day_of (now - hot))
               (ensure_partitions parent (day_of now) (day_of (now + horizon)) (snd s))
     in (fst s + fst r, snd r))"

definition cold_step :: "interval \<Rightarrow> timestamptz \<Rightarrow> string \<Rightarrow> nat \<times> db \<Rightarrow> nat \<times> db" where
  "cold_step cold now parent s =
    (let r = drop_partitions_before parent (day_of (now - cold)) (snd s) in (fst s + fst r, snd r))"

definition low_water :: "db \<Rightarrow> db" where
  "low_water d = d\<lparr>low_water_id := max (low_water_id d)
      (if events d = [] then event_seq d + 1 else Min (e_id ` set (events d)))\<rparr>"

text \<open>\<open>got\<close> is the answer of \<open>pg_try_advisory_xact_lock\<close>.\<close>

definition maintain_tx :: "bool \<Rightarrow> interval \<Rightarrow> interval \<Rightarrow> interval \<Rightarrow> timestamptz \<Rightarrow> nat tx" where
  "maintain_tx got hot cold horizon now d =
    (if \<not> got then Inr (0, d)
     else let s1 = fold (hot_step hot horizon now) hotParents (0, d);
              s2 = fold (cold_step cold now) coldParents s1
          in Inr (fst s2, low_water (snd s2)))"

definition Maintain :: "stmt_env \<Rightarrow> bool \<Rightarrow> interval \<Rightarrow> interval \<Rightarrow> interval \<Rightarrow> db \<Rightarrow> (go_error + nat) \<times> db" where
  "Maintain env got hot cold horizon d = stmt env (maintain_tx got hot cold horizon) d"

section \<open>Rollup\<close>

definition percentile_cont :: "rat \<Rightarrow> int list \<Rightarrow> rat" where
  "percentile_cont p xs =
    (let ys = sort xs; r = p * of_nat (length ys - 1); lo = nat \<lfloor>r\<rfloor>; hi = nat \<lceil>r\<rceil>;
         a = of_int (ys ! lo); b = of_int (ys ! hi)
     in a + (r - of_nat lo) * (b - a))"

text \<open>The cast of a double to \<open>int\<close> rounds halves to the even neighbour.\<close>

definition round_even :: "rat \<Rightarrow> int" where
  "round_even r =
    (let f = \<lfloor>r\<rfloor>; x = r - of_int f
     in if x < 1/2 then f else if 1/2 < x then f + 1 else if even f then f else f + 1)"

definition closed_durations :: "interval \<Rightarrow> timestamptz \<Rightarrow> uuid \<Rightarrow> timestamptz \<Rightarrow> db \<Rightarrow> int list" where
  "closed_durations lookback now queue minute d =
     List.map_filter (\<lambda>x. case x_finished_at x of
         None \<Rightarrow> None
       | Some t \<Rightarrow> if x_queue_id x = queue \<and> now - lookback \<le> t \<and> t < trunc_minute now \<and> trunc_minute t = minute
                 then duration_ms x else None) (job_executions d)"

definition rollup_hits :: "interval \<Rightarrow> timestamptz \<Rightarrow> db \<Rightarrow> minute_stats \<Rightarrow> bool" where
  "rollup_hits lookback now d m \<longleftrightarrow>
     closed_durations lookback now (m_queue_id m) (m_minute m) d \<noteq> [] \<and> m_duration_ms_p50 m = None"

definition rollup_row :: "interval \<Rightarrow> timestamptz \<Rightarrow> db \<Rightarrow> minute_stats \<Rightarrow> minute_stats" where
  "rollup_row lookback now d m =
    (let xs = closed_durations lookback now (m_queue_id m) (m_minute m) d
     in m\<lparr>m_duration_ms_p50 := Some (round_even (percentile_cont (1/2) xs)),
          m_duration_ms_p95 := Some (round_even (percentile_cont (95/100) xs))\<rparr>)"

definition rollup_sql :: "interval \<Rightarrow> timestamptz \<Rightarrow> nat tx" where
  "rollup_sql lookback now d =
     Inr (count_where (rollup_hits lookback now d) (queue_stats_minute d),
          d\<lparr>queue_stats_minute := update_where (rollup_hits lookback now d) (rollup_row lookback now d) (queue_stats_minute d)\<rparr>)"

definition Rollup :: "stmt_env \<Rightarrow> interval \<Rightarrow> db \<Rightarrow> (go_error + nat) \<times> db" where
  "Rollup env lookback d = stmt env (rollup_sql lookback) d"

section \<open>Summaries\<close>

record ai_service =
  ai_Ready :: bool
  ai_Summarize :: "string \<Rightarrow> Failure list \<Rightarrow> go_error + string"
  ai_Model :: string

text \<open>Postgres as the summaries see it: \<open>md5\<close>, and the order of the error classes under its collation.\<close>

record text_lib =
  tl_md5 :: "string \<Rightarrow> string"
  tl_by_class :: "string \<Rightarrow> nat"

fun nat_text :: "nat \<Rightarrow> string" where
  "nat_text n = (if n < 10 then [char_of (48 + n)] else nat_text (n div 10) @ [char_of (48 + n mod 10)])"

declare nat_text.simps [simp del]

fun join :: "string \<Rightarrow> string list \<Rightarrow> string" where
  "join sep [] = []"
| "join sep [s] = s"
| "join sep (s # t # ts) = s @ sep @ join sep (t # ts)"

definition failure_digest :: "text_lib \<Rightarrow> timestamptz \<Rightarrow> uuid \<Rightarrow> int \<Rightarrow> db \<Rightarrow> string" where
  "failure_digest lib now queue hours d =
    (let xs = failure_rows now queue hours d;
         cs = sort_key (tl_by_class lib) (remdups (map error_class_of xs))
     in if cs = [] then [] else
        tl_md5 lib (join '','' (map (\<lambda>c. c @ '':'' @ nat_text (count_where (\<lambda>x. error_class_of x = c) xs)) cs)))"

record stale =
  st_id :: uuid
  st_name :: string
  st_digest :: string

definition stored_digest :: "uuid \<Rightarrow> db \<Rightarrow> string" where
  "stored_digest queue d =
     (case lookup_row fs_queue_id queue (failure_summaries d) of None \<Rightarrow> [] | Some s \<Rightarrow> fs_digest s)"

definition is_stale :: "text_lib \<Rightarrow> timestamptz \<Rightarrow> int \<Rightarrow> db \<Rightarrow> queue \<Rightarrow> bool" where
  "is_stale lib now hours d q \<longleftrightarrow>
     failure_rows now (q_id q) hours d \<noteq> [] \<and> stored_digest (q_id q) d \<noteq> failure_digest lib now (q_id q) hours d"

definition stale_summaries :: "text_lib \<Rightarrow> int \<Rightarrow> nat \<Rightarrow> timestamptz \<Rightarrow> stale list tx" where
  "stale_summaries lib hours limit now d =
     Inr (map (\<lambda>q. \<lparr>st_id = q_id q, st_name = q_name q, st_digest = failure_digest lib now (q_id q) hours d\<rparr>)
           (order_limit q_id limit (filter (is_stale lib now hours d) (queues d))), d)"

definition save_summary :: "uuid \<Rightarrow> string \<Rightarrow> string \<Rightarrow> string \<Rightarrow> timestamptz \<Rightarrow> unit tx" where
  "save_summary queue digest text model now d =
    (let row = \<lparr>fs_queue_id = queue, fs_digest = digest, fs_summary = text, fs_model = model, fs_generated_at = now\<rparr>
     in if \<not> (\<exists>q \<in> set (queues d). q_id q = queue) then Inl fk_violation
        else if queue \<in> fs_queue_id ` set (failure_summaries d)
        then Inr ((), d\<lparr>failure_summaries := update_where (\<lambda>s. fs_queue_id s = queue) (\<lambda>_. row) (failure_summaries d)\<rparr>)
        else Inr ((), d\<lparr>failure_summaries := failure_summaries d @ [row]\<rparr>))"

definition summaryGroups :: nat where
  "summaryGroups = 20"

fun summarize_loop :: "(nat \<Rightarrow> stmt_env) \<Rightarrow> ai_service \<Rightarrow> text_lib \<Rightarrow> nat \<Rightarrow> stale list \<Rightarrow> nat \<Rightarrow> go_error option \<Rightarrow> db \<Rightarrow>
    (nat \<times> go_error option) \<times> db" where
  "summarize_loop env ai lib i [] written lst d = ((written, lst), d)"
| "summarize_loop env ai lib i (s # rest) written lst d =
    (case stmt (env (2 * i + 1)) (\<lambda>now d. Inr (Failures (tl_by_class lib) now (st_id s) FailureWindow summaryGroups d, d)) d of
       (Inl e, d1) \<Rightarrow> ((written, Some e), d1)
     | (Inr fails, d1) \<Rightarrow>
         if fails = [] then summarize_loop env ai lib (Suc i) rest written lst d1
         else (case ai_Summarize ai (st_name s) fails of
             Inl e \<Rightarrow> summarize_loop env ai lib (Suc i) rest written (Some e) d1
           | Inr text \<Rightarrow>
               (case stmt (env (2 * i + 2)) (save_summary (st_id s) (st_digest s) text (ai_Model ai)) d1 of
                  (Inl e, d2) \<Rightarrow> ((written, Some e), d2)
                | (Inr _, d2) \<Rightarrow> summarize_loop env ai lib (Suc i) rest (Suc written) lst d2)))"

definition Summarize :: "(nat \<Rightarrow> stmt_env) \<Rightarrow> ai_service \<Rightarrow> text_lib \<Rightarrow> nat \<Rightarrow> db \<Rightarrow> (nat \<times> go_error option) \<times> db" where
  "Summarize env ai lib limit d =
    (if \<not> ai_Ready ai then ((0, None), d)
     else case stmt (env 0) (stale_summaries lib FailureWindow limit) d of
       (Inl e, d1) \<Rightarrow> ((0, Some e), d1)
     | (Inr todo, d1) \<Rightarrow> summarize_loop env ai lib 0 todo 0 None d1)"

section \<open>The scheduler process\<close>

record SchedConfig =
  cf_Promote :: interval
  cf_Reap :: interval
  cf_Cron :: interval
  cf_Breaker :: interval
  cf_Age :: interval
  cf_Partition :: interval
  cf_Notify :: interval
  cf_Rollup :: interval
  cf_Sweep :: interval
  cf_Summary :: interval
  cf_Batch :: nat
  cf_AgeAfter :: interval
  cf_AgeCeiling :: int
  cf_Hot :: interval
  cf_Cold :: interval
  cf_Horizon :: interval
  cf_Lookback :: interval
  cf_Window :: nat
  cf_Trip :: nat
  cf_Cooldown :: interval

definition DefaultSchedConfig :: SchedConfig where
  "DefaultSchedConfig = \<lparr>cf_Promote = 1000000, cf_Reap = 5 * 1000000, cf_Cron = 1000000, cf_Breaker = 5 * 1000000,
     cf_Age = 30 * 1000000, cf_Partition = 3600 * 1000000, cf_Notify = 20 * 1000, cf_Rollup = 60 * 1000000,
     cf_Sweep = 60 * 1000000, cf_Summary = 5 * 60 * 1000000, cf_Batch = 100, cf_AgeAfter = 5 * 60 * 1000000,
     cf_AgeCeiling = 3, cf_Hot = 7 * 24 * 3600 * 1000000, cf_Cold = 90 * 24 * 3600 * 1000000,
     cf_Horizon = 30 * 24 * 3600 * 1000000, cf_Lookback = 10 * 60 * 1000000, cf_Window = 20, cf_Trip = 10,
     cf_Cooldown = 30 * 1000000\<rparr>"

text \<open>The wait before a round of a loop; \<open>r\<close> is what \<open>rand.Int64N\<close> drew, below \<open>d/2 + 1\<close>.\<close>

definition jitter :: "interval \<Rightarrow> int \<Rightarrow> interval" where
  "jitter dur r = (if dur \<le> 0 then 0 else dur div 2 + r)"

datatype task =
  T_promote | T_reap | T_sweep | T_cron | T_breaker | T_age | T_partition | T_rollup | T_summary | T_notify

fun task_every :: "SchedConfig \<Rightarrow> task \<Rightarrow> interval" where
  "task_every cfg T_promote = cf_Promote cfg"
| "task_every cfg T_reap = cf_Reap cfg"
| "task_every cfg T_sweep = cf_Sweep cfg"
| "task_every cfg T_cron = cf_Cron cfg"
| "task_every cfg T_breaker = cf_Breaker cfg"
| "task_every cfg T_age = cf_Age cfg"
| "task_every cfg T_partition = cf_Partition cfg"
| "task_every cfg T_rollup = cf_Rollup cfg"
| "task_every cfg T_summary = cf_Summary cfg"
| "task_every cfg T_notify = cf_Notify cfg"

text \<open>What one round of a loop meets: its statements' environments, the locked rows, fresh ids, the lock answer.\<close>

record round_env =
  re_stmt :: "nat \<Rightarrow> stmt_env"
  re_locked :: "uuid \<Rightarrow> bool"
  re_ids :: "nat \<Rightarrow> uuid"
  re_got :: bool

definition err_of :: "(go_error + 'a) \<times> db \<Rightarrow> go_error option \<times> db" where
  "err_of r = (case r of (Inl e, d) \<Rightarrow> (Some e, d) | (Inr _, d) \<Rightarrow> (None, d))"

text \<open>
  One round of the function a loop runs: its error, the notified head and the database after it. \<open>Run\<close>
  starts the ten loops, which interleave freely; an error is logged and its loop goes on. So a run is a
  list of rounds, in the order they take place.
\<close>

fun run_task :: "SchedConfig \<Rightarrow> ('l, 's) cron_lib \<Rightarrow> ai_service \<Rightarrow> text_lib \<Rightarrow> round_env \<Rightarrow> task \<Rightarrow> int \<times> db \<Rightarrow>
    go_error option \<times> int \<times> db" where
  "run_task cfg lib ai tlib env T_promote (head, d) =
     (case err_of (Promote (re_stmt env 0) (re_locked env) (cf_Batch cfg) d) of (e, d') \<Rightarrow> (e, head, d'))"
| "run_task cfg lib ai tlib env T_reap (head, d) =
     (case Reap (re_stmt env) (cf_Batch cfg) d of ((_, e), d') \<Rightarrow> (e, head, d'))"
| "run_task cfg lib ai tlib env T_sweep (head, d) =
     (case err_of (SweepOrphanExecutions (re_stmt env 0) (cf_Batch cfg) d) of (e, d') \<Rightarrow> (e, head, d'))"
| "run_task cfg lib ai tlib env T_cron (head, d) =
     (case err_of (Materialize lib (re_ids env) (re_stmt env 0) (re_locked env) (cf_Batch cfg) d) of (e, d') \<Rightarrow> (e, head, d'))"
| "run_task cfg lib ai tlib env T_breaker (head, d) =
     (case err_of (Breaker (re_stmt env) (cf_Window cfg) (cf_Trip cfg) (cf_Cooldown cfg) d) of (e, d') \<Rightarrow> (e, head, d'))"
| "run_task cfg lib ai tlib env T_age (head, d) =
     (case err_of (Age (re_stmt env 0) (cf_AgeAfter cfg) (cf_AgeCeiling cfg) (cf_Batch cfg) d) of (e, d') \<Rightarrow> (e, head, d'))"
| "run_task cfg lib ai tlib env T_partition (head, d) =
     (case err_of (Maintain (re_stmt env 0) (re_got env) (cf_Hot cfg) (cf_Cold cfg) (cf_Horizon cfg) d) of (e, d') \<Rightarrow> (e, head, d'))"
| "run_task cfg lib ai tlib env T_rollup (head, d) =
     (case err_of (Rollup (re_stmt env 0) (cf_Lookback cfg) d) of (e, d') \<Rightarrow> (e, head, d'))"
| "run_task cfg lib ai tlib env T_summary (head, d) =
     (case Summarize (re_stmt env) ai tlib (cf_Batch cfg) d of ((_, e), d') \<Rightarrow> (e, head, d'))"
| "run_task cfg lib ai tlib env T_notify (head, d) =
     (case Notify (re_stmt env 0) (re_stmt env 1) head d of (((n, e), _), d') \<Rightarrow> (e, n, d'))"

fun scheduler_run :: "SchedConfig \<Rightarrow> ('l, 's) cron_lib \<Rightarrow> ai_service \<Rightarrow> text_lib \<Rightarrow> (task \<times> round_env) list \<Rightarrow> int \<times> db \<Rightarrow> int \<times> db" where
  "scheduler_run cfg lib ai tlib [] st = st"
| "scheduler_run cfg lib ai tlib ((t, env) # rounds) st =
     scheduler_run cfg lib ai tlib rounds (snd (run_task cfg lib ai tlib env t st))"

section \<open>Notifications are not lost\<close>

lemma event_head_le: "e \<in> set (events d) \<Longrightarrow> e_id e \<le> event_head d"
  by (auto simp: event_head_def)

lemma event_head_in: "0 < event_head d \<Longrightarrow> event_head d \<in> e_id ` set (events d)"
  unfolding event_head_def using Max_in [of "e_id ` set (events d)"] by (auto split: if_splits)

text \<open>
  Whatever happens to the two statements of a round, the head it keeps never goes back; it moves only
  when the notification was delivered, and then to the last event of the outbox it read; a round that reports
  no error leaves no event above its head; and when both statements run, the round notifies exactly when the
  outbox holds an event past the old head.
\<close>

theorem notify_follows_outbox:
  assumes "Notify e1 e2 since d = (((head, err), sent), d')" and "0 \<le> since"
  shows "since \<le> head \<and>
    (head \<noteq> since \<longrightarrow> sent \<and> err = None \<and> head \<in> e_id ` set (events (se_before e1 d))) \<and>
    (err = None \<longrightarrow> (\<forall>e \<in> set (events (se_before e1 d)). e_id e \<le> head)) \<and>
    (se_fate e1 = Runs \<longrightarrow> se_fate e2 = Runs \<longrightarrow>
       err = None \<and> (sent \<longleftrightarrow> (\<exists>e \<in> set (events (se_before e1 d)). since < e_id e)))"
proof -
  let ?d1 = "se_before e1 d"
  have read: "stmt e1 (\<lambda>_ d. Inr (event_head d, d)) d =
      (case se_fate e1 of Runs \<Rightarrow> Inr (event_head ?d1) | Aborts c \<Rightarrow> Inl (Pg (PgError c)) | Lost e l \<Rightarrow> Inl (Conn e), ?d1)"
    by (auto simp: stmt_def run_tx_def split: fate.split)
  have send: "stmt e2 (\<lambda>_ d. Inr ((), d)) dd =
      (case se_fate e2 of Runs \<Rightarrow> Inr () | Aborts c \<Rightarrow> Inl (Pg (PgError c)) | Lost e l \<Rightarrow> Inl (Conn e), se_before e2 dd)" for dd
    by (auto simp: stmt_def run_tx_def split: fate.split)
  have above: "(\<exists>e \<in> set (events ?d1). since < e_id e) \<longleftrightarrow> since < event_head ?d1"
    using event_head_in [of ?d1] event_head_le [of _ ?d1] assms(2) by force
  show ?thesis
    using assms event_head_le [of _ ?d1] event_head_in [of ?d1] unfolding Notify_def read send above
    by (cases "se_fate e1"; cases "se_fate e2") (force split: if_splits)+
qed

theorem notify_follows_outbox_witness:
  "\<exists>head err sent d'. Notify (quiet_stmt 5) (quiet_stmt 5) 0 (emit ''job.queued'' 10 3 [] 5 sample_db) = (((head, err), sent), d') \<and>
    (0::int) \<le> 0 \<and> head = 1 \<and> err = None \<and> sent"
proof -
  let ?d = "emit ''job.queued'' 10 3 [] 5 sample_db"
  obtain head err sent d' where n: "Notify (quiet_stmt 5) (quiet_stmt 5) 0 ?d = (((head, err), sent), d')"
    by (metis prod.collapse)
  have "0 \<noteq> head \<longrightarrow> err = None \<and> head = 1" "err = None" "sent" "\<forall>e \<in> set (events ?d). e_id e \<le> head"
    using notify_follows_outbox [OF n] by (auto simp: quiet_stmt_def emit_def sample_defs)
  moreover have "0 \<noteq> head" using calculation(4) by (auto simp: emit_def sample_defs)
  ultimately show ?thesis using n by auto
qed

section \<open>Retention\<close>

lemma ensure_partitions_frame [simp]:
  "events (ensure_partitions p a b d) = events d" "low_water_id (ensure_partitions p a b d) = low_water_id d"
  "event_seq (ensure_partitions p a b d) = event_seq d" "jobs (ensure_partitions p a b d) = jobs d"
  "job_logs (ensure_partitions p a b d) = job_logs d"
  "set (partitions (ensure_partitions p a b d)) = set (partitions d) \<union> Pair p ` {a..b}"
  by (auto simp: ensure_partitions_def)

lemma drop_rows_frame [simp]:
  "low_water_id (drop_rows p g d) = low_water_id d" "event_seq (drop_rows p g d) = event_seq d"
  "jobs (drop_rows p g d) = jobs d" "partitions (drop_rows p g d) = partitions d"
  "p \<noteq> ''events'' \<Longrightarrow> events (drop_rows p g d) = events d"
  "events (drop_rows ''events'' g d) = delete_where (\<lambda>e. g (day_of (e_created_at e))) (events d)"
  "p \<noteq> ''job_logs'' \<Longrightarrow> job_logs (drop_rows p g d) = job_logs d"
  "job_logs (drop_rows ''job_logs'' g d) = delete_where (\<lambda>e. g (day_of (g_ts e))) (job_logs d)"
  by (simp_all add: drop_rows_def)

lemma drop_before_frame [simp]:
  "low_water_id (snd (drop_partitions_before p c d)) = low_water_id d"
  "event_seq (snd (drop_partitions_before p c d)) = event_seq d"
  "jobs (snd (drop_partitions_before p c d)) = jobs d"
  "p \<noteq> ''events'' \<Longrightarrow> events (snd (drop_partitions_before p c d)) = events d"
  "events (snd (drop_partitions_before ''events'' c d)) =
     delete_where (\<lambda>e. (''events'', day_of (e_created_at e)) \<in> set (partitions d) \<and> day_of (e_created_at e) < c) (events d)"
  "p \<noteq> ''job_logs'' \<Longrightarrow> job_logs (snd (drop_partitions_before p c d)) = job_logs d"
  "job_logs (snd (drop_partitions_before ''job_logs'' c d)) =
     delete_where (\<lambda>g. (''job_logs'', day_of (g_ts g)) \<in> set (partitions d) \<and> day_of (g_ts g) < c) (job_logs d)"
  "set (partitions (snd (drop_partitions_before p c d))) = {x \<in> set (partitions d). \<not> (fst x = p \<and> snd x < c)}"
  by (auto simp: drop_partitions_before_def Let_def)

definition events_partitioned :: "db \<Rightarrow> bool" where
  "events_partitioned d \<longleftrightarrow> (\<forall>e \<in> set (events d). (''events'', day_of (e_created_at e)) \<in> set (partitions d))"

definition events_in_time :: "db \<Rightarrow> bool" where
  "events_in_time d \<longleftrightarrow> (\<forall>e \<in> set (events d). \<forall>f \<in> set (events d). e_id e \<le> e_id f \<longrightarrow> e_created_at e \<le> e_created_at f)"

lemma day_of_mono: "s \<le> t \<Longrightarrow> day_of s \<le> day_of t"
  by (simp add: day_of_def zdiv_mono1)

lemma low_water_simps [simp]:
  "events (low_water d) = events d" "jobs (low_water d) = jobs d" "partitions (low_water d) = partitions d"
  "low_water_id (low_water d) =
     max (low_water_id d) (if events d = [] then event_seq d + 1 else Min (e_id ` set (events d)))"
  by (simp_all add: low_water_def)

lemma maintain_tx_eq:
  fixes now hot :: int
  defines "c \<equiv> day_of (now - hot)"
  assumes "events_partitioned d"
  shows "\<exists>n d'. maintain_tx True hot cold horizon now d = Inr (n, low_water d') \<and> jobs d' = jobs d \<and>
    events d' = filter (\<lambda>e. c \<le> day_of (e_created_at e)) (events d) \<and>
    event_seq d' = event_seq d \<and> low_water_id d' = low_water_id d \<and>
    {x \<in> set (partitions d) \<union> ({''events'', ''job_logs''} \<times> {day_of now..day_of (now + horizon)}).
       fst x \<in> {''events'', ''job_logs''} \<and> c \<le> snd x} \<subseteq> set (partitions d')"
proof -
  have keep: "delete_where (\<lambda>e. (p e \<or> r e) \<and> day_of (e_created_at e) < c) (events d) =
      filter (\<lambda>e. c \<le> day_of (e_created_at e)) (events d)" if "\<forall>e \<in> set (events d). p e" for p r
    using that by (auto simp: delete_where_def not_less intro: filter_cong)
  show ?thesis
    unfolding maintain_tx_def hotParents_def coldParents_def Let_def hot_step_def cold_step_def
    by (intro exI conjI, simp; (simp flip: c_def)?)
       (use assms(2) in \<open>auto simp: c_def events_partitioned_def intro!: keep [unfolded c_def]\<close>)
qed

text \<open>
  Partition maintenance. Every event younger than the hot retention is kept and none is added; no job is
  touched; partitions of the outbox and the logs exist for every day up to the horizon; and the low-water
  mark never goes back and is honest: a reader whose next expected id is not below it still finds every
  event it has not read.
\<close>

theorem maintain_keeps_recent:
  assumes "outbox_ok d" and "events_in_time d" and "events_partitioned d" and "0 \<le> hot"
  shows "\<exists>n d'. maintain_tx True hot cold horizon now d = Inr (n, d') \<and> jobs d' = jobs d \<and>
    (\<forall>e \<in> set (events d). now - hot \<le> e_created_at e \<longrightarrow> e \<in> set (events d')) \<and> set (events d') \<subseteq> set (events d) \<and>
    (\<forall>p \<in> {''events'', ''job_logs''}. \<forall>k \<in> {day_of now..day_of (now + horizon)}. (p, k) \<in> set (partitions d')) \<and>
    low_water_id d \<le> low_water_id d' \<and>
    (\<forall>after. low_water_id d' \<le> after + 1 \<longrightarrow>
       filter (\<lambda>e. after < e_id e) (events d') = filter (\<lambda>e. after < e_id e) (events d))"
proof -
  let ?c = "day_of (now - hot)"
  from maintain_tx_eq [OF assms(3), of hot cold horizon now] obtain n d1 where
    run: "maintain_tx True hot cold horizon now d = Inr (n, low_water d1)" and js: "jobs d1 = jobs d"
    and ev: "events d1 = filter (\<lambda>e. ?c \<le> day_of (e_created_at e)) (events d)"
    and sq: "event_seq d1 = event_seq d" and lw: "low_water_id d1 = low_water_id d"
    and parts: "{x \<in> set (partitions d) \<union> ({''events'', ''job_logs''} \<times> {day_of now..day_of (now + horizon)}).
       fst x \<in> {''events'', ''job_logs''} \<and> ?c \<le> snd x} \<subseteq> set (partitions d1)"
    by - (elim exE conjE, rule that; assumption)
  have c: "?c \<le> day_of now" using assms(4) by (intro day_of_mono) simp
  have dropped: "e_id e < low_water_id (low_water d1)" if "e \<in> set (events d)" "e \<notin> set (events d1)" for e
  proof (cases "events d1 = []")
    case True
    then show ?thesis using assms(1) that(1) sq by (auto simp: outbox_ok_def)
  next
    case False
    then have "Min (e_id ` set (events d1)) \<in> e_id ` set (events d1)" by (intro Min_in) auto
    then obtain k where k: "k \<in> set (events d1)" "Min (e_id ` set (events d1)) = e_id k" by auto
    have "\<not> e_id k \<le> e_id e"
    proof
      assume "e_id k \<le> e_id e"
      then have "day_of (e_created_at k) \<le> day_of (e_created_at e)"
        using assms(2) k(1) that(1) ev by (intro day_of_mono) (auto simp: events_in_time_def)
      then show False using k(1) that ev by auto
    qed
    then show ?thesis using k(2) False by simp
  qed
  have "filter (\<lambda>e. after < e_id e) (events d1) = filter (\<lambda>e. after < e_id e) (events d)"
    if "low_water_id (low_water d1) \<le> after + 1" for after
  proof -
    have "?c \<le> day_of (e_created_at e)" if "e \<in> set (events d)" "after < e_id e" for e
    proof (rule ccontr)
      assume "\<not> ?thesis"
      then have "e \<notin> set (events d1)" by (simp add: ev)
      from dropped [OF that(1) this] that(2) \<open>low_water_id (low_water d1) \<le> after + 1\<close> show False by linarith
    qed
    then show ?thesis by (auto simp: ev intro: filter_cong)
  qed
  moreover have "?c \<le> day_of (e_created_at e)" if "now - hot \<le> e_created_at e" for e using that by (rule day_of_mono)
  ultimately show ?thesis using run js c parts lw ev by (intro exI [of _ n] exI [of _ "low_water d1"]) auto
qed

definition retention_db :: db where
  "retention_db = emit ''job.queued'' 10 3 [] 700000000000 (emit ''job.queued'' 11 3 [] 0
     (sample_db\<lparr>partitions := [(''events'', 0), (''events'', 8)]\<rparr>))"

theorem maintain_keeps_recent_witness:
  "\<exists>n d'. maintain_tx True 86400000000 0 86400000000 700000000000 retention_db = Inr (n, d') \<and> jobs d' = jobs retention_db \<and>
    (\<forall>e \<in> set (events retention_db). 700000000000 - 86400000000 \<le> e_created_at e \<longrightarrow> e \<in> set (events d')) \<and>
    set (events d') \<subseteq> set (events retention_db) \<and>
    (\<forall>p \<in> {''events'', ''job_logs''}. \<forall>k \<in> {day_of 700000000000..day_of (700000000000 + 86400000000)}. (p, k) \<in> set (partitions d')) \<and>
    low_water_id retention_db \<le> low_water_id d' \<and>
    (\<forall>after. low_water_id d' \<le> after + 1 \<longrightarrow>
       filter (\<lambda>e. after < e_id e) (events d') = filter (\<lambda>e. after < e_id e) (events retention_db))"
  by (rule maintain_keeps_recent)
     (simp_all add: retention_db_def outbox_ok_def events_in_time_def events_partitioned_def emit_def day_of_def sample_defs)

section \<open>Percentiles\<close>

definition interp :: "int list \<Rightarrow> rat \<Rightarrow> rat" where
  "interp ys r = of_int (ys ! nat \<lfloor>r\<rfloor>) + (r - of_nat (nat \<lfloor>r\<rfloor>)) * (of_int (ys ! nat \<lceil>r\<rceil>) - of_int (ys ! nat \<lfloor>r\<rfloor>))"

lemma percentile_interp: "percentile_cont p xs = interp (sort xs) (p * of_nat (length xs - 1))"
  by (simp add: percentile_cont_def interp_def Let_def)

lemma interp_between:
  assumes "sorted ys" and "0 \<le> r" and "r \<le> of_nat (length ys - 1)" and "ys \<noteq> []"
  shows "of_int (ys ! nat \<lfloor>r\<rfloor>) \<le> interp ys r" "interp ys r \<le> of_int (ys ! nat \<lceil>r\<rceil>)"
proof -
  let ?a = "rat_of_int (ys ! nat \<lfloor>r\<rfloor>)" and ?b = "rat_of_int (ys ! nat \<lceil>r\<rceil>)" and ?x = "r - of_nat (nat \<lfloor>r\<rfloor>)"
  have f: "of_nat (nat \<lfloor>r\<rfloor>) = rat_of_int \<lfloor>r\<rfloor>" using assms(2) by simp
  have x: "0 \<le> ?x" "?x \<le> 1" unfolding f by linarith+
  have "\<lceil>r\<rceil> \<le> int (length ys - 1)" using assms(3) by (simp add: ceiling_le_iff)
  then have "nat \<lceil>r\<rceil> < length ys" using assms(4) by (cases ys) auto
  then have ab: "?a \<le> ?b" using assms(1,2) by (simp add: sorted_nth_mono nat_mono floor_le_ceiling)
  show "?a \<le> interp ys r" using ab x(1) by (simp add: interp_def)
  have "?x * (?b - ?a) \<le> 1 * (?b - ?a)" using ab x(2) by (intro mult_right_mono) auto
  then show "interp ys r \<le> ?b" by (simp add: interp_def)
qed

lemma interp_mono:
  assumes "sorted ys" and "ys \<noteq> []" and "0 \<le> r" and "r \<le> s" and "s \<le> of_nat (length ys - 1)"
  shows "interp ys r \<le> interp ys s"
proof -
  note r = interp_between [OF assms(1,3) _ assms(2)] and s = interp_between [OF assms(1) _ assms(5,2)]
  have lo: "nat \<lfloor>s\<rfloor> < length ys"
  proof -
    have "\<lfloor>s\<rfloor> \<le> int (length ys - 1)" using assms(5) by linarith
    then show ?thesis using assms(2) by (cases ys) auto
  qed
  show ?thesis
  proof (cases "\<lceil>r\<rceil> \<le> \<lfloor>s\<rfloor>")
    case True
    then have "ys ! nat \<lceil>r\<rceil> \<le> ys ! nat \<lfloor>s\<rfloor>" using assms(1) lo by (intro sorted_nth_mono nat_mono) auto
    then have "rat_of_int (ys ! nat \<lceil>r\<rceil>) \<le> of_int (ys ! nat \<lfloor>s\<rfloor>)" by simp
    then show ?thesis using r(2) s(1) assms(3-5) by linarith
  next
    case False
    then have eq: "\<lfloor>r\<rfloor> = \<lfloor>s\<rfloor>" "\<lceil>r\<rceil> = \<lceil>s\<rceil>" using assms(4) by linarith+
    have "\<lceil>s\<rceil> \<le> int (length ys - 1)" using assms(5) by (simp add: ceiling_le_iff)
    then have "nat \<lceil>s\<rceil> < length ys" using assms(2) by (cases ys) auto
    then have "ys ! nat \<lfloor>s\<rfloor> \<le> ys ! nat \<lceil>s\<rceil>" using assms(1) by (intro sorted_nth_mono nat_mono) auto
    then have "0 \<le> rat_of_int (ys ! nat \<lceil>s\<rceil>) - of_int (ys ! nat \<lfloor>s\<rfloor>)" by simp
    then show ?thesis using assms(4) by (simp add: interp_def eq mult_right_mono)
  qed
qed

lemma round_even_mono: "a \<le> b \<Longrightarrow> round_even a \<le> round_even b"
proof -
  assume ab: "a \<le> b"
  have r: "\<lfloor>x\<rfloor> \<le> round_even x" "round_even x \<le> \<lfloor>x\<rfloor> + 1" for x by (auto simp: round_even_def Let_def)
  show ?thesis
  proof (cases "\<lfloor>a\<rfloor> = \<lfloor>b\<rfloor>")
    case True
    then show ?thesis using ab by (auto simp: round_even_def Let_def)
  next
    case False
    then have "\<lfloor>a\<rfloor> + 1 \<le> \<lfloor>b\<rfloor>" using ab by linarith
    then show ?thesis using r(2) [of a] r(1) [of b] by linarith
  qed
qed

lemma round_even_of_int [simp]: "round_even (of_int k) = k"
  by (simp add: round_even_def)

lemma percentile_bounds:
  assumes "xs \<noteq> []" and "0 \<le> p" and "p \<le> q" and "q \<le> 1"
  shows "Min (set xs) \<le> round_even (percentile_cont p xs)"
    "round_even (percentile_cont p xs) \<le> round_even (percentile_cont q xs)"
    "round_even (percentile_cont q xs) \<le> Max (set xs)"
proof -
  let ?ys = "sort xs" and ?n = "rat_of_nat (length xs - 1)"
  have len: "length ?ys = length xs" "?ys \<noteq> []" using assms(1) by (simp_all, metis length_0_conv length_sort)
  have m: "interp ?ys r \<le> interp ?ys s" if "0 \<le> r" "r \<le> s" "s \<le> ?n" for r s
    using that len by (intro interp_mono) auto
  have pq: "0 \<le> p * ?n" "p * ?n \<le> q * ?n" "q * ?n \<le> ?n"
    using assms(2-4) by (auto intro: mult_right_mono simp: mult_left_le_one_le)
  have "interp ?ys 0 = of_int (?ys ! 0)" by (simp add: interp_def)
  moreover have "interp ?ys ?n = of_int (?ys ! (length xs - 1))" by (simp add: interp_def)
  moreover have "?ys ! 0 \<in> set xs" "?ys ! (length xs - 1) \<in> set xs"
    using len assms(1) nth_mem [of _ ?ys] by (simp_all add: diff_less length_greater_0_conv)
  ultimately have ends: "Min (set xs) \<le> round_even (interp ?ys 0)" "round_even (interp ?ys ?n) \<le> Max (set xs)" by simp_all
  show "Min (set xs) \<le> round_even (percentile_cont p xs)"
    using ends(1) round_even_mono [OF m [of 0 "p * ?n"]] pq by (simp add: percentile_interp)
  show "round_even (percentile_cont p xs) \<le> round_even (percentile_cont q xs)"
    using round_even_mono [OF m [of "p * ?n" "q * ?n"]] pq by (simp add: percentile_interp)
  show "round_even (percentile_cont q xs) \<le> Max (set xs)"
    using ends(2) round_even_mono [OF m [of "q * ?n" ?n]] pq by (simp add: percentile_interp)
qed

text \<open>
  A rollup writes the latency percentiles of exactly those minutes that have none yet and whose executions
  it sees closed; the median and the 95th percentile it writes lie between the shortest and the longest
  duration of that minute, in this order; it changes nothing else of a row and no other row; and a second
  rollup at the same time finds nothing to do.
\<close>

theorem rollup_writes_percentiles:
  "\<exists>d'. rollup_sql lookback now d = Inr (count_where (rollup_hits lookback now d) (queue_stats_minute d), d') \<and>
    rollup_sql lookback now d' = Inr (0, d') \<and>
    list_all2 (\<lambda>m m'. let xs = set (closed_durations lookback now (m_queue_id m) (m_minute m) d) in
        if xs \<noteq> {} \<and> m_duration_ms_p50 m = None
        then \<exists>a b. m' = m\<lparr>m_duration_ms_p50 := Some a, m_duration_ms_p95 := Some b\<rparr> \<and> Min xs \<le> a \<and> a \<le> b \<and> b \<le> Max xs
        else m' = m) (queue_stats_minute d) (queue_stats_minute d')" (is "\<exists>d'. _ \<and> _ \<and> list_all2 ?R _ _")
proof -
  let ?g = "rollup_row lookback now d" and ?P = "rollup_hits lookback now d"
  let ?d' = "d\<lparr>queue_stats_minute := update_where ?P ?g (queue_stats_minute d)\<rparr>"
  have hits': "rollup_hits lookback now ?d' m = ?P m" for m by (simp add: rollup_hits_def closed_durations_def)
  have none: "\<not> ?P m" if "m \<in> set (queue_stats_minute ?d')" for m
    using that by (auto simp: in_update_where_iff) (simp add: rollup_hits_def rollup_row_def Let_def)
  have again: "rollup_sql lookback now ?d' = Inr (0, ?d')"
    using none by (simp add: rollup_sql_def hits' update_where_none count_where_zero_iff)
  have row: "?R m (if ?P m then ?g m else m)" for m
  proof (cases "?P m")
    case True
    let ?xs = "closed_durations lookback now (m_queue_id m) (m_minute m) d"
    let ?a = "round_even (percentile_cont (1/2) ?xs)" and ?b = "round_even (percentile_cont (95/100) ?xs)"
    have xs: "?xs \<noteq> []" "m_duration_ms_p50 m = None" using True by (simp_all add: rollup_hits_def)
    have "?g m = m\<lparr>m_duration_ms_p50 := Some ?a, m_duration_ms_p95 := Some ?b\<rparr>" by (simp only: rollup_row_def Let_def)
    moreover have "Min (set ?xs) \<le> ?a" "?a \<le> ?b" "?b \<le> Max (set ?xs)"
      using percentile_bounds [OF xs(1), of "1/2" "95/100"] by simp_all
    ultimately have "\<exists>a b. ?g m = m\<lparr>m_duration_ms_p50 := Some a, m_duration_ms_p95 := Some b\<rparr> \<and>
        Min (set ?xs) \<le> a \<and> a \<le> b \<and> b \<le> Max (set ?xs)" by blast
    then show ?thesis using True xs by (simp only: Let_def if_True set_empty simp_thms)
  next
    case False
    then have "\<not> (set (closed_durations lookback now (m_queue_id m) (m_minute m) d) \<noteq> {} \<and> m_duration_ms_p50 m = None)"
      by (simp add: rollup_hits_def)
    then show ?thesis using False by (simp only: Let_def if_False)
  qed
  have "list_all2 ?R ms (update_where ?P ?g ms)" for ms
    by (induction ms) (simp_all only: update_where_Nil update_where_Cons list_all2_Nil list_all2_Cons row simp_thms)
  with again show ?thesis by (intro exI [of _ ?d']) (simp only: rollup_sql_def db.select_convs db.update_convs simp_thms, simp)
qed

section \<open>Summaries settle\<close>

lemma stored_digest_save:
  assumes "save_summary queue dg text model now d = Inr (u, d')"
  shows "stored_digest i d' = (if i = queue then dg else stored_digest i d)"
proof -
  let ?row = "\<lparr>fs_queue_id = queue, fs_digest = dg, fs_summary = text, fs_model = model, fs_generated_at = now\<rparr>"
  let ?L = "\<lambda>fs. lookup_row fs_queue_id i fs"
  from assms consider "queue \<in> fs_queue_id ` set (failure_summaries d)"
      "failure_summaries d' = update_where (\<lambda>s. fs_queue_id s = queue) (\<lambda>_. ?row) (failure_summaries d)"
    | "queue \<notin> fs_queue_id ` set (failure_summaries d)" "failure_summaries d' = failure_summaries d @ [?row]"
    by (auto simp: save_summary_def Let_def split: if_splits)
  then show ?thesis
  proof cases
    case 1
    have "?L (failure_summaries d') = map_option (\<lambda>s. if fs_queue_id s = queue then ?row else s) (?L (failure_summaries d))"
      unfolding 1(2) by (rule lookup_row_update) simp
    moreover have "?L (failure_summaries d) \<noteq> None" if "i = queue" using 1(1) that by (auto simp: lookup_row_None_iff)
    ultimately show ?thesis using lookup_row_SomeD [of fs_queue_id i "failure_summaries d"]
      by (cases "?L (failure_summaries d)") (auto simp: stored_digest_def)
  next
    case 2
    have "?L (failure_summaries d) = None" if "i = queue" using 2(1) that by (auto simp: lookup_row_None_iff)
    then show ?thesis by (cases "?L (failure_summaries d)") (auto simp: stored_digest_def 2(2) lookup_row_append)
  qed
qed

lemma save_summary_ok:
  "queue \<in> q_id ` set (queues d) \<Longrightarrow> \<exists>d'. save_summary queue dg text model now d = Inr ((), d') \<and>
     queues d' = queues d \<and> job_executions d' = job_executions d"
  by (auto simp: save_summary_def Let_def)

lemma Failures_nonempty:
  assumes "failure_rows now queue hours d \<noteq> []" and "0 < limit"
  shows "Failures c now queue hours limit d \<noteq> []"
proof -
  have "0 < length (remdups (map error_class_of (failure_rows now queue hours d)))"
    unfolding length_greater_0_conv using assms(1) by simp
  then have "0 < length (Failures c now queue hours limit d)" using assms(2) by (simp add: Failures_def Let_def)
  then show ?thesis unfolding length_greater_0_conv .
qed

lemma summarize_loop_quiet:
  assumes "\<And>n fs. \<exists>t. ai_Summarize ai n fs = Inr t"
    and "\<forall>s \<in> set todo. st_id s \<in> q_id ` set (queues d) \<and> failure_rows now (st_id s) FailureWindow d \<noteq> []"
    and "distinct (map st_id todo)"
  shows "\<exists>d'. summarize_loop (\<lambda>_. quiet_stmt now) ai lib i todo w l d = ((w + length todo, l), d') \<and>
    queues d' = queues d \<and> job_executions d' = job_executions d \<and>
    (\<forall>s \<in> set todo. stored_digest (st_id s) d' = st_digest s) \<and>
    (\<forall>q. q \<notin> st_id ` set todo \<longrightarrow> stored_digest q d' = stored_digest q d)"
  using assms(2,3)
proof (induction todo arbitrary: i w d)
  case (Cons s todo)
  let ?fs = "Failures (tl_by_class lib) now (st_id s) FailureWindow summaryGroups d"
  have s: "st_id s \<in> q_id ` set (queues d)" "failure_rows now (st_id s) FailureWindow d \<noteq> []"
    using Cons.prems(1) by auto
  obtain t where t: "ai_Summarize ai (st_name s) ?fs = Inr t" using assms(1) by blast
  obtain d1 where save: "save_summary (st_id s) (st_digest s) t (ai_Model ai) now d = Inr ((), d1)"
    and same: "queues d1 = queues d" "job_executions d1 = job_executions d"
    using save_summary_ok [OF s(1)] by blast
  have fs: "?fs \<noteq> []" using Failures_nonempty [OF s(2)] by (simp add: summaryGroups_def)
  have rows: "failure_rows now q h d1 = failure_rows now q h d" for q h by (simp add: failure_rows_def same)
  obtain d' where ih: "summarize_loop (\<lambda>_. quiet_stmt now) ai lib (Suc i) todo (Suc w) l d1 = ((Suc w + length todo, l), d')"
    and fr: "queues d' = queues d1" "job_executions d' = job_executions d1"
    and st: "\<forall>s \<in> set todo. stored_digest (st_id s) d' = st_digest s"
      "\<forall>q. q \<notin> st_id ` set todo \<longrightarrow> stored_digest q d' = stored_digest q d1"
    using Cons.IH [of d1 "Suc i" "Suc w"] Cons.prems by (auto simp: same rows)
  note dg = stored_digest_save [OF save]
  have "summarize_loop (\<lambda>_. quiet_stmt now) ai lib i (s # todo) w l d = ((w + length (s # todo), l), d')"
    using fs t save ih by (simp add: stmt_quiet)
  moreover have "stored_digest (st_id s) d' = st_digest s"
    using st(2) dg Cons.prems(2) by auto
  moreover have "stored_digest q d' = stored_digest q d" if "q \<notin> st_id ` set (s # todo)" for q
    using st(2) dg that by auto
  ultimately show ?case using st(1) fr same by (intro exI [of _ d']) auto
qed simp

text \<open>
  A run of the summarizer with a model that answers and no interference: every queue whose failures of the
  last 24 hours changed since its summary gets a new one (up to the limit), stored under the digest of those
  failures, so that the next run at the same time has nothing to do; executions and queues are only read.
\<close>

theorem summaries_settle:
  assumes "ai_Ready ai" and "\<And>n fs. \<exists>t. ai_Summarize ai n fs = Inr t" and "queues_wf d"
    and "length (queues d) \<le> limit"
  shows "\<exists>d'. Summarize (\<lambda>_. quiet_stmt now) ai lib limit d =
      ((count_where (is_stale lib now FailureWindow d) (queues d), None), d') \<and>
    Summarize (\<lambda>_. quiet_stmt now) ai lib limit d' = ((0, None), d') \<and>
    queues d' = queues d \<and> job_executions d' = job_executions d"
proof -
  let ?F = "filter (is_stale lib now FailureWindow d) (queues d)"
  let ?mk = "\<lambda>d q. \<lparr>st_id = q_id q, st_name = q_name q, st_digest = failure_digest lib now (q_id q) FailureWindow d\<rparr>"
  let ?todo = "map (?mk d) (order_limit q_id limit ?F)"
  have "length ?F \<le> limit" using assms(4) by (meson le_trans length_filter_le)
  then have sel: "set (order_limit q_id limit ?F) = set ?F" and len: "length (order_limit q_id limit ?F) = length ?F"
    by (simp_all add: order_limit_def)
  have "distinct (map q_id ?F)" using assms(3) by (simp add: queues_wf_def distinct_map_filter)
  then have dist: "distinct (map st_id ?todo)" using distinct_order_limit by (auto simp: comp_def)
  have todo: "\<forall>s \<in> set ?todo. st_id s \<in> q_id ` set (queues d) \<and> failure_rows now (st_id s) FailureWindow d \<noteq> []"
    using sel by (auto simp: is_stale_def)
  obtain d' where run: "summarize_loop (\<lambda>_. quiet_stmt now) ai lib 0 ?todo 0 None d = ((0 + length ?todo, None), d')"
    and fr: "queues d' = queues d" "job_executions d' = job_executions d"
    and st: "\<forall>s \<in> set ?todo. stored_digest (st_id s) d' = st_digest s"
      "\<forall>q. q \<notin> st_id ` set ?todo \<longrightarrow> stored_digest q d' = stored_digest q d"
    using summarize_loop_quiet [OF assms(2) todo dist, of lib 0 0 None] by - (elim exE conjE, rule that; assumption)
  have same: "failure_rows now q h d' = failure_rows now q h d" "failure_digest lib now q h d' = failure_digest lib now q h d" for q h
    by (simp_all add: failure_rows_def failure_digest_def fr)
  have "\<not> is_stale lib now FailureWindow d' q" if "q \<in> set (queues d)" for q
  proof (cases "q \<in> set ?F")
    case True
    then have "?mk d q \<in> set ?todo" using sel by auto
    from bspec [OF st(1) this] show ?thesis by (simp add: is_stale_def same)
  next
    case False
    have "q_id q \<notin> q_id ` set ?F"
    proof
      assume "q_id q \<in> q_id ` set ?F"
      then obtain r where "r \<in> set ?F" "q_id q = q_id r" by blast
      moreover from this have "q = r"
        using that assms(3) key_unique [of q_id "queues d" q r] by (simp add: queues_wf_def)
      ultimately show False using False by blast
    qed
    then have "q_id q \<notin> st_id ` set ?todo" using sel by (simp add: image_image)
    then show ?thesis using st(2) False that by (auto simp: is_stale_def same)
  qed
  then have "filter (is_stale lib now FailureWindow d') (queues d') = []" using fr by (simp add: filter_empty_conv)
  then show ?thesis using run fr assms(1) len
    by (intro exI [of _ d']) (simp add: Summarize_def stmt_quiet stale_summaries_def count_where_def order_limit_def)
qed

definition echo_ai :: ai_service where
  "echo_ai = \<lparr>ai_Ready = True, ai_Summarize = (\<lambda>n fs. Inr (n @ '' is failing'')), ai_Model = ''echo''\<rparr>"

definition plain_text :: text_lib where
  "plain_text = \<lparr>tl_md5 = id, tl_by_class = length\<rparr>"

definition failing_db :: db where
  "failing_db = sample_db\<lparr>job_executions := [sample_exec\<lparr>x_outcome := Some X_timeout, x_finished_at := Some 500\<rparr>]\<rparr>"

theorem summaries_settle_witness:
  "is_stale plain_text sample_now FailureWindow failing_db sample_queue \<and>
   (\<exists>d'. Summarize (\<lambda>_. quiet_stmt sample_now) echo_ai plain_text 100 failing_db =
      ((count_where (is_stale plain_text sample_now FailureWindow failing_db) (queues failing_db), None), d') \<and>
    Summarize (\<lambda>_. quiet_stmt sample_now) echo_ai plain_text 100 d' = ((0, None), d') \<and>
    queues d' = queues failing_db \<and> job_executions d' = job_executions failing_db)"
proof (rule conjI)
  show "is_stale plain_text sample_now FailureWindow failing_db sample_queue"
    by (simp add: is_stale_def failure_rows_def failure_digest_def stored_digest_def failed_outcome_def
        FailureWindow_def plain_text_def failing_db_def sample_defs error_class_of_def coalesce_def)
next
  show "\<exists>d'. Summarize (\<lambda>_. quiet_stmt sample_now) echo_ai plain_text 100 failing_db =
      ((count_where (is_stale plain_text sample_now FailureWindow failing_db) (queues failing_db), None), d') \<and>
    Summarize (\<lambda>_. quiet_stmt sample_now) echo_ai plain_text 100 d' = ((0, None), d') \<and>
    queues d' = queues failing_db \<and> job_executions d' = job_executions failing_db"
    by (rule summaries_settle) (simp_all add: echo_ai_def queues_wf_def check_queue_def failing_db_def sample_defs)
qed

section \<open>The pace of the loops\<close>

lemma jitter_bounds: "0 < dur \<Longrightarrow> 0 \<le> r \<Longrightarrow> r \<le> dur div 2 \<Longrightarrow> dur div 2 \<le> jitter dur r \<and> jitter dur r \<le> dur"
  by (simp add: jitter_def)

text \<open>
  With the default configuration every loop of the scheduler waits a positive time, at least half its
  period (rounded down) and never more than the period, whatever the random draw; so the rounds of a loop
  neither spin nor drift beyond their period.
\<close>

theorem default_rounds_paced:
  assumes "0 \<le> r" and "r \<le> task_every DefaultSchedConfig t div 2"
  shows "0 < jitter (task_every DefaultSchedConfig t) r \<and>
    task_every DefaultSchedConfig t div 2 \<le> jitter (task_every DefaultSchedConfig t) r \<and>
    jitter (task_every DefaultSchedConfig t) r \<le> task_every DefaultSchedConfig t"
proof -
  have every: "2 \<le> task_every DefaultSchedConfig t" by (cases t) (simp_all add: DefaultSchedConfig_def)
  then have "0 < task_every DefaultSchedConfig t div 2" by presburger
  with jitter_bounds [OF _ assms] every show ?thesis by simp
qed

theorem default_rounds_paced_witness:
  "0 < jitter (task_every DefaultSchedConfig T_reap) 7 \<and>
    task_every DefaultSchedConfig T_reap div 2 \<le> jitter (task_every DefaultSchedConfig T_reap) 7 \<and>
    jitter (task_every DefaultSchedConfig T_reap) 7 \<le> task_every DefaultSchedConfig T_reap"
  by (rule default_rounds_paced) (simp_all add: DefaultSchedConfig_def)

end
