(* ===== verification/Archiver.thy ===== *)
theory Archiver
  imports Housekeeping "HOL-Library.Multiset"
begin

text \<open>
  The archiver process, \<open>src/internal/archiver/archiver.go\<close>: moving finished jobs with their executions, logs
  and dead letters to the archive tables, pruning expired idempotency keys, and the loop that drains the
  backlog in batches. Deleting a job cascades to its lease and its dependency edges, as the foreign keys say.

  Archive tables have no \<open>shard\<close> column. Their primary keys are not checked: they are made of ids that leave
  the live tables in the same statement and never come back.
\<close>

section \<open>Archive\<close>

definition archivable :: "interval \<Rightarrow> interval \<Rightarrow> timestamptz \<Rightarrow> db \<Rightarrow> job \<Rightarrow> bool" where
  "archivable after deadLetter now d j \<longleftrightarrow>
     j_status j \<in> {Completed, Cancelled, Dead_letter} \<and>
     (case j_finished_at j of None \<Rightarrow> False
      | Some t \<Rightarrow> t < now - after \<and> (j_status j \<noteq> Dead_letter \<or> t < now - deadLetter)) \<and>
     \<not> (\<exists>x \<in> set (job_executions d). x_job_id x = j_id j \<and> is_open x)"

definition pick :: "interval \<Rightarrow> interval \<Rightarrow> nat \<Rightarrow> (uuid \<Rightarrow> bool) \<Rightarrow> timestamptz \<Rightarrow> db \<Rightarrow> uuid list" where
  "pick after deadLetter limit locked now d =
     map j_id (order_limit (\<lambda>j. the (j_finished_at j)) limit
       (filter (\<lambda>j. archivable after deadLetter now d j \<and> \<not> locked (j_id j)) (jobs d)))"

definition ensure_range :: "string \<Rightarrow> timestamptz list \<Rightarrow> db \<Rightarrow> db" where
  "ensure_range parent ts d =
    (if ts = [] then d else ensure_partitions parent (day_of (Min (set ts))) (day_of (Max (set ts))) d)"

definition execs_of :: "uuid set \<Rightarrow> db \<Rightarrow> execution list" where
  "execs_of ids d = filter (\<lambda>x. x_job_id x \<in> ids) (job_executions d)"

definition log_of :: "uuid set \<Rightarrow> db \<Rightarrow> log_row \<Rightarrow> bool" where
  "log_of ids d g \<longleftrightarrow> g_execution_id g \<in> x_id ` set (execs_of ids d)"

definition make_partitions :: "uuid set \<Rightarrow> db \<Rightarrow> db" where
  "make_partitions ids d =
     ensure_range ''dead_letter_jobs_archive'' (map d_dead_at (filter (\<lambda>l. d_job_id l \<in> ids) (dead_letter_jobs d)))
      (ensure_range ''jobs_archive'' (map (\<lambda>j. the (j_finished_at j)) (filter (\<lambda>j. j_id j \<in> ids) (jobs d)))
       (ensure_range ''job_executions_archive'' (List.map_filter x_finished_at (execs_of ids d))
        (ensure_range ''job_logs_archive'' (map g_ts (filter (log_of ids d) (job_logs d))) d)))"

definition move_logs :: "uuid set \<Rightarrow> db \<Rightarrow> db" where
  "move_logs ids d = d\<lparr>job_logs := delete_where (log_of ids d) (job_logs d),
     job_logs_archive := job_logs_archive d @ filter (log_of ids d) (job_logs d)\<rparr>"

definition move_execs :: "uuid set \<Rightarrow> db \<Rightarrow> db" where
  "move_execs ids d = d\<lparr>job_executions := delete_where (\<lambda>x. x_job_id x \<in> ids) (job_executions d),
     job_executions_archive := job_executions_archive d @ execs_of ids d\<rparr>"

definition move_dead_letters :: "uuid set \<Rightarrow> db \<Rightarrow> db" where
  "move_dead_letters ids d = d\<lparr>dead_letter_jobs := delete_where (\<lambda>l. d_job_id l \<in> ids) (dead_letter_jobs d),
     dead_letter_jobs_archive := dead_letter_jobs_archive d @ filter (\<lambda>l. d_job_id l \<in> ids) (dead_letter_jobs d)\<rparr>"

definition archived_row :: "job \<Rightarrow> job \<times> timestamptz" where
  "archived_row j = (j\<lparr>j_shard := 0\<rparr>, the (j_finished_at j))"

definition move_jobs :: "uuid set \<Rightarrow> db \<Rightarrow> db" where
  "move_jobs ids d = d\<lparr>jobs := delete_where (\<lambda>j. j_id j \<in> ids) (jobs d),
     jobs_archive := jobs_archive d @ map archived_row (filter (\<lambda>j. j_id j \<in> ids) (jobs d)),
     job_leases := delete_where (\<lambda>l. l_job_id l \<in> ids) (job_leases d),
     job_dependencies := delete_where (\<lambda>(p, c). p \<in> ids \<or> c \<in> ids) (job_dependencies d)\<rparr>"

definition archive_tx :: "interval \<Rightarrow> interval \<Rightarrow> nat \<Rightarrow> (uuid \<Rightarrow> bool) \<Rightarrow> timestamptz \<Rightarrow> nat tx" where
  "archive_tx after deadLetter limit locked now d =
    (let ids = pick after deadLetter limit locked now d
     in if ids = [] then Inr (0, d)
        else Inr (length ids,
          move_jobs (set ids) (move_dead_letters (set ids) (move_execs (set ids) (move_logs (set ids) (make_partitions (set ids) d))))))"

definition Archive :: "stmt_env \<Rightarrow> (uuid \<Rightarrow> bool) \<Rightarrow> interval \<Rightarrow> interval \<Rightarrow> nat \<Rightarrow> db \<Rightarrow> (go_error + nat) \<times> db" where
  "Archive env locked after deadLetter limit d = stmt env (archive_tx after deadLetter limit locked) d"

section \<open>Prune\<close>

definition prune_sql :: "timestamptz \<Rightarrow> nat tx" where
  "prune_sql now d =
     Inr (count_where (\<lambda>k. k_expires_at k < now) (idempotency_keys d),
          d\<lparr>idempotency_keys := delete_where (\<lambda>k. k_expires_at k < now) (idempotency_keys d)\<rparr>)"

definition Prune :: "stmt_env \<Rightarrow> db \<Rightarrow> (go_error + nat) \<times> db" where
  "Prune env d = stmt env prune_sql d"

section \<open>The process\<close>

record ArchConfig =
  ac_Every :: interval
  ac_Prune :: interval
  ac_After :: interval
  ac_DeadLetter :: interval
  ac_Batch :: nat

definition DefaultArchConfig :: ArchConfig where
  "DefaultArchConfig = \<lparr>ac_Every = 60 * 1000000, ac_Prune = 10 * 60 * 1000000, ac_After = 24 * 3600 * 1000000,
     ac_DeadLetter = 30 * 24 * 3600 * 1000000, ac_Batch = 500\<rparr>"

text \<open>
  The inner loop of a tick: batches until one fails or comes back short. It need not end (a batch size of
  zero, or jobs finishing as fast as they are moved), so not ending is the value \<open>None\<close>.
\<close>

partial_function (option) drain :: "(nat \<Rightarrow> stmt_env) \<Rightarrow> (nat \<Rightarrow> uuid \<Rightarrow> bool) \<Rightarrow> ArchConfig \<Rightarrow> nat \<Rightarrow> db \<Rightarrow> db option" where
  "drain env locked cfg i d =
    (case Archive (env i) (locked i) (ac_After cfg) (ac_DeadLetter cfg) (ac_Batch cfg) d of
       (Inl e, d1) \<Rightarrow> Some d1
     | (Inr n, d1) \<Rightarrow> if n < ac_Batch cfg then Some d1 else drain env locked cfg (Suc i) d1)"

datatype arch_tick = Move "nat \<Rightarrow> stmt_env" "nat \<Rightarrow> uuid \<Rightarrow> bool" | Prune_tick stmt_env

text \<open>The outer loop, as the sequence of its ticks; an error of \<open>Prune\<close> is logged.\<close>

fun archiver_run :: "ArchConfig \<Rightarrow> arch_tick list \<Rightarrow> db \<Rightarrow> db option" where
  "archiver_run cfg [] d = Some d"
| "archiver_run cfg (Move env locked # ts) d = Option.bind (drain env locked cfg 0 d) (archiver_run cfg ts)"
| "archiver_run cfg (Prune_tick env # ts) d = archiver_run cfg ts (snd (Prune env d))"

section \<open>What a batch moves\<close>

lemma pick_sel:
  assumes "jobs_wf d" and "j \<in> set (jobs d)" and "j_id j \<in> set (pick after dl limit locked now d)"
  shows "archivable after dl now d j" "\<not> locked (j_id j)"
proof -
  from assms(3) obtain k where k: "k \<in> set (jobs d)" "archivable after dl now d k" "\<not> locked (j_id k)" "j_id k = j_id j"
    by (auto simp: pick_def dest!: subsetD [OF set_order_limit])
  with jobs_wfD(4) [OF assms(1) k(1) assms(2)] show "archivable after dl now d j" "\<not> locked (j_id j)" by auto
qed

lemma pick_ids: "set (pick after dl limit locked now d) \<subseteq> j_id ` set (jobs d)"
  by (auto simp: pick_def dest!: subsetD [OF set_order_limit])

lemma pick_distinct: "jobs_wf d \<Longrightarrow> distinct (pick after dl limit locked now d)"
  unfolding pick_def by (intro distinct_order_limit) (simp add: jobs_wf_def distinct_map_filter)

lemma ensure_range_frame [simp]:
  "jobs (ensure_range p ts d) = jobs d" "job_executions (ensure_range p ts d) = job_executions d"
  "job_logs (ensure_range p ts d) = job_logs d" "dead_letter_jobs (ensure_range p ts d) = dead_letter_jobs d"
  "job_leases (ensure_range p ts d) = job_leases d" "job_dependencies (ensure_range p ts d) = job_dependencies d"
  "jobs_archive (ensure_range p ts d) = jobs_archive d"
  "job_executions_archive (ensure_range p ts d) = job_executions_archive d"
  "job_logs_archive (ensure_range p ts d) = job_logs_archive d"
  "dead_letter_jobs_archive (ensure_range p ts d) = dead_letter_jobs_archive d"
  "idempotency_keys (ensure_range p ts d) = idempotency_keys d"
  by (simp_all add: ensure_range_def ensure_partitions_def)

lemma ensure_range_partitions:
  "set (partitions d) \<subseteq> set (partitions (ensure_range p ts d))"
  "t \<in> set ts \<Longrightarrow> (p, day_of t) \<in> set (partitions (ensure_range p ts d))"
  by (auto simp: ensure_range_def intro!: imageI day_of_mono)

lemma make_partitions_frame [simp]:
  "jobs (make_partitions ids d) = jobs d" "job_executions (make_partitions ids d) = job_executions d"
  "job_logs (make_partitions ids d) = job_logs d" "dead_letter_jobs (make_partitions ids d) = dead_letter_jobs d"
  "job_leases (make_partitions ids d) = job_leases d" "job_dependencies (make_partitions ids d) = job_dependencies d"
  "jobs_archive (make_partitions ids d) = jobs_archive d"
  "job_executions_archive (make_partitions ids d) = job_executions_archive d"
  "job_logs_archive (make_partitions ids d) = job_logs_archive d"
  "dead_letter_jobs_archive (make_partitions ids d) = dead_letter_jobs_archive d"
  "idempotency_keys (make_partitions ids d) = idempotency_keys d"
  by (simp_all add: make_partitions_def)

lemma make_partitions_cover:
  "j \<in> set (jobs d) \<Longrightarrow> j_id j \<in> ids \<Longrightarrow> (''jobs_archive'', day_of (the (j_finished_at j))) \<in> set (partitions (make_partitions ids d))"
  unfolding make_partitions_def
  by (rule subsetD [OF ensure_range_partitions(1)], rule ensure_range_partitions(2)) simp

text \<open>One batch, table by table.\<close>

lemma archive_tx_eq:
  fixes after dl limit locked now d
  defines "ids \<equiv> set (pick after dl limit locked now d)"
  shows "\<exists>d'. archive_tx after dl limit locked now d = Inr (length (pick after dl limit locked now d), d') \<and>
    jobs d' = delete_where (\<lambda>j. j_id j \<in> ids) (jobs d) \<and>
    jobs_archive d' = jobs_archive d @ map archived_row (filter (\<lambda>j. j_id j \<in> ids) (jobs d)) \<and>
    job_executions d' = delete_where (\<lambda>x. x_job_id x \<in> ids) (job_executions d) \<and>
    job_executions_archive d' = job_executions_archive d @ filter (\<lambda>x. x_job_id x \<in> ids) (job_executions d) \<and>
    job_logs d' = delete_where (log_of ids d) (job_logs d) \<and>
    job_logs_archive d' = job_logs_archive d @ filter (log_of ids d) (job_logs d) \<and>
    dead_letter_jobs d' = delete_where (\<lambda>l. d_job_id l \<in> ids) (dead_letter_jobs d) \<and>
    dead_letter_jobs_archive d' = dead_letter_jobs_archive d @ filter (\<lambda>l. d_job_id l \<in> ids) (dead_letter_jobs d) \<and>
    (ids \<noteq> {} \<longrightarrow> job_leases d' = delete_where (\<lambda>l. l_job_id l \<in> ids) (job_leases d) \<and>
      job_dependencies d' = delete_where (\<lambda>(p, c). p \<in> ids \<or> c \<in> ids) (job_dependencies d)) \<and>
    (ids = {} \<longrightarrow> d' = d) \<and> idempotency_keys d' = idempotency_keys d \<and>
    (\<forall>j \<in> set (jobs d). j_id j \<in> ids \<longrightarrow> (''jobs_archive'', day_of (the (j_finished_at j))) \<in> set (partitions d'))"
proof (cases "pick after dl limit locked now d = []")
  case True
  have "delete_where (log_of {} d) gs = gs" "filter (log_of {} d) gs = []" for gs
    by (simp_all add: log_of_def execs_of_def delete_where_none)
  with True show ?thesis
    by (intro exI [of _ d]) (simp add: archive_tx_def ids_def delete_where_none)
next
  case False
  let ?d = "move_jobs ids (move_dead_letters ids (move_execs ids (move_logs ids (make_partitions ids d))))"
  have logs: "log_of ids (make_partitions ids d) = log_of ids d" by (auto simp: log_of_def execs_of_def)
  have "ids \<noteq> {}" using False by (simp add: ids_def)
  moreover have "archive_tx after dl limit locked now d = Inr (length (pick after dl limit locked now d), ?d)"
    using False by (simp add: archive_tx_def ids_def Let_def)
  ultimately show ?thesis using make_partitions_cover [of _ d ids]
    by (intro exI [of _ ?d])
       (simp add: move_jobs_def move_dead_letters_def move_execs_def move_logs_def logs execs_of_def)
qed

lemma mset_moved: "mset (delete_where P xs) + mset (filter P xs) = mset xs"
  by (induction xs) auto

lemma mset_moved_onto: "mset (delete_where P ys) + (mset zs + mset (filter P ys)) = mset ys + mset zs"
  using mset_moved [of P ys] by (metis union_assoc union_commute)

lemma archived_count:
  assumes wf: "jobs_wf d"
  shows "length (jobs d) = length (delete_where (\<lambda>j. j_id j \<in> set (pick after dl limit locked now d)) (jobs d)) +
    length (pick after dl limit locked now d)"
proof -
  let ?ids = "set (pick after dl limit locked now d)"
  have "set (filter (\<lambda>i. i \<in> ?ids) (map j_id (jobs d))) = ?ids" using pick_ids by fastforce
  moreover have "distinct (filter (\<lambda>i. i \<in> ?ids) (map j_id (jobs d)))" using wf by (simp add: jobs_wf_def)
  ultimately have "length (filter (\<lambda>i. i \<in> ?ids) (map j_id (jobs d))) = length (pick after dl limit locked now d)"
    using pick_distinct [OF wf] by (metis distinct_card)
  then have "length (filter (\<lambda>j. j_id j \<in> ?ids) (jobs d)) = length (pick after dl limit locked now d)"
    by (simp add: filter_map comp_def)
  then show ?thesis using mset_moved [of "\<lambda>j. j_id j \<in> ?ids" "jobs d"] by (metis size_mset size_union)
qed

text \<open>
  C25. A batch of the archiver moves whole jobs and loses nothing. Each job it takes is terminal, finished
  longer ago than the retention (dead letters than theirs) and has no open execution, and at most \<open>limit\<close> are
  taken; the jobs, executions, logs and dead letters of the live tables and the archive together are the
  same before and after; afterwards no execution, log, dead letter, lease or dependency of a moved job is
  left in the live tables; and every archived job lies in a partition that exists.
\<close>

theorem archive_moves_whole_jobs:
  assumes wf: "jobs_wf d"
  shows "\<exists>n d'. archive_tx after dl limit locked now d = Inr (n, d') \<and> n \<le> limit \<and> length (jobs d) = length (jobs d') + n \<and>
    (\<forall>j \<in> set (jobs d). j \<in> set (jobs d') \<or>
       archivable after dl now d j \<and> \<not> locked (j_id j) \<and> archived_row j \<in> set (jobs_archive d') \<and>
       (''jobs_archive'', day_of (the (j_finished_at j))) \<in> set (partitions d') \<and>
       (\<forall>x \<in> set (job_executions d'). x_job_id x \<noteq> j_id j) \<and> (\<forall>l \<in> set (dead_letter_jobs d'). d_job_id l \<noteq> j_id j) \<and>
       (\<forall>l \<in> set (job_leases d'). l_job_id l \<noteq> j_id j) \<and>
       (\<forall>(p, c) \<in> set (job_dependencies d'). p \<noteq> j_id j \<and> c \<noteq> j_id j) \<and>
       (\<forall>x \<in> set (job_executions d). x_job_id x = j_id j \<longrightarrow> (\<forall>g \<in> set (job_logs d'). g_execution_id g \<noteq> x_id x))) \<and>
    mset (map archived_row (jobs d')) + mset (jobs_archive d') = mset (map archived_row (jobs d)) + mset (jobs_archive d) \<and>
    mset (job_executions d') + mset (job_executions_archive d') = mset (job_executions d) + mset (job_executions_archive d) \<and>
    mset (job_logs d') + mset (job_logs_archive d') = mset (job_logs d) + mset (job_logs_archive d) \<and>
    mset (dead_letter_jobs d') + mset (dead_letter_jobs_archive d') = mset (dead_letter_jobs d) + mset (dead_letter_jobs_archive d)"
proof -
  let ?pk = "pick after dl limit locked now d"
  define ids where "ids = set ?pk"
  from archive_tx_eq [of after dl limit locked now d, folded ids_def] obtain d' where
    run: "archive_tx after dl limit locked now d = Inr (length ?pk, d')"
    and js: "jobs d' = delete_where (\<lambda>j. j_id j \<in> ids) (jobs d)"
      "jobs_archive d' = jobs_archive d @ map archived_row (filter (\<lambda>j. j_id j \<in> ids) (jobs d))"
    and xs: "job_executions d' = delete_where (\<lambda>x. x_job_id x \<in> ids) (job_executions d)"
      "job_executions_archive d' = job_executions_archive d @ filter (\<lambda>x. x_job_id x \<in> ids) (job_executions d)"
    and gs: "job_logs d' = delete_where (log_of ids d) (job_logs d)"
      "job_logs_archive d' = job_logs_archive d @ filter (log_of ids d) (job_logs d)"
    and ls: "dead_letter_jobs d' = delete_where (\<lambda>l. d_job_id l \<in> ids) (dead_letter_jobs d)"
      "dead_letter_jobs_archive d' = dead_letter_jobs_archive d @ filter (\<lambda>l. d_job_id l \<in> ids) (dead_letter_jobs d)"
    and cs: "ids \<noteq> {} \<longrightarrow> job_leases d' = delete_where (\<lambda>l. l_job_id l \<in> ids) (job_leases d) \<and>
      job_dependencies d' = delete_where (\<lambda>(p, c). p \<in> ids \<or> c \<in> ids) (job_dependencies d)"
    and ps: "\<forall>j \<in> set (jobs d). j_id j \<in> ids \<longrightarrow> (''jobs_archive'', day_of (the (j_finished_at j))) \<in> set (partitions d')"
    by - (elim exE conjE, rule that; assumption)
  have len: "length (jobs d) = length (jobs d') + length ?pk"
    using archived_count [OF wf, of after dl limit locked now] js(1) unfolding ids_def by simp
  have "length ?pk \<le> limit" by (simp add: pick_def)
  moreover have "j \<in> set (jobs d') \<or>
       archivable after dl now d j \<and> \<not> locked (j_id j) \<and> archived_row j \<in> set (jobs_archive d') \<and>
       (''jobs_archive'', day_of (the (j_finished_at j))) \<in> set (partitions d') \<and>
       (\<forall>x \<in> set (job_executions d'). x_job_id x \<noteq> j_id j) \<and> (\<forall>l \<in> set (dead_letter_jobs d'). d_job_id l \<noteq> j_id j) \<and>
       (\<forall>l \<in> set (job_leases d'). l_job_id l \<noteq> j_id j) \<and>
       (\<forall>(p, c) \<in> set (job_dependencies d'). p \<noteq> j_id j \<and> c \<noteq> j_id j) \<and>
       (\<forall>x \<in> set (job_executions d). x_job_id x = j_id j \<longrightarrow> (\<forall>g \<in> set (job_logs d'). g_execution_id g \<noteq> x_id x))"
    if j: "j \<in> set (jobs d)" for j
  proof (cases "j_id j \<in> ids")
    case True
    then have "archivable after dl now d j" "\<not> locked (j_id j)"
      using pick_sel [OF wf j, of after dl limit locked now] by (simp_all add: ids_def)
    moreover have "ids \<noteq> {}" using True by blast
    ultimately show ?thesis using True j cs ps
      by (auto simp: js xs gs ls set_delete_where log_of_def execs_of_def)
  qed (use j in \<open>simp add: js set_delete_where\<close>)
  moreover have "mset (map archived_row (jobs d')) + mset (jobs_archive d') = mset (map archived_row (jobs d)) + mset (jobs_archive d)"
    using arg_cong [OF mset_moved [of "\<lambda>j. j_id j \<in> ids" "jobs d"], of "image_mset archived_row"]
    by (simp add: js union_ac)
  moreover have
    "mset (job_executions d') + mset (job_executions_archive d') = mset (job_executions d) + mset (job_executions_archive d)"
    "mset (job_logs d') + mset (job_logs_archive d') = mset (job_logs d) + mset (job_logs_archive d)"
    "mset (dead_letter_jobs d') + mset (dead_letter_jobs_archive d') = mset (dead_letter_jobs d) + mset (dead_letter_jobs_archive d)"
    unfolding xs gs ls mset_append by (rule mset_moved_onto)+
  ultimately show ?thesis using run len by blast
qed

definition finished_job :: job where
  "finished_job = sample_queued\<lparr>j_id := 13, j_status := Completed, j_fence := 1, j_attempt_count := 1, j_claimed_at := Some 60,
     j_started_at := Some 70, j_deadline_at := Some 300000060, j_finished_at := Some 90\<rparr>"

definition finished_db :: db where
  "finished_db = sample_db\<lparr>jobs := jobs sample_db @ [finished_job], job_executions := job_executions sample_db @
     [sample_exec\<lparr>x_id := 101, x_job_id := 13, x_outcome := Some X_success, x_finished_at := Some 90\<rparr>],
     job_logs := [\<lparr>g_execution_id = 101, g_ts = 80, g_level = ''info'', g_message = ''sent''\<rparr>],
     job_dependencies := (13, 12) # job_dependencies sample_db\<rparr>"

lemmas finished_defs = finished_job_def finished_db_def sample_defs

lemma finished_db_wf: "jobs_wf finished_db"
  by (simp add: jobs_wf_def check_job_def finished_defs)

theorem archive_moves_whole_jobs_witness:
  "archivable 1000 1000 sample_now finished_db finished_job \<and>
   (\<exists>n d'. archive_tx 1000 1000 500 (\<lambda>_. False) sample_now finished_db = Inr (n, d') \<and> n \<le> 500 \<and>
     length (jobs finished_db) = length (jobs d') + n \<and>
     mset (job_executions d') + mset (job_executions_archive d') =
       mset (job_executions finished_db) + mset (job_executions_archive finished_db))"
proof (rule conjI)
  show "archivable 1000 1000 sample_now finished_db finished_job" by (simp add: archivable_def finished_defs)
  show "\<exists>n d'. archive_tx 1000 1000 500 (\<lambda>_. False) sample_now finished_db = Inr (n, d') \<and> n \<le> 500 \<and>
     length (jobs finished_db) = length (jobs d') + n \<and>
     mset (job_executions d') + mset (job_executions_archive d') =
       mset (job_executions finished_db) + mset (job_executions_archive finished_db)"
    using archive_moves_whole_jobs [OF finished_db_wf, of 1000 1000 500 "\<lambda>_. False" sample_now] by blast
qed

section \<open>Draining the backlog\<close>

lemma archive_batch:
  assumes wf: "jobs_wf d"
  shows "\<exists>n d'. archive_tx after dl limit (\<lambda>_. False) now d = Inr (n, d') \<and> jobs_wf d' \<and>
    length (jobs d) = length (jobs d') + n \<and> set (jobs_archive d) \<subseteq> set (jobs_archive d') \<and>
    (\<forall>j \<in> set (jobs d'). j \<in> set (jobs d) \<and> archivable after dl now d' j = archivable after dl now d j) \<and>
    (\<forall>j \<in> set (jobs d). j \<in> set (jobs d') \<or> archivable after dl now d j \<and> archived_row j \<in> set (jobs_archive d')) \<and>
    (n < limit \<longrightarrow> (\<forall>j \<in> set (jobs d'). \<not> archivable after dl now d j))"
proof -
  let ?pk = "pick after dl limit (\<lambda>_. False) now d"
  define ids where "ids = set ?pk"
  from archive_tx_eq [of after dl limit "\<lambda>_. False" now d, folded ids_def] obtain d' where
    run: "archive_tx after dl limit (\<lambda>_. False) now d = Inr (length ?pk, d')"
    and js: "jobs d' = delete_where (\<lambda>j. j_id j \<in> ids) (jobs d)"
      "jobs_archive d' = jobs_archive d @ map archived_row (filter (\<lambda>j. j_id j \<in> ids) (jobs d))"
    and xs: "job_executions d' = delete_where (\<lambda>x. x_job_id x \<in> ids) (job_executions d)"
    by - (elim exE conjE, rule that; assumption)
  have len: "length (jobs d) = length (jobs d') + length ?pk"
    using archived_count [OF wf, of after dl limit "\<lambda>_. False" now] js(1) unfolding ids_def by simp
  have same: "archivable after dl now d' j = archivable after dl now d j" if "j \<in> set (jobs d')" for j
    using that by (auto simp: archivable_def js xs set_delete_where)
  have all: "\<not> archivable after dl now d j" if "length ?pk < limit" "j \<in> set (jobs d')" for j
  proof
    assume "archivable after dl now d j"
    moreover have "j \<in> set (jobs d)" "j_id j \<notin> ids" using that(2) by (auto simp: js set_delete_where)
    ultimately have "j_id j \<in> ids" using that(1) by (auto simp: ids_def pick_def order_limit_def)
    with \<open>j_id j \<notin> ids\<close> show False by blast
  qed
  have "jobs_wf d'" using wf by (auto simp: jobs_wf_def js distinct_delete_where set_delete_where)
  moreover have "j \<in> set (jobs d') \<or> archivable after dl now d j \<and> archived_row j \<in> set (jobs_archive d')" if "j \<in> set (jobs d)" for j
    using pick_sel(1) [OF wf that, of after dl limit "\<lambda>_. False" now] that by (auto simp: js set_delete_where ids_def)
  moreover have "\<forall>j \<in> set (jobs d'). j \<in> set (jobs d)" by (simp add: js set_delete_where)
  ultimately show ?thesis using run len same all js(2) by (intro exI [of _ "length ?pk"] exI [of _ d']) auto
qed



section \<open>Idempotency keys outlive their jobs' stay\<close>

text \<open>
  A key expires 24 hours after the row was made (the column's default), and the row is made with its job; a
  job finishes no earlier than it was created.
\<close>

definition keys_with_jobs :: "db \<Rightarrow> bool" where
  "keys_with_jobs d \<longleftrightarrow>
     (\<forall>k \<in> set (idempotency_keys d). \<forall>j \<in> set (jobs d). j_id j = k_job_id k \<longrightarrow> k_expires_at k \<le> j_created_at j + 86400000000) \<and>
     (\<forall>j \<in> set (jobs d). \<forall>t. j_finished_at j = Some t \<longrightarrow> j_created_at j \<le> t)"

text \<open>
  Archiving with a retention of at least 24 hours, and pruning, never break a replay of a submission: a key
  that has not expired is not pruned, and the job it names, if it was in the live table, is still there after
  a batch. With the default configuration this holds.
\<close>

theorem live_keys_keep_their_jobs:
  assumes "jobs_wf d" and "keys_with_jobs d" and "86400000000 \<le> after" and "k \<in> set (idempotency_keys d)"
    and "now \<le> k_expires_at k" and "j \<in> set (jobs d)" and "j_id j = k_job_id k"
    and "archive_tx after dl limit locked now d = Inr (n, d1)" and "prune_sql now d1 = Inr (m, d2)"
  shows "j \<in> set (jobs d2) \<and> k \<in> set (idempotency_keys d2) \<and> 86400000000 \<le> ac_After DefaultArchConfig"
proof -
  let ?pk = "set (pick after dl limit locked now d)"
  from archive_tx_eq [of after dl limit locked now d] assms(8) have
    js: "jobs d1 = delete_where (\<lambda>j. j_id j \<in> ?pk) (jobs d)" and ks: "idempotency_keys d1 = idempotency_keys d"
    by auto
  have "j_id j \<notin> ?pk"
  proof
    assume "j_id j \<in> ?pk"
    from pick_sel(1) [OF assms(1,6) this] obtain t where t: "j_finished_at j = Some t" "t < now - after"
      by (auto simp: archivable_def split: option.splits)
    have "k_expires_at k \<le> j_created_at j + 86400000000" "j_created_at j \<le> t"
      using assms(2,4,6,7) t(1) by (auto simp: keys_with_jobs_def)
    with t(2) assms(3,5) show False by linarith
  qed
  moreover have "jobs d2 = jobs d1" "idempotency_keys d2 = delete_where (\<lambda>k. k_expires_at k < now) (idempotency_keys d1)"
    using assms(9) by (auto simp: prune_sql_def)
  ultimately show ?thesis using assms(4-6) by (simp add: js ks set_delete_where DefaultArchConfig_def)
qed

definition keyed_db :: db where
  "keyed_db = finished_db\<lparr>idempotency_keys := [\<lparr>k_queue_id = 7, k_key = ''a'', k_job_id = 13, k_fingerprint = ''f'',
     k_expires_at = 86400000050\<rparr>]\<rparr>"

theorem live_keys_keep_their_jobs_witness:
  "\<exists>n d1 m d2. archive_tx 86400000000 86400000000 500 (\<lambda>_. False) sample_now keyed_db = Inr (n, d1) \<and>
    prune_sql sample_now d1 = Inr (m, d2) \<and> finished_job \<in> set (jobs d2) \<and> idempotency_keys d2 \<noteq> []"
proof -
  obtain n d1 m d2 where r: "archive_tx 86400000000 86400000000 500 (\<lambda>_. False) sample_now keyed_db = Inr (n, d1)"
    "prune_sql sample_now d1 = Inr (m, d2)"
    using archive_tx_eq [of 86400000000 86400000000 500 "\<lambda>_. False" sample_now keyed_db] by (auto simp: prune_sql_def)
  have "finished_job \<in> set (jobs d2) \<and> hd (idempotency_keys keyed_db) \<in> set (idempotency_keys d2) \<and>
      86400000000 \<le> ac_After DefaultArchConfig"
    by (rule live_keys_keep_their_jobs [OF _ _ _ _ _ _ _ r])
       (simp_all add: jobs_wf_def check_job_def keys_with_jobs_def keyed_db_def finished_defs)
  with r show ?thesis by auto
qed

end
