(* ===== verification/Worker.thy ===== *)
theory Worker
  imports Archiver
begin

text \<open>
  The worker process, \<open>src/internal/worker\<close>: the retry loops around the calls of \<open>jobs\<close> and the run of one
  job with its lease loop (\<open>run.go\<close>), the buffer of log lines (\<open>logbuf.go\<close>), batched completion
  (\<open>complete.go\<close>), registration and heartbeats (\<open>register.go\<close>), and the claim loop (\<open>worker.go\<close>).

  A handler is user code: the model gets what it logged, what progress it reported and how it ended. The
  goroutines of a job share its log buffer and its fenced flag only, so a run is a sequence: start, the
  ticks of the lease loop that happened while the handler ran, then the report. What other processes do
  meanwhile is in the environment of each statement. Cancellation of a context is an input where the code
  asks for it.
\<close>

section \<open>Configuration\<close>

record WorkerConfig =
  wc_QueueID :: uuid
  wc_WorkerID :: uuid
  wc_Concurrency :: int
  wc_Lease :: interval
  wc_Drain :: interval
  wc_Poll :: interval
  wc_Heartbeat :: interval
  wc_Listen :: bool
  wc_CompleteBatch :: nat
  wc_CompleteWait :: interval

definition DefaultWorkerConfig :: WorkerConfig where
  "DefaultWorkerConfig = \<lparr>wc_QueueID = 0, wc_WorkerID = 0, wc_Concurrency = 4, wc_Lease = 30 * 1000000,
     wc_Drain = 30 * 1000000, wc_Poll = 1000000, wc_Heartbeat = 10 * 1000000, wc_Listen = True,
     wc_CompleteBatch = 25, wc_CompleteWait = 50 * 1000\<rparr>"

definition reportAttempts :: nat where
  "reportAttempts = 3"

section \<open>Retries\<close>

text \<open>
  The loop \<open>for i := 0; i < reportAttempts; i++\<close> the five calls share: one attempt, then at most \<open>n\<close> more.
  \<open>awake i\<close> is what \<open>backoff\<close> returned after attempt \<open>i\<close>: false when the context ended.
\<close>

fun retry_loop :: "nat \<Rightarrow> (go_error \<Rightarrow> bool) \<Rightarrow> (nat \<Rightarrow> bool) \<Rightarrow> (nat \<Rightarrow> db \<Rightarrow> (go_error + 'a) \<times> db) \<Rightarrow> nat \<Rightarrow> db \<Rightarrow>
    (go_error + 'a) \<times> db" where
  "retry_loop 0 final awake call i d = call i d"
| "retry_loop (Suc n) final awake call i d =
    (case call i d of
       (Inr a, d1) \<Rightarrow> (Inr a, d1)
     | (Inl e, d1) \<Rightarrow> if final e \<or> \<not> awake i then (Inl e, d1) else retry_loop n final awake call (Suc i) d1)"

record retry_env =
  rt_stmt :: "nat \<Rightarrow> stmt_env"
  rt_awake :: "nat \<Rightarrow> bool"
  rt_safe :: "nat \<Rightarrow> bool"

definition startJob :: "retry_env \<Rightarrow> (nat \<Rightarrow> uuid) \<Rightarrow> WorkerConfig \<Rightarrow> Claimed \<Rightarrow> db \<Rightarrow> (go_error + Execution) \<times> db" where
  "startJob env xid cfg c d =
     retry_loop (reportAttempts - 1) (\<lambda>e. e = ErrFenced \<or> \<not> transient (rt_safe env) e) (rt_awake env)
       (\<lambda>i d. Start (se_fate (rt_stmt env i)) (xid i) (se_now (rt_stmt env i)) (c_ID c) (c_Fence c) (wc_WorkerID cfg)
                (se_before (rt_stmt env i) d)) 0 d"

definition extend_lease :: "retry_env \<Rightarrow> WorkerConfig \<Rightarrow> Claimed \<Rightarrow> string \<Rightarrow> db \<Rightarrow> (go_error + bool) \<times> db" where
  "extend_lease env cfg c progress d =
     retry_loop (reportAttempts - 1) (\<lambda>e. \<not> transient (rt_safe env) e) (rt_awake env)
       (\<lambda>i d. ExtendLease (se_fate (rt_stmt env i)) (se_now (rt_stmt env i)) (c_ID c) (c_Fence c) (wc_Lease cfg) progress
                (se_before (rt_stmt env i) d)) 0 d"

text \<open>\<open>time.Duration.Milliseconds\<close> truncates toward zero.\<close>

definition milliseconds :: "interval \<Rightarrow> int" where
  "milliseconds t = (if 0 \<le> t then t div 1000 else - ((- t) div 1000))"

text \<open>The last error of \<open>snooze\<close> and \<open>report\<close> is only logged.\<close>

definition snooze :: "retry_env \<Rightarrow> Claimed \<Rightarrow> Execution \<Rightarrow> interval \<Rightarrow> db \<Rightarrow> (go_error + uuid) \<times> db" where
  "snooze env c exec after d =
     retry_loop (reportAttempts - 1) (\<lambda>e. e = ErrFenced \<or> \<not> transient (rt_safe env) e) (rt_awake env)
       (\<lambda>i d. Snooze (se_fate (rt_stmt env i)) (se_now (rt_stmt env i)) (c_ID c) (c_Fence c) (ex_ID exec) (milliseconds after)
                (se_before (rt_stmt env i) d)) 0 d"

definition report :: "retry_env \<Rightarrow> Claimed \<Rightarrow> bool \<Rightarrow> string \<Rightarrow> db \<Rightarrow> (go_error + uuid) \<times> db" where
  "report env c permanent msg d =
     retry_loop (reportAttempts - 1) (\<lambda>e. e = ErrFenced \<or> \<not> transient (rt_safe env) e) (rt_awake env)
       (\<lambda>i d. Fail (se_fate (rt_stmt env i)) (se_jit (rt_stmt env i)) (se_now (rt_stmt env i)) (c_ID c) (c_Fence c)
                permanent (Some msg) (se_before (rt_stmt env i) d)) 0 d"

definition probe :: "(nat \<Rightarrow> stmt_env) \<Rightarrow> WorkerConfig \<Rightarrow> Claimed \<Rightarrow> Execution \<Rightarrow> db \<Rightarrow> db" where
  "probe env cfg c exec d =
    (case Probe (se_fate (env 0)) (se_fate (env 1)) (se_now (env 0)) (c_ID c) (c_Fence c) (wc_WorkerID cfg) (se_before (env 0) d) of
       ((Some st, None), d1) \<Rightarrow>
         if st = StatusLive then d1
         else snd (CloseExecution (se_fate (env 2)) (se_now (env 2)) (ex_ID exec) st (se_before (env 2) d1))
     | (_, d1) \<Rightarrow> d1)"

section \<open>Log lines\<close>

definition maxPending :: nat where
  "maxPending = 1000"

record logbuf =
  lb_lines :: "LogLine list"

definition logbuf_add :: "string \<Rightarrow> string \<Rightarrow> logbuf \<Rightarrow> logbuf" where
  "logbuf_add lvl message b =
    (if maxPending \<le> length (lb_lines b) then b
     else b\<lparr>lb_lines := lb_lines b @ [\<lparr>ll_Level = lvl, ll_Message = message\<rparr>]\<rparr>)"

definition logbuf_take :: "logbuf \<Rightarrow> LogLine list \<times> logbuf" where
  "logbuf_take b = (lb_lines b, b\<lparr>lb_lines := []\<rparr>)"

definition writeLogs :: "stmt_env \<Rightarrow> Execution \<Rightarrow> LogLine list \<Rightarrow> db \<Rightarrow> db" where
  "writeLogs env exec lines d =
    (if lines = [] then d else snd (AppendLogs (se_fate env) (se_now env) (ex_ID exec) lines (se_before env d)))"

definition log_all :: "(string \<times> string) list \<Rightarrow> logbuf \<Rightarrow> logbuf" where
  "log_all ls b = fold (\<lambda>(lvl, message). logbuf_add lvl message) ls b"

section \<open>The lease loop\<close>

text \<open>
  One tick: what the handler has logged since the last one, its latest progress (empty when it reported
  none), the environments of the two writes, and whether the context was done after a failed extension.
\<close>

record lease_tick =
  lt_logs :: "(string \<times> string) list"
  lt_progress :: string
  lt_write :: stmt_env
  lt_extend :: retry_env
  lt_done :: bool

fun leaseLoop :: "WorkerConfig \<Rightarrow> Claimed \<Rightarrow> Execution \<Rightarrow> lease_tick list \<Rightarrow> logbuf \<Rightarrow> db \<Rightarrow> (bool \<times> logbuf) \<times> db" where
  "leaseLoop cfg c exec [] b d = ((False, b), d)"
| "leaseLoop cfg c exec (t # ts) b d =
    (let tk = logbuf_take (log_all (lt_logs t) b);
         d1 = writeLogs (lt_write t) exec (fst tk) d
     in case extend_lease (lt_extend t) cfg c (lt_progress t) d1 of
          (Inl e, d2) \<Rightarrow> if lt_done t then ((False, snd tk), d2) else leaseLoop cfg c exec ts (snd tk) d2
        | (Inr ok, d2) \<Rightarrow> if ok then leaseLoop cfg c exec ts (snd tk) d2 else ((True, snd tk), d2))"

section \<open>Running one job\<close>

text \<open>What a handler returns: nil, a \<open>Snooze\<close>, or another error with \<open>errors.Is(err, ErrPermanent)\<close> and its text.\<close>

datatype herr = H_nil | H_snooze interval | H_error bool string

datatype handler_end = Returns herr | Panics string

fun call :: "handler_end \<Rightarrow> herr" where
  "call (Returns e) = e"
| "call (Panics r) = H_error False (''handler panic: '' @ r)"

record finished =
  fi_claimed :: Claimed
  fi_exec :: Execution

text \<open>
  What a run meets: whether the type has a handler, whether the worker is stopping, the attempts of the start,
  the ticks while the handler ran, what it logged after the last one and how it ended, whether the run was
  aborted meanwhile, and the environments of the statements at the end.
\<close>

record job_run =
  jr_handler :: bool
  jr_stopping :: bool
  jr_start :: retry_env
  jr_xid :: "nat \<Rightarrow> uuid"
  jr_ticks :: "lease_tick list"
  jr_logs :: "(string \<times> string) list"
  jr_end :: handler_end
  jr_aborted :: bool
  jr_write :: stmt_env
  jr_probe :: "nat \<Rightarrow> stmt_env"
  jr_report :: retry_env

definition settle_run :: "WorkerConfig \<Rightarrow> job_run \<Rightarrow> Claimed \<Rightarrow> Execution \<Rightarrow> bool \<Rightarrow> db \<Rightarrow> finished option \<times> db" where
  "settle_run cfg r c exec fenced d =
    (if fenced then (None, probe (jr_probe r) cfg c exec d)
     else case call (jr_end r) of
       H_nil \<Rightarrow> (Some \<lparr>fi_claimed = c, fi_exec = exec\<rparr>, d)
     | H_snooze after \<Rightarrow> (None, snd (snooze (jr_report r) c exec after d))
     | H_error permanent msg \<Rightarrow> (None, if jr_aborted r then d else snd (report (jr_report r) c permanent msg d)))"

definition runOne :: "WorkerConfig \<Rightarrow> job_run \<Rightarrow> Claimed \<Rightarrow> db \<Rightarrow> finished option \<times> db" where
  "runOne cfg r c d =
    (if \<not> jr_handler r \<or> jr_stopping r then (None, d)
     else case startJob (jr_start r) (jr_xid r) cfg c d of
       (Inl e, d1) \<Rightarrow> (None, d1)
     | (Inr exec, d1) \<Rightarrow>
        (case leaseLoop cfg c exec (jr_ticks r) \<lparr>lb_lines = []\<rparr> d1 of
           ((fenced, b), d2) \<Rightarrow>
             settle_run cfg r c exec fenced (writeLogs (jr_write r) exec (fst (logbuf_take (log_all (jr_logs r) b))) d2)))"

section \<open>Completing in batches\<close>

record flush_env =
  fe_call :: retry_env
  fe_probe :: "uuid \<Rightarrow> nat \<Rightarrow> stmt_env"

definition done_of :: "finished \<Rightarrow> Done" where
  "done_of f = \<lparr>dn_JobID = c_ID (fi_claimed f), dn_Fence = c_Fence (fi_claimed f), dn_Exec = ex_ID (fi_exec f)\<rparr>"

definition probe_rest :: "(uuid \<Rightarrow> nat \<Rightarrow> stmt_env) \<Rightarrow> WorkerConfig \<Rightarrow> uuid list \<Rightarrow> finished list \<Rightarrow> db \<Rightarrow> db" where
  "probe_rest env cfg ok buf d =
     fold (\<lambda>f d. if c_ID (fi_claimed f) \<in> set ok then d
                 else probe (env (c_ID (fi_claimed f))) cfg (fi_claimed f) (fi_exec f) d) buf d"

definition flush :: "flush_env \<Rightarrow> WorkerConfig \<Rightarrow> finished list \<Rightarrow> db \<Rightarrow> finished list \<times> db" where
  "flush env cfg buf d =
    (if buf = [] then (buf, d)
     else case retry_loop (reportAttempts - 1) (\<lambda>e. \<not> transient (rt_safe (fe_call env)) e) (rt_awake (fe_call env))
            (\<lambda>i d. CompleteBatch (se_fate (rt_stmt (fe_call env) i)) (se_now (rt_stmt (fe_call env) i)) (map done_of buf)
                     (se_before (rt_stmt (fe_call env) i) d)) 0 d of
       (Inl e, d1) \<Rightarrow> ([], d1)
     | (Inr ok, d1) \<Rightarrow> ([], if length ok < length buf then probe_rest (fe_probe env) cfg ok buf d1 else d1))"

text \<open>
  The select loop, over what it receives: a finished job, a tick of the timer, or the closing of the channel.
  Beside the database the model returns the batches it handed to \<open>flush\<close>, in order.
\<close>

datatype comp_input = Got finished flush_env | Ticked flush_env | Closed_chan flush_env

fun completeLoop :: "WorkerConfig \<Rightarrow> comp_input list \<Rightarrow> finished list \<Rightarrow> db \<Rightarrow> (finished list list \<times> finished list) \<times> db" where
  "completeLoop cfg [] buf d = (([], buf), d)"
| "completeLoop cfg (Got f env # ins) buf d =
    (if wc_CompleteBatch cfg \<le> length (buf @ [f])
     then (case flush env cfg (buf @ [f]) d of (buf', d1) \<Rightarrow>
             (case completeLoop cfg ins buf' d1 of ((bs, rest), d2) \<Rightarrow> (((buf @ [f]) # bs, rest), d2)))
     else completeLoop cfg ins (buf @ [f]) d)"
| "completeLoop cfg (Ticked env # ins) buf d =
    (case flush env cfg buf d of (buf', d1) \<Rightarrow>
       (case completeLoop cfg ins buf' d1 of ((bs, rest), d2) \<Rightarrow> ((if buf = [] then bs else buf # bs, rest), d2)))"
| "completeLoop cfg (Closed_chan env # ins) buf d =
    (case flush env cfg buf d of (buf', d1) \<Rightarrow> ((if buf = [] then [] else [buf], buf'), d1))"

section \<open>Registration\<close>

definition register_sql :: "uuid \<Rightarrow> uuid \<Rightarrow> string \<Rightarrow> int \<Rightarrow> int \<Rightarrow> timestamptz \<Rightarrow> uuid option tx" where
  "register_sql i queue host pid concurrency now d =
    (case queue_of d queue of
       None \<Rightarrow> Inr (None, d)
     | Some q \<Rightarrow>
         if concurrency \<le> 0 then Inl check_violation
         else Inr (Some i, d\<lparr>workers := workers d @ [\<lparr>w_id = i, w_project_id = q_project_id q, w_hostname = host, w_pid = pid,
           w_max_concurrency = concurrency, w_handlers = [], w_state = W_active, w_started_at = now, w_last_seen_at = now\<rparr>]\<rparr>))"

definition Register :: "stmt_env \<Rightarrow> uuid \<Rightarrow> string option \<Rightarrow> int \<Rightarrow> uuid \<Rightarrow> int \<Rightarrow> db \<Rightarrow> (go_error + uuid) \<times> db" where
  "Register env i hostname pid queue concurrency d =
    (case scan_row (stmt env (register_sql i queue (coalesce hostname ''unknown'') pid concurrency) d) of
       (Inl ErrNoRows, d1) \<Rightarrow> (Inl ErrNoQueue, d1)
     | r \<Rightarrow> r)"

definition announce_sql :: "uuid \<Rightarrow> string list \<Rightarrow> timestamptz \<Rightarrow> unit tx" where
  "announce_sql worker types now d =
     Inr ((), d\<lparr>workers := update_where (\<lambda>w. w_id w = worker) (\<lambda>w. w\<lparr>w_handlers := types\<rparr>) (workers d)\<rparr>)"

definition subscribe_sql :: "uuid \<Rightarrow> uuid \<Rightarrow> timestamptz \<Rightarrow> unit tx" where
  "subscribe_sql worker queue now d =
    (if (worker, queue) \<in> set (worker_queues d) then Inr ((), d)
     else if worker \<notin> w_id ` set (workers d) \<or> queue \<notin> q_id ` set (queues d) then Inl fk_violation
     else Inr ((), d\<lparr>worker_queues := worker_queues d @ [(worker, queue)]\<rparr>))"

definition announce :: "stmt_env \<Rightarrow> stmt_env \<Rightarrow> WorkerConfig \<Rightarrow> string list \<Rightarrow> db \<Rightarrow> (go_error + unit) \<times> db" where
  "announce e1 e2 cfg types d =
    (case stmt e1 (announce_sql (wc_WorkerID cfg) types) d of
       (Inl e, d1) \<Rightarrow> (Inl e, d1)
     | (Inr _, d1) \<Rightarrow> stmt e2 (subscribe_sql (wc_WorkerID cfg) (wc_QueueID cfg)) d1)"

definition heartbeat_sql :: "uuid \<Rightarrow> timestamptz \<Rightarrow> unit tx" where
  "heartbeat_sql worker now d =
     Inr ((), d\<lparr>workers := update_where (\<lambda>w. w_id w = worker) (\<lambda>w. w\<lparr>w_last_seen_at := now\<rparr>) (workers d)\<rparr>)"

definition beat :: "stmt_env \<Rightarrow> uuid \<Rightarrow> db \<Rightarrow> (go_error + unit) \<times> db" where
  "beat env worker d = stmt env (heartbeat_sql worker) d"

definition retire_sql :: "uuid \<Rightarrow> worker_state \<Rightarrow> timestamptz \<Rightarrow> unit tx" where
  "retire_sql worker state now d =
     Inr ((), d\<lparr>workers := update_where (\<lambda>w. w_id w = worker) (\<lambda>w. w\<lparr>w_state := state, w_last_seen_at := now\<rparr>) (workers d)\<rparr>)"

definition retire :: "stmt_env \<Rightarrow> uuid \<Rightarrow> worker_state \<Rightarrow> db \<Rightarrow> db" where
  "retire env worker state d = snd (stmt env (retire_sql worker state) d)"

section \<open>A retried call happens once\<close>

lemma fold_upt_Suc_start: "fold b [i..<Suc (Suc (i + k))] d = fold b [Suc i..<Suc (Suc (i + k))] (b i d)"
  by (subst upt_conv_Cons) simp_all

context fenced_once
begin

lemma retry_once:
  assumes "\<And>i. safe_for safe (f i)" and "\<And>e. \<not> final e \<Longrightarrow> transient safe e"
    and "retry_loop n final awake (\<lambda>i d. no_rows_fenced (scan_row (run_tx (f i) (op (p i) job fence) (b i d)))) i d = (r, d')"
  shows "\<exists>k \<le> n. let dk = fold b [i..<Suc (i + k)] d in
    (d' = dk \<and> (\<exists>e. r = Inl e)) \<or>
    (\<exists>a. op (p (i + k)) job fence dk = Inr (Some a, d') \<and> (r = Inr a \<or> (\<exists>e. r = Inl (Conn e) \<and> \<not> safe e)))"
  using assms(3)
proof (induction n arbitrary: i d)
  case 0
  then show ?case using attempt [OF _ assms(1), of i "p i" job fence "b i d" r d'] by simp
next
  case (Suc n)
  let ?call = "\<lambda>i d. no_rows_fenced (scan_row (run_tx (f i) (op (p i) job fence) (b i d)))"
  obtain r1 d1 where one: "?call i d = (r1, d1)" by (cases "?call i d")
  show ?case
  proof (cases "\<exists>e. r1 = Inl e \<and> \<not> final e \<and> awake i")
    case True
    then obtain e where e: "r1 = Inl e" "\<not> final e" "awake i" by blast
    have d1: "d1 = b i d" using transient_attempt [OF one [unfolded e(1)] assms(1)] assms(2) e(2) by blast
    have "retry_loop n final awake ?call (Suc i) (b i d) = (r, d')" using Suc.prems one e d1 by simp
    from Suc.IH [OF this] obtain k where k: "k \<le> n"
      "let dk = fold b [Suc i..<Suc (Suc i + k)] (b i d) in
        (d' = dk \<and> (\<exists>e. r = Inl e)) \<or>
        (\<exists>a. op (p (Suc i + k)) job fence dk = Inr (Some a, d') \<and> (r = Inr a \<or> (\<exists>e. r = Inl (Conn e) \<and> \<not> safe e)))"
      by blast
    then show ?thesis
      by (intro exI [of _ "Suc k"]) (simp add: fold_upt_Suc_start Let_def del: upt_Suc fold_append)
  next
    case False
    then have "(r1, d1) = (r, d')" using Suc.prems one by (cases r1) auto
    then show ?thesis using attempt [OF one assms(1)] by (intro exI [of _ 0]) simp
  qed
qed

end

text \<open>
  The worker's retries do not repeat work. Whatever other processes do between the attempts, every attempt
  but the last of \<open>startJob\<close>, \<open>report\<close> and \<open>snooze\<close> leaves nothing behind. The last one, at most the third,
  either left nothing and the call returns an error, or performed the operation once on the database it
  found and the call returns its row, or, when only the reply was lost, a connection error that is not
  safe to retry. It rests on \<open>SafeToRetry\<close> being true only of errors raised before anything was sent.
\<close>

theorem retries_take_effect_once:
  assumes "\<And>i. safe_for (rt_safe env) (se_fate (rt_stmt env i))"
  shows
    "(startJob env xid cfg c d = (r, d') \<longrightarrow> (\<exists>k < 3. let dk = fold (\<lambda>i. se_before (rt_stmt env i)) [0..<Suc k] d in
       (d' = dk \<and> (\<exists>e. r = Inl e)) \<or>
       (\<exists>a. start_sql (wc_WorkerID cfg) (xid k) (se_now (rt_stmt env k)) (c_ID c) (c_Fence c) dk = Inr (Some a, d') \<and>
          (r = Inr a \<or> (\<exists>e. r = Inl (Conn e) \<and> \<not> rt_safe env e))))) \<and>
     (report env c permanent msg d = (r', d') \<longrightarrow> (\<exists>k < 3. let dk = fold (\<lambda>i. se_before (rt_stmt env i)) [0..<Suc k] d in
       (d' = dk \<and> (\<exists>e. r' = Inl e)) \<or>
       (\<exists>a. report_failure (fail_args permanent (Some msg)) (se_jit (rt_stmt env k)) (se_now (rt_stmt env k)) (c_ID c)
            (Some (c_Fence c)) dk = Inr (Some a, d') \<and> (r' = Inr a \<or> (\<exists>e. r' = Inl (Conn e) \<and> \<not> rt_safe env e))))) \<and>
     (snooze env c exec after d = (r', d') \<longrightarrow> (\<exists>k < 3. let dk = fold (\<lambda>i. se_before (rt_stmt env i)) [0..<Suc k] d in
       (d' = dk \<and> (\<exists>e. r' = Inl e)) \<or>
       (\<exists>a. report_snooze (ex_ID exec) (milliseconds after) (se_now (rt_stmt env k)) (c_ID c) (Some (c_Fence c)) dk =
            Inr (Some a, d') \<and> (r' = Inr a \<or> (\<exists>e. r' = Inl (Conn e) \<and> \<not> rt_safe env e)))))"
proof -
  let ?b = "\<lambda>i. se_before (rt_stmt env i)" and ?f = "\<lambda>i. se_fate (rt_stmt env i)"
  let ?fin = "\<lambda>e. e = ErrFenced \<or> \<not> transient (rt_safe env) e"
  have fin: "\<not> ?fin e \<Longrightarrow> transient (rt_safe env) e" for e by blast
  have three: "(\<exists>k \<le> 2. P k) = (\<exists>k < (3::nat). P k)" for P by (auto simp: less_Suc_eq_le eval_nat_numeral)
  show ?thesis
    using start.retry_once [where f = ?f and b = ?b and safe = "rt_safe env" and final = ?fin and n = 2 and i = 0 and awake = "rt_awake env"
        and p = "\<lambda>i. (wc_WorkerID cfg, xid i, se_now (rt_stmt env i))" and job = "c_ID c" and fence = "c_Fence c" and d = d and r = r and d' = d',
        OF assms fin]
      failure.retry_once [where f = ?f and b = ?b and safe = "rt_safe env" and final = ?fin and n = 2 and i = 0 and awake = "rt_awake env"
        and p = "\<lambda>i. (fail_args permanent (Some msg), se_jit (rt_stmt env i), se_now (rt_stmt env i))"
        and job = "c_ID c" and fence = "c_Fence c" and d = d and r = r' and d' = d', OF assms fin]
      snooze.retry_once [where f = ?f and b = ?b and safe = "rt_safe env" and final = ?fin and n = 2 and i = 0 and awake = "rt_awake env"
        and p = "\<lambda>i. (ex_ID exec, milliseconds after, se_now (rt_stmt env i))"
        and job = "c_ID c" and fence = "c_Fence c" and d = d and r = r' and d' = d', OF assms fin]
    unfolding startJob_def report_def snooze_def Start_def Fail_def Snooze_def three
    by (simp add: reportAttempts_def del: upt_Suc)
qed

definition quiet_retry :: "timestamptz \<Rightarrow> retry_env" where
  "quiet_retry now = \<lparr>rt_stmt = (\<lambda>_. quiet_stmt now), rt_awake = (\<lambda>_. True), rt_safe = (\<lambda>_. False)\<rparr>"

text \<open>A deadlock on the first attempt, then a clean second one.\<close>

definition flaky_retry :: retry_env where
  "flaky_retry = (quiet_retry sample_now)\<lparr>rt_stmt := (\<lambda>i. if i = 0 then (quiet_stmt sample_now)\<lparr>se_fate := Aborts ''40P01''\<rparr>
     else quiet_stmt sample_now)\<rparr>"

definition sample_token :: Claimed where
  "sample_token = claimed_of sample_running"

lemma fold_id: "fold (\<lambda>_. id) xs d = d"
  by (induction xs) auto

theorem retries_take_effect_once_witness:
  "\<exists>r d'. report flaky_retry sample_token False ''boom'' sample_db = (r, d') \<and>
    ((d' = sample_db \<and> (\<exists>e. r = Inl e)) \<or>
     (\<exists>a. report_failure (fail_args False (Some ''boom'')) (False, 0) sample_now 11 (Some 1) sample_db = Inr (Some a, d') \<and>
        (r = Inr a \<or> (\<exists>e. r = Inl (Conn e) \<and> \<not> rt_safe flaky_retry e))))"
proof -
  obtain r d' where r: "report flaky_retry sample_token False ''boom'' sample_db = (r, d')" by fastforce
  have safe: "safe_for (rt_safe flaky_retry) (se_fate (rt_stmt flaky_retry i))" for i
    by (simp add: flaky_retry_def quiet_retry_def safe_for_def quiet_stmt_def)
  have env: "se_before (rt_stmt flaky_retry i) = id" "se_jit (rt_stmt flaky_retry i) = (False, 0)"
    "se_now (rt_stmt flaky_retry i) = sample_now" for i
    by (simp_all add: flaky_retry_def quiet_stmt_def)
  have tok: "c_ID sample_token = 11" "c_Fence sample_token = 1"
    by (simp_all add: sample_token_def claimed_of_def sample_defs)
  from retries_take_effect_once [OF safe, THEN conjunct2, THEN conjunct1, THEN mp, OF r] r show ?thesis
    unfolding env tok fold_id Let_def by blast
qed

section \<open>Log lines\<close>

lemma log_all_lines:
  assumes "length (lb_lines b) \<le> maxPending"
  shows "lb_lines (log_all ls b) = take maxPending (lb_lines b @ map (\<lambda>(l, m). \<lparr>ll_Level = l, ll_Message = m\<rparr>) ls)"
  using assms
proof (induction ls arbitrary: b)
  case Nil
  then show ?case by (simp add: log_all_def)
next
  case (Cons x ls)
  obtain l m where x: "x = (l, m)" by (cases x)
  have step: "log_all (x # ls) b = log_all ls (logbuf_add l m b)" by (simp add: log_all_def x)
  show ?case
  proof (cases "maxPending \<le> length (lb_lines b)")
    case True
    then show ?thesis using Cons unfolding step by (simp add: logbuf_add_def)
  next
    case False
    then have "lb_lines (log_all ls (logbuf_add l m b)) =
        take maxPending (lb_lines (logbuf_add l m b) @ map (\<lambda>(l, m). \<lparr>ll_Level = l, ll_Message = m\<rparr>) ls)"
      by (intro Cons.IH) (simp add: logbuf_add_def)
    then show ?thesis using False unfolding step by (simp add: x logbuf_add_def)
  qed
qed

text \<open>
  Between two flushes the log buffer refines a list cut at a thousand lines: however much a handler logs,
  taking the buffer gives the first thousand lines in the order they were logged and leaves it empty.
\<close>

theorem logbuf_keeps_first_thousand:
  "fst (logbuf_take (log_all ls \<lparr>lb_lines = []\<rparr>)) = take 1000 (map (\<lambda>(l, m). \<lparr>ll_Level = l, ll_Message = m\<rparr>) ls) \<and>
   lb_lines (snd (logbuf_take (log_all ls b))) = [] \<and>
   fst (logbuf_take (log_all ls' (snd (logbuf_take (log_all ls b))))) =
     take 1000 (map (\<lambda>(l, m). \<lparr>ll_Level = l, ll_Message = m\<rparr>) ls')"
  by (simp add: logbuf_take_def log_all_lines maxPending_def)

section \<open>Batched completion\<close>

lemma flush_empties: "fst (flush env cfg buf d) = []"
  by (auto simp: flush_def split: prod.split sum.split)

definition items :: "comp_input list \<Rightarrow> finished list" where
  "items ins = List.map_filter (\<lambda>i. case i of Got f _ \<Rightarrow> Some f | _ \<Rightarrow> None) ins"

lemma items_simps [simp]:
  "items [] = []" "items (Got f e # ins) = f # items ins" "items (Ticked e # ins) = items ins"
  "items (Closed_chan e # ins) = items ins"
  by (simp_all add: items_def List.map_filter_simps)

lemma completeLoop_batches:
  assumes "completeLoop cfg ins buf d = ((bs, rest), d')" and "length buf < max 1 (wc_CompleteBatch cfg)"
    and "\<forall>e. Closed_chan e \<notin> set ins"
  shows "concat bs @ rest = buf @ items ins" "length rest < max 1 (wc_CompleteBatch cfg)"
    "\<forall>b \<in> set bs. b \<noteq> [] \<and> length b \<le> max 1 (wc_CompleteBatch cfg)"
proof -
  have "concat bs @ rest = buf @ items ins \<and> length rest < max 1 (wc_CompleteBatch cfg) \<and>
    (\<forall>b \<in> set bs. b \<noteq> [] \<and> length b \<le> max 1 (wc_CompleteBatch cfg))"
    using assms
  proof (induction cfg ins buf d arbitrary: bs rest d' rule: completeLoop.induct)
    case (2 cfg f env ins buf d)
    show ?case
    proof (cases "wc_CompleteBatch cfg \<le> length (buf @ [f])")
      case True
      obtain b' d1 where fl: "flush env cfg (buf @ [f]) d = (b', d1)" by fastforce
      then have b': "b' = []" using flush_empties [of env cfg "buf @ [f]" d] by simp
      obtain bs1 r1 d2 where c: "completeLoop cfg ins b' d1 = ((bs1, r1), d2)" by (metis prod.collapse)
      have "concat bs1 @ r1 = b' @ items ins \<and> length r1 < max 1 (wc_CompleteBatch cfg) \<and>
          (\<forall>b \<in> set bs1. b \<noteq> [] \<and> length b \<le> max 1 (wc_CompleteBatch cfg))"
        using 2(1) [OF True fl [symmetric] c] 2(4,5) b' by auto
      then show ?thesis using 2(3,4) True fl c b' by (auto split: prod.splits)
    next
      case False
      then show ?thesis using 2 by auto
    qed
  next
    case (3 cfg env ins buf d)
    obtain b' d1 where fl: "flush env cfg buf d = (b', d1)" by fastforce
    then have b': "b' = []" using flush_empties [of env cfg buf d] by simp
    obtain bs1 r1 d2 where c: "completeLoop cfg ins b' d1 = ((bs1, r1), d2)" by (metis prod.collapse)
    have "concat bs1 @ r1 = b' @ items ins \<and> length r1 < max 1 (wc_CompleteBatch cfg) \<and>
        (\<forall>b \<in> set bs1. b \<noteq> [] \<and> length b \<le> max 1 (wc_CompleteBatch cfg))"
      using 3(1) [OF fl [symmetric] c] 3(4) b' by auto
    then show ?case using 3(2,3) fl c b' by (auto split: prod.splits if_splits)
  qed auto
  then show "concat bs @ rest = buf @ items ins" "length rest < max 1 (wc_CompleteBatch cfg)"
    "\<forall>b \<in> set bs. b \<noteq> [] \<and> length b \<le> max 1 (wc_CompleteBatch cfg)" by auto
qed

lemma completeLoop_append:
  assumes "\<forall>e. Closed_chan e \<notin> set ins"
  shows "completeLoop cfg (ins @ ins2) buf d =
    (case completeLoop cfg ins buf d of ((bs, rest), d1) \<Rightarrow>
       (case completeLoop cfg ins2 rest d1 of ((cs, rest'), d2) \<Rightarrow> ((bs @ cs, rest'), d2)))"
  using assms
  by (induction cfg ins buf d rule: completeLoop.induct) (auto split: prod.splits)

text \<open>
  The completion loop neither loses nor duplicates nor reorders a finished job. Whatever the timing of its
  ticks, when the channel is closed the batches it handed over are, one after the other, exactly the jobs
  it received in order; each batch is non-empty and no longer than \<open>CompleteBatch\<close>; before the close fewer than
  a batch are waiting; and nothing is left behind.
\<close>

theorem completions_all_flushed:
  assumes "\<forall>e. Closed_chan e \<notin> set ins" and "0 < wc_CompleteBatch cfg"
  shows "\<exists>bs rest d1 cs d'. completeLoop cfg ins [] d = ((bs, rest), d1) \<and>
    concat bs @ rest = items ins \<and> length rest < wc_CompleteBatch cfg \<and>
    completeLoop cfg (ins @ [Closed_chan env]) [] d = ((bs @ cs, []), d') \<and> concat (bs @ cs) = items ins \<and>
    (\<forall>b \<in> set (bs @ cs). b \<noteq> [] \<and> length b \<le> wc_CompleteBatch cfg)"
proof -
  obtain bs rest d1 where run: "completeLoop cfg ins [] d = ((bs, rest), d1)" by (metis prod.collapse)
  note b = completeLoop_batches [OF run _ assms(1)]
  have rest: "concat bs @ rest = items ins" "length rest < wc_CompleteBatch cfg"
    and bs: "\<forall>b \<in> set bs. b \<noteq> [] \<and> length b \<le> wc_CompleteBatch cfg" using b assms(2) by (auto simp: max_def)
  obtain d' where fl: "flush env cfg rest d1 = ([], d')" using flush_empties [of env cfg rest d1] by (metis prod.collapse)
  let ?cs = "if rest = [] then [] else [rest]"
  have "completeLoop cfg (ins @ [Closed_chan env]) [] d = ((bs @ ?cs, []), d')"
    unfolding completeLoop_append [OF assms(1)] run using fl by simp
  moreover have "concat (bs @ ?cs) = items ins" using rest(1) by auto
  moreover have "\<forall>b \<in> set (bs @ ?cs). b \<noteq> [] \<and> length b \<le> wc_CompleteBatch cfg" using bs rest(2) by auto
  ultimately show ?thesis using run rest by blast
qed

definition sample_finished :: finished where
  "sample_finished = \<lparr>fi_claimed = sample_token, fi_exec = \<lparr>ex_ID = 100, ex_Attempt = 1\<rparr>\<rparr>"

definition quiet_flush :: "timestamptz \<Rightarrow> flush_env" where
  "quiet_flush now = \<lparr>fe_call = quiet_retry now, fe_probe = (\<lambda>_ _. quiet_stmt now)\<rparr>"

theorem completions_all_flushed_witness:
  "\<exists>bs rest d1 cs d'. completeLoop DefaultWorkerConfig [Got sample_finished (quiet_flush 5), Ticked (quiet_flush 5)] [] sample_db = ((bs, rest), d1) \<and>
    concat bs @ rest = items [Got sample_finished (quiet_flush 5), Ticked (quiet_flush 5)] \<and> length rest < wc_CompleteBatch DefaultWorkerConfig \<and>
    completeLoop DefaultWorkerConfig ([Got sample_finished (quiet_flush 5), Ticked (quiet_flush 5)] @ [Closed_chan (quiet_flush 5)]) [] sample_db = ((bs @ cs, []), d') \<and>
    concat (bs @ cs) = items [Got sample_finished (quiet_flush 5), Ticked (quiet_flush 5)] \<and>
    (\<forall>b \<in> set (bs @ cs). b \<noteq> [] \<and> length b \<le> wc_CompleteBatch DefaultWorkerConfig)"
  by (rule completions_all_flushed) (simp_all add: DefaultWorkerConfig_def)

section \<open>A fenced run reports nothing\<close>

lemma write_execs_frame:
  assumes "update_execs P f d = Inr d'"
  shows "jobs d' = jobs d" "job_leases d' = job_leases d" "queue_shards d' = queue_shards d" "events d' = events d"
    "dead_letter_jobs d' = dead_letter_jobs d" "queue_stats_minute d' = queue_stats_minute d"
  using assms by (auto simp: update_execs_Inr_iff)

definition report_free :: "db \<Rightarrow> db \<Rightarrow> bool" where
  "report_free d d' \<longleftrightarrow> jobs d' = jobs d \<and> job_leases d' = job_leases d \<and> queue_shards d' = queue_shards d \<and>
     events d' = events d \<and> dead_letter_jobs d' = dead_letter_jobs d \<and> queue_stats_minute d' = queue_stats_minute d"

lemma report_free_refl [simp]: "report_free d d"
  by (simp add: report_free_def)

lemma report_free_trans: "report_free a b \<Longrightarrow> report_free b c \<Longrightarrow> report_free a c"
  by (simp add: report_free_def)

lemma run_tx_report_free:
  assumes "run_tx f t d = (r, d')" and "\<And>a x. t d = Inr (a, x) \<Longrightarrow> report_free d x"
  shows "report_free d d'"
  using run_tx_outcome [OF assms(1)] assms(2) by auto

lemma violation_report_free: "report_free d (snd (violation f now job w h af st d))"
proof -
  obtain r d' where r: "run_tx f (violation_sql now job w h af st) d = (r, d')" by fastforce
  have "report_free d d'" using r by (rule run_tx_report_free) (auto simp: violation_sql_def report_free_def)
  then show ?thesis by (simp add: violation_def r split: sum.split)
qed

lemma Probe_report_free: "report_free d (snd (Probe f g now job fence w d))"
proof -
  obtain r d1 where r: "scan_row (run_tx f (probe_sql now job) d) = (r, d1)" by fastforce
  then have "d1 = snd (run_tx f (probe_sql now job) d)" by (metis snd_conv snd_scan_row)
  moreover have "snd (run_tx f (probe_sql now job) d) = d" by (simp add: run_tx_def probe_sql_def split: fate.split)
  ultimately have d1: "d1 = d" by simp
  show ?thesis
    using violation_report_free [of d g now job w fence]
    unfolding Probe_def r d1 by (auto split: sum.split go_error.split prod.split) (metis snd_conv)+
qed

lemma CloseExecution_report_free: "report_free d (snd (CloseExecution f now exec st d))"
proof (cases "execOutcome st")
  case (Some oc)
  obtain r d' where r: "run_tx f (close_exec_sql exec oc None None now) d = (r, d')" by fastforce
  have "report_free d d'"
    using r by (rule run_tx_report_free) (auto simp: close_exec_sql_def result_simps report_free_def dest: write_execs_frame)
  then show ?thesis by (simp add: CloseExecution_def Some r split: sum.split)
qed (simp add: CloseExecution_def)

lemma probe_report_free:
  assumes "\<And>i. se_before (env i) = id"
  shows "report_free d (probe env cfg c exec d)"
proof -
  obtain st e d1 where p: "Probe (se_fate (env 0)) (se_fate (env 1)) (se_now (env 0)) (c_ID c) (c_Fence c) (wc_WorkerID cfg) d = ((st, e), d1)"
    by (metis prod.collapse)
  have "report_free d d1"
    using Probe_report_free [of d "se_fate (env 0)" "se_fate (env 1)" "se_now (env 0)" "c_ID c" "c_Fence c" "wc_WorkerID cfg"] p by simp
  then show ?thesis
    using report_free_trans [OF _ CloseExecution_report_free]
    unfolding probe_def assms id_apply p by (auto split: option.split)
qed

text \<open>
  A run that lost its lease reports nothing. Once an extension of the lease has come back refused, the run
  ends without a completion and without touching any job, lease, slot, statistic, dead letter or event, however
  its handler ended; only its own execution is closed and the violation recorded.
\<close>

theorem fenced_run_reports_nothing:
  assumes "\<And>i. se_before (jr_probe r i) = id"
  shows "fst (settle_run cfg r c exec True d) = None \<and>
    jobs (snd (settle_run cfg r c exec True d)) = jobs d \<and>
    job_leases (snd (settle_run cfg r c exec True d)) = job_leases d \<and>
    queue_shards (snd (settle_run cfg r c exec True d)) = queue_shards d \<and>
    events (snd (settle_run cfg r c exec True d)) = events d \<and>
    dead_letter_jobs (snd (settle_run cfg r c exec True d)) = dead_letter_jobs d \<and>
    queue_stats_minute (snd (settle_run cfg r c exec True d)) = queue_stats_minute d"
  using probe_report_free [where env = "jr_probe r", OF assms, of d cfg c exec] by (simp add: settle_run_def report_free_def)

definition sample_run :: "handler_end \<Rightarrow> job_run" where
  "sample_run e = \<lparr>jr_handler = True, jr_stopping = False, jr_start = quiet_retry sample_now, jr_xid = (\<lambda>_. 101), jr_ticks = [],
     jr_logs = [], jr_end = e, jr_aborted = False, jr_write = quiet_stmt sample_now, jr_probe = (\<lambda>_. quiet_stmt sample_now),
     jr_report = quiet_retry sample_now\<rparr>"

theorem fenced_run_reports_nothing_witness:
  "fst (settle_run DefaultWorkerConfig (sample_run (Returns H_nil)) sample_token \<lparr>ex_ID = 100, ex_Attempt = 1\<rparr> True sample_db) = None \<and>
   jobs (snd (settle_run DefaultWorkerConfig (sample_run (Returns H_nil)) sample_token \<lparr>ex_ID = 100, ex_Attempt = 1\<rparr> True sample_db)) = jobs sample_db"
  using fenced_run_reports_nothing [of "sample_run (Returns H_nil)" DefaultWorkerConfig sample_token "\<lparr>ex_ID = 100, ex_Attempt = 1\<rparr>" sample_db]
  by (simp add: sample_run_def quiet_stmt_def)

end
