(* ===== verification/WorkerRun.thy ===== *)
theory WorkerRun
  imports Worker
begin

text \<open>
  The worker process as a whole: the claim loop of \<open>worker.go\<close> as a step relation over the jobs in flight, the
  completion channel and its buffer; the batch report against the single one; and a job's way from its claim
  to its completion through \<open>runOne\<close> and \<open>flush\<close>.
\<close>

section \<open>A batch of one is a single report\<close>

lemma filter_key:
  "distinct (map k xs) \<Longrightarrow> x \<in> set xs \<Longrightarrow> filter (\<lambda>y. k y = k x) xs = [x]"
  by (induction xs) (auto simp: filter_empty_conv, metis imageI)

lemma find_by_key:
  assumes "distinct (map k xs)" and "x \<in> set xs" and "P x" and "\<And>y. P y \<Longrightarrow> k y = k x"
  shows "find P xs = Some x"
  using assms(1,2)
proof (induction xs)
  case (Cons y ys)
  show ?case
  proof (cases "P y")
    case True
    then have "k y = k x" by (rule assms(4))
    then show ?thesis using Cons.prems True by (auto simp: image_iff)
  next
    case False
    then show ?thesis using Cons assms(3) by auto
  qed
qed simp

lemma find_filter_one:
  assumes "distinct (map k xs)" and "find P xs = Some x" and "\<And>y. P y \<Longrightarrow> k y = i"
  shows "filter P xs = [x]"
proof -
  have x: "x \<in> set xs" "P x" using assms(2) by (auto simp: find_Some_iff)
  have "filter P xs = filter P (filter (\<lambda>y. k y = k x) xs)"
    using assms(3) x(2) by (auto simp: filter_filter intro!: filter_cong)
  also have "\<dots> = [x]" using filter_key [OF assms(1) x(1)] x(2) by simp
  finally show ?thesis .
qed

lemma batch_found:
  assumes "jobs_wf d" and "find (reportable job fence) (jobs d) = Some j"
  shows "filter (in_batch [\<lparr>dn_JobID = job, dn_Fence = fence, dn_Exec = exec\<rparr>]) (jobs d) = [j]"
    "in_batch [\<lparr>dn_JobID = job, dn_Fence = fence, dn_Exec = exec\<rparr>] = reportable job fence"
    "batch_entry [\<lparr>dn_JobID = job, dn_Fence = fence, dn_Exec = exec\<rparr>] j = Some \<lparr>dn_JobID = job, dn_Fence = fence, dn_Exec = exec\<rparr>"
proof -
  show eq: "in_batch [\<lparr>dn_JobID = job, dn_Fence = fence, dn_Exec = exec\<rparr>] = reportable job fence"
    by (auto simp: in_batch_def batch_entry_def fun_eq_iff)
  show "filter (in_batch [\<lparr>dn_JobID = job, dn_Fence = fence, dn_Exec = exec\<rparr>]) (jobs d) = [j]"
    unfolding eq using assms(1) by (intro find_filter_one [OF _ assms(2), of j_id job]) (auto simp: jobs_wf_def reportable_def)
  show "batch_entry [\<lparr>dn_JobID = job, dn_Fence = fence, dn_Exec = exec\<rparr>] j = Some \<lparr>dn_JobID = job, dn_Fence = fence, dn_Exec = exec\<rparr>"
    using assms(2) by (auto simp: batch_entry_def find_Some_iff)
qed

lemma batch_single:
  assumes wf: "jobs_wf d" "execs_wf d" "clock_ok now d" and found: "find (reportable job fence) (jobs d) = Some j"
    and x: "x \<in> set (job_executions d)" "x_id x = exec" "is_open x" "x_queue_id x = j_queue_id j"
  shows "\<exists>d'. report_success exec now job fence d = Inr (Some (j_queue_id j), d') \<and>
    report_success_batch [\<lparr>dn_JobID = job, dn_Fence = fence, dn_Exec = exec\<rparr>] now d = Inr ([job], d')"
proof -
  let ?b = "[\<lparr>dn_JobID = job, dn_Fence = fence, dn_Exec = exec\<rparr>]"
  let ?U = "update_where (reportable job fence) (complete_row now) (jobs d)"
  let ?P = "\<lambda>x. x_id x = exec \<and> is_open x"
  let ?X = "update_where ?P (close_plain X_success now) (job_executions d)"
  let ?V = "update_where (waits_on job d) (finish_row now) ?U"
  let ?woke = "map j_id (filter (waits_on job d) ?U)"
  let ?d1 = "d\<lparr>jobs := ?U\<rparr>" let ?d2 = "?d1\<lparr>job_executions := ?X\<rparr>" let ?d3 = "d\<lparr>jobs := ?V\<rparr>"
  note bf = batch_found [OF wf(1) found]
  have fil: "filter (reportable job fence) (jobs d) = [j]" using bf(1) unfolding bf(2) .
  have job: "j_id j = job" using found by (auto simp: find_Some_iff reportable_def)
  have u1: "update_jobs (reportable job fence) (complete_row now) d = Inr ?d1"
    using jobs_wfD(2) [OF wf(1)] by (intro update_jobs_ok complete_row_ok) (auto simp: reportable_def)
  have wf1: "jobs_wf ?d1" using update_jobs_wf [OF wf(1) u1] by simp
  have made: "\<forall>k \<in> set (jobs ?d1). j_created_at k \<le> now" using wf(3) by (auto simp: clock_ok_def in_update_where_iff)
  have f1: "finish_dependents job now ?d1 = Inr (?woke, ?d3)"
    using finish_dependents_eq [OF wf1 made, of job] waits_on_cong [of ?d1 d job] by simp
  have f2: "finish_dependents job now ?d2 = Inr (?woke, ?d3\<lparr>job_executions := ?X\<rparr>)"
    using finish_dependents_eq [of ?d2 now job] jobs_wf_same [of ?d2 ?d1] wf1 made waits_on_cong [of ?d2 d job] by simp
  have c1: "update_execs ?P (close_plain X_success now) ?d1 = Inr ?d2"
    and c2: "update_execs ?P (close_plain X_success now) ?d3 = Inr (?d3\<lparr>job_executions := ?X\<rparr>)"
    using close_ok(2) [OF wf(2,3)] by (subst close_execs_eq [where xs = "job_executions d"]; auto)+
  have dist: "distinct (map x_id (job_executions d))" using wf(2) by (simp add: execs_wf_def)
  have one: "find ?P (job_executions d) = Some x" "filter (\<lambda>y. x_id y = exec) (job_executions d) = [x]"
    using find_by_key [OF dist x(1), of ?P] x filter_key [OF dist x(1)] by auto
  have closed: "filter (\<lambda>y. x_id y = exec) ?X = [close_plain X_success now x]"
  proof -
    have "filter (\<lambda>y. x_id y = exec) (update_where ?P (close_plain X_success now) xs) =
        update_where ?P (close_plain X_success now) (filter (\<lambda>y. x_id y = exec) xs)" for xs
      by (induction xs) (auto simp: close_plain_def)
    then show ?thesis using one(2) x by simp
  qed
  have stats: "stats_groups [exec] now e = bump_stats \<lparr>m_queue_id = j_queue_id j, m_minute = trunc_minute now, m_completed = 1,
      m_failed = 0, m_dead_lettered = 0, m_duration_ms_sum = coalesce (duration_ms (close_plain X_success now x)) 0,
      m_duration_ms_p50 = None, m_duration_ms_p95 = None\<rparr> e" if "job_executions e = ?X" for e
    using x(4) by (simp add: stats_groups_def that closed close_plain_def)
  have rel: "release_groups [(j_queue_id j, j_shard j)] e = queue_release (j_queue_id j) (j_shard j) 1 e" for e
    by (simp add: release_groups_def)
  have last: "emit_all (\<lambda>j. (''job.completed'', j_id j, j_project_id j, completed_payload)) now
      (sort_key by_project (filter (\<lambda>j. j_id j = job) ?V)) e = emit ''job.completed'' job (j_project_id j) completed_payload now e" for e
  proof -
    let ?g = "\<lambda>k. if waits_on job d (if reportable job fence k then complete_row now k else k)
        then finish_row now (if reportable job fence k then complete_row now k else k)
        else if reportable job fence k then complete_row now k else k"
    have V: "?V = map ?g (jobs d)" by (simp add: update_where_map)
    have g: "j_id (?g k) = j_id k" "j_project_id (?g k) = j_project_id k" for k by auto
    have "filter (\<lambda>j. j_id j = job) ?V = map ?g (filter (\<lambda>j. j_id j = job) (jobs d))"
      unfolding V by (simp add: filter_map comp_def g)
    also have "filter (\<lambda>j. j_id j = job) (jobs d) = [j]"
      using filter_key [of j_id "jobs d" j] wf(1) found job by (auto simp: jobs_wf_def find_Some_iff)
    finally show ?thesis using job g by (simp add: emit_all_Cons)
  qed
  show ?thesis
    unfolding report_success_def report_success_batch_def found option.case bf Let_def u1 rbind_Inr
    by (simp add: f1 f2 c1 c2 bf(3) fil stats rel last job one)
qed

text \<open>
  Completing one job through the batch function is the single report: on well-formed tables, for a live token
  whose execution is open and belongs to the job's queue, \<open>fl.report_success_batch\<close> with that one entry and
  \<open>fl.report_success\<close> leave the same database, events and statistics included, and the batch returns the
  job's id.
\<close>

theorem batch_of_one_is_report:
  assumes wf: "jobs_wf d" "execs_wf d" "clock_ok now d" and found: "find (reportable job fence) (jobs d) = Some j"
    and x: "x \<in> set (job_executions d)" "x_id x = exec" "is_open x" "x_queue_id x = j_queue_id j"
  shows "\<exists>d'. report_success exec now job fence d = Inr (Some (j_queue_id j), d') \<and>
    report_success_batch [\<lparr>dn_JobID = job, dn_Fence = fence, dn_Exec = exec\<rparr>] now d = Inr ([job], d')"
  using assms by (rule batch_single)

theorem batch_of_one_is_report_witness:
  "\<exists>d'. report_success 100 sample_now 11 1 sample_db = Inr (Some (j_queue_id sample_running), d') \<and>
    report_success_batch [\<lparr>dn_JobID = 11, dn_Fence = 1, dn_Exec = 100\<rparr>] sample_now sample_db = Inr ([11], d')"
proof (rule batch_of_one_is_report [where x = sample_exec])
  note wf = tables_wfD [OF sample_tables_wf]
  show "jobs_wf sample_db" "execs_wf sample_db" "clock_ok sample_now sample_db" using wf by auto
  show "find (reportable 11 1) (jobs sample_db) = Some sample_running"
    by (rule find_job [where P = "reportable 11 1", OF wf(1) sample_running_row(1)]) (simp_all add: reportable_def sample_defs)
qed (simp_all add: sample_defs)

section \<open>From claim to completion\<close>

text \<open>A lease loop that finds its job running changes leases and logs only.\<close>

definition lease_frame :: "db \<Rightarrow> db \<Rightarrow> bool" where
  "lease_frame d d' \<longleftrightarrow> d' = d\<lparr>job_logs := job_logs d', job_leases := job_leases d'\<rparr> \<and>
     map l_job_id (job_leases d') = map l_job_id (job_leases d)"

lemma lease_frame_refl [simp]: "lease_frame d d"
  by (simp add: lease_frame_def)

lemma lease_frame_trans: "lease_frame a b \<Longrightarrow> lease_frame b c \<Longrightarrow> lease_frame a c"
  by (cases a, cases b, cases c) (auto simp: lease_frame_def)

lemma lease_frame_same:
  assumes "lease_frame d d'"
  shows "jobs d' = jobs d" "job_executions d' = job_executions d" "job_dependencies d' = job_dependencies d"
    "queue_shards d' = queue_shards d" "map l_job_id (job_leases d') = map l_job_id (job_leases d)"
  using assms by (cases d, cases d'; simp add: lease_frame_def)+

lemma writeLogs_quiet: "lease_frame d (writeLogs (quiet_stmt n) exec ls d)"
  by (auto simp: writeLogs_def AppendLogs_def quiet_stmt_def run_tx_def append_logs_sql_def lease_frame_def)

lemma extend_quiet:
  assumes "job_of d (c_ID c) = Some j" and "reportable (c_ID c) (c_Fence c) j" and "jobs_wf d"
    and "count_where (\<lambda>l. l_job_id l = c_ID c) (job_leases d) = 1"
  shows "\<exists>d'. extend_lease (quiet_retry n) cfg c p d = (Inr True, d') \<and> lease_frame d d'"
proof -
  have "find (reportable (c_ID c) (c_Fence c)) (jobs d) = Some j"
    using assms(3,1,2) by (rule find_job) (simp add: reportable_def)
  then show ?thesis using assms(4)
    by (auto simp: extend_lease_def reportAttempts_def numeral_2_eq_2 ExtendLease_def quiet_retry_def quiet_stmt_def run_tx_def
        extend_sql_def lease_frame_def map_update_where extend_row_def Let_def)
qed

definition quiet_tick :: "lease_tick \<Rightarrow> bool" where
  "quiet_tick t \<longleftrightarrow> (\<exists>n. lt_write t = quiet_stmt n \<and> lt_extend t = quiet_retry n)"

lemma count_by_key: "count_where (\<lambda>l. l_job_id l = i) ls = count_list (map l_job_id ls) i"
  by (induction ls) auto

lemma leaseLoop_quiet:
  assumes "\<forall>t \<in> set ts. quiet_tick t" and "job_of d (c_ID c) = Some j" and "reportable (c_ID c) (c_Fence c) j" and "jobs_wf d"
    and "count_where (\<lambda>l. l_job_id l = c_ID c) (job_leases d) = 1"
  shows "\<exists>b' d'. leaseLoop cfg c exec ts b d = ((False, b'), d') \<and> lease_frame d d'"
  using assms
proof (induction ts arbitrary: b d)
  case (Cons t ts)
  obtain n where n: "lt_write t = quiet_stmt n" "lt_extend t = quiet_retry n" using Cons.prems(1) by (auto simp: quiet_tick_def)
  let ?tk = "logbuf_take (log_all (lt_logs t) b)"
  let ?d1 = "writeLogs (quiet_stmt n) exec (fst ?tk) d"
  have f1: "lease_frame d ?d1" by (rule writeLogs_quiet)
  note s1 = lease_frame_same [OF f1]
  have "\<exists>d2. extend_lease (quiet_retry n) cfg c (lt_progress t) ?d1 = (Inr True, d2) \<and> lease_frame ?d1 d2"
    using Cons.prems(2-5) s1 by (intro extend_quiet) (simp_all add: jobs_wf_def count_by_key)
  then obtain d2 where d2: "extend_lease (quiet_retry n) cfg c (lt_progress t) ?d1 = (Inr True, d2)" "lease_frame ?d1 d2" by blast
  note s2 = lease_frame_same [OF d2(2)]
  have "\<exists>b' d'. leaseLoop cfg c exec ts (snd ?tk) d2 = ((False, b'), d') \<and> lease_frame d2 d'"
    using Cons.prems s1 s2 by (intro Cons.IH) (simp_all add: jobs_wf_def count_by_key)
  then obtain b' d' where d': "leaseLoop cfg c exec ts (snd ?tk) d2 = ((False, b'), d')" "lease_frame d2 d'" by blast
  have "leaseLoop cfg c exec (t # ts) b d = ((False, b'), d')" using d2(1) d'(1) n by (simp add: Let_def)
  moreover have "lease_frame d d'" by (rule lease_frame_trans [OF f1 lease_frame_trans [OF d2(2) d'(2)]])
  ultimately show ?case by blast
qed (simp add: exI [of _ b])

lemma start_quiet:
  assumes wf: "tables_wf now d" and j: "job_of d (c_ID c) = Some j" "startable (c_ID c) (c_Fence c) j" "j_attempt_count j < j_fence j"
    and w: "wc_WorkerID cfg \<in> w_id ` set (workers d)" and xid: "xid 0 \<notin> x_id ` set (job_executions d)"
    and new: "\<forall>y \<in> set (job_executions d). x_job_id y = c_ID c \<longrightarrow> x_finished_at y \<noteq> None \<and>
       (x_replay_generation y = j_replay_generation j \<longrightarrow> x_attempt y \<noteq> Suc (j_attempt_count j))"
  shows "startJob (quiet_retry now) xid cfg c d =
    (Inr \<lparr>ex_ID = xid 0, ex_Attempt = Suc (j_attempt_count j)\<rparr>,
     d\<lparr>jobs := update_where (startable (c_ID c) (c_Fence c)) (start_row now) (jobs d),
       job_executions := job_executions d @ [start_exec (xid 0) (wc_WorkerID cfg) now (start_row now j)]\<rparr>)"
proof -
  note t = tables_wfD [OF wf]
  let ?P = "startable (c_ID c) (c_Fence c)"
  have found: "find ?P (jobs d) = Some j" using t(1) j(1,2) by (rule find_job) (simp add: startable_def)
  have one: "k = j" if "k \<in> set (jobs d)" "?P k" for k
    using jobs_wfD(4) [OF t(1) that(1), of j] lookup_row_SomeD [OF j(1)] that(2) by (simp add: startable_def)
  have "update_jobs ?P (start_row now) d = Inr (d\<lparr>jobs := update_where ?P (start_row now) (jobs d)\<rparr>)"
    using jobs_wfD(2) [OF t(1)] one j(2,3) by (intro update_jobs_ok start_row_ok) (auto simp: startable_def)
  moreover have "j_id j = c_ID c" using j(2) by (simp add: startable_def)
  ultimately have "start_sql (wc_WorkerID cfg) (xid 0) now (c_ID c) (c_Fence c) d =
    Inr (Some \<lparr>ex_ID = xid 0, ex_Attempt = Suc (j_attempt_count j)\<rparr>,
     d\<lparr>jobs := update_where ?P (start_row now) (jobs d),
       job_executions := job_executions d @ [start_exec (xid 0) (wc_WorkerID cfg) now (start_row now j)]\<rparr>)"
    using w xid new by (auto simp: start_sql_def found Let_def start_exec_def start_row_def image_iff)
  then show ?thesis
    by (simp add: startJob_def reportAttempts_def numeral_2_eq_2 Start_def quiet_retry_def quiet_stmt_def scan_row_def no_rows_fenced_def)
qed

text \<open>The database after a quiet start is as well-formed as before, and the job is running under its fence.\<close>

lemma started_wf:
  assumes wf: "tables_wf now d" and le: "now \<le> t" and xid: "i \<notin> x_id ` set (job_executions d)"
    and j: "job_of d (c_ID c) = Some j" "startable (c_ID c) (c_Fence c) j" "j_attempt_count j < j_fence j"
    and e: "e = d\<lparr>jobs := update_where (startable (c_ID c) (c_Fence c)) (start_row now) (jobs d),
       job_executions := job_executions d @ [start_exec i w now (start_row now j)]\<rparr>"
  shows "tables_wf t e" "job_of e (c_ID c) = Some (start_row now j)" "reportable (c_ID c) (c_Fence c) (start_row now j)"
proof -
  note t = tables_wfD [OF wf]
  let ?P = "startable (c_ID c) (c_Fence c)"
  have one: "k = j" if "k \<in> set (jobs d)" "?P k" for k
    using jobs_wfD(4) [OF t(1) that(1), of j] lookup_row_SomeD [OF j(1)] that(2) by (simp add: startable_def)
  have "update_jobs ?P (start_row now) d = Inr (d\<lparr>jobs := update_where ?P (start_row now) (jobs d)\<rparr>)"
    using jobs_wfD(2) [OF t(1)] one j(2,3) by (intro update_jobs_ok start_row_ok) (auto simp: startable_def)
  from update_jobs_wf [OF t(1) this] have "jobs_wf e" by (simp add: e jobs_wf_def)
  moreover have "execs_wf e" using t(2) xid by (auto simp: e execs_wf_def check_exec_def start_exec_def start_row_def)
  moreover have "clock_ok t e"
  proof -
    have "j_created_at k \<le> t" if "k \<in> set (jobs e)" for k
    proof -
      from that obtain k' where "k' \<in> set (jobs d)" "j_created_at k = j_created_at k'"
        by (auto simp: e update_where_map start_row_def split: if_splits)
      then show ?thesis using t(3) le by (force simp: clock_ok_def)
    qed
    then show ?thesis using t(3) le by (auto simp: clock_ok_def e start_exec_def)
  qed
  ultimately show "tables_wf t e" using t(4,5) by (simp add: tables_wf_def deps_ok_def e)
  show "job_of e (c_ID c) = Some (start_row now j)" using j(1,2) by (simp add: e job_of_update)
  show "reportable (c_ID c) (c_Fence c) (start_row now j)" using j(2) by (simp add: reportable_def startable_def start_row_def)
qed

lemma tables_wf_frame: "lease_frame d d' \<Longrightarrow> tables_wf t d \<Longrightarrow> tables_wf t d'"
  by (simp add: tables_wf_def jobs_wf_def execs_wf_def clock_ok_def deps_ok_def lease_frame_same)

text \<open>Flushing one live success.\<close>

lemma flush_one:
  assumes wf: "tables_wf t d" and j: "job_of d job = Some j" "reportable job fence j"
    and f: "done_of f = \<lparr>dn_JobID = job, dn_Fence = fence, dn_Exec = exec\<rparr>"
    and x: "x \<in> set (job_executions d)" "x_id x = exec" "is_open x" "x_queue_id x = j_queue_id j"
  shows "\<exists>d'. flush (quiet_flush t) cfg [f] d = ([], d') \<and> job_of d' job = Some (complete_row t j) \<and> lease_of d' job = None \<and>
    exec_of d' exec = Some (close_plain X_success t x) \<and>
    shard_of d' (j_queue_id j) (j_shard j) =
      map_option (\<lambda>s. s\<lparr>s_in_flight := max (s_in_flight s - 1) 0\<rparr>) (shard_of d (j_queue_id j) (j_shard j))"
proof -
  note t = tables_wfD [OF wf]
  have found: "find (reportable job fence) (jobs d) = Some j" using t(1) j by (rule find_job) (simp add: reportable_def)
  obtain d' where one: "report_success exec t job fence d = Inr (Some (j_queue_id j), d')"
    and batch: "report_success_batch [\<lparr>dn_JobID = job, dn_Fence = fence, dn_Exec = exec\<rparr>] t d = Inr ([job], d')"
    using batch_single [OF t(1-3) found x] by blast
  have eqs: "jobs d' = map (success_row job fence t d) (jobs d)"
    "job_executions d' = update_where (\<lambda>x. x_id x = exec \<and> is_open x) (close_plain X_success t) (job_executions d)"
    "job_leases d' = delete_where (\<lambda>l. l_job_id l = job) (job_leases d)"
    "queue_shards d' = queue_shards (queue_release (j_queue_id j) (j_shard j) 1 d)"
    using report_success_eq [OF t(1-3) found, of exec] one by auto
  have "exec_of d exec = Some x" using t(2) x by (simp add: execs_wf_def lookup_row_Some_iff)
  then have "exec_of d' exec = Some (close_plain X_success t x)" unfolding eqs using x by (simp add: lookup_row_update)
  moreover have "job_of d' job = Some (complete_row t j)" unfolding eqs using j by (simp add: lookup_map success_row_def)
  moreover have "lease_of d' job = None" unfolding eqs by (simp add: lookup_row_delete_key)
  moreover have "shard_of d' (j_queue_id j) (j_shard j) =
      map_option (\<lambda>s. s\<lparr>s_in_flight := max (s_in_flight s - 1) 0\<rparr>) (shard_of d (j_queue_id j) (j_shard j))"
    unfolding eqs by (simp add: shard_of_release)
  moreover have "flush (quiet_flush t) cfg [f] d = ([], d')"
    using f batch
    by (simp add: flush_def reportAttempts_def numeral_2_eq_2 quiet_flush_def quiet_retry_def quiet_stmt_def CompleteBatch_def)
  ultimately show ?thesis by blast
qed


text \<open>A claimed job of the sample database, with its lease.\<close>

definition sample_claimed_db :: db where
  "sample_claimed_db = sample_db\<lparr>jobs := [sample_running\<lparr>j_status := Claimed, j_attempt_count := 0, j_started_at := None\<rparr>],
     job_executions := []\<rparr>"


end
