(* ===== verification/WorkerLoop.thy ===== *)
theory WorkerLoop
  imports WorkerRun
begin

text \<open>
  \<open>Run\<close> of \<open>worker.go\<close> as a step relation: the claim loop, one goroutine per claimed job, the completion channel
  with its loop, the heartbeat, and the shutdown (stop claiming, drain, close the channel, wait for the last
  flush, retire).

  A goroutine's run of its job is one step, taken when it ends; what happens elsewhere while it runs is in
  the environment of its statements. The fields \<open>ws_finished\<close> and \<open>ws_flushed\<close> are history: the jobs handed to
  the channel and those handed to \<open>flush\<close>, in order. A job sits in \<open>ws_running\<close> from the claim to the end of its
  goroutine, so its length is the counter \<open>active\<close>.
\<close>

section \<open>State\<close>

datatype phase = Polling | Draining | Closing | Returned

record worker_state =
  ws_phase :: phase
  ws_running :: "Claimed list"
  ws_chan :: "finished list"
  ws_buf :: "finished list"
  ws_finished :: "finished list"
  ws_flushed :: "finished list"
  ws_db :: db

text \<open>\<open>types\<close>: the names of the handlers, sorted.\<close>

definition claim_req :: "WorkerConfig \<Rightarrow> string list \<Rightarrow> int \<Rightarrow> ClaimRequest" where
  "claim_req cfg types free =
     \<lparr>r_QueueID = wc_QueueID cfg, r_WorkerID = wc_WorkerID cfg, r_FreeSlots = free, r_Lease = wc_Lease cfg, r_Types = Some types\<rparr>"

definition free_slots :: "WorkerConfig \<Rightarrow> worker_state \<Rightarrow> int" where
  "free_slots cfg s = wc_Concurrency cfg - int (length (ws_running s))"

text \<open>
  Before the loop: \<open>announce\<close>; an error is the result of \<open>Run\<close>, which then has done nothing else.
\<close>

definition worker_start :: "stmt_env \<Rightarrow> stmt_env \<Rightarrow> WorkerConfig \<Rightarrow> string list \<Rightarrow> db \<Rightarrow> go_error + worker_state" where
  "worker_start e1 e2 cfg types d =
    (case announce e1 e2 cfg types d of
       (Inl e, d1) \<Rightarrow> Inl e
     | (Inr _, d1) \<Rightarrow> Inr \<lparr>ws_phase = Polling, ws_running = [], ws_chan = [], ws_buf = [], ws_finished = [], ws_flushed = [], ws_db = d1\<rparr>)"

section \<open>Operations\<close>

text \<open>One turn of the claim loop.\<close>

definition poll :: "claim_env \<Rightarrow> WorkerConfig \<Rightarrow> string list \<Rightarrow> worker_state \<Rightarrow> worker_state" where
  "poll env cfg types s =
    (if 0 < free_slots cfg s
     then (case Claim (claim_req cfg types (free_slots cfg s)) env (ws_db s) of
             (Inl e, d) \<Rightarrow> s\<lparr>ws_db := d\<rparr>
           | (Inr claimed, d) \<Rightarrow> s\<lparr>ws_running := ws_running s @ claimed, ws_db := d\<rparr>)
     else s)"

text \<open>The completion loop receives one finished job, or its ticker fires.\<close>

definition receive :: "flush_env \<Rightarrow> WorkerConfig \<Rightarrow> finished \<Rightarrow> worker_state \<Rightarrow> worker_state" where
  "receive env cfg f s =
    (if wc_CompleteBatch cfg \<le> length (ws_buf s @ [f])
     then (case flush env cfg (ws_buf s @ [f]) (ws_db s) of (b, d) \<Rightarrow>
             s\<lparr>ws_buf := b, ws_flushed := ws_flushed s @ ws_buf s @ [f], ws_db := d\<rparr>)
     else s\<lparr>ws_buf := ws_buf s @ [f]\<rparr>)"

definition flush_now :: "flush_env \<Rightarrow> WorkerConfig \<Rightarrow> worker_state \<Rightarrow> worker_state" where
  "flush_now env cfg s =
    (case flush env cfg (ws_buf s) (ws_db s) of (b, d) \<Rightarrow>
       s\<lparr>ws_buf := b, ws_flushed := ws_flushed s @ ws_buf s, ws_db := d\<rparr>)"

text \<open>A goroutine ends; a handler that returned nil first puts its job into the channel, waiting for room.\<close>

definition chan_cap :: "WorkerConfig \<Rightarrow> nat" where
  "chan_cap cfg = wc_CompleteBatch cfg * 2"

text \<open>What a run may meet: its type has a handler exactly if it is in \<open>types\<close>, and nothing stops before the stop.\<close>

definition run_meets :: "string list \<Rightarrow> worker_state \<Rightarrow> Claimed \<Rightarrow> job_run \<Rightarrow> bool" where
  "run_meets types s c r \<longleftrightarrow> jr_handler r = (c_Type c \<in> set types) \<and> (ws_phase s = Polling \<longrightarrow> \<not> jr_stopping r \<and> \<not> jr_aborted r)"

inductive worker_step :: "WorkerConfig \<Rightarrow> string list \<Rightarrow> worker_state \<Rightarrow> worker_state \<Rightarrow> bool" for cfg types where
  poll: "ws_phase s = Polling \<Longrightarrow> worker_step cfg types s (poll env cfg types s)"
| over: "ws_running s = as @ c # bs \<Longrightarrow> run_meets types s c r \<Longrightarrow> runOne cfg r c (ws_db s) = (None, d) \<Longrightarrow>
    worker_step cfg types s (s\<lparr>ws_running := as @ bs, ws_db := d\<rparr>)"
| send: "ws_running s = as @ c # bs \<Longrightarrow> run_meets types s c r \<Longrightarrow> runOne cfg r c (ws_db s) = (Some f, d) \<Longrightarrow>
    length (ws_chan s) < chan_cap cfg \<Longrightarrow>
    worker_step cfg types s (s\<lparr>ws_running := as @ bs, ws_chan := ws_chan s @ [f], ws_finished := ws_finished s @ [f], ws_db := d\<rparr>)"
| hand_over: "ws_running s = as @ c # bs \<Longrightarrow> run_meets types s c r \<Longrightarrow> runOne cfg r c (ws_db s) = (Some f, d) \<Longrightarrow>
    ws_chan s = [] \<Longrightarrow>
    worker_step cfg types s (receive fe cfg f (s\<lparr>ws_running := as @ bs, ws_finished := ws_finished s @ [f], ws_db := d\<rparr>))"
| receive: "ws_chan s = f # rest \<Longrightarrow> worker_step cfg types s (receive fe cfg f (s\<lparr>ws_chan := rest\<rparr>))"
| tick: "ws_phase s \<noteq> Returned \<Longrightarrow> worker_step cfg types s (flush_now fe cfg s)"
| beat: "ws_phase s \<noteq> Returned \<Longrightarrow> worker_step cfg types s (s\<lparr>ws_db := snd (beat be (wc_WorkerID cfg) (ws_db s))\<rparr>)"
| stop: "ws_phase s = Polling \<Longrightarrow>
    worker_step cfg types s (s\<lparr>ws_phase := Draining, ws_db := retire re (wc_WorkerID cfg) W_draining (ws_db s)\<rparr>)"
| drained: "ws_phase s = Draining \<Longrightarrow> ws_running s = [] \<Longrightarrow> worker_step cfg types s (s\<lparr>ws_phase := Closing\<rparr>)"
| closed: "ws_phase s = Closing \<Longrightarrow> ws_chan s = [] \<Longrightarrow>
    worker_step cfg types s (let t = flush_now fe cfg s
      in t\<lparr>ws_phase := Returned, ws_db := retire re (wc_WorkerID cfg) W_dead (ws_db t)\<rparr>)"
| others: "worker_step cfg types s (s\<lparr>ws_db := d\<rparr>)"

inductive_cases worker_stepE: "worker_step cfg types s t"

section \<open>What a claim brings\<close>

lemma claim_sql_out:
  assumes "claim_sql req n shard locked now d = Inr (out, d')"
  shows "length out \<le> n" "r_Types req = Some ts \<Longrightarrow> c \<in> set out \<Longrightarrow> c_Type c \<in> set ts"
proof -
  have out: "out = map claimed_of (map (claim_row req shard now) (cand req n locked now d))"
    using assms by (auto simp: claim_sql_def Let_def result_simps split: if_splits)
  show "length out \<le> n" by (simp add: out)
  show "c_Type c \<in> set ts" if "r_Types req = Some ts" "c \<in> set out"
  proof -
    from that(2) obtain j where "j \<in> set (cand req n locked now d)" "c = claimed_of (claim_row req shard now j)"
      by (auto simp: out)
    then show ?thesis using that(1) cand_sub [of j req n locked now d] by (simp add: claimable_def claimed_of_def claim_row_def)
  qed
qed

lemma Claim_out:
  assumes "Claim req env d = (Inr out, d')" and "0 < r_FreeSlots req"
  shows "int (length out) \<le> r_FreeSlots req" "r_Types req = Some ts \<Longrightarrow> c \<in> set out \<Longrightarrow> c_Type c \<in> set ts"
proof -
  obtain n shard d1 where adm: "admit req env d = (Inr (n, shard), d1)"
    using assms(1) by (auto simp: Claim_def split: prod.splits sum.splits)
  have n: "n \<le> r_FreeSlots req" if "n \<noteq> 0"
    using adm queue_admit_grant(3) that assms(2) by (fastforce simp: admit_def run_tx_Inr)
  have out: "out = [] \<or> (n \<noteq> 0 \<and> (\<exists>x e. claim_sql req (nat n) shard (ce_locked env) (ce_now env) x = Inr (out, e)))"
    using assms(1) adm
    by (auto simp: Claim_def run_tx_Inr take_jobs_def result_simps split: if_splits prod.splits sum.splits)
  then show "int (length out) \<le> r_FreeSlots req" using claim_sql_out(1) n assms(2) by fastforce
  show "c_Type c \<in> set ts" if "r_Types req = Some ts" "c \<in> set out"
    using out claim_sql_out(2) that by (cases "out = []") auto
qed

section \<open>The invariant\<close>

definition worker_ok :: "WorkerConfig \<Rightarrow> string list \<Rightarrow> worker_state \<Rightarrow> bool" where
  "worker_ok cfg types s \<longleftrightarrow>
     int (length (ws_running s)) \<le> max 0 (wc_Concurrency cfg) \<and> (\<forall>c \<in> set (ws_running s). c_Type c \<in> set types) \<and>
     length (ws_chan s) \<le> chan_cap cfg \<and> length (ws_buf s) < max 1 (wc_CompleteBatch cfg) \<and>
     ws_flushed s @ ws_buf s @ ws_chan s = ws_finished s \<and>
     (ws_phase s \<in> {Closing, Returned} \<longrightarrow> ws_running s = []) \<and>
     (ws_phase s = Returned \<longrightarrow> ws_chan s = [] \<and> ws_buf s = [])"

lemma worker_ok_poll:
  assumes "worker_ok cfg types s" and "ws_phase s = Polling"
  shows "worker_ok cfg types (poll env cfg types s)"
proof (cases "0 < free_slots cfg s")
  case True
  let ?req = "claim_req cfg types (free_slots cfg s)"
  obtain r d where c: "Claim ?req env (ws_db s) = (r, d)" by fastforce
  show ?thesis
  proof (cases r)
    case (Inr out)
    have "int (length out) \<le> free_slots cfg s" "\<forall>c \<in> set out. c_Type c \<in> set types"
      using Claim_out [OF c [unfolded Inr]] True by (auto simp: claim_req_def)
    then show ?thesis using assms True c Inr by (auto simp: worker_ok_def poll_def free_slots_def)
  qed (use assms True c in \<open>auto simp: worker_ok_def poll_def\<close>)
qed (use assms in \<open>simp add: poll_def\<close>)

lemma receive_fields:
  "ws_phase (receive fe cfg f s) = ws_phase s" "ws_running (receive fe cfg f s) = ws_running s"
  "ws_chan (receive fe cfg f s) = ws_chan s" "ws_finished (receive fe cfg f s) = ws_finished s"
  "ws_flushed (receive fe cfg f s) @ ws_buf (receive fe cfg f s) = ws_flushed s @ ws_buf s @ [f]"
  "length (ws_buf (receive fe cfg f s)) < max 1 (wc_CompleteBatch cfg)"
  using flush_empties [of fe cfg "ws_buf s @ [f]" "ws_db s"]
  by (auto simp: receive_def split: prod.split)

lemma flush_now_fields:
  "ws_phase (flush_now fe cfg s) = ws_phase s" "ws_running (flush_now fe cfg s) = ws_running s"
  "ws_chan (flush_now fe cfg s) = ws_chan s" "ws_finished (flush_now fe cfg s) = ws_finished s"
  "ws_flushed (flush_now fe cfg s) = ws_flushed s @ ws_buf s" "ws_buf (flush_now fe cfg s) = []"
  using flush_empties [of fe cfg "ws_buf s" "ws_db s"]
  by (auto simp: flush_now_def split: prod.split)

lemma worker_ok_receive:
  assumes "worker_ok cfg types s" and "ws_running t = ws_running s" and "ws_phase t = ws_phase s" and "ws_chan s = f # ws_chan t"
    and "ws_buf t = ws_buf s" and "ws_flushed t = ws_flushed s" and "ws_finished t = ws_finished s"
  shows "worker_ok cfg types (receive fe cfg f t)"
  using assms receive_fields(5) [of fe cfg f t] receive_fields(6) [of fe cfg f t]
  unfolding worker_ok_def receive_fields(1-4) append_assoc [symmetric] by auto

lemma worker_step_ok:
  assumes "worker_ok cfg types s" and "worker_step cfg types s t"
  shows "worker_ok cfg types t"
  using assms(2)
proof cases
  case (poll env)
  then show ?thesis using worker_ok_poll assms(1) by blast
next
  case (over as c bs r d)
  then show ?thesis using assms(1) by (auto simp: worker_ok_def)
next
  case (send as c bs r f d)
  then show ?thesis using assms(1) by (auto simp: worker_ok_def)
next
  case (hand_over as c bs r f d fe)
  let ?u = "s\<lparr>ws_running := as @ bs, ws_finished := ws_finished s @ [f], ws_db := d\<rparr>"
  have "worker_ok cfg types (receive fe cfg f ?u)"
    using assms(1) hand_over receive_fields(5) [of fe cfg f ?u] receive_fields(6) [of fe cfg f ?u]
    unfolding worker_ok_def receive_fields(1-4) append_assoc [symmetric] by auto
  then show ?thesis using hand_over by simp
next
  case (receive f rest fe)
  then show ?thesis using worker_ok_receive [OF assms(1), of "s\<lparr>ws_chan := rest\<rparr>"] by simp
next
  case (tick fe)
  then show ?thesis using assms(1) by (simp add: worker_ok_def flush_now_fields)
next
  case (closed fe re)
  then show ?thesis using assms(1) by (simp add: worker_ok_def flush_now_fields Let_def)
qed (use assms(1) in \<open>auto simp: worker_ok_def\<close>)

definition started_worker :: "WorkerConfig \<Rightarrow> string list \<Rightarrow> worker_state \<Rightarrow> bool" where
  "started_worker cfg types s \<longleftrightarrow> (\<exists>e1 e2 d. worker_start e1 e2 cfg types d = Inr s)"

interpretation worker_run: transition_system "started_worker cfg types" "worker_step cfg types" "worker_ok cfg types" for cfg types
proof unfold_locales
  fix s assume "started_worker cfg types s"
  then obtain e1 e2 d where st: "worker_start e1 e2 cfg types d = Inr s" by (auto simp: started_worker_def)
  obtain r d1 where "announce e1 e2 cfg types d = (r, d1)" by fastforce
  with st show "worker_ok cfg types s" by (cases r) (auto simp: worker_start_def worker_ok_def)
qed (rule worker_step_ok)


definition sample_worker_cfg :: WorkerConfig where
  "sample_worker_cfg = DefaultWorkerConfig\<lparr>wc_QueueID := 7, wc_WorkerID := 5\<rparr>"

definition sample_worker_start :: worker_state where
  "sample_worker_start = \<lparr>ws_phase = Polling, ws_running = [], ws_chan = [], ws_buf = [], ws_finished = [], ws_flushed = [], ws_db = sample_db\<rparr>"

lemma sample_worker_started: "started_worker sample_worker_cfg [''email''] sample_worker_start"
proof -
  have "worker_start (quiet_stmt 0) (quiet_stmt 0) sample_worker_cfg [''email''] sample_db = Inr sample_worker_start"
    by (simp add: worker_start_def announce_def stmt_quiet announce_sql_def subscribe_sql_def sample_worker_cfg_def
        DefaultWorkerConfig_def sample_worker_start_def sample_defs)
  then show ?thesis unfolding started_worker_def by blast
qed

definition sample_claim_env :: claim_env where
  "sample_claim_env = \<lparr>ce_admit = Runs, ce_take = Runs, ce_give = Runs, ce_rot = 0, ce_seen = sample_db, ce_locked = (\<lambda>_. False),
     ce_now = sample_now, ce_between = id\<rparr>"


end
