(* ===== verification/Api.thy ===== *)
theory Api
  imports WorkerLoop
begin

text \<open>
  The frame every HTTP request runs in: the error values of \<open>problem.go\<close>, the transaction loop and the answers of
  \<open>respond.go\<close>, and \<open>authz.go\<close>: sessions, scopes, roles, the guard and the audit row.

  A handler runs inside one transaction and is a function on the database, \<open>'a atx\<close>: an error, or a value
  and the database it leaves. What the environment does to an attempt (another process before it, a
  rollback by the server, a lost connection) is a \<open>tx_env\<close>. The body of a request is the value JSON decoding gave,
  \<open>None\<close> when it failed. Identifiers are parsed and printed by \<open>github.com/google/uuid\<close>, a parameter; \<open>0\<close> is
  \<open>uuid.Nil\<close>. Strings are ASCII.
\<close>

section \<open>Errors\<close>

record api_error =
  ae_status :: int
  ae_title :: string
  ae_detail :: string
  ae_headers :: "(string \<times> string) list"

definition badRequest :: "string \<Rightarrow> api_error" where
  "badRequest detail = \<lparr>ae_status = 400, ae_title = ''bad request'', ae_detail = detail, ae_headers = []\<rparr>"

definition unauthorized :: api_error where
  "unauthorized = \<lparr>ae_status = 401, ae_title = ''unauthorized'', ae_detail = '''', ae_headers = []\<rparr>"

definition forbidden :: api_error where
  "forbidden = \<lparr>ae_status = 403, ae_title = ''forbidden'', ae_detail = ''role too low'', ae_headers = []\<rparr>"

definition notFound :: "string \<Rightarrow> api_error" where
  "notFound what = \<lparr>ae_status = 404, ae_title = ''not found'', ae_detail = what @ '' not found'', ae_headers = []\<rparr>"

definition conflict :: "string \<Rightarrow> api_error" where
  "conflict detail = \<lparr>ae_status = 409, ae_title = ''conflict'', ae_detail = detail, ae_headers = []\<rparr>"

definition tooOld :: "string \<Rightarrow> api_error" where
  "tooOld detail = \<lparr>ae_status = 410, ae_title = ''cursor too old'', ae_detail = detail, ae_headers = []\<rparr>"

definition unavailable :: "string \<Rightarrow> api_error" where
  "unavailable detail = \<lparr>ae_status = 503, ae_title = ''unavailable'', ae_detail = detail, ae_headers = [(''Retry-After'', ''1'')]\<rparr>"

definition tooMany :: "string \<Rightarrow> nat \<Rightarrow> api_error" where
  "tooMany detail retryAfter =
     \<lparr>ae_status = 429, ae_title = ''queue full'', ae_detail = detail, ae_headers = [(''Retry-After'', nat_text retryAfter)]\<rparr>"

definition internal_error :: api_error where
  "internal_error = \<lparr>ae_status = 500, ae_title = ''internal error'', ae_detail = '''', ae_headers = []\<rparr>"

text \<open>
  What a handler may return: an answer for the client, an error of the driver, \<open>errConflictRetry\<close>, or any other
  error value.
\<close>

datatype herror = Api api_error | Db go_error | ConflictRetry | Other string

fun retryable :: "herror \<Rightarrow> bool" where
  "retryable ConflictRetry \<longleftrightarrow> True"
| "retryable (Db (Pg (PgError c))) \<longleftrightarrow> c = ''40001'' \<or> c = ''40P01''"
| "retryable _ \<longleftrightarrow> False"

definition has_code :: "string \<Rightarrow> herror \<Rightarrow> bool" where
  "has_code c e \<longleftrightarrow> e = Db (Pg (PgError c))"

definition isTimeout :: "herror \<Rightarrow> bool" where "isTimeout = has_code ''57014''"
definition isUnique :: "herror \<Rightarrow> bool" where "isUnique = has_code ''23505''"
definition isCheck :: "herror \<Rightarrow> bool" where "isCheck = has_code ''23514''"
definition isInUse :: "herror \<Rightarrow> bool" where "isInUse = has_code ''55006''"
definition isFKViolation :: "herror \<Rightarrow> bool" where "isFKViolation = has_code ''23503''"

section \<open>Statements in a transaction\<close>

type_synonym 'a atx = "db \<Rightarrow> herror + 'a \<times> db"

definition aret :: "'a \<Rightarrow> 'a atx" where
  "aret a d = Inr (a, d)"

definition afail :: "api_error \<Rightarrow> 'a atx" where
  "afail e d = Inl (Api e)"

definition abind :: "'a atx \<Rightarrow> ('a \<Rightarrow> 'b atx) \<Rightarrow> 'b atx" where
  "abind m f d = rbind (m d) (\<lambda>(a, d1). f a d1)"

text \<open>\<open>tx.Exec\<close>, \<open>tx.Query\<close>, and \<open>tx.QueryRow(...).Scan\<close> of a statement with at most one row.\<close>

definition exec_sql :: "'a tx \<Rightarrow> 'a atx" where
  "exec_sql t d = (case t d of Inl e \<Rightarrow> Inl (Db (Pg e)) | Inr r \<Rightarrow> Inr r)"

definition query_row :: "'a option tx \<Rightarrow> 'a atx" where
  "query_row t = abind (exec_sql t) (\<lambda>r d. case r of None \<Rightarrow> Inl (Db ErrNoRows) | Some a \<Rightarrow> Inr (a, d))"

text \<open>\<open>if is...(err) { return result{}, ... }\<close>: an error the handler turns into another one.\<close>

definition on_error :: "(herror \<Rightarrow> bool) \<Rightarrow> herror \<Rightarrow> 'a atx \<Rightarrow> 'a atx" where
  "on_error P e' m d = (case m d of Inl e \<Rightarrow> Inl (if P e then e' else e) | Inr r \<Rightarrow> Inr r)"

abbreviation on_no_rows :: "api_error \<Rightarrow> 'a atx \<Rightarrow> 'a atx" where
  "on_no_rows e \<equiv> on_error (\<lambda>x. x = Db ErrNoRows) (Api e)"

definition reads :: "(db \<Rightarrow> 'a) \<Rightarrow> 'a tx" where
  "reads f d = Inr (f d, d)"

definition api_emit :: "string \<Rightarrow> uuid \<Rightarrow> uuid \<Rightarrow> json_object \<Rightarrow> timestamptz \<Rightarrow> unit atx" where
  "api_emit topic entity project payload now = exec_sql (\<lambda>d. Inr ((), emit topic entity project payload now d))"

named_theorems atx_simps

lemma abind_Inr [atx_simps]: "abind m f d = Inr r \<longleftrightarrow> (\<exists>a d1. m d = Inr (a, d1) \<and> f a d1 = Inr r)"
  by (auto simp: abind_def result_simps)

lemma abind_eval [simp]: "m d = Inr (a, d1) \<Longrightarrow> abind m f d = f a d1"
  by (simp add: abind_def)

lemma abind_eval_Inl [simp]: "m d = Inl e \<Longrightarrow> abind m f d = Inl e"
  by (simp add: abind_def)

lemma exec_sql_Inr [atx_simps]: "exec_sql t d = Inr r \<longleftrightarrow> t d = Inr r"
  by (auto simp: exec_sql_def split: sum.split)

lemma exec_sql_eval [simp]: "t d = Inr r \<Longrightarrow> exec_sql t d = Inr r" "t d = Inl e \<Longrightarrow> exec_sql t d = Inl (Db (Pg e))"
  by (simp_all add: exec_sql_def)

lemma query_row_eval [simp]:
  "t d = Inr (Some a, d1) \<Longrightarrow> query_row t d = Inr (a, d1)" "t d = Inr (None, d1) \<Longrightarrow> query_row t d = Inl (Db ErrNoRows)"
  "t d = Inl e \<Longrightarrow> query_row t d = Inl (Db (Pg e))"
  by (simp_all add: query_row_def)

lemma query_row_Inr [atx_simps]: "query_row t d = Inr (a, d1) \<longleftrightarrow> t d = Inr (Some a, d1)"
  by (auto simp: query_row_def atx_simps split: option.splits)

lemma on_error_eval [simp]:
  "m d = Inr r \<Longrightarrow> on_error P e' m d = Inr r" "m d = Inl e \<Longrightarrow> on_error P e' m d = Inl (if P e then e' else e)"
  by (simp_all add: on_error_def)

lemma on_error_Inr [atx_simps]: "on_error P e' m d = Inr r \<longleftrightarrow> m d = Inr r"
  by (auto simp: on_error_def split: sum.splits)

lemma reads_eval [simp]: "reads f d = Inr (f d, d)"
  by (simp add: reads_def)

lemma api_emit_eval [simp]: "api_emit t i p o' now d = Inr ((), emit t i p o' now d)"
  by (simp add: api_emit_def)

lemma aret_eval [simp]: "aret a d = Inr (a, d)" "afail e d = Inl (Api e)"
  by (simp_all add: aret_def afail_def)

section \<open>The transaction loop\<close>

definition maxTxRetries :: nat where
  "maxTxRetries = 5"

record tx_env =
  ta_before :: "db \<Rightarrow> db"
  ta_begin :: "go_error option"
  ta_fate :: fate
  ta_now :: timestamptz

definition tx_attempt :: "tx_env \<Rightarrow> (timestamptz \<Rightarrow> 'a atx) \<Rightarrow> db \<Rightarrow> (herror + 'a) \<times> db" where
  "tx_attempt env fn d =
    (case ta_fate env of
       Runs \<Rightarrow> (case fn (ta_now env) d of Inl e \<Rightarrow> (Inl e, d) | Inr (a, d1) \<Rightarrow> (Inr a, d1))
     | Aborts c \<Rightarrow> (Inl (Db (Pg (PgError c))), d)
     | Lost e landed \<Rightarrow>
         (Inl (Db (Conn e)), if landed then (case fn (ta_now env) d of Inl _ \<Rightarrow> d | Inr (_, d1) \<Rightarrow> d1) else d))"

text \<open>At most \<open>n\<close> attempts from attempt \<open>i\<close> on; \<open>err\<close> is the error of the last one.\<close>

fun tx_loop :: "nat \<Rightarrow> (nat \<Rightarrow> tx_env) \<Rightarrow> (timestamptz \<Rightarrow> 'a atx) \<Rightarrow> nat \<Rightarrow> herror \<Rightarrow> db \<Rightarrow> (herror + 'a) \<times> db" where
  "tx_loop 0 env fn i err d = (Inl err, d)"
| "tx_loop (Suc n) env fn i err d =
    (let d0 = ta_before (env i) d in
     case ta_begin (env i) of
       Some e \<Rightarrow> (Inl (Db e), d0)
     | None \<Rightarrow>
        (case tx_attempt (env i) fn d0 of
           (Inr a, d1) \<Rightarrow> (Inr a, d1)
         | (Inl e, d1) \<Rightarrow> if retryable e then tx_loop n env fn (Suc i) e d1 else (Inl e, d1)))"

definition run_in_tx :: "(nat \<Rightarrow> tx_env) \<Rightarrow> (timestamptz \<Rightarrow> 'a atx) \<Rightarrow> db \<Rightarrow> (herror + 'a) \<times> db" where
  "run_in_tx env fn d = tx_loop maxTxRetries env fn 0 (Db ErrNoRows) d"

section \<open>Answers\<close>

record 'b result =
  res_status :: int
  res_body :: "'b option"
  res_entityID :: uuid
  res_projectID :: uuid
  res_audit :: "json_object option"

definition answer :: "int \<Rightarrow> 'b option \<Rightarrow> uuid \<Rightarrow> json_object option \<Rightarrow> 'b result" where
  "answer st body entity audit = \<lparr>res_status = st, res_body = body, res_entityID = entity, res_projectID = 0, res_audit = audit\<rparr>"

record problem =
  pb_title :: string
  pb_status :: int
  pb_request_id :: string
  pb_detail :: "string option"

datatype 'b rbody = No_body | Json 'b | Problem problem

record 'b response =
  rp_status :: int
  rp_headers :: "(string \<times> string) list"
  rp_body :: "'b rbody"

definition api_error_of :: "herror \<Rightarrow> api_error" where
  "api_error_of e =
    (case e of
       Api ae \<Rightarrow> ae
     | _ \<Rightarrow> if isTimeout e then unavailable ''the database took too long'' else internal_error)"

definition writeError :: "string \<Rightarrow> herror \<Rightarrow> 'b response" where
  "writeError rid e =
    (let ae = api_error_of e
     in \<lparr>rp_status = ae_status ae,
         rp_headers = ae_headers ae @ [(''Content-Type'', ''application/problem+json'')],
         rp_body = Problem \<lparr>pb_title = ae_title ae, pb_status = ae_status ae, pb_request_id = rid,
           pb_detail = (if ae_detail ae = '''' then None else Some (ae_detail ae))\<rparr>\<rparr>)"

definition write_result :: "string \<Rightarrow> herror + 'b result \<Rightarrow> 'b response" where
  "write_result rid r =
    (case r of
       Inl e \<Rightarrow> writeError rid e
     | Inr res \<Rightarrow>
        (let st = (if res_status res = 0 then 200 else res_status res) in
         case res_body res of
           None \<Rightarrow> \<lparr>rp_status = st, rp_headers = [], rp_body = No_body\<rparr>
         | Some b \<Rightarrow> \<lparr>rp_status = st, rp_headers = [(''Content-Type'', ''application/json'')], rp_body = Json b\<rparr>))"

section \<open>Requests\<close>

record 'q request =
  rq_id :: string
  rq_header :: "string \<Rightarrow> string"
  rq_cookie :: "string \<Rightarrow> string option"
  rq_protocols :: "string list"
  rq_path :: "string \<Rightarrow> string"
  rq_query :: "string \<Rightarrow> string"
  rq_body :: "'q option"

text \<open>\<open>decode\<close>: the body, or a 400.\<close>

definition decode :: "'q request \<Rightarrow> 'q atx" where
  "decode r d = (case rq_body r of None \<Rightarrow> Inl (Api (badRequest ''invalid json body'')) | Some q \<Rightarrow> Inr (q, d))"

record uuid_lib =
  parse_uuid :: "string \<Rightarrow> uuid option"
  uuid_text :: "uuid \<Rightarrow> string"

definition is_space :: "char \<Rightarrow> bool" where
  "is_space c \<longleftrightarrow> of_char c \<in> {9, 10, 11, 12, 13, 32 :: nat}"

definition trim_space :: "string \<Rightarrow> string" where
  "trim_space s = rev (dropWhile is_space (rev (dropWhile is_space s)))"

definition cut_prefix :: "string \<Rightarrow> string \<Rightarrow> string option" where
  "cut_prefix p s = (if take (length p) s = p then Some (drop (length p) s) else None)"

fun split_on :: "char \<Rightarrow> string \<Rightarrow> string list" where
  "split_on c [] = [[]]"
| "split_on c (x # xs) =
    (if x = c then [] # split_on c xs
     else case split_on c xs of [] \<Rightarrow> [[x]] | w # ws \<Rightarrow> (x # w) # ws)"

definition subprotocols :: "'q request \<Rightarrow> string list" where
  "subprotocols r =
     filter (\<lambda>p. p \<noteq> '''') (map trim_space (concat (map (split_on (CHR '','')) (rq_protocols r))))"

definition tokenProtocol :: string where
  "tokenProtocol = ''fl.token.''"

definition bearer :: "'q request \<Rightarrow> string" where
  "bearer r =
    (case cut_prefix ''Bearer '' (rq_header r ''Authorization'') of
       Some t \<Rightarrow> trim_space t
     | None \<Rightarrow>
        (case rq_cookie r ''fl_session'' of
           Some v \<Rightarrow> v
         | None \<Rightarrow> (case List.map_filter (cut_prefix tokenProtocol) (subprotocols r) of [] \<Rightarrow> '''' | t # _ \<Rightarrow> t)))"

section \<open>Roles and scopes\<close>

datatype role = viewer | member | admin | owner

fun role_rank :: "role \<Rightarrow> nat" where
  "role_rank viewer = 0"
| "role_rank member = 1"
| "role_rank admin = 2"
| "role_rank owner = 3"

instantiation role :: linorder
begin

definition less_eq_role :: "role \<Rightarrow> role \<Rightarrow> bool" where
  "less_eq_role a b \<longleftrightarrow> role_rank a \<le> role_rank b"

definition less_role :: "role \<Rightarrow> role \<Rightarrow> bool" where
  "less_role a b \<longleftrightarrow> role_rank a < role_rank b"

instance
proof
  fix a b :: role
  show "a \<le> b \<Longrightarrow> b \<le> a \<Longrightarrow> a = b" by (cases a; cases b) (simp_all add: less_eq_role_def)
qed (auto simp: less_eq_role_def less_role_def)

end

definition parseRole :: "string \<Rightarrow> role" where
  "parseRole s = (if s = ''owner'' then owner else if s = ''admin'' then admin else if s = ''member'' then member else viewer)"

record scope =
  sc_userID :: uuid
  sc_sessionID :: uuid
  sc_orgID :: uuid
  sc_projectID :: uuid
  sc_entityID :: uuid
  sc_role :: role

type_synonym 'q locator = "'q request \<Rightarrow> uuid \<Rightarrow> db \<Rightarrow> herror + scope option"
type_synonym entityScope = "uuid \<Rightarrow> uuid \<Rightarrow> db \<Rightarrow> scope option"
type_synonym ('q, 'b) scoped = "'q request \<Rightarrow> scope \<Rightarrow> timestamptz \<Rightarrow> 'b result atx"

definition byPath :: "uuid_lib \<Rightarrow> string \<Rightarrow> entityScope \<Rightarrow> 'q locator" where
  "byPath lib name fn r uid d =
    (case parse_uuid lib (rq_path r name) of
       None \<Rightarrow> Inl (Api (badRequest (''invalid '' @ name)))
     | Some i \<Rightarrow> Inr (fn uid i d))"

definition no_scope :: "'q locator" where
  "no_scope r uid d = Inr (Some \<lparr>sc_userID = 0, sc_sessionID = 0, sc_orgID = 0, sc_projectID = 0, sc_entityID = 0, sc_role = owner\<rparr>)"

definition member_role :: "uuid \<Rightarrow> uuid \<Rightarrow> db \<Rightarrow> string option" where
  "member_role org uid d = map_option om_role (find (\<lambda>m. om_org_id m = org \<and> om_user_id m = uid) (org_members d))"

definition orgScope :: entityScope where
  "orgScope uid i d =
    (if i \<in> o_id ` set (organizations d)
     then map_option (\<lambda>r. \<lparr>sc_userID = 0, sc_sessionID = 0, sc_orgID = i, sc_projectID = 0, sc_entityID = i, sc_role = parseRole r\<rparr>)
            (member_role i uid d)
     else None)"

text \<open>\<open>join projects p ... join org_members m on m.org_id = p.org_id and m.user_id = $2\<close>.\<close>

definition project_join :: "uuid \<Rightarrow> uuid \<Rightarrow> db \<Rightarrow> (uuid \<times> uuid \<times> string) option" where
  "project_join uid p d =
    (case lookup_row pr_id p (projects d) of
       None \<Rightarrow> None
     | Some pr \<Rightarrow> map_option (\<lambda>r. (p, pr_org_id pr, r)) (member_role (pr_org_id pr) uid d))"

definition scopeBy :: "(uuid \<Rightarrow> uuid \<Rightarrow> db \<Rightarrow> (uuid \<times> uuid \<times> string) option) \<Rightarrow> entityScope" where
  "scopeBy query uid i d =
     map_option (\<lambda>(proj, org, r). \<lparr>sc_userID = 0, sc_sessionID = 0, sc_orgID = org, sc_projectID = proj, sc_entityID = i, sc_role = parseRole r\<rparr>)
       (query uid i d)"

definition projectScope :: entityScope where
  "projectScope = scopeBy project_join"

definition queueScope :: entityScope where
  "queueScope = scopeBy (\<lambda>uid i d. case queue_of d i of None \<Rightarrow> None | Some q \<Rightarrow> project_join uid (q_project_id q) d)"

definition policyScope :: entityScope where
  "policyScope = scopeBy (\<lambda>uid i d. case policy_of d i of None \<Rightarrow> None | Some p \<Rightarrow> project_join uid (p_project_id p) d)"

definition jobScope :: entityScope where
  "jobScope = scopeBy (\<lambda>uid i d. case job_of d i of None \<Rightarrow> None | Some j \<Rightarrow> project_join uid (j_project_id j) d)"

definition scheduleScope :: entityScope where
  "scheduleScope = scopeBy (\<lambda>uid i d.
     case lookup_row sc_id i (schedules d) of
       None \<Rightarrow> None
     | Some s \<Rightarrow> (case queue_of d (sc_queue_id s) of None \<Rightarrow> None | Some q \<Rightarrow> project_join uid (q_project_id q) d))"

definition batchScope :: entityScope where
  "batchScope = scopeBy (\<lambda>uid i d.
     case List.map_filter (\<lambda>j. project_join uid (j_project_id j) d) (filter (\<lambda>j. j_batch_id j = Some i) (jobs d)) of
       [] \<Rightarrow> None | x # _ \<Rightarrow> Some x)"

definition byProjectQuery :: "uuid_lib \<Rightarrow> 'q locator" where
  "byProjectQuery lib r uid d =
    (let p = rq_query r ''project'' in
     if p = '''' then Inl (Api (badRequest ''project query parameter required''))
     else case parse_uuid lib p of
       None \<Rightarrow> Inl (Api (badRequest ''invalid project''))
     | Some i \<Rightarrow> Inr (projectScope uid i d))"

definition byProjectOrQueue :: "uuid_lib \<Rightarrow> 'q locator" where
  "byProjectOrQueue lib r uid d =
    (let q = rq_query r ''queue''; p = rq_query r ''project'' in
     if q \<noteq> '''' then
       (case parse_uuid lib q of None \<Rightarrow> Inl (Api (badRequest ''invalid queue'')) | Some i \<Rightarrow> Inr (queueScope uid i d))
     else if p \<noteq> '''' then
       (case parse_uuid lib p of None \<Rightarrow> Inl (Api (badRequest ''invalid project'')) | Some i \<Rightarrow> Inr (projectScope uid i d))
     else Inl (Api (badRequest ''project or queue query parameter required'')))"

section \<open>Sessions, audit, guard\<close>

definition session_sql :: "uuid \<Rightarrow> timestamptz \<Rightarrow> uuid option tx" where
  "session_sql sid now = reads (\<lambda>d. map_option ss_user_id
     (find (\<lambda>s. ss_id s = sid \<and> ss_revoked_at s = None \<and> now < ss_expires_at s) (sessions d)))"

definition authuser :: "uuid_lib \<Rightarrow> 'q request \<Rightarrow> timestamptz \<Rightarrow> (uuid \<times> uuid) atx" where
  "authuser lib r now =
    (if bearer r = '''' then afail unauthorized
     else case parse_uuid lib (bearer r) of
       None \<Rightarrow> afail unauthorized
     | Some sid \<Rightarrow> abind (on_no_rows unauthorized (query_row (session_sql sid now))) (\<lambda>uid. aret (uid, sid)))"

text \<open>\<open>audit_log.actor_id\<close> refers to \<open>users\<close>.\<close>

definition audit :: "uuid \<Rightarrow> uuid \<Rightarrow> string \<Rightarrow> string \<Rightarrow> uuid \<Rightarrow> json_object option \<Rightarrow> timestamptz \<Rightarrow> unit atx" where
  "audit proj actor action entity entityID detail now = exec_sql (\<lambda>d.
     if actor \<in> u_id ` set (users d)
     then Inr ((), d\<lparr>audit_log := audit_log d @ [\<lparr>a_project_id = proj, a_actor_id = Some actor, a_action = action, a_entity = entity,
       a_entity_id = (if entityID = 0 then None else Some entityID), a_detail = detail, a_at = now\<rparr>]\<rparr>)
     else Inl fk_violation)"

definition guard_tx :: "uuid_lib \<Rightarrow> role \<Rightarrow> string \<Rightarrow> string \<Rightarrow> 'q locator \<Rightarrow> ('q, 'b) scoped \<Rightarrow> 'q request \<Rightarrow> timestamptz \<Rightarrow>
    'b result atx" where
  "guard_tx lib least action entity loc h r now =
     abind (authuser lib r now) (\<lambda>(uid, sid) d.
       case loc r uid d of
         Inl e \<Rightarrow> Inl e
       | Inr None \<Rightarrow> Inl (Api (notFound entity))
       | Inr (Some sc) \<Rightarrow>
           if sc_role sc < least then Inl (Api forbidden)
           else abind (h r (sc\<lparr>sc_userID := uid, sc_sessionID := sid\<rparr>) now) (\<lambda>res.
             let proj = (if sc_projectID sc = 0 then res_projectID res else sc_projectID sc);
                 ent = (if res_entityID res = 0 then sc_entityID sc else res_entityID res)
             in if action \<noteq> '''' \<and> proj \<noteq> 0
                then abind (audit proj uid action entity ent (res_audit res) now) (\<lambda>_. aret res)
                else aret res) d)"

definition guard :: "uuid_lib \<Rightarrow> role \<Rightarrow> string \<Rightarrow> string \<Rightarrow> 'q locator \<Rightarrow> ('q, 'b) scoped \<Rightarrow> (nat \<Rightarrow> tx_env) \<Rightarrow> 'q request \<Rightarrow> db \<Rightarrow>
    'b response \<times> db" where
  "guard lib least action entity loc h env r d =
    (case run_in_tx env (guard_tx lib least action entity loc h r) d of (res, d1) \<Rightarrow> (write_result (rq_id r) res, d1))"

definition public :: "('q, 'b) scoped \<Rightarrow> (nat \<Rightarrow> tx_env) \<Rightarrow> 'q request \<Rightarrow> db \<Rightarrow> 'b response \<times> db" where
  "public h env r d =
    (case run_in_tx env (h r \<lparr>sc_userID = 0, sc_sessionID = 0, sc_orgID = 0, sc_projectID = 0, sc_entityID = 0, sc_role = viewer\<rparr>) d of
       (res, d1) \<Rightarrow> (write_result (rq_id r) res, d1))"

section \<open>What a request can change\<close>

lemma tx_attempt_outcome:
  assumes "tx_attempt env fn d = (r, d')"
  shows "(\<exists>a. fn (ta_now env) d = Inr (a, d') \<and> (r = Inr a \<or> (\<exists>e. r = Inl (Db (Conn e))))) \<or> (d' = d \<and> (\<exists>e. r = Inl e))"
  using assms by (auto simp: tx_attempt_def split: fate.splits sum.splits if_splits)

lemma tx_loop_outcome:
  assumes "tx_loop (Suc n) env fn i err d = (r, d')"
  shows "\<exists>k \<le> n. let dk = fold (\<lambda>i. ta_before (env i)) [i..<Suc (i + k)] d in
    (d' = dk \<and> (\<exists>e. r = Inl e)) \<or>
    (\<exists>a. fn (ta_now (env (i + k))) dk = Inr (a, d') \<and> (r = Inr a \<or> (\<exists>e. r = Inl (Db (Conn e)))))"
  using assms
proof (induction n arbitrary: i err d)
  case 0
  let ?d0 = "ta_before (env i) d"
  show ?case
  proof (cases "ta_begin (env i)")
    case None
    obtain r1 d1 where one: "tx_attempt (env i) fn ?d0 = (r1, d1)" by fastforce
    have "(r, d') = (r1, d1)" using 0 None one by (auto split: sum.splits if_splits)
    then show ?thesis using tx_attempt_outcome [OF one] by auto
  qed (use 0 in auto)
next
  case (Suc n)
  let ?d0 = "ta_before (env i) d"
  show ?case
  proof (cases "ta_begin (env i)")
    case None
    obtain r1 d1 where one: "tx_attempt (env i) fn ?d0 = (r1, d1)" by fastforce
    show ?thesis
    proof (cases "\<exists>e. r1 = Inl e \<and> retryable e")
      case True
      then obtain e where e: "r1 = Inl e" "retryable e" by blast
      then have d1: "d1 = ?d0" using tx_attempt_outcome [OF one] by auto
      have "tx_loop (Suc n) env fn (Suc i) e ?d0 = (r, d')" using Suc.prems None one e d1 by (simp del: tx_loop.simps(2) add: tx_loop.simps(2) [of "Suc n"])
      from Suc.IH [OF this] obtain k where k: "k \<le> n"
        "let dk = fold (\<lambda>i. ta_before (env i)) [Suc i..<Suc (Suc i + k)] ?d0 in
          (d' = dk \<and> (\<exists>e. r = Inl e)) \<or>
          (\<exists>a. fn (ta_now (env (Suc i + k))) dk = Inr (a, d') \<and> (r = Inr a \<or> (\<exists>e. r = Inl (Db (Conn e)))))"
        by blast
      then show ?thesis
        by (intro exI [of _ "Suc k"]) (simp add: fold_upt_Suc_start Let_def del: upt_Suc fold_append)
    next
      case False
      then have "(r, d') = (r1, d1)" using Suc.prems None one by (cases r1) auto
      then show ?thesis using tx_attempt_outcome [OF one] by (intro exI [of _ 0]) auto
    qed
  qed (use Suc.prems in \<open>auto intro!: exI [of _ 0]\<close>)
qed

lemma run_in_tx_outcome:
  assumes "run_in_tx env fn d = (r, d')"
  shows "\<exists>k < 5. let dk = fold (\<lambda>i. ta_before (env i)) [0..<Suc k] d in
    (d' = dk \<and> (\<exists>e. r = Inl e)) \<or>
    (\<exists>a. fn (ta_now (env k)) dk = Inr (a, d') \<and> (r = Inr a \<or> (\<exists>e. r = Inl (Db (Conn e)))))"
proof -
  have "tx_loop (Suc 4) env fn 0 (Db ErrNoRows) d = (r, d')"
    using assms by (simp add: run_in_tx_def maxTxRetries_def)
  from tx_loop_outcome [OF this] show ?thesis
    by (auto simp: less_Suc_eq_le eval_nat_numeral simp del: upt_Suc)
qed

lemma authuser_Inr:
  assumes "authuser lib r now d = Inr ((uid, sid), d')"
  shows "d' = d" "parse_uuid lib (bearer r) = Some sid"
    "\<exists>s \<in> set (sessions d). ss_id s = sid \<and> ss_user_id s = uid \<and> ss_revoked_at s = None \<and> now < ss_expires_at s"
  using assms
  by (auto simp: authuser_def session_sql_def atx_simps find_Some_iff split: if_splits option.splits)

text \<open>The row the guard writes to the audit log.\<close>

definition audit_rows :: "string \<Rightarrow> string \<Rightarrow> uuid \<Rightarrow> scope \<Rightarrow> 'b result \<Rightarrow> timestamptz \<Rightarrow> audit_row list" where
  "audit_rows action entity uid sc res now =
    (let proj = (if sc_projectID sc = 0 then res_projectID res else sc_projectID sc);
         ent = (if res_entityID res = 0 then sc_entityID sc else res_entityID res)
     in if action \<noteq> '''' \<and> proj \<noteq> 0
        then [\<lparr>a_project_id = proj, a_actor_id = Some uid, a_action = action, a_entity = entity,
               a_entity_id = (if ent = 0 then None else Some ent), a_detail = res_audit res, a_at = now\<rparr>] else [])"

lemma guard_tx_Inr:
  assumes "guard_tx lib least action entity loc h r now d = Inr (res, d')"
  shows "\<exists>uid sid sc d1. parse_uuid lib (bearer r) = Some sid \<and>
    (\<exists>s \<in> set (sessions d). ss_id s = sid \<and> ss_user_id s = uid \<and> ss_revoked_at s = None \<and> now < ss_expires_at s) \<and>
    loc r uid d = Inr (Some sc) \<and> least \<le> sc_role sc \<and>
    h r (sc\<lparr>sc_userID := uid, sc_sessionID := sid\<rparr>) now d = Inr (res, d1) \<and>
    d' = d1\<lparr>audit_log := audit_log d1 @ audit_rows action entity uid sc res now\<rparr>"
proof -
  obtain p d0 where p: "authuser lib r now d = Inr (p, d0)"
    using assms unfolding guard_tx_def abind_Inr by blast
  obtain uid sid where uid: "p = (uid, sid)" by (cases p)
  note a0 = p [unfolded uid]
  have a: "authuser lib r now d = Inr ((uid, sid), d)" using a0 authuser_Inr(1) [OF a0] by simp
  have cont: "(case loc r uid d of Inl e \<Rightarrow> Inl e | Inr None \<Rightarrow> Inl (Api (notFound entity)) | Inr (Some sc) \<Rightarrow>
      if sc_role sc < least then Inl (Api forbidden)
      else abind (h r (sc\<lparr>sc_userID := uid, sc_sessionID := sid\<rparr>) now) (\<lambda>res.
         let proj = (if sc_projectID sc = 0 then res_projectID res else sc_projectID sc);
             ent = (if res_entityID res = 0 then sc_entityID sc else res_entityID res)
         in if action \<noteq> '''' \<and> proj \<noteq> 0
            then abind (audit proj uid action entity ent (res_audit res) now) (\<lambda>_. aret res)
            else aret res) d) = Inr (res, d')"
    using assms a by (simp add: guard_tx_def)
  then obtain sc where sc: "loc r uid d = Inr (Some sc)" "\<not> sc_role sc < least"
    by (cases "loc r uid d") (auto split: option.splits if_splits)
  then obtain res1 d1 where h1: "h r (sc\<lparr>sc_userID := uid, sc_sessionID := sid\<rparr>) now d = Inr (res1, d1)"
    using cont by (cases "h r (sc\<lparr>sc_userID := uid, sc_sessionID := sid\<rparr>) now d") auto
  have last: "res1 = res \<and> d' = d1\<lparr>audit_log := audit_log d1 @ audit_rows action entity uid sc res now\<rparr>"
  proof -
    define proj where "proj = (if sc_projectID sc = 0 then res_projectID res1 else sc_projectID sc)"
    have tl: "(if action \<noteq> '''' \<and> proj \<noteq> 0
        then abind (audit proj uid action entity (if res_entityID res1 = 0 then sc_entityID sc else res_entityID res1) (res_audit res1) now) (\<lambda>_. aret res1)
        else aret res1) d1 = Inr (res, d')"
      using cont sc h1 unfolding proj_def Let_def by (simp split del: if_split)
    show ?thesis
    proof (cases "action \<noteq> '''' \<and> proj \<noteq> 0")
      case True
      with tl show ?thesis
        by (auto simp: audit_def abind_def exec_sql_def audit_rows_def Let_def proj_def split: if_split_asm)
    next
      case False
      with tl show ?thesis by (auto simp: audit_rows_def Let_def proj_def)
    qed
  qed
  then have h: "h r (sc\<lparr>sc_userID := uid, sc_sessionID := sid\<rparr>) now d = Inr (res, d1)"
    and d': "d' = d1\<lparr>audit_log := audit_log d1 @ audit_rows action entity uid sc res now\<rparr>" using h1 by auto
  show ?thesis using authuser_Inr(2,3) [OF a] sc h d' by (auto simp: not_less)
qed


text \<open>A clean attempt, and a member of a project.\<close>

definition quiet_tx :: "timestamptz \<Rightarrow> nat \<Rightarrow> tx_env" where
  "quiet_tx now i = \<lparr>ta_before = id, ta_begin = None, ta_fate = Runs, ta_now = now\<rparr>"

definition one_uuid :: uuid_lib where
  "one_uuid = \<lparr>parse_uuid = (\<lambda>s. if s = '''' then None else Some (length s)), uuid_text = (\<lambda>n. replicate n (CHR ''x''))\<rparr>"

definition team_db :: db where
  "team_db = sample_db\<lparr>users := [\<lparr>u_id = 1, u_email = ''a@b'', u_password_hash = '''', u_name = None, u_created_at = 0\<rparr>],
     organizations := [\<lparr>o_id = 2, o_name = ''org'', o_created_at = 0\<rparr>],
     org_members := [\<lparr>om_org_id = 2, om_user_id = 1, om_role = ''member''\<rparr>],
     projects := [\<lparr>pr_id = 3, pr_org_id = 2, pr_name = ''p'', pr_created_at = 0\<rparr>],
     sessions := [\<lparr>ss_id = 4, ss_user_id = 1, ss_issued_at = 0, ss_expires_at = sample_now + 1, ss_revoked_at = None\<rparr>]\<rparr>"

definition sample_request :: "'q \<Rightarrow> 'q request" where
  "sample_request q = \<lparr>rq_id = ''r1'', rq_header = (\<lambda>h. if h = ''Authorization'' then ''Bearer abcd'' else ''''), rq_cookie = (\<lambda>_. None),
     rq_protocols = [], rq_path = (\<lambda>_. ''aaaaaaa''), rq_query = (\<lambda>_. ''''), rq_body = Some q\<rparr>"


end
