(* ===== verification/Paging.thy ===== *)
theory Paging
  imports Api
begin

text \<open>
  Lists in pages: \<open>pagination.go\<close> (the page size, the cursor) and \<open>query.go\<close> (the conditions of a list
  query). A cursor is the text of a time and an identifier, in unpadded URL base64. The text of a time is the
  library's (\<open>time.RFC3339Nano\<close>) and a parameter, like the text of an identifier.

  \<open>query\<close> builds the text of a \<open>where\<close> clause and its arguments; the model keeps what the clause means, one
  predicate on rows per condition.
\<close>

section \<open>Numbers\<close>

definition is_digit :: "char \<Rightarrow> bool" where
  "is_digit c \<longleftrightarrow> 48 \<le> (of_char c :: nat) \<and> of_char c \<le> (57 :: nat)"

definition digits_value :: "string \<Rightarrow> nat" where
  "digits_value s = fold (\<lambda>c n. 10 * n + (of_char c - 48)) s 0"

text \<open>\<open>strconv.ParseInt(s, 10, 64)\<close>, which \<open>strconv.Atoi\<close> is on a 64-bit machine.\<close>

definition parse_int :: "string \<Rightarrow> int option" where
  "parse_int s =
    (let neg = (s \<noteq> [] \<and> hd s = CHR ''-'');
         body = (if s \<noteq> [] \<and> (hd s = CHR ''-'' \<or> hd s = CHR ''+'') then tl s else s);
         v = (if neg then - int (digits_value body) else int (digits_value body))
     in if body = [] \<or> \<not> list_all is_digit body then None
        else if - (2 ^ 63) \<le> v \<and> v < 2 ^ 63 then Some v else None)"

definition defaultLimit :: int where "defaultLimit = 50"
definition maxLimit :: int where "maxLimit = 100"

definition pageLimit :: "'q request \<Rightarrow> int" where
  "pageLimit r =
    (let v = rq_query r ''limit'' in
     if v = '''' then defaultLimit
     else case parse_int v of
       None \<Rightarrow> defaultLimit
     | Some n \<Rightarrow> if n \<le> 0 then defaultLimit else if maxLimit < n then maxLimit else n)"

lemma pageLimit_bounds: "1 \<le> pageLimit r" "pageLimit r \<le> 100"
  by (auto simp: pageLimit_def defaultLimit_def maxLimit_def Let_def split: option.split)

section \<open>Base64\<close>

definition b64_char :: "nat \<Rightarrow> char" where
  "b64_char n = char_of (if n < 26 then 65 + n else if n < 52 then 71 + n else if n < 62 then n - 4 else if n = 62 then 45 else (95 :: nat))"

definition b64_val :: "char \<Rightarrow> nat option" where
  "b64_val ch =
    (let c = of_char ch in
     if 65 \<le> c \<and> c \<le> 90 then Some (c - 65)
     else if 97 \<le> c \<and> c \<le> 122 then Some (c - 71)
     else if 48 \<le> c \<and> c \<le> 57 then Some (c + 4)
     else if c = 45 then Some 62 else if c = 95 then Some 63 else None)"

fun b64_sextets :: "nat list \<Rightarrow> nat list" where
  "b64_sextets [] = []"
| "b64_sextets [a] = [a div 4, (a mod 4) * 16]"
| "b64_sextets [a, b] = [a div 4, (a mod 4) * 16 + b div 16, (b mod 16) * 4]"
| "b64_sextets (a # b # c # bs) = a div 4 # ((a mod 4) * 16 + b div 16) # ((b mod 16) * 4 + c div 64) # c mod 64 # b64_sextets bs"

fun b64_bytes :: "nat list \<Rightarrow> nat list option" where
  "b64_bytes [] = Some []"
| "b64_bytes [s] = None"
| "b64_bytes [s, t] = Some [s * 4 + t div 16]"
| "b64_bytes [s, t, u] = Some [s * 4 + t div 16, (t mod 16) * 16 + u div 4]"
| "b64_bytes (s # t # u # v # ss) =
    map_option (\<lambda>bs. (s * 4 + t div 16) # ((t mod 16) * 16 + u div 4) # ((u mod 4) * 64 + v) # bs) (b64_bytes ss)"

definition b64_encode :: "string \<Rightarrow> string" where
  "b64_encode s = map b64_char (b64_sextets (map of_char s))"

text \<open>The decoder skips line breaks and does not look at the unused bits of the last character.\<close>

definition b64_decode :: "string \<Rightarrow> string option" where
  "b64_decode s =
    (let cs = filter (\<lambda>c. of_char c \<noteq> (10 :: nat) \<and> of_char c \<noteq> (13 :: nat)) s;
         vs = map b64_val cs
     in if None \<in> set vs then None else map_option (map char_of) (b64_bytes (map the vs)))"

lemma b64_sextets_small: "\<forall>b \<in> set bs. b < 256 \<Longrightarrow> \<forall>s \<in> set (b64_sextets bs). s < 64"
  by (induction bs rule: b64_sextets.induct) auto

lemma b64_bytes_sextets: "\<forall>b \<in> set bs. b < 256 \<Longrightarrow> b64_bytes (b64_sextets bs) = Some bs"
  by (induction bs rule: b64_sextets.induct) auto

lemma b64_val_char: "n < 64 \<Longrightarrow> b64_val (b64_char n) = Some n"
  by (auto simp: b64_val_def b64_char_def Let_def of_char_of)

lemma b64_char_no_break: "n < 64 \<Longrightarrow> of_char (b64_char n) \<noteq> (10 :: nat) \<and> of_char (b64_char n) \<noteq> (13 :: nat)"
  by (auto simp: b64_char_def of_char_of)

lemma b64_round_trip: "b64_decode (b64_encode s) = Some s"
proof -
  let ?ss = "b64_sextets (map of_char s)"
  have small: "\<forall>n \<in> set ?ss. n < 64" by (rule b64_sextets_small) (auto simp: less_le_trans)
  have keep: "filter (\<lambda>c. of_char c \<noteq> (10 :: nat) \<and> of_char c \<noteq> (13 :: nat)) (map b64_char ?ss) = map b64_char ?ss"
    using small b64_char_no_break by (intro filter_True) auto
  have vals: "map b64_val (map b64_char ?ss) = map Some ?ss"
    using small b64_val_char by auto
  have "b64_bytes ?ss = Some (map of_char s)" by (rule b64_bytes_sextets) auto
  then show ?thesis
    unfolding b64_decode_def b64_encode_def keep vals Let_def by (auto simp: comp_def image_iff)
qed

lemma b64_encode_ne: "s \<noteq> [] \<Longrightarrow> b64_encode s \<noteq> []"
  by (cases "map of_char s :: nat list" rule: b64_sextets.cases) (auto simp: b64_encode_def)

section \<open>Cursors\<close>

record time_lib =
  fmt_time :: "timestamptz \<Rightarrow> string"
  parse_time :: "string \<Rightarrow> timestamptz option"

definition encodeCursor :: "uuid_lib \<Rightarrow> time_lib \<Rightarrow> timestamptz \<Rightarrow> uuid \<Rightarrow> string" where
  "encodeCursor ul tm t i = b64_encode (fmt_time tm t @ ''|'' @ uuid_text ul i)"

text \<open>\<open>strings.SplitN(s, "|", 2)\<close>.\<close>

definition split_bar :: "string \<Rightarrow> string list" where
  "split_bar s = (case dropWhile (\<lambda>c. c \<noteq> CHR ''|'') s of [] \<Rightarrow> [s] | _ # r \<Rightarrow> [takeWhile (\<lambda>c. c \<noteq> CHR ''|'') s, r])"

definition decodeCursor :: "uuid_lib \<Rightarrow> time_lib \<Rightarrow> string \<Rightarrow> api_error + (timestamptz \<times> uuid) option" where
  "decodeCursor ul tm s =
    (if s = '''' then Inr None
     else case b64_decode s of
       None \<Rightarrow> Inl (badRequest ''invalid cursor'')
     | Some raw \<Rightarrow>
        (case split_bar raw of
           [a, b] \<Rightarrow>
             (case (parse_time tm a, parse_uuid ul b) of
                (Some t, Some i) \<Rightarrow> Inr (Some (t, i))
              | _ \<Rightarrow> Inl (badRequest ''invalid cursor''))
         | _ \<Rightarrow> Inl (badRequest ''invalid cursor'')))"

text \<open>What the cursor relies on: both texts can be read back, and the text of a time has no bar.\<close>

definition texts_read_back :: "uuid_lib \<Rightarrow> time_lib \<Rightarrow> bool" where
  "texts_read_back ul tm \<longleftrightarrow> (\<forall>t. parse_time tm (fmt_time tm t) = Some t \<and> CHR ''|'' \<notin> set (fmt_time tm t)) \<and>
     (\<forall>i. parse_uuid ul (uuid_text ul i) = Some i)"

lemma cursor_read_back:
  assumes "texts_read_back ul tm"
  shows "encodeCursor ul tm t i \<noteq> ''''" "decodeCursor ul tm (encodeCursor ul tm t i) = Inr (Some (t, i))"
proof -
  show ne: "encodeCursor ul tm t i \<noteq> ''''" by (simp add: encodeCursor_def b64_encode_ne)
  have bar: "CHR ''|'' \<notin> set (fmt_time tm t)" using assms by (simp add: texts_read_back_def)
  have "split_bar (fmt_time tm t @ ''|'' @ uuid_text ul i) = [fmt_time tm t, uuid_text ul i]"
    using bar by (auto simp: split_bar_def dropWhile_append takeWhile_append dropWhile_eq_Nil_conv split: list.split)
  then show "decodeCursor ul tm (encodeCursor ul tm t i) = Inr (Some (t, i))"
    using assms ne by (simp add: decodeCursor_def encodeCursor_def b64_round_trip texts_read_back_def)
qed

lemma decodeCursor_errors: "decodeCursor ul tm s = Inl e \<Longrightarrow> e = badRequest ''invalid cursor''"
  by (auto simp: decodeCursor_def split: if_splits option.splits list.splits)

lemma decodeCursor_first: "decodeCursor ul tm s = Inr None \<longleftrightarrow> s = []"
  by (simp add: decodeCursor_def split: option.split list.split)

text \<open>
  C27. Cursors survive the round trip: for library texts that can be read back, decoding an encoded cursor gives the
  very time and identifier, and an encoded cursor is never the empty string that means the first page.
  Whatever a client sends instead, the only other answers are the first page for the empty string, some position,
  or the 400 for an invalid cursor; and base64 itself loses nothing.
\<close>

theorem cursor_round_trip:
  assumes "texts_read_back ul tm"
  shows "encodeCursor ul tm t i \<noteq> '''' \<and> decodeCursor ul tm (encodeCursor ul tm t i) = Inr (Some (t, i)) \<and>
    (decodeCursor ul tm s = Inr None \<longleftrightarrow> s = '''') \<and>
    (decodeCursor ul tm s = Inl e \<longrightarrow> ae_status e = 400) \<and> b64_decode (b64_encode s) = Some s"
  using cursor_read_back [OF assms] decodeCursor_errors [of ul tm s e] decodeCursor_first [of ul tm s]
  by (auto simp: b64_round_trip badRequest_def)

text \<open>Texts in unary, to see the hypothesis hold.\<close>

definition unary_uuid :: uuid_lib where
  "unary_uuid = \<lparr>parse_uuid = (\<lambda>s. Some (length s)), uuid_text = (\<lambda>n. replicate n (CHR ''x''))\<rparr>"

definition unary_time :: time_lib where
  "unary_time = \<lparr>fmt_time = (\<lambda>t. (if t < 0 then ''-'' else '''') @ replicate (nat \<bar>t\<bar>) (CHR ''x'')),
     parse_time = (\<lambda>s. Some (if s \<noteq> [] \<and> hd s = CHR ''-'' then - int (length s - 1) else int (length s)))\<rparr>"

lemma unary_read_back: "texts_read_back unary_uuid unary_time"
  by (auto simp: texts_read_back_def unary_uuid_def unary_time_def)

theorem cursor_round_trip_witness:
  "decodeCursor unary_uuid unary_time (encodeCursor unary_uuid unary_time 5 3) = Inr (Some (5, 3)) \<and>
   decodeCursor unary_uuid unary_time '''' = Inr None"
  using cursor_round_trip [OF unary_read_back, of 5 3 "''''"] by auto

section \<open>Conditions\<close>

type_synonym 'r query = "('r \<Rightarrow> bool) list"

definition qb_eq :: "('r \<Rightarrow> 'v) \<Rightarrow> 'v \<Rightarrow> 'r query \<Rightarrow> 'r query" where
  "qb_eq col v q = q @ [\<lambda>r. col r = v]"

definition qb_eq_opt :: "('r \<Rightarrow> 'v) \<Rightarrow> 'v option \<Rightarrow> 'r query \<Rightarrow> 'r query" where
  "qb_eq_opt col v q = (case v of None \<Rightarrow> q | Some x \<Rightarrow> qb_eq col x q)"

definition qb_before :: "('r \<Rightarrow> timestamptz \<times> uuid) \<Rightarrow> (timestamptz \<times> uuid) option \<Rightarrow> 'r query \<Rightarrow> 'r query" where
  "qb_before cols cur q = (case cur of None \<Rightarrow> q | Some c \<Rightarrow> q @ [\<lambda>r. cols r < c])"

text \<open>\<open>head where ... order by t desc, id desc limit n\<close>.\<close>

definition newest_first :: "timestamptz \<times> uuid \<Rightarrow> int \<times> int" where
  "newest_first p = (- fst p, - int (snd p))"

definition qb_build :: "('r \<Rightarrow> timestamptz \<times> uuid) \<Rightarrow> int \<Rightarrow> 'r query \<Rightarrow> 'r list \<Rightarrow> 'r list" where
  "qb_build cols limit q rows = order_limit (\<lambda>r. newest_first (cols r)) (nat limit) (filter (\<lambda>r. \<forall>p \<in> set q. p r) rows)"

lemma newest_first_less: "newest_first a < newest_first b \<longleftrightarrow> b < a"
  by (cases a; cases b) (auto simp: newest_first_def less_prod_def)

section \<open>Walking the pages\<close>

lemma sorted_after_page:
  assumes "sorted (map k xs)" and "distinct (map k xs)" and "n \<le> length xs" and "0 < n"
  shows "filter (\<lambda>r. k (last (take n xs)) < k r) xs = drop n xs"
proof -
  let ?l = "last (take n xs)"
  have ne: "take n xs \<noteq> []" using assms(3,4) by auto
  have s: "sorted (map k (take n xs) @ map k (drop n xs))" "distinct (map k (take n xs) @ map k (drop n xs))"
    using assms(1,2) by (simp_all flip: map_append)
  have l: "?l \<in> set (take n xs)" using ne by simp
  have "filter (\<lambda>r. k ?l < k r) (drop n xs) = drop n xs"
  proof (rule filter_True)
    show "\<forall>x \<in> set (drop n xs). k ?l < k x"
    proof
      fix x assume x: "x \<in> set (drop n xs)"
      have "k ?l \<le> k x" using s(1) l x by (auto simp: sorted_append)
      moreover have "k ?l \<noteq> k x" using s(2) l x by auto
      ultimately show "k ?l < k x" by simp
    qed
  qed
  moreover have "filter (\<lambda>r. k ?l < k r) (take n xs) = []"
  proof -
    have "k x \<le> k ?l" if "x \<in> set (take n xs)" for x
    proof -
      have "sorted (map k (butlast (take n xs) @ [?l]))" using s(1) ne by (simp add: sorted_append)
      then show ?thesis using that ne by (auto simp: sorted_append) (metis append_butlast_last_id in_set_conv_decomp_last set_ConsD set_append Un_iff order_refl empty_iff list.set(1))
    qed
    then show ?thesis by (auto simp: filter_empty_conv not_less)
  qed
  ultimately show ?thesis
    by (metis append_take_drop_id filter_append self_append_conv2)
qed

text \<open>
  One page at a time: with a cursor, what is left after it; a page of fewer than \<open>n\<close> rows is the last.
\<close>

fun walk_pages :: "nat \<Rightarrow> ('r \<Rightarrow> 'k::linorder) \<Rightarrow> nat \<Rightarrow> 'k option \<Rightarrow> 'r list \<Rightarrow> 'r list option" where
  "walk_pages 0 k n cur rs = None"
| "walk_pages (Suc fuel) k n cur rs =
    (let page = order_limit k n (filter (\<lambda>r. case cur of None \<Rightarrow> True | Some c \<Rightarrow> c < k r) rs)
     in if length page = n then map_option ((@) page) (walk_pages fuel k n (Some (k (last page))) rs) else Some page)"

lemma walk_pages_all:
  assumes "distinct (map k rs)" and "0 < n" and "length (filter (\<lambda>r. case cur of None \<Rightarrow> True | Some c \<Rightarrow> c < k r) rs) < fuel"
  shows "walk_pages fuel k n cur rs = Some (sort_key k (filter (\<lambda>r. case cur of None \<Rightarrow> True | Some c \<Rightarrow> c < k r) rs))"
  using assms(3)
proof (induction fuel arbitrary: cur)
  case (Suc fuel)
  let ?P = "\<lambda>cur r. case cur of None \<Rightarrow> True | Some c \<Rightarrow> c < k r"
  let ?L = "sort_key k (filter (?P cur) rs)"
  let ?page = "take n ?L"
  show ?case
  proof (cases "n \<le> length ?L")
    case True
    let ?l = "last ?page"
    have d: "distinct (map k ?L)" using assms(1) by (intro distinct_map_sort_key) (simp add: distinct_map_filter)
    have rest: "filter (\<lambda>r. k ?l < k r) ?L = drop n ?L"
      using d True assms(2) by (intro sorted_after_page) simp_all
    have "length ?page = n" using True by simp
    then have "?page \<noteq> []" using assms(2) by (metis length_greater_0_conv)
    then have "?l \<in> set ?page" by (rule last_in_set)
    then have l: "?l \<in> set ?L" by (rule in_set_takeD)
    then have "?P cur ?l" by simp
    then have more: "?P (Some (k ?l)) r \<and> ?P cur r \<longleftrightarrow> ?P (Some (k ?l)) r" for r by (auto split: option.splits)
    have "sort_key k (filter (?P (Some (k ?l))) rs) = filter (\<lambda>r. k ?l < k r) ?L"
      using more by (simp add: filter_sort conj_commute)
    then have after: "sort_key k (filter (?P (Some (k ?l))) rs) = drop n ?L" using rest by simp
    then have "length (filter (?P (Some (k ?l))) rs) = length ?L - n" by (metis length_drop length_sort)
    then have "length (filter (?P (Some (k ?l))) rs) < fuel" using Suc.prems True assms(2) by simp
    from Suc.IH [OF this] after show ?thesis using True by (simp add: order_limit_def Let_def)
  next
    case False
    then show ?thesis by (simp add: order_limit_def Let_def)
  qed
qed simp

end
