(* ===== verification/JobsApi.thy ===== *)
theory JobsApi
  imports Paging
begin

text \<open>
  The handlers of \<open>jobs.go\<close>: submitting a job, with its idempotency key, its dependencies and the depth cap of
  its queue; submitting a batch; listing, reading, cancelling and retrying jobs.

  Checking and normalising JSON and hashing are library code (\<open>encoding/json\<close>, \<open>crypto/sha256\<close>) and parameters.
  New identifiers come from the database (\<open>fl.uuidv7\<close>) or from \<open>uuid.New\<close> and are arguments. \<open>race\<close> says that another
  transaction commits the same idempotency key between this one's lookup and its insert.
\<close>

section \<open>Data\<close>

record api_lib =
  al_uuid :: uuid_lib
  al_time :: time_lib
  al_json_valid :: "string \<Rightarrow> bool"
  al_json_canon :: "string \<Rightarrow> string"
  al_sha256_hex :: "string \<Rightarrow> string"

record submitReq =
  sq_Type :: string
  sq_Payload :: string
  sq_Priority :: "int option"
  sq_RunAt :: "timestamptz option"
  sq_TimeoutMs :: "int option"
  sq_RetryPolicyID :: "string option"
  sq_DependsOn :: "string list"

record submitView =
  sv_ID :: uuid
  sv_QueueID :: uuid
  sv_Type :: string
  sv_Status :: string
  sv_Priority :: int
  sv_RunAt :: timestamptz
  sv_CreatedAt :: timestamptz

record jobListItem =
  li_ID :: uuid
  li_QueueID :: uuid
  li_Type :: string
  li_Status :: string
  li_Priority :: int
  li_AttemptCount :: nat
  li_ReplayGeneration :: nat
  li_RunAt :: timestamptz
  li_CreatedAt :: timestamptz
  li_BatchID :: "uuid option"

record kinView =
  kv_ID :: uuid
  kv_Type :: string
  kv_Status :: string

definition jobStatuses :: "string list" where
  "jobStatuses = [''scheduled'', ''queued'', ''claimed'', ''running'', ''completed'', ''retry_wait'', ''dead_letter'', ''cancelled'']"

section \<open>Submitting\<close>

text \<open>\<open>%d\<close> of an int.\<close>

definition int_text :: "int \<Rightarrow> string" where
  "int_text n = (if n < 0 then ''-'' @ nat_text (nat (- n)) else nat_text (nat n))"

definition nul :: string where
  "nul = [char_of (0 :: nat)]"

definition fingerprint :: "api_lib \<Rightarrow> string \<Rightarrow> string \<Rightarrow> int \<Rightarrow> int \<Rightarrow> string \<Rightarrow> timestamptz option \<Rightarrow> string" where
  "fingerprint lib typ payload priority timeout policy runAt =
     al_sha256_hex lib (typ @ nul @ int_text priority @ nul @ int_text timeout @ nul @ policy @ nul @
       (case runAt of None \<Rightarrow> [] | Some t \<Rightarrow> fmt_time (al_time lib) t) @ nul @ al_json_canon lib payload)"

definition queue_defaults :: "uuid \<Rightarrow> (uuid \<times> int \<times> int option) option tx" where
  "queue_defaults q = reads (\<lambda>d. map_option (\<lambda>r. (q_retry_policy_id r, q_default_priority r, q_max_depth r)) (queue_of d q))"

definition queued_count :: "uuid \<Rightarrow> nat tx" where
  "queued_count q = reads (\<lambda>d. count_where (\<lambda>j. j_queue_id j = q \<and> j_status j = Queued) (jobs d))"

definition assertPolicyOwned :: "uuid \<Rightarrow> uuid \<Rightarrow> unit atx" where
  "assertPolicyOwned policy proj =
     on_no_rows (badRequest ''retry_policy_id does not belong to this project'')
       (query_row (reads (\<lambda>d. if \<exists>p \<in> set (retry_policies d). p_id p = policy \<and> p_project_id p = proj then Some () else None)))"

definition choose_policy :: "api_lib \<Rightarrow> string option \<Rightarrow> uuid \<Rightarrow> uuid \<Rightarrow> uuid atx" where
  "choose_policy lib req defPolicy proj =
    (case req of
       None \<Rightarrow> aret defPolicy
     | Some s \<Rightarrow>
        (case parse_uuid (al_uuid lib) s of
           None \<Rightarrow> afail (badRequest ''invalid retry_policy_id'')
         | Some i \<Rightarrow> abind (assertPolicyOwned i proj) (\<lambda>_. aret i)))"

definition idem_is :: "uuid \<Rightarrow> string \<Rightarrow> idempotency_key \<Rightarrow> bool" where
  "idem_is q key k \<longleftrightarrow> k_queue_id k = q \<and> k_key k = key"

definition find_idem :: "uuid \<Rightarrow> string \<Rightarrow> timestamptz \<Rightarrow> (uuid \<times> string \<times> bool) option tx" where
  "find_idem q key now = reads (\<lambda>d. map_option (\<lambda>k. (k_job_id k, k_fingerprint k, k_expires_at k \<le> now))
     (find (idem_is q key) (idempotency_keys d)))"

definition delete_idem :: "uuid \<Rightarrow> string \<Rightarrow> unit tx" where
  "delete_idem q key d = Inr ((), d\<lparr>idempotency_keys := delete_where (idem_is q key) (idempotency_keys d)\<rparr>)"

definition idem_ttl :: interval where
  "idem_ttl = 24 * 3600 * 1000000"

definition insert_idem :: "bool \<Rightarrow> uuid \<Rightarrow> string \<Rightarrow> uuid \<Rightarrow> string \<Rightarrow> timestamptz \<Rightarrow> unit tx" where
  "insert_idem race q key job fp now d =
    (if race \<or> (\<exists>k \<in> set (idempotency_keys d). idem_is q key k) then Inl unique_violation
     else if q \<notin> q_id ` set (queues d) then Inl fk_violation
     else Inr ((), d\<lparr>idempotency_keys := idempotency_keys d @
       [\<lparr>k_queue_id = q, k_key = key, k_job_id = job, k_fingerprint = fp, k_expires_at = now + idem_ttl\<rparr>]\<rparr>))"

definition submit_view :: "job \<Rightarrow> submitView" where
  "submit_view j = \<lparr>sv_ID = j_id j, sv_QueueID = j_queue_id j, sv_Type = j_type j, sv_Status = status_text (j_status j),
     sv_Priority = j_priority j, sv_RunAt = j_run_at j, sv_CreatedAt = j_created_at j\<rparr>"

definition loadSubmitView :: "uuid \<Rightarrow> submitView atx" where
  "loadSubmitView i = query_row (reads (\<lambda>d. map_option submit_view (job_of d i)))"

text \<open>
  The lookup of the key: \<open>Inl\<close> the answer that ends the request, or \<open>Inr\<close> to go on with the insert.
\<close>

definition check_idem :: "string \<Rightarrow> uuid \<Rightarrow> string \<Rightarrow> timestamptz \<Rightarrow> (submitView result + unit) atx" where
  "check_idem fp q key now =
    (if key = '''' then aret (Inr ())
     else abind (exec_sql (find_idem q key now)) (\<lambda>row.
       case row of
         None \<Rightarrow> aret (Inr ())
       | Some (existing, storedFP, expired) \<Rightarrow>
           if \<not> expired then
             if storedFP \<noteq> fp then afail (conflict ''idempotency key reused with a different payload'')
             else abind (loadSubmitView existing) (\<lambda>v. aret (Inl (answer 200 (Some v) existing None)))
           else abind (exec_sql (delete_idem q key)) (\<lambda>_. aret (Inr ()))))"

fun parentIDs :: "api_lib \<Rightarrow> string list \<Rightarrow> uuid list atx" where
  "parentIDs lib [] = aret []"
| "parentIDs lib (p # ps) =
    (case parse_uuid (al_uuid lib) p of
       None \<Rightarrow> afail (badRequest ''invalid depends_on'')
     | Some i \<Rightarrow> abind (parentIDs lib ps) (\<lambda>is. aret (i # is)))"

definition pending_parents :: "uuid list \<Rightarrow> uuid \<Rightarrow> nat tx" where
  "pending_parents parents proj = reads (\<lambda>d.
     count_where (\<lambda>j. j_id j \<in> set parents \<and> j_project_id j = proj \<and> \<not> terminal (j_status j)) (jobs d))"

definition submitted_job :: "uuid \<Rightarrow> uuid \<Rightarrow> uuid \<Rightarrow> string \<Rightarrow> string \<Rightarrow> int \<Rightarrow> timestamptz option \<Rightarrow> int \<Rightarrow> uuid \<Rightarrow> nat \<Rightarrow> timestamptz \<Rightarrow> job" where
  "submitted_job i q proj typ payload priority runAt timeout policy pending now =
    (let run = coalesce runAt now in
     (new_job i proj q typ payload (if 0 < pending \<or> now < run then Scheduled else Queued) run policy now)
       \<lparr>j_priority := priority, j_timeout_ms := timeout, j_pending_deps := int pending\<rparr>)"

definition insert_submitted :: "job \<Rightarrow> job tx" where
  "insert_submitted j d = rbind (insert_job j d) (\<lambda>d1. Inr (j, d1))"

text \<open>\<open>insert into job_dependencies select unnest($1), $2\<close>, row by row; the references are checked at the end.\<close>

fun insert_deps_rows :: "uuid \<Rightarrow> uuid list \<Rightarrow> (uuid \<times> uuid) list \<Rightarrow> pg_error + (uuid \<times> uuid) list" where
  "insert_deps_rows child [] deps = Inr deps"
| "insert_deps_rows child (p # ps) deps =
    (if p = child then Inl check_violation
     else if (p, child) \<in> set deps then Inl unique_violation
     else insert_deps_rows child ps (deps @ [(p, child)]))"

definition insert_deps :: "uuid \<Rightarrow> uuid list \<Rightarrow> unit tx" where
  "insert_deps child parents d =
     rbind (insert_deps_rows child parents (job_dependencies d)) (\<lambda>deps.
       if \<forall>p \<in> set (child # parents). job_of d p \<noteq> None then Inr ((), d\<lparr>job_dependencies := deps\<rparr>) else Inl fk_violation)"

text \<open>
  \<open>cycleSQL\<close>: the rows of the recursive query are a node above the child and the path to it. A path has no
  node twice, so there are at most as many levels as edges.
\<close>

definition up_step :: "(uuid \<times> uuid) list \<Rightarrow> (uuid \<times> uuid list) list \<Rightarrow> (uuid \<times> uuid list) list" where
  "up_step deps rows =
     concat (map (\<lambda>(i, path). map (\<lambda>(p, c). (p, path @ [c])) (filter (\<lambda>(p, c). c = i \<and> p \<notin> set path) deps)) rows)"

fun up_from :: "nat \<Rightarrow> (uuid \<times> uuid) list \<Rightarrow> (uuid \<times> uuid list) list \<Rightarrow> (uuid \<times> uuid list) list" where
  "up_from 0 deps rows = rows"
| "up_from (Suc n) deps rows = rows @ (if rows = [] then [] else up_from n deps (up_step deps rows))"

definition cycle_sql :: "uuid \<Rightarrow> bool tx" where
  "cycle_sql child = reads (\<lambda>d. child \<in> fst ` set (up_from (length (job_dependencies d)) (job_dependencies d)
     (map (\<lambda>(p, c). (p, [child])) (filter (\<lambda>(p, c). c = child) (job_dependencies d)))))"

definition link :: "uuid \<Rightarrow> uuid list \<Rightarrow> unit atx" where
  "link child parents =
     abind (on_error isFKViolation (Api (badRequest ''depends_on names a job that does not exist''))
             (on_error isCheck (Api (badRequest ''a job cannot depend on itself'')) (exec_sql (insert_deps child parents)))) (\<lambda>_.
     abind (exec_sql (cycle_sql child)) (\<lambda>cycle.
       if cycle then afail (badRequest ''depends_on would create a cycle'') else aret ()))"

text \<open>The rest of \<open>submitJob\<close> once the key is known to be free: parents, job row, key, edges, event.\<close>

definition submit_new :: "api_lib \<Rightarrow> bool \<Rightarrow> uuid \<Rightarrow> string \<Rightarrow> string \<Rightarrow> string \<Rightarrow> string \<Rightarrow> int \<Rightarrow> int \<Rightarrow> uuid \<Rightarrow> submitReq \<Rightarrow> scope \<Rightarrow> timestamptz \<Rightarrow>
    submitView result atx" where
  "submit_new lib race i key fp typ payload priority timeout policy req sc now =
    (let q = sc_entityID sc; proj = sc_projectID sc in
     abind (parentIDs lib (sq_DependsOn req)) (\<lambda>parents.
     abind (exec_sql (pending_parents parents proj)) (\<lambda>pending.
     abind (exec_sql (insert_submitted (submitted_job i q proj typ payload priority (sq_RunAt req) timeout policy pending now))) (\<lambda>j.
     abind (if key = '''' then aret () else on_error isUnique ConflictRetry (exec_sql (insert_idem race q key i fp now))) (\<lambda>_.
     abind (if parents = [] then aret () else link i parents) (\<lambda>_.
     abind (api_emit ''job.submitted'' i proj [(''status'', JString (status_text (j_status j))), (''type'', JString typ)] now) (\<lambda>_.
     aret (answer 201 (Some (submit_view j)) i None))))))))"

definition submitJob :: "api_lib \<Rightarrow> bool \<Rightarrow> uuid \<Rightarrow> (submitReq, submitView) scoped" where
  "submitJob lib race i r sc now =
     abind (decode r) (\<lambda>req.
     let typ = trim_space (sq_Type req);
         payload = (if sq_Payload req = '''' then ''{}'' else sq_Payload req);
         q = sc_entityID sc;
         key = trim_space (rq_header r ''Idempotency-Key'')
     in if typ = '''' then afail (badRequest ''type required'')
     else if \<not> al_json_valid lib payload then afail (badRequest ''payload is not valid json'')
     else abind (query_row (queue_defaults q)) (\<lambda>(defPolicy, defPriority, maxDepth).
     let priority = coalesce (sq_Priority req) defPriority; timeout = coalesce (sq_TimeoutMs req) 300000
     in abind (choose_policy lib (sq_RetryPolicyID req) defPolicy (sc_projectID sc)) (\<lambda>policy.
     let fp = fingerprint lib typ payload priority timeout (uuid_text (al_uuid lib) policy) (sq_RunAt req)
     in abind (exec_sql (queued_count q)) (\<lambda>depth.
     if maxDepth \<noteq> None \<and> sq_RunAt req = None \<and> the maxDepth \<le> int depth then afail (tooMany ''queue depth cap reached'' 1)
     else abind (check_idem fp q key now) (\<lambda>seen.
     case seen of
       Inl res \<Rightarrow> aret res
     | Inr _ \<Rightarrow> submit_new lib race i key fp typ payload priority timeout policy req sc now)))))"

section \<open>Submitting a batch\<close>

definition batch_job :: "uuid \<Rightarrow> uuid \<Rightarrow> uuid \<Rightarrow> uuid \<Rightarrow> int \<Rightarrow> timestamptz \<Rightarrow> uuid \<Rightarrow> submitReq \<Rightarrow> job" where
  "batch_job q proj policy batch defPriority now i s =
    (let run = coalesce (sq_RunAt s) now in
     (new_job i proj q (trim_space (sq_Type s)) (if sq_Payload s = '''' then ''{}'' else sq_Payload s)
        (if now < run then Scheduled else Queued) run policy now)
       \<lparr>j_priority := coalesce (sq_Priority s) defPriority, j_timeout_ms := coalesce (sq_TimeoutMs s) 300000, j_batch_id := Some batch\<rparr>)"

fun check_batch :: "api_lib \<Rightarrow> submitReq list \<Rightarrow> unit atx" where
  "check_batch lib [] = aret ()"
| "check_batch lib (s # ss) =
    (if trim_space (sq_Type s) = '''' then afail (badRequest ''each job requires a type'')
     else if \<not> al_json_valid lib (if sq_Payload s = '''' then ''{}'' else sq_Payload s) then afail (badRequest ''a job payload is not valid json'')
     else check_batch lib ss)"

definition insert_batch :: "job list \<Rightarrow> uuid list tx" where
  "insert_batch js d = rbind (foldr_result insert_job js d) (\<lambda>d1. Inr (map j_id js, d1))"

text \<open>The body: the batch, its size and the ids of its jobs.\<close>

definition submitBatch :: "api_lib \<Rightarrow> uuid \<Rightarrow> (nat \<Rightarrow> uuid) \<Rightarrow> (submitReq list, uuid \<times> nat \<times> uuid list) scoped" where
  "submitBatch lib batch newid r sc now =
     abind (decode r) (\<lambda>reqs.
     if reqs = [] then afail (badRequest ''jobs required'')
     else if 1000 < length reqs then afail (badRequest ''batch limited to 1000 jobs'')
     else abind (query_row (queue_defaults (sc_entityID sc))) (\<lambda>(defPolicy, defPriority, maxDepth).
     abind (exec_sql (queued_count (sc_entityID sc))) (\<lambda>depth.
     if maxDepth \<noteq> None \<and> the maxDepth < int depth + int (length reqs) then afail (tooMany ''queue depth cap reached'' 1)
     else abind (check_batch lib reqs) (\<lambda>_.
     abind (exec_sql (insert_batch (map (\<lambda>(n, s). batch_job (sc_entityID sc) (sc_projectID sc) defPolicy batch defPriority now (newid n) s)
               (enumerate 0 reqs)))) (\<lambda>ids.
     abind (api_emit ''batch.submitted'' batch (sc_projectID sc) [(''count'', JInt (int (length ids)))] now) (\<lambda>_.
     aret (answer 201 (Some (batch, length ids, ids)) batch None)))))))"

section \<open>Listing and reading\<close>

definition list_item :: "job \<Rightarrow> jobListItem" where
  "list_item j = \<lparr>li_ID = j_id j, li_QueueID = j_queue_id j, li_Type = j_type j, li_Status = status_text (j_status j),
     li_Priority = j_priority j, li_AttemptCount = j_attempt_count j, li_ReplayGeneration = j_replay_generation j,
     li_RunAt = j_run_at j, li_CreatedAt = j_created_at j, li_BatchID = j_batch_id j\<rparr>"

definition created_id :: "job \<Rightarrow> timestamptz \<times> uuid" where
  "created_id j = (j_created_at j, j_id j)"

definition nonempty :: "string \<Rightarrow> string option" where
  "nonempty v = (if v = '''' then None else Some v)"

definition job_query :: "uuid \<Rightarrow> string option \<Rightarrow> string option \<Rightarrow> uuid option \<Rightarrow> job query" where
  "job_query proj status typ queue =
     qb_eq_opt j_queue_id queue (qb_eq_opt j_type typ (qb_eq_opt (\<lambda>j. status_text (j_status j)) status (qb_eq j_project_id proj [])))"

text \<open>The body of a list: its items and the cursor of the next page, empty at the end.\<close>

definition listJobs :: "api_lib \<Rightarrow> ('q, jobListItem list \<times> string) scoped" where
  "listJobs lib r sc now =
    (let status = nonempty (rq_query r ''status'');
         typ = nonempty (rq_query r ''type'');
         queue = nonempty (rq_query r ''queue'')
     in if status \<noteq> None \<and> the status \<notin> set jobStatuses then afail (badRequest ''invalid status'')
     else if queue \<noteq> None \<and> parse_uuid (al_uuid lib) (the queue) = None then afail (badRequest ''invalid queue'')
     else case decodeCursor (al_uuid lib) (al_time lib) (rq_query r ''cursor'') of
       Inl e \<Rightarrow> afail e
     | Inr cursor \<Rightarrow>
         abind (exec_sql (reads (\<lambda>d. map list_item
           (qb_build created_id (pageLimit r)
              (qb_before created_id cursor (job_query (sc_projectID sc) status typ (Option.bind queue (parse_uuid (al_uuid lib))))) (jobs d))))) (\<lambda>out.
         aret (answer 0 (Some (out,
           if int (length out) = pageLimit r
           then encodeCursor (al_uuid lib) (al_time lib) (li_CreatedAt (last out)) (li_ID (last out)) else '''')) 0 None)))"

definition kin :: "(uuid \<times> uuid \<Rightarrow> bool) \<Rightarrow> (uuid \<times> uuid \<Rightarrow> uuid) \<Rightarrow> kinView list tx" where
  "kin mine other = reads (\<lambda>d.
     map (\<lambda>j. \<lparr>kv_ID = j_id j, kv_Type = j_type j, kv_Status = status_text (j_status j)\<rparr>)
       (sort_key j_id (List.map_filter (\<lambda>e. job_of d (other e)) (filter mine (job_dependencies d)))))"

text \<open>The executions of a job in order, each with its log lines by time.\<close>

definition loadExecutions :: "uuid \<Rightarrow> (execution \<times> log_row list) list tx" where
  "loadExecutions i = reads (\<lambda>d.
     map (\<lambda>x. (x, sort_key g_ts (filter (\<lambda>l. g_execution_id l = x_id x) (job_logs d))))
       (sort_key (\<lambda>x. (x_replay_generation x, x_attempt x)) (filter (\<lambda>x. x_job_id x = i) (job_executions d))))"

record job_body =
  jb_job :: job
  jb_executions :: "(execution \<times> log_row list) list"
  jb_parents :: "kinView list"
  jb_children :: "kinView list"
  jb_lease :: "(string option \<times> timestamptz) option"

definition getJob :: "('q, job_body) scoped" where
  "getJob r sc now =
     abind (on_no_rows (notFound ''job'') (query_row (reads (\<lambda>d. job_of d (sc_entityID sc))))) (\<lambda>j.
     abind (exec_sql (loadExecutions (j_id j))) (\<lambda>execs.
     abind (exec_sql (kin (\<lambda>(p, c). c = j_id j) fst)) (\<lambda>parents.
     abind (exec_sql (kin (\<lambda>(p, c). p = j_id j) snd)) (\<lambda>children.
     abind (exec_sql (reads (\<lambda>d. map_option (\<lambda>l. (l_progress l, l_expires_at l)) (lease_of d (j_id j))))) (\<lambda>lease.
     aret (answer 0 (Some \<lparr>jb_job = j, jb_executions = execs, jb_parents = parents, jb_children = children, jb_lease = lease\<rparr>) 0 None))))))"

section \<open>Cancelling and retrying\<close>

definition cancelled_row :: "timestamptz \<Rightarrow> job \<Rightarrow> job" where
  "cancelled_row now j = j\<lparr>j_status := Cancelled, j_finished_at := Some now, j_worker_id := None\<rparr>"

text \<open>The row as it was, and whether it was cancelled.\<close>

definition cancel_sql :: "uuid \<Rightarrow> timestamptz \<Rightarrow> (job \<times> bool) option tx" where
  "cancel_sql i now d =
    (case job_of d i of
       None \<Rightarrow> Inr (None, d)
     | Some j \<Rightarrow>
         rbind (update_jobs (\<lambda>k. j_id k = i \<and> \<not> terminal (j_status j)) (cancelled_row now) d)
           (\<lambda>d1. Inr (Some (j, \<not> terminal (j_status j)), d1)))"

definition cancel_exec :: "uuid \<Rightarrow> timestamptz \<Rightarrow> unit tx" where
  "cancel_exec i now d =
     rbind (update_execs (\<lambda>x. x_job_id x = i \<and> is_open x) (close_plain X_cancelled now) d) (\<lambda>d1. Inr ((), d1))"

definition cancel_lease :: "uuid \<Rightarrow> unit tx" where
  "cancel_lease i d = Inr ((), d\<lparr>job_leases := delete_where (\<lambda>l. l_job_id l = i) (job_leases d)\<rparr>)"

text \<open>The body: the job, its new status and the one it had.\<close>

definition cancelJob :: "('q, uuid \<times> string \<times> string) scoped" where
  "cancelJob r sc now =
     abind (on_no_rows (notFound ''job'') (query_row (cancel_sql (sc_entityID sc) now))) (\<lambda>(j, cancelled).
     let old = status_text (j_status j) in
     if \<not> cancelled then afail (conflict (''job is already in a terminal state: '' @ old))
     else abind (if old = ''claimed'' \<or> old = ''running''
       then abind (exec_sql (cancel_exec (sc_entityID sc) now)) (\<lambda>_.
            abind (exec_sql (cancel_lease (sc_entityID sc))) (\<lambda>_.
            exec_sql (\<lambda>d. Inr ((), queue_release (j_queue_id j) (j_shard j) 1 d))))
       else aret ()) (\<lambda>_.
     abind (api_emit ''job.cancelled'' (sc_entityID sc) (j_project_id j) [(''from'', JString old)] now) (\<lambda>_.
     aret (answer 0 (Some (sc_entityID sc, ''cancelled'', old)) 0 (Some [(''from'', JString old)])))))"

definition retriable :: "uuid \<Rightarrow> job \<Rightarrow> bool" where
  "retriable i j \<longleftrightarrow> j_id j = i \<and> j_status j \<in> {Retry_wait, Scheduled} \<and> j_pending_deps j = 0"

definition retry_sql :: "uuid \<Rightarrow> timestamptz \<Rightarrow> string option tx" where
  "retry_sql i now d =
    (case find (retriable i) (jobs d) of
       None \<Rightarrow> Inr (None, d)
     | Some j \<Rightarrow> rbind (update_jobs (retriable i) (\<lambda>j. j\<lparr>j_status := Queued, j_run_at := now\<rparr>) d) (\<lambda>d1. Inr (Some ''queued'', d1)))"

definition retryJob :: "('q, uuid \<times> string) scoped" where
  "retryJob r sc now =
     abind (on_no_rows (conflict ''job is not waiting to retry'') (query_row (retry_sql (sc_entityID sc) now))) (\<lambda>status.
     abind (api_emit ''job.retried'' (sc_entityID sc) (sc_projectID sc) [(''status'', JString status)] now) (\<lambda>_.
     aret (answer 0 (Some (sc_entityID sc, status)) 0 None)))"

section \<open>The cycle check\<close>

lemma up_step_rows:
  assumes "\<forall>(p, path) \<in> set rows. p \<noteq> child \<and> child \<in> set path"
  shows "\<forall>(p, path) \<in> set (up_step deps rows). p \<noteq> child \<and> child \<in> set path"
  using assms by (fastforce simp: up_step_def)

lemma up_from_rows:
  assumes "\<forall>(p, path) \<in> set rows. p \<noteq> child \<and> child \<in> set path"
  shows "\<forall>(p, path) \<in> set (up_from n deps rows). p \<noteq> child \<and> child \<in> set path"
  using assms
proof (induction n arbitrary: rows)
  case (Suc n)
  from Suc.IH [OF up_step_rows [OF Suc.prems]] Suc.prems show ?case by auto
qed simp

lemma cycle_sql_false:
  assumes "(child, child) \<notin> set (job_dependencies d)"
  shows "cycle_sql child d = Inr (False, d)"
proof -
  let ?rows = "map (\<lambda>(p, c). (p, [child])) (filter (\<lambda>(p, c). c = child) (job_dependencies d))"
  have "\<forall>(p, path) \<in> set ?rows. p \<noteq> child \<and> child \<in> set path" using assms by auto
  from up_from_rows [OF this] show ?thesis by (fastforce simp: cycle_sql_def)
qed

text \<open>
  The cycle check of \<open>link\<close> never finds a cycle. The recursive query starts every path with the new job and does
  not step onto a node of its own path, so it can only see the job itself as its own direct parent, which
  the table's check constraint rules out before: whatever edges there are, a real cycle through the job
  included, the check answers no.
\<close>

theorem cycle_check_never_fires:
  assumes "deps_ok d"
  shows "cycle_sql child d = Inr (False, d)"
  using assms by (intro cycle_sql_false) (auto simp: deps_ok_def)

theorem cycle_check_never_fires_witness:
  "cycle_sql 12 (sample_db\<lparr>job_dependencies := [(11, 12), (12, 11)]\<rparr>) = Inr (False, sample_db\<lparr>job_dependencies := [(11, 12), (12, 11)]\<rparr>)"
  by (rule cycle_check_never_fires) (simp add: deps_ok_def)

section \<open>Cancelling\<close>

lemma try_update_Inl:
  assumes "\<forall>r \<in> set rs. P r \<longrightarrow> w r = Inl e" and "\<exists>r \<in> set rs. P r"
  shows "try_update P w rs = Inl e"
  using assms
proof (induction rs)
  case (Cons a rs)
  then show ?case by (cases "P a") auto
qed simp

lemma status_text_active: "status_text s = ''claimed'' \<or> status_text s = ''running'' \<longleftrightarrow> active s"
  by (cases s) simp_all

lemma cancelled_row_ok:
  "check_job j \<Longrightarrow> \<not> terminal (j_status j) \<Longrightarrow> j_pending_deps j = 0 \<Longrightarrow> write_ok j (cancelled_row now j)"
  by (cases "j_status j") (auto simp: write_ok_def check_job_def cancelled_row_def)

lemma cancelled_row_refused:
  "check_job j \<Longrightarrow> \<not> terminal (j_status j) \<Longrightarrow> j_pending_deps j \<noteq> 0 \<Longrightarrow> write_job j (cancelled_row now j) = Inl check_violation"
  by (cases "j_status j") (auto simp: write_job_def jobs_fsm_def check_job_def cancelled_row_def)

lemma cancel_sql_refused:
  assumes "jobs_wf d" and "job_of d i = Some j" and "\<not> terminal (j_status j)" and "j_pending_deps j \<noteq> 0"
  shows "cancel_sql i now d = Inl check_violation"
proof -
  have j: "j \<in> set (jobs d)" "j_id j = i" using lookup_row_SomeD [OF assms(2)] by auto
  have "try_update (\<lambda>k. j_id k = i \<and> \<not> terminal (j_status j)) (\<lambda>k. write_job k (cancelled_row now k)) (jobs d) = Inl check_violation"
  proof (rule try_update_Inl)
    show "\<exists>r \<in> set (jobs d). j_id r = i \<and> \<not> terminal (j_status j)" using j assms(3) by blast
    have "k = j" if "k \<in> set (jobs d)" "j_id k = i" for k using jobs_wfD(4) [OF assms(1) that(1) j(1)] that j by simp
    then show "\<forall>r \<in> set (jobs d). j_id r = i \<and> \<not> terminal (j_status j) \<longrightarrow> write_job r (cancelled_row now r) = Inl check_violation"
      using cancelled_row_refused [of j now] jobs_wfD(2) [OF assms(1) j(1)] assms(3,4) by blast
  qed
  then show ?thesis using assms(2) by (simp add: cancel_sql_def update_jobs_def)
qed

lemma cancel_sql_done:
  assumes "jobs_wf d" and "job_of d i = Some j" and "\<not> terminal (j_status j)" and "j_pending_deps j = 0"
  shows "cancel_sql i now d = Inr (Some (j, True), d\<lparr>jobs := update_where (\<lambda>k. j_id k = i) (cancelled_row now) (jobs d)\<rparr>)"
proof -
  have j: "j \<in> set (jobs d)" "j_id j = i" using lookup_row_SomeD [OF assms(2)] by auto
  have "k = j" if "k \<in> set (jobs d)" "j_id k = i" for k using jobs_wfD(4) [OF assms(1) that(1) j(1)] that j by simp
  then have "update_jobs (\<lambda>k. j_id k = i) (cancelled_row now) d = Inr (d\<lparr>jobs := update_where (\<lambda>k. j_id k = i) (cancelled_row now) (jobs d)\<rparr>)"
    using cancelled_row_ok [of j now] jobs_wfD(2) [OF assms(1) j(1)] assms(3,4) by (intro update_jobs_ok) blast
  then show ?thesis using assms(2,3) by (simp add: cancel_sql_def)
qed

lemma cancel_sql_terminal:
  assumes "job_of d i = Some j" and "terminal (j_status j)"
  shows "cancel_sql i now d = Inr (Some (j, False), d)"
  using assms by (simp add: cancel_sql_def update_jobs_def try_update_ok [where f = id] update_where_def)

lemma job_of_cancelled:
  "lookup_row j_id k (update_where (\<lambda>k. j_id k = i) (cancelled_row now) js) =
    map_option (\<lambda>j. if j_id j = i then cancelled_row now j else j) (lookup_row j_id k js)"
  by (rule job_of_update) (simp add: cancelled_row_def)

lemma cancel_live:
  assumes wf: "tables_wf now d" and j: "job_of d (sc_entityID sc) = Some j" and nt: "\<not> terminal (j_status j)" and p0: "j_pending_deps j = 0"
  shows "\<exists>res d'. cancelJob r sc now d = Inr (res, d') \<and>
    jobs d' = update_where (\<lambda>k. j_id k = sc_entityID sc) (cancelled_row now) (jobs d) \<and>
    (active (j_status j) \<longrightarrow> job_leases d' = delete_where (\<lambda>l. l_job_id l = sc_entityID sc) (job_leases d) \<and>
      job_executions d' = update_where (\<lambda>x. x_job_id x = sc_entityID sc \<and> is_open x) (close_plain X_cancelled now) (job_executions d) \<and>
      queue_shards d' = queue_shards (queue_release (j_queue_id j) (j_shard j) 1 d)) \<and>
    (\<not> active (j_status j) \<longrightarrow> job_leases d' = job_leases d \<and> job_executions d' = job_executions d \<and> queue_shards d' = queue_shards d)"
proof -
  note t = tables_wfD [OF wf]
  let ?i = "sc_entityID sc"
  let ?d1 = "d\<lparr>jobs := update_where (\<lambda>k. j_id k = ?i) (cancelled_row now) (jobs d)\<rparr>"
  let ?X = "update_where (\<lambda>x. x_job_id x = ?i \<and> is_open x) (close_plain X_cancelled now) (job_executions d)"
  have sql: "cancel_sql ?i now d = Inr (Some (j, True), ?d1)" by (rule cancel_sql_done [OF t(1) j nt p0])
  have "update_execs (\<lambda>x. x_job_id x = ?i \<and> is_open x) (close_plain X_cancelled now) ?d1 = Inr (?d1\<lparr>job_executions := ?X\<rparr>)"
    using close_ok(2) [OF t(2,3)] by (subst close_execs_eq [where xs = "job_executions d"]) auto
  then have ex: "cancel_exec ?i now ?d1 = Inr ((), ?d1\<lparr>job_executions := ?X\<rparr>)" by (simp add: cancel_exec_def)
  show ?thesis
  proof (cases "active (j_status j)")
    case True
    then show ?thesis using sql ex status_text_active [of "j_status j"]
      by (simp add: cancelJob_def cancel_lease_def queue_release_def Let_def)
  next
    case False
    then show ?thesis using sql status_text_active [of "j_status j"] by (simp add: cancelJob_def Let_def)
  qed
qed

lemma cancelled_rows:
  assumes j: "job_of d i = Some j" and js: "jobs d' = update_where (\<lambda>k. j_id k = i) (cancelled_row now) (jobs d)"
  shows "job_of d' i = Some (j\<lparr>j_status := Cancelled, j_finished_at := Some now, j_worker_id := None\<rparr>)"
    "k \<noteq> i \<Longrightarrow> job_of d' k = job_of d k" "find (reportable i f) (jobs d') = None"
proof -
  have "j_id j = i" using lookup_row_SomeD [OF j] by simp
  then show "job_of d' i = Some (j\<lparr>j_status := Cancelled, j_finished_at := Some now, j_worker_id := None\<rparr>)"
    using j by (simp add: js job_of_cancelled cancelled_row_def)
  show "k \<noteq> i \<Longrightarrow> job_of d' k = job_of d k"
    by (auto simp: js job_of_cancelled map_option_case split: option.split dest: lookup_row_SomeD)
  show "find (reportable i f) (jobs d') = None"
    unfolding js find_None_iff in_update_where_iff reportable_def by (rule notI, elim exE disjE conjE bexE) (simp_all add: cancelled_row_def)
qed

lemma none_open: "x \<in> set (update_where (\<lambda>x. x_job_id x = i \<and> is_open x) (close_plain o' now) xs) \<Longrightarrow> x_job_id x = i \<Longrightarrow> x_finished_at x \<noteq> None"
  unfolding in_update_where_iff by (elim disjE bexE conjE) (simp_all add: close_plain_def)



section \<open>Submitting\<close>

lemma parentIDs_Inr: "parentIDs lib ps d = Inr (is, d') \<Longrightarrow> d' = d \<and> map (parse_uuid (al_uuid lib)) ps = map Some is"
proof (induction ps arbitrary: "is")
  case (Cons p ps)
  then show ?case by (auto simp: atx_simps split: option.splits)
qed simp

lemma insert_deps_rows_Inr:
  "insert_deps_rows child ps deps = Inr deps' \<Longrightarrow> deps' = deps @ map (\<lambda>p. (p, child)) ps \<and> child \<notin> set ps \<and> distinct ps"
proof (induction ps arbitrary: deps)
  case (Cons p ps)
  have ok: "p \<noteq> child" "(p, child) \<notin> set deps" "insert_deps_rows child ps (deps @ [(p, child)]) = Inr deps'"
    using Cons.prems by (auto split: if_splits)
  have "p \<notin> set ps"
  proof
    assume "p \<in> set ps"
    have "insert_deps_rows child qs es = Inr e' \<Longrightarrow> p \<in> set qs \<Longrightarrow> (p, child) \<in> set es \<Longrightarrow> False" for qs es e'
    proof (induction qs arbitrary: es)
      case (Cons a qs)
      have "insert_deps_rows child qs (es @ [(a, child)]) = Inr e'" "a \<noteq> p" using Cons.prems by (auto split: if_splits)
      then show ?case using Cons.IH [of "es @ [(a, child)]"] Cons.prems by auto
    qed simp
    then show False using ok(3) \<open>p \<in> set ps\<close> by fastforce
  qed
  with Cons.IH [OF ok(3)] ok show ?case by auto
qed simp

lemma link_Inr:
  assumes "link child ps d = Inr (u, d')"
  shows "d' = d\<lparr>job_dependencies := job_dependencies d @ map (\<lambda>p. (p, child)) ps\<rparr>" "child \<notin> set ps" "\<forall>p \<in> set ps. job_of d p \<noteq> None"
proof -
  obtain x d1 where d1: "insert_deps child ps d = Inr (x, d1)" and d2: "d' = d1"
    using assms by (auto simp: link_def atx_simps cycle_sql_def split: if_splits)
  from d1 obtain deps where deps: "insert_deps_rows child ps (job_dependencies d) = Inr deps" "d1 = d\<lparr>job_dependencies := deps\<rparr>"
    and refs: "\<forall>p \<in> set ps. job_of d p \<noteq> None"
    by (auto simp: insert_deps_def result_simps split: if_splits)
  note r = insert_deps_rows_Inr [OF deps(1)]
  show "d' = d\<lparr>job_dependencies := job_dependencies d @ map (\<lambda>p. (p, child)) ps\<rparr>" using r deps d2 by simp
  show "child \<notin> set ps" using r by simp
  show "\<forall>p \<in> set ps. job_of d p \<noteq> None" by (rule refs)
qed

text \<open>What a successful insert leaves.\<close>

definition new_keys :: "uuid \<Rightarrow> string \<Rightarrow> uuid \<Rightarrow> string \<Rightarrow> timestamptz \<Rightarrow> idempotency_key list" where
  "new_keys q key i fp now = (if key = '''' then []
     else [\<lparr>k_queue_id = q, k_key = key, k_job_id = i, k_fingerprint = fp, k_expires_at = now + idem_ttl\<rparr>])"

lemma submit_new_Inr:
  assumes "submit_new lib race i key fp typ payload priority timeout policy req sc now d = Inr (res, d')"
  shows "\<exists>parents pending. map (parse_uuid (al_uuid lib)) (sq_DependsOn req) = map Some parents \<and> i \<notin> set parents \<and>
    pending = count_where (\<lambda>j. j_id j \<in> set parents \<and> j_project_id j = sc_projectID sc \<and> \<not> terminal (j_status j)) (jobs d) \<and>
    (let j = submitted_job i (sc_entityID sc) (sc_projectID sc) typ payload priority (sq_RunAt req) timeout policy pending now in
     res = answer 201 (Some (submit_view j)) i None \<and> insert_job j d = Inr (d\<lparr>jobs := jobs d @ [j]\<rparr>) \<and>
     (key \<noteq> '''' \<longrightarrow> \<not> race \<and> find (idem_is (sc_entityID sc) key) (idempotency_keys d) = None) \<and>
     d' = emit ''job.submitted'' i (sc_projectID sc) [(''status'', JString (status_text (j_status j))), (''type'', JString typ)] now
       (d\<lparr>jobs := jobs d @ [j], idempotency_keys := idempotency_keys d @ new_keys (sc_entityID sc) key i fp now,
          job_dependencies := job_dependencies d @ map (\<lambda>p. (p, i)) parents\<rparr>))"
proof -
  let ?q = "sc_entityID sc" and ?proj = "sc_projectID sc"
  obtain parents d0 where par: "parentIDs lib (sq_DependsOn req) d = Inr (parents, d0)"
    using assms unfolding submit_new_def Let_def abind_Inr by blast
  note p = parentIDs_Inr [OF par]
  define pending where "pending = count_where (\<lambda>j. j_id j \<in> set parents \<and> j_project_id j = ?proj \<and> \<not> terminal (j_status j)) (jobs d)"
  define j where "j = submitted_job i ?q ?proj typ payload priority (sq_RunAt req) timeout policy pending now"
  have pp: "pending_parents parents ?proj d = Inr (pending, d)" by (simp add: pending_parents_def pending_def)
  have "abind (exec_sql (insert_submitted j)) (\<lambda>j.
     abind (if key = '''' then aret () else on_error isUnique ConflictRetry (exec_sql (insert_idem race ?q key i fp now))) (\<lambda>_.
     abind (if parents = [] then aret () else link i parents) (\<lambda>_.
     abind (api_emit ''job.submitted'' i ?proj [(''status'', JString (status_text (j_status j))), (''type'', JString typ)] now) (\<lambda>_.
     aret (answer 201 (Some (submit_view j)) i None))))) d = Inr (res, d')"
    using assms par p pp by (simp add: submit_new_def Let_def j_def)
  then obtain d1 d2 d3 where
    ins: "insert_job j d = Inr d1"
    and idem: "(if key = '''' then aret () else on_error isUnique ConflictRetry (exec_sql (insert_idem race ?q key i fp now))) d1 = Inr ((), d2)"
    and lnk: "(if parents = [] then aret () else link i parents) d2 = Inr ((), d3)"
    and fin: "res = answer 201 (Some (submit_view j)) i None"
      "d' = emit ''job.submitted'' i ?proj [(''status'', JString (status_text (j_status j))), (''type'', JString typ)] now d3"
    by (auto simp: abind_Inr exec_sql_Inr insert_submitted_def result_simps)
  have d1: "d1 = d\<lparr>jobs := jobs d @ [j]\<rparr>" using ins by (simp add: insert_job_def split: if_splits)
  have d2: "d2 = d1\<lparr>idempotency_keys := idempotency_keys d1 @ new_keys ?q key i fp now\<rparr> \<and>
      (key \<noteq> '''' \<longrightarrow> \<not> race \<and> find (idem_is ?q key) (idempotency_keys d1) = None)"
    using idem by (auto simp: new_keys_def insert_idem_def atx_simps find_None_iff split: if_splits)
  have d3: "d3 = d2\<lparr>job_dependencies := job_dependencies d2 @ map (\<lambda>p. (p, i)) parents\<rparr> \<and> i \<notin> set parents"
    using lnk link_Inr [of i parents d2 "()" d3] by (auto split: if_splits)
  show ?thesis
    using p ins d1 d2 d3 fin by (intro exI [of _ parents] exI [of _ pending]) (simp add: pending_def j_def Let_def)
qed

text \<open>The fingerprint a request has on a queue with these defaults.\<close>

definition request_fp :: "api_lib \<Rightarrow> submitReq \<Rightarrow> int \<Rightarrow> uuid \<Rightarrow> string" where
  "request_fp lib req defPriority policy =
     fingerprint lib (trim_space (sq_Type req)) (if sq_Payload req = '''' then ''{}'' else sq_Payload req)
       (coalesce (sq_Priority req) defPriority) (coalesce (sq_TimeoutMs req) 300000) (uuid_text (al_uuid lib) policy) (sq_RunAt req)"

lemma choose_policy_Inr:
  "choose_policy lib req defPolicy proj d = Inr (p, d') \<Longrightarrow> d' = d \<and>
     (case req of None \<Rightarrow> p = defPolicy | Some s \<Rightarrow> parse_uuid (al_uuid lib) s = Some p \<and> (\<exists>rp \<in> set (retry_policies d). p_id rp = p \<and> p_project_id rp = proj))"
  by (auto simp: choose_policy_def assertPolicyOwned_def atx_simps split: option.splits if_splits)

lemma submitJob_Inr:
  assumes "submitJob lib race i r sc now d = Inr (res, d')"
  shows "\<exists>req q policy d1. rq_body r = Some req \<and> trim_space (sq_Type req) \<noteq> '''' \<and>
    al_json_valid lib (if sq_Payload req = '''' then ''{}'' else sq_Payload req) \<and> queue_of d (sc_entityID sc) = Some q \<and>
    choose_policy lib (sq_RetryPolicyID req) (q_retry_policy_id q) (sc_projectID sc) d = Inr (policy, d) \<and>
    (let key = trim_space (rq_header r ''Idempotency-Key''); fp = request_fp lib req (q_default_priority q) policy in
     (check_idem fp (sc_entityID sc) key now d = Inr (Inl res, d')) \<or>
     (check_idem fp (sc_entityID sc) key now d = Inr (Inr (), d1) \<and>
      submit_new lib race i key fp (trim_space (sq_Type req)) (if sq_Payload req = '''' then ''{}'' else sq_Payload req)
        (coalesce (sq_Priority req) (q_default_priority q)) (coalesce (sq_TimeoutMs req) 300000) policy req sc now d1 = Inr (res, d')))"
proof -
  obtain req where req: "rq_body r = Some req"
    using assms by (cases "rq_body r") (auto simp: submitJob_def decode_def abind_def)
  have c1: "trim_space (sq_Type req) \<noteq> ''''" "al_json_valid lib (if sq_Payload req = '''' then ''{}'' else sq_Payload req)"
    using assms req by (auto simp: submitJob_def decode_def abind_def Let_def split: if_splits)
  obtain q where q: "queue_of d (sc_entityID sc) = Some q"
    using assms req c1 by (cases "queue_of d (sc_entityID sc)") (auto simp: submitJob_def decode_def Let_def queue_defaults_def)
  obtain policy d0 where pol: "choose_policy lib (sq_RetryPolicyID req) (q_retry_policy_id q) (sc_projectID sc) d = Inr (policy, d0)"
    using assms req c1 q
    by (cases "choose_policy lib (sq_RetryPolicyID req) (q_retry_policy_id q) (sc_projectID sc) d")
      (auto simp: submitJob_def decode_def Let_def queue_defaults_def)
  then have pol: "choose_policy lib (sq_RetryPolicyID req) (q_retry_policy_id q) (sc_projectID sc) d = Inr (policy, d)"
    using choose_policy_Inr by blast
  let ?key = "trim_space (rq_header r ''Idempotency-Key'')" and ?fp = "request_fp lib req (q_default_priority q) policy"
  have "abind (check_idem ?fp (sc_entityID sc) ?key now) (\<lambda>seen. case seen of Inl res \<Rightarrow> aret res
     | Inr _ \<Rightarrow> submit_new lib race i ?key ?fp (trim_space (sq_Type req)) (if sq_Payload req = '''' then ''{}'' else sq_Payload req)
        (coalesce (sq_Priority req) (q_default_priority q)) (coalesce (sq_TimeoutMs req) 300000) policy req sc now) d = Inr (res, d')"
    using assms req c1 q pol unfolding request_fp_def
    by (simp add: submitJob_def decode_def Let_def queue_defaults_def queued_count_def split: if_split_asm)
  then obtain seen d1 where seen: "check_idem ?fp (sc_entityID sc) ?key now d = Inr (seen, d1)"
    and rest: "(case seen of Inl res \<Rightarrow> aret res
     | Inr _ \<Rightarrow> submit_new lib race i ?key ?fp (trim_space (sq_Type req)) (if sq_Payload req = '''' then ''{}'' else sq_Payload req)
        (coalesce (sq_Priority req) (q_default_priority q)) (coalesce (sq_TimeoutMs req) 300000) policy req sc now) d1 = Inr (res, d')"
    unfolding abind_Inr by blast
  have "check_idem ?fp (sc_entityID sc) ?key now d = Inr (Inl res, d') \<or>
     (check_idem ?fp (sc_entityID sc) ?key now d = Inr (Inr (), d1) \<and>
      submit_new lib race i ?key ?fp (trim_space (sq_Type req)) (if sq_Payload req = '''' then ''{}'' else sq_Payload req)
        (coalesce (sq_Priority req) (q_default_priority q)) (coalesce (sq_TimeoutMs req) 300000) policy req sc now d1 = Inr (res, d'))"
    using seen rest by (cases seen) auto
  then show ?thesis using req c1 q pol unfolding Let_def by blast
qed

lemma check_idem_Inr:
  assumes "check_idem fp q key now d = Inr (s, d')"
  shows "(s = Inr () \<and> d' = d\<lparr>idempotency_keys := (if key = '''' then idempotency_keys d
       else delete_where (idem_is q key) (idempotency_keys d))\<rparr>) \<or>
    (\<exists>k j. key \<noteq> '''' \<and> find (idem_is q key) (idempotency_keys d) = Some k \<and> now < k_expires_at k \<and> k_fingerprint k = fp \<and>
       job_of d (k_job_id k) = Some j \<and> s = Inl (answer 200 (Some (submit_view j)) (k_job_id k) None) \<and> d' = d)"
proof (cases "key = ''''")
  case True
  then show ?thesis using assms by (simp add: check_idem_def)
next
  case key: False
  show ?thesis
  proof (cases "find (idem_is q key) (idempotency_keys d)")
    case None
    then have "delete_where (idem_is q key) (idempotency_keys d) = idempotency_keys d"
      by (auto simp: delete_where_def find_None_iff intro: filter_True)
    then show ?thesis using assms key None by (simp add: check_idem_def find_idem_def)
  next
    case (Some k)
    show ?thesis
    proof (cases "k_expires_at k \<le> now")
      case True
      then show ?thesis using assms key Some by (simp add: check_idem_def find_idem_def delete_idem_def)
    next
      case False
      then show ?thesis using assms key Some
        by (auto simp: check_idem_def find_idem_def loadSubmitView_def atx_simps split: if_splits)
    qed
  qed
qed

lemma find_new_key:
  "key \<noteq> '''' \<Longrightarrow> find (idem_is q key) (delete_where (idem_is q key) ks @ new_keys q key i fp now) =
     Some \<lparr>k_queue_id = q, k_key = key, k_job_id = i, k_fingerprint = fp, k_expires_at = now + idem_ttl\<rparr>"
proof -
  assume key: "key \<noteq> ''''"
  have "find (idem_is q key) (delete_where (idem_is q key) ks @ xs) = find (idem_is q key) xs" for xs
    by (induction ks) auto
  then show ?thesis using key by (simp add: new_keys_def idem_is_def)
qed

lemma submit_key_stored:
  assumes "submitJob lib race i r sc now d = Inr (res, d1)" and "trim_space (rq_header r ''Idempotency-Key'') \<noteq> ''''"
    and "rq_body r = Some req" and "queue_of d (sc_entityID sc) = Some q"
  shows "\<exists>policy k. choose_policy lib (sq_RetryPolicyID req) (q_retry_policy_id q) (sc_projectID sc) d = Inr (policy, d) \<and>
    find (idem_is (sc_entityID sc) (trim_space (rq_header r ''Idempotency-Key''))) (idempotency_keys d1) = Some k \<and>
    k_job_id k = res_entityID res \<and> k_fingerprint k = request_fp lib req (q_default_priority q) policy"
proof -
  let ?key = "trim_space (rq_header r ''Idempotency-Key'')" and ?q = "sc_entityID sc"
  obtain policy d0 where pol: "choose_policy lib (sq_RetryPolicyID req) (q_retry_policy_id q) (sc_projectID sc) d = Inr (policy, d)"
    and two: "check_idem (request_fp lib req (q_default_priority q) policy) ?q ?key now d = Inr (Inl res, d1) \<or>
      (check_idem (request_fp lib req (q_default_priority q) policy) ?q ?key now d = Inr (Inr (), d0) \<and>
       submit_new lib race i ?key (request_fp lib req (q_default_priority q) policy) (trim_space (sq_Type req))
        (if sq_Payload req = '''' then ''{}'' else sq_Payload req)
        (coalesce (sq_Priority req) (q_default_priority q)) (coalesce (sq_TimeoutMs req) 300000) policy req sc now d0 = Inr (res, d1))"
    using submitJob_Inr [OF assms(1)] assms(3,4) unfolding Let_def by auto
  from two show ?thesis
  proof
    assume "check_idem (request_fp lib req (q_default_priority q) policy) ?q ?key now d = Inr (Inl res, d1)"
    from check_idem_Inr [OF this] show ?thesis using pol by (auto simp: answer_def)
  next
    assume a: "check_idem (request_fp lib req (q_default_priority q) policy) ?q ?key now d = Inr (Inr (), d0) \<and>
       submit_new lib race i ?key (request_fp lib req (q_default_priority q) policy) (trim_space (sq_Type req))
        (if sq_Payload req = '''' then ''{}'' else sq_Payload req)
        (coalesce (sq_Priority req) (q_default_priority q)) (coalesce (sq_TimeoutMs req) 300000) policy req sc now d0 = Inr (res, d1)"
    then have d0: "idempotency_keys d0 = delete_where (idem_is ?q ?key) (idempotency_keys d)"
      using check_idem_Inr assms(2) by fastforce
    from submit_new_Inr [OF conjunct2 [OF a]] have
      "res_entityID res = i" "idempotency_keys d1 = idempotency_keys d0 @ new_keys ?q ?key i (request_fp lib req (q_default_priority q) policy) now"
      by (auto simp: Let_def answer_def)
    then show ?thesis using pol d0 find_new_key [OF assms(2)] by simp
  qed
qed

lemma choose_policy_same:
  assumes "choose_policy lib req defPolicy proj d = Inr (p, d)" and "retry_policies d2 = retry_policies d"
  shows "choose_policy lib req defPolicy proj d2 = Inr (p, d2)"
  using assms by (auto simp: choose_policy_def assertPolicyOwned_def atx_simps split: option.splits if_splits)

lemma submitJob_seen:
  assumes "rq_body r = Some req" and "trim_space (sq_Type req) \<noteq> ''''"
    and "al_json_valid lib (if sq_Payload req = '''' then ''{}'' else sq_Payload req)" and "queue_of d (sc_entityID sc) = Some q"
    and "choose_policy lib (sq_RetryPolicyID req) (q_retry_policy_id q) (sc_projectID sc) d = Inr (policy, d)"
    and "trim_space (rq_header r ''Idempotency-Key'') \<noteq> ''''"
    and "find (idem_is (sc_entityID sc) (trim_space (rq_header r ''Idempotency-Key''))) (idempotency_keys d) = Some k"
    and "now < k_expires_at k" and "job_of d (k_job_id k) = Some j"
  shows "submitJob lib race i r sc now d =
    (if q_max_depth q \<noteq> None \<and> sq_RunAt req = None \<and>
        the (q_max_depth q) \<le> int (count_where (\<lambda>j. j_queue_id j = sc_entityID sc \<and> j_status j = Queued) (jobs d))
     then Inl (Api (tooMany ''queue depth cap reached'' 1))
     else if k_fingerprint k \<noteq> request_fp lib req (q_default_priority q) policy
     then Inl (Api (conflict ''idempotency key reused with a different payload''))
     else Inr (answer 200 (Some (submit_view j)) (k_job_id k) None, d))"
proof -
  let ?fp = "request_fp lib req (q_default_priority q) policy" and ?key = "trim_space (rq_header r ''Idempotency-Key'')"
  have seen: "check_idem ?fp (sc_entityID sc) ?key now d =
      (if k_fingerprint k \<noteq> ?fp then Inl (Api (conflict ''idempotency key reused with a different payload''))
       else Inr (Inl (answer 200 (Some (submit_view j)) (k_job_id k) None), d))"
    using assms(6-9) by (simp add: check_idem_def find_idem_def loadSubmitView_def)
  show ?thesis
    using assms(1-5) seen unfolding request_fp_def
    by (simp add: submitJob_def decode_def Let_def queue_defaults_def queued_count_def)
qed


text \<open>A first submission to the sample database, sent again.\<close>

definition plain_api :: api_lib where
  "plain_api = \<lparr>al_uuid = unary_uuid, al_time = unary_time, al_json_valid = (\<lambda>_. True), al_json_canon = id, al_sha256_hex = id\<rparr>"

definition sample_submit :: submitReq where
  "sample_submit = \<lparr>sq_Type = ''email'', sq_Payload = '''', sq_Priority = None, sq_RunAt = None, sq_TimeoutMs = None,
     sq_RetryPolicyID = None, sq_DependsOn = []\<rparr>"

definition keyed_request :: "submitReq request" where
  "keyed_request = (sample_request sample_submit)\<lparr>rq_header := (\<lambda>h. if h = ''Idempotency-Key'' then ''k1'' else '''')\<rparr>"

definition sample_scope :: scope where
  "sample_scope = \<lparr>sc_userID = 1, sc_sessionID = 4, sc_orgID = 2, sc_projectID = 3, sc_entityID = 7, sc_role = member\<rparr>"

lemma sample_submit_fields:
  "rq_body keyed_request = Some sample_submit" "trim_space (sq_Type sample_submit) = ''email''" "sq_Payload sample_submit = ''''"
  "sq_Priority sample_submit = None" "sq_RunAt sample_submit = None" "sq_TimeoutMs sample_submit = None"
  "sq_RetryPolicyID sample_submit = None" "sq_DependsOn sample_submit = []"
  "trim_space (rq_header keyed_request ''Idempotency-Key'') = ''k1''" "sc_entityID sample_scope = 7" "sc_projectID sample_scope = 3"
  by (simp_all add: keyed_request_def sample_request_def sample_submit_def trim_space_def is_space_def sample_scope_def)

lemma sample_queue_of: "queue_of sample_db 7 = Some sample_queue"
  by (simp add: sample_defs)

definition submitted_sample :: job where
  "submitted_sample = submitted_job 20 7 3 ''email'' ''{}'' 0 None 300000 9 0 sample_now"

lemma sample_first_submit:
  "\<exists>res d1. submitJob plain_api False 20 keyed_request sample_scope sample_now sample_db = Inr (res, d1) \<and> res_entityID res = 20 \<and>
    queue_of d1 7 = Some sample_queue \<and> retry_policies d1 = retry_policies sample_db \<and> job_of d1 20 = Some submitted_sample \<and>
    (\<exists>k. find (idem_is 7 ''k1'') (idempotency_keys d1) = Some k \<and> sample_now < k_expires_at k)"
proof -
  have c: "check_idem fp 7 ''k1'' sample_now sample_db = Inr (Inr (), sample_db)" for fp
    by (simp add: check_idem_def find_idem_def sample_defs)
  have defs: "q_retry_policy_id sample_queue = 9" "q_default_priority sample_queue = 0" "q_max_depth sample_queue = None"
    by (simp_all add: sample_queue_def)
  have ins: "insert_job submitted_sample sample_db = Inr (sample_db\<lparr>jobs := jobs sample_db @ [submitted_sample]\<rparr>)"
    by (simp add: insert_job_def submitted_sample_def submitted_job_def new_job_def check_job_def refs_ok_def sample_defs coalesce_def Let_def)
  have idem: "insert_idem False 7 ''k1'' 20 fp sample_now (sample_db\<lparr>jobs := jobs sample_db @ [submitted_sample]\<rparr>) =
      Inr ((), sample_db\<lparr>jobs := jobs sample_db @ [submitted_sample], idempotency_keys := [\<lparr>k_queue_id = 7, k_key = ''k1'', k_job_id = 20,
        k_fingerprint = fp, k_expires_at = sample_now + idem_ttl\<rparr>]\<rparr>)" for fp
    by (simp add: insert_idem_def sample_defs)
  have new: "submit_new plain_api False 20 ''k1'' fp ''email'' ''{}'' 0 300000 9 sample_submit sample_scope sample_now sample_db =
      Inr (answer 201 (Some (submit_view submitted_sample)) 20 None,
        emit ''job.submitted'' 20 3 [(''status'', JString (status_text (j_status submitted_sample))), (''type'', JString ''email'')] sample_now
          (sample_db\<lparr>jobs := jobs sample_db @ [submitted_sample], idempotency_keys := [\<lparr>k_queue_id = 7, k_key = ''k1'', k_job_id = 20,
            k_fingerprint = fp, k_expires_at = sample_now + idem_ttl\<rparr>]\<rparr>))" for fp
  proof -
    have p0: "pending_parents [] 3 sample_db = Inr (0, sample_db)" by (simp add: pending_parents_def count_where_def)
    have i1: "insert_submitted (submitted_job 20 7 3 ''email'' ''{}'' 0 None 300000 9 0 sample_now) sample_db =
        Inr (submitted_sample, sample_db\<lparr>jobs := jobs sample_db @ [submitted_sample]\<rparr>)"
      using ins by (simp add: insert_submitted_def submitted_sample_def [symmetric])
    show ?thesis
      using p0 i1 idem [of fp] by (simp add: submit_new_def sample_submit_fields Let_def)
  qed
  have "submitJob plain_api False 20 keyed_request sample_scope sample_now sample_db =
      Inr (answer 201 (Some (submit_view submitted_sample)) 20 None,
        emit ''job.submitted'' 20 3 [(''status'', JString (status_text (j_status submitted_sample))), (''type'', JString ''email'')] sample_now
          (sample_db\<lparr>jobs := jobs sample_db @ [submitted_sample], idempotency_keys := [\<lparr>k_queue_id = 7, k_key = ''k1'', k_job_id = 20,
            k_fingerprint = fingerprint plain_api ''email'' ''{}'' 0 300000 (uuid_text (al_uuid plain_api) 9) None,
            k_expires_at = sample_now + idem_ttl\<rparr>]\<rparr>))"
    using c new by (simp add: submitJob_def decode_def sample_submit_fields Let_def queue_defaults_def sample_queue_of defs
        choose_policy_def queued_count_def coalesce_def plain_api_def)
  moreover have "job_of (sample_db\<lparr>jobs := jobs sample_db @ [submitted_sample]\<rparr>) 20 = Some submitted_sample"
    by (simp add: lookup_row_append sample_defs submitted_sample_def submitted_job_def new_job_def Let_def)
  ultimately show ?thesis
    using sample_queue_of by (simp add: answer_def idem_is_def idem_ttl_def)
qed


section \<open>Listing all of it\<close>

text \<open>A client that follows \<open>next_cursor\<close> until it is empty, for at most \<open>n\<close> pages.\<close>

fun list_all_pages :: "nat \<Rightarrow> api_lib \<Rightarrow> 'q request \<Rightarrow> scope \<Rightarrow> timestamptz \<Rightarrow> string \<Rightarrow> db \<Rightarrow> jobListItem list option" where
  "list_all_pages 0 lib r sc now cur d = None"
| "list_all_pages (Suc n) lib r sc now cur d =
    (case listJobs lib (r\<lparr>rq_query := (rq_query r)(''cursor'' := cur)\<rparr>) sc now d of
       Inl e \<Rightarrow> None
     | Inr (res, _) \<Rightarrow>
        (case res_body res of
           None \<Rightarrow> None
         | Some (out, after) \<Rightarrow>
             if after = '''' then Some out else map_option ((@) out) (list_all_pages n lib r sc now after d)))"

text \<open>The filters of a list request are acceptable, and the rows they select.\<close>

definition filters_ok :: "api_lib \<Rightarrow> 'q request \<Rightarrow> bool" where
  "filters_ok lib r \<longleftrightarrow> (rq_query r ''status'' = '''' \<or> rq_query r ''status'' \<in> set jobStatuses) \<and>
     (rq_query r ''queue'' = '''' \<or> parse_uuid (al_uuid lib) (rq_query r ''queue'') \<noteq> None)"

definition listed :: "api_lib \<Rightarrow> 'q request \<Rightarrow> scope \<Rightarrow> job \<Rightarrow> bool" where
  "listed lib r sc j \<longleftrightarrow> j_project_id j = sc_projectID sc \<and>
     (rq_query r ''status'' = '''' \<or> status_text (j_status j) = rq_query r ''status'') \<and>
     (rq_query r ''type'' = '''' \<or> j_type j = rq_query r ''type'') \<and>
     (rq_query r ''queue'' = '''' \<or> parse_uuid (al_uuid lib) (rq_query r ''queue'') = Some (j_queue_id j))"

lemma job_query_listed:
  assumes "filters_ok lib r"
  shows "(\<forall>p \<in> set (job_query (sc_projectID sc) (nonempty (rq_query r ''status'')) (nonempty (rq_query r ''type''))
      (Option.bind (nonempty (rq_query r ''queue'')) (parse_uuid (al_uuid lib)))). p j) \<longleftrightarrow> listed lib r sc j"
  using assms
  by (auto simp: job_query_def listed_def filters_ok_def qb_eq_def qb_eq_opt_def nonempty_def split: option.splits)

lemma qb_before_all: "(\<forall>p \<in> set (qb_before cols cur q). p r) \<longleftrightarrow>
    (case map_option newest_first cur of None \<Rightarrow> True | Some c \<Rightarrow> c < newest_first (cols r)) \<and> (\<forall>p \<in> set q. p r)"
  by (auto simp: qb_before_def newest_first_less split: option.split)

lemma list_item_simps [simp]: "li_ID (list_item j) = j_id j" "li_CreatedAt (list_item j) = j_created_at j"
  by (simp_all add: list_item_def)

lemma listJobs_page:
  assumes "filters_ok lib r" and "decodeCursor (al_uuid lib) (al_time lib) (rq_query r ''cursor'') = Inr cur"
  shows "listJobs lib r sc now d =
    (let page = order_limit (\<lambda>j. newest_first (created_id j)) (nat (pageLimit r))
           (filter (\<lambda>j. case map_option newest_first cur of None \<Rightarrow> True | Some c \<Rightarrow> c < newest_first (created_id j))
             (filter (listed lib r sc) (jobs d)))
     in Inr (answer 0 (Some (map list_item page, if int (length page) = pageLimit r
          then encodeCursor (al_uuid lib) (al_time lib) (j_created_at (last page)) (j_id (last page)) else '''')) 0 None, d))"
proof -
  have ok: "\<not> (nonempty (rq_query r ''status'') \<noteq> None \<and> the (nonempty (rq_query r ''status'')) \<notin> set jobStatuses)"
    "\<not> (nonempty (rq_query r ''queue'') \<noteq> None \<and> parse_uuid (al_uuid lib) (the (nonempty (rq_query r ''queue''))) = None)"
    using assms(1) by (auto simp: filters_ok_def nonempty_def)
  let ?page = "order_limit (\<lambda>j. newest_first (created_id j)) (nat (pageLimit r))
     (filter (\<lambda>j. case map_option newest_first cur of None \<Rightarrow> True | Some c \<Rightarrow> c < newest_first (created_id j))
        (filter (listed lib r sc) (jobs d)))"
  have rows: "qb_build created_id (pageLimit r) (qb_before created_id cur (job_query (sc_projectID sc) (nonempty (rq_query r ''status''))
      (nonempty (rq_query r ''type'')) (Option.bind (nonempty (rq_query r ''queue'')) (parse_uuid (al_uuid lib))))) (jobs d) = ?page"
    unfolding qb_build_def qb_before_all job_query_listed [OF assms(1)] by (simp add: filter_filter conj_commute)
  have last: "li_CreatedAt (last (map list_item ?page)) = j_created_at (last ?page)" "li_ID (last (map list_item ?page)) = j_id (last ?page)"
    if "int (length ?page) = pageLimit r"
  proof -
    have "length ?page \<noteq> 0" using that pageLimit_bounds(1) [of r] by linarith
    then have "?page \<noteq> []" by (simp only: length_0_conv not_False_eq_True)
    then have l: "last (map list_item ?page) = list_item (last ?page)" by (rule last_map)
    show "li_CreatedAt (last (map list_item ?page)) = j_created_at (last ?page)" "li_ID (last (map list_item ?page)) = j_id (last ?page)"
      unfolding l by (rule list_item_simps)+
  qed
  show ?thesis
    unfolding listJobs_def Let_def if_not_P [OF ok(1)] if_not_P [OF ok(2)] assms(2) sum.case
    using last by (simp add: rows)
qed

lemma list_all_pages_walk:
  assumes ok: "filters_ok lib r" and tb: "texts_read_back (al_uuid lib) (al_time lib)"
    and cur: "cur = '''' \<and> c = None \<or> (\<exists>t i. cur = encodeCursor (al_uuid lib) (al_time lib) t i \<and> c = Some (newest_first (t, i)))"
  shows "list_all_pages n lib r sc now cur d =
    map_option (map list_item) (walk_pages n (\<lambda>j. newest_first (created_id j)) (nat (pageLimit r)) c (filter (listed lib r sc) (jobs d)))"
  using cur
proof (induction n arbitrary: cur c)
  case (Suc n)
  let ?r = "r\<lparr>rq_query := (rq_query r)(''cursor'' := cur)\<rparr>"
  let ?k = "\<lambda>j. newest_first (created_id j)"
  have okr: "filters_ok lib ?r" "pageLimit ?r = pageLimit r" "listed lib ?r sc = listed lib r sc" "rq_query ?r ''cursor'' = cur"
    using ok by (simp_all add: filters_ok_def pageLimit_def listed_def fun_eq_iff)
  obtain p where p: "decodeCursor (al_uuid lib) (al_time lib) cur = Inr p" "map_option newest_first p = c"
  proof (cases "cur = ''''")
    case True
    then have "c = None" using Suc.prems cursor_read_back(1) [OF tb] by metis
    then show ?thesis using that [of None] True by (simp add: decodeCursor_def)
  next
    case False
    then obtain t i where "cur = encodeCursor (al_uuid lib) (al_time lib) t i" "c = Some (newest_first (t, i))" using Suc.prems by auto
    then show ?thesis using that [of "Some (t, i)"] cursor_read_back(2) [OF tb] by simp
  qed
  let ?page = "order_limit ?k (nat (pageLimit r)) (filter (\<lambda>j. case c of None \<Rightarrow> True | Some x \<Rightarrow> x < ?k j) (filter (listed lib r sc) (jobs d)))"
  have page: "listJobs lib ?r sc now d = Inr (answer 0 (Some (map list_item ?page, if int (length ?page) = pageLimit r
      then encodeCursor (al_uuid lib) (al_time lib) (j_created_at (last ?page)) (j_id (last ?page)) else '''')) 0 None, d)"
    using listJobs_page [OF okr(1), unfolded okr(4), OF p(1), of sc now d] p(2) okr by (simp add: Let_def)
  show ?case
  proof (cases "int (length ?page) = pageLimit r")
    case True
    let ?next = "encodeCursor (al_uuid lib) (al_time lib) (j_created_at (last ?page)) (j_id (last ?page))"
    have ne: "?next \<noteq> ''''" by (rule cursor_read_back(1) [OF tb])
    have IH: "list_all_pages n lib r sc now ?next d =
        map_option (map list_item) (walk_pages n ?k (nat (pageLimit r)) (Some (?k (last ?page))) (filter (listed lib r sc) (jobs d)))"
      by (rule Suc.IH) (auto simp: created_id_def)
    have len: "length ?page = nat (pageLimit r)" using True by simp
    have "list_all_pages (Suc n) lib r sc now cur d = map_option ((@) (map list_item ?page)) (list_all_pages n lib r sc now ?next d)"
      using page True ne by (simp add: answer_def)
    moreover have "walk_pages (Suc n) ?k (nat (pageLimit r)) c (filter (listed lib r sc) (jobs d)) =
        map_option ((@) ?page) (walk_pages n ?k (nat (pageLimit r)) (Some (?k (last ?page))) (filter (listed lib r sc) (jobs d)))"
      using len by (simp only: walk_pages.simps Let_def if_True refl)
    ultimately show ?thesis unfolding IH by (simp add: option.map_comp comp_def)
  next
    case False
    have len: "length ?page \<noteq> nat (pageLimit r)" using False pageLimit_bounds(1) [of r] by linarith
    have "list_all_pages (Suc n) lib r sc now cur d = Some (map list_item ?page)" using page False by (simp add: answer_def)
    moreover have "walk_pages (Suc n) ?k (nat (pageLimit r)) c (filter (listed lib r sc) (jobs d)) = Some ?page"
      using len by (simp only: walk_pages.simps Let_def if_False)
    ultimately show ?thesis by simp
  qed
qed simp

text \<open>
  C28. Following the cursors lists everything once. For any acceptable filters and any page size, a client that asks for
  the first page and then for the page after each \<open>next_cursor\<close> reaches an empty cursor, after at most one page more
  than there are jobs, and has then received exactly the matching jobs of the project, each once, newest first,
  ties broken by identifier.
\<close>

theorem pages_list_everything_once:
  assumes "filters_ok lib r" and "texts_read_back (al_uuid lib) (al_time lib)" and "distinct (map j_id (jobs d))"
  shows "list_all_pages (Suc (length (jobs d))) lib r sc now '''' d =
    Some (map list_item (sort_key (\<lambda>j. newest_first (created_id j)) (filter (listed lib r sc) (jobs d))))"
proof -
  let ?k = "\<lambda>j. newest_first (created_id j)" and ?rs = "filter (listed lib r sc) (jobs d)"
  have "distinct (map j_id ?rs)" using assms(3) by (rule distinct_map_filter)
  then have "distinct (map ?k ?rs)"
    by (auto simp: distinct_map inj_on_def newest_first_def created_id_def)
  moreover have "0 < nat (pageLimit r)" using pageLimit_bounds(1) [of r] by simp
  moreover have "length (filter (\<lambda>j. case None of None \<Rightarrow> True | Some c \<Rightarrow> c < ?k j) ?rs) < Suc (length (jobs d))"
    by (simp add: less_Suc_eq_le)
  ultimately have "walk_pages (Suc (length (jobs d))) ?k (nat (pageLimit r)) None ?rs = Some (sort_key ?k ?rs)"
    using walk_pages_all [of ?k ?rs "nat (pageLimit r)" None "Suc (length (jobs d))"] by simp
  then show ?thesis
    using list_all_pages_walk [OF assms(1,2), of "''''" None "Suc (length (jobs d))" sc now d] by simp
qed

theorem pages_list_everything_once_witness:
  "list_all_pages 4 plain_api (sample_request ()) sample_scope sample_now '''' sample_db =
    Some (map list_item (sort_key (\<lambda>j. newest_first (created_id j)) (filter (listed plain_api (sample_request ()) sample_scope) (jobs sample_db))))"
proof -
  have "distinct (map j_id (jobs sample_db))" "length (jobs sample_db) = 3" by (simp_all add: sample_defs)
  moreover have "filters_ok plain_api (sample_request ())" by (simp add: filters_ok_def sample_request_def)
  moreover have "texts_read_back (al_uuid plain_api) (al_time plain_api)" using unary_read_back by (simp add: plain_api_def)
  ultimately show ?thesis
    using pages_list_everything_once [of plain_api "sample_request ()" sample_db sample_scope sample_now] by (simp add: eval_nat_numeral)
qed

end
