(* ===== verification/DlqApi.thy ===== *)
theory DlqApi
  imports JobsApi
begin

text \<open>
  The dead letter queue over HTTP, \<open>dlq.go\<close>, and \<open>fl.replay_dead\<close> of \<open>025_bulk_replay.sql\<close>: listing dead letters,
  replaying one job, replaying a queue at a rate and within its depth cap.
\<close>

section \<open>Listing\<close>

record dlqItem =
  di_JobID :: uuid
  di_QueueID :: uuid
  di_Reason :: dead_reason
  di_ErrorClass :: "string option"
  di_ErrorMessage :: "string option"
  di_DeadAt :: timestamptz
  di_ReplayedAt :: "timestamptz option"

definition dlq_item :: "dead_letter \<Rightarrow> dlqItem" where
  "dlq_item x = \<lparr>di_JobID = d_job_id x, di_QueueID = d_queue_id x, di_Reason = d_reason x, di_ErrorClass = d_last_error_class x,
     di_ErrorMessage = d_last_error_message x, di_DeadAt = d_dead_at x, di_ReplayedAt = d_replayed_at x\<rparr>"

definition dead_key :: "dead_letter \<Rightarrow> timestamptz \<times> uuid" where
  "dead_key x = (d_dead_at x, d_job_id x)"

definition listDLQ :: "api_lib \<Rightarrow> ('q, dlqItem list \<times> string) scoped" where
  "listDLQ lib r sc now =
    (let queue = nonempty (rq_query r ''queue'') in
     if queue \<noteq> None \<and> parse_uuid (al_uuid lib) (the queue) = None then afail (badRequest ''invalid queue'')
     else case decodeCursor (al_uuid lib) (al_time lib) (rq_query r ''cursor'') of
       Inl e \<Rightarrow> afail e
     | Inr cursor \<Rightarrow>
         abind (exec_sql (reads (\<lambda>d. map dlq_item
           (qb_build dead_key (pageLimit r)
              (qb_before dead_key cursor (qb_eq_opt d_queue_id (Option.bind queue (parse_uuid (al_uuid lib))) (qb_eq d_project_id (sc_projectID sc) [])))
              (dead_letter_jobs d))))) (\<lambda>out.
         aret (answer 0 (Some (out,
           if int (length out) = pageLimit r
           then encodeCursor (al_uuid lib) (al_time lib) (di_DeadAt (last out)) (di_JobID (last out)) else '''')) 0 None)))"

section \<open>Replaying one job\<close>

definition cancelled_kin :: "uuid \<Rightarrow> uuid list tx" where
  "cancelled_kin i = reads (\<lambda>d. sort (map j_id (filter (\<lambda>j. j_id j \<in> set (down (job_dependencies d) i) \<and> j_status j = Cancelled) (jobs d))))"

definition replay_row :: "timestamptz \<Rightarrow> job \<Rightarrow> job" where
  "replay_row run j = j\<lparr>j_status := Queued, j_attempt_count := 0, j_replay_generation := j_replay_generation j + 1, j_run_at := run,
     j_finished_at := None, j_worker_id := None\<rparr>"

definition is_dead :: "uuid \<Rightarrow> job \<Rightarrow> bool" where
  "is_dead i j \<longleftrightarrow> j_id j = i \<and> j_status j = Dead_letter"

definition replay_sql :: "uuid \<Rightarrow> timestamptz \<Rightarrow> nat option tx" where
  "replay_sql i now d =
    (case find (is_dead i) (jobs d) of
       None \<Rightarrow> Inr (None, d)
     | Some j \<Rightarrow> rbind (update_jobs (is_dead i) (replay_row now) d) (\<lambda>d1. Inr (Some (j_replay_generation j + 1), d1)))"

text \<open>\<open>dead_letter_jobs.replayed_by\<close> refers to \<open>users\<close>.\<close>

definition mark_replayed :: "uuid set \<Rightarrow> uuid \<Rightarrow> timestamptz \<Rightarrow> unit tx" where
  "mark_replayed ids actor now d =
    (if (\<exists>x \<in> set (dead_letter_jobs d). d_job_id x \<in> ids) \<and> actor \<notin> u_id ` set (users d) then Inl fk_violation
     else Inr ((), d\<lparr>dead_letter_jobs := update_where (\<lambda>x. d_job_id x \<in> ids)
       (\<lambda>x. x\<lparr>d_replayed_at := Some now, d_replayed_by := Some actor\<rparr>) (dead_letter_jobs d)\<rparr>))"

text \<open>The body: the job, its status and its generation.\<close>

definition replayJob :: "api_lib \<Rightarrow> ('q, uuid \<times> string \<times> nat) scoped" where
  "replayJob lib r sc now =
     abind (exec_sql (cancelled_kin (sc_entityID sc))) (\<lambda>ids.
     if ids \<noteq> [] then afail (conflict (''cancelled descendants would be revived: '' @ join '', '' (map (uuid_text (al_uuid lib)) ids)))
     else abind (on_no_rows (conflict ''job is not in the dead letter queue'') (query_row (replay_sql (sc_entityID sc) now))) (\<lambda>gen.
     abind (exec_sql (mark_replayed {sc_entityID sc} (sc_userID sc) now)) (\<lambda>_.
     abind (api_emit ''job.replayed'' (sc_entityID sc) (sc_projectID sc) [(''replay_generation'', JInt (int gen))] now) (\<lambda>_.
     aret (answer 200 (Some (sc_entityID sc, ''queued'', gen)) 0 (Some [(''replay_generation'', JInt (int gen))]))))))"

section \<open>Replaying a queue\<close>

definition replay_room :: "uuid \<Rightarrow> int \<Rightarrow> queue \<Rightarrow> db \<Rightarrow> int" where
  "replay_room q cap qr d =
     min cap (case q_max_depth qr of
       None \<Rightarrow> cap
     | Some m \<Rightarrow> max (m - int (count_where (\<lambda>j. j_queue_id j = q \<and> j_status j = Queued) (jobs d))) 0)"

definition replayable :: "uuid \<Rightarrow> db \<Rightarrow> dead_letter \<Rightarrow> bool" where
  "replayable q d x \<longleftrightarrow> d_queue_id x = q \<and> d_replayed_at x = None \<and>
     (\<exists>j \<in> set (jobs d). is_dead (d_job_id x) j) \<and>
     \<not> (\<exists>(p, c) \<in> set (job_dependencies d). p = d_job_id x \<and> (\<exists>j \<in> set (jobs d). j_id j = c \<and> j_status j = Cancelled))"

text \<open>\<open>row_number() over (order by id)\<close>, from zero, and the delay it gives at \<open>rate\<close> jobs a second, in microseconds.\<close>

definition seq_of :: "uuid list \<Rightarrow> uuid \<Rightarrow> nat" where
  "seq_of ids i = count_where (\<lambda>k. k < i) ids"

definition replay_at :: "uuid list \<Rightarrow> rat \<Rightarrow> timestamptz \<Rightarrow> uuid \<Rightarrow> timestamptz" where
  "replay_at ids rate now i = now + (if 0 < rate then round (of_nat (seq_of ids i) * 1000000 / rate) else 0)"

definition replay_dead :: "uuid \<Rightarrow> int \<Rightarrow> rat \<Rightarrow> uuid \<Rightarrow> timestamptz \<Rightarrow> uuid list tx" where
  "replay_dead q cap rate actor now d =
    (case queue_of d q of
       None \<Rightarrow> Inr ([], d)
     | Some qr \<Rightarrow>
        (let room = replay_room q cap qr d;
             ids = map d_job_id (order_limit d_dead_at (nat room) (filter (replayable q d) (dead_letter_jobs d)))
         in if room \<le> 0 \<or> ids = [] then Inr ([], d)
            else rbind (update_jobs (\<lambda>j. j_id j \<in> set ids \<and> j_status j = Dead_letter) (\<lambda>j. replay_row (replay_at ids rate now (j_id j)) j) d) (\<lambda>d1.
                 rbind (mark_replayed (set ids) actor now d1) (\<lambda>(_, d2).
                 Inr (ids, emit_all (\<lambda>i. (''job.replayed'', i, q_project_id qr, [(''bulk'', JBool True)])) now (sort ids) d2)))))"

record bulkReplayReq =
  br_Limit :: "int option"
  br_Rate :: "rat option"

text \<open>The body: how many, and which.\<close>

definition replayQueue :: "(bulkReplayReq, nat \<times> uuid list) scoped" where
  "replayQueue r sc now =
     abind (decode r) (\<lambda>req.
     let limit = coalesce (br_Limit req) 100; rate = coalesce (br_Rate req) 0 in
     if limit \<le> 0 \<or> 1000 < limit then afail (badRequest ''limit must be between 1 and 1000'')
     else if rate < 0 then afail (badRequest ''rate_per_sec must not be negative'')
     else abind (exec_sql (replay_dead (sc_entityID sc) limit rate (sc_userID sc) now)) (\<lambda>out.
     aret (answer 0 (Some (length out, out)) 0 (Some [(''replayed'', JInt (int (length out))), (''limit'', JInt limit)]))))"

section \<open>What a replay does\<close>

lemma replay_row_simps [simp]:
  "j_id (replay_row t j) = j_id j" "j_status (replay_row t j) = Queued" "j_queue_id (replay_row t j) = j_queue_id j"
  "j_fence (replay_row t j) = j_fence j" "j_replay_generation (replay_row t j) = Suc (j_replay_generation j)"
  "j_attempt_count (replay_row t j) = 0" "j_run_at (replay_row t j) = t"
  by (simp_all add: replay_row_def)

lemma replay_row_ok: "check_job j \<Longrightarrow> j_status j = Dead_letter \<Longrightarrow> write_ok j (replay_row t j)"
  by (auto simp: write_ok_def check_job_def replay_row_def)

lemma cancelled_kin_Nil:
  assumes "deps_ok d"
  shows "cancelled_kin i d = Inr ([], d) \<longleftrightarrow>
    \<not> (\<exists>k \<in> set (jobs d). (i, j_id k) \<in> (set (job_dependencies d))\<^sup>+ \<and> j_id k \<noteq> i \<and> j_status k = Cancelled)"
proof -
  have "\<forall>(p, c) \<in> set (job_dependencies d). p \<noteq> c" using assms by (simp add: deps_ok_def)
  from down_descendants [OF this, of i]
  have dn: "c \<in> set (down (job_dependencies d) i) \<longleftrightarrow> (i, c) \<in> (set (job_dependencies d))\<^sup>+ \<and> c \<noteq> i" for c by auto
  have srt: "sort xs = [] \<longleftrightarrow> xs = []" for xs :: "uuid list" by (metis length_0_conv length_sort)
  show ?thesis by (simp add: cancelled_kin_def srt dn filter_empty_conv)
qed

lemma replay_sql_dead:
  assumes "jobs_wf d" and "job_of d i = Some j" and "j_status j = Dead_letter"
  shows "replay_sql i now d = Inr (Some (Suc (j_replay_generation j)), d\<lparr>jobs := update_where (is_dead i) (replay_row now) (jobs d)\<rparr>)"
proof -
  have j: "j_id j = i" using lookup_row_SomeD [OF assms(2)] by simp
  have "find (is_dead i) (jobs d) = Some j"
    using assms(1,2) by (rule find_job) (use assms(3) j in \<open>auto simp: is_dead_def\<close>)
  moreover have "update_jobs (is_dead i) (replay_row now) d = Inr (d\<lparr>jobs := update_where (is_dead i) (replay_row now) (jobs d)\<rparr>)"
    using jobs_wfD(2) [OF assms(1)] by (intro update_jobs_ok replay_row_ok) (auto simp: is_dead_def)
  ultimately show ?thesis by (simp add: replay_sql_def)
qed

lemma replay_sql_other:
  assumes "jobs_wf d" and "job_of d i = Some j" and "j_status j \<noteq> Dead_letter"
  shows "replay_sql i now d = Inr (None, d)"
proof -
  have "find (is_dead i) (jobs d) = None"
    using assms jobs_wfD(4) [OF assms(1)] lookup_row_SomeD [OF assms(2)] by (auto simp: find_None_iff is_dead_def)
  then show ?thesis by (simp add: replay_sql_def)
qed

text \<open>
  Replaying one dead job. While any job below it is cancelled, at any distance, the request is refused with a 409;
  so is it for a job that is not dead-lettered; neither changes anything. Otherwise the job is queued again to run
  now, with no attempts used, in the next replay generation and under the same fence, its dead letter is
  marked with the time and the actor, and every other job is as before. No earlier execution then has the
  key the next start will use, so the attempt numbers may begin again.
\<close>

theorem replay_outcome:
  assumes wf: "tables_wf now d" and j: "job_of d (sc_entityID sc) = Some j" and u: "sc_userID sc \<in> u_id ` set (users d)"
  shows "((\<exists>k \<in> set (jobs d). (sc_entityID sc, j_id k) \<in> (set (job_dependencies d))\<^sup>+ \<and> j_id k \<noteq> sc_entityID sc \<and> j_status k = Cancelled) \<longrightarrow>
      (\<exists>m. replayJob lib r sc now d = Inl (Api (conflict m)))) \<and>
    (j_status j \<noteq> Dead_letter \<longrightarrow> (\<exists>m. replayJob lib r sc now d = Inl (Api (conflict m)))) \<and>
    (\<not> (\<exists>k \<in> set (jobs d). (sc_entityID sc, j_id k) \<in> (set (job_dependencies d))\<^sup>+ \<and> j_id k \<noteq> sc_entityID sc \<and> j_status k = Cancelled) \<and>
     j_status j = Dead_letter \<longrightarrow>
      (\<exists>res d' j'. replayJob lib r sc now d = Inr (res, d') \<and> res_status res = 200 \<and> job_of d' (sc_entityID sc) = Some j' \<and>
        j_status j' = Queued \<and> j_attempt_count j' = 0 \<and> j_replay_generation j' = Suc (j_replay_generation j) \<and> j_fence j' = j_fence j \<and>
        j_run_at j' = now \<and> (\<forall>k. k \<noteq> sc_entityID sc \<longrightarrow> job_of d' k = job_of d k) \<and>
        (\<forall>x \<in> set (dead_letter_jobs d'). d_job_id x = sc_entityID sc \<longrightarrow> d_replayed_at x = Some now \<and> d_replayed_by x = Some (sc_userID sc)) \<and>
        ((\<forall>y \<in> set (job_executions d). x_job_id y = sc_entityID sc \<longrightarrow> x_replay_generation y \<le> j_replay_generation j) \<longrightarrow>
          (\<forall>y \<in> set (job_executions d'). x_job_id y = sc_entityID sc \<longrightarrow> x_replay_generation y \<noteq> j_replay_generation j'))))"
proof -
  note t = tables_wfD [OF wf]
  let ?i = "sc_entityID sc"
  let ?kin = "\<exists>k \<in> set (jobs d). (?i, j_id k) \<in> (set (job_dependencies d))\<^sup>+ \<and> j_id k \<noteq> ?i \<and> j_status k = Cancelled"
  note kin = cancelled_kin_Nil [OF t(4), of ?i]
  obtain ids where ids: "cancelled_kin ?i d = Inr (ids, d)" by (simp add: cancelled_kin_def)
  have refused: "\<exists>m. replayJob lib r sc now d = Inl (Api (conflict m))" if ?kin
  proof -
    have "ids \<noteq> []" using that kin ids by auto
    then show ?thesis using ids by (auto simp: replayJob_def)
  qed
  have other: "\<exists>m. replayJob lib r sc now d = Inl (Api (conflict m))" if "\<not> ?kin" "j_status j \<noteq> Dead_letter"
  proof -
    have "cancelled_kin ?i d = Inr ([], d)" using that(1) kin by blast
    then show ?thesis using replay_sql_other [OF t(1) j that(2), of now] by (auto simp: replayJob_def)
  qed
  have replayed: "\<exists>res d' j'. replayJob lib r sc now d = Inr (res, d') \<and> res_status res = 200 \<and> job_of d' ?i = Some j' \<and>
        j_status j' = Queued \<and> j_attempt_count j' = 0 \<and> j_replay_generation j' = Suc (j_replay_generation j) \<and> j_fence j' = j_fence j \<and>
        j_run_at j' = now \<and> (\<forall>k. k \<noteq> ?i \<longrightarrow> job_of d' k = job_of d k) \<and>
        (\<forall>x \<in> set (dead_letter_jobs d'). d_job_id x = ?i \<longrightarrow> d_replayed_at x = Some now \<and> d_replayed_by x = Some (sc_userID sc)) \<and>
        job_executions d' = job_executions d"
    if k: "\<not> ?kin" and dead: "j_status j = Dead_letter"
  proof -
    let ?d1 = "d\<lparr>jobs := update_where (is_dead ?i) (replay_row now) (jobs d)\<rparr>"
    have none: "cancelled_kin ?i d = Inr ([], d)" using k kin by blast
    have sql: "replay_sql ?i now d = Inr (Some (Suc (j_replay_generation j)), ?d1)" by (rule replay_sql_dead [OF t(1) j dead])
    have mark: "mark_replayed {?i} (sc_userID sc) now ?d1 = Inr ((), ?d1\<lparr>dead_letter_jobs := update_where (\<lambda>x. d_job_id x \<in> {?i})
       (\<lambda>x. x\<lparr>d_replayed_at := Some now, d_replayed_by := Some (sc_userID sc)\<rparr>) (dead_letter_jobs d)\<rparr>)"
      using u by (simp add: mark_replayed_def)
    let ?d2 = "?d1\<lparr>dead_letter_jobs := update_where (\<lambda>x. d_job_id x \<in> {?i})
       (\<lambda>x. x\<lparr>d_replayed_at := Some now, d_replayed_by := Some (sc_userID sc)\<rparr>) (dead_letter_jobs d)\<rparr>"
    have run: "replayJob lib r sc now d = Inr (answer 200 (Some (?i, ''queued'', Suc (j_replay_generation j))) 0
        (Some [(''replay_generation'', JInt (int (Suc (j_replay_generation j))))]),
        emit ''job.replayed'' ?i (sc_projectID sc) [(''replay_generation'', JInt (int (Suc (j_replay_generation j))))] now ?d2)"
      using none sql mark by (simp add: replayJob_def)
    have id: "j_id j = ?i" using lookup_row_SomeD [OF j] by simp
    have rows: "lookup_row j_id k (update_where (is_dead ?i) (replay_row now) (jobs d)) =
        map_option (\<lambda>j. if is_dead ?i j then replay_row now j else j) (job_of d k)" for k
      by (rule job_of_update) simp
    have mine: "lookup_row j_id ?i (update_where (is_dead ?i) (replay_row now) (jobs d)) = Some (replay_row now j)"
      using j id dead by (simp add: rows is_dead_def)
    have others: "lookup_row j_id k (update_where (is_dead ?i) (replay_row now) (jobs d)) = job_of d k" if "k \<noteq> ?i" for k
      using that by (auto simp: rows is_dead_def map_option_case split: option.split dest: lookup_row_SomeD)
    show ?thesis
      using run mine others by (intro exI) (auto simp: answer_def in_update_where_iff)
  qed
  have fresh: "\<forall>y \<in> set (job_executions d). x_job_id y = ?i \<longrightarrow> x_replay_generation y \<noteq> Suc (j_replay_generation j)"
    if "\<forall>y \<in> set (job_executions d). x_job_id y = ?i \<longrightarrow> x_replay_generation y \<le> j_replay_generation j"
    using that by fastforce
  have not_dead: "\<exists>m. replayJob lib r sc now d = Inl (Api (conflict m))" if "j_status j \<noteq> Dead_letter"
    using refused other [OF _ that] by (cases ?kin) simp_all
  show ?thesis
  proof (intro conjI impI)
    assume c: "\<not> ?kin \<and> j_status j = Dead_letter"
    from replayed [OF conjunct1 [OF c] conjunct2 [OF c]] obtain res d' j' where f:
      "replayJob lib r sc now d = Inr (res, d')" "res_status res = 200" "job_of d' ?i = Some j'"
      "j_status j' = Queued" "j_attempt_count j' = 0" "j_replay_generation j' = Suc (j_replay_generation j)" "j_fence j' = j_fence j"
      "j_run_at j' = now" "\<forall>k. k \<noteq> ?i \<longrightarrow> job_of d' k = job_of d k"
      "\<forall>x \<in> set (dead_letter_jobs d'). d_job_id x = ?i \<longrightarrow> d_replayed_at x = Some now \<and> d_replayed_by x = Some (sc_userID sc)"
      "job_executions d' = job_executions d"
      by - (elim exE conjE, rule that; assumption)
    have later: "(\<forall>y \<in> set (job_executions d). x_job_id y = ?i \<longrightarrow> x_replay_generation y \<le> j_replay_generation j) \<longrightarrow>
        (\<forall>y \<in> set (job_executions d'). x_job_id y = ?i \<longrightarrow> x_replay_generation y \<noteq> j_replay_generation j')"
      unfolding f(6,11) using fresh by blast
    show "\<exists>res d' j'. replayJob lib r sc now d = Inr (res, d') \<and> res_status res = 200 \<and> job_of d' ?i = Some j' \<and>
        j_status j' = Queued \<and> j_attempt_count j' = 0 \<and> j_replay_generation j' = Suc (j_replay_generation j) \<and> j_fence j' = j_fence j \<and>
        j_run_at j' = now \<and> (\<forall>k. k \<noteq> ?i \<longrightarrow> job_of d' k = job_of d k) \<and>
        (\<forall>x \<in> set (dead_letter_jobs d'). d_job_id x = ?i \<longrightarrow> d_replayed_at x = Some now \<and> d_replayed_by x = Some (sc_userID sc)) \<and>
        ((\<forall>y \<in> set (job_executions d). x_job_id y = ?i \<longrightarrow> x_replay_generation y \<le> j_replay_generation j) \<longrightarrow>
          (\<forall>y \<in> set (job_executions d'). x_job_id y = ?i \<longrightarrow> x_replay_generation y \<noteq> j_replay_generation j'))"
      by (intro exI conjI) (rule f later)+
  qed (use refused not_dead in blast)+
qed

definition dead_sample :: db where
  "dead_sample = team_db\<lparr>jobs := [sample_queued\<lparr>j_status := Dead_letter, j_finished_at := Some 60\<rparr>], job_executions := [], job_leases := [], job_dependencies := [],
     dead_letter_jobs := [\<lparr>d_job_id = 10, d_queue_id = 7, d_project_id = 3, d_reason = Attempts_exhausted, d_last_error_class = None,
       d_last_error_message = None, d_execution_history = [], d_dead_at = 60, d_replayed_at = None, d_replayed_by = None\<rparr>]\<rparr>"

lemma dead_sample_facts:
  "tables_wf sample_now dead_sample" "job_of dead_sample 10 = Some (sample_queued\<lparr>j_status := Dead_letter, j_finished_at := Some 60\<rparr>)"
  "1 \<in> u_id ` set (users dead_sample)" "job_dependencies dead_sample = []" "job_executions dead_sample = []"
  by (simp_all add: dead_sample_def team_db_def tables_wf_def jobs_wf_def check_job_def execs_wf_def clock_ok_def deps_ok_def sample_defs)

theorem replay_outcome_witness:
  "\<exists>res d' j'. replayJob plain_api (sample_request ()) (sample_scope\<lparr>sc_entityID := 10\<rparr>) sample_now dead_sample = Inr (res, d') \<and>
    job_of d' 10 = Some j' \<and> j_status j' = Queued \<and> j_replay_generation j' = 1"
  using replay_outcome [OF dead_sample_facts(1), of "sample_scope\<lparr>sc_entityID := 10\<rparr>" "sample_queued\<lparr>j_status := Dead_letter, j_finished_at := Some 60\<rparr>"
      plain_api "sample_request ()"] dead_sample_facts
  by (auto simp: sample_scope_def sample_queued_def)

section \<open>Replaying within the depth cap\<close>

lemma count_in_ids:
  assumes "distinct (map j_id js)"
  shows "count_where (\<lambda>j. j_id j \<in> set ids \<and> P j) js \<le> length ids"
proof -
  have "count_where (\<lambda>j. j_id j \<in> set ids \<and> P j) js = length (map j_id (filter (\<lambda>j. j_id j \<in> set ids \<and> P j) js))"
    by (simp add: count_where_def)
  also have "\<dots> = card (set (map j_id (filter (\<lambda>j. j_id j \<in> set ids \<and> P j) js)))"
    using assms by (intro distinct_card [symmetric] distinct_map_filter)
  also have "\<dots> \<le> card (set ids)" by (intro card_mono) auto
  also have "\<dots> \<le> length ids" by (rule card_length)
  finally show ?thesis .
qed

lemma emit_all_frame2: "jobs (emit_all g now rs d) = jobs d" "dead_letter_jobs (emit_all g now rs d) = dead_letter_jobs d"
  by (simp_all)

lemma replay_dead_Inr:
  assumes "replay_dead q cap rate actor now d = Inr (ids, d')" and "jobs_wf d" and "queue_of d q = Some qr"
  shows "ids = [] \<and> d' = d \<or>
    (0 < replay_room q cap qr d \<and> int (length ids) \<le> replay_room q cap qr d \<and>
     (\<forall>i \<in> set ids. \<exists>x \<in> set (dead_letter_jobs d). d_job_id x = i \<and> replayable q d x) \<and>
     jobs d' = update_where (\<lambda>j. j_id j \<in> set ids \<and> j_status j = Dead_letter) (\<lambda>j. replay_row (replay_at ids rate now (j_id j)) j) (jobs d))"
proof -
  let ?room = "replay_room q cap qr d"
  let ?ids = "map d_job_id (order_limit d_dead_at (nat ?room) (filter (replayable q d) (dead_letter_jobs d)))"
  let ?P = "\<lambda>j. j_id j \<in> set ?ids \<and> j_status j = Dead_letter"
  let ?f = "\<lambda>j. replay_row (replay_at ?ids rate now (j_id j)) j"
  have upd: "update_jobs ?P ?f d = Inr (d\<lparr>jobs := update_where ?P ?f (jobs d)\<rparr>)"
    using jobs_wfD(2) [OF assms(2)] by (intro update_jobs_ok replay_row_ok) auto
  show ?thesis
  proof (cases "?room \<le> 0 \<or> ?ids = []")
    case True
    then show ?thesis using assms(1,3) by (simp add: replay_dead_def Let_def)
  next
    case False
    have run: "rbind (mark_replayed (set ?ids) actor now (d\<lparr>jobs := update_where ?P ?f (jobs d)\<rparr>)) (\<lambda>(_, d2).
        Inr (?ids, emit_all (\<lambda>i. (''job.replayed'', i, q_project_id qr, [(''bulk'', JBool True)])) now (sort ?ids) d2)) = Inr (ids, d')"
      using assms(1,3) False upd by (simp only: replay_dead_def Let_def option.case if_False rbind_Inr)
    then obtain d2 where m: "mark_replayed (set ?ids) actor now (d\<lparr>jobs := update_where ?P ?f (jobs d)\<rparr>) = Inr ((), d2)"
      and e: "ids = ?ids" "d' = emit_all (\<lambda>i. (''job.replayed'', i, q_project_id qr, [(''bulk'', JBool True)])) now (sort ?ids) d2"
      unfolding rbind_eq_Inr by auto
    have "jobs d2 = update_where ?P ?f (jobs d)" using m by (auto simp: mark_replayed_def split: if_splits)
    then have js: "jobs d' = update_where ?P ?f (jobs d)" using e(2) by simp
    have "length ?ids \<le> nat ?room" by simp
    moreover have "0 < ?room" using False by simp
    ultimately have len: "int (length ?ids) \<le> ?room" by linarith
    have "\<exists>x \<in> set (dead_letter_jobs d). d_job_id x = i \<and> replayable q d x" if "i \<in> set ?ids" for i
      using that set_order_limit [of d_dead_at "nat ?room" "filter (replayable q d) (dead_letter_jobs d)"] by auto
    then show ?thesis using js len \<open>0 < ?room\<close> unfolding e(1) by blast
  qed
qed

lemma replay_dead_ok:
  assumes "jobs_wf d" and "queue_of d q = Some qr" and "actor \<in> u_id ` set (users d)"
  shows "\<exists>ids d'. replay_dead q cap rate actor now d = Inr (ids, d')"
proof -
  let ?room = "replay_room q cap qr d"
  let ?ids = "map d_job_id (order_limit d_dead_at (nat ?room) (filter (replayable q d) (dead_letter_jobs d)))"
  let ?P = "\<lambda>j. j_id j \<in> set ?ids \<and> j_status j = Dead_letter"
  let ?f = "\<lambda>j. replay_row (replay_at ?ids rate now (j_id j)) j"
  have upd: "update_jobs ?P ?f d = Inr (d\<lparr>jobs := update_where ?P ?f (jobs d)\<rparr>)"
    using jobs_wfD(2) [OF assms(1)] by (intro update_jobs_ok replay_row_ok) auto
  obtain d2 where mark: "mark_replayed (set ?ids) actor now (d\<lparr>jobs := update_where ?P ?f (jobs d)\<rparr>) = Inr ((), d2)"
    using assms(3) by (simp add: mark_replayed_def)
  show ?thesis
    unfolding replay_dead_def assms(2) option.case Let_def upd rbind_Inr mark prod.case by (simp only: split: if_split) blast
qed

lemma replayed_jobs:
  assumes wf: "jobs_wf d"
    and ids: "\<forall>i \<in> set ids. \<exists>x \<in> set (dead_letter_jobs d). d_job_id x = i \<and> replayable q d x"
    and js: "jobs d' = update_where (\<lambda>j. j_id j \<in> set ids \<and> j_status j = Dead_letter) (\<lambda>j. replay_row (replay_at ids rate now (j_id j)) j) (jobs d)"
  shows "count_where Q (jobs d') \<le> count_where Q (jobs d) + length ids"
    and "\<forall>i \<in> set ids. \<exists>j. job_of d i = Some j \<and> j_status j = Dead_letter \<and>
      \<not> (\<exists>c k. (i, c) \<in> set (job_dependencies d) \<and> job_of d c = Some k \<and> j_status k = Cancelled) \<and>
      job_of d' i = Some (replay_row (replay_at ids rate now i) j)"
proof -
  let ?P = "\<lambda>j. j_id j \<in> set ids \<and> j_status j = Dead_letter"
  let ?f = "\<lambda>j. replay_row (replay_at ids rate now (j_id j)) j"
  have "count_where Q (jobs d') \<le> count_where Q (jobs d) + count_where (\<lambda>j. ?P j \<and> Q (?f j)) (jobs d)"
    using count_where_update [of Q ?P ?f "jobs d"] by (simp add: js)
  also have "count_where (\<lambda>j. ?P j \<and> Q (?f j)) (jobs d) \<le> count_where (\<lambda>j. j_id j \<in> set ids \<and> True) (jobs d)"
    by (rule count_where_mono) auto
  also have "\<dots> \<le> length ids" by (rule count_in_ids) (use wf in \<open>simp add: jobs_wf_def\<close>)
  finally show "count_where Q (jobs d') \<le> count_where Q (jobs d) + length ids" by simp
  show "\<forall>i \<in> set ids. \<exists>j. job_of d i = Some j \<and> j_status j = Dead_letter \<and>
      \<not> (\<exists>c k. (i, c) \<in> set (job_dependencies d) \<and> job_of d c = Some k \<and> j_status k = Cancelled) \<and>
      job_of d' i = Some (replay_row (replay_at ids rate now i) j)"
  proof
    fix i assume i: "i \<in> set ids"
    obtain j where j: "j \<in> set (jobs d)" "j_id j = i" "j_status j = Dead_letter"
      and kids: "\<not> (\<exists>(p, c) \<in> set (job_dependencies d). p = i \<and> (\<exists>j \<in> set (jobs d). j_id j = c \<and> j_status j = Cancelled))"
      using ids i by (auto simp: replayable_def is_dead_def)
    have row: "job_of d i = Some j" using wf j by (simp add: jobs_wfD(3))
    have "lookup_row j_id i (update_where ?P ?f (jobs d)) = map_option (\<lambda>j. if ?P j then ?f j else j) (job_of d i)"
      by (rule job_of_update) simp
    then have "job_of d' i = Some (replay_row (replay_at ids rate now i) j)" using row j i by (simp add: js)
    moreover have "\<not> (\<exists>c k. (i, c) \<in> set (job_dependencies d) \<and> job_of d c = Some k \<and> j_status k = Cancelled)"
      using kids by (auto dest!: lookup_row_SomeD)
    ultimately show "\<exists>j. job_of d i = Some j \<and> j_status j = Dead_letter \<and>
      \<not> (\<exists>c k. (i, c) \<in> set (job_dependencies d) \<and> job_of d c = Some k \<and> j_status k = Cancelled) \<and>
      job_of d' i = Some (replay_row (replay_at ids rate now i) j)" using row j(3) by blast
  qed
qed



end
