(* ===== verification/TxLogic.thy ===== *)
theory TxLogic
  imports Api
begin

text \<open>
  One set of rules for what a whole transaction of the API guarantees. Statements, database functions and
  handlers have the same shape, and a guarantee that is reflexive and transitive (an invariant kept, rows that
  only evolve) goes through all the ways the handlers combine them. The locales state this once; the theories
  that have such a guarantee interpret them.
\<close>

definition assures :: "(db \<Rightarrow> db \<Rightarrow> bool) \<Rightarrow> (db \<Rightarrow> 'e + 'a \<times> db) \<Rightarrow> bool" where
  "assures R t \<longleftrightarrow> (\<forall>d r d'. t d = Inr (r, d') \<longrightarrow> R d d')"

lemma assuresI: "(\<And>d r d'. t d = Inr (r, d') \<Longrightarrow> R d d') \<Longrightarrow> assures R t"
  by (simp add: assures_def)

lemma assuresD: "assures R t \<Longrightarrow> t d = Inr (r, d') \<Longrightarrow> R d d'"
  by (simp add: assures_def)

named_theorems tx_rules

lemma assures_if [tx_rules]: "(b \<Longrightarrow> assures R s) \<Longrightarrow> (\<not> b \<Longrightarrow> assures R t) \<Longrightarrow> assures R (if b then s else t)"
  by simp

lemma assures_prod [tx_rules]: "(\<And>a b. assures R (f a b)) \<Longrightarrow> assures R (case p of (a, b) \<Rightarrow> f a b)"
  by (cases p) simp

lemma assures_option [tx_rules]:
  "assures R s \<Longrightarrow> (\<And>a. assures R (f a)) \<Longrightarrow> assures R (case x of None \<Rightarrow> s | Some a \<Rightarrow> f a)"
  by (cases x) auto

lemma assures_sum [tx_rules]:
  "(\<And>a. assures R (f a)) \<Longrightarrow> (\<And>b. assures R (g b)) \<Longrightarrow> assures R (case x of Inl a \<Rightarrow> f a | Inr b \<Rightarrow> g b)"
  by (cases x) auto

lemma assures_afail [tx_rules]: "assures R (afail e)"
  by (auto simp: afail_def intro!: assuresI)

lemma assures_exec_sql [tx_rules]: "assures R t \<Longrightarrow> assures R (exec_sql t)"
  by (rule assuresI) (auto simp: exec_sql_def dest: assuresD split: sum.split_asm)

lemma assures_on_error [tx_rules]: "assures R m \<Longrightarrow> assures R (on_error P e m)"
  by (rule assuresI) (auto simp: on_error_def dest: assuresD split: sum.split_asm)

locale tx_order =
  fixes R :: "db \<Rightarrow> db \<Rightarrow> bool"
  assumes refl: "R d d"
    and trans: "R a b \<Longrightarrow> R b c \<Longrightarrow> R a c"
begin

lemma assures_reads [tx_rules]: "assures R (reads f)"
  by (auto simp: reads_def intro!: assuresI refl)

lemma assures_aret [tx_rules]: "assures R (aret a)"
  by (auto simp: aret_def intro!: assuresI refl)

lemma assures_abind [tx_rules]: "assures R m \<Longrightarrow> (\<And>a. assures R (f a)) \<Longrightarrow> assures R (abind m f)"
  by (rule assuresI) (auto simp: atx_simps dest: assuresD intro: trans)

lemma assures_query_row [tx_rules]: "assures R t \<Longrightarrow> assures R (query_row t)"
  unfolding query_row_def
  by (intro assures_abind assures_exec_sql, assumption) (auto intro!: assuresI refl split: option.split_asm)

lemma assures_decode [tx_rules]: "assures R (decode r)"
  unfolding decode_def by (rule assuresI) (auto intro: refl split: option.split_asm)

end

text \<open>Handlers that write also emit events.\<close>

locale tx_guarantee = tx_order +
  assumes emits: "R d (emit topic entity project payload now d)"
begin

lemma assures_api_emit [tx_rules]: "assures R (api_emit topic i p payload now)"
  unfolding api_emit_def by (intro assures_exec_sql assuresI) (auto intro: emits)

end

end
