(* ===== verification/ConfigApi.thy ===== *)
theory ConfigApi
  imports DlqApi TxLogic "HOL-Library.List_Lexorder" "HOL-Library.Char_ord"
begin

text \<open>
  Configuration through the API: retry policies (\<open>src/internal/api/policies.go\<close>), queues (\<open>queues.go\<close>) and
  schedules (\<open>schedules.go\<close>). The statements run into the checks, keys and references of the tables; inserting
  or updating a queue fires the trigger \<open>fl.spread\<close> (theory \<open>Admission\<close>), and deleting one cascades.

  JSON numbers of the rate limit are rationals here, the cast to \<open>numeric\<close> being exact. New ids are arguments.
\<close>

section \<open>Retry policies\<close>

record policyView =
  pv_ID :: uuid
  pv_ProjectID :: uuid
  pv_Name :: string
  pv_Kind :: string
  pv_MaxAttempts :: int
  pv_MaxLostAttempts :: int
  pv_BaseDelayMs :: int
  pv_MaxDelayMs :: int
  pv_Jitter :: bool

record policyReq =
  pq_Name :: "string option"
  pq_Kind :: "string option"
  pq_MaxAttempts :: "int option"
  pq_MaxLostAttempts :: "int option"
  pq_BaseDelayMs :: "int option"
  pq_MaxDelayMs :: "int option"
  pq_Jitter :: "bool option"

fun kind_text :: "backoff_kind \<Rightarrow> string" where
  "kind_text Fixed = ''fixed''"
| "kind_text Linear = ''linear''"
| "kind_text Exponential = ''exponential''"

definition kind_of :: "string \<Rightarrow> backoff_kind" where
  "kind_of s = (if s = ''fixed'' then Fixed else if s = ''linear'' then Linear else Exponential)"

definition validKind :: "string \<Rightarrow> bool" where
  "validKind s \<longleftrightarrow> s \<in> {''fixed'', ''linear'', ''exponential''}"

definition policy_view :: "retry_policy \<Rightarrow> policyView" where
  "policy_view p = \<lparr>pv_ID = p_id p, pv_ProjectID = p_project_id p, pv_Name = p_name p, pv_Kind = kind_text (p_kind p),
     pv_MaxAttempts = int (p_max_attempts p), pv_MaxLostAttempts = int (p_max_lost_attempts p),
     pv_BaseDelayMs = p_base_delay_ms p, pv_MaxDelayMs = p_max_delay_ms p, pv_Jitter = p_jitter p\<rparr>"

definition policy_row :: "policyView \<Rightarrow> retry_policy" where
  "policy_row v = \<lparr>p_id = pv_ID v, p_project_id = pv_ProjectID v, p_name = pv_Name v, p_kind = kind_of (pv_Kind v),
     p_max_attempts = nat (pv_MaxAttempts v), p_max_lost_attempts = nat (pv_MaxLostAttempts v),
     p_base_delay_ms = pv_BaseDelayMs v, p_max_delay_ms = pv_MaxDelayMs v, p_jitter = pv_Jitter v\<rparr>"

text \<open>The checks of \<open>retry_policies\<close>, on the values before they are stored.\<close>

definition check_policy :: "policyView \<Rightarrow> bool" where
  "check_policy v \<longleftrightarrow> 1 \<le> pv_MaxAttempts v \<and> pv_MaxAttempts v \<le> 50 \<and> 1 \<le> pv_MaxLostAttempts v \<and> pv_MaxLostAttempts v \<le> 50 \<and>
     0 < pv_BaseDelayMs v \<and> 0 < pv_MaxDelayMs v \<and> pv_BaseDelayMs v \<le> pv_MaxDelayMs v"

text \<open>\<open>insertPolicySQL\<close>: checks, then the keys, then the reference to the project.\<close>

definition insert_policy :: "policyView \<Rightarrow> policyView option tx" where
  "insert_policy v d =
    (if \<not> check_policy v then Inl check_violation
     else if \<exists>p \<in> set (retry_policies d). p_id p = pv_ID v \<or> (p_project_id p = pv_ProjectID v \<and> p_name p = pv_Name v)
       then Inl unique_violation
     else if pv_ProjectID v \<notin> pr_id ` set (projects d) then Inl fk_violation
     else Inr (Some v, d\<lparr>retry_policies := retry_policies d @ [policy_row v]\<rparr>))"

definition createPolicy :: "uuid \<Rightarrow> (policyReq, policyView) scoped" where
  "createPolicy i r sc now =
     abind (decode r) (\<lambda>req.
     let name = trim_space (coalesce (pq_Name req) ''''); kind = coalesce (pq_Kind req) ''exponential''
     in if name = '''' then afail (badRequest ''name required'')
     else if \<not> validKind kind then afail (badRequest ''kind must be fixed, linear, or exponential'')
     else abind (on_error isUnique (Api (conflict ''policy name already used in this project''))
            (on_error isCheck (Api (badRequest ''policy values out of range''))
              (query_row (insert_policy
                 \<lparr>pv_ID = i, pv_ProjectID = sc_projectID sc, pv_Name = name, pv_Kind = kind,
                  pv_MaxAttempts = coalesce (pq_MaxAttempts req) 5, pv_MaxLostAttempts = coalesce (pq_MaxLostAttempts req) 3,
                  pv_BaseDelayMs = coalesce (pq_BaseDelayMs req) 1000, pv_MaxDelayMs = coalesce (pq_MaxDelayMs req) 3600000,
                  pv_Jitter = coalesce (pq_Jitter req) True\<rparr>)))) (\<lambda>p.
          aret (answer 201 (Some p) i None)))"

definition listPolicies :: "('q, policyView list) scoped" where
  "listPolicies r sc now =
     abind (exec_sql (reads (\<lambda>d. map policy_view (sort_key p_name (filter (\<lambda>p. p_project_id p = sc_projectID sc) (retry_policies d))))))
       (\<lambda>out. aret (answer 0 (Some out) 0 None))"

definition getPolicy :: "('q, policyView) scoped" where
  "getPolicy r sc now =
     abind (on_no_rows (notFound ''retry_policy'') (query_row (reads (\<lambda>d. map_option policy_view (policy_of d (sc_entityID sc))))))
       (\<lambda>p. aret (answer 0 (Some p) 0 None))"

text \<open>\<open>updatePolicySQL\<close>: each column that is given replaces the old one.\<close>

definition merge_policy :: "policyReq \<Rightarrow> policyView \<Rightarrow> policyView" where
  "merge_policy req v =
     v\<lparr>pv_Name := coalesce (pq_Name req) (pv_Name v), pv_Kind := coalesce (pq_Kind req) (pv_Kind v),
       pv_MaxAttempts := coalesce (pq_MaxAttempts req) (pv_MaxAttempts v),
       pv_MaxLostAttempts := coalesce (pq_MaxLostAttempts req) (pv_MaxLostAttempts v),
       pv_BaseDelayMs := coalesce (pq_BaseDelayMs req) (pv_BaseDelayMs v),
       pv_MaxDelayMs := coalesce (pq_MaxDelayMs req) (pv_MaxDelayMs v), pv_Jitter := coalesce (pq_Jitter req) (pv_Jitter v)\<rparr>"

definition update_policy :: "uuid \<Rightarrow> policyReq \<Rightarrow> policyView option tx" where
  "update_policy i req d =
    (case policy_of d i of
       None \<Rightarrow> Inr (None, d)
     | Some p \<Rightarrow>
        (let v = merge_policy req (policy_view p)
         in if \<not> check_policy v then Inl check_violation
            else if \<exists>p' \<in> set (retry_policies d). p_id p' \<noteq> i \<and> p_project_id p' = p_project_id p \<and> p_name p' = pv_Name v
              then Inl unique_violation
            else Inr (Some v, d\<lparr>retry_policies := update_where (\<lambda>p. p_id p = i) (\<lambda>_. policy_row v) (retry_policies d)\<rparr>)))"

definition updatePolicy :: "(policyReq, policyView) scoped" where
  "updatePolicy r sc now =
     abind (decode r) (\<lambda>req.
     if \<not> validKind (coalesce (pq_Kind req) ''fixed'') then afail (badRequest ''kind must be fixed, linear, or exponential'')
     else abind (on_error isUnique (Api (conflict ''policy name already used in this project''))
            (on_error isCheck (Api (badRequest ''policy values out of range''))
              (query_row (update_policy (sc_entityID sc) req)))) (\<lambda>p.
          aret (answer 0 (Some p) 0 None)))"

text \<open>The references of \<open>queues\<close> and \<open>jobs\<close> to a policy restrict its deletion.\<close>

definition delete_policy :: "uuid \<Rightarrow> unit tx" where
  "delete_policy i d =
    (if policy_of d i \<noteq> None \<and> ((\<exists>q \<in> set (queues d). q_retry_policy_id q = i) \<or> (\<exists>j \<in> set (jobs d). j_retry_policy_id j = i))
     then Inl fk_violation
     else Inr ((), d\<lparr>retry_policies := delete_where (\<lambda>p. p_id p = i) (retry_policies d)\<rparr>))"

definition deletePolicy :: "('q, unit) scoped" where
  "deletePolicy r sc now =
     abind (on_error isFKViolation (Api (conflict ''policy still referenced by a queue or job'')) (exec_sql (delete_policy (sc_entityID sc))))
       (\<lambda>_. aret (answer 204 None 0 None))"

section \<open>Queues\<close>

record queueView =
  qv_ID :: uuid
  qv_ProjectID :: uuid
  qv_Name :: string
  qv_Paused :: bool
  qv_RetryPolicyID :: uuid
  qv_DefaultPriority :: int
  qv_MaxConcurrency :: int
  qv_Shards :: int
  qv_InFlight :: int
  qv_MaxDepth :: "int option"
  qv_RateLimitPerSec :: rat
  qv_RateBurst :: rat
  qv_BreakerState :: breaker_state
  qv_CreatedAt :: timestamptz

record queueReq =
  qq_Name :: "string option"
  qq_RetryPolicyID :: "string option"
  qq_MaxConcurrency :: "int option"
  qq_Shards :: "int option"
  qq_MaxDepth :: "int option"
  qq_DefaultPriority :: "int option"
  qq_RateLimitPerSec :: "rat option"
  qq_RateBurst :: "rat option"

definition queue_view :: "db \<Rightarrow> queue \<Rightarrow> queueView" where
  "queue_view d q = \<lparr>qv_ID = q_id q, qv_ProjectID = q_project_id q, qv_Name = q_name q, qv_Paused = q_paused q,
     qv_RetryPolicyID = q_retry_policy_id q, qv_DefaultPriority = q_default_priority q, qv_MaxConcurrency = q_max_concurrency q,
     qv_Shards = q_shards q, qv_InFlight = in_flight (q_id q) d, qv_MaxDepth = q_max_depth q,
     qv_RateLimitPerSec = q_rl_limit_per_sec q, qv_RateBurst = q_rl_burst q, qv_BreakerState = q_breaker_state q,
     qv_CreatedAt = q_created_at q\<rparr>"

text \<open>\<open>insertQueueSQL\<close> with the trigger \<open>queues_spread\<close>, which runs after the row is in.\<close>

definition queue_keys_clash :: "queue \<Rightarrow> queue list \<Rightarrow> bool" where
  "queue_keys_clash q qs \<longleftrightarrow> (\<exists>q' \<in> set qs. q_id q' = q_id q \<or> (q_project_id q' = q_project_id q \<and> q_name q' = q_name q))"

definition insert_queue :: "queue \<Rightarrow> timestamptz \<Rightarrow> queue option tx" where
  "insert_queue q now d =
    (if \<not> check_queue q then Inl check_violation
     else if queue_keys_clash q (queues d) then Inl unique_violation
     else if q_project_id q \<notin> pr_id ` set (projects d) \<or> policy_of d (q_retry_policy_id q) = None then Inl fk_violation
     else rbind (spread None q now (d\<lparr>queues := queues d @ [q]\<rparr>)) (\<lambda>d1. Inr (Some q, d1)))"

definition new_queue :: "uuid \<Rightarrow> uuid \<Rightarrow> string \<Rightarrow> uuid \<Rightarrow> timestamptz \<Rightarrow> queueReq \<Rightarrow> queue" where
  "new_queue i proj name policy now req =
     \<lparr>q_id = i, q_project_id = proj, q_name = name, q_paused = False, q_retry_policy_id = policy,
      q_default_priority = coalesce (qq_DefaultPriority req) 0, q_max_concurrency = coalesce (qq_MaxConcurrency req) 10,
      q_shards = coalesce (qq_Shards req) 1, q_max_depth = qq_MaxDepth req,
      q_rl_limit_per_sec = coalesce (qq_RateLimitPerSec req) 0, q_rl_burst = coalesce (qq_RateBurst req) 0,
      q_breaker_state = Closed, q_breaker_open_until = None, q_breaker_probe_budget = 0, q_created_at = now\<rparr>"

definition createQueue :: "uuid_lib \<Rightarrow> uuid \<Rightarrow> (queueReq, queueView) scoped" where
  "createQueue lib i r sc now =
     abind (decode r) (\<lambda>req.
     let name = trim_space (coalesce (qq_Name req) '''')
     in if name = '''' then afail (badRequest ''name required'')
     else case qq_RetryPolicyID req of
       None \<Rightarrow> afail (badRequest ''retry_policy_id required'')
     | Some s \<Rightarrow>
        (case parse_uuid lib s of
           None \<Rightarrow> afail (badRequest ''invalid retry_policy_id'')
         | Some policy \<Rightarrow>
             abind (assertPolicyOwned policy (sc_projectID sc)) (\<lambda>_.
             abind (on_error isUnique (Api (conflict ''queue name already used in this project''))
               (on_error isCheck (Api (badRequest ''queue values out of range''))
                 (query_row (insert_queue (new_queue i (sc_projectID sc) name policy now req) now)))) (\<lambda>q.
             aret (answer 201 (Some ((queue_view empty_db q)\<lparr>qv_InFlight := 0\<rparr>)) i None)))))"

definition listQueues :: "('q, queueView list) scoped" where
  "listQueues r sc now =
     abind (exec_sql (reads (\<lambda>d. map (queue_view d) (sort_key q_name (filter (\<lambda>q. q_project_id q = sc_projectID sc) (queues d))))))
       (\<lambda>out. aret (answer 0 (Some out) 0 None))"

definition getQueue :: "('q, queueView) scoped" where
  "getQueue r sc now =
     abind (on_no_rows (notFound ''queue'') (query_row (reads (\<lambda>d. map_option (queue_view d) (queue_of d (sc_entityID sc))))))
       (\<lambda>q. aret (answer 0 (Some q) 0 None))"

definition merge_queue :: "queueReq \<Rightarrow> uuid option \<Rightarrow> queue \<Rightarrow> queue" where
  "merge_queue req policy q =
     q\<lparr>q_name := coalesce (qq_Name req) (q_name q), q_max_concurrency := coalesce (qq_MaxConcurrency req) (q_max_concurrency q),
       q_max_depth := (case qq_MaxDepth req of None \<Rightarrow> q_max_depth q | Some m \<Rightarrow> Some m),
       q_default_priority := coalesce (qq_DefaultPriority req) (q_default_priority q),
       q_rl_limit_per_sec := coalesce (qq_RateLimitPerSec req) (q_rl_limit_per_sec q),
       q_rl_burst := coalesce (qq_RateBurst req) (q_rl_burst q), q_retry_policy_id := coalesce policy (q_retry_policy_id q),
       q_shards := coalesce (qq_Shards req) (q_shards q)\<rparr>"

text \<open>
  \<open>updateQueueSQL\<close>. The statement names \<open>shards\<close> and \<open>rl_burst\<close>, so the trigger fires on every update. The
  returned count of slots is read before the trigger.
\<close>

definition update_queue :: "uuid \<Rightarrow> queueReq \<Rightarrow> uuid option \<Rightarrow> timestamptz \<Rightarrow> queueView option tx" where
  "update_queue i req policy now d =
    (case queue_of d i of
       None \<Rightarrow> Inr (None, d)
     | Some q \<Rightarrow>
        (let new = merge_queue req policy q
         in if \<not> check_queue new then Inl check_violation
            else if \<exists>q' \<in> set (queues d). q_id q' \<noteq> i \<and> q_project_id q' = q_project_id q \<and> q_name q' = q_name new then Inl unique_violation
            else if policy_of d (q_retry_policy_id new) = None then Inl fk_violation
            else rbind (spread (Some q) new now (d\<lparr>queues := update_where (\<lambda>r. q_id r = i) (\<lambda>_. new) (queues d)\<rparr>)) (\<lambda>d1.
                 Inr (Some (queue_view d new), d1))))"

definition updateQueue :: "uuid_lib \<Rightarrow> (queueReq, queueView) scoped" where
  "updateQueue lib r sc now =
     abind (decode r) (\<lambda>req.
     abind (case qq_RetryPolicyID req of
         None \<Rightarrow> aret None
       | Some s \<Rightarrow> (case parse_uuid lib s of
             None \<Rightarrow> afail (badRequest ''invalid retry_policy_id'')
           | Some i \<Rightarrow> abind (assertPolicyOwned i (sc_projectID sc)) (\<lambda>_. aret (Some i)))) (\<lambda>policy.
     abind (on_error isUnique (Api (conflict ''queue name already used in this project''))
       (on_error isInUse (Api (conflict ''shards cannot change while the queue holds running jobs''))
       (on_error isCheck (Api (badRequest ''queue values out of range''))
         (query_row (update_queue (sc_entityID sc) req policy now))))) (\<lambda>q.
     aret (answer 0 (Some q) 0 None))))"

text \<open>
  \<open>deleteQueueSQL\<close> and what follows from it: shards, subscriptions, keys, statistics, summaries, schedules and
  jobs of the queue go with it, leases and dependency edges with the jobs, and a job elsewhere that names one of
  the schedules loses the reference. Executions, logs and dead letters have no reference and stay.
\<close>

definition drop_jobs :: "(job \<Rightarrow> bool) \<Rightarrow> db \<Rightarrow> db" where
  "drop_jobs P d =
    (let ids = j_id ` {j \<in> set (jobs d). P j}
     in d\<lparr>jobs := delete_where P (jobs d), job_leases := delete_where (\<lambda>l. l_job_id l \<in> ids) (job_leases d),
          job_dependencies := delete_where (\<lambda>(p, c). p \<in> ids \<or> c \<in> ids) (job_dependencies d)\<rparr>)"

definition delete_schedules :: "(schedule \<Rightarrow> bool) \<Rightarrow> db \<Rightarrow> pg_error + db" where
  "delete_schedules P d =
    (let ids = sc_id ` {s \<in> set (schedules d). P s}
     in rbind (update_jobs (\<lambda>j. \<exists>s \<in> ids. j_schedule_id j = Some s) (\<lambda>j. j\<lparr>j_schedule_id := None\<rparr>) d) (\<lambda>d1.
        Inr (d1\<lparr>schedules := delete_where P (schedules d1)\<rparr>)))"

definition delete_queue :: "uuid \<Rightarrow> unit tx" where
  "delete_queue i d =
    (case queue_of d i of
       None \<Rightarrow> Inr ((), d)
     | Some q \<Rightarrow>
        rbind (delete_schedules (\<lambda>s. sc_queue_id s = i) d) (\<lambda>d1.
        let d2 = drop_jobs (\<lambda>j. j_queue_id j = i) d1
        in Inr ((), d2\<lparr>queues := delete_where (\<lambda>q. q_id q = i) (queues d2),
             queue_shards := delete_where (\<lambda>s. s_queue_id s = i) (queue_shards d2),
             worker_queues := delete_where (\<lambda>(w, q). q = i) (worker_queues d2),
             idempotency_keys := delete_where (\<lambda>k. k_queue_id k = i) (idempotency_keys d2),
             queue_stats_minute := delete_where (\<lambda>m. m_queue_id m = i) (queue_stats_minute d2),
             failure_summaries := delete_where (\<lambda>f. fs_queue_id f = i) (failure_summaries d2)\<rparr>)))"

definition deleteQueue :: "('q, unit) scoped" where
  "deleteQueue r sc now = abind (exec_sql (delete_queue (sc_entityID sc))) (\<lambda>_. aret (answer 204 None 0 None))"

definition set_paused_sql :: "uuid \<Rightarrow> bool \<Rightarrow> bool option tx" where
  "set_paused_sql i paused d =
    (if queue_of d i = None then Inr (None, d)
     else rbind (update_queues (\<lambda>q. q_id q = i) (\<lambda>q. q\<lparr>q_paused := paused\<rparr>) d) (\<lambda>d1. Inr (Some paused, d1)))"

definition setPaused :: "bool \<Rightarrow> string \<Rightarrow> ('q, uuid \<times> bool) scoped" where
  "setPaused paused topic r sc now =
     abind (query_row (set_paused_sql (sc_entityID sc) paused)) (\<lambda>got.
     abind (api_emit topic (sc_entityID sc) (sc_projectID sc) [(''paused'', JBool got)] now) (\<lambda>_.
     aret (answer 0 (Some (sc_entityID sc, got)) 0 None)))"

definition pauseQueue :: "('q, uuid \<times> bool) scoped" where
  "pauseQueue = setPaused True ''queue.paused''"

definition resumeQueue :: "('q, uuid \<times> bool) scoped" where
  "resumeQueue = setPaused False ''queue.resumed''"

section \<open>Schedules\<close>

record scheduleReq =
  sr_Name :: "string option"
  sr_CronExpr :: "string option"
  sr_Timezone :: "string option"
  sr_JobType :: "string option"
  sr_Payload :: string
  sr_Overlap :: "string option"
  sr_Catchup :: "string option"
  sr_Enabled :: "bool option"

definition overlapPolicies :: "string \<Rightarrow> overlap_policy option" where
  "overlapPolicies s = (if s = ''allow'' then Some Overlap_allow else if s = ''skip'' then Some Overlap_skip else None)"

definition catchupPolicies :: "string \<Rightarrow> catchup_policy option" where
  "catchupPolicies s = (if s = ''skip'' then Some Catchup_skip else if s = ''fire_once'' then Some Catchup_fire_once else None)"

text \<open>\<open>tz_names\<close> is filled from the server's own list of time zones; \<open>known\<close> is membership in it.\<close>

definition checkCron :: "('loc, 'sched) cron_lib \<Rightarrow> string \<Rightarrow> string \<Rightarrow> timestamptz \<Rightarrow> timestamptz atx" where
  "checkCron lib expr tz now =
    (if load_location lib tz = None then afail (badRequest ''unknown timezone'')
     else case NextTick lib expr tz now of
       None \<Rightarrow> afail (badRequest ''cron_expr is not a valid five field expression'')
     | Some t \<Rightarrow> aret t)"

definition insert_schedule :: "(string \<Rightarrow> bool) \<Rightarrow> schedule \<Rightarrow> schedule option tx" where
  "insert_schedule known s d =
    (if \<exists>s' \<in> set (schedules d). sc_id s' = sc_id s \<or> (sc_queue_id s' = sc_queue_id s \<and> sc_name s' = sc_name s) then Inl unique_violation
     else if queue_of d (sc_queue_id s) = None \<or> \<not> known (sc_timezone s) then Inl fk_violation
     else Inr (Some s, d\<lparr>schedules := schedules d @ [s]\<rparr>))"

definition new_schedule :: "uuid \<Rightarrow> uuid \<Rightarrow> string \<Rightarrow> string \<Rightarrow> string \<Rightarrow> string \<Rightarrow> string \<Rightarrow> overlap_policy \<Rightarrow> catchup_policy \<Rightarrow> timestamptz \<Rightarrow>
    timestamptz \<Rightarrow> schedule" where
  "new_schedule i q name expr tz typ payload ov ca nextRun now =
     \<lparr>sc_id = i, sc_queue_id = q, sc_name = name, sc_cron_expr = expr, sc_timezone = tz, sc_job_type = typ, sc_payload = payload,
      sc_enabled = True, sc_overlap_policy = ov, sc_catchup_policy = ca, sc_next_run_at = nextRun, sc_last_fired_for = None,
      sc_created_at = now\<rparr>"

text \<open>The body of a schedule answer is the row: \<open>scheduleView\<close> has its columns.\<close>

definition createSchedule :: "('loc, 'sched) cron_lib \<Rightarrow> api_lib \<Rightarrow> (string \<Rightarrow> bool) \<Rightarrow> uuid \<Rightarrow> (scheduleReq, schedule) scoped" where
  "createSchedule clib lib known i r sc now =
     abind (decode r) (\<lambda>req.
     let name = trim_space (coalesce (sr_Name req) ''''); expr = trim_space (coalesce (sr_CronExpr req) '''');
         typ = trim_space (coalesce (sr_JobType req) '''');
         tz = (case sr_Timezone req of None \<Rightarrow> ''UTC'' | Some z \<Rightarrow> trim_space z)
     in if name = '''' \<or> expr = '''' \<or> typ = '''' then afail (badRequest ''name, cron_expr and job_type required'')
     else case overlapPolicies (coalesce (sr_Overlap req) ''skip'') of
       None \<Rightarrow> afail (badRequest ''overlap_policy must be allow or skip'')
     | Some ov \<Rightarrow>
        (case catchupPolicies (coalesce (sr_Catchup req) ''skip'') of
           None \<Rightarrow> afail (badRequest ''catchup_policy must be skip or fire_once'')
         | Some ca \<Rightarrow>
            if sr_Payload req \<noteq> '''' \<and> \<not> al_json_valid lib (sr_Payload req) then afail (badRequest ''payload is not valid json'')
            else abind (checkCron clib expr tz now) (\<lambda>nextRun.
              let payload = (if sr_Payload req = '''' then ''{}'' else sr_Payload req)
              in abind (on_error isUnique (Api (conflict ''schedule name already used in this queue''))
                   (on_error isFKViolation (Api (badRequest ''unknown timezone''))
                     (query_row (insert_schedule known (new_schedule i (sc_entityID sc) name expr tz typ payload ov ca nextRun now))))) (\<lambda>s.
                 aret (answer 201 (Some s) i None)))))"

definition listSchedules :: "('q, schedule list) scoped" where
  "listSchedules r sc now =
     abind (exec_sql (reads (\<lambda>d. sort_key sc_name (filter (\<lambda>s. sc_queue_id s = sc_entityID sc) (schedules d)))))
       (\<lambda>out. aret (answer 0 (Some out) 0 None))"

abbreviation schedule_of :: "db \<Rightarrow> uuid \<Rightarrow> schedule option" where
  "schedule_of d i \<equiv> lookup_row sc_id i (schedules d)"

definition getSchedule :: "('q, schedule) scoped" where
  "getSchedule r sc now =
     abind (on_no_rows (notFound ''schedule'') (query_row (reads (\<lambda>d. schedule_of d (sc_entityID sc)))))
       (\<lambda>s. aret (answer 0 (Some s) 0 None))"

definition merge_schedule :: "scheduleReq \<Rightarrow> overlap_policy option \<Rightarrow> catchup_policy option \<Rightarrow> timestamptz option \<Rightarrow> schedule \<Rightarrow> schedule" where
  "merge_schedule req ov ca nextRun s =
     s\<lparr>sc_name := coalesce (sr_Name req) (sc_name s), sc_cron_expr := coalesce (sr_CronExpr req) (sc_cron_expr s),
       sc_timezone := coalesce (sr_Timezone req) (sc_timezone s), sc_job_type := coalesce (sr_JobType req) (sc_job_type s),
       sc_payload := (if sr_Payload req = '''' then sc_payload s else sr_Payload req),
       sc_overlap_policy := coalesce ov (sc_overlap_policy s), sc_catchup_policy := coalesce ca (sc_catchup_policy s),
       sc_enabled := coalesce (sr_Enabled req) (sc_enabled s), sc_next_run_at := coalesce nextRun (sc_next_run_at s)\<rparr>"

definition update_schedule :: "(string \<Rightarrow> bool) \<Rightarrow> uuid \<Rightarrow> (schedule \<Rightarrow> schedule) \<Rightarrow> schedule option tx" where
  "update_schedule known i f d =
    (case schedule_of d i of
       None \<Rightarrow> Inr (None, d)
     | Some s \<Rightarrow>
        if \<exists>s' \<in> set (schedules d). sc_id s' \<noteq> i \<and> sc_queue_id s' = sc_queue_id s \<and> sc_name s' = sc_name (f s) then Inl unique_violation
        else if \<not> known (sc_timezone (f s)) then Inl fk_violation
        else Inr (Some (f s), d\<lparr>schedules := update_where (\<lambda>s. sc_id s = i) f (schedules d)\<rparr>))"

definition updateSchedule :: "('loc, 'sched) cron_lib \<Rightarrow> api_lib \<Rightarrow> (string \<Rightarrow> bool) \<Rightarrow> (scheduleReq, schedule) scoped" where
  "updateSchedule clib lib known r sc now =
     abind (decode r) (\<lambda>req.
     abind (on_no_rows (notFound ''schedule'') (query_row (reads (\<lambda>d. schedule_of d (sc_entityID sc))))) (\<lambda>cur.
     if (\<exists>o' \<in> set_option (sr_Overlap req). overlapPolicies o' = None) then afail (badRequest ''overlap_policy must be allow or skip'')
     else if (\<exists>c \<in> set_option (sr_Catchup req). catchupPolicies c = None) then afail (badRequest ''catchup_policy must be skip or fire_once'')
     else if sr_Payload req \<noteq> '''' \<and> \<not> al_json_valid lib (sr_Payload req) then afail (badRequest ''payload is not valid json'')
     else abind (if sr_CronExpr req \<noteq> None \<or> sr_Timezone req \<noteq> None
         then abind (checkCron clib (trim_space (coalesce (sr_CronExpr req) (sc_cron_expr cur)))
                (trim_space (coalesce (sr_Timezone req) (sc_timezone cur))) now) (\<lambda>t. aret (Some t))
         else aret None) (\<lambda>nextRun.
     abind (on_error isUnique (Api (conflict ''schedule name already used in this queue''))
       (on_error isFKViolation (Api (badRequest ''unknown timezone''))
         (query_row (update_schedule known (sc_entityID sc)
           (merge_schedule req (Option.bind (sr_Overlap req) overlapPolicies) (Option.bind (sr_Catchup req) catchupPolicies) nextRun))))) (\<lambda>s.
     aret (answer 0 (Some s) 0 None)))))"

definition deleteSchedule :: "('q, unit) scoped" where
  "deleteSchedule r sc now =
     abind (exec_sql (\<lambda>d. rbind (delete_schedules (\<lambda>s. sc_id s = sc_entityID sc) d) (\<lambda>d1. Inr ((), d1)))) (\<lambda>_. aret (answer 204 None 0 None))"

definition set_enabled_sql :: "uuid \<Rightarrow> bool \<Rightarrow> bool option tx" where
  "set_enabled_sql i on d =
    (if schedule_of d i = None then Inr (None, d)
     else Inr (Some on, d\<lparr>schedules := update_where (\<lambda>s. sc_id s = i) (\<lambda>s. s\<lparr>sc_enabled := on\<rparr>) (schedules d)\<rparr>))"

definition setScheduleEnabled :: "bool \<Rightarrow> ('q, uuid \<times> bool) scoped" where
  "setScheduleEnabled on r sc now =
     abind (on_no_rows (notFound ''schedule'') (query_row (set_enabled_sql (sc_entityID sc) on)))
       (\<lambda>got. aret (answer 0 (Some (sc_entityID sc, got)) 0 None))"

definition pauseSchedule :: "('q, uuid \<times> bool) scoped" where
  "pauseSchedule = setScheduleEnabled False"

definition resumeSchedule :: "('q, uuid \<times> bool) scoped" where
  "resumeSchedule = setScheduleEnabled True"

section \<open>The configuration stays well-formed\<close>

text \<open>
  What the rest of the system relies on: the keys and checks of the three tables, that every queue and job has
  its policy and every schedule its queue and a known time zone, and that a queue with \<open>n\<close> shards has exactly
  the shard rows \<open>0\<close> to \<open>n - 1\<close>.
\<close>

definition policies_ok :: "db \<Rightarrow> bool" where
  "policies_ok d \<longleftrightarrow> distinct (map p_id (retry_policies d)) \<and> distinct (map (\<lambda>p. (p_project_id p, p_name p)) (retry_policies d)) \<and>
     (\<forall>p \<in> set (retry_policies d). check_policy (policy_view p)) \<and>
     q_retry_policy_id ` set (queues d) \<union> j_retry_policy_id ` set (jobs d) \<subseteq> p_id ` set (retry_policies d)"

definition queues_ok :: "db \<Rightarrow> bool" where
  "queues_ok d \<longleftrightarrow> queues_wf d \<and> distinct (map (\<lambda>q. (q_project_id q, q_name q)) (queues d))"

definition shards_ok :: "db \<Rightarrow> bool" where
  "shards_ok d \<longleftrightarrow> s_queue_id ` set (queue_shards d) \<subseteq> q_id ` set (queues d) \<and>
     (\<forall>q \<in> set (queues d). distinct (map s_shard (shard_rows (q_id q) d)) \<and> set (map s_shard (shard_rows (q_id q) d)) = {0..<q_shards q})"

definition schedules_ok :: "(string \<Rightarrow> bool) \<Rightarrow> db \<Rightarrow> bool" where
  "schedules_ok known d \<longleftrightarrow> distinct (map sc_id (schedules d)) \<and> distinct (map (\<lambda>s. (sc_queue_id s, sc_name s)) (schedules d)) \<and>
     (\<forall>s \<in> set (schedules d). sc_queue_id s \<in> q_id ` set (queues d) \<and> known (sc_timezone s))"

definition config_ok :: "(string \<Rightarrow> bool) \<Rightarrow> db \<Rightarrow> bool" where
  "config_ok known d \<longleftrightarrow> policies_ok d \<and> queues_ok d \<and> shards_ok d \<and> schedules_ok known d"

definition keeps_config :: "(string \<Rightarrow> bool) \<Rightarrow> db \<Rightarrow> db \<Rightarrow> bool" where
  "keeps_config known d d' \<longleftrightarrow> (config_ok known d \<longrightarrow> config_ok known d')"

lemma config_frame:
  assumes "retry_policies d' = retry_policies d" and "queues d' = queues d" and "queue_shards d' = queue_shards d"
    and "schedules d' = schedules d" and "j_retry_policy_id ` set (jobs d') \<subseteq> j_retry_policy_id ` set (jobs d)"
  shows "keeps_config known d d'"
proof -
  have "policies_ok d'" if "policies_ok d"
    using that assms(1,2) subset_trans [OF assms(5)] unfolding policies_ok_def by simp
  then show ?thesis
    using assms(1-4) unfolding keeps_config_def config_ok_def
    by (simp add: queues_ok_def queues_wf_def shards_ok_def schedules_ok_def shard_rows_def)
qed

interpretation configuration: tx_guarantee "keeps_config known" for known
proof
  show "keeps_config known d d" for d by (simp add: keeps_config_def)
  show "keeps_config known a b \<Longrightarrow> keeps_config known b c \<Longrightarrow> keeps_config known a c" for a b c by (simp add: keeps_config_def)
  show "keeps_config known d (emit topic entity project payload now d)" for d topic entity project payload now
    by (rule config_frame) simp_all
qed

text \<open>A key survives an update of one row that no other row's new key meets.\<close>

lemma distinct_update_one:
  assumes "distinct (map idf xs)" and "distinct (map k xs)"
    and "\<forall>r \<in> set xs. \<forall>s \<in> set xs. idf r \<noteq> i \<longrightarrow> idf s = i \<longrightarrow> k r \<noteq> k (f s)"
  shows "distinct (map k (update_where (\<lambda>r. idf r = i) f xs))"
  using assms
proof (induction xs)
  case (Cons x xs)
  show ?case
  proof (cases "idf x = i")
    case True
    then have "\<forall>r \<in> set xs. idf r \<noteq> i" using Cons.prems(1) by (metis distinct.simps(2) imageI list.simps(9) set_map)
    then have "update_where (\<lambda>r. idf r = i) f xs = xs" by (simp add: update_where_none)
    with True Cons.prems \<open>\<forall>r \<in> set xs. idf r \<noteq> i\<close> show ?thesis by (auto simp: rev_image_eqI)
  next
    case False
    have "k x \<notin> k ` set (update_where (\<lambda>r. idf r = i) f xs)"
      using False Cons.prems(2,3) by (auto simp: in_update_where_iff set_update_where)
    with False Cons show ?thesis by simp
  qed
qed simp

lemma lookup_row_None_image: "lookup_row k i rs = None \<longleftrightarrow> i \<notin> k ` set rs"
  unfolding lookup_row_None_iff by blast

lemma policy_of_Some: "policy_of d i = Some p \<Longrightarrow> p \<in> set (retry_policies d) \<and> p_id p = i"
  by (rule lookup_row_SomeD)

lemma keeps_insert_policy [tx_rules]: "assures (keeps_config known) (insert_policy v)"
proof (rule assuresI)
  fix d r d' assume "insert_policy v d = Inr (r, d')"
  then have ok: "check_policy v" "\<forall>p \<in> set (retry_policies d). p_id p \<noteq> pv_ID v \<and> \<not> (p_project_id p = pv_ProjectID v \<and> p_name p = pv_Name v)"
    and d': "d' = d\<lparr>retry_policies := retry_policies d @ [policy_row v]\<rparr>"
    by (auto simp: insert_policy_def split: if_split_asm)
  have "check_policy (policy_view (policy_row v))" using ok(1) by (simp add: check_policy_def policy_view_def policy_row_def)
  moreover have "p_id (policy_row v) = pv_ID v" "p_project_id (policy_row v) = pv_ProjectID v" "p_name (policy_row v) = pv_Name v"
    by (simp_all add: policy_row_def)
  ultimately show "keeps_config known d d'"
    using ok(2) unfolding d' keeps_config_def config_ok_def policies_ok_def
    by (auto simp: queues_ok_def queues_wf_def shards_ok_def schedules_ok_def shard_rows_def)
qed

lemma keeps_update_policy [tx_rules]: "assures (keeps_config known) (update_policy i req)"
proof (rule assuresI)
  fix d r d' assume run: "update_policy i req d = Inr (r, d')"
  show "keeps_config known d d'"
  proof (cases "policy_of d i")
    case None
    with run show ?thesis by (simp add: update_policy_def keeps_config_def)
  next
    case (Some p)
    define v where "v = merge_policy req (policy_view p)"
    have p: "p \<in> set (retry_policies d)" "p_id p = i" using policy_of_Some [OF Some] by auto
    have vid: "p_id (policy_row v) = i" "p_project_id (policy_row v) = p_project_id p" "p_name (policy_row v) = pv_Name v"
      using p(2) by (simp_all add: v_def policy_row_def merge_policy_def policy_view_def)
    from run Some have ck: "check_policy v"
      and un: "\<forall>p' \<in> set (retry_policies d). p_id p' \<noteq> i \<longrightarrow> \<not> (p_project_id p' = p_project_id p \<and> p_name p' = pv_Name v)"
      and d': "d' = d\<lparr>retry_policies := update_where (\<lambda>p. p_id p = i) (\<lambda>_. policy_row v) (retry_policies d)\<rparr>"
      by (auto simp: update_policy_def Let_def v_def split: if_split_asm)
    have ck': "check_policy (policy_view (policy_row v))" using ck by (simp add: check_policy_def policy_view_def policy_row_def)
    show ?thesis
      unfolding keeps_config_def config_ok_def
    proof (intro impI conjI; elim conjE)
      assume ok: "policies_ok d" "queues_ok d" "shards_ok d" "schedules_ok known d"
      have ids: "map p_id (retry_policies d') = map p_id (retry_policies d)"
        unfolding d' using vid(1) by (induction "retry_policies d") (auto simp: map_update_where update_where_map)
      have "distinct (map (\<lambda>p. (p_project_id p, p_name p)) (retry_policies d'))"
        using ok(1) un vid unfolding d' policies_ok_def by (simp, intro distinct_update_one) auto
      moreover have "\<forall>q \<in> set (retry_policies d'). check_policy (policy_view q)"
        using ok(1) ck' unfolding d' policies_ok_def by (auto simp: set_update_where)
      moreover have "p_id ` set (retry_policies d') = p_id ` set (retry_policies d)" using ids by (metis set_map)
      ultimately show "policies_ok d'" using ok(1) ids unfolding policies_ok_def by (simp add: d')
      show "queues_ok d'" "shards_ok d'" "schedules_ok known d'"
        using ok by (simp_all add: d' queues_ok_def queues_wf_def shards_ok_def schedules_ok_def shard_rows_def)
    qed
  qed
qed

lemma keeps_delete_policy [tx_rules]: "assures (keeps_config known) (delete_policy i)"
proof (rule assuresI)
  fix d r d' assume run: "delete_policy i d = Inr (r, d')"
  then have d': "d' = d\<lparr>retry_policies := delete_where (\<lambda>p. p_id p = i) (retry_policies d)\<rparr>"
    by (auto simp: delete_policy_def split: if_split_asm)
  have free: "i \<notin> q_retry_policy_id ` set (queues d) \<union> j_retry_policy_id ` set (jobs d)" if "policies_ok d"
  proof (cases "policy_of d i")
    case None
    then have "i \<notin> p_id ` set (retry_policies d)" unfolding lookup_row_None_iff by blast
    then show ?thesis using that unfolding policies_ok_def by blast
  next
    case (Some p)
    then show ?thesis using run by (auto simp: delete_policy_def split: if_split_asm)
  qed
  have ids: "p_id ` set (retry_policies d') = p_id ` set (retry_policies d) - {i}" by (auto simp: d' delete_where_def)
  have "policies_ok d'" if ok: "policies_ok d"
  proof -
    have "q_retry_policy_id ` set (queues d') \<union> j_retry_policy_id ` set (jobs d') \<subseteq> p_id ` set (retry_policies d) - {i}"
      using ok free [OF ok] unfolding policies_ok_def d' by simp blast
    then show ?thesis using ok unfolding policies_ok_def ids by (auto simp: d' delete_where_def distinct_map_filter)
  qed
  then show "keeps_config known d d'"
    unfolding keeps_config_def config_ok_def
    by (simp add: d' queues_ok_def queues_wf_def shards_ok_def schedules_ok_def shard_rows_def)
qed

lemma spread_frame: "spread old new now d = Inr d' \<Longrightarrow> \<exists>ss. d' = d\<lparr>queue_shards := ss\<rparr>"
  by (auto simp: spread_def Let_def split: if_split_asm)

text \<open>The trigger leaves one row per shard of the new queue and the other queues alone.\<close>

lemma spread_shards_ok:
  assumes "spread old new now e = Inr d'" and "queue_shards e = queue_shards d" and "shards_ok d"
    and "case old of None \<Rightarrow> q_id new \<notin> q_id ` set (queues d) | Some q \<Rightarrow> q \<in> set (queues d) \<and> q_id q = q_id new"
    and "set (queues e) \<subseteq> insert new {q \<in> set (queues d). q_id q \<noteq> q_id new}"
    and "insert (q_id new) (q_id ` set (queues d)) \<subseteq> q_id ` set (queues e)"
  shows "shards_ok d'"
proof -
  have rows: "shard_rows q e = shard_rows q d" for q by (simp add: shard_rows_def assms(2))
  have old: "distinct (map s_shard (shard_rows (q_id new) e)) \<and>
      set (map s_shard (shard_rows (q_id new) e)) = {0..<(case old of None \<Rightarrow> 0 | Some o' \<Rightarrow> q_shards o')}"
  proof (cases old)
    case None
    then have "\<forall>s \<in> set (queue_shards d). s_queue_id s \<noteq> q_id new"
      using assms(3,4) unfolding shards_ok_def by (metis imageI option.case(1) subsetD)
    then have "shard_rows (q_id new) d = []" by (simp add: shard_rows_def filter_empty_conv)
    then show ?thesis using None by (simp add: rows)
  next
    case (Some q)
    then have q: "q \<in> set (queues d)" "q_id q = q_id new" using assms(4) by auto
    then have "distinct (map s_shard (shard_rows (q_id q) d)) \<and> set (map s_shard (shard_rows (q_id q) d)) = {0..<q_shards q}"
      using assms(3) unfolding shards_ok_def by blast
    then show ?thesis using Some q(2) by (simp add: rows)
  qed
  from spread_shards [of new e old now] old assms(1)
  have new: "distinct (map s_shard (shard_rows (q_id new) d'))" "set (map s_shard (shard_rows (q_id new) d')) = {0..<q_shards new}"
    and other: "\<forall>q'. q' \<noteq> q_id new \<longrightarrow> shard_rows q' d' = shard_rows q' e" by blast+
  from spread_frame [OF assms(1)] have qs: "queues d' = queues e" by auto
  show ?thesis
    unfolding shards_ok_def
  proof (intro conjI ballI subsetI)
    fix x assume "x \<in> s_queue_id ` set (queue_shards d')"
    then have x: "x = q_id new \<or> shard_rows x d' \<noteq> []" by (auto simp: shard_rows_def filter_empty_conv)
    show "x \<in> q_id ` set (queues d')"
    proof (cases "x = q_id new")
      case True
      then show ?thesis using assms(6) by (simp add: qs)
    next
      case False
      with x other rows have "shard_rows x d \<noteq> []" by simp
      then have "x \<in> s_queue_id ` set (queue_shards d)" by (auto simp: shard_rows_def filter_empty_conv)
      with assms(3) have "x \<in> q_id ` set (queues d)" unfolding shards_ok_def by blast
      with assms(6) show ?thesis unfolding qs by (meson insert_subset subsetD)
    qed
  next
    fix q assume "q \<in> set (queues d')"
    then consider "q = new" | "q \<in> set (queues d)" "q_id q \<noteq> q_id new" using assms(5) qs by auto
    then have "distinct (map s_shard (shard_rows (q_id q) d')) \<and> set (map s_shard (shard_rows (q_id q) d')) = {0..<q_shards q}"
    proof cases
      case 1
      with new show ?thesis by simp
    next
      case 2
      with other rows have "shard_rows (q_id q) d' = shard_rows (q_id q) d" by simp
      with 2(1) assms(3) show ?thesis unfolding shards_ok_def by simp
    qed
    then show "distinct (map s_shard (shard_rows (q_id q) d'))" "set (map s_shard (shard_rows (q_id q) d')) = {0..<q_shards q}" by auto
  qed
qed

lemma keeps_insert_queue [tx_rules]: "assures (keeps_config known) (insert_queue q now)"
proof (rule assuresI)
  fix d r d' assume run: "insert_queue q now d = Inr (r, d')"
  then have ck: "check_queue q" "\<not> queue_keys_clash q (queues d)" "policy_of d (q_retry_policy_id q) \<noteq> None"
    and sp: "spread None q now (d\<lparr>queues := queues d @ [q]\<rparr>) = Inr d'"
    by (auto simp: insert_queue_def result_simps split: if_split_asm)
  from ck(2) have fresh: "q_id q \<notin> q_id ` set (queues d)" "(q_project_id q, q_name q) \<notin> (\<lambda>q. (q_project_id q, q_name q)) ` set (queues d)"
    by (auto simp: queue_keys_clash_def)
  from spread_frame [OF sp] obtain ss where d': "d' = d\<lparr>queues := queues d @ [q], queue_shards := ss\<rparr>" by auto
  show "keeps_config known d d'"
    unfolding keeps_config_def config_ok_def
  proof (intro impI; elim conjE; intro conjI)
    assume ok: "policies_ok d" "queues_ok d" "shards_ok d" "schedules_ok known d"
    have "q_retry_policy_id q \<in> p_id ` set (retry_policies d)" using ck(3) by (simp only: lookup_row_None_image not_not)
    then show "policies_ok d'" using ok(1) by (simp add: d' policies_ok_def)
    show "queues_ok d'" using ok(2) ck(1) fresh by (simp add: d' queues_ok_def queues_wf_def)
    show "shards_ok d'"
    proof (rule spread_shards_ok [OF sp _ ok(3)])
      have "\<forall>r \<in> set (queues d). q_id r \<noteq> q_id q" using fresh(1) by (metis imageI)
      then show "set (queues (d\<lparr>queues := queues d @ [q]\<rparr>)) \<subseteq> insert q {r \<in> set (queues d). q_id r \<noteq> q_id q}" by auto
    qed (use fresh(1) in auto)
    show "schedules_ok known d'" using ok(4) by (auto simp: d' schedules_ok_def)
  qed
qed

lemma keeps_update_queue [tx_rules]: "assures (keeps_config known) (update_queue i req policy now)"
proof (rule assuresI)
  fix d r d' assume run: "update_queue i req policy now d = Inr (r, d')"
  show "keeps_config known d d'"
  proof (cases "queue_of d i")
    case None
    with run show ?thesis by (simp add: update_queue_def keeps_config_def)
  next
    case (Some q)
    define new where "new = merge_queue req policy q"
    let ?e = "d\<lparr>queues := update_where (\<lambda>r. q_id r = i) (\<lambda>_. new) (queues d)\<rparr>"
    have q: "q \<in> set (queues d)" "q_id q = i" using lookup_row_SomeD [OF Some] by auto
    have nid: "q_id new = i" "q_project_id new = q_project_id q" using q(2) by (simp_all add: new_def merge_queue_def)
    from run Some have ck: "check_queue new" "policy_of d (q_retry_policy_id new) \<noteq> None"
      and un: "\<forall>q' \<in> set (queues d). q_id q' \<noteq> i \<longrightarrow> \<not> (q_project_id q' = q_project_id q \<and> q_name q' = q_name new)"
      and sp: "spread (Some q) new now ?e = Inr d'"
      by (auto simp: update_queue_def Let_def new_def [symmetric] result_simps split: if_split_asm)
    from spread_frame [OF sp] obtain ss where d': "d' = ?e\<lparr>queue_shards := ss\<rparr>" by blast
    have qs: "set (queues ?e) = insert new {r \<in> set (queues d). q_id r \<noteq> i}" using q by (auto simp: set_update_where)
    have ids: "map q_id (queues ?e) = map q_id (queues d)"
      using nid(1) by (induction "queues d") (auto simp: map_update_where update_where_map)
    then have idset: "q_id ` set (queues ?e) = q_id ` set (queues d)" by (metis set_map)
    show ?thesis
      unfolding keeps_config_def config_ok_def
    proof (intro impI; elim conjE; intro conjI)
      assume ok: "policies_ok d" "queues_ok d" "shards_ok d" "schedules_ok known d"
      have "q_retry_policy_id new \<in> p_id ` set (retry_policies d)" using ck(2) by (simp only: lookup_row_None_image not_not)
      then have "q_retry_policy_id ` set (queues ?e) \<subseteq> p_id ` set (retry_policies d)" using ok(1) unfolding qs policies_ok_def by blast
      then show "policies_ok d'" using ok(1) unfolding policies_ok_def d' by simp
      have "distinct (map (\<lambda>q. (q_project_id q, q_name q)) (queues ?e))"
        using ok(2) un nid(2) unfolding queues_ok_def queues_wf_def by (simp, intro distinct_update_one) auto
      moreover have "\<forall>r \<in> set (queues ?e). check_queue r" using ok(2) ck(1) unfolding qs queues_ok_def queues_wf_def by blast
      ultimately show "queues_ok d'" using ok(2) ids unfolding queues_ok_def queues_wf_def d' by simp
      show "shards_ok d'"
      proof (rule spread_shards_ok [OF sp _ ok(3)])
        show "set (queues ?e) \<subseteq> insert new {r \<in> set (queues d). q_id r \<noteq> q_id new}" unfolding qs nid(1) by blast
        show "insert (q_id new) (q_id ` set (queues d)) \<subseteq> q_id ` set (queues ?e)" unfolding idset nid(1) using q by blast
        show "case Some q of None \<Rightarrow> q_id new \<notin> q_id ` set (queues d) | Some q \<Rightarrow> q \<in> set (queues d) \<and> q_id q = q_id new"
          using q nid(1) by simp
      qed simp
      show "schedules_ok known d'" using ok(4) idset unfolding schedules_ok_def d' by simp
    qed
  qed
qed

lemma shards_okD: "shards_ok d \<Longrightarrow> s_queue_id ` set (queue_shards d) \<subseteq> q_id ` set (queues d)"
  by (simp add: shards_ok_def)

lemma ball_update_where: "\<forall>q \<in> set xs. Q q \<Longrightarrow> (\<And>q. Q q \<Longrightarrow> Q (f q)) \<Longrightarrow> \<forall>q \<in> set (update_where P f xs). Q q"
  by (auto simp: in_update_where_iff)

lemma check_paused: "check_queue (q\<lparr>q_paused := b\<rparr>) = check_queue q"
  by (simp add: check_queue_def)

lemma keeps_set_paused [tx_rules]: "assures (keeps_config known) (set_paused_sql i paused)"
proof (rule assuresI)
  fix d r d' assume run: "set_paused_sql i paused d = Inr (r, d')"
  let ?f = "\<lambda>q. q\<lparr>q_paused := paused\<rparr>" let ?U = "update_where (\<lambda>q. q_id q = i) ?f (queues d)"
  consider "d' = d" | "d' = d\<lparr>queues := ?U\<rparr>"
    using run by (auto simp: set_paused_sql_def update_queues_def try_update_check_Inr_iff result_simps split: if_split_asm)
  then show "keeps_config known d d'"
  proof cases
    case 2
    have m: "map q_id ?U = map q_id (queues d)" "map (\<lambda>q. (q_project_id q, q_name q)) ?U = map (\<lambda>q. (q_project_id q, q_name q)) (queues d)"
      "map q_retry_policy_id ?U = map q_retry_policy_id (queues d)" by (simp_all add: map_update_where)
    then have s: "q_id ` set ?U = q_id ` set (queues d)" "q_retry_policy_id ` set ?U = q_retry_policy_id ` set (queues d)" by (metis set_map)+
    let ?rows = "\<lambda>q. distinct (map s_shard (shard_rows (q_id q) d)) \<and> set (map s_shard (shard_rows (q_id q) d)) = {0..<q_shards q}"
    have chk: "\<forall>q \<in> set ?U. check_queue q" if "\<forall>q \<in> set (queues d). check_queue q"
      using that by (rule ball_update_where) (simp add: check_paused)
    have "\<forall>q \<in> set ?U. ?rows q" if "\<forall>q \<in> set (queues d). ?rows q"
      using that by (rule ball_update_where) simp
    moreover have "shard_rows k d' = shard_rows k d" for k by (simp add: 2 shard_rows_def)
    ultimately have "shards_ok d'" if "shards_ok d" using that s(1) unfolding shards_ok_def 2 by simp
    moreover have "queues_ok d'" if "queues_ok d" using that m(1,2) chk unfolding queues_ok_def queues_wf_def 2 by simp
    moreover have "policies_ok d'" if "policies_ok d" using that s(2) unfolding policies_ok_def 2 by simp
    moreover have "schedules_ok known d'" if "schedules_ok known d" using that s(1) unfolding schedules_ok_def 2 by simp
    ultimately show ?thesis unfolding keeps_config_def config_ok_def by blast
  qed (simp add: keeps_config_def)
qed

lemma delete_schedules_Inr:
  assumes "delete_schedules P d = Inr d'"
  shows "\<exists>js. d' = d\<lparr>jobs := js, schedules := delete_where P (schedules d)\<rparr> \<and> j_retry_policy_id ` set js = j_retry_policy_id ` set (jobs d) \<and>
    map j_id js = map j_id (jobs d)"
proof -
  let ?P = "\<lambda>j. \<exists>s \<in> sc_id ` {s \<in> set (schedules d). P s}. j_schedule_id j = Some s" and ?f = "\<lambda>j :: job. j\<lparr>j_schedule_id := None\<rparr>"
  have d': "d' = d\<lparr>jobs := update_where ?P ?f (jobs d), schedules := delete_where P (schedules d)\<rparr>"
    using assms by (auto simp: delete_schedules_def Let_def update_jobs_Inr_iff result_simps)
  have "map j_retry_policy_id (update_where ?P ?f (jobs d)) = map j_retry_policy_id (jobs d)"
    "map j_id (update_where ?P ?f (jobs d)) = map j_id (jobs d)" by (simp_all add: map_update_where)
  then show ?thesis unfolding d' by (metis set_map)
qed

lemma schedules_ok_delete: "schedules_ok known d \<Longrightarrow> queues d' = queues d \<Longrightarrow> schedules d' = delete_where P (schedules d) \<Longrightarrow> schedules_ok known d'"
  by (simp add: schedules_ok_def delete_where_def distinct_map_filter)

lemma keeps_delete_schedules: "delete_schedules P d = Inr d' \<Longrightarrow> keeps_config known d d'"
proof -
  assume "delete_schedules P d = Inr d'"
  from delete_schedules_Inr [OF this] obtain js where d': "d' = d\<lparr>jobs := js, schedules := delete_where P (schedules d)\<rparr>"
    and js: "j_retry_policy_id ` set js = j_retry_policy_id ` set (jobs d)" by blast
  have "schedules_ok known d'" if "schedules_ok known d" using that by (rule schedules_ok_delete) (simp_all add: d')
  then show ?thesis
    using js unfolding keeps_config_def config_ok_def
    by (simp add: d' policies_ok_def queues_ok_def queues_wf_def shards_ok_def shard_rows_def)
qed

lemma keeps_delete_queue [tx_rules]: "assures (keeps_config known) (delete_queue i)"
proof (rule assuresI)
  fix d r d' assume run: "delete_queue i d = Inr (r, d')"
  show "keeps_config known d d'"
  proof (cases "queue_of d i")
    case None
    with run show ?thesis by (simp add: delete_queue_def keeps_config_def)
  next
    case (Some q)
    with run obtain d1 where del: "delete_schedules (\<lambda>s. sc_queue_id s = i) d = Inr d1"
      and d': "queues d' = delete_where (\<lambda>q. q_id q = i) (queues d1)" "queue_shards d' = delete_where (\<lambda>s. s_queue_id s = i) (queue_shards d1)"
        "retry_policies d' = retry_policies d1" "schedules d' = schedules d1" "jobs d' = delete_where (\<lambda>j. j_queue_id j = i) (jobs d1)"
      by (auto simp: delete_queue_def drop_jobs_def Let_def result_simps)
    from delete_schedules_Inr [OF del] have gone: "\<forall>s \<in> set (schedules d1). sc_queue_id s \<noteq> i" by (auto simp: delete_where_def)
    have "config_ok known d'" if "config_ok known d1"
    proof -
      from that have ok: "policies_ok d1" "queues_ok d1" "shards_ok d1" "schedules_ok known d1" by (simp_all add: config_ok_def)
      have qs: "set (queues d') = {q \<in> set (queues d1). q_id q \<noteq> i}" "set (jobs d') \<subseteq> set (jobs d1)" by (auto simp: d' delete_where_def)
      have rows: "shard_rows k d' = shard_rows k d1" if "k \<noteq> i" for k
        using that by (simp add: shard_rows_def d' delete_where_def) (metis (mono_tags, lifting) filter_cong)
      have "q_retry_policy_id ` set (queues d') \<union> j_retry_policy_id ` set (jobs d') \<subseteq> p_id ` set (retry_policies d')"
        using ok(1) qs unfolding policies_ok_def d'(3) by blast
      then have "policies_ok d'" using ok(1) unfolding policies_ok_def d'(3) by blast
      moreover have "queues_ok d'" using ok(2) by (auto simp: queues_ok_def queues_wf_def d' delete_where_def distinct_map_filter)
      moreover have "shards_ok d'"
        unfolding shards_ok_def
      proof (intro conjI ballI)
        show "s_queue_id ` set (queue_shards d') \<subseteq> q_id ` set (queues d')"
        proof
          fix x assume "x \<in> s_queue_id ` set (queue_shards d')"
          then have "x \<in> s_queue_id ` set (queue_shards d1)" "x \<noteq> i" by (auto simp: d' delete_where_def)
          with shards_okD [OF ok(3)] obtain q where "q \<in> set (queues d1)" "q_id q = x" by (metis imageE subsetD)
          with \<open>x \<noteq> i\<close> show "x \<in> q_id ` set (queues d')" unfolding qs by blast
        qed
        fix q assume "q \<in> set (queues d')"
        then have q: "q \<in> set (queues d1)" "q_id q \<noteq> i" unfolding qs by auto
        from ok(3) have "\<forall>q \<in> set (queues d1). distinct (map s_shard (shard_rows (q_id q) d1)) \<and>
            set (map s_shard (shard_rows (q_id q) d1)) = {0..<q_shards q}" unfolding shards_ok_def by (rule conjunct2)
        from bspec [OF this q(1)]
        show "distinct (map s_shard (shard_rows (q_id q) d'))" "set (map s_shard (shard_rows (q_id q) d')) = {0..<q_shards q}"
          unfolding rows [OF q(2)] by (rule conjunct1, rule conjunct2)
      qed
      moreover have "schedules_ok known d'"
        using ok(4) gone unfolding schedules_ok_def d'(4) by (auto simp: qs(1))
      ultimately show ?thesis by (simp add: config_ok_def)
    qed
    with keeps_delete_schedules [OF del, of known] show ?thesis by (simp add: keeps_config_def)
  qed
qed

lemma keeps_insert_schedule [tx_rules]: "assures (keeps_config known) (insert_schedule known s)"
proof (rule assuresI)
  fix d r d' assume "insert_schedule known s d = Inr (r, d')"
  then have fresh: "\<forall>s' \<in> set (schedules d). sc_id s' \<noteq> sc_id s \<and> \<not> (sc_queue_id s' = sc_queue_id s \<and> sc_name s' = sc_name s)"
    and refs: "queue_of d (sc_queue_id s) \<noteq> None" "known (sc_timezone s)" and d': "d' = d\<lparr>schedules := schedules d @ [s]\<rparr>"
    by (auto simp: insert_schedule_def split: if_split_asm)
  from refs(1) have "sc_queue_id s \<in> q_id ` set (queues d)" by (simp only: lookup_row_None_image not_not)
  with fresh refs(2) have "schedules_ok known d'" if "schedules_ok known d"
    using that unfolding schedules_ok_def d' by auto
  then show "keeps_config known d d'"
    unfolding keeps_config_def config_ok_def
    by (simp add: d' policies_ok_def queues_ok_def queues_wf_def shards_ok_def shard_rows_def)
qed

lemma keeps_update_schedule:
  assumes f: "\<And>s. sc_id (f s) = sc_id s" "\<And>s. sc_queue_id (f s) = sc_queue_id s"
  shows "assures (keeps_config known) (update_schedule known i f)"
proof (rule assuresI)
  fix d r d' assume run: "update_schedule known i f d = Inr (r, d')"
  show "keeps_config known d d'"
  proof (cases "schedule_of d i")
    case None
    with run show ?thesis by (simp add: update_schedule_def keeps_config_def)
  next
    case (Some s)
    have s: "s \<in> set (schedules d)" "sc_id s = i" using lookup_row_SomeD [OF Some] by auto
    from run Some have un: "\<forall>s' \<in> set (schedules d). sc_id s' \<noteq> i \<longrightarrow> \<not> (sc_queue_id s' = sc_queue_id s \<and> sc_name s' = sc_name (f s))"
      and tz: "known (sc_timezone (f s))" and d': "d' = d\<lparr>schedules := update_where (\<lambda>s. sc_id s = i) f (schedules d)\<rparr>"
      by (auto simp: update_schedule_def split: if_split_asm)
    have "schedules_ok known d'" if ok: "schedules_ok known d"
    proof -
      have one: "r = s" if "r \<in> set (schedules d)" "sc_id r = i" for r
        using that s ok key_unique [of sc_id "schedules d" r s] by (simp add: schedules_ok_def)
      have "distinct (map (\<lambda>s. (sc_queue_id s, sc_name s)) (update_where (\<lambda>s. sc_id s = i) f (schedules d)))"
        using ok un one f(2) unfolding schedules_ok_def by (intro distinct_update_one) auto
      moreover have "\<forall>r \<in> set (update_where (\<lambda>s. sc_id s = i) f (schedules d)). sc_queue_id r \<in> q_id ` set (queues d) \<and> known (sc_timezone r)"
        using ok one tz f(2) unfolding schedules_ok_def by (auto simp: in_update_where_iff)
      ultimately show ?thesis using ok f(1) unfolding schedules_ok_def d' by (simp add: map_update_where)
    qed
    then show ?thesis
      unfolding keeps_config_def config_ok_def
      by (simp add: d' policies_ok_def queues_ok_def queues_wf_def shards_ok_def shard_rows_def)
  qed
qed

lemma keeps_merge_schedule [tx_rules]: "assures (keeps_config known) (update_schedule known i (merge_schedule req ov ca t))"
  by (rule keeps_update_schedule) (simp_all add: merge_schedule_def)

lemma keeps_set_enabled [tx_rules]: "assures (keeps_config known) (set_enabled_sql i on)"
proof (rule assuresI)
  fix d r d' assume run: "set_enabled_sql i on d = Inr (r, d')"
  let ?f = "\<lambda>s :: schedule. s\<lparr>sc_enabled := on\<rparr>"
  have "d' = d \<or> d' = d\<lparr>schedules := update_where (\<lambda>s. sc_id s = i) ?f (schedules d)\<rparr>"
    using run unfolding set_enabled_sql_def by (simp split: if_split_asm)
  then consider "d' = d" | "d' = d\<lparr>schedules := update_where (\<lambda>s. sc_id s = i) ?f (schedules d)\<rparr>" by (rule disjE)
  then show "keeps_config known d d'"
  proof cases
    case 2
    have "schedules_ok known d'" if ok: "schedules_ok known d"
    proof -
      have "\<forall>s \<in> set (update_where (\<lambda>s. sc_id s = i) ?f (schedules d)). sc_queue_id s \<in> q_id ` set (queues d) \<and> known (sc_timezone s)"
        by (rule ball_update_where) (use ok in \<open>simp_all add: schedules_ok_def\<close>)
      then show ?thesis using ok unfolding schedules_ok_def 2 by (simp add: map_update_where)
    qed
    then show ?thesis
      unfolding keeps_config_def config_ok_def
      by (simp add: 2 policies_ok_def queues_ok_def queues_wf_def shards_ok_def shard_rows_def)
  qed (simp add: keeps_config_def)
qed

lemma keeps_delete_schedule [tx_rules]: "assures (keeps_config known) (\<lambda>d. rbind (delete_schedules P d) (\<lambda>d1. Inr ((), d1)))"
  by (rule assuresI) (auto simp: result_simps intro: keeps_delete_schedules)

lemma keeps_owned [tx_rules]: "assures (keeps_config known) (assertPolicyOwned i p)"
  unfolding assertPolicyOwned_def by (intro tx_rules)

lemma keeps_checkCron [tx_rules]: "assures (keeps_config known) (checkCron clib expr tz now)"
  unfolding checkCron_def by (intro tx_rules)

text \<open>One committed request that changes the configuration.\<close>

inductive config_step :: "('loc, 'sched) cron_lib \<Rightarrow> api_lib \<Rightarrow> (string \<Rightarrow> bool) \<Rightarrow> db \<Rightarrow> db \<Rightarrow> bool" for clib lib known where
  create_policy: "createPolicy i rp sc now d = Inr (v, d') \<Longrightarrow> config_step clib lib known d d'"
| update_policy: "updatePolicy rp sc now d = Inr (v, d') \<Longrightarrow> config_step clib lib known d d'"
| delete_policy: "deletePolicy (r :: unit request) sc now d = Inr (v0, d') \<Longrightarrow> config_step clib lib known d d'"
| create_queue: "createQueue (al_uuid lib) i rq sc now d = Inr (vq, d') \<Longrightarrow> config_step clib lib known d d'"
| update_queue: "updateQueue (al_uuid lib) rq sc now d = Inr (vq, d') \<Longrightarrow> config_step clib lib known d d'"
| delete_queue: "deleteQueue (r :: unit request) sc now d = Inr (v0, d') \<Longrightarrow> config_step clib lib known d d'"
| pause_queue: "setPaused paused topic (r :: unit request) sc now d = Inr (vb, d') \<Longrightarrow> config_step clib lib known d d'"
| create_schedule: "createSchedule clib lib known i rs sc now d = Inr (vs, d') \<Longrightarrow> config_step clib lib known d d'"
| update_schedule: "updateSchedule clib lib known rs sc now d = Inr (vs, d') \<Longrightarrow> config_step clib lib known d d'"
| delete_schedule: "deleteSchedule (r :: unit request) sc now d = Inr (v0, d') \<Longrightarrow> config_step clib lib known d d'"
| pause_schedule: "setScheduleEnabled on (r :: unit request) sc now d = Inr (vb, d') \<Longrightarrow> config_step clib lib known d d'"

lemmas config_handlers = createPolicy_def updatePolicy_def deletePolicy_def createQueue_def updateQueue_def deleteQueue_def setPaused_def
  createSchedule_def updateSchedule_def deleteSchedule_def setScheduleEnabled_def

lemma handlers_keep_config:
  "assures (keeps_config known) (createPolicy i rp sc now)" "assures (keeps_config known) (updatePolicy rp sc now)"
  "assures (keeps_config known) (deletePolicy r sc now)" "assures (keeps_config known) (createQueue ul i rq sc now)"
  "assures (keeps_config known) (updateQueue ul rq sc now)" "assures (keeps_config known) (deleteQueue r sc now)"
  "assures (keeps_config known) (setPaused paused topic r sc now)" "assures (keeps_config known) (createSchedule clib lib known i rs sc now)"
  "assures (keeps_config known) (updateSchedule clib lib known rs sc now)" "assures (keeps_config known) (deleteSchedule r sc now)"
  "assures (keeps_config known) (setScheduleEnabled on r sc now)"
  unfolding config_handlers Let_def by (intro tx_rules)+

lemma config_step_keeps: "config_step clib lib known d d' \<Longrightarrow> keeps_config known d d'"
  by (induction rule: config_step.induct) (erule handlers_keep_config [THEN assuresD])+

section \<open>What the handlers promise\<close>

text \<open>A consistent configuration gives the admission gate and the cron materializer what they assume of it.\<close>

lemma config_ok_serves:
  assumes ok: "config_ok known d"
  shows "schedules_wf d \<and> (\<forall>q \<in> set (queues d). check_queue q \<and> shards_wf q d)"
proof -
  have pol: "q_retry_policy_id ` set (queues d) \<subseteq> p_id ` set (retry_policies d)" using ok by (simp add: config_ok_def policies_ok_def)
  have "\<forall>q \<in> set (queues d). \<exists>p \<in> set (retry_policies d). p_id p = q_retry_policy_id q"
  proof
    fix q assume "q \<in> set (queues d)"
    then have "q_retry_policy_id q \<in> p_id ` set (retry_policies d)" using pol by blast
    then show "\<exists>p \<in> set (retry_policies d). p_id p = q_retry_policy_id q" by (metis imageE)
  qed
  moreover have "distinct (map sc_id (schedules d))" using ok by (simp add: config_ok_def schedules_ok_def)
  ultimately have "schedules_wf d" by (simp add: schedules_wf_def)
  moreover have "check_queue q \<and> shards_wf q d" if q: "q \<in> set (queues d)" for q
  proof -
    have "distinct (map s_shard (shard_rows (q_id q) d)) \<and> set (map s_shard (shard_rows (q_id q) d)) = {0..<q_shards q}"
      using ok q unfolding config_ok_def shards_ok_def by simp
    then have "shards_wf q d" unfolding shards_wf_def by (metis atLeastLessThan_iff imageI set_map)
    then show ?thesis using ok q by (simp add: config_ok_def queues_ok_def queues_wf_def)
  qed
  ultimately show ?thesis by blast
qed

lemma insert_queue_ready:
  assumes ok: "config_ok known d" and ck: "check_queue q" "\<not> queue_keys_clash q (queues d)"
    and refs: "q_project_id q \<in> pr_id ` set (projects d)" "policy_of d (q_retry_policy_id q) \<noteq> None"
  shows "\<exists>d'. insert_queue q now d = Inr (Some q, d') \<and> queues d' = queues d @ [q] \<and> slot_inv q d' \<and> in_flight (q_id q) d' = 0 \<and>
    config_ok known d' \<and> jobs d' = jobs d \<and> (\<forall>k. k \<noteq> q_id q \<longrightarrow> shard_rows k d' = shard_rows k d)"
proof -
  let ?e = "d\<lparr>queues := queues d @ [q]\<rparr>"
  obtain d' where sp: "spread None q now ?e = Inr d'" by (simp add: spread_def Let_def)
  have ins: "insert_queue q now d = Inr (Some q, d')" using ck refs sp by (simp add: insert_queue_def)
  from spread_frame [OF sp] obtain ss where d': "d' = ?e\<lparr>queue_shards := ss\<rparr>" by blast
  have "q_id q \<notin> q_id ` set (queues d)" using ck(2) by (auto simp: queue_keys_clash_def)
  then have "\<forall>x \<in> set (queue_shards d). s_queue_id x \<noteq> q_id q"
    using shards_okD [of d] ok unfolding config_ok_def by (metis imageI subsetD)
  then have e0: "shard_rows (q_id q) ?e = []" by (simp add: shard_rows_def filter_empty_conv)
  have e: "shard_rows k ?e = shard_rows k d" for k by (simp add: shard_rows_def)
  have "distinct (map s_shard (shard_rows (q_id q) ?e))"
    "set (map s_shard (shard_rows (q_id q) ?e)) = {0..<(case None of None \<Rightarrow> 0 | Some o' \<Rightarrow> q_shards o')}" by (simp_all add: e0)
  from spread_shards [OF this, of now] sp have rows: "distinct (map s_shard (shard_rows (q_id q) d'))"
    "set (map s_shard (shard_rows (q_id q) d')) = {0..<q_shards q}"
    "\<forall>x \<in> set (shard_rows (q_id q) d'). s_in_flight x = 0" "\<forall>k. k \<noteq> q_id q \<longrightarrow> shard_rows k d' = shard_rows k d"
    using e0 unfolding e by auto
  have "0 \<le> shard_slots (q_max_concurrency q) (q_shards q) k" for k
    using ck(1) pos_imp_zdiv_nonneg_iff [of "q_shards q" "q_max_concurrency q"] by (auto simp: shard_slots_def check_queue_def)
  moreover have "0 \<le> s_shard x \<and> s_shard x < q_shards q" if "x \<in> set (shard_rows (q_id q) d')" for x
    using that rows(2) by (metis atLeastLessThan_iff imageI set_map)
  ultimately have "slot_inv q d'" using rows(1,3) by (simp add: slot_inv_def shards_wf_def within_slots_def)
  moreover have "in_flight (q_id q) d' = 0"
    using rows(3) by (simp add: in_flight_def shard_rows_def [symmetric] sum_list_0 cong: map_cong)
  moreover have "config_ok known d'" using assuresD [OF keeps_insert_queue ins] ok by (simp add: keeps_config_def)
  ultimately show ?thesis using ins rows(4) by (intro exI [of _ d']) (simp add: d')
qed

text \<open>
  Creating a queue, for a request with a name and a well-formed policy id, has exactly four outcomes: the policy
  is not one of the project's (400), a value is out of range (400), the name is taken (409), or the queue is there
  with the requested settings, empty shards that add up to its concurrency, and nothing else changed. Any other
  queue's shards are untouched.
\<close>

theorem create_queue_outcome:
  assumes ok: "config_ok known d" and body: "rq_body r = Some req" and name: "name = trim_space (coalesce (qq_Name req) '''')" "name \<noteq> ''''"
    and pol: "qq_RetryPolicyID req = Some s" "parse_uuid lib s = Some p" and proj: "sc_projectID sc \<in> pr_id ` set (projects d)"
    and fresh: "i \<notin> q_id ` set (queues d)" and q: "q = new_queue i (sc_projectID sc) name p now req"
  shows "createQueue lib i r sc now d = Inl (Api (badRequest ''retry_policy_id does not belong to this project'')) \<and>
      \<not> (\<exists>rp \<in> set (retry_policies d). p_id rp = p \<and> p_project_id rp = sc_projectID sc) \<or>
    (\<exists>rp \<in> set (retry_policies d). p_id rp = p \<and> p_project_id rp = sc_projectID sc) \<and>
    (createQueue lib i r sc now d = Inl (Api (badRequest ''queue values out of range'')) \<and> \<not> check_queue q \<or>
     createQueue lib i r sc now d = Inl (Api (conflict ''queue name already used in this project'')) \<and>
       (\<exists>q' \<in> set (queues d). q_project_id q' = sc_projectID sc \<and> q_name q' = name) \<or>
     (\<exists>res d'. createQueue lib i r sc now d = Inr (res, d') \<and> res_status res = 201 \<and> res_entityID res = i \<and>
        queues d' = queues d @ [q] \<and> slot_inv q d' \<and> in_flight i d' = 0 \<and> config_ok known d' \<and> jobs d' = jobs d \<and>
        (\<forall>k. k \<noteq> i \<longrightarrow> shard_rows k d' = shard_rows k d)))"
proof (cases "\<exists>rp \<in> set (retry_policies d). p_id rp = p \<and> p_project_id rp = sc_projectID sc")
  case False
  then have "assertPolicyOwned p (sc_projectID sc) d = Inl (Api (badRequest ''retry_policy_id does not belong to this project''))"
    by (simp add: assertPolicyOwned_def)
  then have "createQueue lib i r sc now d = Inl (Api (badRequest ''retry_policy_id does not belong to this project''))"
    using body name pol by (simp add: createQueue_def decode_def Let_def)
  with False show ?thesis by blast
next
  case True
  let ?ins = "insert_queue q now"
  have qf: "q_id q = i" "q_project_id q = sc_projectID sc" "q_name q = name" "q_retry_policy_id q = p" by (simp_all add: q new_queue_def)
  have "assertPolicyOwned p (sc_projectID sc) d = Inr ((), d)"
    using True by (simp add: assertPolicyOwned_def)
  then have run: "createQueue lib i r sc now d =
      abind (on_error isUnique (Api (conflict ''queue name already used in this project''))
        (on_error isCheck (Api (badRequest ''queue values out of range'')) (query_row ?ins)))
        (\<lambda>q. aret (answer 201 (Some ((queue_view empty_db q)\<lparr>qv_InFlight := 0\<rparr>)) i None)) d"
    using body name pol by (simp add: createQueue_def decode_def Let_def q)
  have polq: "policy_of d p \<noteq> None" unfolding lookup_row_None_iff using True by blast
  consider "\<not> check_queue q" | "check_queue q" "queue_keys_clash q (queues d)" | "check_queue q" "\<not> queue_keys_clash q (queues d)" by blast
  then have "createQueue lib i r sc now d = Inl (Api (badRequest ''queue values out of range'')) \<and> \<not> check_queue q \<or>
     createQueue lib i r sc now d = Inl (Api (conflict ''queue name already used in this project'')) \<and>
       (\<exists>q' \<in> set (queues d). q_project_id q' = sc_projectID sc \<and> q_name q' = name) \<or>
     (\<exists>res d'. createQueue lib i r sc now d = Inr (res, d') \<and> res_status res = 201 \<and> res_entityID res = i \<and>
        queues d' = queues d @ [q] \<and> slot_inv q d' \<and> in_flight i d' = 0 \<and> config_ok known d' \<and> jobs d' = jobs d \<and>
        (\<forall>k. k \<noteq> i \<longrightarrow> shard_rows k d' = shard_rows k d))"
  proof cases
    case 1
    then have "?ins d = Inl check_violation" by (simp add: insert_queue_def)
    then show ?thesis using 1 unfolding run
      by (simp add: isCheck_def isUnique_def has_code_def)
  next
    case 2
    then have "?ins d = Inl unique_violation" by (simp add: insert_queue_def)
    moreover have "\<exists>q' \<in> set (queues d). q_project_id q' = sc_projectID sc \<and> q_name q' = name"
      using 2(2) fresh qf unfolding queue_keys_clash_def by (metis imageI)
    ultimately show ?thesis unfolding run
      by (simp add: isCheck_def isUnique_def has_code_def)
  next
    case 3
    have "q_project_id q \<in> pr_id ` set (projects d)" "policy_of d (q_retry_policy_id q) \<noteq> None" using proj polq qf by simp_all
    from insert_queue_ready [OF ok 3 this, of now] obtain d' where ins: "?ins d = Inr (Some q, d')"
      and rest: "queues d' = queues d @ [q]" "slot_inv q d'" "in_flight i d' = 0" "config_ok known d'" "jobs d' = jobs d"
        "\<forall>k. k \<noteq> i \<longrightarrow> shard_rows k d' = shard_rows k d" unfolding qf(1) by blast
    have "createQueue lib i r sc now d = Inr (answer 201 (Some ((queue_view empty_db q)\<lparr>qv_InFlight := 0\<rparr>)) i None, d')"
      unfolding run using ins by simp
    then show ?thesis using rest by (auto simp: answer_def)
  qed
  with True show ?thesis by blast
qed

lemma unlink_ok: "check_job j \<Longrightarrow> write_ok j (j\<lparr>j_schedule_id := None\<rparr>)"
  by (auto simp: write_ok_def check_job_def)

lemma map_eq_imp_image_eq: "map f xs = map f ys \<Longrightarrow> f ` set xs = f ` set ys"
  by (metis set_map)

lemma delete_queue_eq:
  assumes "jobs_wf d" and "queue_of d i = Some q"
  shows "\<exists>d'. delete_queue i d = Inr ((), d') \<and> queues d' = delete_where (\<lambda>q. q_id q = i) (queues d) \<and>
    queue_shards d' = delete_where (\<lambda>s. s_queue_id s = i) (queue_shards d) \<and> job_executions d' = job_executions d \<and>
    dead_letter_jobs d' = dead_letter_jobs d \<and> job_leases d' = delete_where (\<lambda>l. \<exists>j \<in> set (jobs d). j_queue_id j = i \<and> j_id j = l_job_id l) (job_leases d) \<and>
    job_dependencies d' = delete_where (\<lambda>(p, c). \<exists>j \<in> set (jobs d). j_queue_id j = i \<and> (j_id j = p \<or> j_id j = c)) (job_dependencies d) \<and>
    (\<exists>P. jobs d' = delete_where (\<lambda>j. j_queue_id j = i) (update_where P (\<lambda>j. j\<lparr>j_schedule_id := None\<rparr>) (jobs d)))"
proof -
  let ?P = "\<lambda>j. \<exists>s \<in> sc_id ` {s \<in> set (schedules d). sc_queue_id s = i}. j_schedule_id j = Some s" and ?f = "\<lambda>j :: job. j\<lparr>j_schedule_id := None\<rparr>"
  let ?U = "update_where ?P ?f (jobs d)"
  have "update_jobs ?P ?f d = Inr (d\<lparr>jobs := ?U\<rparr>)" using jobs_wfD(2) [OF assms(1)] by (intro update_jobs_ok unlink_ok) blast
  then have del: "delete_schedules (\<lambda>s. sc_queue_id s = i) d = Inr (d\<lparr>jobs := ?U, schedules := delete_where (\<lambda>s. sc_queue_id s = i) (schedules d)\<rparr>)"
    by (simp add: delete_schedules_def Let_def)
  have ids: "j_id ` {j \<in> set ?U. j_queue_id j = i} = j_id ` {j \<in> set (jobs d). j_queue_id j = i}"
  proof -
    have "map (\<lambda>j. (j_id j, j_queue_id j)) ?U = map (\<lambda>j. (j_id j, j_queue_id j)) (jobs d)" by (simp add: map_update_where)
    then have "(\<lambda>j. (j_id j, j_queue_id j)) ` set ?U = (\<lambda>j. (j_id j, j_queue_id j)) ` set (jobs d)"
      by (rule map_eq_imp_image_eq)
    moreover have "j_id ` {j \<in> X. j_queue_id j = i} = {k. (k, i) \<in> (\<lambda>j. (j_id j, j_queue_id j)) ` X}" for X :: "job set" by auto
    ultimately show ?thesis by (simp only:)
  qed
  have img: "k \<in> j_id ` {j \<in> set (jobs d). j_queue_id j = i} \<longleftrightarrow> (\<exists>j \<in> set (jobs d). j_queue_id j = i \<and> j_id j = k)" for k
    unfolding image_def by blast
  have cas: "(\<lambda>l. l_job_id l \<in> j_id ` {j \<in> set (jobs d). j_queue_id j = i}) = (\<lambda>l. \<exists>j \<in> set (jobs d). j_queue_id j = i \<and> j_id j = l_job_id l)"
    unfolding img ..
  have cas2: "(\<lambda>(p, c). p \<in> j_id ` {j \<in> set (jobs d). j_queue_id j = i} \<or> c \<in> j_id ` {j \<in> set (jobs d). j_queue_id j = i}) =
     (\<lambda>(p, c). \<exists>j \<in> set (jobs d). j_queue_id j = i \<and> (j_id j = p \<or> j_id j = c))"
    unfolding img fun_eq_iff split_paired_All prod.case by blast
  let ?d' = "snd (projr (delete_queue i d))"
  have run: "delete_queue i d = Inr ((), ?d')" and rest: "queues ?d' = delete_where (\<lambda>q. q_id q = i) (queues d)"
    "queue_shards ?d' = delete_where (\<lambda>s. s_queue_id s = i) (queue_shards d)" "job_executions ?d' = job_executions d"
    "dead_letter_jobs ?d' = dead_letter_jobs d"
    "job_leases ?d' = delete_where (\<lambda>l. l_job_id l \<in> j_id ` {j \<in> set ?U. j_queue_id j = i}) (job_leases d)"
    "job_dependencies ?d' = delete_where (\<lambda>(p, c). p \<in> j_id ` {j \<in> set ?U. j_queue_id j = i} \<or> c \<in> j_id ` {j \<in> set ?U. j_queue_id j = i}) (job_dependencies d)"
    "jobs ?d' = delete_where (\<lambda>j. j_queue_id j = i) ?U"
    unfolding delete_queue_def drop_jobs_def Let_def assms(2) option.case del rbind_Inr by simp_all
  show ?thesis using run rest(1-4) rest(5,6) [unfolded ids cas cas2] rest(7) by blast
qed

text \<open>
  C31. Deleting a queue always succeeds and takes its jobs with it, whatever their state, with their leases and
  dependency edges; executions and dead letters stay behind. Jobs of other queues keep their status and their
  count of pending parents: a job that was waiting on a parent in the deleted queue has lost the edge that would
  have released it, and waits forever.
\<close>

theorem delete_queue_outcome:
  assumes wf: "jobs_wf d" and q: "queue_of d (sc_entityID sc) = Some q"
  shows "\<exists>d'. deleteQueue r sc now d = Inr (answer 204 None 0 None, d') \<and> queue_of d' (sc_entityID sc) = None \<and>
    (\<forall>j \<in> set (jobs d'). j_queue_id j \<noteq> sc_entityID sc) \<and>
    (\<forall>j \<in> set (jobs d). j_queue_id j \<noteq> sc_entityID sc \<longrightarrow> (\<exists>j' \<in> set (jobs d'). j_id j' = j_id j \<and> j_status j' = j_status j \<and>
       j_pending_deps j' = j_pending_deps j)) \<and>
    (\<forall>j \<in> set (jobs d). j_queue_id j = sc_entityID sc \<longrightarrow> lease_of d' (j_id j) = None \<and>
       (\<forall>(p, c) \<in> set (job_dependencies d'). p \<noteq> j_id j \<and> c \<noteq> j_id j)) \<and>
    job_executions d' = job_executions d \<and> dead_letter_jobs d' = dead_letter_jobs d"
proof -
  let ?i = "sc_entityID sc"
  from delete_queue_eq [OF wf q] obtain d' P where run: "delete_queue ?i d = Inr ((), d')"
    and qs: "queues d' = delete_where (\<lambda>q. q_id q = ?i) (queues d)"
    and xs: "job_executions d' = job_executions d" "dead_letter_jobs d' = dead_letter_jobs d"
    and ls: "job_leases d' = delete_where (\<lambda>l. \<exists>j \<in> set (jobs d). j_queue_id j = ?i \<and> j_id j = l_job_id l) (job_leases d)"
    and ds: "job_dependencies d' = delete_where (\<lambda>(p, c). \<exists>j \<in> set (jobs d). j_queue_id j = ?i \<and> (j_id j = p \<or> j_id j = c)) (job_dependencies d)"
    and js: "jobs d' = delete_where (\<lambda>j. j_queue_id j = ?i) (update_where P (\<lambda>j. j\<lparr>j_schedule_id := None\<rparr>) (jobs d))" by blast
  have "deleteQueue r sc now d = Inr (answer 204 None 0 None, d')" using run by (simp add: deleteQueue_def)
  moreover have "queue_of d' ?i = None" unfolding lookup_row_None_iff qs by (simp add: delete_where_def)
  moreover have "\<forall>j \<in> set (jobs d'). j_queue_id j \<noteq> ?i" unfolding js by (simp add: delete_where_def)
  moreover have "\<exists>j' \<in> set (jobs d'). j_id j' = j_id j \<and> j_status j' = j_status j \<and> j_pending_deps j' = j_pending_deps j"
    if "j \<in> set (jobs d)" "j_queue_id j \<noteq> ?i" for j
    using that unfolding js
    by (intro bexI [of _ "if P j then j\<lparr>j_schedule_id := None\<rparr> else j"]) (auto simp: delete_where_def in_update_where_iff)
  moreover have "lease_of d' (j_id j) = None" if "j \<in> set (jobs d)" "j_queue_id j = ?i" for j
    unfolding lookup_row_None_iff ls using that by (auto simp: delete_where_def)
  moreover have "\<forall>(p, c) \<in> set (job_dependencies d'). p \<noteq> j_id j \<and> c \<noteq> j_id j" if "j \<in> set (jobs d)" "j_queue_id j = ?i" for j
    unfolding ds using that by (auto simp: delete_where_def)
  ultimately show ?thesis using xs by blast
qed

section \<open>The sample configuration\<close>

lemma sample_config_ok: "config_ok (\<lambda>_. True) team_db"
proof -
  have "policies_ok team_db"
    by (simp add: policies_ok_def team_db_def sample_defs policy_view_def check_policy_def validKind_def)
  moreover have "queues_ok team_db" by (simp add: queues_ok_def queues_wf_def check_queue_def team_db_def sample_defs)
  moreover have "shards_ok team_db" by (auto simp: shards_ok_def shard_rows_def team_db_def sample_defs)
  moreover have "schedules_ok (\<lambda>_. True) team_db" by (simp add: schedules_ok_def team_db_def sample_defs)
  ultimately show ?thesis by (simp add: config_ok_def)
qed

definition sample_new_queue :: queueReq where
  "sample_new_queue = \<lparr>qq_Name = Some '' reports '', qq_RetryPolicyID = Some ''policy-id'', qq_MaxConcurrency = Some 5, qq_Shards = Some 2,
     qq_MaxDepth = None, qq_DefaultPriority = None, qq_RateLimitPerSec = None, qq_RateBurst = None\<rparr>"

lemma sample_pause: "\<exists>v d1. setPaused True ''queue.paused'' (sample_request ()) sample_scope sample_now team_db = Inr (v, d1) \<and> length (queues d1) = 1"
  by (simp add: setPaused_def set_paused_sql_def update_queues_def update_where_def check_queue_def team_db_def sample_defs sample_scope_def
    api_emit_def query_row_def abind_def aret_def emit_def)

theorem create_queue_outcome_witness:
  "\<exists>res d'. createQueue one_uuid 8 (sample_request sample_new_queue) sample_scope sample_now team_db = Inr (res, d') \<and> res_status res = 201 \<and>
    queues d' = [sample_queue, new_queue 8 3 ''reports'' 9 sample_now sample_new_queue] \<and> in_flight 8 d' = 0 \<and> jobs d' = jobs sample_db"
proof -
  let ?q = "new_queue 8 3 ''reports'' 9 sample_now sample_new_queue"
  have name: "''reports'' = trim_space (coalesce (qq_Name sample_new_queue) '''')"
    by (simp add: sample_new_queue_def coalesce_def trim_space_def is_space_def)
  have out: "check_queue ?q" "\<not> (\<exists>q' \<in> set (queues team_db). q_project_id q' = 3 \<and> q_name q' = ''reports'')"
    "\<exists>rp \<in> set (retry_policies team_db). p_id rp = 9 \<and> p_project_id rp = 3" "queues team_db = [sample_queue]" "jobs team_db = jobs sample_db"
    by (simp_all add: check_queue_def new_queue_def sample_new_queue_def coalesce_def team_db_def sample_defs)
  have pol: "qq_RetryPolicyID sample_new_queue = Some ''policy-id''" "parse_uuid one_uuid ''policy-id'' = Some 9"
    and body: "rq_body (sample_request sample_new_queue) = Some sample_new_queue" and proj: "sc_projectID sample_scope = 3"
    by (simp_all add: sample_new_queue_def one_uuid_def sample_request_def sample_scope_def)
  have refs: "sc_projectID sample_scope \<in> pr_id ` set (projects team_db)" "8 \<notin> q_id ` set (queues team_db)"
    by (simp_all add: team_db_def sample_scope_def sample_defs)
  from create_queue_outcome [OF sample_config_ok body name _ pol refs refl, of sample_now] out proj show ?thesis by auto
qed

theorem delete_queue_outcome_witness:
  "\<exists>d'. deleteQueue (sample_request ()) sample_scope sample_now sample_db = Inr (answer 204 None 0 None, d') \<and> jobs d' = [] \<and>
    queue_of d' 7 = None \<and> lease_of d' 11 = None \<and> job_executions d' = [sample_exec]"
proof -
  have "jobs_wf sample_db" using tables_wfD(1) [OF sample_tables_wf] .
  moreover have "queue_of sample_db (sc_entityID sample_scope) = Some sample_queue" by (simp add: sample_scope_def sample_queue_of)
  ultimately have "\<exists>d'. deleteQueue (sample_request ()) sample_scope sample_now sample_db = Inr (answer 204 None 0 None, d') \<and>
    queue_of d' 7 = None \<and> (\<forall>j \<in> set (jobs d'). j_queue_id j \<noteq> 7) \<and>
    (\<forall>j \<in> set (jobs sample_db). j_queue_id j = 7 \<longrightarrow> lease_of d' (j_id j) = None) \<and> job_executions d' = job_executions sample_db"
    using delete_queue_outcome [of sample_db sample_scope sample_queue "sample_request ()" sample_now] by (auto simp: sample_scope_def)
  moreover have "jobs d' = []" if "deleteQueue (sample_request ()) sample_scope sample_now sample_db = Inr (answer 204 None 0 None, d')" for d'
    using that by (simp add: deleteQueue_def delete_queue_def delete_schedules_def drop_jobs_def update_jobs_def delete_where_def update_where_def
      sample_scope_def sample_defs exec_sql_def abind_def aret_def Let_def write_ok_def check_job_def) auto
  moreover have "job_executions sample_db = [sample_exec]" "sample_running \<in> set (jobs sample_db)" "j_queue_id sample_running = 7" "j_id sample_running = 11"
    by (simp_all add: sample_defs)
  ultimately show ?thesis by metis
qed

end
