(* ===== verification/Passwords.thy ===== *)
theory Passwords
  imports Paging
begin

text \<open>
  \<open>password.go\<close>: the text a password is stored as, and the check of a password against it. The key derivation is
  \<open>golang.org/x/crypto/argon2\<close>, a parameter; the salt comes from \<open>crypto/rand\<close> and is an argument, \<open>None\<close> when
  reading it fails. Byte strings are strings, one character per byte.
\<close>

section \<open>Scanning\<close>

text \<open>
  \<open>base64.RawStdEncoding\<close> differs from the URL alphabet of the cursors in two characters.
\<close>

definition std_char :: "char \<Rightarrow> char" where
  "std_char c = (if c = CHR ''-'' then CHR ''+'' else if c = CHR ''_'' then CHR ''/'' else c)"

definition url_char :: "char \<Rightarrow> char" where
  "url_char c = (if c = CHR ''+'' then CHR ''-'' else if c = CHR ''/'' then CHR ''_'' else c)"

definition std_encode :: "string \<Rightarrow> string" where
  "std_encode s = map std_char (b64_encode s)"

definition std_decode :: "string \<Rightarrow> string option" where
  "std_decode s = (if CHR ''-'' \<in> set s \<or> CHR ''_'' \<in> set s then None else b64_decode (map url_char s))"

text \<open>
  \<open>fmt.Sscanf\<close> with literal text and \<open>%d\<close>: blanks before a number are skipped, a line break is an error, and
  what follows the last number is ignored.
\<close>

fun skip_space :: "string \<Rightarrow> string option" where
  "skip_space [] = Some []"
| "skip_space (c # cs) =
    (if of_char c = (13 :: nat) \<and> cs \<noteq> [] \<and> of_char (hd cs) = (10 :: nat) then skip_space cs
     else if of_char c = (10 :: nat) then None
     else if is_space c then skip_space cs
     else Some (c # cs))"

definition scan_uint :: "nat \<Rightarrow> string \<Rightarrow> (nat \<times> string) option" where
  "scan_uint bits s =
    (case skip_space s of
       None \<Rightarrow> None
     | Some t \<Rightarrow>
        (let ds = takeWhile is_digit t
         in if ds = [] \<or> 2 ^ bits \<le> digits_value ds then None else Some (digits_value ds, drop (length ds) t)))"

definition scan_int :: "string \<Rightarrow> (int \<times> string) option" where
  "scan_int s =
    (case skip_space s of
       None \<Rightarrow> None
     | Some t \<Rightarrow>
        (let sign = (if t \<noteq> [] \<and> (hd t = CHR ''-'' \<or> hd t = CHR ''+'') then [hd t] else []);
             tok = sign @ takeWhile is_digit (drop (length sign) t)
         in map_option (\<lambda>v. (v, drop (length tok) t)) (parse_int tok)))"

definition scan_version :: "string \<Rightarrow> int option" where
  "scan_version s = Option.bind (cut_prefix ''v='' s) (\<lambda>s. map_option fst (scan_int s))"

definition scan_cost :: "string \<Rightarrow> (nat \<times> nat \<times> nat) option" where
  "scan_cost s =
     Option.bind (cut_prefix ''m='' s) (\<lambda>s. Option.bind (scan_uint 32 s) (\<lambda>(mem, s).
     Option.bind (cut_prefix '',t='' s) (\<lambda>s. Option.bind (scan_uint 32 s) (\<lambda>(t, s).
     Option.bind (cut_prefix '',p='' s) (\<lambda>s. map_option (\<lambda>(threads, _). (mem, t, threads)) (scan_uint 8 s))))))"

section \<open>Hashing and verifying\<close>

record argon_lib =
  ag_Version :: nat
  ag_IDKey :: "string \<Rightarrow> string \<Rightarrow> nat \<Rightarrow> nat \<Rightarrow> nat \<Rightarrow> nat \<Rightarrow> string"

definition argonTime :: nat where "argonTime = 2"
definition argonMemory :: nat where "argonMemory = 64 * 1024"
definition argonThreads :: nat where "argonThreads = 4"
definition argonKeyLen :: nat where "argonKeyLen = 32"

definition hashPassword :: "argon_lib \<Rightarrow> string option \<Rightarrow> string \<Rightarrow> string + string" where
  "hashPassword lib rand pw =
    (case rand of
       None \<Rightarrow> Inl ''rand''
     | Some salt \<Rightarrow>
        (let key = ag_IDKey lib pw salt argonTime argonMemory argonThreads argonKeyLen
         in Inr (''$argon2id$v='' @ nat_text (ag_Version lib) @ ''$m='' @ nat_text argonMemory @ '',t='' @ nat_text argonTime @
             '',p='' @ nat_text argonThreads @ ''$'' @ std_encode salt @ ''$'' @ std_encode key)))"

text \<open>\<open>subtle.ConstantTimeCompare\<close> is 1 exactly for equal contents.\<close>

definition verifyPassword :: "argon_lib \<Rightarrow> string \<Rightarrow> string \<Rightarrow> string + bool" where
  "verifyPassword lib pw encoded =
    (let parts = split_on (CHR ''$'') encoded in
     if length parts \<noteq> 6 \<or> parts ! 1 \<noteq> ''argon2id'' then Inl ''bad password hash''
     else case scan_version (parts ! 2) of
       None \<Rightarrow> Inl ''version''
     | Some version \<Rightarrow>
        (case scan_cost (parts ! 3) of
           None \<Rightarrow> Inl ''cost''
         | Some (mem, t, threads) \<Rightarrow>
            (case std_decode (parts ! 4) of
               None \<Rightarrow> Inl ''salt''
             | Some salt \<Rightarrow>
                (case std_decode (parts ! 5) of
                   None \<Rightarrow> Inl ''key''
                 | Some want \<Rightarrow> Inr (ag_IDKey lib pw salt t mem threads (length want mod 2 ^ 32) = want)))))"

section \<open>The texts can be read back\<close>

lemma b64_encode_chars: "c \<in> set (b64_encode s) \<Longrightarrow> \<exists>n < 64. c = b64_char n"
proof -
  assume "c \<in> set (b64_encode s)"
  moreover have "\<forall>n \<in> set (b64_sextets (map of_char s)). n < 64" by (rule b64_sextets_small) (auto simp: less_le_trans)
  ultimately show ?thesis by (auto simp: b64_encode_def)
qed

lemma b64_char_cases: "n < 64 \<Longrightarrow> b64_char n \<notin> {CHR ''+'', CHR ''/'', CHR ''$''}"
  by (auto simp: b64_char_def char_of_eq_iff of_char_of take_bit_eq_mod)

lemma std_char_inverse: "c \<in> set (b64_encode s) \<Longrightarrow> url_char (std_char c) = c"
  using b64_encode_chars [of c s] b64_char_cases by (auto simp: std_char_def url_char_def)

lemma std_round_trip: "std_decode (std_encode s) = Some s"
proof -
  have "map url_char (std_encode s) = b64_encode s" by (simp add: std_encode_def map_idI std_char_inverse)
  moreover have "CHR ''-'' \<notin> set (std_encode s)" "CHR ''_'' \<notin> set (std_encode s)"
    by (auto simp: std_encode_def std_char_def split: if_split_asm)
  ultimately show ?thesis by (simp add: std_decode_def b64_round_trip)
qed

lemma std_encode_no_dollar: "CHR ''$'' \<notin> set (std_encode s)"
proof -
  have "std_char c \<noteq> CHR ''$''" if c: "c \<in> set (b64_encode s)" for c
  proof -
    obtain n where "n < 64" "c = b64_char n" using b64_encode_chars [OF c] by blast
    then show ?thesis using b64_char_cases [of n] by (simp add: std_char_def)
  qed
  then show ?thesis unfolding std_encode_def set_map by (metis imageE)
qed

lemma nat_text_small: "n < 10 \<Longrightarrow> nat_text n = [char_of (48 + n)]"
  by (subst nat_text.simps) simp

lemma nat_text_big: "\<not> n < 10 \<Longrightarrow> nat_text n = nat_text (n div 10) @ [char_of (48 + n mod 10)]"
  by (subst nat_text.simps) simp

lemma digit_char: "k < 10 \<Longrightarrow> is_digit (char_of (48 + k))" "k < 10 \<Longrightarrow> of_char (char_of (48 + k) :: char) = 48 + (k :: nat)"
  by (simp_all add: is_digit_def of_char_of)

lemma digits_value_snoc: "digits_value (s @ [c]) = 10 * digits_value s + (of_char c - 48)"
  by (simp add: digits_value_def)

lemma nat_text_value: "list_all is_digit (nat_text n) \<and> nat_text n \<noteq> [] \<and> digits_value (nat_text n) = n"
proof (induction n rule: less_induct)
  case (less n)
  show ?case
  proof (cases "n < 10")
    case True
    then show ?thesis using digit_char [OF True] digits_value_snoc [of "[]"] by (simp add: nat_text_small digits_value_def)
  next
    case False
    then have "n div 10 < n" by simp
    from less [OF this] digit_char [of "n mod 10"] False show ?thesis by (simp add: nat_text_big digits_value_snoc)
  qed
qed

lemma nat_text_digits: "list_all is_digit (nat_text n)" "nat_text n \<noteq> []" "digits_value (nat_text n) = n"
  using nat_text_value [of n] by simp_all

lemma digit_plain: "is_digit c \<Longrightarrow> \<not> is_space c \<and> c \<noteq> CHR ''$'' \<and> c \<noteq> CHR ''-'' \<and> c \<noteq> CHR ''+''"
  by (auto simp: is_digit_def is_space_def)

lemma skip_space_digit: "is_digit c \<Longrightarrow> skip_space (c # cs) = Some (c # cs)"
  using digit_plain [of c] by (auto simp: is_digit_def)

lemma skip_space_nat_text: "skip_space (nat_text n @ s) = Some (nat_text n @ s)"
  using nat_text_digits [of n] by (cases "nat_text n") (simp_all add: skip_space_digit del: skip_space.simps(2))

lemma takeWhile_nat_text: "s = [] \<or> \<not> is_digit (hd s) \<Longrightarrow> takeWhile is_digit (nat_text n @ s) = nat_text n"
  using nat_text_digits(1) [of n] by (cases s) (auto simp: takeWhile_append list_all_iff takeWhile_eq_all_conv)

lemma scan_uint_text: "n < 2 ^ bits \<Longrightarrow> s = [] \<or> \<not> is_digit (hd s) \<Longrightarrow> scan_uint bits (nat_text n @ s) = Some (n, s)"
  by (simp add: scan_uint_def skip_space_nat_text takeWhile_nat_text nat_text_digits)

lemma parse_int_text: "n < 2 ^ 63 \<Longrightarrow> parse_int (nat_text n) = Some (int n)"
proof -
  assume n: "n < 2 ^ 63"
  have "is_digit (hd (nat_text n))" using nat_text_digits(1,2) [of n] by (cases "nat_text n") simp_all
  then have "hd (nat_text n) \<noteq> CHR ''-''" "hd (nat_text n) \<noteq> CHR ''+''" using digit_plain by blast+
  moreover have "int n < 2 ^ 63" using n by simp
  ultimately show ?thesis using nat_text_digits [of n] by (simp add: parse_int_def Let_def)
qed

lemma scan_version_text: "n < 2 ^ 63 \<Longrightarrow> scan_version (''v='' @ nat_text n) = Some (int n)"
proof -
  assume n: "n < 2 ^ 63"
  have "is_digit (hd (nat_text n))" using nat_text_digits(1,2) [of n] by (cases "nat_text n") simp_all
  then have sign: "\<not> (hd (nat_text n) = CHR ''-'' \<or> hd (nat_text n) = CHR ''+'')" using digit_plain by blast
  have "takeWhile is_digit (nat_text n) = nat_text n" using takeWhile_nat_text [of "[]" n] by (simp only: append_Nil2 simp_thms)
  then show ?thesis
    using sign parse_int_text [OF n] skip_space_nat_text [of n "[]"]
    by (simp add: scan_version_def cut_prefix_def scan_int_def Let_def del: takeWhile_eq_all_conv)
qed

lemma scan_cost_text:
  assumes "mem < 2 ^ 32" and "t < 2 ^ 32" and "threads < 2 ^ 8"
  shows "scan_cost (''m='' @ nat_text mem @ '',t='' @ nat_text t @ '',p='' @ nat_text threads) = Some (mem, t, threads)"
proof -
  have comma: "\<not> is_digit (CHR '','')" by (simp add: is_digit_def)
  have "scan_uint 32 (nat_text mem @ '',t='' @ nat_text t @ '',p='' @ nat_text threads) = Some (mem, '',t='' @ nat_text t @ '',p='' @ nat_text threads)"
    "scan_uint 32 (nat_text t @ '',p='' @ nat_text threads) = Some (t, '',p='' @ nat_text threads)"
    "scan_uint 8 (nat_text threads @ []) = Some (threads, [])"
    using assms comma by (intro scan_uint_text; simp)+
  then show ?thesis by (simp add: scan_cost_def cut_prefix_def)
qed

lemma split_on_field: "c \<notin> set xs \<Longrightarrow> split_on c (xs @ c # ys) = xs # split_on c ys"
  by (induction xs) auto

lemma split_on_last: "c \<notin> set xs \<Longrightarrow> split_on c xs = [xs]"
  by (induction xs) auto

lemma nat_text_no_dollar: "CHR ''$'' \<notin> set (nat_text n)"
  using nat_text_digits(1) [of n] digit_plain by (auto simp: list_all_iff)

text \<open>What the code relies on of \<open>argon2\<close>: the version is an \<open>int\<close>, and a key has the length asked for.\<close>

definition argon_ok :: "argon_lib \<Rightarrow> bool" where
  "argon_ok lib \<longleftrightarrow> ag_Version lib < 2 ^ 63 \<and> (\<forall>pw salt t m p k. length (ag_IDKey lib pw salt t m p k) = k)"

lemma hash_parts:
  assumes "hashPassword lib (Some salt) pw = Inr h"
  shows "split_on (CHR ''$'') h = ['''', ''argon2id'', ''v='' @ nat_text (ag_Version lib),
     ''m='' @ nat_text argonMemory @ '',t='' @ nat_text argonTime @ '',p='' @ nat_text argonThreads, std_encode salt,
     std_encode (ag_IDKey lib pw salt argonTime argonMemory argonThreads argonKeyLen)]"
proof -
  let ?d = "CHR ''$''" and ?v = "''v='' @ nat_text (ag_Version lib)" and ?k = "ag_IDKey lib pw salt argonTime argonMemory argonThreads argonKeyLen"
  let ?c = "''m='' @ nat_text argonMemory @ '',t='' @ nat_text argonTime @ '',p='' @ nat_text argonThreads"
  have h: "h = [] @ ?d # ''argon2id'' @ ?d # ?v @ ?d # ?c @ ?d # std_encode salt @ ?d # std_encode ?k"
    using assms by (simp add: hashPassword_def Let_def)
  have "?d \<notin> set ?v" "?d \<notin> set ?c" "?d \<notin> set []" "?d \<notin> set ''argon2id''" by (simp_all add: nat_text_no_dollar)
  note parts = this [THEN split_on_field] std_encode_no_dollar [THEN split_on_field] std_encode_no_dollar [THEN split_on_last]
  show ?thesis unfolding h by (simp only: parts)
qed

lemma verify_hashed:
  assumes "argon_ok lib" and h: "hashPassword lib (Some salt) pw = Inr h"
  shows "verifyPassword lib pw' h = Inr (ag_IDKey lib pw' salt argonTime argonMemory argonThreads argonKeyLen =
     ag_IDKey lib pw salt argonTime argonMemory argonThreads argonKeyLen)"
proof -
  let ?k = "ag_IDKey lib pw salt argonTime argonMemory argonThreads argonKeyLen"
  have len: "length ?k mod 2 ^ 32 = argonKeyLen" using assms(1) by (simp add: argon_ok_def argonKeyLen_def)
  have cost: "argonMemory < 2 ^ 32" "argonTime < 2 ^ 32" "argonThreads < 2 ^ 8"
    by (simp_all add: argonMemory_def argonTime_def argonThreads_def)
  have ver: "ag_Version lib < 2 ^ 63" using assms(1) by (simp add: argon_ok_def)
  show ?thesis
    unfolding verifyPassword_def hash_parts [OF h] Let_def
    using scan_version_text [OF ver] scan_cost_text [OF cost] len by (simp add: std_round_trip)
qed

lemma hash_some: "\<exists>h. hashPassword lib (Some salt) pw = Inr h"
  by (simp add: hashPassword_def Let_def)

text \<open>
  The stored text of a password can be read back, whatever the salt: verifying a password against it never fails,
  and says yes exactly when the candidate derives the same key from the stored salt and cost. So the right
  password is always accepted, and a wrong one is accepted only if Argon2 maps both to one key. Hashing fails only
  when no salt could be drawn.
\<close>

theorem password_round_trip:
  assumes "argon_ok lib"
  shows "\<exists>h. hashPassword lib (Some salt) pw = Inr h \<and> verifyPassword lib pw h = Inr True \<and>
    (\<forall>pw'. verifyPassword lib pw' h = Inr (ag_IDKey lib pw' salt argonTime argonMemory argonThreads argonKeyLen =
       ag_IDKey lib pw salt argonTime argonMemory argonThreads argonKeyLen)) \<and> (\<exists>e. hashPassword lib None pw = Inl e)"
  using hash_some [of lib salt pw] verify_hashed [OF assms] by (auto simp: hashPassword_def)

text \<open>A key derivation to evaluate with: the password, padded or cut to the length asked for.\<close>

definition plain_argon :: argon_lib where
  "plain_argon = \<lparr>ag_Version = 19, ag_IDKey = (\<lambda>pw salt t m p k. take k (pw @ salt @ replicate k (CHR ''.'')))\<rparr>"

lemma plain_argon_ok: "argon_ok plain_argon"
  by (auto simp: argon_ok_def plain_argon_def min_def)

theorem password_round_trip_witness:
  "\<exists>h. hashPassword plain_argon (Some ''0123456789abcdef'') ''correct horse'' = Inr h \<and>
    verifyPassword plain_argon ''correct horse'' h = Inr True \<and> verifyPassword plain_argon ''battery staple'' h = Inr False"
  using password_round_trip [OF plain_argon_ok, of "''0123456789abcdef''" "''correct horse''"]
  by (auto simp: plain_argon_def argonKeyLen_def)

end
