(* ===== verification/Accounts.thy ===== *)
theory Accounts
  imports ConfigApi Passwords
begin

text \<open>
  \<open>auth.go\<close>, \<open>orgs.go\<close> and \<open>projects.go\<close>: users and their sessions, organisations with their members, projects. The
  identifiers the database or \<open>uuid.NewRandom\<close> draw are arguments. Upper case is that of ASCII.
\<close>

section \<open>Users and sessions\<close>

definition sessionTTL :: interval where
  "sessionTTL = 30 * 24 * 3600 * 1000000"

record registerReq =
  rr_Email :: string
  rr_Password :: string
  rr_Name :: string

record loginReq =
  lr_Email :: string
  lr_Password :: string

definition to_lower :: "string \<Rightarrow> string" where
  "to_lower s = map (\<lambda>c. if 65 \<le> (of_char c :: nat) \<and> of_char c \<le> (90 :: nat) then char_of (of_char c + 32 :: nat) else c) s"

definition insert_user :: "user_row \<Rightarrow> user_row option tx" where
  "insert_user u d =
    (if u_id u \<in> u_id ` set (users d) \<or> u_email u \<in> u_email ` set (users d) then Inl unique_violation
     else Inr (Some u, d\<lparr>users := users d @ [u]\<rparr>))"

record userView =
  uv_id :: uuid
  uv_email :: string
  uv_name :: string
  uv_created_at :: timestamptz

definition register :: "argon_lib \<Rightarrow> string option \<Rightarrow> uuid \<Rightarrow> (registerReq, userView) scoped" where
  "register lib rand i r sc now =
     abind (decode r) (\<lambda>req.
     let email = to_lower (trim_space (rr_Email req)); n = trim_space (rr_Name req)
     in if email = '''' \<or> CHR ''@'' \<notin> set email then afail (badRequest ''valid email required'')
        else if length (rr_Password req) < 8 then afail (badRequest ''password must be at least 8 characters'')
        else case hashPassword lib rand (rr_Password req) of
          Inl e \<Rightarrow> (\<lambda>d. Inl (Other e))
        | Inr hash \<Rightarrow>
            abind (on_error isUnique (Api (conflict ''email already registered''))
              (query_row (insert_user \<lparr>u_id = i, u_email = email, u_password_hash = hash,
                 u_name = (if n = '''' then None else Some n), u_created_at = now\<rparr>))) (\<lambda>u.
            aret (answer 201 (Some \<lparr>uv_id = u_id u, uv_email = email, uv_name = rr_Name req, uv_created_at = u_created_at u\<rparr>) 0 None)))"

definition find_user :: "string \<Rightarrow> user_row option tx" where
  "find_user email = reads (\<lambda>d. lookup_row u_email email (users d))"

definition insert_session :: "uuid \<Rightarrow> uuid \<Rightarrow> timestamptz \<Rightarrow> session_row option tx" where
  "insert_session sid uid now d =
    (let s = \<lparr>ss_id = sid, ss_user_id = uid, ss_issued_at = now, ss_expires_at = now + sessionTTL, ss_revoked_at = None\<rparr>
     in if sid \<in> ss_id ` set (sessions d) then Inl unique_violation
        else if uid \<notin> u_id ` set (users d) then Inl fk_violation
        else Inr (Some s, d\<lparr>sessions := sessions d @ [s]\<rparr>))"

record sessionView =
  sv_token :: string
  sv_user_id :: uuid
  sv_issued_at :: timestamptz
  sv_expires_at :: timestamptz

text \<open>\<open>rand\<close> is the identifier \<open>uuid.NewRandom\<close> draws, \<open>None\<close> when it fails.\<close>

definition login :: "argon_lib \<Rightarrow> uuid_lib \<Rightarrow> uuid option \<Rightarrow> (loginReq, sessionView) scoped" where
  "login lib ul rand r sc now =
     abind (decode r) (\<lambda>req.
     abind (on_no_rows unauthorized (query_row (find_user (to_lower (trim_space (lr_Email req)))))) (\<lambda>u.
     case verifyPassword lib (lr_Password req) (u_password_hash u) of
       Inl e \<Rightarrow> (\<lambda>d. Inl (Other e))
     | Inr ok \<Rightarrow>
        if \<not> ok then afail unauthorized
        else case rand of
          None \<Rightarrow> (\<lambda>d. Inl (Other ''rand''))
        | Some sid \<Rightarrow>
            abind (query_row (insert_session sid (u_id u) now)) (\<lambda>s.
            aret (answer 200 (Some \<lparr>sv_token = uuid_text ul sid, sv_user_id = u_id u, sv_issued_at = ss_issued_at s,
              sv_expires_at = ss_expires_at s\<rparr>) 0 None))))"

definition revoke_session :: "uuid \<Rightarrow> timestamptz \<Rightarrow> unit tx" where
  "revoke_session sid now d =
     Inr ((), d\<lparr>sessions := update_where (\<lambda>s. ss_id s = sid \<and> ss_revoked_at s = None) (\<lambda>s. s\<lparr>ss_revoked_at := Some now\<rparr>) (sessions d)\<rparr>)"

definition logout :: "('q, unit) scoped" where
  "logout r sc now = abind (exec_sql (revoke_session (sc_sessionID sc) now)) (\<lambda>_. aret (answer 204 None 0 None))"

section \<open>Organisations\<close>

record orgView =
  ov_ID :: uuid
  ov_Name :: string
  ov_Role :: string
  ov_CreatedAt :: timestamptz

record nameReq =
  nr_Name :: string

record memberReq =
  mr_Email :: string
  mr_Role :: string

definition validRole :: "string \<Rightarrow> bool" where
  "validRole s \<longleftrightarrow> s \<in> {''owner'', ''admin'', ''member'', ''viewer''}"

definition insert_org :: "organization \<Rightarrow> organization option tx" where
  "insert_org o' d =
    (if o_id o' \<in> o_id ` set (organizations d) then Inl unique_violation
     else Inr (Some o', d\<lparr>organizations := organizations d @ [o']\<rparr>))"

definition member_refs :: "org_member \<Rightarrow> db \<Rightarrow> bool" where
  "member_refs m d \<longleftrightarrow> om_org_id m \<in> o_id ` set (organizations d) \<and> om_user_id m \<in> u_id ` set (users d)"

definition same_member :: "org_member \<Rightarrow> org_member \<Rightarrow> bool" where
  "same_member m n \<longleftrightarrow> om_org_id n = om_org_id m \<and> om_user_id n = om_user_id m"

definition insert_member :: "org_member \<Rightarrow> unit tx" where
  "insert_member m d =
    (if \<not> validRole (om_role m) then Inl check_violation
     else if \<exists>n \<in> set (org_members d). same_member m n then Inl unique_violation
     else if \<not> member_refs m d then Inl fk_violation
     else Inr ((), d\<lparr>org_members := org_members d @ [m]\<rparr>))"

text \<open>\<open>on conflict (org_id, user_id) do update set role = excluded.role\<close>.\<close>

definition upsert_member :: "org_member \<Rightarrow> unit tx" where
  "upsert_member m d =
    (if \<not> validRole (om_role m) then Inl check_violation
     else if \<exists>n \<in> set (org_members d). same_member m n
       then Inr ((), d\<lparr>org_members := update_where (same_member m) (\<lambda>n. n\<lparr>om_role := om_role m\<rparr>) (org_members d)\<rparr>)
     else if \<not> member_refs m d then Inl fk_violation
     else Inr ((), d\<lparr>org_members := org_members d @ [m]\<rparr>))"

definition createOrg :: "uuid \<Rightarrow> (nameReq, orgView) scoped" where
  "createOrg i r sc now =
     abind (decode r) (\<lambda>req.
     let name = trim_space (nr_Name req)
     in if name = '''' then afail (badRequest ''name required'')
        else abind (query_row (insert_org \<lparr>o_id = i, o_name = name, o_created_at = now\<rparr>)) (\<lambda>o'.
          abind (exec_sql (insert_member \<lparr>om_org_id = o_id o', om_user_id = sc_userID sc, om_role = ''owner''\<rparr>)) (\<lambda>_.
          aret (answer 201 (Some \<lparr>ov_ID = o_id o', ov_Name = name, ov_Role = ''owner'', ov_CreatedAt = o_created_at o'\<rparr>) 0 None))))"

definition org_rows :: "uuid \<Rightarrow> db \<Rightarrow> orgView list" where
  "org_rows uid d =
     concat (map (\<lambda>o'. map (\<lambda>m. \<lparr>ov_ID = o_id o', ov_Name = o_name o', ov_Role = om_role m, ov_CreatedAt = o_created_at o'\<rparr>)
         (filter (\<lambda>m. om_org_id m = o_id o' \<and> om_user_id m = uid) (org_members d)))
       (organizations d))"

definition listOrgs :: "('q, orgView list) scoped" where
  "listOrgs r sc now =
     abind (exec_sql (reads (\<lambda>d. sort_key (\<lambda>v. - ov_CreatedAt v) (org_rows (sc_userID sc) d)))) (\<lambda>out.
     aret (answer 0 (Some out) 0 None))"

definition getOrg :: "('q, orgView) scoped" where
  "getOrg r sc now =
     abind (on_no_rows (notFound ''org'') (query_row (reads (\<lambda>d. lookup_row o_id (sc_orgID sc) (organizations d))))) (\<lambda>o'.
     aret (answer 0 (Some \<lparr>ov_ID = o_id o', ov_Name = o_name o', ov_Role = '''', ov_CreatedAt = o_created_at o'\<rparr>) 0 None))"

definition update_org :: "uuid \<Rightarrow> string \<Rightarrow> organization option tx" where
  "update_org i name d =
    (let os = update_where (\<lambda>o'. o_id o' = i) (\<lambda>o'. o'\<lparr>o_name := name\<rparr>) (organizations d)
     in Inr (lookup_row o_id i os, d\<lparr>organizations := os\<rparr>))"

definition updateOrg :: "(nameReq, orgView) scoped" where
  "updateOrg r sc now =
     abind (decode r) (\<lambda>req.
     let name = trim_space (nr_Name req)
     in if name = '''' then afail (badRequest ''name required'')
        else abind (query_row (update_org (sc_orgID sc) name)) (\<lambda>o'.
          aret (answer 0 (Some \<lparr>ov_ID = sc_orgID sc, ov_Name = o_name o', ov_Role = '''', ov_CreatedAt = o_created_at o'\<rparr>) 0 None)))"

definition addMember :: "(memberReq, uuid \<times> uuid \<times> string) scoped" where
  "addMember r sc now =
     abind (decode r) (\<lambda>req.
     let email = to_lower (trim_space (mr_Email req))
     in if email = '''' then afail (badRequest ''email required'')
        else if \<not> validRole (mr_Role req) then afail (badRequest ''role must be one of owner, admin, member, viewer'')
        else abind (on_no_rows (notFound ''user'') (query_row (find_user email))) (\<lambda>u.
          abind (exec_sql (upsert_member \<lparr>om_org_id = sc_orgID sc, om_user_id = u_id u, om_role = mr_Role req\<rparr>)) (\<lambda>_.
          aret (answer 201 (Some (sc_orgID sc, u_id u, mr_Role req)) 0 None))))"

section \<open>Projects\<close>

definition insert_project :: "project \<Rightarrow> project option tx" where
  "insert_project p d =
    (if \<exists>p' \<in> set (projects d). pr_id p' = pr_id p \<or> pr_org_id p' = pr_org_id p \<and> pr_name p' = pr_name p then Inl unique_violation
     else if pr_org_id p \<notin> o_id ` set (organizations d) then Inl fk_violation
     else Inr (Some p, d\<lparr>projects := projects d @ [p]\<rparr>))"

text \<open>The view of a project is its row.\<close>

definition createProject :: "uuid \<Rightarrow> (nameReq, project) scoped" where
  "createProject i r sc now =
     abind (decode r) (\<lambda>req.
     let name = trim_space (nr_Name req)
     in if name = '''' then afail (badRequest ''name required'')
        else abind (on_error isUnique (Api (conflict ''project name already used in this org''))
            (query_row (insert_project \<lparr>pr_id = i, pr_org_id = sc_orgID sc, pr_name = name, pr_created_at = now\<rparr>))) (\<lambda>p.
          aret ((answer 201 (Some p) (pr_id p) None)\<lparr>res_projectID := pr_id p\<rparr>)))"

definition listProjects :: "('q, project list) scoped" where
  "listProjects r sc now =
     abind (exec_sql (reads (\<lambda>d. sort_key (\<lambda>p. - pr_created_at p) (filter (\<lambda>p. pr_org_id p = sc_orgID sc) (projects d))))) (\<lambda>out.
     aret (answer 0 (Some out) 0 None))"

definition getProject :: "('q, project) scoped" where
  "getProject r sc now =
     abind (on_no_rows (notFound ''project'') (query_row (reads (\<lambda>d. lookup_row pr_id (sc_projectID sc) (projects d))))) (\<lambda>p.
     aret (answer 0 (Some p) 0 None))"

definition update_project :: "uuid \<Rightarrow> string \<Rightarrow> project option tx" where
  "update_project i name d =
    (case lookup_row pr_id i (projects d) of
       None \<Rightarrow> Inr (None, d)
     | Some p \<Rightarrow>
        if \<exists>p' \<in> set (projects d). pr_id p' \<noteq> i \<and> pr_org_id p' = pr_org_id p \<and> pr_name p' = name then Inl unique_violation
        else Inr (Some (p\<lparr>pr_name := name\<rparr>), d\<lparr>projects := update_where (\<lambda>p. pr_id p = i) (\<lambda>p. p\<lparr>pr_name := name\<rparr>) (projects d)\<rparr>))"

definition updateProject :: "(nameReq, project) scoped" where
  "updateProject r sc now =
     abind (decode r) (\<lambda>req.
     let name = trim_space (nr_Name req)
     in if name = '''' then afail (badRequest ''name required'')
        else abind (on_error isUnique (Api (conflict ''project name already used in this org''))
            (query_row (update_project (sc_projectID sc) name))) (\<lambda>p.
          aret (answer 0 (Some p) 0 None)))"

text \<open>
  \<open>deleteProjectSQL\<close> and its cascade, in the order the foreign keys of \<open>projects\<close> were declared: the retry policies, which a
  queue or a job that still refers to one restricts; the queues, with everything of theirs; the workers, which a
  job, a lease or an execution restricts.
\<close>

definition delete_policies :: "uuid \<Rightarrow> db \<Rightarrow> pg_error + db" where
  "delete_policies p d =
    (let ids = p_id ` {rp \<in> set (retry_policies d). p_project_id rp = p}
     in if (\<exists>q \<in> set (queues d). q_retry_policy_id q \<in> ids) \<or> (\<exists>j \<in> set (jobs d). j_retry_policy_id j \<in> ids) then Inl fk_violation
        else Inr (d\<lparr>retry_policies := delete_where (\<lambda>rp. p_project_id rp = p) (retry_policies d)\<rparr>))"

definition delete_queues :: "uuid \<Rightarrow> db \<Rightarrow> pg_error + db" where
  "delete_queues p d =
     foldr_result (\<lambda>q d. rbind (delete_queue (q_id q) d) (\<lambda>(_, d1). Inr d1)) (filter (\<lambda>q. q_project_id q = p) (queues d)) d"

definition delete_workers :: "uuid \<Rightarrow> db \<Rightarrow> pg_error + db" where
  "delete_workers p d =
    (let ids = w_id ` {w \<in> set (workers d). w_project_id w = p}
     in if (\<exists>j \<in> set (jobs d). \<exists>w \<in> ids. j_worker_id j = Some w) \<or> (\<exists>l \<in> set (job_leases d). l_worker_id l \<in> ids) \<or>
          (\<exists>x \<in> set (job_executions d). x_worker_id x \<in> ids) then Inl fk_violation
        else Inr (d\<lparr>workers := delete_where (\<lambda>w. w_project_id w = p) (workers d),
               worker_queues := delete_where (\<lambda>(w, q). w \<in> ids) (worker_queues d)\<rparr>))"

definition delete_project :: "uuid \<Rightarrow> db \<Rightarrow> pg_error + db" where
  "delete_project p d =
    (if p \<notin> pr_id ` set (projects d) then Inr d
     else rbind (delete_policies p (d\<lparr>projects := delete_where (\<lambda>pr. pr_id pr = p) (projects d)\<rparr>)) (\<lambda>d.
          rbind (delete_queues p d) (delete_workers p)))"

definition deleteProject :: "('q, unit) scoped" where
  "deleteProject r sc now =
     abind (exec_sql (\<lambda>d. rbind (delete_project (sc_projectID sc) d) (\<lambda>d1. Inr ((), d1)))) (\<lambda>_. aret (answer 204 None 0 None))"

text \<open>\<open>deleteOrgSQL\<close>: the members go, then the projects one by one.\<close>

definition delete_org :: "uuid \<Rightarrow> db \<Rightarrow> pg_error + db" where
  "delete_org i d =
    (let ps = map pr_id (filter (\<lambda>p. pr_org_id p = i) (projects d))
     in foldr_result delete_project ps
          (d\<lparr>organizations := delete_where (\<lambda>o'. o_id o' = i) (organizations d),
             org_members := delete_where (\<lambda>m. om_org_id m = i) (org_members d)\<rparr>))"

definition deleteOrg :: "('q, unit) scoped" where
  "deleteOrg r sc now =
     abind (exec_sql (\<lambda>d. rbind (delete_org (sc_orgID sc) d) (\<lambda>d1. Inr ((), d1)))) (\<lambda>_. aret (answer 204 None 0 None))"

section \<open>Consistent accounts\<close>

definition users_ok :: "db \<Rightarrow> bool" where
  "users_ok d \<longleftrightarrow> distinct (map u_id (users d)) \<and> distinct (map u_email (users d))"

definition members_ok :: "db \<Rightarrow> bool" where
  "members_ok d \<longleftrightarrow> distinct (map o_id (organizations d)) \<and> distinct (map (\<lambda>m. (om_org_id m, om_user_id m)) (org_members d)) \<and>
     (\<forall>m \<in> set (org_members d). member_refs m d \<and> validRole (om_role m))"

definition projects_ok :: "db \<Rightarrow> bool" where
  "projects_ok d \<longleftrightarrow> distinct (map pr_id (projects d)) \<and> distinct (map (\<lambda>p. (pr_org_id p, pr_name p)) (projects d)) \<and>
     pr_org_id ` set (projects d) \<subseteq> o_id ` set (organizations d)"

definition sessions_ok :: "db \<Rightarrow> bool" where
  "sessions_ok d \<longleftrightarrow> distinct (map ss_id (sessions d)) \<and> ss_user_id ` set (sessions d) \<subseteq> u_id ` set (users d)"

definition accounts_ok :: "db \<Rightarrow> bool" where
  "accounts_ok d \<longleftrightarrow> users_ok d \<and> members_ok d \<and> projects_ok d \<and> sessions_ok d"

text \<open>A session that has been ended, and that nothing may bring back.\<close>

definition revoked :: "uuid \<Rightarrow> db \<Rightarrow> bool" where
  "revoked sid d \<longleftrightarrow> (\<exists>s \<in> set (sessions d). ss_id s = sid \<and> ss_revoked_at s \<noteq> None)"

definition keeps_accounts :: "db \<Rightarrow> db \<Rightarrow> bool" where
  "keeps_accounts d d' \<longleftrightarrow> (accounts_ok d \<longrightarrow> accounts_ok d' \<and> (\<forall>sid. revoked sid d \<longrightarrow> revoked sid d'))"

definition same_accounts :: "db \<Rightarrow> db \<Rightarrow> bool" where
  "same_accounts d d' \<longleftrightarrow> users d' = users d \<and> organizations d' = organizations d \<and> org_members d' = org_members d \<and>
     projects d' = projects d \<and> sessions d' = sessions d"

lemmas accounts_defs = accounts_ok_def users_ok_def members_ok_def projects_ok_def sessions_ok_def member_refs_def

lemma same_accounts_keeps: "same_accounts d d' \<Longrightarrow> keeps_accounts d d'"
  by (simp add: same_accounts_def keeps_accounts_def accounts_defs revoked_def)

interpretation accounts: tx_guarantee keeps_accounts
proof
  show "keeps_accounts d d" for d by (simp add: keeps_accounts_def)
  show "keeps_accounts a b \<Longrightarrow> keeps_accounts b c \<Longrightarrow> keeps_accounts a c" for a b c by (simp add: keeps_accounts_def)
  show "keeps_accounts d (emit topic entity project payload now d)" for d topic entity project payload now
    by (rule same_accounts_keeps) (simp add: same_accounts_def)
qed

text \<open>The statements on users and sessions.\<close>

lemma keeps_insert_user [tx_rules]: "assures keeps_accounts (insert_user u)"
proof (rule assuresI)
  fix d r d' assume "insert_user u d = Inr (r, d')"
  then have "u_id u \<notin> u_id ` set (users d)" "u_email u \<notin> u_email ` set (users d)" "d' = d\<lparr>users := users d @ [u]\<rparr>"
    by (simp_all add: insert_user_def split: if_split_asm)
  then show "keeps_accounts d d'" by (auto simp: keeps_accounts_def accounts_defs revoked_def)
qed

lemma keeps_insert_session [tx_rules]: "assures keeps_accounts (insert_session sid uid now)"
proof (rule assuresI)
  fix d r d' assume "insert_session sid uid now d = Inr (r, d')"
  then have "sid \<notin> ss_id ` set (sessions d)" "uid \<in> u_id ` set (users d)"
    "d' = d\<lparr>sessions := sessions d @ [\<lparr>ss_id = sid, ss_user_id = uid, ss_issued_at = now, ss_expires_at = now + sessionTTL, ss_revoked_at = None\<rparr>]\<rparr>"
    by (simp_all add: insert_session_def Let_def split: if_split_asm)
  then show "keeps_accounts d d'" by (auto simp: keeps_accounts_def accounts_defs revoked_def)
qed

lemma keeps_revoke_session [tx_rules]: "assures keeps_accounts (revoke_session sid now)"
proof (rule assuresI)
  fix d r d' assume "revoke_session sid now d = Inr (r, d')"
  then have d': "d' = d\<lparr>sessions := update_where (\<lambda>s. ss_id s = sid \<and> ss_revoked_at s = None) (\<lambda>s. s\<lparr>ss_revoked_at := Some now\<rparr>) (sessions d)\<rparr>"
    by (simp add: revoke_session_def)
  have "map ss_id (sessions d') = map ss_id (sessions d)" "ss_user_id ` set (sessions d') = ss_user_id ` set (sessions d)"
    by (simp_all add: d' map_update_where image_update_where)
  moreover have "revoked i d'" if "revoked i d" for i
    using that by (auto simp: revoked_def d' in_update_where_iff)
  ultimately show "keeps_accounts d d'" by (simp add: keeps_accounts_def accounts_defs d')
qed

text \<open>The statements on organisations and projects.\<close>

lemma keeps_insert_org [tx_rules]: "assures keeps_accounts (insert_org o')"
  by (rule assuresI) (auto simp: insert_org_def keeps_accounts_def accounts_defs revoked_def split: if_split_asm)

lemma member_key: "same_member m n \<longleftrightarrow> (om_org_id n, om_user_id n) = (om_org_id m, om_user_id m)"
  by (simp add: same_member_def)

lemma keeps_new_member:
  assumes "validRole (om_role m)" and "\<not> (\<exists>n \<in> set (org_members d). same_member m n)" and "member_refs m d"
  shows "keeps_accounts d (d\<lparr>org_members := org_members d @ [m]\<rparr>)"
  using assms unfolding keeps_accounts_def accounts_defs revoked_def member_key by auto

lemma keeps_insert_member [tx_rules]: "assures keeps_accounts (insert_member m)"
  by (rule assuresI) (auto simp: insert_member_def intro: keeps_new_member split: if_split_asm)

lemma keeps_upsert_member [tx_rules]: "assures keeps_accounts (upsert_member m)"
proof (rule assuresI)
  fix d r d' assume run: "upsert_member m d = Inr (r, d')"
  then have role: "validRole (om_role m)" by (simp add: upsert_member_def split: if_split_asm)
  show "keeps_accounts d d'"
  proof (cases "\<exists>n \<in> set (org_members d). same_member m n")
    case True
    with run have d': "d' = d\<lparr>org_members := update_where (same_member m) (\<lambda>n. n\<lparr>om_role := om_role m\<rparr>) (org_members d)\<rparr>"
      by (simp add: upsert_member_def split: if_split_asm)
    then have keys: "map (\<lambda>m. (om_org_id m, om_user_id m)) (org_members d') = map (\<lambda>m. (om_org_id m, om_user_id m)) (org_members d)"
      by (simp add: map_update_where)
    have "member_refs n d' \<and> validRole (om_role n)" if "n \<in> set (org_members d')" "\<forall>m \<in> set (org_members d). member_refs m d \<and> validRole (om_role m)" for n
      using that role by (auto simp: d' in_update_where_iff member_refs_def)
    with keys show ?thesis by (simp add: keeps_accounts_def accounts_ok_def users_ok_def members_ok_def projects_ok_def sessions_ok_def revoked_def d')
  next
    case False
    with run have "d' = d\<lparr>org_members := org_members d @ [m]\<rparr>" "member_refs m d"
      by (simp_all add: upsert_member_def split: if_split_asm)
    with keeps_new_member [OF role False] show ?thesis by simp
  qed
qed

lemma keeps_update_org [tx_rules]: "assures keeps_accounts (update_org i name)"
  by (rule assuresI) (auto simp: update_org_def Let_def keeps_accounts_def accounts_defs revoked_def map_update_where image_update_where)

lemma keeps_insert_project [tx_rules]: "assures keeps_accounts (insert_project p)"
  by (rule assuresI) (auto simp: insert_project_def keeps_accounts_def accounts_defs revoked_def split: if_split_asm)

lemma keeps_update_project [tx_rules]: "assures keeps_accounts (update_project i name)"
proof (rule assuresI)
  fix d r d' assume run: "update_project i name d = Inr (r, d')"
  let ?U = "update_where (\<lambda>p. pr_id p = i) (\<lambda>p. p\<lparr>pr_name := name\<rparr>) (projects d)"
  show "keeps_accounts d d'"
  proof (cases "lookup_row pr_id i (projects d)")
    case None
    with run show ?thesis by (simp add: update_project_def keeps_accounts_def)
  next
    case (Some p)
    with run have un: "\<forall>p' \<in> set (projects d). pr_id p' \<noteq> i \<longrightarrow> \<not> (pr_org_id p' = pr_org_id p \<and> pr_name p' = name)" and d': "d' = d\<lparr>projects := ?U\<rparr>"
      by (auto simp: update_project_def split: if_split_asm)
    have keys: "map pr_id ?U = map pr_id (projects d)" "pr_org_id ` set ?U = pr_org_id ` set (projects d)"
      by (simp_all add: map_update_where image_update_where)
    have p: "p \<in> set (projects d)" "pr_id p = i" using lookup_row_SomeD [OF Some] by auto
    have "distinct (map (\<lambda>p. (pr_org_id p, pr_name p)) ?U)" if ok: "projects_ok d"
    proof (rule distinct_update_one)
      show ids: "distinct (map pr_id (projects d))" "distinct (map (\<lambda>p. (pr_org_id p, pr_name p)) (projects d))" using ok by (simp_all add: projects_ok_def)
      show "\<forall>r \<in> set (projects d). \<forall>s \<in> set (projects d). pr_id r \<noteq> i \<longrightarrow> pr_id s = i \<longrightarrow> (pr_org_id r, pr_name r) \<noteq> (pr_org_id (s\<lparr>pr_name := name\<rparr>), pr_name (s\<lparr>pr_name := name\<rparr>))"
        using un key_unique [OF ids(1) _ p(1)] p(2) by auto
    qed
    with keys show ?thesis by (simp add: keeps_accounts_def accounts_ok_def users_ok_def members_ok_def member_refs_def projects_ok_def sessions_ok_def revoked_def d')
  qed
qed

text \<open>The deletes, statement by statement: what a project takes with it touches no account.\<close>

lemma same_accounts_refl: "same_accounts d d"
  by (simp add: same_accounts_def)

lemma same_accounts_trans: "same_accounts a b \<Longrightarrow> same_accounts b c \<Longrightarrow> same_accounts a c"
  by (simp add: same_accounts_def)

interpretation untouched: tx_guarantee same_accounts
proof
  show "same_accounts d d" for d by (rule same_accounts_refl)
  show "same_accounts a b \<Longrightarrow> same_accounts b c \<Longrightarrow> same_accounts a c" for a b c by (rule same_accounts_trans)
  show "same_accounts d (emit topic entity project payload now d)" for d topic entity project payload now by (simp add: same_accounts_def)
qed

lemma untouched_delete_schedules: "delete_schedules P d = Inr d' \<Longrightarrow> same_accounts d d'"
  by (auto dest!: delete_schedules_Inr simp: same_accounts_def)

lemma untouched_delete_queue: "delete_queue i d = Inr (r, d') \<Longrightarrow> same_accounts d d'"
  by (auto simp: delete_queue_def drop_jobs_def Let_def result_simps same_accounts_def dest!: delete_schedules_Inr split: option.split_asm)

lemma foldr_result_assures:
  assumes refl: "\<And>d. R d d" and trans: "\<And>a b c. R a b \<Longrightarrow> R b c \<Longrightarrow> R a c"
    and step: "\<And>x d d'. f x d = Inr d' \<Longrightarrow> R d d'" and run: "foldr_result f xs d = Inr d'"
  shows "R d d'"
  using run
proof (induction xs arbitrary: d)
  case (Cons x xs)
  then show ?case by (auto simp: result_simps intro: trans step)
qed (simp add: refl)

lemma untouched_delete_queues: "delete_queues p d = Inr d' \<Longrightarrow> same_accounts d d'"
  unfolding delete_queues_def
  by (rule foldr_result_assures [of same_accounts])
     (auto simp: same_accounts_refl result_simps intro: untouched_delete_queue same_accounts_trans)

lemma keeps_delete_project: "delete_project p d = Inr d' \<Longrightarrow> keeps_accounts d d'"
proof -
  assume run: "delete_project p d = Inr d'"
  show ?thesis
  proof (cases "p \<in> pr_id ` set (projects d)")
    case False
    with run show ?thesis by (simp add: delete_project_def keeps_accounts_def)
  next
    case True
    let ?e = "d\<lparr>projects := delete_where (\<lambda>pr. pr_id pr = p) (projects d)\<rparr>"
    from run True obtain d1 d2 where steps: "delete_policies p ?e = Inr d1" "delete_queues p d1 = Inr d2" "delete_workers p d2 = Inr d'"
      by (auto simp: delete_project_def result_simps)
    have "same_accounts ?e d1" using steps(1) by (auto simp: delete_policies_def Let_def same_accounts_def split: if_split_asm)
    moreover have "same_accounts d2 d'" using steps(3) by (auto simp: delete_workers_def Let_def same_accounts_def split: if_split_asm)
    ultimately have "same_accounts ?e d'" using untouched_delete_queues [OF steps(2)] by (blast intro: same_accounts_trans)
    moreover have "keeps_accounts d ?e"
      by (auto simp: keeps_accounts_def accounts_defs revoked_def distinct_delete_where set_delete_where)
    ultimately show ?thesis by (blast intro: accounts.trans same_accounts_keeps)
  qed
qed

lemma delete_projects_gone:
  "foldr_result delete_project ps d = Inr d' \<Longrightarrow> projects d' = delete_where (\<lambda>p. pr_id p \<in> set ps) (projects d)"
proof (induction ps arbitrary: d)
  case (Cons p ps)
  then obtain d1 where run: "delete_project p d = Inr d1" "foldr_result delete_project ps d1 = Inr d'" by (auto simp: result_simps)
  have "projects d1 = delete_where (\<lambda>pr. pr_id pr = p) (projects d)"
  proof (cases "p \<in> pr_id ` set (projects d)")
    case False
    with run(1) have "d1 = d" by (simp add: delete_project_def)
    moreover have "delete_where (\<lambda>pr. pr_id pr = p) (projects d) = projects d" using False by (intro delete_where_none) auto
    ultimately show ?thesis by simp
  next
    case True
    with run(1) obtain e f where "delete_policies p (d\<lparr>projects := delete_where (\<lambda>pr. pr_id pr = p) (projects d)\<rparr>) = Inr e"
      "delete_queues p e = Inr f" "delete_workers p f = Inr d1" by (auto simp: delete_project_def result_simps)
    then have "projects e = delete_where (\<lambda>pr. pr_id pr = p) (projects d)" "projects f = projects e" "projects d1 = projects f"
      using untouched_delete_queues [of p e f]
      by (auto simp: delete_policies_def delete_workers_def Let_def same_accounts_def split: if_split_asm)
    then show ?thesis by simp
  qed
  with Cons.IH [OF run(2)] show ?case by (simp add: delete_where_def conj_commute)
qed (simp add: delete_where_def)

definition projects_only :: "db \<Rightarrow> db \<Rightarrow> bool" where
  "projects_only d d' \<longleftrightarrow> users d' = users d \<and> organizations d' = organizations d \<and> org_members d' = org_members d \<and> sessions d' = sessions d"

lemma delete_project_frame: "delete_project p d = Inr d' \<Longrightarrow> projects_only d d'"
  by (auto simp: delete_project_def delete_policies_def delete_workers_def Let_def projects_only_def same_accounts_def result_simps
    dest!: untouched_delete_queues split: if_split_asm)

lemma delete_projects_frame: "foldr_result delete_project ps d = Inr d' \<Longrightarrow> projects_only d d'"
  by (rule foldr_result_assures [of projects_only]) (auto simp: projects_only_def dest: delete_project_frame [unfolded projects_only_def])

lemma keeps_delete_org: "delete_org i d = Inr d' \<Longrightarrow> keeps_accounts d d'"
proof -
  assume run: "delete_org i d = Inr d'"
  let ?ps = "map pr_id (filter (\<lambda>p. pr_org_id p = i) (projects d))"
  have same: "users d' = users d" "sessions d' = sessions d" "organizations d' = delete_where (\<lambda>o'. o_id o' = i) (organizations d)"
    "org_members d' = delete_where (\<lambda>m. om_org_id m = i) (org_members d)"
    and ps: "projects d' = delete_where (\<lambda>p. pr_id p \<in> set ?ps) (projects d)"
    using delete_projects_frame [OF run [unfolded delete_org_def Let_def]] delete_projects_gone [OF run [unfolded delete_org_def Let_def]]
    by (simp_all add: projects_only_def)
  have gone: "\<forall>p \<in> set (projects d'). p \<in> set (projects d) \<and> pr_org_id p \<noteq> i" by (auto simp: ps set_delete_where)
  show ?thesis
    unfolding keeps_accounts_def
  proof (intro impI conjI allI)
    assume ok: "accounts_ok d"
    have "pr_org_id ` set (projects d') \<subseteq> o_id ` set (organizations d')"
    proof
      fix k assume "k \<in> pr_org_id ` set (projects d')"
      then obtain p where p: "p \<in> set (projects d')" "k = pr_org_id p" by (rule imageE)
      then have "k \<noteq> i" "k \<in> o_id ` set (organizations d)" using gone ok by (auto simp: accounts_ok_def projects_ok_def)
      then obtain o' where "o' \<in> set (organizations d)" "k = o_id o'" by (elim imageE)
      then show "k \<in> o_id ` set (organizations d')" using \<open>k \<noteq> i\<close> by (intro image_eqI [of _ _ o']) (simp_all add: same set_delete_where)
    qed
    moreover have "distinct (map pr_id (projects d'))" "distinct (map (\<lambda>p. (pr_org_id p, pr_name p)) (projects d'))"
      using ok by (simp_all add: ps accounts_ok_def projects_ok_def distinct_delete_where)
    moreover have "member_refs m d' \<and> validRole (om_role m)" if m: "m \<in> set (org_members d')" for m
    proof -
      have old: "m \<in> set (org_members d)" "om_org_id m \<noteq> i" using m by (simp_all add: same set_delete_where)
      then have "om_org_id m \<in> o_id ` set (organizations d)" "om_user_id m \<in> u_id ` set (users d)" "validRole (om_role m)"
        using ok by (auto simp: accounts_ok_def members_ok_def member_refs_def)
      then show ?thesis using old(2) by (auto simp: member_refs_def same set_delete_where)
    qed
    ultimately show "accounts_ok d'"
      using ok by (simp add: accounts_ok_def users_ok_def members_ok_def projects_ok_def sessions_ok_def same distinct_delete_where)
    show "revoked sid d'" if "revoked sid d" for sid using that by (simp add: revoked_def same)
  qed
qed

lemma keeps_deletes [tx_rules]:
  "assures keeps_accounts (\<lambda>d. rbind (delete_project p d) (\<lambda>d1. Inr ((), d1)))"
  "assures keeps_accounts (\<lambda>d. rbind (delete_org i d) (\<lambda>d1. Inr ((), d1)))"
  by (rule assuresI, auto simp: result_simps intro: keeps_delete_project keeps_delete_org)+

text \<open>Deleting a project or an organisation leaves the configuration consistent.\<close>

lemma config_delete_policies: "delete_policies p d = Inr d' \<Longrightarrow> keeps_config known d d'"
proof -
  let ?ids = "p_id ` {rp \<in> set (retry_policies d). p_project_id rp = p}"
  assume "delete_policies p d = Inr d'"
  then have free: "\<forall>q \<in> set (queues d). q_retry_policy_id q \<notin> ?ids" "\<forall>j \<in> set (jobs d). j_retry_policy_id j \<notin> ?ids"
    and d': "d' = d\<lparr>retry_policies := delete_where (\<lambda>rp. p_project_id rp = p) (retry_policies d)\<rparr>"
    by (simp_all add: delete_policies_def Let_def split: if_split_asm)
  have left: "k \<in> p_id ` set (retry_policies d')" if k: "k \<in> p_id ` set (retry_policies d)" "k \<notin> ?ids" for k
  proof -
    obtain rp where "rp \<in> set (retry_policies d)" "k = p_id rp" using k(1) by (rule imageE)
    then show ?thesis using k(2) by (intro image_eqI [of _ _ rp]) (auto simp: d' set_delete_where)
  qed
  show ?thesis
    unfolding keeps_config_def config_ok_def
  proof (intro impI conjI; elim conjE)
    assume ok: "policies_ok d" "queues_ok d" "shards_ok d" "schedules_ok known d"
    have refs: "k \<in> p_id ` set (retry_policies d)" if "k \<in> q_retry_policy_id ` set (queues d) \<union> j_retry_policy_id ` set (jobs d)" for k
      using ok(1) that unfolding policies_ok_def by blast
    have "q_retry_policy_id ` set (queues d) \<union> j_retry_policy_id ` set (jobs d) \<subseteq> p_id ` set (retry_policies d')"
    proof
      fix k assume k: "k \<in> q_retry_policy_id ` set (queues d) \<union> j_retry_policy_id ` set (jobs d)"
      then have "k \<notin> ?ids" using free by (elim UnE imageE) simp_all
      with refs [OF k] show "k \<in> p_id ` set (retry_policies d')" by (rule left)
    qed
    moreover have "distinct (map p_id (retry_policies d'))" "distinct (map (\<lambda>p. (p_project_id p, p_name p)) (retry_policies d'))"
      using ok(1) by (simp_all add: d' policies_ok_def distinct_delete_where)
    moreover have "\<forall>rp \<in> set (retry_policies d'). check_policy (policy_view rp)"
      using ok(1) by (simp add: d' policies_ok_def set_delete_where)
    ultimately show "policies_ok d'" unfolding policies_ok_def by (simp add: d')
    show "queues_ok d'" "shards_ok d'" "schedules_ok known d'"
      using ok(2-4) by (simp_all add: d' queues_ok_def queues_wf_def shards_ok_def shard_rows_def schedules_ok_def)
  qed
qed

lemma config_delete_queues: "delete_queues p d = Inr d' \<Longrightarrow> keeps_config known d d'"
  unfolding delete_queues_def
  by (rule foldr_result_assures [of "keeps_config known"])
     (auto simp: result_simps intro: configuration.refl configuration.trans assuresD [OF keeps_delete_queue])

lemma config_delete_project: "delete_project p d = Inr d' \<Longrightarrow> keeps_config known d d'"
proof -
  assume run: "delete_project p d = Inr d'"
  show ?thesis
  proof (cases "p \<in> pr_id ` set (projects d)")
    case False
    with run show ?thesis by (simp add: delete_project_def keeps_config_def)
  next
    case True
    let ?e = "d\<lparr>projects := delete_where (\<lambda>pr. pr_id pr = p) (projects d)\<rparr>"
    from run True obtain d1 d2 where steps: "delete_policies p ?e = Inr d1" "delete_queues p d1 = Inr d2" "delete_workers p d2 = Inr d'"
      by (auto simp: delete_project_def result_simps)
    note [trans] = configuration.trans
    have "keeps_config known d ?e" by (rule config_frame) simp_all
    also have "keeps_config known ?e d1" using steps(1) by (rule config_delete_policies)
    also have "keeps_config known d1 d2" using steps(2) by (rule config_delete_queues)
    also have "keeps_config known d2 d'"
      using steps(3) by (intro config_frame) (auto simp: delete_workers_def Let_def split: if_split_asm)
    finally show ?thesis .
  qed
qed

lemma config_delete_org: "delete_org i d = Inr d' \<Longrightarrow> keeps_config known d d'"
proof -
  let ?e = "d\<lparr>organizations := delete_where (\<lambda>o'. o_id o' = i) (organizations d), org_members := delete_where (\<lambda>m. om_org_id m = i) (org_members d)\<rparr>"
  assume "delete_org i d = Inr d'"
  then have "foldr_result delete_project (map pr_id (filter (\<lambda>p. pr_org_id p = i) (projects d))) ?e = Inr d'" by (simp add: delete_org_def Let_def)
  then have "keeps_config known ?e d'"
    by (rule foldr_result_assures [of "keeps_config known", rotated 3]) (blast intro: configuration.refl configuration.trans config_delete_project)+
  moreover have "keeps_config known d ?e" by (rule config_frame) simp_all
  ultimately show ?thesis by (blast intro: configuration.trans)
qed

lemma config_deletes [tx_rules]:
  "assures (keeps_config known) (\<lambda>d. rbind (delete_project p d) (\<lambda>d1. Inr ((), d1)))"
  "assures (keeps_config known) (\<lambda>d. rbind (delete_org i d) (\<lambda>d1. Inr ((), d1)))"
  by (rule assuresI, auto simp: result_simps intro: config_delete_project config_delete_org)+

lemma config_account_sql [tx_rules]:
  "assures (keeps_config known) (insert_user u)" "assures (keeps_config known) (insert_session sid uid now)"
  "assures (keeps_config known) (revoke_session sid now)" "assures (keeps_config known) (insert_org o')"
  "assures (keeps_config known) (insert_member m)" "assures (keeps_config known) (upsert_member m)"
  "assures (keeps_config known) (update_org i name)" "assures (keeps_config known) (insert_project p)"
  "assures (keeps_config known) (update_project i name)"
  by (rule assuresI, rule config_frame;
      auto simp: insert_user_def insert_session_def revoke_session_def insert_org_def insert_member_def upsert_member_def update_org_def
        insert_project_def update_project_def Let_def split: if_split_asm option.split_asm)+

lemma untouched_config_sql [tx_rules]:
  "assures same_accounts (insert_policy v)" "assures same_accounts (update_policy i pq)" "assures same_accounts (delete_policy i)"
  "assures same_accounts (insert_queue q now)" "assures same_accounts (update_queue i rq policy now)" "assures same_accounts (delete_queue i)"
  "assures same_accounts (set_paused_sql i paused)" "assures same_accounts (insert_schedule known s)"
  "assures same_accounts (update_schedule known i f)" "assures same_accounts (set_enabled_sql i on)"
  "assures same_accounts (\<lambda>d. rbind (delete_schedules P d) (\<lambda>d1. Inr ((), d1)))"
  by (rule assuresI, auto simp: insert_policy_def update_policy_def delete_policy_def insert_queue_def update_queue_def update_queues_def
        set_paused_sql_def insert_schedule_def update_schedule_def set_enabled_sql_def Let_def result_simps same_accounts_def
      dest!: spread_frame delete_schedules_Inr untouched_delete_queue [unfolded same_accounts_def] split: if_split_asm option.split_asm)+

section \<open>Administration as a whole\<close>

lemmas account_handlers = register_def login_def logout_def createOrg_def updateOrg_def addMember_def deleteOrg_def
  createProject_def updateProject_def deleteProject_def find_user_def

lemma assures_Other [tx_rules]: "assures R (\<lambda>d. Inl (Other e))"
  by (rule assuresI) simp

lemma handlers_keep_accounts:
  "assures keeps_accounts (register lib rand i rr sc now)" "assures keeps_accounts (login lib ul sid rl sc now)"
  "assures keeps_accounts (logout r sc now)" "assures keeps_accounts (createOrg i rn sc now)"
  "assures keeps_accounts (updateOrg rn sc now)" "assures keeps_accounts (deleteOrg r sc now)"
  "assures keeps_accounts (addMember rm sc now)" "assures keeps_accounts (createProject i rn sc now)"
  "assures keeps_accounts (updateProject rn sc now)" "assures keeps_accounts (deleteProject r sc now)"
  unfolding account_handlers Let_def by (intro tx_rules)+

lemma account_handlers_keep_config:
  "assures (keeps_config known) (register lib rand i rr sc now)" "assures (keeps_config known) (login lib ul sid rl sc now)"
  "assures (keeps_config known) (logout r sc now)" "assures (keeps_config known) (createOrg i rn sc now)"
  "assures (keeps_config known) (updateOrg rn sc now)" "assures (keeps_config known) (deleteOrg r sc now)"
  "assures (keeps_config known) (addMember rm sc now)" "assures (keeps_config known) (createProject i rn sc now)"
  "assures (keeps_config known) (updateProject rn sc now)" "assures (keeps_config known) (deleteProject r sc now)"
  unfolding account_handlers Let_def by (intro tx_rules)+

lemma untouched_parts [tx_rules]: "assures same_accounts (assertPolicyOwned i p)" "assures same_accounts (checkCron clib expr tz now)"
  unfolding assertPolicyOwned_def checkCron_def by (intro tx_rules)+

lemma config_handlers_keep_accounts:
  "assures same_accounts (createPolicy i rp sc now)" "assures same_accounts (updatePolicy rp sc now)"
  "assures same_accounts (deletePolicy r sc now)" "assures same_accounts (createQueue ul i rq sc now)"
  "assures same_accounts (updateQueue ul rq sc now)" "assures same_accounts (deleteQueue r sc now)"
  "assures same_accounts (setPaused paused topic r sc now)" "assures same_accounts (createSchedule clib lib known i rs sc now)"
  "assures same_accounts (updateSchedule clib lib known rs sc now)" "assures same_accounts (deleteSchedule r sc now)"
  "assures same_accounts (setScheduleEnabled on r sc now)"
  unfolding config_handlers Let_def by (intro tx_rules)+

text \<open>One committed request that changes accounts, and one that changes accounts or configuration.\<close>

inductive account_step :: "argon_lib \<Rightarrow> uuid_lib \<Rightarrow> db \<Rightarrow> db \<Rightarrow> bool" for lib ul where
  register: "register lib rand i rr sc now d = Inr (vu, d') \<Longrightarrow> account_step lib ul d d'"
| login: "login lib ul sid rl sc now d = Inr (vs, d') \<Longrightarrow> account_step lib ul d d'"
| logout: "logout (r :: unit request) sc now d = Inr (v0, d') \<Longrightarrow> account_step lib ul d d'"
| create_org: "createOrg i rn sc now d = Inr (vo, d') \<Longrightarrow> account_step lib ul d d'"
| update_org: "updateOrg rn sc now d = Inr (vo, d') \<Longrightarrow> account_step lib ul d d'"
| delete_org: "deleteOrg (r :: unit request) sc now d = Inr (v0, d') \<Longrightarrow> account_step lib ul d d'"
| add_member: "addMember rm sc now d = Inr (vm, d') \<Longrightarrow> account_step lib ul d d'"
| create_project: "createProject i rn sc now d = Inr (vp, d') \<Longrightarrow> account_step lib ul d d'"
| update_project: "updateProject rn sc now d = Inr (vp, d') \<Longrightarrow> account_step lib ul d d'"
| delete_project: "deleteProject (r :: unit request) sc now d = Inr (v0, d') \<Longrightarrow> account_step lib ul d d'"

inductive admin_step :: "argon_lib \<Rightarrow> ('loc, 'sched) cron_lib \<Rightarrow> api_lib \<Rightarrow> (string \<Rightarrow> bool) \<Rightarrow> db \<Rightarrow> db \<Rightarrow> bool"
  for lib clib alib known where
  account: "account_step lib (al_uuid alib) d d' \<Longrightarrow> admin_step lib clib alib known d d'"
| config: "config_step clib alib known d d' \<Longrightarrow> admin_step lib clib alib known d d'"

lemma account_step_keeps: "account_step lib ul d d' \<Longrightarrow> keeps_accounts d d'"
  by (induction rule: account_step.induct) (erule handlers_keep_accounts [THEN assuresD])+

lemma account_step_config: "account_step lib ul d d' \<Longrightarrow> keeps_config known d d'"
  by (induction rule: account_step.induct) (erule account_handlers_keep_config [THEN assuresD])+

lemma config_step_accounts: "config_step clib alib known d d' \<Longrightarrow> same_accounts d d'"
  by (induction rule: config_step.induct) (erule config_handlers_keep_accounts [THEN assuresD])+

lemma admin_step_keeps: "admin_step lib clib alib known d d' \<Longrightarrow> keeps_config known d d' \<and> keeps_accounts d d'"
  by (induction rule: admin_step.induct)
     (auto intro: account_step_keeps account_step_config config_step_keeps same_accounts_keeps config_step_accounts)

interpretation admin_run: transition_system "\<lambda>d. config_ok known d \<and> accounts_ok d" "admin_step lib clib alib known"
  "\<lambda>d. config_ok known d \<and> accounts_ok d" for lib clib alib known
proof
  show "config_ok known d \<and> accounts_ok d \<Longrightarrow> config_ok known d \<and> accounts_ok d" for d .
  show "config_ok known d \<and> accounts_ok d \<Longrightarrow> admin_step lib clib alib known d d' \<Longrightarrow> config_ok known d' \<and> accounts_ok d'" for d d'
    using admin_step_keeps [of lib clib alib known d d'] by (simp add: keeps_config_def keeps_accounts_def)
qed

lemma admin_steps_revoked:
  assumes "(admin_step lib clib alib known)\<^sup>*\<^sup>* d d'" and "accounts_ok d" and "revoked sid d"
  shows "accounts_ok d' \<and> revoked sid d'"
  using assms
proof (induction rule: rtranclp_induct)
  case (step y z)
  then show ?case using admin_step_keeps [of lib clib alib known y z] by (simp add: keeps_accounts_def)
qed simp

section \<open>What administration promises\<close>

text \<open>
  C30. However accounts, organisations, projects, policies, queues and schedules are changed through the API, in any
  order and by anybody, the administrative state stays consistent. E-mail addresses, memberships, names and
  identifiers are unique; every member, session, project, queue, job and schedule refers to something that
  exists; every row passes its checks; every queue has exactly its shard rows. So what the admission gate and the
  cron materializer assume of the configuration holds in every reachable state.
\<close>

theorem administration_stays_consistent:
  assumes "config_ok known d" and "accounts_ok d" and "(admin_step lib clib alib known)\<^sup>*\<^sup>* d d'"
  shows "config_ok known d' \<and> accounts_ok d' \<and> schedules_wf d' \<and> (\<forall>q \<in> set (queues d'). check_queue q \<and> shards_wf q d')"
  using admin_run.steps_inv [OF assms(3)] assms(1,2) config_ok_serves [of known d'] by blast

text \<open>The token of a live session names its user; a token without one is refused.\<close>

lemma authuser_live:
  assumes "bearer r \<noteq> ''''" and "parse_uuid ul (bearer r) = Some sid"
  shows "authuser ul r now d =
    (case find (\<lambda>s. ss_id s = sid \<and> ss_revoked_at s = None \<and> now < ss_expires_at s) (sessions d) of
       None \<Rightarrow> Inl (Api unauthorized) | Some s \<Rightarrow> Inr ((ss_user_id s, sid), d))"
  using assms by (simp add: authuser_def session_sql_def split: option.split)

lemma revoked_refused:
  assumes "accounts_ok d" and "revoked sid d" and "bearer r \<noteq> ''''" and "parse_uuid ul (bearer r) = Some sid"
  shows "authuser ul r now d = Inl (Api unauthorized)"
proof -
  obtain s where s: "s \<in> set (sessions d)" "ss_id s = sid" "ss_revoked_at s \<noteq> None" using assms(2) unfolding revoked_def by blast
  have "distinct (map ss_id (sessions d))" using assms(1) by (simp add: accounts_ok_def sessions_ok_def)
  then have "\<forall>t \<in> set (sessions d). ss_id t = sid \<longrightarrow> t = s" using s key_unique by metis
  then have "find (\<lambda>s. ss_id s = sid \<and> ss_revoked_at s = None \<and> now < ss_expires_at s) (sessions d) = None"
    using s(3) by (auto simp: find_None_iff)
  then show ?thesis using assms(3,4) by (simp add: authuser_live)
qed

text \<open>
  C32. Logging out is final. Once a session has been logged out, no sequence of further requests (logins, registrations,
  changes of members, projects or configuration) makes its token valid again: every later request that carries
  it, at any time, is answered 401 before its handler runs.
\<close>

theorem logged_out_stays_out:
  assumes ok: "accounts_ok d" and live: "sc_sessionID sc \<in> ss_id ` set (sessions d)" and out: "logout r sc now d = Inr (res, d1)"
    and later: "(admin_step lib clib alib known)\<^sup>*\<^sup>* d1 d2"
    and token: "bearer r' \<noteq> ''''" "parse_uuid (al_uuid alib) (bearer r') = Some (sc_sessionID sc)"
  shows "authuser (al_uuid alib) r' t d2 = Inl (Api unauthorized) \<and>
    guard_tx (al_uuid alib) least action entity loc h r' t d2 = Inl (Api unauthorized)"
proof -
  have d1: "d1 = d\<lparr>sessions := update_where (\<lambda>s. ss_id s = sc_sessionID sc \<and> ss_revoked_at s = None) (\<lambda>s. s\<lparr>ss_revoked_at := Some now\<rparr>) (sessions d)\<rparr>"
    using out by (simp add: logout_def revoke_session_def)
  obtain s where "s \<in> set (sessions d)" "ss_id s = sc_sessionID sc" using live by (metis imageE)
  then have "(if ss_revoked_at s = None then s\<lparr>ss_revoked_at := Some now\<rparr> else s) \<in> set (sessions d1)"
    "ss_id (if ss_revoked_at s = None then s\<lparr>ss_revoked_at := Some now\<rparr> else s) = sc_sessionID sc"
    by (auto simp: d1 in_update_where_iff)
  moreover have "ss_revoked_at (if ss_revoked_at s = None then s\<lparr>ss_revoked_at := Some now\<rparr> else s) \<noteq> None" by simp
  ultimately have "revoked (sc_sessionID sc) d1" unfolding revoked_def by blast
  moreover have "accounts_ok d1" using assuresD [OF handlers_keep_accounts(3) out] ok by (simp add: keeps_accounts_def)
  ultimately have "accounts_ok d2 \<and> revoked (sc_sessionID sc) d2" using admin_steps_revoked [OF later] by blast
  then have "authuser (al_uuid alib) r' t d2 = Inl (Api unauthorized)" using revoked_refused [OF _ _ token] by blast
  then show ?thesis by (simp add: guard_tx_def)
qed

lemma find_snoc: "find P xs = None \<Longrightarrow> find P (xs @ [x]) = (if P x then Some x else None)"
  by (induction xs) (auto split: if_split_asm)

lemma fresh_session_live:
  assumes "sid \<notin> ss_id ` set (sessions d)" and "bearer r \<noteq> ''''" and "parse_uuid ul (bearer r) = Some sid"
    and "d' = d\<lparr>sessions := sessions d @ [\<lparr>ss_id = sid, ss_user_id = u, ss_issued_at = now, ss_expires_at = e, ss_revoked_at = None\<rparr>]\<rparr>"
  shows "authuser ul r t d' = (if t < e then Inr ((u, sid), d') else Inl (Api unauthorized))"
proof -
  have "find (\<lambda>s. ss_id s = sid \<and> ss_revoked_at s = None \<and> t < ss_expires_at s) (sessions d) = None"
    using assms(1) by (auto simp: find_None_iff)
  then have "find (\<lambda>s. ss_id s = sid \<and> ss_revoked_at s = None \<and> t < ss_expires_at s) (sessions d') =
      (if t < e then Some \<lparr>ss_id = sid, ss_user_id = u, ss_issued_at = now, ss_expires_at = e, ss_revoked_at = None\<rparr> else None)"
    by (simp add: assms(4) find_snoc)
  then show ?thesis using authuser_live [OF assms(2,3), of t d'] by simp
qed

lemma login_known:
  assumes body: "rq_body r = Some req" and u: "lookup_row u_email (to_lower (trim_space (lr_Email req))) (users d) = Some u"
    and fresh: "sid \<notin> ss_id ` set (sessions d)"
  shows "login lib ul (Some sid) r sc now d =
    (case verifyPassword lib (lr_Password req) (u_password_hash u) of
       Inl e \<Rightarrow> Inl (Other e)
     | Inr False \<Rightarrow> Inl (Api unauthorized)
     | Inr True \<Rightarrow> Inr (answer 200 (Some \<lparr>sv_token = uuid_text ul sid, sv_user_id = u_id u, sv_issued_at = now, sv_expires_at = now + sessionTTL\<rparr>) 0 None,
         d\<lparr>sessions := sessions d @ [\<lparr>ss_id = sid, ss_user_id = u_id u, ss_issued_at = now, ss_expires_at = now + sessionTTL, ss_revoked_at = None\<rparr>]\<rparr>))"
proof -
  have "u_id u \<in> u_id ` set (users d)" using lookup_row_SomeD [OF u] by blast
  then show ?thesis
    using assms by (auto simp: login_def decode_def find_user_def insert_session_def Let_def split: sum.split)
qed

text \<open>
  Logging in gives a session to whoever knows the password, and to nobody else. An unknown address and a wrong
  password get the same 401; a stored text that is not a password hash is an internal error; in all three cases
  nothing changes. With the right password a new session is stored, its token authenticates as exactly that user
  from then on until thirty days later, and no other session or account is affected.
\<close>

theorem login_outcome:
  assumes ok: "accounts_ok d" and body: "rq_body r = Some req" and fresh: "sid \<notin> ss_id ` set (sessions d)"
    and lib: "uuid_text ul sid \<noteq> ''''" "parse_uuid ul (uuid_text ul sid) = Some sid"
  shows "case lookup_row u_email (to_lower (trim_space (lr_Email req))) (users d) of
      None \<Rightarrow> login lib ul (Some sid) r sc now d = Inl (Api unauthorized)
    | Some u \<Rightarrow>
       (case verifyPassword lib (lr_Password req) (u_password_hash u) of
          Inl e \<Rightarrow> login lib ul (Some sid) r sc now d = Inl (Other e)
        | Inr False \<Rightarrow> login lib ul (Some sid) r sc now d = Inl (Api unauthorized)
        | Inr True \<Rightarrow> \<exists>res v d'. login lib ul (Some sid) r sc now d = Inr (res, d') \<and> res_status res = 200 \<and> res_body res = Some v \<and>
            sv_user_id v = u_id u \<and> accounts_ok d' \<and> users d' = users d \<and> (\<exists>s. sessions d' = sessions d @ [s]) \<and>
            (\<forall>r' t. bearer (r' :: 'q request) = sv_token v \<longrightarrow>
               authuser ul r' t d' = (if t < now + sessionTTL then Inr ((u_id u, sid), d') else Inl (Api unauthorized))))"
proof (cases "lookup_row u_email (to_lower (trim_space (lr_Email req))) (users d)")
  case None
  then show ?thesis using body by (simp add: login_def decode_def find_user_def)
next
  case (Some u)
  note run = login_known [OF body Some fresh, of lib ul sc now]
  show ?thesis
  proof (cases "verifyPassword lib (lr_Password req) (u_password_hash u) = Inr True")
    case False
    then show ?thesis using run Some by (auto split: sum.split bool.split)
  next
    case True
    let ?s = "\<lparr>ss_id = sid, ss_user_id = u_id u, ss_issued_at = now, ss_expires_at = now + sessionTTL, ss_revoked_at = None\<rparr>"
    let ?d = "d\<lparr>sessions := sessions d @ [?s]\<rparr>"
    let ?v = "\<lparr>sv_token = uuid_text ul sid, sv_user_id = u_id u, sv_issued_at = now, sv_expires_at = now + sessionTTL\<rparr>"
    have run': "login lib ul (Some sid) r sc now d = Inr (answer 200 (Some ?v) 0 None, ?d)" using run True by simp
    have acc: "accounts_ok ?d" using assuresD [OF handlers_keep_accounts(2) run'] ok by (simp add: keeps_accounts_def)
    have tok: "authuser ul r' t ?d = (if t < now + sessionTTL then Inr ((u_id u, sid), ?d) else Inl (Api unauthorized))"
      if "bearer (r' :: 'q request) = sv_token ?v" for r' t
      by (rule fresh_session_live [OF fresh]) (use that lib in simp_all)
    have "login lib ul (Some sid) r sc now d = Inr (answer 200 (Some ?v) 0 None, ?d) \<and> res_status (answer 200 (Some ?v) 0 None) = 200 \<and>
        res_body (answer 200 (Some ?v) 0 None) = Some ?v \<and> sv_user_id ?v = u_id u \<and> accounts_ok ?d \<and> users ?d = users d \<and>
        (\<exists>s. sessions ?d = sessions d @ [s]) \<and>
        (\<forall>r' t. bearer (r' :: 'q request) = sv_token ?v \<longrightarrow>
          authuser ul r' t ?d = (if t < now + sessionTTL then Inr ((u_id u, sid), ?d) else Inl (Api unauthorized)))"
      using run' acc tok by (simp add: answer_def)
    then show ?thesis unfolding Some option.case True sum.case bool.case by blast
  qed
qed

text \<open>
  Who registers can log in. After a registration that was accepted, the address, in any capitalisation and with any
  surrounding blanks, and the password open a session for the new user; another password is refused unless Argon2
  derives the same key from it. The password itself is not stored: the row holds the text of salt and key.
\<close>

theorem registered_can_log_in:
  assumes argon: "argon_ok lib" and ok: "accounts_ok d" and reg: "register lib (Some salt) i r sc now d = Inr (res, d1)"
    and body: "rq_body r = Some req" "rq_body r' = Some req'"
    and email: "to_lower (trim_space (lr_Email req')) = to_lower (trim_space (rr_Email req))" and fresh: "sid \<notin> ss_id ` set (sessions d)"
  shows "\<exists>h. hashPassword lib (Some salt) (rr_Password req) = Inr h \<and> lookup_row u_id i (users d1) \<noteq> None \<and>
    (if ag_IDKey lib (lr_Password req') salt argonTime argonMemory argonThreads argonKeyLen =
        ag_IDKey lib (rr_Password req) salt argonTime argonMemory argonThreads argonKeyLen
     then \<exists>res' v d2. login lib ul (Some sid) r' sc' now' d1 = Inr (res', d2) \<and> res_body res' = Some v \<and> sv_user_id v = i
     else login lib ul (Some sid) r' sc' now' d1 = Inl (Api unauthorized))"
proof -
  let ?e = "to_lower (trim_space (rr_Email req))" and ?n = "trim_space (rr_Name req)"
  obtain h where h: "hashPassword lib (Some salt) (rr_Password req) = Inr h" using hash_some by blast
  let ?u = "\<lparr>u_id = i, u_email = ?e, u_password_hash = h, u_name = (if ?n = '''' then None else Some ?n), u_created_at = now\<rparr>"
  have "insert_user ?u d = Inr (Some ?u, d1)"
    using reg body(1) h by (auto simp: register_def decode_def atx_simps Let_def insert_user_def split: if_split_asm)
  then have new: "?e \<notin> u_email ` set (users d)" "i \<notin> u_id ` set (users d)" and d1: "d1 = d\<lparr>users := users d @ [?u]\<rparr>"
    by (simp_all add: insert_user_def split: if_split_asm)
  have none: "lookup_row u_email ?e (users d) = None" using new(1) unfolding lookup_row_None_image .
  have found: "lookup_row u_email (to_lower (trim_space (lr_Email req'))) (users d1) = Some ?u"
    unfolding email using none by (simp add: d1 lookup_row_append)
  have "lookup_row u_id i (users d1) \<noteq> None" unfolding lookup_row_None_iff by (simp add: d1)
  moreover have "sid \<notin> ss_id ` set (sessions d1)" using fresh by (simp add: d1)
  note run = login_known [OF body(2) found this, of lib ul sc' now']
  ultimately show ?thesis using h run verify_hashed [OF argon h, of "lr_Password req'"] by (auto simp: answer_def)
qed

text \<open>
  C33. Only an empty project can be deleted. While a queue of the project uses one of the project's policies, as every
  queue created through the API does, the cascade runs into the policy's restriction, the request ends in an internal
  error and nothing changes; so it does while a worker of the project has an execution on record. Without
  queues, jobs, leases and executions the project goes, with its policies and workers, and no other project's
  rows change.
\<close>

theorem delete_project_only_empty:
  assumes p: "sc_projectID sc \<in> pr_id ` set (projects d)"
  shows "((\<exists>q \<in> set (queues d). \<exists>rp \<in> set (retry_policies d). q_project_id q = sc_projectID sc \<and> p_project_id rp = sc_projectID sc \<and>
        q_retry_policy_id q = p_id rp) \<longrightarrow>
      deleteProject r sc now d = Inl (Db (Pg fk_violation)) \<and> ae_status (api_error_of (Db (Pg fk_violation))) = 500) \<and>
    ((\<forall>q \<in> set (queues d). q_project_id q \<noteq> sc_projectID sc) \<and>
     (\<forall>rp \<in> set (retry_policies d). p_project_id rp = sc_projectID sc \<longrightarrow>
        (\<forall>q \<in> set (queues d). q_retry_policy_id q \<noteq> p_id rp) \<and> (\<forall>j \<in> set (jobs d). j_retry_policy_id j \<noteq> p_id rp)) \<longrightarrow>
      (if \<exists>w \<in> set (workers d). w_project_id w = sc_projectID sc \<and> ((\<exists>j \<in> set (jobs d). j_worker_id j = Some (w_id w)) \<or>
            (\<exists>l \<in> set (job_leases d). l_worker_id l = w_id w) \<or> (\<exists>x \<in> set (job_executions d). x_worker_id x = w_id w))
       then deleteProject r sc now d = Inl (Db (Pg fk_violation))
       else \<exists>d'. deleteProject r sc now d = Inr (answer 204 None 0 None, d') \<and> jobs d' = jobs d \<and> queues d' = queues d \<and>
          projects d' = filter (\<lambda>p. pr_id p \<noteq> sc_projectID sc) (projects d) \<and>
          retry_policies d' = filter (\<lambda>rp. p_project_id rp \<noteq> sc_projectID sc) (retry_policies d) \<and>
          workers d' = filter (\<lambda>w. w_project_id w \<noteq> sc_projectID sc) (workers d)))"
proof -
  let ?p = "sc_projectID sc"
  let ?e = "d\<lparr>projects := delete_where (\<lambda>pr. pr_id pr = ?p) (projects d)\<rparr>"
  have run: "delete_project ?p d = rbind (delete_policies ?p ?e) (\<lambda>d. rbind (delete_queues ?p d) (delete_workers ?p))"
    using p by (simp add: delete_project_def)
  have "deleteProject r sc now d = Inl (Db (Pg fk_violation))"
    if "q \<in> set (queues d)" "rp \<in> set (retry_policies d)" "p_project_id rp = ?p" "q_retry_policy_id q = p_id rp" for q rp
  proof -
    have "delete_policies ?p ?e = Inl fk_violation" using that unfolding delete_policies_def Let_def by auto
    then show ?thesis by (simp add: deleteProject_def run)
  qed
  moreover have "if \<exists>w \<in> set (workers d). w_project_id w = ?p \<and> ((\<exists>j \<in> set (jobs d). j_worker_id j = Some (w_id w)) \<or>
            (\<exists>l \<in> set (job_leases d). l_worker_id l = w_id w) \<or> (\<exists>x \<in> set (job_executions d). x_worker_id x = w_id w))
       then deleteProject r sc now d = Inl (Db (Pg fk_violation))
       else \<exists>d'. deleteProject r sc now d = Inr (answer 204 None 0 None, d') \<and> jobs d' = jobs d \<and> queues d' = queues d \<and>
          projects d' = filter (\<lambda>p. pr_id p \<noteq> ?p) (projects d) \<and> retry_policies d' = filter (\<lambda>rp. p_project_id rp \<noteq> ?p) (retry_policies d) \<and>
          workers d' = filter (\<lambda>w. w_project_id w \<noteq> ?p) (workers d)"
    if no: "\<forall>q \<in> set (queues d). q_project_id q \<noteq> ?p" "\<forall>rp \<in> set (retry_policies d). p_project_id rp = ?p \<longrightarrow>
        (\<forall>q \<in> set (queues d). q_retry_policy_id q \<noteq> p_id rp) \<and> (\<forall>j \<in> set (jobs d). j_retry_policy_id j \<noteq> p_id rp)"
  proof -
    let ?f = "?e\<lparr>retry_policies := delete_where (\<lambda>rp. p_project_id rp = ?p) (retry_policies d)\<rparr>"
    have "delete_policies ?p ?e = Inr ?f" using no(2) unfolding delete_policies_def Let_def by auto
    moreover have "filter (\<lambda>q. q_project_id q = ?p) (queues d) = []" using no(1) by (simp add: filter_empty_conv)
    ultimately have del: "delete_project ?p d = delete_workers ?p ?f" by (simp add: run delete_queues_def)
    show ?thesis
    proof (cases "\<exists>w \<in> set (workers d). w_project_id w = ?p \<and> ((\<exists>j \<in> set (jobs d). j_worker_id j = Some (w_id w)) \<or>
            (\<exists>l \<in> set (job_leases d). l_worker_id l = w_id w) \<or> (\<exists>x \<in> set (job_executions d). x_worker_id x = w_id w))")
      case True
      then have "delete_workers ?p ?f = Inl fk_violation" unfolding delete_workers_def Let_def by auto
      then show ?thesis using True by (simp add: deleteProject_def del)
    next
      case False
      then have "\<exists>d'. delete_workers ?p ?f = Inr d' \<and> jobs d' = jobs d \<and> queues d' = queues d \<and> projects d' = projects ?f \<and>
          retry_policies d' = retry_policies ?f \<and> workers d' = delete_where (\<lambda>w. w_project_id w = ?p) (workers d)"
        unfolding delete_workers_def Let_def by auto
      then show ?thesis using False by (auto simp: deleteProject_def del delete_where_def)
    qed
  qed
  moreover have "ae_status (api_error_of (Db (Pg fk_violation))) = 500" by (simp add: api_error_of_def isTimeout_def has_code_def internal_error_def)
  ultimately show ?thesis by blast
qed

section \<open>The sample accounts\<close>

lemma sample_accounts_ok: "accounts_ok team_db"
  by (simp add: accounts_defs team_db_def validRole_def sample_defs)

definition text_api :: api_lib where
  "text_api = plain_api\<lparr>al_uuid := one_uuid\<rparr>"

theorem administration_stays_consistent_witness:
  "\<exists>v d1. setPaused True ''queue.paused'' (sample_request ()) sample_scope sample_now team_db = Inr (v, d1) \<and> length (queues d1) = 1 \<and>
    config_ok (\<lambda>_. True) d1 \<and> accounts_ok d1 \<and> (\<forall>q \<in> set (queues d1). check_queue q \<and> shards_wf q d1)"
proof -
  obtain v d1 where run: "setPaused True ''queue.paused'' (sample_request ()) sample_scope sample_now team_db = Inr (v, d1)"
    "length (queues d1) = 1" using sample_pause by blast
  from run(1) have "config_step minutely text_api (\<lambda>_. True) team_db d1" by (rule config_step.pause_queue)
  then have "admin_step plain_argon minutely text_api (\<lambda>_. True) team_db d1" by (rule admin_step.config)
  from administration_stays_consistent [OF sample_config_ok sample_accounts_ok r_into_rtranclp, OF this] run show ?thesis by blast
qed

lemma sample_bearer: "bearer (sample_request q) = ''abcd''" "parse_uuid one_uuid ''abcd'' = Some 4"
  by (simp_all add: bearer_def sample_request_def cut_prefix_def trim_space_def is_space_def one_uuid_def)

theorem logged_out_stays_out_witness:
  "\<exists>d1 d2 v. logout (sample_request ()) sample_scope sample_now team_db = Inr (answer 204 None 0 None, d1) \<and>
    createOrg 30 (sample_request \<lparr>nr_Name = ''second''\<rparr>) sample_scope sample_now d1 = Inr (v, d2) \<and>
    authuser one_uuid (sample_request ()) sample_now team_db = Inr ((1, 4), team_db) \<and>
    authuser one_uuid (sample_request ()) sample_now d2 = Inl (Api unauthorized)"
proof -
  let ?d1 = "team_db\<lparr>sessions := [\<lparr>ss_id = 4, ss_user_id = 1, ss_issued_at = 0, ss_expires_at = sample_now + 1, ss_revoked_at = Some sample_now\<rparr>]\<rparr>"
  let ?req = "sample_request \<lparr>nr_Name = ''second''\<rparr>"
  have out: "logout (sample_request ()) sample_scope sample_now team_db = Inr (answer 204 None 0 None, ?d1)"
    by (simp add: logout_def revoke_session_def sample_scope_def team_db_def)
  obtain v d2 where org: "createOrg 30 ?req sample_scope sample_now ?d1 = Inr (v, d2)"
    by (simp add: createOrg_def decode_def Let_def sample_request_def trim_space_def is_space_def insert_org_def insert_member_def same_member_def
      member_refs_def validRole_def team_db_def sample_scope_def)
  then have "account_step plain_argon (al_uuid text_api) ?d1 d2" by (rule account_step.create_org)
  then have later: "(admin_step plain_argon minutely text_api (\<lambda>_. True))\<^sup>*\<^sup>* ?d1 d2" by (intro r_into_rtranclp admin_step.account)
  have live: "sc_sessionID sample_scope \<in> ss_id ` set (sessions team_db)" by (simp add: sample_scope_def team_db_def)
  have tok: "bearer (sample_request ()) \<noteq> ''''" "parse_uuid (al_uuid text_api) (bearer (sample_request ())) = Some (sc_sessionID sample_scope)"
    by (simp_all add: sample_bearer text_api_def sample_scope_def)
  have "authuser one_uuid (sample_request ()) sample_now d2 = Inl (Api unauthorized)"
    using logged_out_stays_out [OF sample_accounts_ok live out later tok, of sample_now, THEN conjunct1] by (simp add: text_api_def)
  moreover have "authuser one_uuid (sample_request ()) sample_now team_db = Inr ((1, 4), team_db)"
    by (simp add: authuser_def sample_bearer session_sql_def team_db_def)
  ultimately show ?thesis using out org by blast
qed

definition sample_register :: registerReq where
  "sample_register = \<lparr>rr_Email = ''Ann@Example.org '', rr_Password = ''correct horse'', rr_Name = ''Ann''\<rparr>"

definition sample_login :: loginReq where
  "sample_login = \<lparr>lr_Email = '' ann@example.org'', lr_Password = ''correct horse''\<rparr>"

definition known_db :: db where
  "known_db = team_db\<lparr>users := [\<lparr>u_id = 1, u_email = ''ann@example.org'',
     u_password_hash = projr (hashPassword plain_argon (Some ''0123456789abcdef'') ''correct horse''), u_name = None, u_created_at = 0\<rparr>]\<rparr>"

lemma sample_email:
  "to_lower (trim_space (rr_Email sample_register)) = ''ann@example.org''" "to_lower (trim_space (lr_Email sample_login)) = ''ann@example.org''"
  by (simp_all add: sample_register_def sample_login_def to_lower_def trim_space_def is_space_def char_of_def bit_0)

lemma sample_password: "verifyPassword plain_argon ''correct horse'' (projr (hashPassword plain_argon (Some ''0123456789abcdef'') ''correct horse'')) = Inr True"
  using hash_some [of plain_argon "''0123456789abcdef''" "''correct horse''"]
    verify_hashed [OF plain_argon_ok, of "''0123456789abcdef''" "''correct horse''" _ "''correct horse''"] by auto

theorem login_outcome_witness:
  "\<exists>res v d'. login plain_argon one_uuid (Some 6) (sample_request sample_login) sample_scope sample_now known_db = Inr (res, d') \<and>
    res_body res = Some v \<and> sv_user_id v = 1 \<and> accounts_ok d' \<and>
    authuser one_uuid ((sample_request ())\<lparr>rq_header := (\<lambda>_. ''Bearer '' @ sv_token v)\<rparr>) (sample_now + 1) d' = Inr ((1, 6), d')"
proof -
  let ?r = "\<lambda>t. (sample_request ())\<lparr>rq_header := (\<lambda>_. ''Bearer '' @ t)\<rparr>"
  have ok: "accounts_ok known_db" by (simp add: known_db_def accounts_defs team_db_def validRole_def sample_defs)
  have body: "rq_body (sample_request sample_login) = Some sample_login" by (simp add: sample_request_def)
  have fresh: "6 \<notin> ss_id ` set (sessions known_db)" by (simp add: known_db_def team_db_def)
  have lib: "uuid_text one_uuid 6 \<noteq> ''''" "parse_uuid one_uuid (uuid_text one_uuid 6) = Some 6" by (simp_all add: one_uuid_def)
  have user: "lookup_row u_email (to_lower (trim_space (lr_Email sample_login))) (users known_db) = Some (hd (users known_db))"
    unfolding sample_email by (simp add: known_db_def)
  have pw: "verifyPassword plain_argon (lr_Password sample_login) (u_password_hash (hd (users known_db))) = Inr True" "u_id (hd (users known_db)) = 1"
    using sample_password by (simp_all add: known_db_def sample_login_def)
  have "\<exists>res v d'. login plain_argon one_uuid (Some 6) (sample_request sample_login) sample_scope sample_now known_db = Inr (res, d') \<and>
      res_status res = 200 \<and> res_body res = Some v \<and> sv_user_id v = 1 \<and> accounts_ok d' \<and> users d' = users known_db \<and> (\<exists>s. sessions d' = sessions known_db @ [s]) \<and>
      (\<forall>r' t. bearer (r' :: unit request) = sv_token v \<longrightarrow>
         authuser one_uuid r' t d' = (if t < sample_now + sessionTTL then Inr ((1, 6), d') else Inl (Api unauthorized)))"
    using login_outcome [where 'q = unit, OF ok body fresh lib, of plain_argon sample_scope sample_now] unfolding user option.case pw sum.case bool.case .
  then obtain res v d' where f: "login plain_argon one_uuid (Some 6) (sample_request sample_login) sample_scope sample_now known_db = Inr (res, d')"
    "res_body res = Some v" "sv_user_id v = 1" "accounts_ok d'"
    and tok: "\<And>r' t. bearer (r' :: unit request) = sv_token v \<Longrightarrow>
         authuser one_uuid r' t d' = (if t < sample_now + sessionTTL then Inr ((1, 6), d') else Inl (Api unauthorized))" by blast
  have "sv_token v = ''xxxxxx''" using f(1,2) login_known [OF body user fresh, of plain_argon one_uuid sample_scope sample_now]
    unfolding pw sum.case bool.case by (auto simp: answer_def one_uuid_def numeral_eq_Suc)
  then have "bearer (?r (sv_token v)) = sv_token v" by (simp add: bearer_def cut_prefix_def trim_space_def is_space_def)
  from tok [OF this, of "sample_now + 1"] f show ?thesis by (auto simp: sessionTTL_def)
qed

theorem registered_can_log_in_witness:
  "\<exists>res d1 res' v d2. register plain_argon (Some ''0123456789abcdef'') 6 (sample_request sample_register) sample_scope sample_now team_db = Inr (res, d1) \<and>
    login plain_argon one_uuid (Some 8) (sample_request sample_login) sample_scope sample_now d1 = Inr (res', d2) \<and> res_body res' = Some v \<and> sv_user_id v = 6"
proof -
  have body: "rq_body (sample_request sample_register) = Some sample_register" "rq_body (sample_request sample_login) = Some sample_login"
    by (simp_all add: sample_request_def)
  have long: "\<not> length (rr_Password sample_register) < 8" by (simp add: sample_register_def)
  have "\<exists>res d1. register plain_argon (Some ''0123456789abcdef'') 6 (sample_request sample_register) sample_scope sample_now team_db = Inr (res, d1)"
    using hash_some [of plain_argon "''0123456789abcdef''" "rr_Password sample_register"] body long
    by (auto simp: register_def decode_def Let_def sample_email insert_user_def team_db_def)
  then obtain res d1 where reg: "register plain_argon (Some ''0123456789abcdef'') 6 (sample_request sample_register) sample_scope sample_now team_db = Inr (res, d1)" by blast
  have same: "to_lower (trim_space (lr_Email sample_login)) = to_lower (trim_space (rr_Email sample_register))" unfolding sample_email ..
  have fresh: "8 \<notin> ss_id ` set (sessions team_db)" by (simp add: team_db_def)
  have pw: "lr_Password sample_login = rr_Password sample_register" by (simp add: sample_login_def sample_register_def)
  from registered_can_log_in [OF plain_argon_ok sample_accounts_ok reg body same fresh, of one_uuid sample_scope sample_now] pw reg show ?thesis
    by simp
qed

theorem delete_project_only_empty_witness:
  "deleteProject (sample_request ()) sample_scope sample_now team_db = Inl (Db (Pg fk_violation)) \<and>
   (\<exists>d'. deleteProject (sample_request ()) sample_scope sample_now (team_db\<lparr>queues := [], jobs := [], job_leases := [], job_executions := []\<rparr>) =
      Inr (answer 204 None 0 None, d') \<and> projects d' = [] \<and> retry_policies d' = [])"
proof -
  let ?e = "team_db\<lparr>queues := [], jobs := [], job_leases := [], job_executions := []\<rparr>"
  have p: "sc_projectID sample_scope \<in> pr_id ` set (projects team_db)" "sc_projectID sample_scope \<in> pr_id ` set (projects ?e)"
    by (simp_all add: sample_scope_def team_db_def)
  have "\<exists>q \<in> set (queues team_db). \<exists>rp \<in> set (retry_policies team_db). q_project_id q = sc_projectID sample_scope \<and>
      p_project_id rp = sc_projectID sample_scope \<and> q_retry_policy_id q = p_id rp" by (simp add: sample_scope_def team_db_def sample_defs)
  with delete_project_only_empty [OF p(1), of "sample_request ()" sample_now]
  have "deleteProject (sample_request ()) sample_scope sample_now team_db = Inl (Db (Pg fk_violation))" by blast
  moreover have "projects ?e = [\<lparr>pr_id = 3, pr_org_id = 2, pr_name = ''p'', pr_created_at = 0\<rparr>]" "retry_policies ?e = [sample_policy]"
    by (simp_all add: team_db_def sample_defs)
  with delete_project_only_empty [OF p(2), of "sample_request ()" sample_now]
  have "\<exists>d'. deleteProject (sample_request ()) sample_scope sample_now ?e = Inr (answer 204 None 0 None, d') \<and> projects d' = [] \<and> retry_policies d' = []"
    by (auto simp: sample_scope_def sample_policy_def)
  ultimately show ?thesis by blast
qed

end
