(* ===== verification/System.thy ===== *)
theory System
  imports Accounts
begin

text \<open>
  The processes together. Every process of the system (API servers, workers, schedulers, archivers) acts on
  jobs only through transactions, and the database runs each of them whole or not at all; \<open>system_step\<close> is
  one committed transaction of any of them, in any order. The theory states what a job promises to the rest
  of the world as a small abstract machine over (status, fence, owner, queue), and shows that the whole system refines it:
  no interleaving of the programs moves a job along an edge the machine does not have.
\<close>

section \<open>The abstract life of a job\<close>

text \<open>
  What a job looks like from outside: its status, fence, worker and queue while it is in the live table. It appears
  scheduled or queued with fence zero, moves along the edges of \<open>legal_transition\<close>, gets a new fence exactly
  when it is claimed or snoozed, has a worker from the claim on until it stops being claimed or running, never
  changes its queue, and leaves on its own only when it is terminal. A queue that is deleted takes all its jobs
  with it, in whatever state they are.
\<close>

type_synonym life = "(job_status \<times> nat \<times> uuid option \<times> uuid) option"

definition fence_after :: "job_status \<Rightarrow> nat \<Rightarrow> nat" where
  "fence_after s f = (if s \<in> {Claimed, Scheduled} then Suc f else f)"

definition owner_after :: "job_status \<Rightarrow> uuid option \<Rightarrow> uuid option \<Rightarrow> bool" where
  "owner_after s w w' \<longleftrightarrow> (s = Running \<longrightarrow> w' = w) \<and> (\<not> active s \<longrightarrow> w' = None)"

inductive job_move :: "life \<Rightarrow> life \<Rightarrow> bool" where
  appear: "s \<in> {Scheduled, Queued} \<Longrightarrow> job_move None (Some (s, 0, None, q))"
| go: "legal_transition s t \<Longrightarrow> owner_after t w w' \<Longrightarrow> job_move (Some (s, f, w, q)) (Some (t, fence_after t f, w', q))"
| leave: "terminal s \<Longrightarrow> job_move (Some (s, f, w, q)) None"

text \<open>A job that is not removed: appears or moves.\<close>

definition grow :: "life \<Rightarrow> life \<Rightarrow> bool" where
  "grow x y \<longleftrightarrow> job_move x y \<and> y \<noteq> None"

inductive_cases go_cases: "job_move (Some (s, f, w, q)) (Some y)"

text \<open>
  A token names one owner: as long as the fence has not moved, an active job was active before, under the same
  worker, and does not fall back from running to claimed.
\<close>

definition same_token :: "life \<Rightarrow> life \<Rightarrow> bool" where
  "same_token x y \<longleftrightarrow> (\<forall>s f w q. x = Some (s, f, w, q) \<longrightarrow> (\<exists>t g v. y = Some (t, g, v, q) \<and> f \<le> g \<and> reaches s t \<and>
     (f = g \<and> active t \<longrightarrow> active s \<and> v = w \<and> (s = Running \<longrightarrow> t = Running))))"

lemma grow_same_token:
  assumes "grow\<^sup>*\<^sup>* x y"
  shows "same_token x y"
  using assms
proof (induction rule: rtranclp_induct)
  case base
  show ?case by (auto simp: same_token_def reaches.here)
next
  case (step y z)
  show ?case
    unfolding same_token_def
  proof (intro allI impI)
    fix s f w q assume "x = Some (s, f, w, q)"
    with step.IH obtain t g v where y: "y = Some (t, g, v, q)" "f \<le> g" "reaches s t"
      and tok: "f = g \<and> active t \<longrightarrow> active s \<and> v = w \<and> (s = Running \<longrightarrow> t = Running)" by (auto simp: same_token_def)
    from step.hyps(2) y(1) obtain u v' where z: "z = Some (u, fence_after u g, v', q)" "legal_transition t u" "owner_after u v v'"
      by (auto simp: grow_def elim!: go_cases)
    have "active s \<and> v' = w \<and> (s = Running \<longrightarrow> u = Running)" if "f = fence_after u g" "active u"
    proof -
      have u: "u = Running" "f = g" using that y(2) by (auto simp: fence_after_def active_def split: if_split_asm)
      then have "t = Claimed" using z(2) by (simp add: legal_transition_to_running)
      then have "active t" by (simp add: active_def)
      then show ?thesis using tok u z(3) by (auto simp: owner_after_def)
    qed
    moreover have "reaches s u" using y(3) z(2) by (rule reaches.edge)
    moreover have "f \<le> fence_after u g" using y(2) by (simp add: fence_after_def)
    ultimately show "\<exists>t g v. z = Some (t, g, v, q) \<and> f \<le> g \<and> reaches s t \<and>
        (f = g \<and> active t \<longrightarrow> active s \<and> v = w \<and> (s = Running \<longrightarrow> t = Running))" using z(1) by blast
  qed
qed

text \<open>All jobs side by side: one of them makes a move, or one queue takes its jobs away.\<close>

definition in_queue :: "uuid \<Rightarrow> life \<Rightarrow> bool" where
  "in_queue q x \<longleftrightarrow> (\<exists>s f w. x = Some (s, f, w, q))"

definition drop_queue :: "uuid \<Rightarrow> (uuid \<Rightarrow> life) \<Rightarrow> uuid \<Rightarrow> life" where
  "drop_queue q a i = (if in_queue q (a i) then None else a i)"

inductive life_step :: "(uuid \<Rightarrow> life) \<Rightarrow> (uuid \<Rightarrow> life) \<Rightarrow> bool" where
  move: "job_move (a i) y \<Longrightarrow> life_step a (a(i := y))"
| drop: "life_step a (drop_queue q a)"

lemma life_steps_one: "job_move\<^sup>*\<^sup>* (a i) y \<Longrightarrow> life_step\<^sup>*\<^sup>* a (a(i := y))"
proof (induction rule: rtranclp_induct)
  case base
  then show ?case by simp
next
  case (step y z)
  have "life_step (a(i := y)) ((a(i := y))(i := z))" using step.hyps(2) by (intro life_step.move) simp
  then have "life_step\<^sup>*\<^sup>* (a(i := y)) (a(i := z))" by (simp only: fun_upd_upd r_into_rtranclp)
  with step.IH show ?case by (rule rtranclp_trans)
qed

text \<open>Jobs are independent: pointwise moves, on finitely many jobs, are moves of the whole.\<close>

lemma life_steps_pointwise:
  assumes "finite A" and "\<forall>i. i \<notin> A \<longrightarrow> b i = a i" and "\<forall>i. job_move\<^sup>*\<^sup>* (a i) (b i)"
  shows "life_step\<^sup>*\<^sup>* a b"
  using assms
proof (induction A arbitrary: b)
  case empty
  then have "b = a" by auto
  then show ?case by simp
next
  case (insert k A)
  let ?c = "b(k := a k)"
  have "life_step\<^sup>*\<^sup>* a ?c" using insert.prems by (intro insert.IH) auto
  moreover have "life_step\<^sup>*\<^sup>* ?c (?c(k := b k))" using insert.prems(2) by (intro life_steps_one) simp
  ultimately show ?case by (simp add: rtranclp_trans)
qed

section \<open>The life of the rows\<close>

definition life_of :: "job \<Rightarrow> job_status \<times> nat \<times> uuid option \<times> uuid" where
  "life_of j = (j_status j, j_fence j, j_worker_id j, j_queue_id j)"

definition lives :: "db \<Rightarrow> uuid \<Rightarrow> life" where
  "lives d i = map_option life_of (job_of d i)"

definition evo :: "db \<Rightarrow> db \<Rightarrow> bool" where
  "evo d d' \<longleftrightarrow> (jobs_wf d \<longrightarrow> jobs_wf d' \<and> (\<forall>i. grow\<^sup>*\<^sup>* (lives d i) (lives d' i)))"

lemma evo_same: "jobs d' = jobs d \<Longrightarrow> evo d d'"
  by (simp add: evo_def lives_def jobs_wf_def)

lemma evo_trans: "evo a b \<Longrightarrow> evo b c \<Longrightarrow> evo a c"
  unfolding evo_def by (blast intro: rtranclp_trans)

lemma evo_update_plain: "evo d d' \<Longrightarrow> jobs e = jobs d' \<Longrightarrow> evo d e"
  by (blast intro: evo_trans evo_same)

lemma lives_finite: "finite {i. lives d i \<noteq> None}"
proof (rule finite_subset)
  show "{i. lives d i \<noteq> None} \<subseteq> j_id ` set (jobs d)" by (auto simp: lives_def lookup_row_def find_Some_iff)
qed simp

lemma evo_steps:
  assumes "evo d d'" and "jobs_wf d"
  shows "life_step\<^sup>*\<^sup>* (lives d) (lives d')"
proof (rule life_steps_pointwise)
  show "finite ({i. lives d i \<noteq> None} \<union> {i. lives d' i \<noteq> None})"
    using lives_finite [of d] lives_finite [of d'] by (rule finite_UnI)
  show "\<forall>i. i \<notin> {i. lives d i \<noteq> None} \<union> {i. lives d' i \<noteq> None} \<longrightarrow> lives d' i = lives d i"
    by (auto simp del: not_None_eq)
  have "job_move\<^sup>*\<^sup>* x y" if "grow\<^sup>*\<^sup>* x y" for x y
    using that by (rule rtranclp_mono [THEN predicate2D, rotated]) (auto simp: grow_def)
  then show "\<forall>i. job_move\<^sup>*\<^sup>* (lives d i) (lives d' i)" using assms by (simp add: evo_def)
qed

text \<open>
  The rule a row writer follows: the job stays in its queue, the fence rises exactly with a new claim or a snooze, and a row that is neither
  claimed nor waiting loses or keeps its worker as the machine says. For the waiting statuses the check
  \<open>jobs_idle_has_no_owner\<close> already forbids a worker.
\<close>

definition fence_rule :: "job \<Rightarrow> job \<Rightarrow> bool" where
  "fence_rule j j' \<longleftrightarrow> j_queue_id j' = j_queue_id j \<and>
     (if j_status j' = j_status j then j_fence j' = j_fence j \<and> j_worker_id j' = j_worker_id j
      else j_fence j' = fence_after (j_status j') (j_fence j) \<and>
        (j_status j' = Running \<longrightarrow> j_worker_id j' = j_worker_id j) \<and> (terminal (j_status j') \<longrightarrow> j_worker_id j' = None))"

lemma write_ok_owner: "write_ok j j' \<Longrightarrow> fence_rule j j' \<Longrightarrow> j_status j' \<noteq> j_status j \<Longrightarrow> owner_after (j_status j') (j_worker_id j) (j_worker_id j')"
  by (cases "j_status j'") (simp_all add: write_ok_def fence_rule_def owner_after_def check_job_def)

lemma growI: "legal_transition s t \<Longrightarrow> owner_after t w w' \<Longrightarrow> grow (Some (s, f, w, q)) (Some (t, fence_after t f, w', q))"
  by (simp add: grow_def job_move.go)

lemma write_ok_move:
  assumes "write_ok j j'" and "fence_rule j j'"
  shows "grow\<^sup>*\<^sup>* (Some (life_of j)) (Some (life_of j'))"
proof (cases "j_status j' = j_status j")
  case True
  with assms(2) show ?thesis by (simp add: fence_rule_def life_of_def)
next
  case False
  with assms have "legal_transition (j_status j) (j_status j')" "j_fence j' = fence_after (j_status j') (j_fence j)" "j_queue_id j' = j_queue_id j"
    by (auto simp: write_ok_def fence_rule_def)
  with growI [OF this(1) write_ok_owner [OF assms False], of "j_fence j" "j_queue_id j"] show ?thesis
    by (auto simp: life_of_def)
qed

lemma evo_update:
  assumes "update_jobs P f d = Inr d'" and "\<And>j. j_id (f j) = j_id j"
    and "\<And>j. jobs_wf d \<Longrightarrow> j \<in> set (jobs d) \<Longrightarrow> P j \<Longrightarrow> check_job j \<Longrightarrow> write_ok j (f j) \<Longrightarrow> fence_rule j (f j)"
  shows "evo d d'"
  unfolding evo_def
proof (intro impI conjI allI)
  assume wf: "jobs_wf d"
  show "jobs_wf d'" using update_jobs_wf [OF wf assms(1,2)] .
  fix i
  have ok: "\<forall>j \<in> set (jobs d). P j \<longrightarrow> write_ok j (f j)" and js: "jobs d' = update_where P f (jobs d)"
    using assms(1) by (auto simp: update_jobs_Inr_iff)
  have l: "lives d' i = map_option (\<lambda>j. life_of (if P j then f j else j)) (job_of d i)"
    by (simp add: lives_def js job_of_update assms(2) option.map_comp comp_def)
  show "grow\<^sup>*\<^sup>* (lives d i) (lives d' i)"
  proof (cases "job_of d i")
    case None
    then show ?thesis using l by (simp add: lives_def)
  next
    case (Some j)
    then have "j \<in> set (jobs d)" using jobs_wfD(3) [OF wf] by blast
    with ok assms(3) [OF wf] jobs_wfD(2) [OF wf] have "grow\<^sup>*\<^sup>* (Some (life_of j)) (Some (life_of (if P j then f j else j)))"
      by (auto intro: write_ok_move)
    then show ?thesis using Some unfolding l by (simp add: lives_def)
  qed
qed

lemma lookup_row_other: "i \<noteq> k x \<Longrightarrow> lookup_row k i (xs @ [x]) = lookup_row k i xs"
  by (induction xs) auto

lemma evo_insert:
  assumes "insert_job j d = Inr d'" and "j_status j \<in> {Scheduled, Queued}" and "j_fence j = 0"
  shows "evo d d'"
  unfolding evo_def
proof (intro impI conjI allI)
  assume wf: "jobs_wf d"
  from assms(1) have ck: "check_job j" "j_id j \<notin> j_id ` set (jobs d)" and d': "d' = d\<lparr>jobs := jobs d @ [j]\<rparr>"
    by (auto simp: insert_job_def split: if_split_asm)
  show wf': "jobs_wf d'" using jobs_wf_insert [OF wf ck] d' by simp
  fix i
  have "job_of d (j_id j) = None" using ck(2) unfolding lookup_row_None_iff by (metis imageI)
  moreover have "job_of d' (j_id j) = Some j" using jobs_wfD(3) [OF wf', of "j_id j" j] by (simp add: d')
  ultimately have new: "lives d (j_id j) = None" "lives d' (j_id j) = Some (life_of j)" by (simp_all add: lives_def)
  have old: "lives d' i = lives d i" if "i \<noteq> j_id j"
    using that lookup_row_other [of i j_id j "jobs d"] by (simp add: lives_def d')
  show "grow\<^sup>*\<^sup>* (lives d i) (lives d' i)"
  proof (cases "i = j_id j")
    case True
    have "j_worker_id j = None" using ck(1) assms(2) by (auto simp: check_job_def)
    then have "grow None (Some (life_of j))"
      using job_move.appear [OF assms(2), of "j_queue_id j"] assms(3) by (simp add: life_of_def grow_def)
    then show ?thesis using True new by auto
  next
    case False
    then show ?thesis using old by simp
  qed
qed

section \<open>Transactions that evolve jobs\<close>

text \<open>
  \<open>evolving t\<close>: whenever \<open>t\<close> commits, jobs have evolved.
\<close>

abbreviation evolving :: "(db \<Rightarrow> 'e + 'a \<times> db) \<Rightarrow> bool" where
  "evolving \<equiv> assures evo"

interpretation evolution: tx_guarantee evo
proof
  show "evo d d" for d by (simp add: evo_same)
  show "evo a b \<Longrightarrow> evo b c \<Longrightarrow> evo a c" for a b c by (rule evo_trans)
  show "evo d (emit topic entity project payload now d)" for d topic entity project payload now by (simp add: evo_same)
qed

lemma evolving_frame: "(\<And>d r d'. t d = Inr (r, d') \<Longrightarrow> jobs d' = jobs d) \<Longrightarrow> evolving t"
  by (auto intro!: assuresI evo_same)

text \<open>The rows the statements write keep the id and follow the fence rule.\<close>

lemma check_job_idle: "check_job j \<Longrightarrow> j_status j \<in> {Scheduled, Queued, Retry_wait} \<Longrightarrow> j_worker_id j = None"
  by (auto simp: check_job_def)

lemma fence_kept:
  assumes "check_job j" and "write_ok j j'" and "j_fence j' = j_fence j" and "j_status j' \<notin> {Claimed, Scheduled, Running}"
    and "j_queue_id j' = j_queue_id j"
    and "terminal (j_status j') \<longrightarrow> j_worker_id j' = None \<and> \<not> terminal (j_status j)"
  shows "fence_rule j j'"
proof (cases "terminal (j_status j')")
  case True
  then show ?thesis using assms by (auto simp: fence_rule_def fence_after_def)
next
  case False
  then have st: "j_status j' \<in> {Scheduled, Queued, Retry_wait}" using assms(4) by (cases "j_status j'") simp_all
  then have "j_worker_id j' = None" using assms(2) by (intro check_job_idle) (simp_all add: write_ok_def)
  moreover have "j_worker_id j = None" if "j_status j' = j_status j" using that st assms(1) by (intro check_job_idle) simp_all
  ultimately show ?thesis using st assms(3,4,5) by (simp add: fence_rule_def fence_after_def)
qed

section \<open>The worker's transactions\<close>

lemma evolving_finish_dependents [tx_rules]: "evolving (finish_dependents p now)"
proof (rule assuresI)
  fix d r d' assume "finish_dependents p now d = Inr (r, d')"
  then have "update_jobs (waits_on p d) (finish_row now) d = Inr d'" by (auto simp: finish_dependents_def result_simps)
  then show "evo d d'" by (rule evo_update) (auto simp: finish_row_def fence_rule_def fence_after_def)
qed

lemma evolving_cancel_descendants: "evolving (cancel_descendants p now)"
proof (rule assuresI)
  fix d r d' assume "cancel_descendants p now d = Inr (r, d')"
  then have "update_jobs (cancellable_below p d) (cancel_row now) d = Inr d'" by (auto simp: cancel_descendants_def result_simps)
  then show "evo d d'" by (rule evo_update) (auto simp: cancel_row_def cancellable_below_def intro!: fence_kept)
qed

lemma evolving_finish_all: "evolving (finish_all is now)"
proof (induction "is")
  case Nil
  then show ?case by (auto intro!: evolving_frame)
next
  case (Cons i "is")
  show ?case
    by (rule assuresI) (auto simp: result_simps split: prod.split_asm
      intro: evo_trans [OF assuresD [OF evolving_finish_dependents] assuresD [OF Cons.IH]])
qed

lemma evolving_claim: "evolving (take_jobs req sh n locked now)"
proof (rule assuresI)
  fix d r d' assume "take_jobs req sh n locked now d = Inr (r, d')"
  then obtain d1 where u: "update_jobs (\<lambda>j. j_id j \<in> j_id ` set (cand req (nat n) locked now d)) (claim_row req sh now) d = Inr d1"
    and js: "jobs d' = jobs d1"
    by (auto simp: take_jobs_def claim_sql_def result_simps Let_def split: if_split_asm)
  have "evo d d1"
  proof (rule evo_update [OF u])
    fix j assume wf: "jobs_wf d" and j: "j \<in> set (jobs d)" "j_id j \<in> j_id ` set (cand req (nat n) locked now d)"
    then obtain k where k: "k \<in> set (cand req (nat n) locked now d)" "j_id k = j_id j" by auto
    then have "k \<in> set (jobs d)" "j_status k = Queued"
      by (auto simp: cand_def claimable_def dest!: subsetD [OF set_order_limit])
    with jobs_wfD(4) [OF wf j(1)] k(2) have "j_status j = Queued" by metis
    then show "fence_rule j (claim_row req sh now j)" by (simp add: fence_rule_def claim_row_def fence_after_def)
  qed (simp add: claim_row_def)
  with js show "evo d d'" by (rule evo_update_plain [rotated])
qed

lemma evolving_start: "evolving (start_sql w xid now job fence)"
proof (rule assuresI)
  fix d r d' assume "start_sql w xid now job fence d = Inr (r, d')"
  then consider "d' = d" | d1 where "update_jobs (startable job fence) (start_row now) d = Inr d1" "jobs d' = jobs d1"
    by (auto simp: start_sql_def result_simps Let_def split: option.split_asm if_split_asm)
  then show "evo d d'"
  proof cases
    case (2 d1)
    have "evo d d1" by (rule evo_update [OF 2(1)]) (auto simp: start_row_def startable_def fence_rule_def fence_after_def)
    then show ?thesis using 2(2) by (rule evo_update_plain)
  qed (simp add: evo_same)
qed

lemma update_execs_jobs: "update_execs P f d = Inr d' \<Longrightarrow> jobs d' = jobs d"
  by (auto simp: update_execs_Inr_iff)

lemma evolving_success: "evolving (report_success exec now job fence)"
proof (rule assuresI)
  fix d r d' assume run: "report_success exec now job fence d = Inr (r, d')"
  show "evo d d'"
  proof (cases "find (reportable job fence) (jobs d)")
    case None
    with run show ?thesis by (simp add: report_success_def evo_same)
  next
    case (Some j)
    with run obtain d1 d2 woke d3 where u: "update_jobs (reportable job fence) (complete_row now) d = Inr d1"
      "update_execs (\<lambda>x. x_id x = exec \<and> is_open x) (close_plain X_success now) d1 = Inr d2"
      "finish_dependents job now d2 = Inr (woke, d3)" "jobs d' = jobs d3"
      by (auto simp: report_success_def result_simps Let_def)
    have "evo d d1" by (rule evo_update [OF u(1)]) (auto simp: complete_row_def reportable_def intro!: fence_kept)
    from evo_update_plain [OF this update_execs_jobs [OF u(2)]] assuresD [OF evolving_finish_dependents u(3)]
    have "evo d d3" by (rule evo_trans)
    then show ?thesis using u(4) by (rule evo_update_plain)
  qed
qed

lemma fold_jobs: "(\<And>x d. jobs (f x d) = jobs d) \<Longrightarrow> jobs (fold f xs d) = jobs d"
  by (induction xs arbitrary: d) auto

lemma groups_jobs [simp]: "jobs (stats_groups xs now d) = jobs d" "jobs (release_groups ks d) = jobs d"
  by (auto simp: stats_groups_def release_groups_def Let_def intro!: fold_jobs)

lemma in_batch_running: "in_batch batch j \<Longrightarrow> j_status j = Running"
  by (auto simp: in_batch_def batch_entry_def find_Some_iff reportable_def)

lemma evolving_success_batch: "evolving (report_success_batch batch now)"
proof (rule assuresI)
  fix d r d' assume run: "report_success_batch batch now d = Inr (r, d')"
  show "evo d d'"
  proof (cases "filter (in_batch batch) (jobs d) = []")
    case True
    with run show ?thesis by (simp add: report_success_batch_def evo_same)
  next
    case False
    with run obtain d1 ids woke d2 execs d3 where u: "update_jobs (in_batch batch) (complete_row now) d = Inr d1"
      "finish_all ids now d1 = Inr (woke, d2)"
      "update_execs (\<lambda>x. x_id x \<in> execs \<and> is_open x) (close_plain X_success now) d2 = Inr d3" "jobs d' = jobs d3"
      by (auto simp: report_success_batch_def result_simps Let_def)
    have "evo d d1" by (rule evo_update [OF u(1)]) (auto simp: complete_row_def dest!: in_batch_running intro!: fence_kept)
    then have "evo d d2" using assuresD [OF evolving_finish_all u(2)] by (rule evo_trans)
    from evo_update_plain [OF this update_execs_jobs [OF u(3)]] u(4) show ?thesis by (rule evo_update_plain)
  qed
qed

lemma evolving_failure: "evolving (report_failure f jit now job fence)"
proof (rule assuresI)
  fix d r d' assume run: "report_failure f jit now job fence d = Inr (r, d')"
  show "evo d d'"
  proof (cases "\<exists>j rp. find (failable job fence d) (jobs d) = Some j \<and> policy_of d (j_retry_policy_id j) = Some rp")
    case False
    with run have "d' = d" by (auto simp: report_failure_def split: option.split_asm)
    then show ?thesis by (simp add: evo_same)
  next
    case True
    then obtain j rp where j: "find (failable job fence d) (jobs d) = Some j" "policy_of d (j_retry_policy_id j) = Some rp" by blast
    let ?dead = "exhausted (f_permanent f) rp j"
    from run j obtain d1 killed d2 d3 where u: "update_jobs (failable job fence d) (fail_row rp (f_permanent f) jit now) d = Inr d1"
      "(if ?dead then cancel_descendants job now d1 else Inr ([], d1)) = Inr (killed, d2)"
      "update_execs (\<lambda>x. x_job_id x = job \<and> is_open x) (close_row (f_outcome f) (f_class f) (f_message f) now) d2 = Inr d3"
      "jobs d' = jobs d3"
      by (cases ?dead) (auto simp: report_failure_def result_simps Let_def)
    have "evo d d1" by (rule evo_update [OF u(1)]) (auto simp: fail_row_def failable_def active_def intro!: fence_kept)
    moreover have "evo d1 d2"
      using u(2) by (cases ?dead) (auto dest: assuresD [OF evolving_cancel_descendants] intro: evo_same)
    ultimately have "evo d d2" by (rule evo_trans)
    from evo_update_plain [OF this update_execs_jobs [OF u(3)]] u(4) show ?thesis by (rule evo_update_plain)
  qed
qed

lemma evolving_snooze: "evolving (report_snooze exec delay now job fence)"
proof (rule assuresI)
  fix d r d' assume run: "report_snooze exec delay now job fence d = Inr (r, d')"
  then consider "d' = d" | rp d1 d2 where "update_jobs (snoozable job fence d) (snooze_row rp delay now) d = Inr d1"
      "update_execs (\<lambda>x. x_id x = exec \<and> is_open x) (close_plain X_snoozed now) d1 = Inr d2" "jobs d' = jobs d2"
    by (auto simp: report_snooze_def result_simps Let_def split: option.split_asm)
  then show "evo d d'"
  proof cases
    case (2 rp d1 d2)
    have "evo d d1"
      by (rule evo_update [OF 2(1)]) (auto simp: snooze_row_def snoozable_def fence_rule_def fence_after_def)
    from evo_update_plain [OF this update_execs_jobs [OF 2(2)]] 2(3) show ?thesis by (rule evo_update_plain)
  qed (simp add: evo_same)
qed

section \<open>The scheduler's and the archiver's transactions\<close>

lemma evolving_promote: "evolving (promote_tx limit locked now)"
proof (rule assuresI)
  fix d r d' assume "promote_tx limit locked now d = Inr (r, d')"
  then consider "d' = d" | d1 where "update_jobs (\<lambda>j. j_id j \<in> set (promote_select limit locked now d)) promote_row d = Inr d1" "jobs d' = jobs d1"
    by (auto simp: promote_tx_def promote_update_def result_simps Let_def split: if_split_asm)
  then show "evo d d'"
  proof cases
    case (2 d1)
    have "evo d d1" by (rule evo_update [OF 2(1)]) (auto simp: promote_row_def intro!: fence_kept)
    then show ?thesis using 2(2) by (rule evo_update_plain)
  qed (simp add: evo_same)
qed

lemma evolving_age: "evolving (age_sql olderThan ceil limit now)"
proof (rule assuresI)
  fix d r d' assume "age_sql olderThan ceil limit now d = Inr (r, d')"
  then have "update_jobs (\<lambda>j. j_id j \<in> set (map j_id (take limit (filter (ageable olderThan ceil now) (jobs d))))) age_row d = Inr d'"
    by (auto simp: age_sql_def result_simps Let_def)
  then show "evo d d'" by (rule evo_update) (auto simp: age_row_def fence_rule_def)
qed

lemma settle_jobs: "jobs (settle now i du t nt fired ov n d) = jobs d"
  by (simp add: settle_def advance_schedule_def Let_def)

lemma disable_jobs: "jobs (disableSchedule now i p d) = jobs d"
  by (simp add: disableSchedule_def)

lemma evolving_insert_scheduled: "evolving (insert_scheduled i du t now)"
  by (rule assuresI) (auto simp: insert_scheduled_def result_simps scheduled_job_def new_job_def split: if_split_asm
    intro: evo_same evo_insert)

lemma evolving_materialize_one: "evolving (materialize_one lib now i du)"
proof (rule assuresI)
  fix d r d' assume "materialize_one lib now i du d = Inr (r, d')"
  then consider "jobs d' = jobs d" | t fired d1 where "insert_scheduled i du t now d = Inr (fired, d1)" "jobs d' = jobs d1"
    by (auto simp: materialize_one_def Let_def result_simps settle_jobs disable_jobs split: option.split_asm if_split_asm)
  then show "evo d d'"
    by cases (auto intro: evo_same evo_update_plain dest: assuresD [OF evolving_insert_scheduled])
qed

lemma evolving_materialize_loop: "evolving (materialize_loop lib now ids k dus n)"
proof (induction dus arbitrary: k n)
  case Nil
  then show ?case by (auto intro!: evolving_frame)
next
  case (Cons du dus)
  show ?case
    by (rule assuresI) (auto simp: result_simps intro: evo_trans [OF assuresD [OF evolving_materialize_one] assuresD [OF Cons.IH]])
qed

lemma evolving_materialize: "evolving (materialize_tx lib ids limit locked now)"
  using assuresD [OF evolving_materialize_loop] by (auto simp: materialize_tx_def intro!: assuresI)

text \<open>
  Transactions that only remove jobs: the archiver, which takes terminal ones, and the deletes of the API, which take
  whole queues.
\<close>

definition purge :: "db \<Rightarrow> db \<Rightarrow> bool" where
  "purge d d' \<longleftrightarrow> (jobs_wf d \<longrightarrow> jobs_wf d' \<and> life_step\<^sup>*\<^sup>* (lives d) (lives d') \<and> (\<forall>i. lives d' i = lives d i \<or> lives d' i = None))"

lemma purge_refl: "purge d d"
  by (simp add: purge_def)

lemma purge_trans: "purge a b \<Longrightarrow> purge b c \<Longrightarrow> purge a c"
  unfolding purge_def by (metis rtranclp_trans)

lemma purge_same: "jobs d' = jobs d \<Longrightarrow> purge d d'"
proof -
  assume same: "jobs d' = jobs d"
  then have "lives d' = lives d" by (intro ext) (simp add: lives_def)
  with same show ?thesis by (simp add: purge_def jobs_wf_def)
qed

definition shed :: "db \<Rightarrow> db \<Rightarrow> bool" where
  "shed d d' \<longleftrightarrow> (jobs_wf d \<longrightarrow> jobs_wf d' \<and> (\<forall>i. lives d' i = lives d i \<or> lives d' i = None \<and> job_move (lives d i) None))"

lemma archive_sheds:
  assumes run: "archive_tx after dl limit locked now d = Inr (r, d')"
  shows "shed d d'"
proof -
  let ?ids = "set (pick after dl limit locked now d)"
  have js: "jobs d' = delete_where (\<lambda>j. j_id j \<in> ?ids) (jobs d)"
    using archive_tx_eq [of after dl limit locked now d] run by auto
  show ?thesis
    unfolding shed_def
  proof (intro impI conjI allI)
    assume wf: "jobs_wf d"
    then show wf': "jobs_wf d'" by (auto simp: jobs_wf_def js delete_where_def distinct_map_filter)
    fix i
    show "lives d' i = lives d i \<or> lives d' i = None \<and> job_move (lives d i) None"
    proof (cases "job_of d' i")
      case (Some j)
      then have "job_of d i = Some j" using jobs_wfD(3) [OF wf] jobs_wfD(3) [OF wf'] by (auto simp: js delete_where_def)
      with Some show ?thesis by (simp add: lives_def)
    next
      case None
      show ?thesis
      proof (cases "job_of d i")
        case (Some j)
        then have j: "j \<in> set (jobs d)" "j_id j = i" using jobs_wfD(3) [OF wf] by auto
        moreover have "j \<notin> set (jobs d')" using None j(2) unfolding lookup_row_None_iff by blast
        ultimately have "j_id j \<in> ?ids" by (auto simp: js delete_where_def)
        with pick_sel(1) [OF wf j(1)] have "archivable after dl now d j" by blast
        then have "terminal (j_status j)" by (auto simp: archivable_def)
        then show ?thesis using None Some by (simp add: lives_def life_of_def job_move.leave)
      qed (simp add: lives_def None)
    qed
  qed
qed

lemma shedD: "shed d d' \<Longrightarrow> jobs_wf d \<Longrightarrow> lives d' i = lives d i \<or> lives d' i = None \<and> job_move (lives d i) None"
  by (simp add: shed_def)

lemma shed_steps:
  assumes "shed d d'" and "jobs_wf d"
  shows "life_step\<^sup>*\<^sup>* (lives d) (lives d')"
proof (rule life_steps_pointwise [where A = "{i. lives d i \<noteq> None}"])
  have s: "lives d' i = lives d i \<or> lives d' i = None \<and> job_move (lives d i) None" for i using shedD [OF assms] .
  show "\<forall>i. i \<notin> {i. lives d i \<noteq> None} \<longrightarrow> lives d' i = lives d i"
  proof (intro allI impI)
    fix i assume "i \<notin> {i. lives d i \<noteq> None}"
    then have "lives d i = None" by (simp only: mem_Collect_eq not_not)
    with s [of i] show "lives d' i = lives d i" by (elim disjE conjE) simp_all
  qed
  show "\<forall>i. job_move\<^sup>*\<^sup>* (lives d i) (lives d' i)"
  proof
    fix i
    from s [of i] show "job_move\<^sup>*\<^sup>* (lives d i) (lives d' i)"
    proof (elim disjE conjE)
      assume "lives d' i = None" "job_move (lives d i) None"
      then show ?thesis by (simp add: r_into_rtranclp)
    qed simp
  qed
qed (rule lives_finite)

lemma archive_purges: "archive_tx after dl limit locked now d = Inr (r, d') \<Longrightarrow> purge d d'"
  using archive_sheds [of after dl limit locked now d r d'] shed_steps [of d d'] by (auto simp: purge_def shed_def)

text \<open>Deleting a queue is one move of the abstract machine.\<close>

lemma delete_queue_purges: "delete_queue i d = Inr (r, d') \<Longrightarrow> purge d d'"
proof (cases "queue_of d i")
  case None
  assume "delete_queue i d = Inr (r, d')"
  with None show ?thesis by (simp add: delete_queue_def purge_refl)
next
  case (Some q)
  assume run: "delete_queue i d = Inr (r, d')"
  show ?thesis
    unfolding purge_def
  proof (intro impI)
    assume wf: "jobs_wf d"
    let ?f = "\<lambda>j :: job. j\<lparr>j_schedule_id := None\<rparr>"
    from delete_queue_eq [OF wf Some] run obtain P where js: "jobs d' = delete_where (\<lambda>j. j_queue_id j = i) (update_where P ?f (jobs d))" by auto
    let ?e = "d\<lparr>jobs := update_where P ?f (jobs d)\<rparr>"
    have "update_jobs P ?f d = Inr ?e" using jobs_wfD(2) [OF wf] by (intro update_jobs_ok unlink_ok) blast
    then have wf1: "jobs_wf ?e" by (rule update_jobs_wf [OF wf]) simp
    then have wf2: "jobs_wf d'" by (auto simp: jobs_wf_def js delete_where_def distinct_map_filter)
    have "lives d' k = drop_queue i (lives d) k" for k
    proof -
      have "lives ?e k = lives d k"
        by (cases "job_of d k") (simp_all add: lives_def job_of_update life_of_def)
      moreover have "lives d' k = (if in_queue i (lives ?e k) then None else lives ?e k)"
      proof (cases "job_of ?e k")
        case None
        then have "job_of d' k = None" unfolding lookup_row_None_iff by (simp add: js set_delete_where)
        with None show ?thesis by (simp add: lives_def)
      next
        case (Some j)
        then have j: "j \<in> set (jobs ?e)" "j_id j = k" using jobs_wfD(3) [OF wf1] by auto
        have "job_of d' k = (if j_queue_id j = i then None else Some j)"
        proof (cases "j_queue_id j = i")
          case True
          have "x = j" if "x \<in> set (jobs ?e)" "j_id x = k" for x using jobs_wfD(4) [OF wf1 that(1) j(1)] that(2) j(2) by simp
          then show ?thesis using True unfolding lookup_row_None_iff by (auto simp: js set_delete_where lookup_row_None_iff)
        next
          case False
          then show ?thesis using j jobs_wfD(3) [OF wf2, of k j] by (simp add: js set_delete_where)
        qed
        then show ?thesis using Some by (simp add: lives_def life_of_def in_queue_def)
      qed
      ultimately show ?thesis by (simp add: drop_queue_def)
    qed
    then have l: "lives d' = drop_queue i (lives d)" by (rule ext)
    show "jobs_wf d' \<and> life_step\<^sup>*\<^sup>* (lives d) (lives d') \<and> (\<forall>k. lives d' k = lives d k \<or> lives d' k = None)"
      using wf2 unfolding l by (auto simp: drop_queue_def intro: life_step.drop)
  qed
qed

interpretation purging: tx_guarantee purge
proof
  show "purge d d" for d by (rule purge_refl)
  show "purge a b \<Longrightarrow> purge b c \<Longrightarrow> purge a c" for a b c by (rule purge_trans)
  show "purge d (emit topic entity project payload now d)" for d topic entity project payload now by (simp add: purge_same)
qed

lemma delete_queues_purge: "delete_queues p d = Inr d' \<Longrightarrow> purge d d'"
  unfolding delete_queues_def
  by (rule foldr_result_assures [of purge]) (auto simp: purge_refl result_simps intro: delete_queue_purges purge_trans)

lemma delete_project_purges: "delete_project p d = Inr d' \<Longrightarrow> purge d d'"
proof -
  assume run: "delete_project p d = Inr d'"
  show ?thesis
  proof (cases "p \<in> pr_id ` set (projects d)")
    case True
    with run obtain d1 d2 where steps: "delete_policies p (d\<lparr>projects := delete_where (\<lambda>pr. pr_id pr = p) (projects d)\<rparr>) = Inr d1"
      "delete_queues p d1 = Inr d2" "delete_workers p d2 = Inr d'" by (auto simp: delete_project_def result_simps)
    have "purge d d1" using steps(1) by (intro purge_same) (auto simp: delete_policies_def Let_def split: if_split_asm)
    moreover have "purge d2 d'" using steps(3) by (intro purge_same) (auto simp: delete_workers_def Let_def split: if_split_asm)
    ultimately show ?thesis using delete_queues_purge [OF steps(2)] by (blast intro: purge_trans)
  qed (use run in \<open>simp add: delete_project_def purge_refl\<close>)
qed

lemma delete_org_purges: "delete_org i d = Inr d' \<Longrightarrow> purge d d'"
proof -
  let ?e = "d\<lparr>organizations := delete_where (\<lambda>o'. o_id o' = i) (organizations d), org_members := delete_where (\<lambda>m. om_org_id m = i) (org_members d)\<rparr>"
  assume "delete_org i d = Inr d'"
  then have "foldr_result delete_project (map pr_id (filter (\<lambda>p. pr_org_id p = i) (projects d))) ?e = Inr d'" by (simp add: delete_org_def Let_def)
  then have "purge ?e d'"
    by (rule foldr_result_assures [of purge, rotated 3]) (blast intro: purge_refl purge_trans delete_project_purges)+
  moreover have "purge d ?e" by (simp add: purge_same)
  ultimately show ?thesis by (blast intro: purge_trans)
qed

lemma purging_deletes [tx_rules]: "assures purge (delete_queue i)"
  "assures purge (\<lambda>d. rbind (delete_project p d) (\<lambda>d1. Inr ((), d1)))" "assures purge (\<lambda>d. rbind (delete_org o' d) (\<lambda>d1. Inr ((), d1)))"
  by (rule assuresI, auto simp: result_simps intro: delete_queue_purges delete_project_purges delete_org_purges)+

lemma purging_handlers: "assures purge (deleteQueue r sc now)" "assures purge (deleteProject r sc now)" "assures purge (deleteOrg r sc now)"
  unfolding deleteQueue_def deleteProject_def deleteOrg_def by (intro tx_rules)+

lemma evolving_delete_schedules [tx_rules]: "evolving (\<lambda>d. rbind (delete_schedules P d) (\<lambda>d1. Inr ((), d1)))"
proof (rule assuresI)
  fix d r d' assume "rbind (delete_schedules P d) (\<lambda>d1. Inr ((), d1)) = Inr (r, d')"
  then obtain d1 where u: "update_jobs (\<lambda>j. \<exists>s \<in> sc_id ` {s \<in> set (schedules d). P s}. j_schedule_id j = Some s) (\<lambda>j. j\<lparr>j_schedule_id := None\<rparr>) d = Inr d1"
    and js: "jobs d' = jobs d1"
    by (auto simp: delete_schedules_def Let_def result_simps)
  have "evo d d1" by (rule evo_update [OF u]) (simp_all add: fence_rule_def)
  then show "evo d d'" using js by (rule evo_update_plain)
qed

lemma evolving_deleteSchedule: "evolving (deleteSchedule r sc now)"
  unfolding deleteSchedule_def by (intro tx_rules)

section \<open>The API's transactions\<close>

lemma evolving_insert_submitted:
  assumes "j_status j \<in> {Scheduled, Queued}" and "j_fence j = 0"
  shows "evolving (insert_submitted j)"
  using assms by (auto simp: insert_submitted_def result_simps intro!: assuresI intro: evo_insert)

lemma submitted_job_new:
  "j_status (submitted_job i q p t pl pr ra to po pe now) \<in> {Scheduled, Queued}" "j_fence (submitted_job i q p t pl pr ra to po pe now) = 0"
  by (auto simp: submitted_job_def new_job_def Let_def)

lemma evolving_submit_sql [tx_rules]:
  "evolving (insert_submitted (submitted_job i q p t pl pr ra to po pe now))" "evolving (queue_defaults q)" "evolving (queued_count q)"
  "evolving (find_idem q key now)" "evolving (delete_idem q key)" "evolving (insert_idem race q key i fp now)"
  "evolving (pending_parents ps p)" "evolving (cycle_sql i)" "evolving (cancelled_kin i)"
  "evolving (mark_replayed A u now)"
  by (rule evolving_insert_submitted [OF submitted_job_new])
     (auto simp: queue_defaults_def queued_count_def find_idem_def delete_idem_def insert_idem_def pending_parents_def
        cycle_sql_def cancelled_kin_def mark_replayed_def reads_def result_simps intro!: evolving_frame split: if_split_asm)

lemma evolving_insert_deps [tx_rules]: "evolving (insert_deps i ps)"
proof (rule evolving_frame)
  fix d r d' assume run: "insert_deps i ps d = Inr (r, d')"
  then show "jobs d' = jobs d"
    unfolding insert_deps_def rbind_eq_Inr by (elim exE conjE, split if_split_asm) auto
qed

lemma evolving_parentIDs [tx_rules]: "evolving (parentIDs lib ps)"
proof (induction ps)
  case (Cons p ps)
  then show ?case by (auto intro!: tx_rules split: option.split)
qed (simp only: parentIDs.simps evolution.assures_aret)

lemma evolving_parts [tx_rules]:
  "evolving (assertPolicyOwned i p)" "evolving (loadSubmitView i)" "evolving (link i ps)"
  unfolding assertPolicyOwned_def loadSubmitView_def link_def by (intro tx_rules)+

lemma evolving_choices [tx_rules]: "evolving (choose_policy lib req p proj)" "evolving (check_idem fp q key now)"
  unfolding choose_policy_def check_idem_def by (intro tx_rules)+

lemma evolving_submit_new [tx_rules]: "evolving (submit_new lib race i key fp typ payload priority timeout policy req sc now)"
  unfolding submit_new_def Let_def by (intro tx_rules)

lemma evolving_submitJob: "evolving (submitJob lib race i r sc now)"
  unfolding submitJob_def Let_def by (intro tx_rules)

lemma evolving_insert_all:
  "\<forall>j \<in> set js. j_status j \<in> {Scheduled, Queued} \<and> j_fence j = 0 \<Longrightarrow> foldr_result insert_job js d = Inr d' \<Longrightarrow> evo d d'"
proof (induction js arbitrary: d)
  case Nil
  then show ?case by (simp add: evo_same)
next
  case (Cons j js)
  from Cons.prems(2) obtain d1 where i: "insert_job j d = Inr d1" "foldr_result insert_job js d1 = Inr d'"
    by (auto simp: result_simps)
  have "evo d d1" using Cons.prems(1) by (intro evo_insert [OF i(1)]) auto
  moreover have "evo d1 d'" using Cons.prems(1) by (intro Cons.IH [OF _ i(2)]) auto
  ultimately show ?case by (rule evo_trans)
qed

lemma evolving_insert_batch [tx_rules]:
  "evolving (insert_batch (map (\<lambda>(n, s). batch_job q p pol b pr now (newid n) s) xs))"
proof (rule assuresI)
  let ?js = "map (\<lambda>(n, s). batch_job q p pol b pr now (newid n) s) xs"
  fix d r d' assume "insert_batch ?js d = Inr (r, d')"
  then have "foldr_result insert_job ?js d = Inr d'" by (auto simp: insert_batch_def result_simps)
  moreover have "\<forall>j \<in> set ?js. j_status j \<in> {Scheduled, Queued} \<and> j_fence j = 0"
    by (auto simp: batch_job_def new_job_def Let_def split: if_splits)
  ultimately show "evo d d'" by (blast intro: evolving_insert_all)
qed

lemma evolving_check_batch [tx_rules]: "evolving (check_batch lib ss)"
  by (induction ss) (auto simp only: check_batch.simps intro!: tx_rules)

lemma evolving_submitBatch: "evolving (submitBatch lib b newid r sc now)"
  unfolding submitBatch_def by (intro tx_rules)

lemma evolving_cancel_sql [tx_rules]: "evolving (cancel_sql i now)" "evolving (cancel_exec i now)" "evolving (cancel_lease i)"
  "evolving (\<lambda>d. Inr ((), queue_release q s n d))"
proof -
  show "evolving (cancel_sql i now)"
  proof (rule assuresI)
    fix d r d' assume "cancel_sql i now d = Inr (r, d')"
    then show "evo d d'"
      by (auto simp: cancel_sql_def result_simps cancelled_row_def jobs_wfD(3) split: option.split_asm
        intro: evo_same elim!: evo_update intro!: fence_kept dest: jobs_wfD(4))
  qed
qed (auto simp: cancel_exec_def cancel_lease_def result_simps update_execs_jobs intro!: evolving_frame)

lemma evolving_cancelJob: "evolving (cancelJob r sc now)"
  unfolding cancelJob_def Let_def by (intro tx_rules)

lemma evolving_retry_sql [tx_rules]: "evolving (retry_sql i now)"
proof (rule assuresI)
  fix d r d' assume "retry_sql i now d = Inr (r, d')"
  then consider "d' = d" | "update_jobs (retriable i) (\<lambda>j. j\<lparr>j_status := Queued, j_run_at := now\<rparr>) d = Inr d'"
    by (auto simp: retry_sql_def result_simps split: option.split_asm)
  then show "evo d d'" by cases (auto intro: evo_same elim!: evo_update intro!: fence_kept)
qed

lemma evolving_retryJob: "evolving (retryJob r sc now)"
  unfolding retryJob_def by (intro tx_rules)

lemma evolving_replay_sql [tx_rules]: "evolving (replay_sql i now)"
proof (rule assuresI)
  fix d r d' assume "replay_sql i now d = Inr (r, d')"
  then consider "d' = d" | "update_jobs (is_dead i) (replay_row now) d = Inr d'"
    by (auto simp: replay_sql_def result_simps split: option.split_asm)
  then show "evo d d'" by cases (auto intro: evo_same elim!: evo_update intro!: fence_kept)
qed

lemma evolving_replayJob: "evolving (replayJob lib r sc now)"
  unfolding replayJob_def by (intro tx_rules)

lemma evolving_replay_dead [tx_rules]: "evolving (replay_dead q cap rate actor now)"
proof (rule assuresI)
  fix d r d' assume run: "replay_dead q cap rate actor now d = Inr (r, d')"
  show "evo d d'"
  proof (cases "queue_of d q")
    case None
    with run show ?thesis by (simp add: replay_dead_def evo_same)
  next
    case (Some qr)
    define ids where "ids = map d_job_id (order_limit d_dead_at (nat (replay_room q cap qr d)) (filter (replayable q d) (dead_letter_jobs d)))"
    show ?thesis
    proof (cases "replay_room q cap qr d \<le> 0 \<or> ids = []")
      case True
      with run Some show ?thesis by (simp add: replay_dead_def Let_def ids_def evo_same)
    next
      case False
      then have "order_limit d_dead_at (nat (replay_room q cap qr d)) (filter (replayable q d) (dead_letter_jobs d)) \<noteq> []"
        by (auto simp: ids_def)
      with False run Some obtain d1 where
        u: "update_jobs (\<lambda>j. j_id j \<in> set ids \<and> j_status j = Dead_letter) (\<lambda>j. replay_row (replay_at ids rate now (j_id j)) j) d = Inr d1"
        and js: "jobs d' = jobs d1"
        by (auto simp: replay_dead_def Let_def ids_def [symmetric] result_simps mark_replayed_def
          simp del: list.map_disc_iff split: if_split_asm)
      have "evo d d1" by (rule evo_update [OF u]) (auto intro: fence_kept)
      then show ?thesis using js by (rule evo_update_plain)
    qed
  qed
qed

lemma evolving_replayQueue: "evolving (replayQueue r sc now)"
  unfolding replayQueue_def Let_def by (intro tx_rules)

section \<open>The system\<close>

text \<open>
  One committed transaction of some process: a claim, another transaction on jobs, leases or executions (\<open>job_tx\<close>), or
  one that leaves them alone. Times, ids, tokens, requests and locks are whatever they are: the
  rules do not assume that clocks agree, that a worker is alive or that a caller is authorised. \<open>quiet\<close> is
  every transaction that leaves jobs, leases and executions alone: admissions, heartbeats, logs, the breaker, rollups,
  partitions, accounts, the configuration except for the deletes, reads.
\<close>

inductive job_tx :: "('loc, 'sched) cron_lib \<Rightarrow> api_lib \<Rightarrow> db \<Rightarrow> db \<Rightarrow> bool" for clib alib where
  start: "start_sql w xid now job fence d = Inr (x, d') \<Longrightarrow> job_tx clib alib d d'"
| success: "report_success exec now job fence d = Inr (q, d') \<Longrightarrow> job_tx clib alib d d'"
| success_batch: "report_success_batch batch now d = Inr (ids, d') \<Longrightarrow> job_tx clib alib d d'"
| failure: "report_failure f jit now job token d = Inr (q, d') \<Longrightarrow> job_tx clib alib d d'"
| snooze: "report_snooze exec delay now job token d = Inr (q, d') \<Longrightarrow> job_tx clib alib d d'"
| promote: "promote_tx limit locked now d = Inr (m, d') \<Longrightarrow> job_tx clib alib d d'"
| age: "age_sql olderThan ceil limit now d = Inr (m, d') \<Longrightarrow> job_tx clib alib d d'"
| materialize: "materialize_tx clib newid limit locked now d = Inr (m, d') \<Longrightarrow> job_tx clib alib d d'"
| archive: "archive_tx after dl limit locked now d = Inr (m, d') \<Longrightarrow> job_tx clib alib d d'"
| submit: "submitJob alib race i r sc now d = Inr (v, d') \<Longrightarrow> job_tx clib alib d d'"
| submit_batch: "submitBatch alib b newid rb sc now d = Inr (vb, d') \<Longrightarrow> job_tx clib alib d d'"
| cancel: "cancelJob (rn :: unit request) sc now d = Inr (vc, d') \<Longrightarrow> job_tx clib alib d d'"
| retry: "retryJob (rn :: unit request) sc now d = Inr (vr, d') \<Longrightarrow> job_tx clib alib d d'"
| replay: "replayJob alib (rn :: unit request) sc now d = Inr (vp, d') \<Longrightarrow> job_tx clib alib d d'"
| replay_queue: "replayQueue rq sc now d = Inr (vq, d') \<Longrightarrow> job_tx clib alib d d'"
| delete_schedule: "deleteSchedule (rn :: unit request) sc now d = Inr (v0, d') \<Longrightarrow> job_tx clib alib d d'"
| delete_queue: "deleteQueue (rn :: unit request) sc now d = Inr (v0, d') \<Longrightarrow> job_tx clib alib d d'"
| delete_project: "deleteProject (rn :: unit request) sc now d = Inr (v0, d') \<Longrightarrow> job_tx clib alib d d'"
| delete_org: "deleteOrg (rn :: unit request) sc now d = Inr (v0, d') \<Longrightarrow> job_tx clib alib d d'"
| extend: "extend_sql lease progress now job fence d = Inr (m, d') \<Longrightarrow> job_tx clib alib d d'"
| close: "close_exec_sql exec oc cls msg now d = Inr (u, d') \<Longrightarrow> job_tx clib alib d d'"
| sweep: "sweep_sql limit now d = Inr (m, d') \<Longrightarrow> job_tx clib alib d d'"

inductive system_step :: "('loc, 'sched) cron_lib \<Rightarrow> api_lib \<Rightarrow> db \<Rightarrow> db \<Rightarrow> bool" for clib alib where
  claim: "take_jobs req sh n locked now d = Inr (cs, d') \<Longrightarrow> system_step clib alib d d'"
| tx: "job_tx clib alib d d' \<Longrightarrow> system_step clib alib d d'"
| quiet: "jobs d' = jobs d \<Longrightarrow> job_leases d' = job_leases d \<Longrightarrow> job_executions d' = job_executions d \<Longrightarrow> system_step clib alib d d'"

text \<open>Every step adds and moves jobs, or takes some out.\<close>

lemma job_tx_cases: "job_tx clib alib d d' \<Longrightarrow> evo d d' \<or> purge d d'"
proof (induction rule: job_tx.induct)
  case archive
  then show ?case by (blast intro: archive_purges)
next
  case delete_queue
  then show ?case by (blast intro: assuresD [OF purging_handlers(1)])
next
  case delete_project
  then show ?case by (blast intro: assuresD [OF purging_handlers(2)])
next
  case delete_org
  then show ?case by (blast intro: assuresD [OF purging_handlers(3)])
next
  case extend
  then show ?case by (auto simp: extend_sql_def intro: evo_same split: option.split_asm)
next
  case close
  then show ?case by (auto simp: close_exec_sql_def result_simps intro: evo_same update_execs_jobs)
next
  case sweep
  then show ?case by (auto simp: sweep_sql_def Let_def result_simps intro: evo_same update_execs_jobs)
qed ((rule disjI1, erule assuresD [OF evolving_start] assuresD [OF evolving_success]
    assuresD [OF evolving_success_batch] assuresD [OF evolving_failure] assuresD [OF evolving_snooze]
    assuresD [OF evolving_promote] assuresD [OF evolving_age] assuresD [OF evolving_materialize]
    assuresD [OF evolving_submitJob] assuresD [OF evolving_submitBatch] assuresD [OF evolving_cancelJob]
    assuresD [OF evolving_retryJob] assuresD [OF evolving_replayJob] assuresD [OF evolving_replayQueue]
    assuresD [OF evolving_deleteSchedule])+)

lemma system_step_cases: "system_step clib alib d d' \<Longrightarrow> evo d d' \<or> purge d d'"
proof (induction rule: system_step.induct)
  case claim
  then show ?case by (intro disjI1) (rule assuresD [OF evolving_claim])
next
  case tx
  then show ?case by (rule job_tx_cases)
next
  case quiet
  then show ?case by (intro disjI1 evo_same)
qed

lemma system_step_wf: "system_step clib alib d d' \<Longrightarrow> jobs_wf d \<Longrightarrow> jobs_wf d'"
  using system_step_cases [of clib alib d d'] by (auto simp: evo_def purge_def)

text \<open>
  A simulation: under an invariant, each concrete step is a finite number of abstract ones. It composes over
  runs, so what holds along every abstract run holds of every concrete one.
\<close>

locale simulation = transition_system init step inv
  for init :: "'s \<Rightarrow> bool" and step :: "'s \<Rightarrow> 's \<Rightarrow> bool" and inv :: "'s \<Rightarrow> bool" +
  fixes abs_of :: "'s \<Rightarrow> 'a" and abs_step :: "'a \<Rightarrow> 'a \<Rightarrow> bool"
  assumes step_sim: "inv s \<Longrightarrow> step s s' \<Longrightarrow> abs_step\<^sup>*\<^sup>* (abs_of s) (abs_of s')"
begin

lemma steps_sim: "step\<^sup>*\<^sup>* s s' \<Longrightarrow> inv s \<Longrightarrow> abs_step\<^sup>*\<^sup>* (abs_of s) (abs_of s')"
proof (induction rule: rtranclp_induct)
  case (step y z)
  then have "inv y" using steps_inv by blast
  with step show ?case by (blast intro: rtranclp_trans step_sim)
qed simp

lemma steps_abs_inv:
  "step\<^sup>*\<^sup>* s s' \<Longrightarrow> inv s \<Longrightarrow> (\<And>a b. abs_step a b \<Longrightarrow> R a b) \<Longrightarrow> (\<And>a b c. R a b \<Longrightarrow> R b c \<Longrightarrow> R a c) \<Longrightarrow> (\<And>a. R a a) \<Longrightarrow>
   R (abs_of s) (abs_of s')"
proof -
  assume run: "step\<^sup>*\<^sup>* s s'" "inv s" and R: "\<And>a b. abs_step a b \<Longrightarrow> R a b" "\<And>a b c. R a b \<Longrightarrow> R b c \<Longrightarrow> R a c" "\<And>a. R a a"
  from steps_sim [OF run] show ?thesis
    by (induction rule: rtranclp_induct) (blast intro: R)+
qed

end

interpretation jobs_system: simulation jobs_wf "system_step clib alib" jobs_wf lives life_step for clib alib
proof
  show "jobs_wf d \<Longrightarrow> jobs_wf d" for d .
  show "jobs_wf d \<Longrightarrow> system_step clib alib d d' \<Longrightarrow> jobs_wf d'" for d d'
    by (rule system_step_wf)
  show "jobs_wf d \<Longrightarrow> system_step clib alib d d' \<Longrightarrow> life_step\<^sup>*\<^sup>* (lives d) (lives d')" for d d'
    using system_step_cases [of clib alib d d'] evo_steps [of d d'] unfolding purge_def by blast
qed

section \<open>What the system promises\<close>

text \<open>A run in which the job \<open>i\<close> stays in the live table.\<close>

definition stays :: "('loc, 'sched) cron_lib \<Rightarrow> api_lib \<Rightarrow> uuid \<Rightarrow> db \<Rightarrow> db \<Rightarrow> bool" where
  "stays clib alib i d d' \<longleftrightarrow> system_step clib alib d d' \<and> job_of d' i \<noteq> None"

lemma stays_grow:
  assumes "stays clib alib i d d'" and "jobs_wf d"
  shows "grow\<^sup>*\<^sup>* (lives d i) (lives d' i)"
proof -
  have "lives d' i \<noteq> None" using assms(1) by (simp add: stays_def lives_def)
  moreover have "evo d d' \<or> purge d d'" using assms(1) by (intro system_step_cases [of clib alib]) (simp add: stays_def)
  moreover have "lives d' i = lives d i" if "purge d d'" "lives d' i \<noteq> None"
    using that assms(2) unfolding purge_def by metis
  ultimately show ?thesis using assms(2) by (elim disjE) (simp_all add: evo_def)
qed

lemma stays_run:
  assumes "(stays clib alib i)\<^sup>*\<^sup>* d d'" and "jobs_wf d"
  shows "jobs_wf d' \<and> grow\<^sup>*\<^sup>* (lives d i) (lives d' i)"
  using assms(1)
proof (induction rule: rtranclp_induct)
  case base
  then show ?case using assms(2) by simp
next
  case (step y z)
  then have "jobs_wf z" by (auto simp: stays_def intro: system_step_wf)
  with step stays_grow [of clib alib i y z] show ?case by (auto intro: rtranclp_trans)
qed

text \<open>
  C1. A token has one owner. Take any interleaving of transactions of any number of workers, schedulers and API
  servers during which the job stays in the live table. Its fence never goes down and its status moves only
  along legal edges; and as long as the fence is the one a worker was given, a job that is claimed or running
  was so all along for the same worker, and never falls back from running to claimed. So no two workers ever
  hold the same job under the same fence.
\<close>

theorem token_has_one_owner:
  assumes "jobs_wf d" and "(stays clib alib i)\<^sup>*\<^sup>* d d'" and "job_of d i = Some j" and "job_of d' i = Some j'"
  shows "j_fence j \<le> j_fence j' \<and> reaches (j_status j) (j_status j') \<and>
    (j_fence j' = j_fence j \<and> active (j_status j') \<longrightarrow>
       active (j_status j) \<and> j_worker_id j' = j_worker_id j \<and> (j_status j = Running \<longrightarrow> j_status j' = Running))"
proof -
  have "same_token (lives d i) (lives d' i)" using stays_run [OF assms(2,1)] by (blast intro: grow_same_token)
  then show ?thesis using assms(3,4) by (auto simp: same_token_def lives_def life_of_def)
qed

text \<open>
  C2. The system implements the abstract life of a job: in every run of the whole system, from any well-formed
  state, the (status, fence, owner, queue) of all jobs moves by steps of the abstract machine only. In particular
  fences rise exactly at claims and snoozes, jobs appear only as scheduled or queued with fence zero, never change
  their queue, and disappear only when terminal or together with all other jobs of their queue.
\<close>

theorem system_refines_lifecycle:
  assumes "jobs_wf d" and "(system_step clib alib)\<^sup>*\<^sup>* d d'"
  shows "life_step\<^sup>*\<^sup>* (lives d) (lives d')"
  using jobs_system.steps_sim [OF assms(2,1)] .


lemma sample_step:
  obtains res d1 where "submitJob plain_api False 20 keyed_request sample_scope sample_now sample_db = Inr (res, d1)"
    "system_step clib plain_api sample_db d1"
  using sample_first_submit system_step.tx [OF job_tx.submit] by metis

lemma sample_wf: "jobs_wf sample_db"
  using tables_wfD(1) [OF sample_tables_wf] .

lemma sample_running_owner: "j_worker_id sample_running = Some 5"
  by (simp add: sample_running_def)

theorem token_has_one_owner_witness:
  "\<exists>res d1 j'. submitJob plain_api False 20 keyed_request sample_scope sample_now sample_db = Inr (res, d1) \<and>
    job_of d1 11 = Some j' \<and> 1 \<le> j_fence j' \<and> (j_fence j' = 1 \<and> active (j_status j') \<longrightarrow> j_worker_id j' = Some 5)"
proof -
  obtain res d1 where run: "submitJob plain_api False 20 keyed_request sample_scope sample_now sample_db = Inr (res, d1)"
    and st: "system_step (undefined :: (unit, unit) cron_lib) plain_api sample_db d1" by (rule sample_step)
  have "same_token (lives sample_db 11) (lives d1 11)"
    using assuresD [OF evolving_submitJob run] sample_wf by (auto simp: evo_def intro: grow_same_token)
  then obtain j' where j': "job_of d1 11 = Some j'" using sample_running_row(1) by (auto simp: same_token_def lives_def life_of_def)
  with st have "(stays (undefined :: (unit, unit) cron_lib) plain_api 11)\<^sup>*\<^sup>* sample_db d1" by (auto simp: stays_def)
  from token_has_one_owner [OF sample_wf this sample_running_row(1) j'] run j' show ?thesis
    by (auto simp: sample_running_row(7) sample_running_owner)
qed

theorem system_refines_lifecycle_witness:
  "\<exists>res d1. submitJob plain_api False 20 keyed_request sample_scope sample_now sample_db = Inr (res, d1) \<and>
    life_step\<^sup>*\<^sup>* (lives sample_db) (lives d1)"
proof -
  obtain res d1 where run: "submitJob plain_api False 20 keyed_request sample_scope sample_now sample_db = Inr (res, d1)"
    and st: "system_step (undefined :: (unit, unit) cron_lib) plain_api sample_db d1" by (rule sample_step)
  from system_refines_lifecycle [OF sample_wf r_into_rtranclp [of "system_step undefined plain_api", OF st]] run show ?thesis by blast
qed


end
