(* ===== verification/Invariants.thy ===== *)
theory Invariants
  imports System
begin

text \<open>
  \<open>CheckInvariants\<close> of \<open>src/internal/testdb/fixtures.go\<close>, the checks the test suites run on a database after every
  scenario, and why they pass: no interleaving of transactions leaves a job with two open executions or a
  running job without a lease. Behind it is the invariant the reaper depends on: the leases are exactly the
  claimed and running jobs, each with the fence and the worker of its job.
\<close>

section \<open>The checks\<close>

definition doubleOpen :: "db \<Rightarrow> nat" where
  "doubleOpen d = (let xs = map x_job_id (filter is_open (job_executions d))
     in length (filter (\<lambda>i. 1 < count_where (\<lambda>k. k = i) xs) (remdups xs)))"

definition runningNoLease :: "db \<Rightarrow> nat" where
  "runningNoLease d = count_where (\<lambda>j. j_status j = Running \<and> \<not> (\<exists>l \<in> set (job_leases d). l_job_id l = j_id j)) (jobs d)"

definition drift :: "db \<Rightarrow> nat" where
  "drift d = count_where (drifted d) (queue_shards d)"

definition summed :: "db \<Rightarrow> nat" where
  "summed d = sum_list (map (\<lambda>s. count_where (\<lambda>j. j_status j = s) (jobs d)) (remdups (map j_status (jobs d))))"

datatype complaint = Two_open nat | No_lease nat | Drift nat | Counts nat nat

definition CheckInvariants :: "db \<Rightarrow> complaint list" where
  "CheckInvariants d =
     (if doubleOpen d \<noteq> 0 then [Two_open (doubleOpen d)] else []) @
     (if runningNoLease d \<noteq> 0 then [No_lease (runningNoLease d)] else []) @
     (if drift d \<noteq> 0 then [Drift (drift d)] else []) @
     (if length (jobs d) \<noteq> summed d then [Counts (summed d) (length (jobs d))] else [])"

section \<open>Who holds a job\<close>

text \<open>
  What a claimed or running job occupies: its fence and worker, which its lease repeats, and its queue and shard, where
  it takes a slot.
\<close>

definition held :: "job \<Rightarrow> (nat \<times> uuid option \<times> uuid \<times> int) option" where
  "held j = (if active (j_status j) then Some (j_fence j, j_worker_id j, j_queue_id j, j_shard j) else None)"

definition seat :: "db \<Rightarrow> uuid \<Rightarrow> (nat \<times> uuid option \<times> uuid \<times> int) option" where
  "seat d i = (case job_of d i of None \<Rightarrow> None | Some j \<Rightarrow> held j)"

definition holder :: "(nat \<times> uuid option \<times> uuid \<times> int) option \<Rightarrow> (nat \<times> uuid option) option" where
  "holder x = map_option (\<lambda>(f, w, q, s). (f, w)) x"

definition lease_view :: "db \<Rightarrow> uuid \<Rightarrow> (nat \<times> uuid option) option" where
  "lease_view d i = map_option (\<lambda>l. (l_fence l, Some (l_worker_id l))) (lease_of d i)"

definition leased :: "db \<Rightarrow> bool" where
  "leased d \<longleftrightarrow> distinct (map l_job_id (job_leases d)) \<and> (\<forall>i. lease_view d i = holder (seat d i))"

definition opens :: "db \<Rightarrow> uuid list" where
  "opens d = map x_job_id (filter is_open (job_executions d))"

definition sound :: "db \<Rightarrow> bool" where
  "sound d \<longleftrightarrow> jobs_wf d \<and> leased d \<and> distinct (opens d)"

lemma held_None_iff [simp]: "held j = None \<longleftrightarrow> \<not> active (j_status j)"
  by (simp add: held_def)

lemma holder_None [simp]: "holder None = None" "holder x = None \<longleftrightarrow> x = None"
  by (simp_all add: holder_def)

section \<open>Transactions that leave the holders alone\<close>

definition idle :: "db \<Rightarrow> db \<Rightarrow> bool" where
  "idle d d' \<longleftrightarrow> (jobs_wf d \<longrightarrow> jobs_wf d' \<and> (\<forall>i. seat d' i = seat d i) \<and> job_leases d' = job_leases d \<and> job_executions d' = job_executions d \<and>
     queue_shards d' = queue_shards d)"

lemma idle_same: "jobs d' = jobs d \<Longrightarrow> job_leases d' = job_leases d \<Longrightarrow> job_executions d' = job_executions d \<Longrightarrow>
    queue_shards d' = queue_shards d \<Longrightarrow> idle d d'"
  by (simp add: idle_def seat_def jobs_wf_def)

lemma idle_trans: "idle a b \<Longrightarrow> idle b c \<Longrightarrow> idle a c"
  by (simp add: idle_def)

lemma idle_plain: "idle d d' \<Longrightarrow> jobs e = jobs d' \<Longrightarrow> job_leases e = job_leases d' \<Longrightarrow> job_executions e = job_executions d' \<Longrightarrow>
    queue_shards e = queue_shards d' \<Longrightarrow> idle d e"
  by (blast intro: idle_trans idle_same)

interpretation idling: tx_guarantee idle
proof
  show "idle d d" for d by (simp add: idle_same)
  show "idle a b \<Longrightarrow> idle b c \<Longrightarrow> idle a c" for a b c by (rule idle_trans)
  show "idle d (emit topic entity project payload now d)" for d topic entity project payload now by (simp add: idle_same)
qed

text \<open>What an update does to the holders.\<close>

lemma hold_update:
  assumes "update_jobs P f d = Inr d'" and "\<And>j. j_id (f j) = j_id j"
  shows "seat d' i = (case job_of d i of None \<Rightarrow> None | Some j \<Rightarrow> held (if P j then f j else j))"
    and "job_leases d' = job_leases d" and "job_executions d' = job_executions d" and "queue_shards d' = queue_shards d"
  using assms by (auto simp: update_jobs_Inr_iff seat_def job_of_update split: option.split)

lemma idle_update:
  assumes run: "update_jobs P f d = Inr d'" and id: "\<And>j. j_id (f j) = j_id j"
    and keep: "\<And>j. jobs_wf d \<Longrightarrow> j \<in> set (jobs d) \<Longrightarrow> P j \<Longrightarrow> write_ok j (f j) \<Longrightarrow> held (f j) = held j"
  shows "idle d d'"
  unfolding idle_def
proof (intro impI conjI allI)
  assume wf: "jobs_wf d"
  show "jobs_wf d'" using update_jobs_wf [OF wf run id] .
  show "job_leases d' = job_leases d" "job_executions d' = job_executions d" "queue_shards d' = queue_shards d"
    using hold_update(2-4) [OF run id] by auto
  fix i
  have ok: "\<forall>j \<in> set (jobs d). P j \<longrightarrow> write_ok j (f j)" using run by (simp add: update_jobs_Inr_iff)
  show "seat d' i = seat d i"
  proof (cases "job_of d i")
    case (Some j)
    then have "j \<in> set (jobs d)" using jobs_wfD(3) [OF wf] by blast
    with Some ok keep [OF wf] show ?thesis unfolding hold_update(1) [OF run id] by (auto simp: seat_def)
  next
    case None
    then show ?thesis unfolding hold_update(1) [OF run id] by (simp add: seat_def)
  qed
qed

lemma idle_insert:
  assumes run: "insert_job j d = Inr d'" and st: "\<not> active (j_status j)"
  shows "idle d d'"
  unfolding idle_def
proof (intro impI)
  assume wf: "jobs_wf d"
  from run have ck: "check_job j" "j_id j \<notin> j_id ` set (jobs d)" and d': "d' = d\<lparr>jobs := jobs d @ [j]\<rparr>"
    by (auto simp: insert_job_def split: if_split_asm)
  have "job_of d (j_id j) = None" using ck(2) unfolding lookup_row_None_iff by (metis imageI)
  then have "seat d' i = seat d i" for i
    using st lookup_row_other [of i j_id j "jobs d"]
    by (cases "i = j_id j") (simp_all add: d' seat_def lookup_row_append)
  then show "jobs_wf d' \<and> (\<forall>i. seat d' i = seat d i) \<and> job_leases d' = job_leases d \<and> job_executions d' = job_executions d \<and>
      queue_shards d' = queue_shards d"
    using jobs_wf_insert [OF wf ck] d' by simp
qed

text \<open>Only a claim makes a job active, so a statement that does not claim and finds the job inactive leaves it so.\<close>

lemma held_inactive:
  "write_ok j j' \<Longrightarrow> j_status j' \<noteq> Claimed \<Longrightarrow> \<not> active (j_status j) \<Longrightarrow> held j' = held j"
  by (cases "j_status j'"; cases "j_status j") (simp_all add: write_ok_def held_def active_def)

lemma idle_finish_dependents [tx_rules]: "assures idle (finish_dependents p now)"
proof (rule assuresI)
  fix d r d' assume "finish_dependents p now d = Inr (r, d')"
  then have "update_jobs (waits_on p d) (finish_row now) d = Inr d'" by (auto simp: finish_dependents_def result_simps)
  then show "idle d d'"
    by (rule idle_update) (auto simp: finish_row_def waits_on_def held_def)
qed

lemma idle_cancel_descendants: "assures idle (cancel_descendants p now)"
proof (rule assuresI)
  fix d r d' assume "cancel_descendants p now d = Inr (r, d')"
  then have "update_jobs (cancellable_below p d) (cancel_row now) d = Inr d'" by (auto simp: cancel_descendants_def result_simps)
  then show "idle d d'" by (rule idle_update) (auto simp: cancel_row_def cancellable_below_def held_def)
qed

lemma idle_finish_all: "assures idle (finish_all is now)"
proof (induction "is")
  case (Cons i "is")
  show ?case
    by (rule assuresI) (auto simp: result_simps split: prod.split_asm
      intro: idle_trans [OF assuresD [OF idle_finish_dependents] assuresD [OF Cons.IH]])
qed (auto intro!: assuresI idle_same)

lemma idle_promote: "assures idle (promote_tx limit locked now)"
proof (rule assuresI)
  fix d r d' assume "promote_tx limit locked now d = Inr (r, d')"
  then consider "d' = d" | d1 where "update_jobs (\<lambda>j. j_id j \<in> set (promote_select limit locked now d)) promote_row d = Inr d1"
      "jobs d' = jobs d1" "job_leases d' = job_leases d1" "job_executions d' = job_executions d1" "queue_shards d' = queue_shards d1"
    by (auto simp: promote_tx_def promote_update_def result_simps Let_def split: if_split_asm)
  then show "idle d d'"
  proof cases
    case (2 d1)
    have "idle d d1"
    proof (rule idle_update [OF 2(1)])
      fix j assume wf: "jobs_wf d" and j: "j \<in> set (jobs d)" "j_id j \<in> set (promote_select limit locked now d)"
      then obtain k where k: "k \<in> set (jobs d)" "promotable locked now k" "j_id k = j_id j"
        by (auto simp: promote_select_def dest!: subsetD [OF set_order_limit])
      then have "promotable locked now j" using jobs_wfD(4) [OF wf k(1) j(1)] by simp
      then show "held (promote_row j) = held j" by (auto simp: promote_row_def promotable_def held_def)
    qed (simp add: promote_row_def)
    then show ?thesis using 2(2-5) by (rule idle_plain)
  qed (simp add: idle_same)
qed

lemma idle_age: "assures idle (age_sql olderThan ceil limit now)"
proof (rule assuresI)
  fix d r d' assume "age_sql olderThan ceil limit now d = Inr (r, d')"
  then have "update_jobs (\<lambda>j. j_id j \<in> set (map j_id (take limit (filter (ageable olderThan ceil now) (jobs d))))) age_row d = Inr d'"
    by (auto simp: age_sql_def result_simps Let_def)
  then show "idle d d'" by (rule idle_update) (auto simp: age_row_def held_def)
qed

lemma idle_insert_scheduled: "assures idle (insert_scheduled i du t now)"
  by (rule assuresI) (auto simp: insert_scheduled_def result_simps scheduled_job_def new_job_def split: if_split_asm
    intro: idle_same idle_insert)

lemma idle_settle [simp]: "idle d (settle now i du t nt fired ov n d)" "idle d (disableSchedule now i p d)"
  by (rule idle_same; simp add: settle_def advance_schedule_def disableSchedule_def Let_def)+

lemma idle_materialize_one: "assures idle (materialize_one lib now i du)"
proof (rule assuresI)
  fix d r d' assume "materialize_one lib now i du d = Inr (r, d')"
  then consider "idle d d'" | t fired d1 where "insert_scheduled i du t now d = Inr (fired, d1)" "idle d1 d'"
    by (auto simp: materialize_one_def Let_def result_simps split: option.split_asm if_split_asm)
  then show "idle d d'"
    by cases (auto intro: idle_trans dest: assuresD [OF idle_insert_scheduled])
qed

lemma idle_materialize_loop: "assures idle (materialize_loop lib now ids k dus n)"
proof (induction dus arbitrary: k n)
  case (Cons du dus)
  show ?case
    by (rule assuresI) (auto simp: result_simps intro: idle_trans [OF assuresD [OF idle_materialize_one] assuresD [OF Cons.IH]])
qed (auto intro!: assuresI idle_same)

lemma idle_materialize: "assures idle (materialize_tx lib ids limit locked now)"
  using assuresD [OF idle_materialize_loop] by (auto simp: materialize_tx_def intro!: assuresI)

lemma idle_delete_schedules [tx_rules]: "assures idle (\<lambda>d. rbind (delete_schedules P d) (\<lambda>d1. Inr ((), d1)))"
proof (rule assuresI)
  fix d r d' assume "rbind (delete_schedules P d) (\<lambda>d1. Inr ((), d1)) = Inr (r, d')"
  then obtain d1 where u: "update_jobs (\<lambda>j. \<exists>s \<in> sc_id ` {s \<in> set (schedules d). P s}. j_schedule_id j = Some s) (\<lambda>j. j\<lparr>j_schedule_id := None\<rparr>) d = Inr d1"
    and js: "jobs d' = jobs d1" "job_leases d' = job_leases d1" "job_executions d' = job_executions d1" "queue_shards d' = queue_shards d1"
    by (auto simp: delete_schedules_def Let_def result_simps)
  have "idle d d1" by (rule idle_update [OF u]) (simp_all add: held_def)
  then show "idle d d'" using js by (rule idle_plain)
qed

lemma idle_deleteSchedule: "assures idle (deleteSchedule r sc now)"
  unfolding deleteSchedule_def by (intro tx_rules)

lemma new_inactive: "j_status j \<in> {Scheduled, Queued} \<Longrightarrow> \<not> active (j_status j)"
  by auto

lemma idle_insert_submitted: "j_status j \<in> {Scheduled, Queued} \<Longrightarrow> assures idle (insert_submitted j)"
  by (auto simp: insert_submitted_def result_simps intro!: assuresI idle_insert)

lemma idle_submit_sql [tx_rules]:
  "assures idle (insert_submitted (submitted_job i q p t pl pr ra to po pe now))" "assures idle (queue_defaults q)" "assures idle (queued_count q)"
  "assures idle (find_idem q key now)" "assures idle (delete_idem q key)" "assures idle (insert_idem race q key i fp now)"
  "assures idle (pending_parents ps p)" "assures idle (cycle_sql i)" "assures idle (cancelled_kin i)"
  "assures idle (mark_replayed A u now)"
  by (rule idle_insert_submitted [OF submitted_job_new(1)])
     (auto simp: queue_defaults_def queued_count_def find_idem_def delete_idem_def insert_idem_def pending_parents_def
        cycle_sql_def cancelled_kin_def mark_replayed_def reads_def result_simps intro!: assuresI idle_same split: if_split_asm)

lemma idle_insert_deps [tx_rules]: "assures idle (insert_deps i ps)"
proof (rule assuresI)
  fix d r d' assume run: "insert_deps i ps d = Inr (r, d')"
  then show "idle d d'"
    unfolding insert_deps_def rbind_eq_Inr by (elim exE conjE, split if_split_asm) (auto intro: idle_same)
qed

lemma idle_parentIDs [tx_rules]: "assures idle (parentIDs lib ps)"
proof (induction ps)
  case (Cons p ps)
  then show ?case by (auto intro!: tx_rules split: option.split)
qed (simp only: parentIDs.simps idling.assures_aret)

lemma idle_parts [tx_rules]:
  "assures idle (assertPolicyOwned i p)" "assures idle (loadSubmitView i)" "assures idle (link i ps)"
  unfolding assertPolicyOwned_def loadSubmitView_def link_def by (intro tx_rules)+

lemma idle_choices [tx_rules]: "assures idle (choose_policy lib req p proj)" "assures idle (check_idem fp q key now)"
  unfolding choose_policy_def check_idem_def by (intro tx_rules)+

lemma idle_submit_new [tx_rules]: "assures idle (submit_new lib race i key fp typ payload priority timeout policy req sc now)"
  unfolding submit_new_def Let_def by (intro tx_rules)

lemma idle_submitJob: "assures idle (submitJob lib race i r sc now)"
  unfolding submitJob_def Let_def by (intro tx_rules)

lemma idle_insert_all: "\<forall>j \<in> set js. \<not> active (j_status j) \<Longrightarrow> foldr_result insert_job js d = Inr d' \<Longrightarrow> idle d d'"
proof (induction js arbitrary: d)
  case (Cons j js)
  then obtain d1 where i: "insert_job j d = Inr d1" "foldr_result insert_job js d1 = Inr d'" by (auto simp: result_simps)
  have "idle d d1" using Cons.prems(1) by (intro idle_insert [OF i(1)]) auto
  moreover have "idle d1 d'" using Cons.prems(1) by (intro Cons.IH [OF _ i(2)]) auto
  ultimately show ?case by (rule idle_trans)
qed (simp add: idle_same)

lemma idle_insert_batch [tx_rules]:
  "assures idle (insert_batch (map (\<lambda>(n, s). batch_job q p pol b pr now (newid n) s) xs))"
proof (rule assuresI)
  let ?js = "map (\<lambda>(n, s). batch_job q p pol b pr now (newid n) s) xs"
  fix d r d' assume "insert_batch ?js d = Inr (r, d')"
  then have "foldr_result insert_job ?js d = Inr d'" by (auto simp: insert_batch_def result_simps)
  moreover have "\<forall>j \<in> set ?js. \<not> active (j_status j)" by (auto simp: batch_job_def new_job_def Let_def split: if_splits)
  ultimately show "idle d d'" by (blast intro: idle_insert_all)
qed

lemma idle_check_batch [tx_rules]: "assures idle (check_batch lib ss)"
  by (induction ss) (auto simp only: check_batch.simps intro!: tx_rules)

lemma idle_submitBatch: "assures idle (submitBatch lib b newid r sc now)"
  unfolding submitBatch_def by (intro tx_rules)

lemma idle_retry_sql [tx_rules]: "assures idle (retry_sql i now)"
proof (rule assuresI)
  fix d r d' assume "retry_sql i now d = Inr (r, d')"
  then consider "d' = d" | "update_jobs (retriable i) (\<lambda>j. j\<lparr>j_status := Queued, j_run_at := now\<rparr>) d = Inr d'"
    by (auto simp: retry_sql_def result_simps split: option.split_asm)
  then show "idle d d'" by cases (auto simp: retriable_def held_def intro: idle_same elim!: idle_update)
qed

lemma idle_retryJob: "assures idle (retryJob r sc now)"
  unfolding retryJob_def by (intro tx_rules)

lemma idle_replay_sql [tx_rules]: "assures idle (replay_sql i now)"
proof (rule assuresI)
  fix d r d' assume "replay_sql i now d = Inr (r, d')"
  then consider "d' = d" | "update_jobs (is_dead i) (replay_row now) d = Inr d'"
    by (auto simp: replay_sql_def result_simps split: option.split_asm)
  then show "idle d d'" by cases (auto simp: is_dead_def held_def intro: idle_same elim!: idle_update)
qed

lemma idle_replayJob: "assures idle (replayJob lib r sc now)"
  unfolding replayJob_def by (intro tx_rules)

lemma idle_replay_dead [tx_rules]: "assures idle (replay_dead q cap rate actor now)"
proof (rule assuresI)
  fix d r d' assume run: "replay_dead q cap rate actor now d = Inr (r, d')"
  show "idle d d'"
  proof (cases "queue_of d q")
    case None
    with run show ?thesis by (simp add: replay_dead_def idle_same)
  next
    case (Some qr)
    define rows where "rows = order_limit d_dead_at (nat (replay_room q cap qr d)) (filter (replayable q d) (dead_letter_jobs d))"
    show ?thesis
    proof (cases "replay_room q cap qr d \<le> 0 \<or> rows = []")
      case True
      with run Some show ?thesis by (simp add: replay_dead_def Let_def rows_def [symmetric] idle_same)
    next
      case False
      with run Some obtain d1 where
        u: "update_jobs (\<lambda>j. j_id j \<in> set (map d_job_id rows) \<and> j_status j = Dead_letter) (\<lambda>j. replay_row (replay_at (map d_job_id rows) rate now (j_id j)) j) d = Inr d1"
        and js: "jobs d' = jobs d1" "job_leases d' = job_leases d1" "job_executions d' = job_executions d1" "queue_shards d' = queue_shards d1"
        by (auto simp: replay_dead_def Let_def rows_def [symmetric] result_simps mark_replayed_def split: if_split_asm)
      have "idle d d1" by (rule idle_update [OF u]) (auto simp: held_def)
      then show ?thesis using js by (rule idle_plain)
    qed
  qed
qed

lemma idle_replayQueue: "assures idle (replayQueue r sc now)"
  unfolding replayQueue_def Let_def by (intro tx_rules)

section \<open>Giving a job up\<close>

definition keeps_sound :: "db \<Rightarrow> db \<Rightarrow> bool" where
  "keeps_sound d d' \<longleftrightarrow> (sound d \<longrightarrow> sound d')"

lemma sound_same:
  "jobs d' = jobs d \<Longrightarrow> job_leases d' = job_leases d \<Longrightarrow> distinct (opens d) \<longrightarrow> distinct (opens d') \<Longrightarrow> keeps_sound d d'"
  by (simp add: keeps_sound_def sound_def leased_def lease_view_def seat_def jobs_wf_def)

lemma idle_sound: "idle d d' \<Longrightarrow> keeps_sound d d'"
  by (simp add: idle_def keeps_sound_def sound_def leased_def lease_view_def opens_def)

interpretation soundness: tx_guarantee keeps_sound
proof
  show "keeps_sound d d" for d by (simp add: keeps_sound_def)
  show "keeps_sound a b \<Longrightarrow> keeps_sound b c \<Longrightarrow> keeps_sound a c" for a b c by (simp add: keeps_sound_def)
  show "keeps_sound d (emit topic entity project payload now d)" for d topic entity project payload now by (simp add: idle_sound idle_same)
qed

lemma assures_sound: "assures idle t \<Longrightarrow> assures keeps_sound t"
  by (auto intro!: assuresI dest: assuresD intro: idle_sound)

lemma lookup_delete_keys: "lookup_row k i (delete_where (\<lambda>r. k r \<in> A) rs) = (if i \<in> A then None else lookup_row k i rs)"
  by (induction rs) auto

lemma opens_closed:
  assumes "update_execs P f d = Inr d'" and "\<And>x. \<not> is_open (f x)"
  shows "distinct (opens d) \<Longrightarrow> distinct (opens d')" "jobs d' = jobs d" "job_leases d' = job_leases d" "queue_shards d' = queue_shards d"
proof -
  have xs: "job_executions d' = update_where P f (job_executions d)" and rest: "jobs d' = jobs d" "job_leases d' = job_leases d" "queue_shards d' = queue_shards d"
    using assms(1) by (auto simp: update_execs_Inr_iff)
  have "filter is_open (update_where P f xs) = filter (\<lambda>x. \<not> P x) (filter is_open xs)" for xs
    using assms(2) by (induction xs) auto
  then show "distinct (opens d')" if "distinct (opens d)"
    using that distinct_map_filter [of x_job_id "filter is_open (job_executions d)" "\<lambda>x. \<not> P x"] by (simp only: opens_def xs)
  show "jobs d' = jobs d" "job_leases d' = job_leases d" "queue_shards d' = queue_shards d" using rest by auto
qed

text \<open>
  Jobs that stop being held together with the leases on them: the rows the statement matches are those of the ids
  \<open>A\<close>, what happens to jobs afterwards does not touch holders, and the leases of \<open>A\<close> go.
\<close>

lemma sound_released:
  assumes sound: "sound d" and u: "update_jobs P f d = Inr d1" and id: "\<And>j. j_id (f j) = j_id j" and off: "\<And>j. \<not> active (j_status (f j))"
    and A: "\<And>j. j \<in> set (jobs d) \<Longrightarrow> P j \<longleftrightarrow> j_id j \<in> A" and after: "jobs_wf d'" "\<And>i. seat d' i = seat d1 i"
    and ls: "job_leases d' = delete_where (\<lambda>l. l_job_id l \<in> A) (job_leases d)" and xs: "distinct (opens d')"
  shows "sound d'"
proof -
  have wf: "jobs_wf d" and l: "distinct (map l_job_id (job_leases d))" "\<And>i. lease_view d i = holder (seat d i)"
    using sound by (auto simp: sound_def leased_def)
  have "lease_view d' i = holder (seat d' i)" for i
  proof (cases "job_of d i")
    case None
    then have "seat d' i = None" "seat d i = None"
      using after(2) [of i] unfolding hold_update(1) [OF u id] by (simp_all add: seat_def)
    then show ?thesis using l(2) [of i] by (simp add: lease_view_def ls lookup_delete_keys)
  next
    case (Some j)
    then have j: "j \<in> set (jobs d)" "j_id j = i" using jobs_wfD(3) [OF wf] by auto
    have "seat d' i = (if i \<in> A then None else seat d i)"
      using after(2) [of i] A [OF j(1)] j(2) Some off unfolding hold_update(1) [OF u id] by (simp add: seat_def)
    then show ?thesis using l(2) [of i] by (simp add: lease_view_def ls lookup_delete_keys)
  qed
  then show ?thesis using after(1) xs l(1) by (simp add: sound_def leased_def ls distinct_delete_where)
qed

section \<open>The transactions that change a holder\<close>

text \<open>What happens beside it: holders and leases stay, open executions are only closed.\<close>

definition closing :: "db \<Rightarrow> db \<Rightarrow> bool" where
  "closing d d' \<longleftrightarrow> (jobs_wf d \<longrightarrow> jobs_wf d' \<and> (\<forall>i. seat d' i = seat d i) \<and> job_leases d' = job_leases d \<and>
     (distinct (opens d) \<longrightarrow> distinct (opens d')) \<and> queue_shards d' = queue_shards d)"

lemma closing_trans: "closing a b \<Longrightarrow> closing b c \<Longrightarrow> closing a c"
  by (simp add: closing_def)

lemma closing_idle: "idle d d' \<Longrightarrow> closing d d'"
  by (simp add: idle_def closing_def opens_def)

lemma closing_execs: "update_execs P f d = Inr d' \<Longrightarrow> (\<And>x. \<not> is_open (f x)) \<Longrightarrow> closing d d'"
  using opens_closed [of P f d d'] by (auto simp: closing_def jobs_wf_def seat_def)

lemma closed_rows [simp]: "\<not> is_open (close_plain oc now x)" "\<not> is_open (close_row oc cls msg now x)"
  by (simp_all add: close_plain_def close_row_def)

text \<open>
  Giving jobs up is what the reports and a cancel have in common: the rows that are given up stop being active, their
  leases go, their slots are released, and beside that only dependents move and executions are closed.
\<close>

definition slot_of :: "job \<Rightarrow> uuid \<times> int" where
  "slot_of j = (j_queue_id j, j_shard j)"

definition gives_up :: "db \<Rightarrow> db \<Rightarrow> bool" where
  "gives_up d d' \<longleftrightarrow> (\<exists>P f A d1 e.
     update_jobs P f d = Inr d1 \<and> (\<forall>j. j_id (f j) = j_id j \<and> j_queue_id (f j) = j_queue_id j \<and> \<not> active (j_status (f j))) \<and>
     (\<forall>j \<in> set (jobs d). (P j \<longleftrightarrow> j_id j \<in> A) \<and> (P j \<longrightarrow> active (j_status j))) \<and> closing d1 e \<and>
     jobs d' = jobs e \<and> job_executions d' = job_executions e \<and> job_leases d' = delete_where (\<lambda>l. l_job_id l \<in> A) (job_leases e) \<and>
     queue_shards d' = queue_shards (release_groups (map slot_of (filter P (jobs d))) e))"

definition letting_go :: "db \<Rightarrow> db \<Rightarrow> bool" where
  "letting_go d d' \<longleftrightarrow> (jobs_wf d \<longrightarrow> idle d d' \<or> gives_up d d')"

lemma letting_goI: "(jobs_wf d \<Longrightarrow> idle d d' \<or> gives_up d d') \<Longrightarrow> letting_go d d'"
  by (simp add: letting_go_def)

lemma release_one: "release_groups [(q, s)] d = queue_release q s 1 d"
  by (simp add: release_groups_def count_where_def)

text \<open>The row a report finds is the only one it matches.\<close>

lemma found_rows:
  assumes "jobs_wf d" and "find P (jobs d) = Some j" and "\<And>j. P j \<Longrightarrow> j_id j = i"
  shows "k \<in> set (jobs d) \<Longrightarrow> P k \<longleftrightarrow> j_id k \<in> {i}" and "filter P (jobs d) = [j]"
proof -
  have j: "j \<in> set (jobs d)" "P j" using assms(2) by (auto simp: find_Some_iff)
  have only: "k = j" if "k \<in> set (jobs d)" "j_id k = i" for k using that assms(3) [OF j(2)] jobs_wfD(4) [OF assms(1) that(1) j(1)] by simp
  then show "P k \<longleftrightarrow> j_id k \<in> {i}" if "k \<in> set (jobs d)" using that assms(3) j(2) by auto
  have dist: "distinct (filter P (jobs d))" using jobs_wfD(1) [OF assms(1)] by (simp add: distinct_map)
  have rows: "set (filter P (jobs d)) = {j}"
  proof
    show "{j} \<subseteq> set (filter P (jobs d))" using j by simp
    show "set (filter P (jobs d)) \<subseteq> {j}" using only assms(3) unfolding set_filter by blast
  qed
  then have "length (filter P (jobs d)) = 1" using distinct_card [OF dist] by simp
  then obtain x where "filter P (jobs d) = [x]" by (auto simp: length_Suc_conv)
  with rows show "filter P (jobs d) = [j]" by simp
qed

lemma gives_up_one:
  assumes "jobs_wf d" and "find P (jobs d) = Some j" and "\<And>j. P j \<Longrightarrow> j_id j = i \<and> active (j_status j)"
    and "update_jobs P f d = Inr d1" and "\<And>j. j_id (f j) = j_id j \<and> j_queue_id (f j) = j_queue_id j \<and> \<not> active (j_status (f j))"
    and "closing d1 e" and "jobs d' = jobs e" and "job_executions d' = job_executions e"
    and "job_leases d' = delete_where (\<lambda>l. l_job_id l = i) (job_leases e)"
    and "queue_shards d' = queue_shards (queue_release (j_queue_id j) (j_shard j) 1 e)"
  shows "gives_up d d'"
  unfolding gives_up_def
  by (rule exI [of _ P], rule exI [of _ f], rule exI [of _ "{i}"], rule exI [of _ d1], rule exI [of _ e])
     (use assms found_rows [OF assms(1,2), of i] in \<open>auto simp: slot_of_def release_one\<close>)

lemma sound_gives_up:
  assumes s: "sound d" and g: "gives_up d d'"
  shows "sound d'"
proof -
  from g obtain P f A d1 e where u: "update_jobs P f d = Inr d1" and f: "\<And>j. j_id (f j) = j_id j" "\<And>j. \<not> active (j_status (f j))"
    and A: "\<And>j. j \<in> set (jobs d) \<Longrightarrow> P j \<longleftrightarrow> j_id j \<in> A" and rest: "closing d1 e"
    and d': "jobs d' = jobs e" "job_executions d' = job_executions e" "job_leases d' = delete_where (\<lambda>l. l_job_id l \<in> A) (job_leases e)"
    unfolding gives_up_def by blast
  show ?thesis
  proof (rule sound_released [OF s u f A])
    have one: "jobs_wf d1" "job_leases d1 = job_leases d" "distinct (opens d1)"
      using s update_jobs_wf [OF _ u f(1)] hold_update(2,3) [OF u f(1)] by (auto simp: sound_def opens_def)
    with rest have e: "jobs_wf e" "\<And>i. seat e i = seat d1 i" "job_leases e = job_leases d" "distinct (opens e)"
      by (auto simp: closing_def)
    show "jobs_wf d'" "distinct (opens d')" using e(1,4) d'(1,2) by (simp_all add: jobs_wf_def opens_def)
    show "seat d' i = seat d1 i" for i using e(2) [of i] d'(1) by (simp add: seat_def)
    show "job_leases d' = delete_where (\<lambda>l. l_job_id l \<in> A) (job_leases d)" using d'(3) e(3) by simp
  qed
qed

lemma letting_go_sound: "letting_go d d' \<Longrightarrow> keeps_sound d d'"
  using idle_sound [of d d'] sound_gives_up [of d d'] by (auto simp: letting_go_def keeps_sound_def sound_def)

lemma success_lets_go: "assures letting_go (report_success exec now job fence)"
proof (rule assuresI, rule letting_goI)
  fix d r d' assume run: "report_success exec now job fence d = Inr (r, d')" and wf: "jobs_wf d"
  show "idle d d' \<or> gives_up d d'"
  proof (cases "find (reportable job fence) (jobs d)")
    case None
    with run show ?thesis by (simp add: report_success_def idle_same)
  next
    case (Some j)
    with run obtain d1 d2 woke d3 where u: "update_jobs (reportable job fence) (complete_row now) d = Inr d1"
      "update_execs (\<lambda>x. x_id x = exec \<and> is_open x) (close_plain X_success now) d1 = Inr d2"
      "finish_dependents job now d2 = Inr (woke, d3)" and d': "jobs d' = jobs d3" "job_executions d' = job_executions d3"
      "job_leases d' = delete_where (\<lambda>l. l_job_id l = job) (job_leases d3)"
      "queue_shards d' = queue_shards (queue_release (j_queue_id j) (j_shard j) 1 d3)"
      by (auto simp: report_success_def result_simps Let_def queue_release_def)
    have cl: "closing d1 d3"
      using closing_trans [OF closing_execs [OF u(2)] closing_idle [OF assuresD [OF idle_finish_dependents u(3)]]] by simp
    have "gives_up d d'"
      by (rule gives_up_one [OF wf Some _ u(1) _ cl d']) (simp_all add: complete_row_def reportable_def active_def)
    then show ?thesis ..
  qed
qed

lemma fold_frame: "(\<And>x d. g (f x d) = g d) \<Longrightarrow> g (fold f xs d) = g d"
  by (induction xs arbitrary: d) auto

lemma groups_frame [simp]:
  "job_leases (stats_groups xs now d) = job_leases d" "job_leases (release_groups ks d) = job_leases d"
  "job_executions (stats_groups xs now d) = job_executions d" "job_executions (release_groups ks d) = job_executions d"
  "queue_shards (stats_groups xs now d) = queue_shards d"
  unfolding stats_groups_def release_groups_def Let_def by (rule fold_frame; simp split: prod.split)+

lemma release_shards:
  "queue_shards a = queue_shards b \<Longrightarrow>
   queue_shards (fold (\<lambda>k. queue_release (fst k) (snd k) (g k)) ks a) = queue_shards (fold (\<lambda>k. queue_release (fst k) (snd k) (g k)) ks b)"
proof (induction ks arbitrary: a b)
  case (Cons k ks)
  have "queue_shards (queue_release (fst k) (snd k) (g k) a) = queue_shards (queue_release (fst k) (snd k) (g k) b)"
    using Cons.prems by (simp add: queue_release_def)
  then show ?case unfolding fold_simps by (rule Cons.IH)
qed simp

lemma release_groups_eq:
  "release_groups keys d = fold (\<lambda>k. queue_release (fst k) (snd k) (int (count_where (\<lambda>k'. k' = k) keys))) (sort (remdups keys)) d"
  by (simp add: release_groups_def case_prod_unfold)

lemma batch_lets_go: "assures letting_go (report_success_batch batch now)"
proof (rule assuresI, rule letting_goI)
  fix d r d' assume run: "report_success_batch batch now d = Inr (r, d')" and wf: "jobs_wf d"
  let ?found = "filter (in_batch batch) (jobs d)"
  show "idle d d' \<or> gives_up d d'"
  proof (cases "?found = []")
    case True
    with run show ?thesis by (simp add: report_success_batch_def idle_same)
  next
    case False
    with run obtain d1 woke d2 execs d3 d5 where u: "update_jobs (in_batch batch) (complete_row now) d = Inr d1"
      "finish_all (sort (map j_id ?found)) now d1 = Inr (woke, d2)"
      "update_execs (\<lambda>x. x_id x \<in> execs \<and> is_open x) (close_plain X_success now) d2 = Inr d3"
      and d': "jobs d' = jobs d3" "job_executions d' = job_executions d3"
      "job_leases d' = delete_where (\<lambda>l. l_job_id l \<in> set (map j_id ?found)) (job_leases d3)"
      "queue_shards d' = queue_shards (release_groups (map (\<lambda>j. (j_queue_id j, j_shard j)) ?found) d5)" "queue_shards d5 = queue_shards d3"
      by (auto simp: report_success_batch_def result_simps Let_def)
    have "closing d1 d3" using closing_trans [OF closing_idle [OF assuresD [OF idle_finish_all u(2)]] closing_execs [OF u(3)]] by simp
    moreover have "\<forall>j \<in> set (jobs d). (in_batch batch j \<longleftrightarrow> j_id j \<in> set (map j_id ?found)) \<and> (in_batch batch j \<longrightarrow> active (j_status j))"
      using jobs_wfD(4) [OF wf] in_batch_running by (auto simp: active_def)
    moreover have "queue_shards d' = queue_shards (release_groups (map slot_of ?found) d3)"
      unfolding d'(4) release_groups_eq slot_of_def [abs_def] by (rule release_shards [OF d'(5)])
    ultimately have "gives_up d d'"
      unfolding gives_up_def using u(1) d'(1-3)
      by (intro exI [of _ "in_batch batch"] exI [of _ "complete_row now"] exI [of _ "set (map j_id ?found)"] exI [of _ d1] exI [of _ d3])
         (simp add: complete_row_def)
    then show ?thesis ..
  qed
qed

lemma failure_lets_go: "assures letting_go (report_failure f jit now job fence)"
proof (rule assuresI, rule letting_goI)
  fix d r d' assume run: "report_failure f jit now job fence d = Inr (r, d')" and wf: "jobs_wf d"
  show "idle d d' \<or> gives_up d d'"
  proof (cases "\<exists>j rp. find (failable job fence d) (jobs d) = Some j \<and> policy_of d (j_retry_policy_id j) = Some rp")
    case False
    with run have "d' = d" by (auto simp: report_failure_def split: option.split_asm)
    then show ?thesis by (simp add: idle_same)
  next
    case True
    then obtain j rp where j: "find (failable job fence d) (jobs d) = Some j" "policy_of d (j_retry_policy_id j) = Some rp" by blast
    let ?dead = "exhausted (f_permanent f) rp j"
    from run j obtain d1 killed d2 d3 where u: "update_jobs (failable job fence d) (fail_row rp (f_permanent f) jit now) d = Inr d1"
      "(if ?dead then cancel_descendants job now d1 else Inr ([], d1)) = Inr (killed, d2)"
      "update_execs (\<lambda>x. x_job_id x = job \<and> is_open x) (close_row (f_outcome f) (f_class f) (f_message f) now) d2 = Inr d3"
      and d': "jobs d' = jobs d3" "job_executions d' = job_executions d3"
      "job_leases d' = delete_where (\<lambda>l. l_job_id l = job) (job_leases d3)"
      "queue_shards d' = queue_shards (queue_release (j_queue_id j) (j_shard j) 1 d3)"
      by (cases ?dead) (auto simp: report_failure_def result_simps Let_def queue_release_def)
    have "idle d1 d2" using u(2) by (cases ?dead) (auto dest: assuresD [OF idle_cancel_descendants] intro: idle_same)
    then have cl: "closing d1 d3" using closing_trans [OF closing_idle closing_execs [OF u(3)]] by simp
    have "gives_up d d'"
      by (rule gives_up_one [OF wf j(1) _ u(1) _ cl d']) (simp_all add: fail_row_def failable_def)
    then show ?thesis ..
  qed
qed

lemma snooze_lets_go: "assures letting_go (report_snooze exec delay now job fence)"
proof (rule assuresI, rule letting_goI)
  fix d r d' assume run: "report_snooze exec delay now job fence d = Inr (r, d')" and wf: "jobs_wf d"
  from run consider "d' = d" | j rp d1 d2 where "find (snoozable job fence d) (jobs d) = Some j"
      "update_jobs (snoozable job fence d) (snooze_row rp delay now) d = Inr d1"
      "update_execs (\<lambda>x. x_id x = exec \<and> is_open x) (close_plain X_snoozed now) d1 = Inr d2" "jobs d' = jobs d2"
      "job_executions d' = job_executions d2" "job_leases d' = delete_where (\<lambda>l. l_job_id l = job) (job_leases d2)"
      "queue_shards d' = queue_shards (queue_release (j_queue_id j) (j_shard j) 1 d2)"
    by (auto simp: report_snooze_def result_simps Let_def queue_release_def split: option.split_asm)
  then show "idle d d' \<or> gives_up d d'"
  proof cases
    case (2 j rp d1 d2)
    have cl: "closing d1 d2" using closing_execs [OF 2(3)] by simp
    have "gives_up d d'"
      by (rule gives_up_one [OF wf 2(1) _ 2(2) _ cl 2(4-7)]) (simp_all add: snooze_row_def snoozable_def active_def)
    then show ?thesis ..
  qed (simp add: idle_same)
qed

lemma sound_claim: "assures keeps_sound (take_jobs req sh n locked now)"
  unfolding keeps_sound_def
proof (rule assuresI, rule impI)
  fix d r d' assume run: "take_jobs req sh n locked now d = Inr (r, d')" and s: "sound d"
  then have wf: "jobs_wf d" and l: "distinct (map l_job_id (job_leases d))" "\<And>i. lease_view d i = holder (seat d i)" "distinct (opens d)"
    by (auto simp: sound_def leased_def)
  let ?cs = "cand req (nat n) locked now d" and ?f = "claim_row req sh now"
  let ?P = "\<lambda>j. j_id j \<in> j_id ` set ?cs"
  from run obtain d1 where u: "update_jobs ?P ?f d = Inr d1" and d': "jobs d' = jobs d1" "job_executions d' = job_executions d1"
    "job_leases d' = fold (\<lambda>j. upsert_lease (claim_lease req now j)) (map ?f ?cs) (job_leases d1)"
    by (auto simp: take_jobs_def claim_sql_def result_simps Let_def queue_release_def split: if_split_asm)
  have one: "jobs_wf d1" "job_leases d1 = job_leases d" "job_executions d1 = job_executions d"
    using update_jobs_wf [OF wf u] hold_update(2,3) [OF u] by simp_all
  have dist: "distinct (map j_id ?cs)" using distinct_cand jobs_wfD(1) [OF wf] by blast
  have "lease_view d' i = holder (seat d' i)" for i
  proof -
    have h: "seat d' i = (case job_of d i of None \<Rightarrow> None | Some j \<Rightarrow> held (if ?P j then ?f j else j))"
      using hold_update(1) [OF u, of i] d'(1) by (simp add: seat_def)
    have v: "lease_of d' i = (case lookup_row j_id i (map ?f ?cs) of None \<Rightarrow> lease_of d i
        | Some j \<Rightarrow> lookup_row l_job_id i (upsert_lease (claim_lease req now j) (job_leases d)))"
      unfolding d'(3) one(2) using dist by (intro lookup_claim_leases) (simp add: comp_def)
    show ?thesis
    proof (cases "i \<in> j_id ` set ?cs")
      case True
      then obtain j where j: "j \<in> set ?cs" "j_id j = i" by blast
      have "job_of d i = Some j" using jobs_wfD(3) [OF wf] cand_sub [OF j(1)] j(2) by simp
      then have "seat d' i = Some (Suc (j_fence j), Some (r_WorkerID req), j_queue_id j, sh)" using h True j(2) by (simp add: held_def active_def)
      moreover have "lookup_row j_id i (map ?f ?cs) = Some (?f j)" using j dist by (simp add: lookup_row_Some_iff comp_def)
      ultimately show ?thesis using v j(2) by (simp add: lease_view_def holder_def lookup_upsert_lease claim_lease_def split: option.split)
    next
      case False
      then have "lookup_row j_id i (map ?f ?cs) = None" unfolding lookup_row_None_iff by auto
      moreover have "seat d' i = seat d i" using h False
        by (cases "job_of d i") (auto simp: seat_def dest: lookup_row_SomeD)
      ultimately show ?thesis using v l(2) [of i] by (simp add: lease_view_def)
    qed
  qed
  moreover have "distinct (map l_job_id (job_leases d'))" unfolding d'(3) one(2) using l(1) by (rule keys_claim_leases)
  ultimately show "sound d'" using one(1,3) d'(1,2) l(3) by (simp add: sound_def leased_def jobs_wf_def opens_def)
qed

lemma sound_start: "assures keeps_sound (start_sql w xid now job fence)"
  unfolding keeps_sound_def
proof (rule assuresI, rule impI)
  fix d r d' assume run: "start_sql w xid now job fence d = Inr (r, d')" and s: "sound d"
  show "sound d'"
  proof (cases "find (startable job fence) (jobs d)")
    case None
    with run s show ?thesis by (simp add: start_sql_def)
  next
    case (Some j)
    let ?x = "start_exec xid w now (start_row now j)"
    from run Some obtain d1 where u: "update_jobs (startable job fence) (start_row now) d = Inr d1"
      and one: "\<forall>y \<in> set (job_executions d1). x_job_id y = x_job_id ?x \<longrightarrow> \<not> is_open y" and d': "d' = d1\<lparr>job_executions := job_executions d1 @ [?x]\<rparr>"
      by (auto simp: start_sql_def result_simps Let_def split: if_split_asm)
    from one have new: "x_job_id ?x \<notin> set (opens d1)" unfolding opens_def set_map set_filter by fastforce
    have "idle d d1" by (rule idle_update [OF u]) (auto simp: start_row_def startable_def held_def active_def)
    then have "sound d1" using s idle_sound by (auto simp: keeps_sound_def)
    moreover have "opens d' = opens d1 @ [x_job_id ?x]" by (simp add: d' opens_def start_exec_def)
    ultimately show ?thesis using new d' by (simp add: sound_def leased_def lease_view_def seat_def jobs_wf_def)
  qed
qed

lemma sound_extend: "assures keeps_sound (extend_sql lease progress now job fence)"
proof (rule assuresI)
  fix d r d' assume run: "extend_sql lease progress now job fence d = Inr (r, d')"
  show "keeps_sound d d'"
  proof (cases "find (reportable job fence) (jobs d)")
    case None
    with run show ?thesis by (simp add: extend_sql_def keeps_sound_def)
  next
    case (Some j)
    with run have d': "d' = d\<lparr>job_leases := update_where (\<lambda>l. l_job_id l = job) (extend_row lease progress now j) (job_leases d)\<rparr>"
      by (simp add: extend_sql_def)
    have "lease_view d' i = lease_view d i" for i
      by (cases "lease_of d i") (simp_all add: d' lease_view_def lookup_row_update extend_row_def)
    moreover have "map l_job_id (job_leases d') = map l_job_id (job_leases d)" by (simp add: d' map_update_where extend_row_def)
    ultimately show ?thesis by (simp add: keeps_sound_def sound_def leased_def d' seat_def jobs_wf_def opens_def)
  qed
qed

lemma cancel_lets_go: "assures letting_go (cancelJob r sc now)"
proof (rule assuresI, rule letting_goI)
  let ?i = "sc_entityID sc"
  fix d v d' assume run: "cancelJob r sc now d = Inr (v, d')" and wf: "jobs_wf d"
  from run obtain j d1 where j: "job_of d ?i = Some j" "\<not> terminal (j_status j)"
    and u: "update_jobs (\<lambda>k. j_id k = ?i \<and> \<not> terminal (j_status j)) (cancelled_row now) d = Inr d1"
    and rest: "if active (j_status j) then \<exists>d2. update_execs (\<lambda>x. x_job_id x = ?i \<and> is_open x) (close_plain X_cancelled now) d1 = Inr d2 \<and>
        jobs d' = jobs d2 \<and> job_executions d' = job_executions d2 \<and> job_leases d' = delete_where (\<lambda>l. l_job_id l = ?i) (job_leases d2) \<and>
        queue_shards d' = queue_shards (queue_release (j_queue_id j) (j_shard j) 1 d2)
      else jobs d' = jobs d1 \<and> job_executions d' = job_executions d1 \<and> job_leases d' = job_leases d1 \<and> queue_shards d' = queue_shards d1"
    by (auto simp: cancelJob_def cancel_sql_def cancel_exec_def cancel_lease_def atx_simps result_simps Let_def queue_release_def
        status_text_active split: option.split_asm if_split_asm)
  have only: "k = j" if "k \<in> set (jobs d)" "j_id k = ?i" for k using that j(1) jobs_wfD(3) [OF wf, of ?i k] by simp
  show "idle d d' \<or> gives_up d d'"
  proof (cases "active (j_status j)")
    case True
    let ?P = "\<lambda>k. j_id k = ?i \<and> active (j_status k)"
    have u': "update_jobs ?P (cancelled_row now) d = Inr d1"
    proof -
      have "update_where (\<lambda>k. j_id k = ?i \<and> \<not> terminal (j_status j)) (cancelled_row now) (jobs d) = update_where ?P (cancelled_row now) (jobs d)"
        using only True j(2) by (intro update_where_cong) auto
      then show ?thesis using u only j(2) by (auto simp: update_jobs_Inr_iff)
    qed
    have f: "find ?P (jobs d) = Some j"
      using wf j(1) True by (intro find_job) (auto dest: lookup_row_SomeD)
    from True rest obtain d2 where x: "update_execs (\<lambda>x. x_job_id x = ?i \<and> is_open x) (close_plain X_cancelled now) d1 = Inr d2"
      and d': "jobs d' = jobs d2" "job_executions d' = job_executions d2" "job_leases d' = delete_where (\<lambda>l. l_job_id l = ?i) (job_leases d2)"
        "queue_shards d' = queue_shards (queue_release (j_queue_id j) (j_shard j) 1 d2)"
      by auto
    have "gives_up d d'"
      by (rule gives_up_one [OF wf f _ u' _ closing_execs [OF x] d']) (simp_all add: cancelled_row_def)
    then show ?thesis ..
  next
    case False
    have "idle d d1"
      by (rule idle_update [OF u]) (use only False in \<open>auto simp: cancelled_row_def held_def\<close>)
    then have "idle d d'" using rest False by - (rule idle_plain [of d d1], simp_all)
    then show ?thesis ..
  qed
qed

text \<open>Jobs that leave the table take their leases with them.\<close>

lemma job_of_delete: "jobs_wf d \<Longrightarrow> jobs d' = delete_where P (jobs d) \<Longrightarrow>
  job_of d' i = (case job_of d i of None \<Rightarrow> None | Some j \<Rightarrow> if P j then None else Some j)"
proof -
  assume wf: "jobs_wf d" and js: "jobs d' = delete_where P (jobs d)"
  have wf': "jobs_wf d'" using wf by (auto simp: jobs_wf_def js delete_where_def distinct_map_filter)
  show ?thesis
  proof (cases "job_of d' i")
    case None
    then show ?thesis using wf by (auto simp: lookup_row_None_iff js set_delete_where jobs_wfD(3) split: option.split)
  next
    case (Some j)
    then have "j \<in> set (jobs d)" "j_id j = i" "\<not> P j" using jobs_wfD(3) [OF wf', of i j] by (auto simp: js set_delete_where)
    then show ?thesis using Some jobs_wfD(3) [OF wf, of i j] by simp
  qed
qed

lemma sound_removed:
  assumes s: "sound d" and js: "jobs d' = delete_where P (jobs d)" and xs: "distinct (opens d')"
    and ls: "job_leases d' = delete_where Q (job_leases d)"
    and Q: "\<And>l. Q l \<longleftrightarrow> (\<exists>j \<in> set (jobs d). P j \<and> j_id j = l_job_id l)"
  shows "sound d'"
proof -
  have wf: "jobs_wf d" and l: "distinct (map l_job_id (job_leases d))" "\<And>i. lease_view d i = holder (seat d i)"
    using s by (auto simp: sound_def leased_def)
  define A where "A = {i. \<exists>j \<in> set (jobs d). P j \<and> j_id j = i}"
  have "Q = (\<lambda>l. l_job_id l \<in> A)" by (rule ext) (simp add: Q A_def)
  then have v: "lease_view d' i = (if i \<in> A then None else lease_view d i)" for i by (simp add: lease_view_def ls lookup_delete_keys)
  have "lease_view d' i = holder (seat d' i)" for i
  proof (cases "job_of d i")
    case None
    then show ?thesis using v [of i] l(2) [of i] by (simp add: job_of_delete [OF wf js] seat_def)
  next
    case (Some j)
    then have j: "j \<in> set (jobs d)" "j_id j = i" using jobs_wfD(3) [OF wf] by auto
    have uniq: "k = j" if "k \<in> set (jobs d)" "j_id k = i" for k using that Some jobs_wfD(3) [OF wf, of i k] by simp
    have "i \<in> A \<longleftrightarrow> P j"
    proof
      assume "i \<in> A"
      then obtain k where "k \<in> set (jobs d)" "P k" "j_id k = i" unfolding A_def mem_Collect_eq by (elim bexE conjE)
      then show "P j" using uniq [of k] by simp
    next
      assume "P j"
      then show "i \<in> A" unfolding A_def mem_Collect_eq using j by (intro bexI [of _ j] conjI)
    qed
    then show ?thesis using Some v [of i] l(2) [of i] by (simp add: seat_def job_of_delete [OF wf js])
  qed
  moreover have "jobs_wf d'" using wf by (auto simp: jobs_wf_def js delete_where_def distinct_map_filter)
  ultimately show ?thesis using xs l(1) by (simp add: sound_def leased_def ls distinct_delete_where)
qed

lemma opens_deleted: "job_executions d' = delete_where P (job_executions d) \<Longrightarrow> distinct (opens d) \<Longrightarrow> distinct (opens d')"
proof -
  assume xs: "job_executions d' = delete_where P (job_executions d)" and dist: "distinct (opens d)"
  have "filter is_open (delete_where P ys) = filter (\<lambda>x. \<not> P x) (filter is_open ys)" for ys by (induction ys) auto
  then show ?thesis
    using dist distinct_map_filter [of x_job_id "filter is_open (job_executions d)" "\<lambda>x. \<not> P x"] by (simp only: opens_def xs)
qed

lemma sound_archive: "assures keeps_sound (archive_tx after dl limit locked now)"
  unfolding keeps_sound_def
proof (rule assuresI, rule impI)
  fix d r d' assume run: "archive_tx after dl limit locked now d = Inr (r, d')" and s: "sound d"
  then have wf: "jobs_wf d" by (simp add: sound_def)
  define ids where "ids = set (pick after dl limit locked now d)"
  from archive_tx_eq [of after dl limit locked now d, folded ids_def] run
  have js: "jobs d' = delete_where (\<lambda>j. j_id j \<in> ids) (jobs d)" and xs: "job_executions d' = delete_where (\<lambda>x. x_job_id x \<in> ids) (job_executions d)"
    and ls: "ids \<noteq> {} \<Longrightarrow> job_leases d' = delete_where (\<lambda>l. l_job_id l \<in> ids) (job_leases d)" and none: "ids = {} \<Longrightarrow> d' = d"
    by auto
  have sub: "i \<in> ids \<Longrightarrow> \<exists>j \<in> set (jobs d). j_id j = i" for i
    unfolding ids_def pick_def by (auto dest!: subsetD [OF set_order_limit])
  show "sound d'"
  proof (cases "ids = {}")
    case False
    show ?thesis
    proof (rule sound_removed [OF s js _ ls [OF False]])
      show "distinct (opens d')" using opens_deleted [OF xs] s by (simp add: sound_def)
      show "l_job_id l \<in> ids \<longleftrightarrow> (\<exists>j \<in> set (jobs d). j_id j \<in> ids \<and> j_id j = l_job_id l)" for l using sub by metis
    qed
  qed (simp add: none s)
qed

lemma sound_delete_queue [tx_rules]: "assures keeps_sound (delete_queue i)"
  unfolding keeps_sound_def
proof (rule assuresI, rule impI)
  fix d r d' assume run: "delete_queue i d = Inr (r, d')" and s: "sound d"
  show "sound d'"
  proof (cases "queue_of d i")
    case None
    with run s show ?thesis by (simp add: delete_queue_def)
  next
    case (Some q)
    with run obtain d1 where del: "rbind (delete_schedules (\<lambda>s. sc_queue_id s = i) d) (\<lambda>d1. Inr ((), d1)) = Inr ((), d1)"
      and d': "jobs d' = jobs (drop_jobs (\<lambda>j. j_queue_id j = i) d1)" "job_leases d' = job_leases (drop_jobs (\<lambda>j. j_queue_id j = i) d1)"
        "job_executions d' = job_executions d1"
      by (auto simp: delete_queue_def result_simps Let_def drop_jobs_def)
    have s1: "sound d1" using idle_sound [OF assuresD [OF idle_delete_schedules del]] s by (simp add: keeps_sound_def)
    show ?thesis
    proof (rule sound_removed [OF s1 d'(1) [unfolded drop_jobs_def Let_def, simplified] _ d'(2) [unfolded drop_jobs_def Let_def, simplified]])
      show "distinct (opens d')" using s1 d'(3) by (simp add: sound_def opens_def)
      show "l_job_id l \<in> j_id ` {j \<in> set (jobs d1). j_queue_id j = i} \<longleftrightarrow> (\<exists>j \<in> set (jobs d1). j_queue_id j = i \<and> j_id j = l_job_id l)" for l
        unfolding image_iff by (simp add: conj_commute eq_commute bex_simps)  metis
    qed
  qed
qed

lemma delete_project_sound: "delete_project p d = Inr d' \<Longrightarrow> keeps_sound d d'"
proof -
  assume run: "delete_project p d = Inr d'"
  show ?thesis
  proof (cases "p \<in> pr_id ` set (projects d)")
    case True
    with run obtain d1 d2 where steps: "delete_policies p (d\<lparr>projects := delete_where (\<lambda>pr. pr_id pr = p) (projects d)\<rparr>) = Inr d1"
      "delete_queues p d1 = Inr d2" "delete_workers p d2 = Inr d'" by (auto simp: delete_project_def result_simps)
    have "keeps_sound d d1" using steps(1) by (intro sound_same) (auto simp: delete_policies_def Let_def opens_def split: if_split_asm)
    moreover have "keeps_sound d1 d2" using steps(2) unfolding delete_queues_def
      by (rule foldr_result_assures [of keeps_sound, rotated 3])
         (auto simp: result_simps intro: soundness.refl soundness.trans dest: assuresD [OF sound_delete_queue])
    moreover have "keeps_sound d2 d'" using steps(3) by (intro sound_same) (auto simp: delete_workers_def Let_def opens_def split: if_split_asm)
    ultimately show ?thesis by (blast intro: soundness.trans)
  qed (use run in \<open>simp add: delete_project_def soundness.refl\<close>)
qed

lemma delete_org_sound: "delete_org i d = Inr d' \<Longrightarrow> keeps_sound d d'"
proof -
  let ?e = "d\<lparr>organizations := delete_where (\<lambda>o'. o_id o' = i) (organizations d), org_members := delete_where (\<lambda>m. om_org_id m = i) (org_members d)\<rparr>"
  assume "delete_org i d = Inr d'"
  then have "foldr_result delete_project (map pr_id (filter (\<lambda>p. pr_org_id p = i) (projects d))) ?e = Inr d'" by (simp add: delete_org_def Let_def)
  then have "keeps_sound ?e d'"
    by (rule foldr_result_assures [of keeps_sound, rotated 3]) (blast intro: soundness.refl soundness.trans delete_project_sound)+
  moreover have "keeps_sound d ?e" by (intro sound_same) (simp_all add: opens_def)
  ultimately show ?thesis by (blast intro: soundness.trans)
qed

lemma sound_deletes [tx_rules]: "assures keeps_sound (\<lambda>d. rbind (delete_project p d) (\<lambda>d1. Inr ((), d1)))"
  "assures keeps_sound (\<lambda>d. rbind (delete_org o' d) (\<lambda>d1. Inr ((), d1)))"
  by (rule assuresI, auto simp: result_simps intro: delete_project_sound delete_org_sound)+

lemma sound_handlers: "assures keeps_sound (deleteQueue r sc now)" "assures keeps_sound (deleteProject r sc now)" "assures keeps_sound (deleteOrg r sc now)"
  unfolding deleteQueue_def deleteProject_def deleteOrg_def by (intro tx_rules)+

section \<open>The system\<close>

lemma job_tx_sound: "job_tx clib alib d d' \<Longrightarrow> keeps_sound d d'"
proof (induction rule: job_tx.induct)
  case close
  then show ?case by (auto simp: close_exec_sql_def result_simps opens_closed intro!: sound_same)
next
  case sweep
  then show ?case by (auto simp: sweep_sql_def Let_def result_simps opens_closed intro!: sound_same)
qed (erule assuresD [OF sound_start] letting_go_sound [OF assuresD [OF success_lets_go]]
    letting_go_sound [OF assuresD [OF batch_lets_go]] letting_go_sound [OF assuresD [OF failure_lets_go]]
    letting_go_sound [OF assuresD [OF snooze_lets_go]] assuresD [OF sound_archive]
    assuresD [OF assures_sound [OF idle_promote]] assuresD [OF assures_sound [OF idle_age]]
    assuresD [OF assures_sound [OF idle_materialize]] assuresD [OF assures_sound [OF idle_submitJob]]
    assuresD [OF assures_sound [OF idle_submitBatch]] letting_go_sound [OF assuresD [OF cancel_lets_go]] assuresD [OF assures_sound [OF idle_retryJob]]
    assuresD [OF assures_sound [OF idle_replayJob]] assuresD [OF assures_sound [OF idle_replayQueue]]
    assuresD [OF assures_sound [OF idle_deleteSchedule]] assuresD [OF sound_handlers(1)] assuresD [OF sound_handlers(2)]
    assuresD [OF sound_handlers(3)] assuresD [OF sound_extend])+

lemma system_step_sound: "system_step clib alib d d' \<Longrightarrow> keeps_sound d d'"
proof (induction rule: system_step.induct)
  case claim
  then show ?case by (rule assuresD [OF sound_claim])
next
  case tx
  then show ?case by (rule job_tx_sound)
next
  case quiet
  then show ?case by (intro sound_same) (simp_all add: opens_def)
qed

interpretation sound_system: transition_system sound "system_step clib alib" sound for clib alib
  by unfold_locales (use system_step_sound in \<open>auto simp: keeps_sound_def\<close>)

text \<open>Reading the invariant off the rows.\<close>

lemma leased_rows:
  assumes "sound d"
  shows "j \<in> set (jobs d) \<Longrightarrow> active (j_status j) \<Longrightarrow>
      \<exists>l \<in> set (job_leases d). l_job_id l = j_id j \<and> l_fence l = j_fence j \<and> j_worker_id j = Some (l_worker_id l)"
    and "l \<in> set (job_leases d) \<Longrightarrow> \<exists>j \<in> set (jobs d). j_id j = l_job_id l \<and> active (j_status j)"
proof -
  have wf: "jobs_wf d" and dist: "distinct (map l_job_id (job_leases d))" and v: "\<And>i. lease_view d i = holder (seat d i)"
    using assms by (auto simp: sound_def leased_def)
  show "\<exists>l \<in> set (job_leases d). l_job_id l = j_id j \<and> l_fence l = j_fence j \<and> j_worker_id j = Some (l_worker_id l)"
    if j: "j \<in> set (jobs d)" "active (j_status j)"
  proof -
    have "job_of d (j_id j) = Some j" using jobs_wfD(3) [OF wf, of "j_id j" j] j(1) by simp
    then have "lease_view d (j_id j) = Some (j_fence j, j_worker_id j)" using v [of "j_id j"] j(2) by (simp add: seat_def held_def holder_def)
    then obtain l where "lease_of d (j_id j) = Some l" "l_fence l = j_fence j" "j_worker_id j = Some (l_worker_id l)"
      by (auto simp: lease_view_def)
    then show ?thesis using lookup_row_SomeD [of l_job_id "j_id j" "job_leases d" l] by blast
  qed
  show "\<exists>j \<in> set (jobs d). j_id j = l_job_id l \<and> active (j_status j)" if l: "l \<in> set (job_leases d)"
  proof -
    have "lease_of d (l_job_id l) = Some l" using lookup_row_Some_iff [OF dist, of "l_job_id l" l] l by simp
    then have "holder (seat d (l_job_id l)) \<noteq> None" unfolding v [of "l_job_id l", symmetric] by (simp add: lease_view_def)
    then obtain j where "job_of d (l_job_id l) = Some j" "active (j_status j)"
      by (cases "job_of d (l_job_id l)") (auto simp: seat_def)
    then show ?thesis using jobs_wfD(3) [OF wf, of "l_job_id l" j] by blast
  qed
qed

lemma count_where_distinct: "distinct xs \<Longrightarrow> count_where (\<lambda>k. k = i) xs \<le> 1"
  by (induction xs) (auto simp: count_where_def filter_empty_conv)

lemma sound_checks:
  assumes "sound d"
  shows "doubleOpen d = 0" "runningNoLease d = 0"
proof -
  have "distinct (map x_job_id (filter is_open (job_executions d)))" using assms by (simp add: sound_def opens_def)
  then have "\<not> 1 < count_where (\<lambda>k. k = i) (map x_job_id (filter is_open (job_executions d)))" for i
    using count_where_distinct [of "map x_job_id (filter is_open (job_executions d))" i] by linarith
  then show "doubleOpen d = 0" by (simp add: doubleOpen_def Let_def)
  have "\<exists>l \<in> set (job_leases d). l_job_id l = j_id j" if "j \<in> set (jobs d)" "j_status j = Running" for j
    using leased_rows(1) [OF assms that(1)] that(2) by (auto simp: active_def)
  then show "runningNoLease d = 0" by (auto simp: runningNoLease_def count_where_def filter_empty_conv)
qed

lemma summed_length: "summed d = length (jobs d)"
proof -
  have "sum_list (map (\<lambda>s. count_where (\<lambda>j. j_status j = s) js) xs) = length (filter (\<lambda>j. j_status j \<in> set xs) js)"
    if "distinct xs" for xs js
    using that
  proof (induction xs)
    case (Cons x xs)
    have "length (filter (\<lambda>j. j_status j = x) js) + length (filter (\<lambda>j. j_status j \<in> set xs) js) = length (filter (\<lambda>j. j_status j \<in> set (x # xs)) js)"
      using Cons.prems by (induction js) auto
    then show ?case using Cons by (simp add: count_where_def)
  qed simp
  from this [of "remdups (map j_status (jobs d))" "jobs d"] show ?thesis by (simp add: summed_def)
qed

text \<open>
  C5. The checks of the test suites hold of every run, not only of those the tests produce. From a database where
  each claimed or running job has its lease and no job two open executions (an empty one, for example), no interleaving
  of transactions of any processes makes \<open>CheckInvariants\<close> complain about open executions, leases or the counts by
  status; it can only report counters of shards, which run ahead while a claim is between its two transactions. What is
  behind it: the leases are exactly the claimed and running jobs, and each carries the fence and the worker of its job.
\<close>

theorem checks_pass_on_every_run:
  assumes "sound d" and "(system_step clib alib)\<^sup>*\<^sup>* d d'"
  shows "CheckInvariants d' = (if drift d' = 0 then [] else [Drift (drift d')]) \<and>
    (\<forall>j \<in> set (jobs d'). active (j_status j) \<longrightarrow>
       (\<exists>l \<in> set (job_leases d'). l_job_id l = j_id j \<and> l_fence l = j_fence j \<and> j_worker_id j = Some (l_worker_id l))) \<and>
    (\<forall>l \<in> set (job_leases d'). \<exists>j \<in> set (jobs d'). j_id j = l_job_id l \<and> active (j_status j))"
proof -
  have s: "sound d'" using sound_system.steps_inv [OF assms(2,1)] .
  have "CheckInvariants d' = (if drift d' = 0 then [] else [Drift (drift d')])"
    by (simp add: CheckInvariants_def sound_checks [OF s] summed_length)
  then show ?thesis using leased_rows [OF s] by blast
qed

lemma sample_sound: "sound sample_db"
proof -
  have "lease_view sample_db i = holder (seat sample_db i)" for i
    by (simp add: lease_view_def seat_def holder_def sample_defs held_def active_def)
  then show ?thesis using sample_wf by (simp add: sound_def leased_def opens_def sample_defs)
qed

theorem checks_pass_on_every_run_witness:
  "\<exists>res d1. submitJob plain_api False 20 keyed_request sample_scope sample_now sample_db = Inr (res, d1) \<and>
    CheckInvariants d1 = (if drift d1 = 0 then [] else [Drift (drift d1)])"
proof -
  obtain res d1 where run: "submitJob plain_api False 20 keyed_request sample_scope sample_now sample_db = Inr (res, d1)"
    and st: "system_step (undefined :: (unit, unit) cron_lib) plain_api sample_db d1" by (rule sample_step)
  from checks_pass_on_every_run [OF sample_sound r_into_rtranclp [of "system_step undefined plain_api", OF st]] run show ?thesis by blast
qed

text \<open>
  C4. Nobody is forgotten. Whatever happened before, once the leases have run out (their workers are gone, or stopped
  extending them) one reap with a limit of at least the number of leases leaves no job claimed or running: each is
  waiting for its retry or dead. It reports exactly as many jobs as there were leases.
\<close>

theorem lost_workers_strand_no_job:
  assumes "sound d0" and "(system_step clib alib)\<^sup>*\<^sup>* d0 d" and "tables_wf now d" and "policies_exist d"
    and "\<forall>l \<in> set (job_leases d). l_expires_at l < now" and "length (job_leases d) \<le> limit"
  shows "\<exists>d'. Reap (\<lambda>_. quiet_stmt now) limit d = ((length (job_leases d), None), d') \<and>
    (\<forall>k \<in> set (jobs d). \<exists>k'. job_of d' (j_id k) = Some k' \<and> \<not> active (j_status k'))"
proof -
  have s: "sound d" using sound_system.steps_inv [OF assms(2,1)] .
  from reap_quiet [OF assms(3,4), of limit] obtain n d' where run: "Reap (\<lambda>_. quiet_stmt now) limit d = ((n, None), d')"
    and n: "n = min limit (count_where (\<lambda>l. l_expires_at l < now \<and> (\<exists>j \<in> set (jobs d). j_id j = l_job_id l \<and> active (j_status j))) (job_leases d))"
    and rows: "\<forall>k \<in> set (jobs d). \<exists>k'. job_of d' (j_id k) = Some k' \<and> (active (j_status k') \<longrightarrow> k' = k) \<and>
       (active (j_status k) \<longrightarrow> (\<forall>l. lease_of d (j_id k) = Some l \<longrightarrow> now \<le> l_expires_at l \<longrightarrow> k' = k)) \<and>
       (\<forall>l. active (j_status k) \<longrightarrow> lease_of d (j_id k) = Some l \<longrightarrow> l_expires_at l < now \<longrightarrow>
          length (job_leases d) \<le> limit \<longrightarrow> \<not> active (j_status k') \<and> lease_of d' (j_id k) = None)"
    by (elim exE conjE) (rule that; assumption)
  have "count_where (\<lambda>l. l_expires_at l < now \<and> (\<exists>j \<in> set (jobs d). j_id j = l_job_id l \<and> active (j_status j))) (job_leases d) = length (job_leases d)"
    using assms(5) leased_rows(2) [OF s] by (simp add: count_where_def cong: filter_cong)
  then have n': "n = length (job_leases d)" using n assms(6) by simp
  have dist: "distinct (map l_job_id (job_leases d))" using s by (simp add: sound_def leased_def)
  have "\<exists>k'. job_of d' (j_id k) = Some k' \<and> \<not> active (j_status k')" if k: "k \<in> set (jobs d)" for k
  proof -
    from rows k obtain k' where k': "job_of d' (j_id k) = Some k'" "active (j_status k') \<longrightarrow> k' = k"
      "\<forall>l. active (j_status k) \<longrightarrow> lease_of d (j_id k) = Some l \<longrightarrow> l_expires_at l < now \<longrightarrow>
          length (job_leases d) \<le> limit \<longrightarrow> \<not> active (j_status k') \<and> lease_of d' (j_id k) = None" by blast
    have "\<not> active (j_status k')" if act: "active (j_status k)"
    proof -
      obtain l where l: "l \<in> set (job_leases d)" "l_job_id l = j_id k" using leased_rows(1) [OF s k act] by blast
      then have "lease_of d (j_id k) = Some l" using lookup_row_Some_iff [OF dist, of "j_id k" l] by simp
      then show ?thesis using k'(3) act assms(5,6) l(1) by blast
    qed
    then show ?thesis using k' by blast
  qed
  then show ?thesis using run n' by blast
qed

theorem lost_workers_strand_no_job_witness:
  "\<exists>d'. Reap (\<lambda>_. quiet_stmt sample_now) 1 sample_db = ((1, None), d') \<and>
    (\<forall>k \<in> set (jobs sample_db). \<exists>k'. job_of d' (j_id k) = Some k' \<and> \<not> active (j_status k'))"
proof -
  have "policies_exist sample_db" "\<forall>l \<in> set (job_leases sample_db). l_expires_at l < sample_now" "length (job_leases sample_db) = 1"
    by (simp_all add: policies_exist_def sample_defs)
  then show ?thesis
    using lost_workers_strand_no_job [OF sample_sound rtranclp.rtrancl_refl [of "system_step (undefined :: (unit, unit) cron_lib) plain_api"] sample_tables_wf, of 1]
    by simp
qed

end
