(* ===== verification/Slots.thy ===== *)
theory Slots
  imports Invariants
begin

text \<open>
  The concurrency limit of a queue, over all processes. A worker that claims takes slots in one transaction
  (\<open>fl.queue_admit\<close>), turns some of them into jobs and gives back the rest in another (\<open>take\<close> of
  \<open>src/internal/jobs/claim.go\<close>), or gives all of them back when the take failed; reports, cancels, the reaper and the
  deletes of the API give back the slots of the jobs they end. The theory adds to the database what no table holds,
  the slots that are admitted and not yet used, and shows that the counters of the shards always cover them and the
  jobs that are claimed or running.
\<close>

section \<open>Counters and seats\<close>

definition cnt :: "queue_shard list \<Rightarrow> uuid \<Rightarrow> int \<Rightarrow> int" where
  "cnt ss q s = (case lookup_row (\<lambda>r. (s_queue_id r, s_shard r)) (q, s) ss of None \<Rightarrow> 0 | Some r \<Rightarrow> s_in_flight r)"

abbreviation counter :: "uuid \<Rightarrow> int \<Rightarrow> db \<Rightarrow> int" where
  "counter q s d \<equiv> cnt (queue_shards d) q s"

lemma slack_counter: "slack q s d = counter q s d - int (active_in q s d)"
  by (simp add: slack_def cnt_def)

text \<open>The jobs that hold a slot of a shard, by id.\<close>

definition seated :: "uuid \<Rightarrow> int \<Rightarrow> db \<Rightarrow> uuid set" where
  "seated q s d = {i. \<exists>f w. seat d i = Some (f, w, q, s)}"

lemma active_in_seated:
  assumes "jobs_wf d"
  shows "active_in q s d = card (seated q s d)" and "finite (seated q s d)"
proof -
  let ?js = "filter (\<lambda>j. j_queue_id j = q \<and> j_shard j = s \<and> active (j_status j)) (jobs d)"
  have eq: "seated q s d = set (map j_id ?js)"
  proof (rule set_eqI)
    fix i
    have "i \<in> seated q s d \<longleftrightarrow> (\<exists>j. job_of d i = Some j \<and> j_queue_id j = q \<and> j_shard j = s \<and> active (j_status j))"
      by (auto simp: seated_def seat_def held_def split: option.split if_splits)
    also have "\<dots> \<longleftrightarrow> i \<in> set (map j_id ?js)" unfolding jobs_wfD(3) [OF assms] set_map set_filter by blast
    finally show "i \<in> seated q s d \<longleftrightarrow> i \<in> set (map j_id ?js)" .
  qed
  have "distinct (map j_id ?js)" using jobs_wfD(1) [OF assms] by (rule distinct_map_filter)
  from distinct_card [OF this] show "active_in q s d = card (seated q s d)" unfolding eq by (simp add: active_in_def count_where_def)
  show "finite (seated q s d)" unfolding eq by simp
qed

section \<open>Transactions and slots\<close>

text \<open>
  \<open>slots_same\<close>: counters and active jobs of every shard stay. \<open>slots_kept\<close>: counters do not grow, and whatever a counter
  holds beyond its jobs, it keeps; where the row of a shard goes, no job is left on it.
\<close>

definition slots_same :: "db \<Rightarrow> db \<Rightarrow> bool" where
  "slots_same d d' \<longleftrightarrow> (jobs_wf d \<and> (\<forall>q s. 0 \<le> slack q s d) \<longrightarrow>
     jobs_wf d' \<and> (\<forall>q s. slack q s d' = slack q s d \<and> counter q s d' = counter q s d))"

definition slots_kept :: "db \<Rightarrow> db \<Rightarrow> bool" where
  "slots_kept d d' \<longleftrightarrow> (jobs_wf d \<and> (\<forall>q s. 0 \<le> slack q s d) \<longrightarrow>
     jobs_wf d' \<and> (\<forall>q s. counter q s d' \<le> counter q s d \<and> (shard_of d q s = None \<longrightarrow> shard_of d' q s = None) \<and>
       (if shard_of d' q s = None then active_in q s d' = 0 else slack q s d \<le> slack q s d')))"

lemma slots_same_trans: "slots_same a b \<Longrightarrow> slots_same b c \<Longrightarrow> slots_same a c"
  by (simp add: slots_same_def)

lemma no_row: "shard_of d q s = None \<Longrightarrow> slack q s d = - int (active_in q s d)" "shard_of d q s = None \<Longrightarrow> counter q s d = 0"
  by (simp_all add: slack_def cnt_def)

lemma slots_kept_slack:
  assumes "slots_kept d d'" and "jobs_wf d" and "\<And>q s. 0 \<le> slack q s d"
  shows "jobs_wf d'" "0 \<le> slack q s d'" "counter q s d' \<le> counter q s d" "shard_of d q s = None \<Longrightarrow> shard_of d' q s = None"
    "shard_of d' q s = None \<Longrightarrow> active_in q s d' = 0" "shard_of d' q s \<noteq> None \<Longrightarrow> slack q s d \<le> slack q s d'"
proof -
  have k: "jobs_wf d'" "counter q s d' \<le> counter q s d" "shard_of d q s = None \<longrightarrow> shard_of d' q s = None"
    "if shard_of d' q s = None then active_in q s d' = 0 else slack q s d \<le> slack q s d'"
    using assms unfolding slots_kept_def by blast+
  show "jobs_wf d'" "counter q s d' \<le> counter q s d" "shard_of d q s = None \<Longrightarrow> shard_of d' q s = None"
    "shard_of d' q s = None \<Longrightarrow> active_in q s d' = 0" "shard_of d' q s \<noteq> None \<Longrightarrow> slack q s d \<le> slack q s d'"
    using k by (auto split: if_splits)
  show "0 \<le> slack q s d'"
  proof (cases "shard_of d' q s")
    case None
    then show ?thesis using k(4) no_row(1) [OF None] by simp
  next
    case (Some r)
    then show ?thesis using k(4) assms(3) [of q s] by simp
  qed
qed

lemma slots_kept_trans:
  assumes ab: "slots_kept a b" and bc: "slots_kept b c"
  shows "slots_kept a c"
  unfolding slots_kept_def
proof (intro impI conjI allI)
  assume "jobs_wf a \<and> (\<forall>q s. 0 \<le> slack q s a)"
  then have a: "jobs_wf a" "\<And>q s. 0 \<le> slack q s a" by auto
  note b = slots_kept_slack [OF ab a]
  note c = slots_kept_slack [OF bc b(1,2)]
  show "jobs_wf c" by (rule c(1))
  fix q s
  show "counter q s c \<le> counter q s a" using b(3) [of q s] c(3) [of q s] by linarith
  show "shard_of c q s = None" if "shard_of a q s = None" using c(4) [OF b(4) [OF that]] .
  show "if shard_of c q s = None then active_in q s c = 0 else slack q s a \<le> slack q s c"
  proof (cases "shard_of c q s")
    case None
    then show ?thesis using c(5) by simp
  next
    case (Some r)
    then have "shard_of b q s \<noteq> None" using c(4) [of q s] by auto
    then show ?thesis using Some b(6) [of q s] c(6) [of q s] by simp
  qed
qed

lemma slots_kept_shards:
  assumes "jobs_wf d \<Longrightarrow> (\<And>q s. 0 \<le> slack q s d) \<Longrightarrow> jobs_wf d' \<and> (\<forall>q s. counter q s d' \<le> counter q s d \<and>
    slack q s d \<le> slack q s d' \<and> (shard_of d' q s = None \<longleftrightarrow> shard_of d q s = None))"
  shows "slots_kept d d'"
  unfolding slots_kept_def
proof (intro impI conjI allI)
  assume "jobs_wf d \<and> (\<forall>q s. 0 \<le> slack q s d)"
  then have d: "\<And>q s. 0 \<le> slack q s d" and k: "jobs_wf d'" "\<And>q s. counter q s d' \<le> counter q s d" "\<And>q s. slack q s d \<le> slack q s d'"
    "\<And>q s. shard_of d' q s = None \<longleftrightarrow> shard_of d q s = None"
    using assms by blast+
  show "jobs_wf d'" by (rule k(1))
  fix q s
  show "counter q s d' \<le> counter q s d" by (rule k(2))
  show "shard_of d' q s = None" if "shard_of d q s = None" using that k(4) by blast
  show "if shard_of d' q s = None then active_in q s d' = 0 else slack q s d \<le> slack q s d'"
    using k(3) [of q s] d [of q s] no_row(1) [of q s d'] by auto
qed

lemma idle_slots:
  assumes "idle d d'"
  shows "slots_same d d'" "slots_kept d d'"
proof -
  have same: "jobs_wf d'" "queue_shards d' = queue_shards d" "active_in q s d' = active_in q s d" if wf: "jobs_wf d" for q s
  proof -
    show wf': "jobs_wf d'" and sh: "queue_shards d' = queue_shards d" using assms wf by (auto simp: idle_def)
    have "seated q s d' = seated q s d" using assms wf by (simp add: idle_def seated_def)
    then show "active_in q s d' = active_in q s d" by (simp add: active_in_seated [OF wf] active_in_seated [OF wf'])
  qed
  show "slots_same d d'" unfolding slots_same_def using same by (auto simp: slack_counter)
  have wf': "jobs_wf d \<Longrightarrow> jobs_wf d'" using same(1) by blast
  show "slots_kept d d'"
    unfolding slots_kept_def
  proof (intro impI conjI allI)
    assume d: "jobs_wf d \<and> (\<forall>q s. 0 \<le> slack q s d)"
    then show "jobs_wf d'" using wf' by blast
    fix q s
    have e: "queue_shards d' = queue_shards d" "active_in q s d' = active_in q s d" using same(2,3) d by blast+
    show "counter q s d' \<le> counter q s d" using e(1) by simp
    show "shard_of d' q s = None" if "shard_of d q s = None" using that e(1) by simp
    have "0 \<le> slack q s d" using d by blast
    then show "if shard_of d' q s = None then active_in q s d' = 0 else slack q s d \<le> slack q s d'"
      using e no_row(1) [of q s d] by (cases "shard_of d q s") (simp_all add: slack_def)
  qed
qed

interpretation slotting: tx_guarantee slots_kept
proof
  show "slots_kept d d" for d by (simp add: idle_slots idle_same)
  show "slots_kept a b \<Longrightarrow> slots_kept b c \<Longrightarrow> slots_kept a c" for a b c by (rule slots_kept_trans)
  show "slots_kept d (emit topic entity project payload now d)" for d topic entity project payload now by (simp add: idle_slots idle_same)
qed

interpretation slot_frame: tx_guarantee slots_same
proof
  show "slots_same d d" for d by (simp add: slots_same_def)
  show "slots_same a b \<Longrightarrow> slots_same b c \<Longrightarrow> slots_same a c" for a b c by (rule slots_same_trans)
  show "slots_same d (emit topic entity project payload now d)" for d topic entity project payload now by (simp add: idle_slots idle_same)
qed

lemma assures_slots: "assures idle t \<Longrightarrow> assures slots_kept t" "assures idle t \<Longrightarrow> assures slots_same t"
  by (auto intro!: assuresI dest: assuresD intro: idle_slots)

section \<open>Slots that are given back\<close>

lemma shard_of_releases:
  "distinct ks \<Longrightarrow> shard_of (fold (\<lambda>k. queue_release (fst k) (snd k) (g k)) ks d) q s =
    (if (q, s) \<in> set ks then map_option (\<lambda>r. r\<lparr>s_in_flight := max (s_in_flight r - g (q, s)) 0\<rparr>) (shard_of d q s) else shard_of d q s)"
proof (induction ks arbitrary: d)
  case (Cons k ks)
  then show ?case by (cases k) (auto simp: shard_of_release)
qed simp

lemma count_where_pos: "x \<notin> set xs \<Longrightarrow> count_where (\<lambda>k. k = x) xs = 0"
  by (auto simp: count_where_zero_iff)

lemma release_groups_counter:
  assumes "0 \<le> counter q s d"
  shows "counter q s (release_groups keys d) = max (counter q s d - int (count_where (\<lambda>k. k = (q, s)) keys)) 0"
    and "shard_of (release_groups keys d) q s = None \<longleftrightarrow> shard_of d q s = None"
proof -
  have l: "shard_of (release_groups keys d) q s = (if (q, s) \<in> set keys
      then map_option (\<lambda>r. r\<lparr>s_in_flight := max (s_in_flight r - int (count_where (\<lambda>k. k = (q, s)) keys)) 0\<rparr>) (shard_of d q s) else shard_of d q s)"
    unfolding release_groups_eq by (subst shard_of_releases) simp_all
  then show "shard_of (release_groups keys d) q s = None \<longleftrightarrow> shard_of d q s = None" by simp
  show "counter q s (release_groups keys d) = max (counter q s d - int (count_where (\<lambda>k. k = (q, s)) keys)) 0"
    using assms l count_where_pos [of "(q, s)" keys] by (cases "shard_of d q s") (auto simp: cnt_def)
qed

lemma slots_gives_up:
  assumes "gives_up d d'"
  shows "slots_kept d d'"
proof -
  from assms obtain P f A d1 e where u: "update_jobs P f d = Inr d1"
    and f: "\<And>j. j_id (f j) = j_id j" "\<And>j. j_queue_id (f j) = j_queue_id j" "\<And>j. \<not> active (j_status (f j))"
    and P: "\<And>j. j \<in> set (jobs d) \<Longrightarrow> P j \<Longrightarrow> active (j_status j)" and rest: "closing d1 e" and js: "jobs d' = jobs e"
    and sh: "queue_shards d' = queue_shards (release_groups (map slot_of (filter P (jobs d))) e)"
    unfolding gives_up_def by blast
  let ?n = "\<lambda>q s. int (count_where (\<lambda>k. k = (q, s)) (map slot_of (filter P (jobs d))))"
  have sh1: "queue_shards d1 = queue_shards d" using hold_update(4) [OF u f(1)] .
  show ?thesis
  proof (rule slots_kept_shards)
    assume wf: "jobs_wf d" and pos: "\<And>q s. 0 \<le> slack q s d"
    have wf1: "jobs_wf d1" using update_jobs_wf [OF wf u f(1)] .
    have e: "jobs_wf e" "\<And>i. seat e i = seat d1 i" "queue_shards e = queue_shards d" using rest wf1 sh1 by (auto simp: closing_def)
    have wf': "jobs_wf d'" using e(1) js by (simp add: jobs_wf_def)
    have "counter q s d' \<le> counter q s d \<and> slack q s d \<le> slack q s d' \<and> (shard_of d' q s = None \<longleftrightarrow> shard_of d q s = None)" for q s
    proof -
      have "seated q s d' = seated q s d1" using e(2) js by (simp add: seated_def seat_def)
      then have "active_in q s d' = active_in q s d1" using active_in_seated(1) [OF wf', of q s] active_in_seated(1) [OF wf1, of q s] by simp
      moreover have "int (active_in q s d1) = int (active_in q s d) - ?n q s"
      proof -
        have "int (active_in q s d1) = int (active_in q s d) +
          int (count_where (\<lambda>j. P j \<and> j_queue_id j = q \<and> j_shard (f j) = s \<and> active (j_status (f j))) (jobs d)) -
          int (count_where (\<lambda>j. P j \<and> j_queue_id j = q \<and> j_shard j = s \<and> active (j_status j)) (jobs d))"
          by (rule active_in_update) (use u f(2) in \<open>auto simp: update_jobs_Inr_iff\<close>)
        moreover have "count_where (\<lambda>j. P j \<and> j_queue_id j = q \<and> j_shard (f j) = s \<and> active (j_status (f j))) (jobs d) = 0"
          using f(3) by (simp add: count_where_zero_iff)
        moreover have "count_where (\<lambda>j. P j \<and> j_queue_id j = q \<and> j_shard j = s \<and> active (j_status j)) (jobs d) =
            count_where (\<lambda>k. k = (q, s)) (map slot_of (filter P (jobs d)))"
          using P by (auto simp: count_where_def filter_map comp_def slot_of_def intro!: arg_cong [of _ _ length] filter_cong)
        ultimately show ?thesis by simp
      qed
      moreover have c: "0 \<le> counter q s d" using pos [of q s] by (simp add: slack_counter)
      then have "counter q s d' = max (counter q s d - ?n q s) 0"
        unfolding sh using release_groups_counter(1) [of e q s "map slot_of (filter P (jobs d))"] e(3) by simp
      moreover have "shard_of d' q s = None \<longleftrightarrow> shard_of d q s = None"
        unfolding sh using release_groups_counter(2) [of e q s "map slot_of (filter P (jobs d))"] e(3) c by simp
      ultimately show ?thesis using c by (simp add: slack_counter)
    qed
    then show "jobs_wf d' \<and> (\<forall>q s. counter q s d' \<le> counter q s d \<and> slack q s d \<le> slack q s d' \<and>
        (shard_of d' q s = None \<longleftrightarrow> shard_of d q s = None))" using wf' by blast
  qed
qed

lemma letting_go_slots: "letting_go d d' \<Longrightarrow> slots_kept d d'"
  using idle_slots(2) [of d d'] slots_gives_up [of d d'] by (auto simp: letting_go_def slots_kept_def)

lemma slots_frame:
  assumes "jobs d' = jobs d" and "queue_shards d' = queue_shards d"
  shows "slots_kept d d'" "slots_same d d'"
proof -
  have "active_in q s d' = active_in q s d" for q s using assms(1) by (rule active_in_same)
  then have k: "jobs_wf d' = jobs_wf d" "\<And>q s. slack q s d' = slack q s d" "\<And>q s. counter q s d' = counter q s d"
    using assms by (simp_all add: slack_counter jobs_wf_def)
  then show "slots_same d d'" by (simp add: slots_same_def)
  show "slots_kept d d'" by (rule slots_kept_shards) (use k assms(2) in auto)
qed

section \<open>Jobs and queues that go\<close>

lemma count_where_dropped: "count_where P (delete_where Q xs) \<le> count_where P xs"
  by (induction xs) (auto simp: count_where_def)

lemma active_in_deleted: "jobs d' = delete_where P (jobs d) \<Longrightarrow> active_in q s d' \<le> active_in q s d"
  by (simp add: active_in_def count_where_dropped)

lemma slots_removed:
  assumes "jobs d' = delete_where P (jobs d)" and "queue_shards d' = queue_shards d"
  shows "slots_kept d d'"
proof (rule slots_kept_shards)
  assume wf: "jobs_wf d"
  then have "jobs_wf d'" by (auto simp: jobs_wf_def assms(1) delete_where_def distinct_map_filter)
  then show "jobs_wf d' \<and> (\<forall>q s. counter q s d' \<le> counter q s d \<and> slack q s d \<le> slack q s d' \<and>
      (shard_of d' q s = None \<longleftrightarrow> shard_of d q s = None))"
    using active_in_deleted [OF assms(1)] by (simp add: slack_counter assms(2))
qed

lemma slots_archive: "assures slots_kept (archive_tx after dl limit locked now)"
proof (rule assuresI)
  fix d r d' assume run: "archive_tx after dl limit locked now d = Inr (r, d')"
  have js: "jobs d' = delete_where (\<lambda>j. j_id j \<in> set (pick after dl limit locked now d)) (jobs d)"
    using archive_tx_eq [of after dl limit locked now d] run by auto
  have "queue_shards (ensure_range p ts e) = queue_shards e" for p ts e by (simp add: ensure_range_def ensure_partitions_def)
  then have "queue_shards (make_partitions ids e) = queue_shards e" for ids e by (simp add: make_partitions_def)
  then have "queue_shards d' = queue_shards d"
    using run by (auto simp: archive_tx_def Let_def move_jobs_def move_dead_letters_def move_execs_def move_logs_def split: if_split_asm)
  then show "slots_kept d d'" by (rule slots_removed [OF js])
qed

lemma lookup_delete_queue:
  "lookup_row (\<lambda>r. (s_queue_id r, s_shard r)) (q, s) (delete_where (\<lambda>r. s_queue_id r = i) ss) =
    (if q = i then None else lookup_row (\<lambda>r. (s_queue_id r, s_shard r)) (q, s) ss)"
  by (induction ss) auto

lemma slots_delete_queue [tx_rules]: "assures slots_kept (delete_queue i)"
proof (rule assuresI)
  fix d r d' assume run: "delete_queue i d = Inr (r, d')"
  show "slots_kept d d'"
  proof (cases "queue_of d i")
    case None
    with run show ?thesis by (simp add: delete_queue_def slotting.refl)
  next
    case (Some q)
    with run obtain d1 where del: "rbind (delete_schedules (\<lambda>s. sc_queue_id s = i) d) (\<lambda>d1. Inr ((), d1)) = Inr ((), d1)"
      and js: "jobs d' = delete_where (\<lambda>j. j_queue_id j = i) (jobs d1)" and sh: "queue_shards d' = delete_where (\<lambda>s. s_queue_id s = i) (queue_shards d1)"
      by (auto simp: delete_queue_def result_simps Let_def drop_jobs_def)
    have "slots_kept d1 d'"
      unfolding slots_kept_def
    proof (intro impI conjI allI)
      assume d1: "jobs_wf d1 \<and> (\<forall>q s. 0 \<le> slack q s d1)"
      then show "jobs_wf d'" by (auto simp: jobs_wf_def js delete_where_def distinct_map_filter)
      fix q s
      have pos: "0 \<le> slack q s d1" using d1 by blast
      then have "0 \<le> counter q s d1" by (simp add: slack_counter)
      then show "counter q s d' \<le> counter q s d1" by (cases "q = i") (simp_all add: cnt_def sh lookup_delete_queue)
      show "shard_of d' q s = None" if "shard_of d1 q s = None" using that by (simp add: sh lookup_delete_queue)
      have "active_in q s d' = 0" if "q = i" using that by (auto simp: active_in_def count_where_zero_iff js set_delete_where)
      then show "if shard_of d' q s = None then active_in q s d' = 0 else slack q s d1 \<le> slack q s d'"
        using active_in_deleted [OF js, of q s] pos no_row(1) [of q s d1]
        by (cases "q = i"; cases "shard_of d1 q s") (simp_all add: sh lookup_delete_queue slack_counter cnt_def)
    qed
    then show ?thesis using idle_slots(2) [OF assuresD [OF idle_delete_schedules del]] by (blast intro: slots_kept_trans)
  qed
qed

lemma delete_project_slots: "delete_project p d = Inr d' \<Longrightarrow> slots_kept d d'"
proof -
  assume run: "delete_project p d = Inr d'"
  show ?thesis
  proof (cases "p \<in> pr_id ` set (projects d)")
    case True
    with run obtain d1 d2 where steps: "delete_policies p (d\<lparr>projects := delete_where (\<lambda>pr. pr_id pr = p) (projects d)\<rparr>) = Inr d1"
      "delete_queues p d1 = Inr d2" "delete_workers p d2 = Inr d'" by (auto simp: delete_project_def result_simps)
    have "slots_kept d d1" using steps(1) by (intro slots_frame) (auto simp: delete_policies_def Let_def split: if_split_asm)
    moreover have "slots_kept d1 d2" using steps(2) unfolding delete_queues_def
      by (rule foldr_result_assures [of slots_kept, rotated 3])
         (auto simp: result_simps slotting.refl intro: slots_kept_trans dest: assuresD [OF slots_delete_queue])
    moreover have "slots_kept d2 d'" using steps(3) by (intro slots_frame) (auto simp: delete_workers_def Let_def split: if_split_asm)
    ultimately show ?thesis by (blast intro: slots_kept_trans)
  qed (use run in \<open>simp add: delete_project_def slotting.refl\<close>)
qed

lemma delete_org_slots: "delete_org i d = Inr d' \<Longrightarrow> slots_kept d d'"
proof -
  let ?e = "d\<lparr>organizations := delete_where (\<lambda>o'. o_id o' = i) (organizations d), org_members := delete_where (\<lambda>m. om_org_id m = i) (org_members d)\<rparr>"
  assume "delete_org i d = Inr d'"
  then have "foldr_result delete_project (map pr_id (filter (\<lambda>p. pr_org_id p = i) (projects d))) ?e = Inr d'" by (simp add: delete_org_def Let_def)
  then have "slots_kept ?e d'"
    by (rule foldr_result_assures [of slots_kept, rotated 3]) (blast intro: slotting.refl slots_kept_trans delete_project_slots)+
  moreover have "slots_kept d ?e" by (intro slots_frame) simp_all
  ultimately show ?thesis by (blast intro: slots_kept_trans)
qed

lemma slots_deletes [tx_rules]: "assures slots_kept (\<lambda>d. rbind (delete_project p d) (\<lambda>d1. Inr ((), d1)))"
  "assures slots_kept (\<lambda>d. rbind (delete_org o' d) (\<lambda>d1. Inr ((), d1)))"
  by (rule assuresI, auto simp: result_simps intro: delete_project_slots delete_org_slots)+

lemma slots_handlers: "assures slots_kept (deleteQueue r sc now)" "assures slots_kept (deleteProject r sc now)" "assures slots_kept (deleteOrg r sc now)"
  unfolding deleteQueue_def deleteProject_def deleteOrg_def by (intro tx_rules)+

lemma slots_start: "assures slots_kept (start_sql w xid now job fence)"
proof (rule assuresI)
  fix d r d' assume "start_sql w xid now job fence d = Inr (r, d')"
  then consider "d' = d" | d1 where "update_jobs (startable job fence) (start_row now) d = Inr d1" "jobs d' = jobs d1" "queue_shards d' = queue_shards d1"
    by (auto simp: start_sql_def result_simps Let_def split: option.split_asm if_split_asm)
  then show "slots_kept d d'"
  proof cases
    case (2 d1)
    have "idle d d1" by (rule idle_update [OF 2(1)]) (auto simp: start_row_def startable_def held_def active_def)
    then show ?thesis using idle_slots(2) slots_frame(1) [OF 2(2,3)] by (blast intro: slots_kept_trans)
  qed (simp add: slotting.refl)
qed

lemma job_tx_slots: "job_tx clib alib d d' \<Longrightarrow> slots_kept d d'"
proof (induction rule: job_tx.induct)
  case close
  then show ?case by (auto simp: close_exec_sql_def result_simps update_execs_Inr_iff intro!: slots_frame)
next
  case sweep
  then show ?case by (auto simp: sweep_sql_def Let_def result_simps update_execs_Inr_iff intro!: slots_frame)
next
  case extend
  then show ?case by (auto simp: extend_sql_def intro!: slots_frame split: option.split_asm)
qed (erule assuresD [OF slots_start] letting_go_slots [OF assuresD [OF success_lets_go]]
    letting_go_slots [OF assuresD [OF batch_lets_go]] letting_go_slots [OF assuresD [OF failure_lets_go]]
    letting_go_slots [OF assuresD [OF snooze_lets_go]] assuresD [OF slots_archive]
    assuresD [OF assures_slots(1) [OF idle_promote]] assuresD [OF assures_slots(1) [OF idle_age]]
    assuresD [OF assures_slots(1) [OF idle_materialize]] assuresD [OF assures_slots(1) [OF idle_submitJob]]
    assuresD [OF assures_slots(1) [OF idle_submitBatch]] letting_go_slots [OF assuresD [OF cancel_lets_go]]
    assuresD [OF assures_slots(1) [OF idle_retryJob]] assuresD [OF assures_slots(1) [OF idle_replayJob]]
    assuresD [OF assures_slots(1) [OF idle_replayQueue]] assuresD [OF assures_slots(1) [OF idle_deleteSchedule]]
    assuresD [OF slots_handlers(1)] assuresD [OF slots_handlers(2)] assuresD [OF slots_handlers(3)])+

section \<open>Creating and resizing queues\<close>

abbreviation shard_row :: "uuid \<Rightarrow> int \<Rightarrow> queue_shard list \<Rightarrow> queue_shard option" where
  "shard_row q s ss \<equiv> lookup_row (\<lambda>r. (s_queue_id r, s_shard r)) (q, s) ss"

lemma cnt_append_zero: "\<forall>r \<in> set ts. s_in_flight r = 0 \<Longrightarrow> cnt (ss @ ts) q s = cnt ss q s"
  unfolding cnt_def lookup_row_append by (auto split: option.split dest: lookup_row_SomeD)

lemma cnt_update: "(\<And>r. s_queue_id (f r) = s_queue_id r \<and> s_shard (f r) = s_shard r \<and> s_in_flight (f r) = s_in_flight r) \<Longrightarrow> cnt (update_where P f ss) q s = cnt ss q s"
  unfolding cnt_def by (subst lookup_row_update) (auto split: option.split)

lemma cnt_delete:
  assumes "\<And>r. r \<in> set ss \<Longrightarrow> P r \<Longrightarrow> s_in_flight r \<le> 0" and "0 \<le> cnt ss q s" and "\<And>r t. s_queue_id r = s_queue_id t \<Longrightarrow> s_shard r = s_shard t \<Longrightarrow> P r = P t"
  shows "cnt (delete_where P ss) q s = cnt ss q s"
  using assms(1,2)
proof (induction ss)
  case (Cons r ss)
  show ?case
  proof (cases "(s_queue_id r, s_shard r) = (q, s)")
    case key: True
    show ?thesis
    proof (cases "P r")
      case True
      then have "P t" if "(s_queue_id t, s_shard t) = (q, s)" for t using assms(3) [of t r] that key by simp
      then have "shard_row q s (delete_where P ss) = None" unfolding lookup_row_None_iff by (auto simp: set_delete_where)
      moreover have "s_in_flight r = 0" using Cons.prems(1) [of r] Cons.prems(2) True key by (simp add: cnt_def)
      ultimately show ?thesis using True key by (simp add: cnt_def)
    qed (use key in \<open>simp add: cnt_def\<close>)
  next
    case False
    then show ?thesis using Cons by (auto simp: cnt_def)
  qed
qed simp

lemma spread_slots:
  assumes run: "spread old new now d = Inr d'"
  shows "slots_same d d'"
  unfolding slots_same_def
proof (intro impI)
  assume "jobs_wf d \<and> (\<forall>q s. 0 \<le> slack q s d)"
  then have wf: "jobs_wf d" and pos: "0 \<le> slack q s d" for q s by auto
  define resized where "resized = (case old of None \<Rightarrow> False | Some o' \<Rightarrow> q_shards new \<noteq> q_shards o')"
  define kept where "kept = (if resized then delete_where (\<lambda>s. s_queue_id s = q_id new \<and> q_shards new \<le> s_shard s) (queue_shards d) else queue_shards d)"
  let ?f = "\<lambda>s. s\<lparr>s_rl_tokens := min (s_rl_tokens s) (q_rl_burst new / of_int (q_shards new))\<rparr>"
  have idle_rows: "resized \<Longrightarrow> \<forall>s \<in> set (queue_shards d). s_queue_id s = q_id new \<longrightarrow> s_in_flight s \<le> 0"
    and d': "d' = d\<lparr>queue_shards := update_where (\<lambda>s. s_queue_id s = q_id new) ?f (spread_insert new now kept)\<rparr>"
    using run unfolding spread_def Let_def resized_def [symmetric] kept_def [symmetric] by (auto split: if_split_asm)
  have c: "cnt kept q s = counter q s d" for q s
  proof (cases resized)
    case True
    have "0 \<le> counter q s d" using pos [of q s] by (simp add: slack_counter)
    then show ?thesis unfolding kept_def using True idle_rows by (auto intro!: cnt_delete)
  qed (simp add: kept_def)
  have "counter q s d' = counter q s d" for q s
  proof -
    have "counter q s d' = cnt (spread_insert new now kept) q s" by (simp add: d' cnt_update)
    also have "\<dots> = cnt kept q s" unfolding spread_insert_def by (rule cnt_append_zero) simp
    finally show ?thesis using c by simp
  qed
  moreover have "active_in q s d' = active_in q s d" for q s by (simp add: d' active_in_def)
  ultimately show "jobs_wf d' \<and> (\<forall>q s. slack q s d' = slack q s d \<and> counter q s d' = counter q s d)"
    using wf by (simp add: slack_counter d' jobs_wf_def)
qed

lemma slots_insert_queue [tx_rules]: "assures slots_same (insert_queue q now)"
proof (rule assuresI)
  fix d r d' assume "insert_queue q now d = Inr (r, d')"
  then consider "d' = d" | "spread None q now (d\<lparr>queues := queues d @ [q]\<rparr>) = Inr d'"
    by (auto simp: insert_queue_def result_simps split: if_split_asm)
  then show "slots_same d d'"
  proof cases
    case 2
    have "slots_same d (d\<lparr>queues := queues d @ [q]\<rparr>)" by (rule slots_frame) simp_all
    then show ?thesis using spread_slots [OF 2] by (rule slots_same_trans)
  qed (simp add: slot_frame.refl)
qed

lemma slots_update_queue [tx_rules]: "assures slots_same (update_queue i req policy now)"
proof (rule assuresI)
  fix d r d' assume "update_queue i req policy now d = Inr (r, d')"
  then consider "d' = d" | q new where "spread (Some q) new now (d\<lparr>queues := update_where (\<lambda>r. q_id r = i) (\<lambda>_. new) (queues d)\<rparr>) = Inr d'"
    by (auto simp: update_queue_def Let_def result_simps split: if_split_asm option.split_asm)
  then show "slots_same d d'"
  proof cases
    case (2 q new)
    have "slots_same d (d\<lparr>queues := update_where (\<lambda>r. q_id r = i) (\<lambda>_. new) (queues d)\<rparr>)" by (rule slots_frame) simp_all
    then show ?thesis using spread_slots [OF 2] by (rule slots_same_trans)
  qed (simp add: slot_frame.refl)
qed

lemma slots_parts [tx_rules]: "assures slots_same (assertPolicyOwned i p)"
  by (rule assures_slots(2) [OF idle_parts(1)])

lemma slots_createQueue: "assures slots_same (createQueue lib i r sc now)"
  unfolding createQueue_def Let_def by (intro tx_rules)

lemma slots_updateQueue: "assures slots_same (updateQueue lib r sc now)"
  unfolding updateQueue_def Let_def by (intro tx_rules)

section \<open>The system with its outstanding slots\<close>

text \<open>
  \<open>grants\<close> counts, per queue and shard, the slots that were admitted and are neither jobs nor given back yet: they live in the
  memory of the workers. \<open>conf\<close> is the concurrency and the number of shards each queue is configured with, as the
  admissions of the run read them. A worker that dies forgets its slots; a row that is deleted voids them. Beside claims
  and the transactions of \<open>job_tx\<close> the rules have the changes of queues and everything that touches neither jobs nor shards.
  \<open>fl.reconcile_in_flight\<close> is no step: no process calls it.
\<close>

type_synonym grants = "uuid \<Rightarrow> int \<Rightarrow> int"

definition regrant :: "grants \<Rightarrow> uuid \<Rightarrow> int \<Rightarrow> int \<Rightarrow> grants" where
  "regrant R q s n = R(q := (R q)(s := R q s + n))"

definition void :: "db \<Rightarrow> grants \<Rightarrow> grants" where
  "void d R = (\<lambda>q s. if shard_of d q s = None then 0 else R q s)"

definition limit_of :: "(uuid \<Rightarrow> int \<times> int) \<Rightarrow> uuid \<Rightarrow> int \<Rightarrow> int" where
  "limit_of conf q s = (if 0 \<le> s \<and> s < snd (conf q) then shard_slots (fst (conf q)) (snd (conf q)) s else 0)"

definition configured :: "(uuid \<Rightarrow> int \<times> int) \<Rightarrow> uuid \<Rightarrow> db \<Rightarrow> bool" where
  "configured conf q d \<longleftrightarrow> (\<forall>qr. queue_of d q = Some qr \<longrightarrow> (q_max_concurrency qr, q_shards qr) = conf q) \<and>
     (\<forall>r \<in> set (queue_shards d). s_queue_id r = q \<longrightarrow> 0 \<le> s_shard r \<and> s_shard r < snd (conf q))"

inductive slot_step :: "(uuid \<Rightarrow> int \<times> int) \<Rightarrow> ('loc, 'sched) cron_lib \<Rightarrow> api_lib \<Rightarrow> db \<times> grants \<Rightarrow> db \<times> grants \<Rightarrow> bool" for conf clib alib where
  admit: "queue_admit q want rot seen now d = Inr ((n, sh), d') \<Longrightarrow> configured conf q seen \<Longrightarrow> slot_step conf clib alib (d, R) (d', regrant R q sh n)"
| take: "take_jobs req sh n locked now d = Inr (cs, d') \<Longrightarrow> 0 < n \<Longrightarrow> n \<le> R (r_QueueID req) sh \<Longrightarrow>
    slot_step conf clib alib (d, R) (d', regrant R (r_QueueID req) sh (- n))"
| take_gone: "take_jobs req sh n locked now d = Inr ([], d') \<Longrightarrow> shard_of d (r_QueueID req) sh = None \<Longrightarrow> slot_step conf clib alib (d, R) (d', R)"
| give: "0 \<le> n \<Longrightarrow> n \<le> R q s \<Longrightarrow> slot_step conf clib alib (d, R) (queue_release q s n d, regrant R q s (- n))"
| forget: "(\<And>q s. 0 \<le> R' q s \<and> R' q s \<le> R q s) \<Longrightarrow> slot_step conf clib alib (d, R) (d, R')"
| tx: "job_tx clib alib d d' \<Longrightarrow> slot_step conf clib alib (d, R) (d', void d' R)"
| create: "createQueue ulib i rq sc now d = Inr (v, d') \<Longrightarrow> slot_step conf clib alib (d, R) (d', R)"
| update: "updateQueue ulib rq sc now d = Inr (v, d') \<Longrightarrow> slot_step conf clib alib (d, R) (d', R)"
| quiet: "jobs d' = jobs d \<Longrightarrow> queue_shards d' = queue_shards d \<Longrightarrow> slot_step conf clib alib (d, R) (d', R)"

definition booked :: "(uuid \<Rightarrow> int \<times> int) \<Rightarrow> db \<times> grants \<Rightarrow> bool" where
  "booked conf st \<longleftrightarrow> (case st of (d, R) \<Rightarrow> jobs_wf d \<and>
     (\<forall>q s. 0 \<le> R q s \<and> R q s \<le> slack q s d \<and> counter q s d \<le> limit_of conf q s))"

lemma bookedI:
  "jobs_wf d \<Longrightarrow> (\<And>q s. 0 \<le> R q s \<and> R q s \<le> slack q s d \<and> counter q s d \<le> limit_of conf q s) \<Longrightarrow> booked conf (d, R)"
  by (simp add: booked_def)

lemma bookedD:
  assumes "booked conf (d, R)"
  shows "jobs_wf d" "0 \<le> R q s" "R q s \<le> slack q s d" "counter q s d \<le> limit_of conf q s" "0 \<le> slack q s d" "0 \<le> counter q s d"
proof -
  show a: "jobs_wf d" "0 \<le> R q s" "R q s \<le> slack q s d" "counter q s d \<le> limit_of conf q s" using assms by (simp_all add: booked_def)
  show "0 \<le> slack q s d" using a by linarith
  then show "0 \<le> counter q s d" by (simp add: slack_counter)
qed

lemma booked_row: "booked conf (d, R) \<Longrightarrow> 0 < R q s \<Longrightarrow> \<exists>r. shard_of d q s = Some r \<and> R q s \<le> s_in_flight r"
  using bookedD(3) [of conf d R q s] by (cases "shard_of d q s") (auto simp: slack_def)

lemma counter_release: "0 \<le> counter q s d \<Longrightarrow> counter q s (queue_release q' s' n d) =
    (if (q, s) = (q', s') \<and> shard_of d q s \<noteq> None then max (counter q s d - n) 0 else counter q s d)"
  by (cases "shard_of d q s") (auto simp: cnt_def shard_of_release)

lemma admit_shard:
  assumes "queue_admit q want rot seen now d = Inr ((n, sh), d')" and "n \<noteq> 0"
  shows "\<exists>r \<in> set (queue_shards seen). s_queue_id r = q \<and> s_shard r = sh"
proof -
  from assms obtain qr where q: "queue_of seen q = Some qr" and p: "pick_shard qr rot seen = Some sh"
    by (auto simp: queue_admit_def result_simps Let_def split: option.split_asm if_split_asm)
  have "q_id qr = q" using q by (auto dest: lookup_row_SomeD)
  let ?rows = "filter (\<lambda>s. s_queue_id s = q_id qr \<and> s_in_flight s < shard_slots (q_max_concurrency qr) (q_shards qr) (s_shard s)) (queue_shards seen)"
  let ?key = "\<lambda>s. (s_shard s + rot) mod q_shards qr"
  from p obtain r rest where r: "order_limit ?key 1 ?rows = r # rest" "s_shard r = sh"
    by (auto simp: pick_shard_def split: list.split_asm)
  have "r \<in> set (order_limit ?key 1 ?rows)" unfolding r(1) by simp
  then have "r \<in> set ?rows" by (rule subsetD [OF set_order_limit])
  then show ?thesis using r(2) \<open>q_id qr = q\<close> by auto
qed

lemma booked_admit:
  assumes b: "booked conf (d, R)" and run: "queue_admit q want rot seen now d = Inr ((n, sh), d')" and seen: "configured conf q seen"
  shows "booked conf (d', regrant R q sh n)"
proof (cases "n = 0")
  case True
  have "queue_shards d' = queue_shards d" "jobs d' = jobs d" using queue_admit_frame [OF run] True admit_zero_slack(2) [of q want rot seen now d sh d'] run by auto
  moreover have "regrant R q sh n = R" using True by (simp add: regrant_def)
  ultimately show ?thesis using bookedD [OF b] active_in_same [of d' d] by (intro bookedI) (auto simp: jobs_wf_def slack_counter)
next
  case False
  note g = queue_admit_grant [OF run False] and sl = admit_slack [OF run False]
  from g(1) obtain qr sr where q: "queue_of seen q = Some qr" and row: "shard_of d' q sh = Some (take_slots qr n now sr)" "shard_of d q sh = Some sr"
    and room: "s_in_flight sr + n \<le> shard_slots (q_max_concurrency qr) (q_shards qr) sh" and other: "\<forall>q' s'. (q', s') \<noteq> (q, sh) \<longrightarrow> shard_of d' q' s' = shard_of d q' s'"
    by blast
  have "conf q = (q_max_concurrency qr, q_shards qr)" using seen q by (simp add: configured_def)
  moreover have "0 \<le> sh \<and> sh < snd (conf q)" using admit_shard [OF run False] seen by (auto simp: configured_def)
  ultimately have lim: "s_in_flight sr + n \<le> limit_of conf q sh" using room by (auto simp: limit_of_def)
  show ?thesis
  proof (rule bookedI)
    show "jobs_wf d'" using bookedD(1) [OF b] sl(3) by (simp add: jobs_wf_def)
    fix q' s'
    show "0 \<le> regrant R q sh n q' s' \<and> regrant R q sh n q' s' \<le> slack q' s' d' \<and> counter q' s' d' \<le> limit_of conf q' s'"
    proof (cases "(q', s') = (q, sh)")
      case True
      then show ?thesis using bookedD(2,3) [OF b, of q sh] g(2) sl(2) lim row by (simp add: regrant_def cnt_def take_slots_def)
    next
      case False
      have "counter q' s' d' = counter q' s' d" using other False by (simp add: cnt_def)
      then show ?thesis using bookedD(2-4) [OF b, of q' s'] sl(4) [OF False] False by (auto simp: regrant_def)
    qed
  qed
qed

lemma booked_take:
  assumes b: "booked conf (d, R)" and run: "take_jobs req sh n locked now d = Inr (cs, d')" and n: "0 < n" "n \<le> R (r_QueueID req) sh"
  shows "booked conf (d', regrant R (r_QueueID req) sh (- n))"
proof -
  let ?q = "r_QueueID req"
  obtain r where r: "shard_of d ?q sh = Some r" "R ?q sh \<le> s_in_flight r" using booked_row [OF b, of ?q sh] n by auto
  have fits: "0 \<le> n" "n \<le> s_in_flight r" using n r(2) by auto
  note t = take_jobs_slack [OF bookedD(1) [OF b] run r(1) fits]
  have shards: "queue_shards d' = queue_shards d \<or> (\<exists>m > 0. queue_shards d' = queue_shards (queue_release ?q sh m d))"
  proof -
    from run obtain out d1 where c: "claim_sql req (nat n) sh locked now d = Inr (out, d1)"
      and d': "d' = (if int (length out) < n then queue_release ?q sh (n - int (length out)) d1 else d1)"
      by (auto simp: take_jobs_def result_simps)
    have "queue_shards d1 = queue_shards d" using c by (auto simp: claim_sql_def result_simps Let_def update_jobs_Inr_iff split: if_split_asm)
    then have "queue_shards (queue_release ?q sh m d1) = queue_shards (queue_release ?q sh m d)" for m by (simp add: queue_release_def)
    then show ?thesis using d' \<open>queue_shards d1 = _\<close> by (cases "int (length out) < n") (auto intro!: exI [of _ "n - int (length out)"])
  qed
  have c: "counter q s d' \<le> counter q s d" for q s
    using shards counter_release [OF bookedD(6) [OF b, of q s], of ?q sh] bookedD(6) [OF b, of q s] by auto
  show ?thesis
  proof (rule bookedI)
    show "jobs_wf d'" using assuresD [OF evolving_claim run] bookedD(1) [OF b] by (simp add: evo_def)
    fix q s
    show "0 \<le> regrant R ?q sh (- n) q s \<and> regrant R ?q sh (- n) q s \<le> slack q s d' \<and> counter q s d' \<le> limit_of conf q s"
    proof (cases "(q, s) = (?q, sh)")
      case True
      then show ?thesis using bookedD(3,4) [OF b, of ?q sh] c [of ?q sh] n t(1) by (auto simp: regrant_def)
    next
      case False
      then show ?thesis using bookedD(2-4) [OF b, of q s] c [of q s] t(2) [OF False] by (auto simp: regrant_def)
    qed
  qed
qed

lemma booked_same:
  assumes b: "booked conf (d, R)" and "jobs_wf d'" and "\<And>q s. slack q s d' = slack q s d" and "\<And>q s. counter q s d' = counter q s d"
  shows "booked conf (d', R)"
  using bookedD [OF b] assms(2-4) by (intro bookedI) auto

lemma booked_give:
  assumes b: "booked conf (d, R)" and n: "0 \<le> n" "n \<le> R q s"
  shows "booked conf (queue_release q s n d, regrant R q s (- n))"
proof (rule bookedI)
  show "jobs_wf (queue_release q s n d)" using bookedD(1) [OF b] by (simp add: jobs_wf_def)
  fix q' s'
  have a: "active_in q' s' (queue_release q s n d) = active_in q' s' d" by (simp add: active_in_def)
  note c = counter_release [OF bookedD(6) [OF b, of q' s'], of q s n]
  have row: "shard_of d q s = None \<Longrightarrow> n = 0" using booked_row [OF b, of q s] n by fastforce
  show "0 \<le> regrant R q s (- n) q' s' \<and> regrant R q s (- n) q' s' \<le> slack q' s' (queue_release q s n d) \<and>
      counter q' s' (queue_release q s n d) \<le> limit_of conf q' s'"
  proof (cases "(q', s') = (q, s)")
    case True
    then show ?thesis
      using bookedD(3,4,6) [OF b, of q s] n c a row unfolding slack_counter by (cases "shard_of d q s") (auto simp: regrant_def)
  next
    case False
    then show ?thesis using bookedD(2-4) [OF b, of q' s'] c a unfolding slack_counter by (auto simp: regrant_def)
  qed
qed

lemma booked_take_gone:
  assumes b: "booked conf (d, R)" and run: "take_jobs req sh n locked now d = Inr ([], d')" and gone: "shard_of d (r_QueueID req) sh = None"
  shows "booked conf (d', R)"
proof -
  from run obtain d1 where c: "claim_sql req (nat n) sh locked now d = Inr ([], d1)"
    and d': "d' = (if 0 < n then queue_release (r_QueueID req) sh n d1 else d1)"
    by (auto simp: take_jobs_def result_simps)
  from c have d1: "jobs d1 = jobs d" "queue_shards d1 = queue_shards d"
    by (auto simp: claim_sql_def Let_def result_simps update_jobs_Inr_iff update_where_none split: if_split_asm)
  have "counter q s d' = counter q s d" for q s
    using counter_release [of d1 q s "r_QueueID req" sh n] bookedD(6) [OF b, of q s] gone d' d1(2) by (auto split: if_splits)
  moreover have "jobs d' = jobs d" using d' d1(1) by simp
  ultimately show ?thesis
    using bookedD(1) [OF b] active_in_same [of d' d] by (intro booked_same [OF b]) (simp_all add: slack_counter jobs_wf_def)
qed

lemma slot_step_booked:
  assumes "slot_step conf clib alib st st'" and "booked conf st"
  shows "booked conf st'"
  using assms
proof (induction rule: slot_step.induct)
  case admit
  then show ?case by (blast intro: booked_admit)
next
  case take
  then show ?case by (blast intro: booked_take)
next
  case take_gone
  then show ?case by (blast intro: booked_take_gone)
next
  case give
  then show ?case by (blast intro: booked_give)
next
  case (forget R' R d)
  then show ?case by (intro bookedI) (auto dest: bookedD intro: order_trans)
next
  case (tx d d' R)
  note k = slots_kept_slack [OF job_tx_slots [OF tx(1)] bookedD(1,5) [OF tx(2)]]
  show ?case
  proof (rule bookedI)
    show "jobs_wf d'" by (rule k(1))
    fix q s
    show "0 \<le> void d' R q s \<and> void d' R q s \<le> slack q s d' \<and> counter q s d' \<le> limit_of conf q s"
      using bookedD(2-4) [OF tx(2), of q s] k(2,3,6) [of q s] by (auto simp: void_def)
  qed
next
  case (create ulib i rq sc now d v d' R)
  have "slots_same d d'" using assuresD [OF slots_createQueue create(1)] .
  then show ?case using bookedD(1,5) [OF create(2)] by (intro booked_same [OF create(2)]) (simp_all add: slots_same_def)
next
  case (update ulib rq sc now d v d' R)
  have "slots_same d d'" using assuresD [OF slots_updateQueue update(1)] .
  then show ?case using bookedD(1,5) [OF update(2)] by (intro booked_same [OF update(2)]) (simp_all add: slots_same_def)
next
  case (quiet d' d R)
  have "slots_same d d'" using slots_frame(2) [OF quiet(1,2)] .
  then show ?case using bookedD(1,5) [OF quiet(3)] by (intro booked_same [OF quiet(3)]) (simp_all add: slots_same_def)
qed

interpretation slot_system: transition_system "booked conf" "slot_step conf clib alib" "booked conf" for conf clib alib
  by unfold_locales (auto intro: slot_step_booked)

section \<open>The limit\<close>

lemma count_by_shard:
  assumes "\<forall>j \<in> set js. P j \<longrightarrow> 0 \<le> j_shard j \<and> j_shard j < k"
  shows "int (count_where P js) = (\<Sum>s \<in> {0..<k}. int (count_where (\<lambda>j. P j \<and> j_shard j = s) js))"
  using assms
proof (induction js)
  case (Cons j js)
  have one: "(\<Sum>s \<in> {0..<k}. if P j \<and> j_shard j = s then 1 else 0) = (if P j then 1 else (0::int))"
    using Cons.prems by (auto simp: sum.delta)
  have "(\<Sum>s \<in> {0..<k}. int (count_where (\<lambda>j. P j \<and> j_shard j = s) (j # js))) =
      (\<Sum>s \<in> {0..<k}. (if P j \<and> j_shard j = s then 1 else 0) + int (count_where (\<lambda>j. P j \<and> j_shard j = s) js))"
    by (intro sum.cong) (auto simp: count_where_def)
  also have "\<dots> = (if P j then 1 else 0) + int (count_where P js)" using Cons one by (simp add: sum.distrib)
  finally show ?case by (simp add: count_where_def)
qed (simp add: count_where_def)

lemma booked_limit:
  assumes b: "booked conf (d, R)" and k: "0 < snd (conf q)"
  shows "int (count_where (\<lambda>j. j_queue_id j = q \<and> active (j_status j)) (jobs d)) \<le> fst (conf q)"
proof -
  let ?k = "snd (conf q)" and ?P = "\<lambda>j. j_queue_id j = q \<and> active (j_status j)"
  have le: "int (active_in q s d) \<le> limit_of conf q s" for s
    using bookedD(4,5) [OF b, of q s] unfolding slack_counter by linarith
  have eq: "count_where (\<lambda>j. ?P j \<and> j_shard j = s) (jobs d) = active_in q s d" for s
    unfolding active_in_def by (rule count_where_cong) auto
  have "0 \<le> j_shard j \<and> j_shard j < ?k" if j: "j \<in> set (jobs d)" "?P j" for j
  proof (rule ccontr)
    assume "\<not> (0 \<le> j_shard j \<and> j_shard j < ?k)"
    then have "active_in q (j_shard j) d = 0" using le [of "j_shard j"] by (simp add: limit_of_def split: if_split_asm)
    then show False using j unfolding active_in_def count_where_zero_iff by blast
  qed
  then have "int (count_where ?P (jobs d)) = (\<Sum>s \<in> {0..<?k}. int (active_in q s d))"
    using count_by_shard [of "jobs d" ?P ?k] unfolding eq by blast
  also have "\<dots> \<le> (\<Sum>s \<in> {0..<?k}. shard_slots (fst (conf q)) ?k s)"
    using le by (intro sum_mono) (simp add: limit_of_def split: if_split_asm, metis)
  also have "\<dots> = fst (conf q)" using k by (rule shard_slots_sum)
  finally show ?thesis .
qed


definition sample_conf :: "uuid \<Rightarrow> int \<times> int" where
  "sample_conf q = (if q = q_id sample_queue then (q_max_concurrency sample_queue, q_shards sample_queue) else (0, 1))"

lemma sample_booked: "booked sample_conf (sample_db, \<lambda>_ _. 0)"
proof (rule bookedI)
  show "jobs_wf sample_db" by (rule sample_wf)
  fix q s
  show "(0::int) \<le> 0 \<and> 0 \<le> slack q s sample_db \<and> counter q s sample_db \<le> limit_of sample_conf q s"
    by (auto simp: slack_def cnt_def active_in_def count_where_def limit_of_def sample_conf_def shard_slots_def sample_defs)
qed


end
