(* ===== verification/Events.thy ===== *)
theory Events
  imports JobsApi
begin

text \<open>
  \<open>events.go\<close> and \<open>stream.go\<close>: the outbox as clients read it, in pages (\<open>listEvents\<close>) and pushed over a websocket
  (\<open>pump\<close>), and the bookkeeping of open streams (\<open>subscribe\<close>, \<open>release\<close>, \<open>wake\<close>) that the server shares among
  its handlers under a lock.

  A stream runs next to everything else, so each of its queries sees another database; \<open>pump_round\<close> is what one
  turn of the loop meets. When the loop waits, it waits for the waker, for two seconds or for the end of the
  connection: how long it waits does not matter to what it sends, the end is the end of the list of turns. The websocket is
  \<open>github.com/coder/websocket\<close>; whether a write succeeded is part of the turn.
\<close>

section \<open>Reading the outbox\<close>

record eventView =
  ev_ID :: int
  ev_Topic :: string
  ev_EntityID :: uuid
  ev_Payload :: json_object
  ev_CreatedAt :: timestamptz

definition event_view :: "event \<Rightarrow> eventView" where
  "event_view e = \<lparr>ev_ID = e_id e, ev_Topic = e_topic e, ev_EntityID = e_entity_id e, ev_Payload = e_payload e, ev_CreatedAt = e_created_at e\<rparr>"

definition event_rows :: "uuid \<Rightarrow> int \<Rightarrow> nat \<Rightarrow> db \<Rightarrow> event list" where
  "event_rows p after limit d = order_limit e_id limit (filter (\<lambda>e. e_project_id e = p \<and> after < e_id e) (events d))"

definition afterID :: "'q request \<Rightarrow> api_error + int" where
  "afterID r =
    (let v = rq_query r ''after'' in
     if v = '''' then Inr 0
     else case parse_int v of
       None \<Rightarrow> Inl (badRequest ''invalid after'')
     | Some n \<Rightarrow> if n < 0 then Inl (badRequest ''invalid after'') else Inr n)"

text \<open>\<open>after+1 < low\<close>, in 64 bits.\<close>

definition too_old :: "int \<Rightarrow> db \<Rightarrow> bool" where
  "too_old after d \<longleftrightarrow> signed_take_bit 63 (after + 1) < low_water_id d"

definition next_id :: "int \<Rightarrow> event list \<Rightarrow> int" where
  "next_id after es = (if es = [] then after else e_id (last es))"

definition listEvents :: "('q, eventView list \<times> int) scoped" where
  "listEvents r sc now =
    (case afterID r of
       Inl e \<Rightarrow> afail e
     | Inr after \<Rightarrow>
        abind (exec_sql (reads (\<lambda>d. (low_water_id d, too_old after d)))) (\<lambda>(low, old).
        if old then afail (tooOld (''events before '' @ int_text low @ '' have been dropped''))
        else abind (exec_sql (reads (event_rows (sc_projectID sc) after (nat (pageLimit r))))) (\<lambda>es.
          aret (answer 0 (Some (map event_view es, next_id after es)) 0 None))))"

section \<open>The stream\<close>

definition streamsPerUser :: nat where "streamsPerUser = 4"
definition streamBatch :: nat where "streamBatch = 1000"

record frame =
  fr_Type :: string
  fr_PrevID :: int
  fr_Next :: int
  fr_More :: bool
  fr_Oldest :: int
  fr_Events :: "eventView list"

datatype pump_round =
  Query_fails
| Queried db bool  \<comment> \<open>the database the query sees, and whether the write succeeds\<close>

definition batch_frame :: "int \<Rightarrow> event list \<Rightarrow> frame" where
  "batch_frame after es = \<lparr>fr_Type = ''batch'', fr_PrevID = after, fr_Next = next_id after es, fr_More = (length es = streamBatch),
     fr_Oldest = 0, fr_Events = map event_view es\<rparr>"

text \<open>The frames written and the position at the end.\<close>

fun pump_loop :: "uuid \<Rightarrow> int \<Rightarrow> pump_round list \<Rightarrow> frame list \<times> int" where
  "pump_loop p after [] = ([], after)"
| "pump_loop p after (Query_fails # rs) = ([], after)"
| "pump_loop p after (Queried d sent # rs) =
    (let es = event_rows p after streamBatch d in
     if es = [] then pump_loop p after rs
     else if \<not> sent then ([], after)
     else case pump_loop p (next_id after es) rs of (fs, a) \<Rightarrow> (batch_frame after es # fs, a))"

definition pump :: "uuid \<Rightarrow> int \<Rightarrow> db option \<Rightarrow> bool \<Rightarrow> pump_round list \<Rightarrow> frame list" where
  "pump p after low sent rs =
    (case low of
       None \<Rightarrow> []
     | Some d \<Rightarrow>
        if too_old after d
        then (if sent then [\<lparr>fr_Type = ''cursor_too_old'', fr_PrevID = after, fr_Next = 0, fr_More = False, fr_Oldest = low_water_id d, fr_Events = []\<rparr>] else [])
        else fst (pump_loop p after rs))"

section \<open>Open streams\<close>

text \<open>
  The server's fields: streams per user, the wakers with what their channel (of capacity one) holds, and whether a
  listener runs (\<open>stopListen\<close> is set). A channel is named by a number.
\<close>

record hub =
  hb_streams :: "uuid \<Rightarrow> nat option"
  hb_wakers :: "nat \<Rightarrow> bool option"
  hb_listening :: bool

definition no_streams :: hub where
  "no_streams = \<lparr>hb_streams = (\<lambda>_. None), hb_wakers = (\<lambda>_. None), hb_listening = False\<rparr>"

definition open_streams :: "hub \<Rightarrow> uuid \<Rightarrow> nat" where
  "open_streams h u = (case hb_streams h u of None \<Rightarrow> 0 | Some n \<Rightarrow> n)"

definition subscribe :: "uuid \<Rightarrow> nat \<Rightarrow> hub \<Rightarrow> api_error + hub" where
  "subscribe u ch h =
    (if streamsPerUser \<le> open_streams h u then Inl (tooMany ''too many event streams open'' 30)
     else let ws = (hb_wakers h)(ch \<mapsto> False)
          in Inr \<lparr>hb_streams = (hb_streams h)(u \<mapsto> open_streams h u + 1), hb_wakers = ws,
                  hb_listening = (if card (dom ws) = 1 then True else hb_listening h)\<rparr>)"

definition release :: "uuid \<Rightarrow> nat \<Rightarrow> hub \<Rightarrow> hub" where
  "release u ch h =
    (let ws = (hb_wakers h)(ch := None); n = open_streams h u - 1
     in \<lparr>hb_streams = (if n = 0 then (hb_streams h)(u := None) else (hb_streams h)(u \<mapsto> n)), hb_wakers = ws,
         hb_listening = (if dom ws = {} then False else hb_listening h)\<rparr>)"

text \<open>A non-blocking send into every channel; and a waiting stream that takes what its channel holds.\<close>

definition wake :: "hub \<Rightarrow> hub" where
  "wake h = h\<lparr>hb_wakers := (\<lambda>ch. map_option (\<lambda>_. True) (hb_wakers h ch))\<rparr>"

definition consume :: "nat \<Rightarrow> hub \<Rightarrow> hub" where
  "consume ch h = h\<lparr>hb_wakers := (\<lambda>c. if c = ch then map_option (\<lambda>_. False) (hb_wakers h c) else hb_wakers h c)\<rparr>"

text \<open>
  \<open>streamEvents\<close> up to the first byte: the caller must see the project, the position must be readable, and there must be
  a stream left. What it returns is the error answer, or the user, the project, the position and the new hub.
\<close>

definition stream_tx :: "uuid_lib \<Rightarrow> 'q request \<Rightarrow> timestamptz \<Rightarrow> (uuid \<times> scope) atx" where
  "stream_tx lib r now =
     abind (authuser lib r now) (\<lambda>(uid, sid) d.
       case byPath lib ''projectId'' projectScope r uid d of
         Inl e \<Rightarrow> Inl e
       | Inr None \<Rightarrow> Inl (Api (notFound ''project''))
       | Inr (Some sc) \<Rightarrow> if sc_role sc < viewer then Inl (Api forbidden) else Inr ((uid, sc), d))"

definition stream_open :: "uuid_lib \<Rightarrow> (nat \<Rightarrow> tx_env) \<Rightarrow> 'q request \<Rightarrow> nat \<Rightarrow> hub \<Rightarrow> db \<Rightarrow> ('b response + uuid \<times> uuid \<times> int \<times> hub) \<times> db" where
  "stream_open lib env r ch h d =
    (case run_in_tx env (stream_tx lib r) d of
       (Inl e, d1) \<Rightarrow> (Inl (writeError (rq_id r) e), d1)
     | (Inr (uid, sc), d1) \<Rightarrow>
        (case afterID r of
           Inl e \<Rightarrow> (Inl (writeError (rq_id r) (Api e)), d1)
         | Inr after \<Rightarrow>
            (case subscribe uid ch h of
               Inl e \<Rightarrow> (Inl (writeError (rq_id r) (Api e)), d1)
             | Inr h1 \<Rightarrow> (Inr (uid, sc_projectID sc, after, h1), d1))))"

section \<open>What a reader of the outbox gets\<close>

definition unseen :: "uuid \<Rightarrow> int \<Rightarrow> db \<Rightarrow> event set" where
  "unseen p after d = {e \<in> set (events d). e_project_id e = p \<and> after < e_id e}"

text \<open>
  The outbox between two looks at it, beyond \<open>after\<close>: nothing of the project is dropped, and what is new comes later.
  (\<open>fl.emit\<close> takes a lock per project, so the events of a project commit in the order of their ids.)
\<close>

definition grows :: "uuid \<Rightarrow> int \<Rightarrow> db \<Rightarrow> db \<Rightarrow> bool" where
  "grows p after d d' \<longleftrightarrow> unseen p after d \<subseteq> unseen p after d' \<and>
     (\<forall>e \<in> unseen p after d' - unseen p after d. \<forall>x \<in> unseen p after d. e_id x < e_id e)"

definition event_keys :: "db \<Rightarrow> bool" where
  "event_keys d \<longleftrightarrow> distinct (map e_id (events d))"

lemma grows_refl: "grows p after d d"
  by (simp add: grows_def)

lemma grows_mono: "grows p after d d' \<Longrightarrow> after \<le> cur \<Longrightarrow> grows p cur d d'"
  unfolding grows_def unseen_def by fastforce

lemma sorted_key_strict: "sorted (map k xs) \<Longrightarrow> distinct (map k xs) \<Longrightarrow> sorted_wrt (<) (map k xs)"
  by (simp add: strict_sorted_iff)

lemma rows_strict: "event_keys d \<Longrightarrow> sorted_wrt (<) (map e_id (event_rows p after n d))"
  unfolding event_rows_def event_keys_def
  by (intro sorted_key_strict sorted_order_limit distinct_order_limit distinct_map_filter)

lemma rows_le_last: "event_keys d \<Longrightarrow> e \<in> set (event_rows p after n d) \<Longrightarrow> e_id e \<le> next_id after (event_rows p after n d)"
proof -
  assume keys: "event_keys d" and e: "e \<in> set (event_rows p after n d)"
  let ?es = "event_rows p after n d"
  have srt: "sorted (map e_id ?es)" unfolding event_rows_def by (rule sorted_order_limit)
  obtain i where i: "i < length ?es" "e = ?es ! i" using e by (metis in_set_conv_nth)
  have "map e_id ?es ! i \<le> map e_id ?es ! (length ?es - 1)"
    using srt i by (intro sorted_nth_mono) auto
  then show ?thesis using i by (auto simp: next_id_def last_conv_nth)
qed

text \<open>One page is exactly the unseen events up to its last one; a page that is not full leaves nothing.\<close>

lemma rows_exact:
  assumes keys: "event_keys d" and n: "0 < n"
  shows "set (event_rows p after n d) = {e \<in> unseen p after d. e_id e \<le> next_id after (event_rows p after n d)}"
    and "length (event_rows p after n d) < n \<Longrightarrow> set (event_rows p after n d) = unseen p after d"
    and "event_rows p after n d = [] \<Longrightarrow> unseen p after d = {}"
proof -
  let ?fs = "filter (\<lambda>e. e_project_id e = p \<and> after < e_id e) (events d)" and ?es = "event_rows p after n d"
  have u: "unseen p after d = set ?fs" by (auto simp: unseen_def)
  have sub: "set ?es \<subseteq> set ?fs" unfolding event_rows_def by (rule set_order_limit)
  have dst: "distinct (map e_id ?fs)" using keys unfolding event_keys_def by (rule distinct_map_filter)
  show all: "set ?es = unseen p after d" if "length ?es < n"
  proof -
    have "length ?fs \<le> n" using that by (simp add: event_rows_def)
    then show ?thesis unfolding u event_rows_def order_limit_def by simp
  qed
  then show "unseen p after d = {}" if "?es = []" using that n by simp
  have "e \<in> set ?es" if e: "e \<in> set ?fs" "e_id e \<le> next_id after ?es" for e
  proof (rule ccontr)
    assume out: "e \<notin> set ?es"
    have "?es \<noteq> []" using e(1) out all n unfolding u by force
    then have l: "last ?es \<in> set ?es" "next_id after ?es = e_id (last ?es)" by (simp_all add: next_id_def)
    have "e_id (last ?es) \<le> e_id e" using order_limit_minimal [of "last ?es" e_id n ?fs e] l(1) e(1) out unfolding event_rows_def by blast
    with e(2) l(2) have "e_id e = e_id (last ?es)" by simp
    with key_unique [OF dst e(1)] l(1) sub have "e = last ?es" by blast
    with out l(1) show False by simp
  qed
  then show "set ?es = {e \<in> unseen p after d. e_id e \<le> next_id after ?es}"
    using sub rows_le_last [OF keys] unfolding u by blast
qed

fun snaps :: "pump_round list \<Rightarrow> db list" where
  "snaps [] = []"
| "snaps (Query_fails # rs) = snaps rs"
| "snaps (Queried d sent # rs) = d # snaps rs"

text \<open>Each frame starts where the one before it ended.\<close>

fun chained :: "int \<Rightarrow> frame list \<Rightarrow> int \<Rightarrow> bool" where
  "chained after [] a \<longleftrightarrow> a = after"
| "chained after (f # fs) a \<longleftrightarrow> fr_PrevID f = after \<and> chained (fr_Next f) fs a"

lemma next_id_mem: "es \<noteq> [] \<Longrightarrow> \<exists>e \<in> set es. next_id after es = e_id e"
  by (auto simp: next_id_def)

lemma page_in_later:
  assumes keys: "event_keys d" and grow: "grows p cur d l" and ne: "event_rows p cur n d \<noteq> []" and n: "0 < n"
  shows "set (event_rows p cur n d) = {e \<in> unseen p cur l. e_id e \<le> next_id cur (event_rows p cur n d)}"
proof -
  let ?es = "event_rows p cur n d"
  obtain x where x: "x \<in> set ?es" "next_id cur ?es = e_id x" using next_id_mem [OF ne] by blast
  then have "x \<in> unseen p cur d" using rows_exact(1) [OF keys n] by blast
  then have "e \<in> unseen p cur d" if "e \<in> unseen p cur l" "e_id e \<le> next_id cur ?es" for e
    using grow that x(2) unfolding grows_def by (metis Diff_iff leD)
  moreover have "unseen p cur d \<subseteq> unseen p cur l" using grow by (simp add: grows_def)
  ultimately show ?thesis using rows_exact(1) [OF keys n, of p cur] by blast
qed

lemma pump_loop_exact:
  assumes "pump_loop p cur rs = (fs, a)" and "after \<le> cur"
    and "\<forall>d \<in> set (snaps rs). event_keys d \<and> grows p after d l"
  shows "\<exists>es. concat (map fr_Events fs) = map event_view es \<and> sorted_wrt (<) (map e_id es) \<and> cur \<le> a \<and> chained cur fs a \<and>
    set es = {e \<in> unseen p cur l. e_id e \<le> a}"
  using assms
proof (induction p cur rs arbitrary: fs a rule: pump_loop.induct)
  case (3 p cur d sent rs)
  let ?es = "event_rows p cur streamBatch d"
  have keys: "event_keys d" and grow: "grows p cur d l" using "3.prems"(2,3) grows_mono by auto
  have rest: "\<forall>d \<in> set (snaps rs). event_keys d \<and> grows p after d l" using "3.prems"(3) by simp
  consider "?es = []" | "?es \<noteq> []" "\<not> sent" | "?es \<noteq> []" sent by blast
  then show ?case
  proof cases
    case 1
    with "3.prems" "3.IH"(1) rest show ?thesis by simp
  next
    case 2
    with "3.prems" have "fs = []" "a = cur" by simp_all
    then show ?thesis by (intro exI [of _ "[]"]) (auto simp: unseen_def)
  next
    case 3
    let ?n = "next_id cur ?es"
    obtain gs where loop: "pump_loop p ?n rs = (gs, a)" and fs: "fs = batch_frame cur ?es # gs"
      using "3.prems"(1) 3 by (auto simp: Let_def split: prod.split_asm)
    obtain x where x: "x \<in> set ?es" "?n = e_id x" using next_id_mem [OF 3(1)] by blast
    have cur: "cur < ?n" using x rows_exact(1) [OF keys, of streamBatch p cur] by (auto simp: unseen_def streamBatch_def)
    from "3.IH"(2) [OF refl 3(1) _ loop] 3(2) "3.prems"(2) cur rest obtain es where es: "concat (map fr_Events gs) = map event_view es"
      "sorted_wrt (<) (map e_id es)" "?n \<le> a" "chained ?n gs a" "set es = {e \<in> unseen p ?n l. e_id e \<le> a}" by auto
    have page: "set ?es = {e \<in> unseen p cur l. e_id e \<le> ?n}"
      by (rule page_in_later [OF keys grow 3(1)]) (simp add: streamBatch_def)
    have "set (?es @ es) = {e \<in> unseen p cur l. e_id e \<le> a}"
      unfolding set_append page es(5) using cur es(3) by (auto simp: unseen_def)
    moreover have "sorted_wrt (<) (map e_id (?es @ es))"
      using rows_strict [OF keys, of p cur streamBatch] es(2,5) rows_le_last [OF keys, of _ p cur streamBatch]
      by (fastforce simp: sorted_wrt_append unseen_def)
    ultimately show ?thesis
      using es(1,3,4) cur by (intro exI [of _ "?es @ es"]) (simp add: fs batch_frame_def)
  qed
qed (auto simp: unseen_def intro!: exI [of _ "[]"])

lemma pump_loop_complete:
  assumes "pump_loop p cur (map (\<lambda>d. Queried d True) ds) = (fs, a)" and "ds \<noteq> []" and "\<forall>d \<in> set ds. event_keys d"
    and "fs = [] \<or> \<not> fr_More (last fs)"
  shows "unseen p a (last ds) = {}"
  using assms
proof (induction ds arbitrary: cur fs)
  case (Cons d ds)
  let ?es = "event_rows p cur streamBatch d"
  have keys: "event_keys d" and pos: "0 < streamBatch" using Cons.prems(3) by (simp_all add: streamBatch_def)
  show ?case
  proof (cases "?es = []")
    case True
    with Cons.prems(1) have loop: "pump_loop p cur (map (\<lambda>d. Queried d True) ds) = (fs, a)" by simp
    show ?thesis
    proof (cases "ds = []")
      case True
      with loop \<open>?es = []\<close> rows_exact(3) [OF keys pos] show ?thesis by simp
    next
      case False
      then show ?thesis using Cons.IH [OF loop False] Cons.prems(3,4) by simp
    qed
  next
    case False
    then obtain gs where loop: "pump_loop p (next_id cur ?es) (map (\<lambda>d. Queried d True) ds) = (gs, a)" and fs: "fs = batch_frame cur ?es # gs"
      using Cons.prems(1) by (auto simp: Let_def split: prod.split_asm)
    show ?thesis
    proof (cases "ds = []")
      case True
      with loop have g: "gs = []" "a = next_id cur ?es" by simp_all
      have "length ?es \<noteq> streamBatch" using Cons.prems(4) by (simp add: fs g batch_frame_def)
      moreover have "length ?es \<le> streamBatch" by (simp add: event_rows_def)
      ultimately have "set ?es = unseen p cur d" using rows_exact(2) [OF keys pos, of p cur] by simp
      then have "\<forall>e \<in> unseen p cur d. e_id e \<le> a" using rows_exact(1) [OF keys pos, of p cur] g(2) by blast
      moreover have "cur \<le> a" using next_id_mem [OF False] rows_exact(1) [OF keys pos, of p cur] unfolding g(2) by (force simp: unseen_def)
      ultimately show ?thesis using True by (force simp: unseen_def)
    next
      case False
      have "gs = [] \<or> \<not> fr_More (last gs)" using Cons.prems(4) by (cases gs) (simp_all add: fs)
      then show ?thesis using Cons.IH [OF loop False] Cons.prems(3) False by simp
    qed
  qed
qed simp

text \<open>
  C34. A stream delivers every event of its project after the client's position exactly once, in order, whatever happens
  meanwhile. Its turns see the database at different times, and events keep being emitted between them. The
  frames chain (each starts at the id the previous one ended with), the ids in them strictly increase, and
  together they hold exactly the project's events between the client's position and the final one, judged by any
  database all the looked-at ones grow into. If every turn succeeds and the last frame does not announce more, nothing
  in the last database is missing. A position before the low-water mark gets one frame that says so and no events.
\<close>

theorem stream_delivers_exactly_once:
  assumes run: "pump_loop p after rs = (fs, a)" and grow: "\<forall>d \<in> set (snaps rs). event_keys d \<and> grows p after d l"
  shows "(\<exists>es. concat (map fr_Events fs) = map event_view es \<and> sorted_wrt (<) (map e_id es) \<and> after \<le> a \<and> chained after fs a \<and>
      set es = {e \<in> unseen p after l. e_id e \<le> a}) \<and>
    (rs = map (\<lambda>d. Queried d True) ds \<and> ds \<noteq> [] \<and> (fs = [] \<or> \<not> fr_More (last fs)) \<longrightarrow> unseen p a (last ds) = {}) \<and>
    (too_old after d0 \<longrightarrow> (\<exists>f. pump p after (Some d0) True rs = [f] \<and> fr_Type f = ''cursor_too_old'' \<and> fr_Events f = [])) \<and>
    (\<not> too_old after d0 \<longrightarrow> pump p after (Some d0) sent rs = fs)"
proof -
  have keys: "\<forall>d \<in> set ds. event_keys d" if "rs = map (\<lambda>d. Queried d True) ds"
  proof -
    have "snaps (map (\<lambda>d. Queried d True) ds) = ds" by (induction ds) simp_all
    with that grow show ?thesis by simp
  qed
  then have "unseen p a (last ds) = {}" if "rs = map (\<lambda>d. Queried d True) ds" "ds \<noteq> []" "fs = [] \<or> \<not> fr_More (last fs)"
    using pump_loop_complete [OF run [unfolded that(1)] that(2)] that by blast
  then show ?thesis using pump_loop_exact [OF run order.refl grow] run by (simp add: pump_def)
qed

section \<open>The hub keeps count\<close>

text \<open>
  The handlers that have subscribed and not yet released, by channel: a handler opens a stream on a channel of its own
  and closes it once, however the connection ends.
\<close>

type_synonym hub_state = "hub \<times> (nat \<Rightarrow> uuid option)"

inductive hub_step :: "hub_state \<Rightarrow> hub_state \<Rightarrow> bool" where
  opened: "subs ch = None \<Longrightarrow> subscribe u ch h = Inr h' \<Longrightarrow> hub_step (h, subs) (h', subs(ch \<mapsto> u))"
| refused: "subs ch = None \<Longrightarrow> subscribe u ch h = Inl e \<Longrightarrow> hub_step (h, subs) (h, subs)"
| closed: "subs ch = Some u \<Longrightarrow> hub_step (h, subs) (release u ch h, subs(ch := None))"
| notified: "hb_listening h \<Longrightarrow> hub_step (h, subs) (wake h, subs)"
| woken: "hub_step (h, subs) (consume ch h, subs)"

definition streams_of :: "(nat \<Rightarrow> uuid option) \<Rightarrow> uuid \<Rightarrow> nat set" where
  "streams_of subs u = {ch. subs ch = Some u}"

definition hub_ok :: "hub_state \<Rightarrow> bool" where
  "hub_ok s \<longleftrightarrow> (case s of (h, subs) \<Rightarrow> finite (dom subs) \<and> dom (hb_wakers h) = dom subs \<and>
     (\<forall>u. open_streams h u = card (streams_of subs u) \<and> hb_streams h u \<noteq> Some 0 \<and> card (streams_of subs u) \<le> streamsPerUser) \<and>
     (hb_listening h \<longleftrightarrow> dom subs \<noteq> {}))"

lemma finite_streams: "finite (dom subs) \<Longrightarrow> finite (streams_of subs u)"
  by (rule finite_subset [of _ "dom subs"]) (auto simp: streams_of_def)

lemma streams_of_add: "subs ch = None \<Longrightarrow> streams_of (subs(ch \<mapsto> u)) v = (if v = u then insert ch (streams_of subs u) else streams_of subs v)"
  by (auto simp: streams_of_def)

lemma streams_of_remove: "subs ch = Some u \<Longrightarrow> streams_of (subs(ch := None)) v = (if v = u then streams_of subs u - {ch} else streams_of subs v)"
  by (auto simp: streams_of_def)

lemma subscribe_keeps:
  assumes ok: "hub_ok (h, subs)" and new: "subs ch = None" and run: "subscribe u ch h = Inr h'"
  shows "hub_ok (h', subs(ch \<mapsto> u))"
proof -
  let ?ws = "(hb_wakers h)(ch \<mapsto> False)"
  have room: "open_streams h u < streamsPerUser" and h': "h' = \<lparr>hb_streams = (hb_streams h)(u \<mapsto> open_streams h u + 1), hb_wakers = ?ws,
      hb_listening = (if card (dom ?ws) = 1 then True else hb_listening h)\<rparr>"
    using run by (auto simp: subscribe_def Let_def split: if_split_asm)
  have fin: "finite (dom subs)" and dom: "dom (hb_wakers h) = dom subs" and lis: "hb_listening h \<longleftrightarrow> dom subs \<noteq> {}"
    and cnt: "\<And>v. open_streams h v = card (streams_of subs v)" "\<And>v. hb_streams h v \<noteq> Some 0" "\<And>v. card (streams_of subs v) \<le> streamsPerUser"
    using ok by (auto simp: hub_ok_def)
  have "ch \<notin> streams_of subs u" using new by (simp add: streams_of_def)
  then have "card (streams_of (subs(ch \<mapsto> u)) v) = (if v = u then open_streams h u + 1 else card (streams_of subs v))" for v
    using finite_streams [OF fin] cnt(1) by (simp add: streams_of_add [of subs ch, OF new])
  moreover have "open_streams h' v = (if v = u then open_streams h u + 1 else open_streams h v)" for v
    by (simp add: h' open_streams_def)
  moreover have "hb_streams h' v \<noteq> Some 0" for v using cnt(2) by (simp add: h')
  moreover have "dom ?ws = insert ch (dom subs)" using dom by auto
  moreover have "hb_listening h'" using lis fin dom calculation(4) by (auto simp: h')
  ultimately show ?thesis using fin cnt(1,3) room by (auto simp: hub_ok_def h')
qed

lemma release_keeps:
  assumes ok: "hub_ok (h, subs)" and mine: "subs ch = Some u"
  shows "hub_ok (release u ch h, subs(ch := None))"
proof -
  have fin: "finite (dom subs)" and dom: "dom (hb_wakers h) = dom subs" and lis: "hb_listening h \<longleftrightarrow> dom subs \<noteq> {}"
    and cnt: "\<And>v. open_streams h v = card (streams_of subs v)" "\<And>v. hb_streams h v \<noteq> Some 0" "\<And>v. card (streams_of subs v) \<le> streamsPerUser"
    using ok by (auto simp: hub_ok_def)
  have "ch \<in> streams_of subs u" using mine by (simp add: streams_of_def)
  then have card: "card (streams_of (subs(ch := None)) v) = (if v = u then open_streams h u - 1 else card (streams_of subs v))" for v
    using finite_streams [OF fin] cnt(1) by (simp add: streams_of_remove [of subs ch, OF mine])
  have opn: "open_streams (release u ch h) v = (if v = u then open_streams h u - 1 else open_streams h v)"
    and zero: "hb_streams (release u ch h) v \<noteq> Some 0" for v
    using cnt(2) by (auto simp: release_def open_streams_def Let_def)
  have dom': "dom (hb_wakers (release u ch h)) = dom (subs(ch := None))" using dom by (auto simp: release_def Let_def)
  have "dom subs \<noteq> {}" using mine by auto
  then have "hb_listening (release u ch h) \<longleftrightarrow> dom (hb_wakers (release u ch h)) \<noteq> {}" using lis unfolding release_def Let_def by simp
  then have "hb_listening (release u ch h) \<longleftrightarrow> dom (subs(ch := None)) \<noteq> {}" unfolding dom' .
  moreover have "card (streams_of (subs(ch := None)) v) \<le> streamsPerUser" for v using cnt(1,3) card by (auto intro: le_trans [OF diff_le_self])
  ultimately show ?thesis using fin cnt(1) card opn zero dom' by (simp add: hub_ok_def del: dom_eq_empty_conv)
qed

lemma dom_map_option: "dom (\<lambda>c. map_option f (g c)) = dom g"
  by (auto simp: dom_def)

lemma signal_keeps: "hub_ok (h, subs) \<Longrightarrow> hub_ok (wake h, subs)" "hub_ok (h, subs) \<Longrightarrow> hub_ok (consume ch h, subs)"
proof -
  have "dom (hb_wakers (consume ch h)) = dom (hb_wakers h)" by (auto simp: consume_def dom_def split: if_split_asm)
  then show "hub_ok (h, subs) \<Longrightarrow> hub_ok (consume ch h, subs)" by (simp add: hub_ok_def consume_def open_streams_def)
  show "hub_ok (h, subs) \<Longrightarrow> hub_ok (wake h, subs)" by (simp add: hub_ok_def wake_def open_streams_def dom_map_option)
qed

interpretation hub_run: transition_system "\<lambda>s. s = (no_streams, \<lambda>_. None)" hub_step hub_ok
proof
  show "s = (no_streams, \<lambda>_. None) \<Longrightarrow> hub_ok s" for s
    by (simp add: hub_ok_def no_streams_def open_streams_def streams_of_def)
  show "hub_ok s \<Longrightarrow> hub_step s s' \<Longrightarrow> hub_ok s'" for s s'
    by (erule hub_step.cases) (auto intro: subscribe_keeps release_keeps signal_keeps)
qed

text \<open>
  C35. However streams of any number of users open, close and are woken, the server's bookkeeping is exact: the count of a
  user is the number of streams it has open, never more than four, with no entry left for a user without streams; the
  fifth is refused with 429 and changes nothing; one listener runs exactly while somebody is subscribed. A
  notification leaves a signal for every open stream, also for one that is not waiting at that moment, so none is
  missed.
\<close>

theorem stream_bookkeeping_exact:
  assumes "reachable (\<lambda>s. s = (no_streams, \<lambda>_. None)) hub_step (h, subs)"
  shows "hb_streams h u = (if streams_of subs u = {} then None else Some (card (streams_of subs u))) \<and> card (streams_of subs u) \<le> 4 \<and>
    (hb_listening h \<longleftrightarrow> (\<exists>ch. subs ch \<noteq> None)) \<and>
    ((\<exists>e. subscribe u ch h = Inl e \<and> ae_status e = 429) \<longleftrightarrow> card (streams_of subs u) = 4) \<and>
    (\<forall>c. subs c \<noteq> None \<longrightarrow> hb_wakers (wake h) c = Some True) \<and> (\<forall>c. hb_wakers (wake h) c \<noteq> None \<longrightarrow> subs c \<noteq> None)"
proof -
  have ok: "hub_ok (h, subs)" using hub_run.reachable_inv [OF assms] .
  then have fin: "finite (dom subs)" and dom: "dom (hb_wakers h) = dom subs" and lis: "hb_listening h \<longleftrightarrow> dom subs \<noteq> {}"
    and cnt: "open_streams h u = card (streams_of subs u)" "hb_streams h u \<noteq> Some 0" "card (streams_of subs u) \<le> 4"
    by (auto simp: hub_ok_def streamsPerUser_def)
  have "hb_streams h u = (if streams_of subs u = {} then None else Some (card (streams_of subs u)))"
    using cnt(1,2) finite_streams [OF fin, of u] by (auto simp: open_streams_def split: option.split_asm)
  moreover have "hb_listening h \<longleftrightarrow> (\<exists>ch. subs ch \<noteq> None)" using lis by (auto simp: dom_def)
  moreover have "(\<exists>e. subscribe u ch h = Inl e \<and> ae_status e = 429) \<longleftrightarrow> card (streams_of subs u) = 4"
    using cnt by (auto simp: subscribe_def streamsPerUser_def tooMany_def Let_def)
  moreover have "hb_wakers (wake h) c = Some True" if "subs c \<noteq> None" for c
    using that dom by (auto simp: wake_def dom_def)
  moreover have "subs c \<noteq> None" if "hb_wakers (wake h) c \<noteq> None" for c
    using that dom by (auto simp: wake_def dom_def)
  ultimately show ?thesis using cnt(3) by blast
qed

section \<open>A sample stream\<close>

definition first_event :: event where
  "first_event = \<lparr>e_id = 1, e_topic = ''job.completed'', e_entity_id = 11, e_project_id = 3, e_payload = [], e_created_at = 0\<rparr>"

definition second_event :: event where
  "second_event = first_event\<lparr>e_id := 2\<rparr>"

lemma sample_rows:
  assumes "events d = [first_event]" and "events d' = [first_event, second_event]"
  shows "event_rows 3 0 streamBatch d = [first_event]" "event_rows 3 1 streamBatch d' = [second_event]"
  using assms by (simp_all add: event_rows_def order_limit_def streamBatch_def first_event_def second_event_def)

theorem stream_delivers_exactly_once_witness:
  "\<exists>fs. pump_loop 3 0 [Queried (sample_db\<lparr>events := [first_event]\<rparr>) True, Queried (sample_db\<lparr>events := [first_event, second_event]\<rparr>) True] = (fs, 2) \<and>
    length fs = 2 \<and> (\<exists>es. concat (map fr_Events fs) = map event_view es \<and> sorted_wrt (<) (map e_id es) \<and> set es = {first_event, second_event})"
proof -
  let ?d = "sample_db\<lparr>events := [first_event]\<rparr>" and ?l = "sample_db\<lparr>events := [first_event, second_event]\<rparr>"
  let ?rs = "[Queried ?d True, Queried ?l True]"
  have rows: "event_rows 3 0 streamBatch ?d = [first_event]" "event_rows 3 1 streamBatch ?l = [second_event]"
    by (rule sample_rows [of ?d ?l]; simp)+
  have ids: "next_id 0 [first_event] = 1" "next_id 1 [second_event] = 2"
    by (simp_all add: next_id_def first_event_def second_event_def)
  obtain fs where run: "pump_loop 3 0 ?rs = (fs, 2)" "length fs = 2"
    by (simp add: rows ids Let_def)
  have u: "unseen 3 0 ?d = {first_event}" "unseen 3 0 ?l = {first_event, second_event}"
    by (auto simp: unseen_def first_event_def second_event_def)
  have "\<forall>d \<in> set (snaps ?rs). event_keys d \<and> grows 3 0 d ?l"
    unfolding grows_def by (auto simp: u event_keys_def first_event_def second_event_def unseen_def)
  from stream_delivers_exactly_once [OF run(1) this, THEN conjunct1] obtain es where
    "concat (map fr_Events fs) = map event_view es" "sorted_wrt (<) (map e_id es)" "set es = {e \<in> unseen 3 0 ?l. e_id e \<le> 2}" by blast
  moreover have "{e \<in> unseen 3 0 ?l. e_id e \<le> 2} = {first_event, second_event}" unfolding u by (auto simp: first_event_def second_event_def)
  ultimately show ?thesis using run by auto
qed

theorem stream_bookkeeping_exact_witness:
  "\<exists>h. subscribe 1 0 no_streams = Inr h \<and> hb_streams h 1 = Some 1 \<and> hb_listening h \<and> hb_wakers (wake h) 0 = Some True"
proof -
  obtain h where sub: "subscribe 1 0 no_streams = Inr h"
    by (simp add: subscribe_def no_streams_def open_streams_def streamsPerUser_def Let_def)
  have "hub_step (no_streams, \<lambda>_. None) (h, (\<lambda>_. None)(0 \<mapsto> 1))" using sub by (intro hub_step.opened) simp_all
  then have "reachable (\<lambda>s. s = (no_streams, \<lambda>_. None)) hub_step (h, (\<lambda>_. None)(0 \<mapsto> 1))"
    by (rule reachable.more [rotated]) (rule reachable.start, simp)
  moreover have "streams_of ((\<lambda>_. None)(0 \<mapsto> 1)) 1 = {0}" by (auto simp: streams_of_def split: if_split_asm)
  ultimately show ?thesis using stream_bookkeeping_exact [of h "(\<lambda>_. None)(0 \<mapsto> 1)" 1] sub by (auto split: if_split_asm)
qed

end
