(* ===== verification/Stats.thy ===== *)
theory Stats
  imports ConfigApi
begin

text \<open>
  What the dashboard reads: \<open>batches.go\<close>, \<open>workers.go\<close>, \<open>stats.go\<close>, \<open>health.go\<close> and \<open>summary.go\<close>. The handlers only
  read. A \<open>group by\<close> is the list of its groups; \<open>extract(epoch ...)::int\<close> rounds to whole seconds. The ages a client
  gets as \<open>float64\<close> are rationals here. Counts do not exceed the width of an \<open>int\<close>.
\<close>

section \<open>Batches\<close>

definition group_status :: "(job \<Rightarrow> bool) \<Rightarrow> db \<Rightarrow> (string \<times> nat) list" where
  "group_status P d =
     map (\<lambda>s. (status_text s, count_where (\<lambda>j. P j \<and> j_status j = s) (jobs d))) (remdups (map j_status (filter P (jobs d))))"

fun add_count :: "string \<times> nat \<Rightarrow> (string \<Rightarrow> nat option) \<Rightarrow> string \<Rightarrow> nat option" where
  "add_count (st, n) m = m(st \<mapsto> n)"

definition tally :: "(string \<times> nat) list \<Rightarrow> string \<Rightarrow> nat option" where
  "tally rows = fold add_count rows (\<lambda>_. None)"

record batchView =
  bt_batch_id :: uuid
  bt_total :: nat
  bt_done :: nat
  bt_complete :: bool
  bt_status_counts :: "string \<Rightarrow> nat option"

definition getBatch :: "('q, batchView) scoped" where
  "getBatch r sc now =
     abind (exec_sql (reads (group_status (\<lambda>j. j_batch_id j = Some (sc_entityID sc))))) (\<lambda>rows.
     let total = sum_list (map snd rows);
         fin = sum_list (map snd (filter (\<lambda>(st, n). st \<in> {''completed'', ''dead_letter'', ''cancelled''}) rows))
     in if total = 0 then afail (notFound ''batch'')
        else aret (answer 200 (Some \<lparr>bt_batch_id = sc_entityID sc, bt_total = total, bt_done = fin, bt_complete = (fin = total),
          bt_status_counts = tally rows\<rparr>) 0 None))"

section \<open>Workers\<close>

record workerView =
  wv_ID :: uuid
  wv_Hostname :: string
  wv_PID :: int
  wv_State :: Schema.worker_state
  wv_MaxConcurrency :: int
  wv_Leases :: nat
  wv_StartedAt :: timestamptz
  wv_LastSeenAt :: timestamptz

definition worker_view :: "db \<Rightarrow> worker_row \<Rightarrow> workerView" where
  "worker_view d w = \<lparr>wv_ID = w_id w, wv_Hostname = w_hostname w, wv_PID = w_pid w, wv_State = w_state w,
     wv_MaxConcurrency = w_max_concurrency w, wv_Leases = count_where (\<lambda>l. l_worker_id l = w_id w) (job_leases d),
     wv_StartedAt = w_started_at w, wv_LastSeenAt = w_last_seen_at w\<rparr>"

definition listWorkers :: "('q, workerView list) scoped" where
  "listWorkers r sc now =
     abind (exec_sql (reads (\<lambda>d. map (worker_view d)
       (sort_key (\<lambda>w. - w_last_seen_at w) (filter (\<lambda>w. w_project_id w = sc_projectID sc) (workers d)))))) (\<lambda>out.
     aret (answer 200 (Some out) 0 None))"

section \<open>Statistics of a queue\<close>

definition staleWorker :: interval where
  "staleWorker = 30000000"

definition ready_now :: "timestamptz \<Rightarrow> job \<Rightarrow> bool" where
  "ready_now now j \<longleftrightarrow> j_status j = Queued \<and> j_run_at j \<le> now"

definition whole_seconds :: "interval \<Rightarrow> int" where
  "whole_seconds x = (x + 500000) div 1000000"

definition oldest_ready :: "uuid \<Rightarrow> timestamptz \<Rightarrow> db \<Rightarrow> rat option" where
  "oldest_ready q now d =
    (let js = filter (\<lambda>j. j_queue_id j = q \<and> ready_now now j) (jobs d)
     in if js = [] then None else Some (of_int (now - Min (j_run_at ` set js)) / 1000000))"

record tier =
  tr_Priority :: int
  tr_OldestSeconds :: int
  tr_Ready :: nat

definition make_tier :: "timestamptz \<Rightarrow> job list \<Rightarrow> int \<Rightarrow> tier" where
  "make_tier now js p =
    (let g = filter (\<lambda>j. j_priority j = p) js
     in \<lparr>tr_Priority = p, tr_OldestSeconds = whole_seconds (now - Min (j_run_at ` set g)), tr_Ready = length g\<rparr>)"

definition oldest_by_tier :: "uuid \<Rightarrow> timestamptz \<Rightarrow> db \<Rightarrow> tier list" where
  "oldest_by_tier q now d =
    (let js = filter (\<lambda>j. j_queue_id j = q \<and> ready_now now j) (jobs d)
     in map (make_tier now js) (sort_key uminus (remdups (map j_priority js))))"

definition live_workers :: "uuid \<Rightarrow> timestamptz \<Rightarrow> db \<Rightarrow> nat" where
  "live_workers q now d =
     sum_list (map (\<lambda>w. if w_state w = W_active \<and> now - staleWorker < w_last_seen_at w
                        then count_where (\<lambda>(wk, k). wk = w_id w \<and> k = q) (worker_queues d) else 0) (workers d))"

definition rate_limited :: "queue \<Rightarrow> db \<Rightarrow> bool" where
  "rate_limited q d \<longleftrightarrow> 0 < q_rl_limit_per_sec q \<and>
     (let ts = map s_rl_tokens (filter (\<lambda>s. s_queue_id s = q_id q) (queue_shards d))
      in (if ts = [] then 0 else Max (set ts)) < 1)"

definition last_hour_rows :: "uuid \<Rightarrow> timestamptz \<Rightarrow> db \<Rightarrow> minute_stats list" where
  "last_hour_rows q now d = filter (\<lambda>m. m_queue_id m = q \<and> now - 3600000000 \<le> m_minute m) (queue_stats_minute d)"

record lastHour =
  lh_Completed :: int
  lh_Failed :: int
  lh_DeadLettered :: int

definition throughput :: "minute_stats list \<Rightarrow> lastHour" where
  "throughput ms = \<lparr>lh_Completed = sum_list (map m_completed ms), lh_Failed = sum_list (map m_failed ms),
     lh_DeadLettered = sum_list (map m_dead_lettered ms)\<rparr>"

definition latency :: "uuid \<Rightarrow> db \<Rightarrow> (int option \<times> int option)" where
  "latency q d =
    (case sort_key (\<lambda>m. - m_minute m) (filter (\<lambda>m. m_queue_id m = q \<and> m_duration_ms_p50 m \<noteq> None) (queue_stats_minute d)) of
       [] \<Rightarrow> (None, None) | m # _ \<Rightarrow> (m_duration_ms_p50 m, m_duration_ms_p95 m))"

record minuteView =
  mv_Minute :: timestamptz
  mv_Completed :: int
  mv_Failed :: int
  mv_DeadLettered :: int
  mv_P50 :: "int option"
  mv_P95 :: "int option"

definition minute_view :: "minute_stats \<Rightarrow> minuteView" where
  "minute_view m = \<lparr>mv_Minute = m_minute m, mv_Completed = m_completed m, mv_Failed = m_failed m, mv_DeadLettered = m_dead_lettered m,
     mv_P50 = m_duration_ms_p50 m, mv_P95 = m_duration_ms_p95 m\<rparr>"

definition series_minutes :: "'q request \<Rightarrow> api_error + int" where
  "series_minutes r =
    (let v = rq_query r ''minutes'' in
     if v = '''' then Inr 60
     else case parse_int v of
       None \<Rightarrow> Inl (badRequest ''invalid minutes'')
     | Some n \<Rightarrow> if n \<le> 0 \<or> 1440 < n then Inl (badRequest ''invalid minutes'') else Inr n)"

definition queueSeries :: "('q, minuteView list) scoped" where
  "queueSeries r sc now =
    (case series_minutes r of
       Inl e \<Rightarrow> afail e
     | Inr n \<Rightarrow>
        abind (exec_sql (reads (\<lambda>d. map minute_view (sort_key m_minute
          (filter (\<lambda>m. m_queue_id m = sc_entityID sc \<and> trunc_minute now - n * 60000000 \<le> m_minute m) (queue_stats_minute d)))))) (\<lambda>out.
        aret (answer 0 (Some out) 0 None)))"

record statsView =
  st_queue :: queueView
  st_status_counts :: "string \<Rightarrow> nat option"
  st_oldest_ready_seconds :: "rat option"
  st_tiers :: "tier list"
  st_live_workers :: nat
  st_breaker_open_until :: "timestamptz option"
  st_rate_limited :: bool
  st_saturated :: bool
  st_last_hour :: lastHour
  st_duration_ms_p50 :: "int option"
  st_duration_ms_p95 :: "int option"

definition queueStats :: "('q, statsView) scoped" where
  "queueStats r sc now =
    (let i = sc_entityID sc in
     abind (query_row (reads (\<lambda>d. map_option (queue_view d) (queue_of d i)))) (\<lambda>q.
     abind (exec_sql (reads (group_status (\<lambda>j. j_queue_id j = i)))) (\<lambda>rows.
     abind (exec_sql (reads (oldest_ready i now))) (\<lambda>oldest.
     abind (exec_sql (reads (oldest_by_tier i now))) (\<lambda>tiers.
     abind (exec_sql (reads (live_workers i now))) (\<lambda>ws.
     abind (query_row (reads (\<lambda>d. map_option (\<lambda>q. (q_breaker_open_until q, rate_limited q d)) (queue_of d i)))) (\<lambda>(until, throttled).
     abind (exec_sql (reads (\<lambda>d. throughput (last_hour_rows i now d)))) (\<lambda>hour.
     abind (exec_sql (reads (latency i))) (\<lambda>(p50, p95).
     aret (answer 200 (Some \<lparr>st_queue = q, st_status_counts = tally rows, st_oldest_ready_seconds = oldest, st_tiers = tiers,
       st_live_workers = ws, st_breaker_open_until = until, st_rate_limited = throttled,
       st_saturated = (qv_MaxConcurrency q \<le> qv_InFlight q), st_last_hour = hour, st_duration_ms_p50 = p50, st_duration_ms_p95 = p95\<rparr>) 0 None))))))))))"

section \<open>Health of a project\<close>

record queueBrief =
  br_ID :: uuid
  br_Name :: string
  br_Paused :: bool
  br_MaxConcurrency :: int
  br_Shards :: int
  br_InFlight :: int
  br_BreakerState :: breaker_state
  br_RateLimit :: rat

record queueHealth =
  hl_Queue :: queueBrief
  hl_Tiers :: "tier list"
  hl_LiveWorkers :: nat
  hl_BreakerUntil :: "timestamptz option"
  hl_RateLimited :: bool
  hl_Saturated :: bool
  hl_LastHour :: lastHour
  hl_P95 :: "int option"

definition no_hour :: lastHour where
  "no_hour = \<lparr>lh_Completed = 0, lh_Failed = 0, lh_DeadLettered = 0\<rparr>"

definition health_row :: "timestamptz \<Rightarrow> db \<Rightarrow> queue \<Rightarrow> queueHealth" where
  "health_row now d q =
    (let brief = \<lparr>br_ID = q_id q, br_Name = q_name q, br_Paused = q_paused q, br_MaxConcurrency = q_max_concurrency q, br_Shards = q_shards q,
           br_InFlight = in_flight (q_id q) d, br_BreakerState = q_breaker_state q, br_RateLimit = q_rl_limit_per_sec q\<rparr>
     in \<lparr>hl_Queue = brief, hl_Tiers = [], hl_LiveWorkers = live_workers (q_id q) now d, hl_BreakerUntil = q_breaker_open_until q,
         hl_RateLimited = rate_limited q d, hl_Saturated = (br_MaxConcurrency brief \<le> br_InFlight brief), hl_LastHour = no_hour, hl_P95 = None\<rparr>)"

text \<open>\<open>projectTiersSQL\<close> and \<open>projectThroughputSQL\<close>: one row per group over all queues of the project.\<close>

definition project_tiers :: "uuid list \<Rightarrow> timestamptz \<Rightarrow> db \<Rightarrow> (uuid \<times> tier) list" where
  "project_tiers ids now d =
    (let js = filter (\<lambda>j. j_queue_id j \<in> set ids \<and> ready_now now j) (jobs d)
     in map (\<lambda>(q, p). (q, make_tier now (filter (\<lambda>j. j_queue_id j = q) js) p))
          (sort_key (\<lambda>(q, p). (q, - p)) (remdups (map (\<lambda>j. (j_queue_id j, j_priority j)) js))))"

definition max_some :: "int option list \<Rightarrow> int option" where
  "max_some xs = (let ys = List.map_filter id xs in if ys = [] then None else Some (Max (set ys)))"

definition project_throughput :: "uuid list \<Rightarrow> timestamptz \<Rightarrow> db \<Rightarrow> (uuid \<times> lastHour \<times> int option) list" where
  "project_throughput ids now d =
    (let ms = filter (\<lambda>m. m_queue_id m \<in> set ids \<and> now - 3600000000 \<le> m_minute m) (queue_stats_minute d)
     in map (\<lambda>q. let g = filter (\<lambda>m. m_queue_id m = q) ms in (q, throughput g, max_some (map m_duration_ms_p95 g))) (remdups (map m_queue_id ms)))"

text \<open>\<open>out[at[id]]\<close>: the entry of the queue, which is in the list once.\<close>

definition at_queue :: "uuid \<Rightarrow> (queueHealth \<Rightarrow> queueHealth) \<Rightarrow> queueHealth list \<Rightarrow> queueHealth list" where
  "at_queue i = update_where (\<lambda>h. br_ID (hl_Queue h) = i)"

definition projectHealth :: "('q, queueHealth list) scoped" where
  "projectHealth r sc now =
     abind (exec_sql (reads (\<lambda>d. map (health_row now d) (sort_key q_name (filter (\<lambda>q. q_project_id q = sc_projectID sc) (queues d)))))) (\<lambda>out.
     if out = [] then aret (answer 0 (Some out) 0 None)
     else let ids = map (\<lambda>h. br_ID (hl_Queue h)) out in
       abind (exec_sql (reads (project_tiers ids now))) (\<lambda>ts.
       let out = fold (\<lambda>(i, t). at_queue i (\<lambda>h. h\<lparr>hl_Tiers := hl_Tiers h @ [t]\<rparr>)) ts out in
       abind (exec_sql (reads (project_throughput ids now))) (\<lambda>hs.
       let out = fold (\<lambda>(i, hour, p95). at_queue i (\<lambda>h. h\<lparr>hl_LastHour := hour, hl_P95 := p95\<rparr>)) hs out in
       aret (answer 0 (Some out) 0 None))))"

section \<open>The failure summary\<close>

record summaryView =
  sm_queue_id :: uuid
  sm_window_hours :: int
  sm_failures :: "Failure list"
  sm_summary :: "string option"
  sm_state :: string
  sm_model :: "string option"
  sm_generated_at :: "timestamptz option"

text \<open>\<open>ready\<close> is \<open>ai.Ready()\<close>; the rows the view shows are those of \<open>jobs.Failures\<close>.\<close>

definition failureSummary :: "text_lib \<Rightarrow> bool \<Rightarrow> ('q, summaryView) scoped" where
  "failureSummary lib ready r sc now =
    (let i = sc_entityID sc in
     abind (exec_sql (reads (Failures (tl_by_class lib) now i FailureWindow summaryGroups))) (\<lambda>fails.
     abind (exec_sql (reads (\<lambda>d. map_option (\<lambda>s. (s, fs_digest s = failure_digest lib now i FailureWindow d))
        (lookup_row fs_queue_id i (failure_summaries d))))) (\<lambda>row.
     let body = \<lparr>sm_queue_id = i, sm_window_hours = FailureWindow, sm_failures = fails, sm_summary = None,
           sm_state = (if ready then ''pending'' else ''unavailable''), sm_model = None, sm_generated_at = None\<rparr>
     in case row of
          None \<Rightarrow> aret (answer 0 (Some body) 0 None)
        | Some (s, fresh) \<Rightarrow> aret (answer 0 (Some (body\<lparr>sm_summary := Some (fs_summary s), sm_model := Some (fs_model s),
            sm_generated_at := Some (fs_generated_at s), sm_state := (if fresh then ''current'' else ''stale'')\<rparr>)) 0 None))))"

section \<open>Counting by groups\<close>

lemma sum_group:
  "sum_list (map (\<lambda>s. length (filter (\<lambda>x. g x = s) xs)) (filter Q (remdups (map g xs)))) = length (filter (\<lambda>x. Q (g x)) xs)"
proof -
  let ?ys = "filter (\<lambda>x. Q (g x)) xs"
  have r: "filter Q (remdups (map g xs)) = remdups (map g ?ys)" by (simp only: remdups_filter [symmetric] filter_map comp_def)
  have same: "filter (\<lambda>x. g x = s) xs = filter (\<lambda>x. g x = s) ?ys" if "s \<in> set (remdups (map g ?ys))" for s
    using that by (auto intro!: filter_cong)
  have "sum_list (map (\<lambda>s. length (filter (\<lambda>x. g x = s) xs)) (remdups (map g ?ys))) =
      sum_list (map (\<lambda>s. length (filter (\<lambda>x. g x = s) ?ys)) (remdups (map g ?ys)))"
    using same by (intro arg_cong [of _ _ sum_list] map_cong) auto
  also have "\<dots> = (\<Sum>s \<in> g ` set ?ys. length (filter (\<lambda>x. g x = s) ?ys))"
    by (simp only: sum_list_distinct_conv_sum_set distinct_remdups set_remdups set_map)
  also have "\<dots> = length ?ys" by (rule sum_groups)
  finally show ?thesis unfolding r .
qed

lemma count_in_group: "count_where (\<lambda>j. P j \<and> k j = s) xs = length (filter (\<lambda>j. k j = s) (filter P xs))"
  by (simp add: count_where_def filter_filter conj_commute)

lemma status_text_inj: "status_text s = status_text t \<longleftrightarrow> s = t"
  by (cases s; cases t) simp_all

lemma tally_map_of: "distinct (map fst rows) \<Longrightarrow> tally rows = map_of rows"
proof -
  have "fold add_count rows m = m ++ map_of rows" if "distinct (map fst rows)" for m
    using that
  proof (induction rows arbitrary: m)
    case (Cons r rows)
    obtain k n where r: "r = (k, n)" by (cases r)
    have "map_of rows k = None" using Cons.prems r by (simp add: map_of_eq_None_iff)
    then have "(m(k \<mapsto> n)) ++ map_of rows = m ++ map_of (r # rows)" by (auto simp: r map_add_def fun_eq_iff split: option.split)
    moreover have "fold add_count (r # rows) m = (m(k \<mapsto> n)) ++ map_of rows" using Cons r by simp
    ultimately show ?case by (rule trans [rotated])
  qed simp
  then show "distinct (map fst rows) \<Longrightarrow> tally rows = map_of rows" by (simp add: tally_def)
qed

lemma group_status_keys: "distinct (map fst (group_status P d))"
  by (simp add: group_status_def comp_def distinct_map inj_on_def status_text_inj)

lemma group_status_count:
  "tally (group_status P d) (status_text s) =
    (let n = length (filter (\<lambda>j. j_status j = s) (filter P (jobs d))) in if n = 0 then None else Some n)"
proof -
  let ?c = "\<lambda>s. count_where (\<lambda>j. P j \<and> j_status j = s) (jobs d)" and ?ss = "remdups (map j_status (filter P (jobs d)))"
  have "map_of (map (\<lambda>s. (status_text s, ?c s)) xs) (status_text s) = (if s \<in> set xs then Some (?c s) else None)" for xs
    by (induction xs) (auto simp: status_text_inj)
  then have "tally (group_status P d) (status_text s) = (if s \<in> set ?ss then Some (?c s) else None)"
    unfolding tally_map_of [OF group_status_keys] unfolding group_status_def .
  also have "\<dots> = (let n = length (filter (\<lambda>j. j_status j = s) (filter P (jobs d))) in if n = 0 then None else Some n)"
    unfolding count_in_group Let_def by (auto simp: filter_empty_conv)
  finally show ?thesis .
qed

lemma group_status_sum:
  "sum_list (map snd (filter (\<lambda>(st, n). st \<in> status_text ` T) (group_status P d))) = length (filter (\<lambda>j. j_status j \<in> T) (filter P (jobs d)))"
proof -
  have "status_text s \<in> status_text ` T \<longleftrightarrow> s \<in> T" for s by (auto simp: status_text_inj)
  then have "map snd (filter (\<lambda>(st, n). st \<in> status_text ` T) (group_status P d)) =
      map (\<lambda>s. length (filter (\<lambda>j. j_status j = s) (filter P (jobs d)))) (filter (\<lambda>s. s \<in> T) (remdups (map j_status (filter P (jobs d)))))"
    unfolding group_status_def count_in_group filter_map comp_def prod.case map_map by simp
  then show ?thesis by (simp only: sum_group)
qed

lemma abind_reads: "abind (exec_sql (reads f)) g d = g (f d) d"
  by simp

lemma length_filter_all: "length (filter P xs) = length xs \<longleftrightarrow> (\<forall>x \<in> set xs. P x)"
proof -
  have "length (filter (\<lambda>x. \<not> P x) xs) = 0 \<longleftrightarrow> (\<forall>x \<in> set xs. P x)" by (simp add: filter_empty_conv)
  with sum_length_filter_compl [of P xs] show ?thesis by linarith
qed

text \<open>
  The progress of a batch is exact: for a batch none of whose jobs is in the live table the answer is 404; otherwise
  the total is the number of its jobs, done the number of terminal ones, each status is listed with its exact count and
  only if there is such a job, and the batch is reported complete exactly when no job of it can still run. Asking
  changes nothing.
\<close>

theorem batch_progress_exact:
  "let js = filter (\<lambda>j. j_batch_id j = Some (sc_entityID sc)) (jobs d) in
   if js = [] then getBatch r sc now d = Inl (Api (notFound ''batch''))
   else \<exists>v. getBatch r sc now d = Inr (answer 200 (Some v) 0 None, d) \<and> bt_total v = length js \<and>
     bt_done v = length (filter (\<lambda>j. terminal (j_status j)) js) \<and> (bt_complete v \<longleftrightarrow> (\<forall>j \<in> set js. terminal (j_status j))) \<and>
     (\<forall>s. bt_status_counts v (status_text s) =
        (let n = length (filter (\<lambda>j. j_status j = s) js) in if n = 0 then None else Some n))"
proof -
  let ?P = "\<lambda>j. j_batch_id j = Some (sc_entityID sc)"
  let ?js = "filter ?P (jobs d)" and ?rows = "group_status ?P d"
  have "filter (\<lambda>(st, n). st \<in> range status_text) ?rows = ?rows" by (auto simp: group_status_def filter_id_conv)
  then have total: "sum_list (map snd ?rows) = length ?js" using group_status_sum [of UNIV ?P d] by simp
  have "{s. terminal s} = {Completed, Dead_letter, Cancelled}" by (auto simp: terminal_def)
  then have "status_text ` {s. terminal s} = {''completed'', ''dead_letter'', ''cancelled''}" by simp
  then have fin: "sum_list (map snd (filter (\<lambda>(st, n). st \<in> {''completed'', ''dead_letter'', ''cancelled''}) ?rows)) =
      length (filter (\<lambda>j. terminal (j_status j)) ?js)"
    using group_status_sum [of "{s. terminal s}" ?P d] by simp
  have comp: "length (filter (\<lambda>j. terminal (j_status j)) ?js) = length ?js \<longleftrightarrow> (\<forall>j \<in> set ?js. terminal (j_status j))"
    by (rule length_filter_all)
  let ?v = "\<lparr>bt_batch_id = sc_entityID sc, bt_total = length ?js, bt_done = length (filter (\<lambda>j. terminal (j_status j)) ?js),
     bt_complete = (length (filter (\<lambda>j. terminal (j_status j)) ?js) = length ?js), bt_status_counts = tally ?rows\<rparr>"
  have run: "getBatch r sc now d = (if ?js = [] then Inl (Api (notFound ''batch'')) else Inr (answer 200 (Some ?v) 0 None, d))"
    unfolding getBatch_def abind_reads Let_def total fin by simp
  have "getBatch r sc now d = Inr (answer 200 (Some ?v) 0 None, d) \<and> bt_total ?v = length ?js \<and>
      bt_done ?v = length (filter (\<lambda>j. terminal (j_status j)) ?js) \<and> (bt_complete ?v \<longleftrightarrow> (\<forall>j \<in> set ?js. terminal (j_status j))) \<and>
      (\<forall>s. bt_status_counts ?v (status_text s) = (let n = length (filter (\<lambda>j. j_status j = s) ?js) in if n = 0 then None else Some n))"
    if "?js \<noteq> []"
    using that run comp group_status_count [of ?P d] by (simp only: batchView.select_convs if_False simp_thms)
  then show ?thesis
    unfolding Let_def [of ?js] using run by (cases "?js = []") (simp_all only: if_True if_False simp_thms, blast)
qed

section \<open>The health page and the statistics of a queue agree\<close>

lemma fold_tiers:
  "fold (\<lambda>(i, t). at_queue i (\<lambda>h. h\<lparr>hl_Tiers := hl_Tiers h @ [t]\<rparr>)) ts out =
   map (\<lambda>h. h\<lparr>hl_Tiers := hl_Tiers h @ map snd (filter (\<lambda>(i, t). i = br_ID (hl_Queue h)) ts)\<rparr>) out"
proof (induction ts arbitrary: out)
  case (Cons x ts)
  obtain i t where x: "x = (i, t)" by (cases x)
  show ?case
    unfolding fold.simps(2) comp_apply x prod.case Cons.IH
    unfolding at_queue_def update_where_def by simp
qed simp

lemma fold_hours:
  assumes "distinct (map fst hs)"
  shows "fold (\<lambda>(i, hour, p95). at_queue i (\<lambda>h. h\<lparr>hl_LastHour := hour, hl_P95 := p95\<rparr>)) hs out =
   map (\<lambda>h. case map_of hs (br_ID (hl_Queue h)) of None \<Rightarrow> h | Some (hour, p95) \<Rightarrow> h\<lparr>hl_LastHour := hour, hl_P95 := p95\<rparr>) out"
  using assms
proof (induction hs arbitrary: out)
  case (Cons x hs)
  obtain i hour p95 where x: "x = (i, hour, p95)" by (metis prod_cases3)
  have none: "map_of hs i = None" using Cons.prems by (simp add: x map_of_eq_None_iff)
  have "distinct (map fst hs)" using Cons.prems by simp
  from Cons.IH [OF this] none show ?case by (auto simp: x at_queue_def update_where_def split: option.split)
qed simp

lemma tiers_of_queue:
  assumes "i \<in> set ids"
  shows "map snd (filter (\<lambda>(k, t). k = i) (project_tiers ids now d)) = oldest_by_tier i now d"
proof -
  let ?js = "filter (\<lambda>j. j_queue_id j \<in> set ids \<and> ready_now now j) (jobs d)" and ?ks = "filter (\<lambda>j. j_queue_id j = i \<and> ready_now now j) (jobs d)"
  let ?key = "\<lambda>(q, p). (q :: nat, - p :: int)" and ?ps = "remdups (map (\<lambda>j. (j_queue_id j, j_priority j)) ?js)"
  have mine: "filter (\<lambda>j. j_queue_id j = i) ?js = ?ks" using assms by (auto simp: filter_filter intro!: filter_cong)
  let ?qs = "filter (\<lambda>(q, p). q = i) ?ps"
  have same: "set (map snd ?qs) = set (remdups (map j_priority ?ks))" using assms by (force simp: image_iff)
  have fst: "\<forall>x \<in> set ?qs. fst x = i" by auto
  have dq: "distinct ?qs" by simp
  then have dist: "distinct (map snd ?qs)" using fst by (auto simp: distinct_map inj_on_def)
  have "map snd (sort_key ?key ?qs) = sort_key uminus (map snd ?qs)"
  proof (rule map_sorted_distinct_set_unique [of uminus])
    show "inj_on uminus (set (map snd (sort_key ?key ?qs)) \<union> set (sort_key uminus (map snd ?qs)))" by simp
    have "sorted_wrt (\<lambda>x y. ?key x \<le> ?key y) (sort_key ?key ?qs)" using sorted_sort_key [of ?key ?qs] unfolding sorted_map .
    then have "sorted_wrt (\<lambda>x y. - snd x \<le> - snd y) (sort_key ?key ?qs)"
      by (rule sorted_wrt_mono_rel [rotated]) (use fst in \<open>auto simp: less_eq_prod_def\<close>)
    then show "sorted (map uminus (map snd (sort_key ?key ?qs)))" by (simp add: sorted_map)
    show "distinct (map uminus (map snd (sort_key ?key ?qs)))" using dist by (simp add: distinct_map comp_inj_on_iff inj_on_def)
    show "sorted (map uminus (sort_key uminus (map snd ?qs)))" by simp
    show "distinct (map uminus (sort_key uminus (map snd ?qs)))" using dist by (simp add: distinct_map inj_on_def)
  qed simp
  also have "\<dots> = sort_key uminus (remdups (map j_priority ?ks))"
    by (rule map_sorted_distinct_set_unique [of uminus]) (use same dist in \<open>simp_all add: distinct_map inj_on_def\<close>)
  finally have order: "map snd (sort_key ?key ?qs) = sort_key uminus (remdups (map j_priority ?ks))" .
  have sq: "filter (\<lambda>(k, t). k = i) (map (\<lambda>(q, p). (q, make_tier now (filter (\<lambda>j. j_queue_id j = q) ?js) p)) xs) =
      map (\<lambda>(q, p). (q, make_tier now (filter (\<lambda>j. j_queue_id j = q) ?js) p)) (filter (\<lambda>(q, p). q = i) xs)" for xs
    by (induction xs) auto
  have "map snd (filter (\<lambda>(k, t). k = i) (project_tiers ids now d)) =
      map snd (map (\<lambda>(q, p). (q, make_tier now (filter (\<lambda>j. j_queue_id j = q) ?js) p)) (sort_key ?key ?qs))"
    unfolding project_tiers_def Let_def sq filter_sort ..
  also have "\<dots> = map (make_tier now ?ks) (map snd (sort_key ?key ?qs))"
    using fst mine by (auto simp: split_beta)
  finally show ?thesis unfolding order oldest_by_tier_def Let_def .
qed

lemma hours_keys: "distinct (map fst (project_throughput ids now d))"
  by (simp add: project_throughput_def Let_def comp_def)

lemma hours_of_queue:
  assumes "i \<in> set ids"
  shows "map_of (project_throughput ids now d) i =
    (let g = last_hour_rows i now d in if g = [] then None else Some (throughput g, max_some (map m_duration_ms_p95 g)))"
proof -
  let ?ms = "filter (\<lambda>m. m_queue_id m \<in> set ids \<and> now - 3600000000 \<le> m_minute m) (queue_stats_minute d)"
  let ?g = "\<lambda>q. filter (\<lambda>m. m_queue_id m = q) ?ms"
  have mine: "?g i = last_hour_rows i now d" using assms by (auto simp: last_hour_rows_def filter_filter intro!: filter_cong)
  have "map_of (map (\<lambda>q. (q, f q)) xs) i = (if i \<in> set xs then Some (f i) else None)" for xs and f :: "nat \<Rightarrow> 'z"
    by (induction xs) auto
  then have "map_of (project_throughput ids now d) i =
      (if i \<in> set (remdups (map m_queue_id ?ms)) then Some (throughput (?g i), max_some (map m_duration_ms_p95 (?g i))) else None)"
    unfolding project_throughput_def Let_def .
  moreover have "i \<in> set (remdups (map m_queue_id ?ms)) \<longleftrightarrow> ?g i \<noteq> []" by (auto simp: filter_empty_conv)
  ultimately show ?thesis unfolding mine Let_def by simp
qed

lemma merge_all:
  assumes start: "\<And>h. h \<in> set out \<Longrightarrow> hl_Tiers h = [] \<and> hl_LastHour h = no_hour \<and> hl_P95 h = None \<and> br_ID (hl_Queue h) \<in> set ids"
  shows "fold (\<lambda>(i, hour, p95). at_queue i (\<lambda>h. h\<lparr>hl_LastHour := hour, hl_P95 := p95\<rparr>)) (project_throughput ids now d)
      (fold (\<lambda>(i, t). at_queue i (\<lambda>h. h\<lparr>hl_Tiers := hl_Tiers h @ [t]\<rparr>)) (project_tiers ids now d) out) =
    map (\<lambda>h. h\<lparr>hl_Tiers := oldest_by_tier (br_ID (hl_Queue h)) now d, hl_LastHour := throughput (last_hour_rows (br_ID (hl_Queue h)) now d),
      hl_P95 := (let g = last_hour_rows (br_ID (hl_Queue h)) now d in if g = [] then None else max_some (map m_duration_ms_p95 g))\<rparr>) out"
  unfolding fold_hours [OF hours_keys] fold_tiers map_map comp_def
proof (rule map_cong [OF refl], goal_cases)
  case (1 h)
  from start [OF 1] have h: "hl_Tiers h = []" "hl_LastHour h = no_hour" "hl_P95 h = None" and i: "br_ID (hl_Queue h) \<in> set ids" by blast+
  have none: "throughput [] = no_hour" by (simp add: throughput_def no_hour_def)
  let ?h = "h\<lparr>hl_Tiers := oldest_by_tier (br_ID (hl_Queue h)) now d\<rparr>"
  have tiers: "h\<lparr>hl_Tiers := hl_Tiers h @ map snd (filter (\<lambda>(k, t). k = br_ID (hl_Queue h)) (project_tiers ids now d))\<rparr> = ?h"
    unfolding tiers_of_queue [OF i] using h(1) by simp
  have id: "br_ID (hl_Queue ?h) = br_ID (hl_Queue h)" by simp
  show ?case
    unfolding tiers id hours_of_queue [OF i] Let_def using h none by (cases "last_hour_rows (br_ID (hl_Queue h)) now d = []") simp_all
qed

lemma queueStats_eq:
  assumes "queue_of d i = Some q"
  shows "queueStats r (sc\<lparr>sc_entityID := i\<rparr>) now d = Inr (answer 200 (Some \<lparr>st_queue = queue_view d q,
     st_status_counts = tally (group_status (\<lambda>j. j_queue_id j = i) d), st_oldest_ready_seconds = oldest_ready i now d,
     st_tiers = oldest_by_tier i now d, st_live_workers = live_workers i now d, st_breaker_open_until = q_breaker_open_until q,
     st_rate_limited = rate_limited q d, st_saturated = (q_max_concurrency q \<le> in_flight (q_id q) d),
     st_last_hour = throughput (last_hour_rows i now d), st_duration_ms_p50 = fst (latency i d), st_duration_ms_p95 = snd (latency i d)\<rparr>) 0 None, d)"
  using assms by (simp add: queueStats_def Let_def queue_view_def split: prod.split)



end
