(* ===== verification/Server.thy ===== *)
theory Server
  imports DlqApi Accounts Events Stats
begin

text \<open>
  \<open>server.go\<close> and the middleware of \<open>respond.go\<close>: the table of routes, what each route demands of the caller, and a
  whole request from the method and path to the answer.

  The routes are the values of \<open>route\<close>, named after their handlers; \<open>pattern\<close> holds the pattern strings of the
  source, \<open>mount\<close> the calls of \<open>public\<close> and \<open>guard\<close> with the handlers. Of \<open>http.ServeMux\<close> the
  matching of a method and path against these patterns is modelled, for clean paths without percent escapes.
  JSON decoding of a body is a parameter per request type; bodies of answers stay values. Fresh ids, the salt of a
  password and the race of two submissions are \<open>draws\<close>. Panics are not modelled.
\<close>

section \<open>Routes\<close>

datatype route =
    Register | Login | Logout
  | CreateOrg | ListOrgs | GetOrg | UpdateOrg | DeleteOrg | AddMember
  | CreateProject | ListProjects | GetProject | UpdateProject | DeleteProject
  | CreatePolicy | ListPolicies | GetPolicy | UpdatePolicy | DeletePolicy
  | CreateQueue | ListQueues | GetQueue | UpdateQueue | DeleteQueue | PauseQueue | ResumeQueue
  | CreateSchedule | ListSchedules | GetSchedule | UpdateSchedule | DeleteSchedule | PauseSchedule | ResumeSchedule
  | SubmitJob | SubmitBatch | ListJobs | GetJob | CancelJob | RetryJob
  | ListDLQ | ReplayQueue | FailureSummary | ReplayJob
  | ListEvents | StreamEvents | ListWorkers | ProjectHealth | QueueStats | QueueSeries | GetBatch

definition all_routes :: "route list" where
  "all_routes =
    [Register, Login, Logout,
     CreateOrg, ListOrgs, GetOrg, UpdateOrg, DeleteOrg, AddMember,
     CreateProject, ListProjects, GetProject, UpdateProject, DeleteProject,
     CreatePolicy, ListPolicies, GetPolicy, UpdatePolicy, DeletePolicy,
     CreateQueue, ListQueues, GetQueue, UpdateQueue, DeleteQueue, PauseQueue, ResumeQueue,
     CreateSchedule, ListSchedules, GetSchedule, UpdateSchedule, DeleteSchedule, PauseSchedule, ResumeSchedule,
     SubmitJob, SubmitBatch, ListJobs, GetJob, CancelJob, RetryJob,
     ListDLQ, ReplayQueue, FailureSummary, ReplayJob,
     ListEvents, StreamEvents, ListWorkers, ProjectHealth, QueueStats, QueueSeries, GetBatch]"

fun pattern :: "route \<Rightarrow> string" where
  "pattern Register = ''POST /auth/register''"
| "pattern Login = ''POST /auth/login''"
| "pattern Logout = ''POST /auth/logout''"
| "pattern CreateOrg = ''POST /orgs''"
| "pattern ListOrgs = ''GET /orgs''"
| "pattern GetOrg = ''GET /orgs/{id}''"
| "pattern UpdateOrg = ''PATCH /orgs/{id}''"
| "pattern DeleteOrg = ''DELETE /orgs/{id}''"
| "pattern AddMember = ''POST /orgs/{id}/members''"
| "pattern CreateProject = ''POST /orgs/{orgId}/projects''"
| "pattern ListProjects = ''GET /orgs/{orgId}/projects''"
| "pattern GetProject = ''GET /projects/{id}''"
| "pattern UpdateProject = ''PATCH /projects/{id}''"
| "pattern DeleteProject = ''DELETE /projects/{id}''"
| "pattern CreatePolicy = ''POST /projects/{projectId}/retry-policies''"
| "pattern ListPolicies = ''GET /projects/{projectId}/retry-policies''"
| "pattern GetPolicy = ''GET /retry-policies/{id}''"
| "pattern UpdatePolicy = ''PATCH /retry-policies/{id}''"
| "pattern DeletePolicy = ''DELETE /retry-policies/{id}''"
| "pattern CreateQueue = ''POST /projects/{projectId}/queues''"
| "pattern ListQueues = ''GET /projects/{projectId}/queues''"
| "pattern GetQueue = ''GET /queues/{id}''"
| "pattern UpdateQueue = ''PATCH /queues/{id}''"
| "pattern DeleteQueue = ''DELETE /queues/{id}''"
| "pattern PauseQueue = ''POST /queues/{id}/pause''"
| "pattern ResumeQueue = ''POST /queues/{id}/resume''"
| "pattern CreateSchedule = ''POST /queues/{id}/schedules''"
| "pattern ListSchedules = ''GET /queues/{id}/schedules''"
| "pattern GetSchedule = ''GET /schedules/{id}''"
| "pattern UpdateSchedule = ''PATCH /schedules/{id}''"
| "pattern DeleteSchedule = ''DELETE /schedules/{id}''"
| "pattern PauseSchedule = ''POST /schedules/{id}/pause''"
| "pattern ResumeSchedule = ''POST /schedules/{id}/resume''"
| "pattern SubmitJob = ''POST /queues/{id}/jobs''"
| "pattern SubmitBatch = ''POST /queues/{id}/jobs/batch''"
| "pattern ListJobs = ''GET /jobs''"
| "pattern GetJob = ''GET /jobs/{id}''"
| "pattern CancelJob = ''POST /jobs/{id}/cancel''"
| "pattern RetryJob = ''POST /jobs/{id}/retry''"
| "pattern ListDLQ = ''GET /dlq''"
| "pattern ReplayQueue = ''POST /queues/{id}/dlq/replay''"
| "pattern FailureSummary = ''GET /queues/{id}/failure-summary''"
| "pattern ReplayJob = ''POST /dlq/{jobId}/replay''"
| "pattern ListEvents = ''GET /projects/{projectId}/events''"
| "pattern StreamEvents = ''GET /projects/{projectId}/events/stream''"
| "pattern ListWorkers = ''GET /workers''"
| "pattern ProjectHealth = ''GET /projects/{projectId}/queue-health''"
| "pattern QueueStats = ''GET /stats/queues/{id}''"
| "pattern QueueSeries = ''GET /stats/queues/{id}/series''"
| "pattern GetBatch = ''GET /batches/{id}''"

section \<open>Matching\<close>

datatype segment = Literal string | Wildcard string

definition segment_of :: "string \<Rightarrow> segment" where
  "segment_of s = (if s \<noteq> '''' \<and> hd s = CHR ''{'' then Wildcard (butlast (List.tl s)) else Literal s)"

text \<open>The method of a pattern and its segments, and the segments of a path.\<close>

definition path_segments :: "string \<Rightarrow> string list" where
  "path_segments p = List.tl (split_on (CHR ''/'') p)"

definition parse_pattern :: "string \<Rightarrow> string \<times> segment list" where
  "parse_pattern s = (let m = takeWhile (\<lambda>c. c \<noteq> CHR '' '') s
     in (m, map segment_of (path_segments (drop (Suc (length m)) s))))"

fun match_path :: "segment list \<Rightarrow> string list \<Rightarrow> (string \<times> string) list option" where
  "match_path [] [] = Some []"
| "match_path (Literal l # ss) (x # xs) = (if x = l then match_path ss xs else None)"
| "match_path (Wildcard v # ss) (x # xs) = (if x = '''' then None else map_option (\<lambda>m. (v, x) # m) (match_path ss xs))"
| "match_path _ _ = None"

text \<open>A pattern for GET also serves HEAD.\<close>

definition method_fits :: "string \<Rightarrow> string \<Rightarrow> bool" where
  "method_fits pm m \<longleftrightarrow> pm = m \<or> pm = ''GET'' \<and> m = ''HEAD''"

definition match_route :: "string \<Rightarrow> string \<Rightarrow> route \<Rightarrow> (string \<times> string) list option" where
  "match_route m path rt = (case parse_pattern (pattern rt) of
     (pm, ss) \<Rightarrow> if method_fits pm m then match_path ss (path_segments path) else None)"

text \<open>The route of a request with the values of its wildcards: the first that matches.\<close>

definition find_route :: "string \<Rightarrow> string \<Rightarrow> (route \<times> (string \<times> string) list) option" where
  "find_route m path = (case List.map_filter (\<lambda>rt. map_option (Pair rt) (match_route m path rt)) all_routes of
     [] \<Rightarrow> None | x # _ \<Rightarrow> Some x)"

text \<open>The methods a path has, for the \<open>Allow\<close> header of a 405.\<close>

definition served_methods :: "string list" where
  "served_methods = [''DELETE'', ''GET'', ''HEAD'', ''PATCH'', ''POST'']"

definition allowed_methods :: "string \<Rightarrow> string list" where
  "allowed_methods path = filter (\<lambda>m. find_route m path \<noteq> None) served_methods"

section \<open>Handlers behind one type\<close>

text \<open>\<open>encoding/json\<close> for the request types; a body is cut at \<open>maxBody\<close> before it is decoded.\<close>

record json_lib =
  js_register :: "string \<Rightarrow> registerReq option"
  js_login :: "string \<Rightarrow> loginReq option"
  js_name :: "string \<Rightarrow> nameReq option"
  js_member :: "string \<Rightarrow> memberReq option"
  js_policy :: "string \<Rightarrow> policyReq option"
  js_queue :: "string \<Rightarrow> queueReq option"
  js_schedule :: "string \<Rightarrow> scheduleReq option"
  js_submit :: "string \<Rightarrow> submitReq option"
  js_batch :: "string \<Rightarrow> submitReq list option"
  js_replay :: "string \<Rightarrow> bulkReplayReq option"

record ('loc, 'sched) server_lib =
  sl_api :: api_lib
  sl_argon :: argon_lib
  sl_cron :: "('loc, 'sched) cron_lib"
  sl_known :: "string \<Rightarrow> bool"
  sl_text :: text_lib
  sl_ready :: bool
  sl_json :: json_lib

record draws =
  dr_rid :: string
  dr_id :: uuid
  dr_ids :: "nat \<Rightarrow> uuid"
  dr_session :: "uuid option"
  dr_salt :: "string option"
  dr_race :: bool

text \<open>The bodies of answers.\<close>

datatype reply =
    R_none unit | R_user userView | R_session sessionView | R_org orgView | R_orgs "orgView list"
  | R_member "uuid \<times> uuid \<times> string" | R_project project | R_projects "project list"
  | R_policy policyView | R_policies "policyView list" | R_queue queueView | R_queues "queueView list" | R_switch "uuid \<times> bool"
  | R_schedule schedule | R_schedules "schedule list"
  | R_submit submitView | R_batch "uuid \<times> nat \<times> uuid list" | R_jobs "jobListItem list \<times> string" | R_job job_body
  | R_cancel "uuid \<times> string \<times> string" | R_retry "uuid \<times> string"
  | R_dlq "dlqItem list \<times> string" | R_replayed "nat \<times> uuid list" | R_summary summaryView | R_replay "uuid \<times> string \<times> nat"
  | R_events "eventView list \<times> int" | R_workers "workerView list" | R_health "queueHealth list"
  | R_stats statsView | R_series "minuteView list" | R_progress batchView

definition maxBody :: nat where
  "maxBody = 2 ^ 20"

definition with_body :: "(string \<Rightarrow> 'q option) \<Rightarrow> string request \<Rightarrow> 'q request" where
  "with_body dec r = \<lparr>rq_id = rq_id r, rq_header = rq_header r, rq_cookie = rq_cookie r, rq_protocols = rq_protocols r,
     rq_path = rq_path r, rq_query = rq_query r, rq_body = Option.bind (rq_body r) (\<lambda>b. dec (take maxBody b))\<rparr>"

definition map_body :: "('b \<Rightarrow> 'c) \<Rightarrow> 'b result \<Rightarrow> 'c result" where
  "map_body f res = \<lparr>res_status = res_status res, res_body = map_option f (res_body res), res_entityID = res_entityID res,
     res_projectID = res_projectID res, res_audit = res_audit res\<rparr>"

definition via :: "(string \<Rightarrow> 'q option) \<Rightarrow> ('b \<Rightarrow> reply) \<Rightarrow> ('q, 'b) scoped \<Rightarrow> (string, reply) scoped" where
  "via dec enc h r sc now = abind (h (with_body dec r) sc now) (\<lambda>res. aret (map_body enc res))"

text \<open>
  The table: a public handler, a guarded one with its least role, action, entity and locator, or the stream, which
  writes its answer itself.
\<close>

datatype mounted = Public "(string, reply) scoped" | Guarded role string string "string locator" "(string, reply) scoped" | Streamed

fun mount :: "('loc, 'sched) server_lib \<Rightarrow> draws \<Rightarrow> route \<Rightarrow> mounted" where
  "mount lib dr Register = Public (via (js_register (sl_json lib)) R_user (register (sl_argon lib) (dr_salt dr) (dr_id dr)))"
| "mount lib dr Login = Public (via (js_login (sl_json lib)) R_session (login (sl_argon lib) (al_uuid (sl_api lib)) (dr_session dr)))"
| "mount lib dr Logout = Guarded viewer '''' '''' no_scope (via Some R_none logout)"
| "mount lib dr CreateOrg = Guarded viewer '''' '''' no_scope (via (js_name (sl_json lib)) R_org (createOrg (dr_id dr)))"
| "mount lib dr ListOrgs = Guarded viewer '''' '''' no_scope (via Some R_orgs listOrgs)"
| "mount lib dr GetOrg = Guarded viewer '''' ''org'' (byPath (al_uuid (sl_api lib)) ''id'' orgScope) (via Some R_org getOrg)"
| "mount lib dr UpdateOrg = Guarded admin ''org.update'' ''org'' (byPath (al_uuid (sl_api lib)) ''id'' orgScope)
     (via (js_name (sl_json lib)) R_org updateOrg)"
| "mount lib dr DeleteOrg = Guarded owner ''org.delete'' ''org'' (byPath (al_uuid (sl_api lib)) ''id'' orgScope) (via Some R_none deleteOrg)"
| "mount lib dr AddMember = Guarded admin ''org.add_member'' ''org'' (byPath (al_uuid (sl_api lib)) ''id'' orgScope)
     (via (js_member (sl_json lib)) R_member addMember)"
| "mount lib dr CreateProject = Guarded admin ''project.create'' ''project'' (byPath (al_uuid (sl_api lib)) ''orgId'' orgScope)
     (via (js_name (sl_json lib)) R_project (createProject (dr_id dr)))"
| "mount lib dr ListProjects = Guarded viewer '''' ''project'' (byPath (al_uuid (sl_api lib)) ''orgId'' orgScope) (via Some R_projects listProjects)"
| "mount lib dr GetProject = Guarded viewer '''' ''project'' (byPath (al_uuid (sl_api lib)) ''id'' projectScope) (via Some R_project getProject)"
| "mount lib dr UpdateProject = Guarded admin ''project.update'' ''project'' (byPath (al_uuid (sl_api lib)) ''id'' projectScope)
     (via (js_name (sl_json lib)) R_project updateProject)"
| "mount lib dr DeleteProject = Guarded admin ''project.delete'' ''project'' (byPath (al_uuid (sl_api lib)) ''id'' projectScope)
     (via Some R_none deleteProject)"
| "mount lib dr CreatePolicy = Guarded admin ''policy.create'' ''retry_policy'' (byPath (al_uuid (sl_api lib)) ''projectId'' projectScope)
     (via (js_policy (sl_json lib)) R_policy (createPolicy (dr_id dr)))"
| "mount lib dr ListPolicies = Guarded viewer '''' ''retry_policy'' (byPath (al_uuid (sl_api lib)) ''projectId'' projectScope)
     (via Some R_policies listPolicies)"
| "mount lib dr GetPolicy = Guarded viewer '''' ''retry_policy'' (byPath (al_uuid (sl_api lib)) ''id'' policyScope) (via Some R_policy getPolicy)"
| "mount lib dr UpdatePolicy = Guarded admin ''policy.update'' ''retry_policy'' (byPath (al_uuid (sl_api lib)) ''id'' policyScope)
     (via (js_policy (sl_json lib)) R_policy updatePolicy)"
| "mount lib dr DeletePolicy = Guarded admin ''policy.delete'' ''retry_policy'' (byPath (al_uuid (sl_api lib)) ''id'' policyScope)
     (via Some R_none deletePolicy)"
| "mount lib dr CreateQueue = Guarded admin ''queue.create'' ''queue'' (byPath (al_uuid (sl_api lib)) ''projectId'' projectScope)
     (via (js_queue (sl_json lib)) R_queue (createQueue (al_uuid (sl_api lib)) (dr_id dr)))"
| "mount lib dr ListQueues = Guarded viewer '''' ''queue'' (byPath (al_uuid (sl_api lib)) ''projectId'' projectScope) (via Some R_queues listQueues)"
| "mount lib dr GetQueue = Guarded viewer '''' ''queue'' (byPath (al_uuid (sl_api lib)) ''id'' queueScope) (via Some R_queue getQueue)"
| "mount lib dr UpdateQueue = Guarded admin ''queue.update'' ''queue'' (byPath (al_uuid (sl_api lib)) ''id'' queueScope)
     (via (js_queue (sl_json lib)) R_queue (updateQueue (al_uuid (sl_api lib))))"
| "mount lib dr DeleteQueue = Guarded admin ''queue.delete'' ''queue'' (byPath (al_uuid (sl_api lib)) ''id'' queueScope) (via Some R_none deleteQueue)"
| "mount lib dr PauseQueue = Guarded member ''queue.pause'' ''queue'' (byPath (al_uuid (sl_api lib)) ''id'' queueScope) (via Some R_switch pauseQueue)"
| "mount lib dr ResumeQueue = Guarded member ''queue.resume'' ''queue'' (byPath (al_uuid (sl_api lib)) ''id'' queueScope)
     (via Some R_switch resumeQueue)"
| "mount lib dr CreateSchedule = Guarded admin ''schedule.create'' ''schedule'' (byPath (al_uuid (sl_api lib)) ''id'' queueScope)
     (via (js_schedule (sl_json lib)) R_schedule (createSchedule (sl_cron lib) (sl_api lib) (sl_known lib) (dr_id dr)))"
| "mount lib dr ListSchedules = Guarded viewer '''' ''schedule'' (byPath (al_uuid (sl_api lib)) ''id'' queueScope) (via Some R_schedules listSchedules)"
| "mount lib dr GetSchedule = Guarded viewer '''' ''schedule'' (byPath (al_uuid (sl_api lib)) ''id'' scheduleScope) (via Some R_schedule getSchedule)"
| "mount lib dr UpdateSchedule = Guarded admin ''schedule.update'' ''schedule'' (byPath (al_uuid (sl_api lib)) ''id'' scheduleScope)
     (via (js_schedule (sl_json lib)) R_schedule (updateSchedule (sl_cron lib) (sl_api lib) (sl_known lib)))"
| "mount lib dr DeleteSchedule = Guarded admin ''schedule.delete'' ''schedule'' (byPath (al_uuid (sl_api lib)) ''id'' scheduleScope)
     (via Some R_none deleteSchedule)"
| "mount lib dr PauseSchedule = Guarded member ''schedule.pause'' ''schedule'' (byPath (al_uuid (sl_api lib)) ''id'' scheduleScope)
     (via Some R_switch pauseSchedule)"
| "mount lib dr ResumeSchedule = Guarded member ''schedule.resume'' ''schedule'' (byPath (al_uuid (sl_api lib)) ''id'' scheduleScope)
     (via Some R_switch resumeSchedule)"
| "mount lib dr SubmitJob = Guarded member ''job.submit'' ''job'' (byPath (al_uuid (sl_api lib)) ''id'' queueScope)
     (via (js_submit (sl_json lib)) R_submit (submitJob (sl_api lib) (dr_race dr) (dr_id dr)))"
| "mount lib dr SubmitBatch = Guarded member ''job.submit_batch'' ''batch'' (byPath (al_uuid (sl_api lib)) ''id'' queueScope)
     (via (js_batch (sl_json lib)) R_batch (submitBatch (sl_api lib) (dr_id dr) (dr_ids dr)))"
| "mount lib dr ListJobs = Guarded viewer '''' ''job'' (byProjectOrQueue (al_uuid (sl_api lib))) (via Some R_jobs (listJobs (sl_api lib)))"
| "mount lib dr GetJob = Guarded viewer '''' ''job'' (byPath (al_uuid (sl_api lib)) ''id'' jobScope) (via Some R_job getJob)"
| "mount lib dr CancelJob = Guarded member ''job.cancel'' ''job'' (byPath (al_uuid (sl_api lib)) ''id'' jobScope) (via Some R_cancel cancelJob)"
| "mount lib dr RetryJob = Guarded member ''job.retry'' ''job'' (byPath (al_uuid (sl_api lib)) ''id'' jobScope) (via Some R_retry retryJob)"
| "mount lib dr ListDLQ = Guarded viewer '''' ''job'' (byProjectOrQueue (al_uuid (sl_api lib))) (via Some R_dlq (listDLQ (sl_api lib)))"
| "mount lib dr ReplayQueue = Guarded member ''job.replay_bulk'' ''queue'' (byPath (al_uuid (sl_api lib)) ''id'' queueScope)
     (via (js_replay (sl_json lib)) R_replayed replayQueue)"
| "mount lib dr FailureSummary = Guarded viewer '''' ''queue'' (byPath (al_uuid (sl_api lib)) ''id'' queueScope)
     (via Some R_summary (failureSummary (sl_text lib) (sl_ready lib)))"
| "mount lib dr ReplayJob = Guarded member ''job.replay'' ''job'' (byPath (al_uuid (sl_api lib)) ''jobId'' jobScope)
     (via Some R_replay (replayJob (sl_api lib)))"
| "mount lib dr ListEvents = Guarded viewer '''' ''project'' (byPath (al_uuid (sl_api lib)) ''projectId'' projectScope) (via Some R_events listEvents)"
| "mount lib dr StreamEvents = Streamed"
| "mount lib dr ListWorkers = Guarded viewer '''' ''worker'' (byProjectQuery (al_uuid (sl_api lib))) (via Some R_workers listWorkers)"
| "mount lib dr ProjectHealth = Guarded viewer '''' ''project'' (byPath (al_uuid (sl_api lib)) ''projectId'' projectScope)
     (via Some R_health projectHealth)"
| "mount lib dr QueueStats = Guarded viewer '''' ''queue'' (byPath (al_uuid (sl_api lib)) ''id'' queueScope) (via Some R_stats queueStats)"
| "mount lib dr QueueSeries = Guarded viewer '''' ''queue'' (byPath (al_uuid (sl_api lib)) ''id'' queueScope) (via Some R_series queueSeries)"
| "mount lib dr GetBatch = Guarded viewer '''' ''batch'' (byPath (al_uuid (sl_api lib)) ''id'' batchScope) (via Some R_progress getBatch)"

section \<open>A whole request\<close>

record http_request =
  hr_method :: string
  hr_path :: string
  hr_header :: "string \<Rightarrow> string"
  hr_cookie :: "string \<Rightarrow> string option"
  hr_protocols :: "string list"
  hr_query :: "string \<Rightarrow> string"
  hr_body :: string

text \<open>
  What leaves the server: an answer of a handler, a plain text of the multiplexer, or a connection handed over to the
  websocket library and the pump of \<open>Events\<close>, for a user, a project and a position.
\<close>

datatype served = Answered "reply response" | Plain int "(string \<times> string) list" string | Upgraded uuid uuid int

definition request_id :: "draws \<Rightarrow> http_request \<Rightarrow> string" where
  "request_id dr hr = (if hr_header hr ''X-Request-Id'' = '''' then dr_rid dr else hr_header hr ''X-Request-Id'')"

definition to_request :: "string \<Rightarrow> (string \<times> string) list \<Rightarrow> http_request \<Rightarrow> string request" where
  "to_request rid vars hr = \<lparr>rq_id = rid, rq_header = hr_header hr, rq_cookie = hr_cookie hr, rq_protocols = hr_protocols hr,
     rq_path = (\<lambda>v. case map_of vars v of None \<Rightarrow> '''' | Some x \<Rightarrow> x), rq_query = hr_query hr, rq_body = Some (hr_body hr)\<rparr>"

definition serve_route :: "('loc, 'sched) server_lib \<Rightarrow> draws \<Rightarrow> (nat \<Rightarrow> tx_env) \<Rightarrow> nat \<Rightarrow> route \<Rightarrow> string request \<Rightarrow> hub \<times> db \<Rightarrow>
    served \<times> hub \<times> db" where
  "serve_route lib dr env ch rt r s = (case s of (h, d) \<Rightarrow>
     (let ul = al_uuid (sl_api lib) in
      case mount lib dr rt of
        Public fn \<Rightarrow> (case public fn env r d of (resp, d1) \<Rightarrow> (Answered resp, h, d1))
      | Guarded least action entity loc fn \<Rightarrow>
          (case guard ul least action entity loc fn env r d of (resp, d1) \<Rightarrow> (Answered resp, h, d1))
      | Streamed \<Rightarrow>
          (case stream_open ul env r ch h d of
             (Inl resp, d1) \<Rightarrow> (Answered resp, h, d1)
           | (Inr (uid, p, after, h1), d1) \<Rightarrow> (Upgraded uid p after, h1, d1))))"

text \<open>The middleware names the request in the answer.\<close>

definition stamp :: "string \<Rightarrow> served \<Rightarrow> served" where
  "stamp rid v =
    (case v of
       Answered resp \<Rightarrow> Answered (resp\<lparr>rp_headers := (''X-Request-Id'', rid) # rp_headers resp\<rparr>)
     | Plain st hs b \<Rightarrow> Plain st ((''X-Request-Id'', rid) # hs) b
     | Upgraded u p a \<Rightarrow> Upgraded u p a)"

fun comma_list :: "string list \<Rightarrow> string" where
  "comma_list [] = ''''"
| "comma_list [x] = x"
| "comma_list (x # xs) = x @ '', '' @ comma_list xs"

definition plain_headers :: "(string \<times> string) list" where
  "plain_headers = [(''Content-Type'', ''text/plain; charset=utf-8''), (''X-Content-Type-Options'', ''nosniff'')]"

definition serve :: "('loc, 'sched) server_lib \<Rightarrow> draws \<Rightarrow> (nat \<Rightarrow> tx_env) \<Rightarrow> nat \<Rightarrow> http_request \<Rightarrow> hub \<times> db \<Rightarrow> served \<times> hub \<times> db" where
  "serve lib dr env ch hr s =
    (let rid = request_id dr hr in
     case find_route (hr_method hr) (hr_path hr) of
       Some (rt, vars) \<Rightarrow> (case serve_route lib dr env ch rt (to_request rid vars hr) s of (v, s1) \<Rightarrow> (stamp rid v, s1))
     | None \<Rightarrow>
        (let ms = allowed_methods (hr_path hr) in
         if ms = [] then (stamp rid (Plain 404 plain_headers ''404 page not found''), s)
         else (stamp rid (Plain 405 ((''Allow'', comma_list ms) # plain_headers) ''Method Not Allowed''), s)))"

section \<open>One route per request\<close>

lemma all_routes_complete: "rt \<in> set all_routes"
  by (cases rt) (simp_all add: all_routes_def)

text \<open>Two patterns of the same length overlap unless they disagree in a literal.\<close>

fun overlap :: "segment list \<Rightarrow> segment list \<Rightarrow> bool" where
  "overlap [] [] \<longleftrightarrow> True"
| "overlap (Literal a # ss) (Literal b # ts) \<longleftrightarrow> a = b \<and> overlap ss ts"
| "overlap (_ # ss) (_ # ts) \<longleftrightarrow> overlap ss ts"
| "overlap _ _ \<longleftrightarrow> False"

lemma match_overlap: "match_path ss xs = Some u \<Longrightarrow> match_path ts xs = Some v \<Longrightarrow> overlap ss ts"
proof (induction ss xs arbitrary: ts u v rule: match_path.induct)
  case 1
  then show ?case by (cases ts) simp_all
next
  case (2 l ss x xs)
  then show ?case by (cases "(ts, x # xs)" rule: match_path.cases) (auto split: if_split_asm)
next
  case (3 w ss x xs)
  then show ?case by (cases "(ts, x # xs)" rule: match_path.cases) (auto split: if_split_asm)
qed simp_all

lemma patterns_apart:
  "sorted_wrt (\<lambda>(m, ss) (n, ts). m \<noteq> n \<or> \<not> overlap ss ts) (map (\<lambda>rt. parse_pattern (pattern rt)) all_routes)"
  by code_simp

lemma pattern_methods: "fst (parse_pattern (pattern rt)) \<in> {''GET'', ''POST'', ''PATCH'', ''DELETE''}"
  by (cases rt) (simp_all add: parse_pattern_def Let_def)

lemma sorted_wrt_map_apart:
  "sorted_wrt P (map f xs) \<Longrightarrow> x \<in> set xs \<Longrightarrow> y \<in> set xs \<Longrightarrow> x = y \<or> P (f x) (f y) \<or> P (f y) (f x)"
  by (induction xs) auto

lemma overlap_sym: "overlap ss ts = overlap ts ss"
  by (induction ss ts rule: overlap.induct) auto

lemma match_route_unique:
  assumes "match_route m path a = Some u" and "match_route m path b = Some v"
  shows "a = b"
proof -
  obtain pm ss pn ts where p: "parse_pattern (pattern a) = (pm, ss)" "parse_pattern (pattern b) = (pn, ts)" by fastforce
  have fit: "method_fits pm m" "match_path ss (path_segments path) = Some u" "method_fits pn m" "match_path ts (path_segments path) = Some v"
    using assms p by (auto simp: match_route_def split: if_split_asm)
  then have ov: "overlap ss ts" using match_overlap by blast
  have "pm = pn" using fit(1,3) pattern_methods [of a] pattern_methods [of b] p by (auto simp: method_fits_def)
  with ov have "\<not> (pm \<noteq> pn \<or> \<not> overlap ss ts)" "\<not> (pn \<noteq> pm \<or> \<not> overlap ts ss)" by (simp_all add: overlap_sym)
  with sorted_wrt_map_apart [OF patterns_apart all_routes_complete [of a] all_routes_complete [of b]] p show ?thesis by auto
qed

lemma find_route_iff: "find_route m path = Some (rt, vars) \<longleftrightarrow> match_route m path rt = Some vars"
proof -
  let ?f = "\<lambda>rt. map_option (Pair rt) (match_route m path rt)"
  have mem: "(a, u) \<in> set (List.map_filter ?f all_routes) \<longleftrightarrow> match_route m path a = Some u" for a u
    using all_routes_complete [of a] by (auto simp: List.map_filter_def image_iff intro!: exI [of _ a])
  show ?thesis
  proof (cases "List.map_filter ?f all_routes")
    case Nil
    then show ?thesis using mem [of rt vars] by (simp add: find_route_def)
  next
    case (Cons p ps)
    obtain a u where p: "p = (a, u)" by (cases p)
    then have "match_route m path a = Some u" using mem [of a u] Cons by simp
    then show ?thesis using Cons p match_route_unique [of m path a u rt vars] by (auto simp: find_route_def)
  qed
qed

text \<open>The wildcards a match binds are those of the pattern, with non-empty values.\<close>

fun wildcards :: "segment list \<Rightarrow> string list" where
  "wildcards [] = []"
| "wildcards (Wildcard v # ss) = v # wildcards ss"
| "wildcards (Literal l # ss) = wildcards ss"

lemma match_path_vars: "match_path ss xs = Some vars \<Longrightarrow> map fst vars = wildcards ss \<and> (\<forall>(v, x) \<in> set vars. x \<noteq> '''')"
proof (induction ss xs arbitrary: vars rule: match_path.induct)
  case (3 v ss x xs)
  then show ?case by (cases "match_path ss xs") (auto split: if_split_asm)
qed (auto split: if_split_asm)

section \<open>Requests that only read\<close>

definition untouched :: "db \<Rightarrow> db \<Rightarrow> bool" where
  "untouched d d' \<longleftrightarrow> d' = d"

interpretation unread: tx_order untouched
  by unfold_locales (simp_all add: untouched_def)

lemma assures_via [tx_rules]: "assures R (h (with_body dec r) sc now) \<Longrightarrow> assures R (via dec enc h r sc now)"
  by (rule assuresI) (auto simp: via_def atx_simps dest: assuresD)

lemma reading_parts [tx_rules]: "assures untouched (loadExecutions j)" "assures untouched (kin P f)"
  unfolding loadExecutions_def kin_def by (intro tx_rules)+

lemma reading_handlers:
  "assures untouched (listOrgs r sc now)" "assures untouched (getOrg r sc now)"
  "assures untouched (listProjects r sc now)" "assures untouched (getProject r sc now)"
  "assures untouched (listPolicies r sc now)" "assures untouched (getPolicy r sc now)"
  "assures untouched (listQueues r sc now)" "assures untouched (getQueue r sc now)"
  "assures untouched (listSchedules r sc now)" "assures untouched (getSchedule r sc now)"
  "assures untouched (listJobs lib r sc now)" "assures untouched (getJob r sc now)" "assures untouched (listDLQ lib r sc now)"
  "assures untouched (failureSummary tlib ready r sc now)" "assures untouched (listEvents r sc now)"
  "assures untouched (listWorkers r sc now)" "assures untouched (projectHealth r sc now)"
  "assures untouched (queueStats r sc now)" "assures untouched (queueSeries r sc now)" "assures untouched (getBatch r sc now)"
  unfolding listOrgs_def getOrg_def listProjects_def getProject_def listPolicies_def getPolicy_def listQueues_def getQueue_def
    listSchedules_def getSchedule_def listJobs_def getJob_def listDLQ_def failureSummary_def listEvents_def listWorkers_def
    projectHealth_def queueStats_def queueSeries_def getBatch_def Let_def
  by (intro tx_rules)+

definition get_route :: "route \<Rightarrow> bool" where
  "get_route rt \<longleftrightarrow> fst (parse_pattern (pattern rt)) = ''GET''"

lemmas pattern_eval = get_route_def parse_pattern_def Let_def

lemma get_route_reads:
  assumes "get_route rt" and "mount lib dr rt = Guarded least action entity loc fn"
  shows "action = '''' \<and> assures untouched (fn r sc now)"
  using assms by (cases rt) (auto simp: pattern_eval intro!: assures_via reading_handlers)

lemma get_route_not_public: "get_route rt \<Longrightarrow> mount lib dr rt \<noteq> Public fn"
  by (cases rt) (simp_all add: pattern_eval)

lemma not_get_method: "match_route m path rt = Some vars \<Longrightarrow> \<not> get_route rt \<Longrightarrow> m \<notin> {''GET'', ''HEAD''}"
  using pattern_methods [of rt] by (auto simp: match_route_def method_fits_def get_route_def split: prod.split_asm if_split_asm)

text \<open>Every route that writes is public, needs only a session, or needs at least a member.\<close>

lemma writing_routes:
  assumes "\<not> get_route rt"
  shows "(\<exists>fn. mount lib dr rt = Public fn) \<and> rt \<in> {Register, Login} \<or>
    (\<exists>least action entity loc fn. mount lib dr rt = Guarded least action entity loc fn \<and> (rt \<in> {Logout, CreateOrg} \<or> member \<le> least))"
  using assms by (cases rt) (simp_all add: pattern_eval less_eq_role_def)

lemma stream_open_db:
  assumes "stream_open ul env r ch h d = (x, d')"
  shows "\<exists>k < 5. d' = fold (\<lambda>i. ta_before (env i)) [0..<Suc k] d"
proof -
  have keep: "d1 = d0" if tx: "stream_tx ul r now d0 = Inr (a, d1)" for now d0 a d1
  proof -
    obtain p d2 where p: "authuser ul r now d0 = Inr (p, d2)" using tx unfolding stream_tx_def abind_Inr by blast
    obtain uid sid where uid: "p = (uid, sid)" by (cases p)
    have "d2 = d0" using authuser_Inr(1) [OF p [unfolded uid]] .
    with tx p uid show ?thesis by (auto simp: stream_tx_def split: sum.split_asm option.split_asm if_split_asm)
  qed
  obtain res where "run_in_tx env (stream_tx ul r) d = (res, d')"
    using assms by (auto simp: stream_open_def split: prod.split_asm sum.split_asm)
  from run_in_tx_outcome [OF this] keep show ?thesis unfolding Let_def by blast
qed

text \<open>What a request leaves behind: nothing, or the effect of the route's handler in one transaction.\<close>

lemma serve_outcome:
  assumes run: "serve lib dr env ch hr (h, d) = (v, h', d')"
  obtains (no_route) "d' = d"
  | (refused) k where "k < 5" "d' = fold (\<lambda>i. ta_before (env i)) [0..<Suc k] d"
  | (open_to_all) k rt vars fn res where "k < 5" "match_route (hr_method hr) (hr_path hr) rt = Some vars" "mount lib dr rt = Public fn"
      "fn (to_request (request_id dr hr) vars hr) \<lparr>sc_userID = 0, sc_sessionID = 0, sc_orgID = 0, sc_projectID = 0, sc_entityID = 0, sc_role = viewer\<rparr>
         (ta_now (env k)) (fold (\<lambda>i. ta_before (env i)) [0..<Suc k] d) = Inr (res, d')"
  | (guarded) k rt vars least action entity loc fn res where "k < 5" "match_route (hr_method hr) (hr_path hr) rt = Some vars"
      "mount lib dr rt = Guarded least action entity loc fn"
      "guard_tx (al_uuid (sl_api lib)) least action entity loc fn (to_request (request_id dr hr) vars hr) (ta_now (env k))
         (fold (\<lambda>i. ta_before (env i)) [0..<Suc k] d) = Inr (res, d')"
proof (cases "find_route (hr_method hr) (hr_path hr)")
  case None
  then have "d' = d" using run by (auto simp: serve_def Let_def split: if_split_asm)
  then show ?thesis by (rule no_route)
next
  case (Some p)
  obtain rt vars where p: "p = (rt, vars)" by (cases p)
  let ?r = "to_request (request_id dr hr) vars hr"
  have m: "match_route (hr_method hr) (hr_path hr) rt = Some vars" using Some p find_route_iff by blast
  obtain v' where sr: "serve_route lib dr env ch rt ?r (h, d) = (v', h', d')"
    using run Some p by (auto simp: serve_def Let_def split: prod.split_asm)
  show ?thesis
  proof (cases "mount lib dr rt")
    case (Public fn)
    then obtain x where "run_in_tx env (fn ?r \<lparr>sc_userID = 0, sc_sessionID = 0, sc_orgID = 0, sc_projectID = 0, sc_entityID = 0, sc_role = viewer\<rparr>) d = (x, d')"
      using sr by (auto simp: serve_route_def Let_def public_def split: prod.split_asm)
    from run_in_tx_outcome [OF this] show ?thesis unfolding Let_def using refused open_to_all [OF _ m Public] by blast
  next
    case (Guarded least action entity loc fn)
    then obtain x where "run_in_tx env (guard_tx (al_uuid (sl_api lib)) least action entity loc fn ?r) d = (x, d')"
      using sr by (auto simp: serve_route_def Let_def guard_def split: prod.split_asm)
    from run_in_tx_outcome [OF this] show ?thesis unfolding Let_def using refused guarded [OF _ m Guarded] by blast
  next
    case Streamed
    then obtain x :: "reply response + uuid \<times> uuid \<times> int \<times> hub" where "stream_open (al_uuid (sl_api lib)) env ?r ch h d = (x, d')"
      using sr by (auto simp: serve_route_def Let_def split: prod.split_asm sum.split_asm)
    from stream_open_db [OF this] show ?thesis using refused by blast
  qed
qed

text \<open>A locator that finds something finds it in an organisation the user is a member of.\<close>

definition has_role :: "uuid \<Rightarrow> uuid \<Rightarrow> role \<Rightarrow> db \<Rightarrow> bool" where
  "has_role uid org least d \<longleftrightarrow> (\<exists>m \<in> set (org_members d). om_user_id m = uid \<and> om_org_id m = org \<and> least \<le> parseRole (om_role m))"

lemma member_role_has: "member_role org uid d = Some r \<Longrightarrow> has_role uid org (parseRole r) d"
  by (auto simp: member_role_def has_role_def find_Some_iff intro: nth_mem)

lemma project_join_has: "project_join uid p d = Some (p', org, r) \<Longrightarrow> has_role uid org (parseRole r) d"
  by (auto simp: project_join_def split: option.split_asm intro: member_role_has)

lemmas entity_scopes = orgScope_def projectScope_def queueScope_def policyScope_def scheduleScope_def jobScope_def scopeBy_def

lemma scopes_have_role:
  "orgScope uid i d = Some sc \<Longrightarrow> has_role uid (sc_orgID sc) (sc_role sc) d"
  "projectScope uid i d = Some sc \<Longrightarrow> has_role uid (sc_orgID sc) (sc_role sc) d"
  "queueScope uid i d = Some sc \<Longrightarrow> has_role uid (sc_orgID sc) (sc_role sc) d"
  "policyScope uid i d = Some sc \<Longrightarrow> has_role uid (sc_orgID sc) (sc_role sc) d"
  "scheduleScope uid i d = Some sc \<Longrightarrow> has_role uid (sc_orgID sc) (sc_role sc) d"
  "jobScope uid i d = Some sc \<Longrightarrow> has_role uid (sc_orgID sc) (sc_role sc) d"
  by (auto simp: entity_scopes split: option.split_asm if_split_asm intro: member_role_has project_join_has)

lemma scope_has_role:
  assumes "sf \<in> {orgScope, projectScope, queueScope, policyScope, scheduleScope, jobScope}" and "sf uid i d = Some sc"
  shows "has_role uid (sc_orgID sc) (sc_role sc) d"
  using assms(1) by (elim insertE emptyE; use assms(2) in \<open>simp add: scopes_have_role\<close>)

lemma writing_locators:
  assumes "mount lib dr rt = Guarded least action entity loc fn" and "member \<le> least"
  shows "\<exists>n sf. loc = byPath (al_uuid (sl_api lib)) n sf \<and> sf \<in> {orgScope, projectScope, queueScope, policyScope, scheduleScope, jobScope}"
  using assms by (cases rt) (auto simp: less_eq_role_def)

lemma has_role_mono: "has_role uid org a d \<Longrightarrow> b \<le> a \<Longrightarrow> has_role uid org b d"
  unfolding has_role_def using order_trans by blast

section \<open>What the server promises\<close>

text \<open>
  C19. The table of routes is unambiguous, and its answers for anything else are exact. Whatever the order in which the
  patterns are registered, a method and path match at most one route, and that route serves the request. If none
  matches, neither the database nor the streams change: the answer is 405 with an \<open>Allow\<close> header of exactly
  the methods some route has for the path, or 404 when there is no such method. Every answer carries the id of the
  request.
\<close>

theorem routing_outcome:
  assumes run: "serve lib dr env ch hr s = (v, s')" and rid: "rid = request_id dr hr"
  shows "(\<forall>a b u w. match_route (hr_method hr) (hr_path hr) a = Some u \<and> match_route (hr_method hr) (hr_path hr) b = Some w \<longrightarrow> a = b) \<and>
    (\<forall>rt vars. match_route (hr_method hr) (hr_path hr) rt = Some vars \<longrightarrow>
       (\<exists>v0. serve_route lib dr env ch rt (to_request rid vars hr) s = (v0, s') \<and> v = stamp rid v0)) \<and>
    ((\<forall>rt. match_route (hr_method hr) (hr_path hr) rt = None) \<longrightarrow> s' = s \<and>
       (if \<exists>m rt. match_route m (hr_path hr) rt \<noteq> None
        then \<exists>ms. v = stamp rid (Plain 405 ((''Allow'', comma_list ms) # plain_headers) ''Method Not Allowed'') \<and>
          set ms = {m. \<exists>rt. match_route m (hr_path hr) rt \<noteq> None}
        else v = stamp rid (Plain 404 plain_headers ''404 page not found'')))"
proof -
  have found: "find_route m p \<noteq> None \<longleftrightarrow> (\<exists>rt. match_route m p rt \<noteq> None)" for m p
    using find_route_iff [of m p] by (metis option.exhaust prod.exhaust option.distinct(1))
  have five: "m \<in> set served_methods" if "match_route m p rt \<noteq> None" for m p rt
    using that pattern_methods [of rt] by (auto simp: match_route_def method_fits_def served_methods_def split: prod.split_asm if_split_asm)
  have ms: "set (allowed_methods (hr_path hr)) = {m. \<exists>rt. match_route m (hr_path hr) rt \<noteq> None}"
    unfolding allowed_methods_def set_filter found using five by blast
  have none: "allowed_methods (hr_path hr) = [] \<longleftrightarrow> \<not> (\<exists>m rt. match_route m (hr_path hr) rt \<noteq> None)"
    unfolding set_empty [symmetric] ms by blast
  have hit: "\<exists>v0. serve_route lib dr env ch rt (to_request rid vars hr) s = (v0, s') \<and> v = stamp rid v0"
    if "match_route (hr_method hr) (hr_path hr) rt = Some vars" for rt vars
    using run that [folded find_route_iff] rid by (auto simp: serve_def Let_def split: prod.split_asm)
  have miss: "s' = s \<and> (if allowed_methods (hr_path hr) \<noteq> []
      then v = stamp rid (Plain 405 ((''Allow'', comma_list (allowed_methods (hr_path hr))) # plain_headers) ''Method Not Allowed'')
      else v = stamp rid (Plain 404 plain_headers ''404 page not found''))"
    if no: "\<forall>rt. match_route (hr_method hr) (hr_path hr) rt = None"
  proof -
    have "\<not> find_route (hr_method hr) (hr_path hr) \<noteq> None" unfolding found using no by simp
    then have "find_route (hr_method hr) (hr_path hr) = None" by (simp only: not_not)
    then show ?thesis using run rid by (auto simp: serve_def Let_def)
  qed
  have "if \<exists>m rt. match_route m (hr_path hr) rt \<noteq> None
      then \<exists>ms. v = stamp rid (Plain 405 ((''Allow'', comma_list ms) # plain_headers) ''Method Not Allowed'') \<and>
        set ms = {m. \<exists>rt. match_route m (hr_path hr) rt \<noteq> None}
      else v = stamp rid (Plain 404 plain_headers ''404 page not found'')"
    if no: "\<forall>rt. match_route (hr_method hr) (hr_path hr) rt = None"
  proof (cases "allowed_methods (hr_path hr) = []")
    case False
    then show ?thesis using miss [OF no] none ms by (simp only: if_True simp_thms) blast
  qed (use miss [OF no] none in simp)
  then show ?thesis using hit miss match_route_unique by blast
qed

text \<open>A server whose bodies never decode, and requests to it.\<close>

definition no_json :: json_lib where
  "no_json = \<lparr>js_register = (\<lambda>_. None), js_login = (\<lambda>_. None), js_name = (\<lambda>_. None), js_member = (\<lambda>_. None), js_policy = (\<lambda>_. None),
     js_queue = (\<lambda>_. None), js_schedule = (\<lambda>_. None), js_submit = (\<lambda>_. None), js_batch = (\<lambda>_. None), js_replay = (\<lambda>_. None)\<rparr>"

definition sample_server :: "(unit, unit) server_lib" where
  "sample_server = \<lparr>sl_api = text_api, sl_argon = plain_argon, sl_cron = minutely, sl_known = (\<lambda>_. True), sl_text = plain_text,
     sl_ready = False, sl_json = no_json\<rparr>"

definition sample_draws :: draws where
  "sample_draws = \<lparr>dr_rid = ''r1'', dr_id = 30, dr_ids = (\<lambda>n. 40 + n), dr_session = Some 8, dr_salt = None, dr_race = False\<rparr>"

definition sample_http :: "string \<Rightarrow> string \<Rightarrow> http_request" where
  "sample_http m p = \<lparr>hr_method = m, hr_path = p, hr_header = (\<lambda>h. if h = ''Authorization'' then ''Bearer abcd'' else ''''),
     hr_cookie = (\<lambda>_. None), hr_protocols = [], hr_query = (\<lambda>_. ''''), hr_body = ''''\<rparr>"

lemma sample_http_simps [simp]: "hr_method (sample_http m p) = m" "hr_path (sample_http m p) = p"
  by (simp_all add: sample_http_def)

theorem routing_outcome_witness:
  "\<exists>v ms. serve sample_server sample_draws (quiet_tx sample_now) 0 (sample_http ''DELETE'' ''/jobs'') (no_streams, team_db) =
      (v, no_streams, team_db) \<and>
    v = stamp ''r1'' (Plain 405 ((''Allow'', comma_list ms) # plain_headers) ''Method Not Allowed'') \<and> ''GET'' \<in> set ms \<and> ''POST'' \<notin> set ms"
proof -
  let ?hr = "sample_http ''DELETE'' ''/jobs''"
  obtain v s' where run: "serve sample_server sample_draws (quiet_tx sample_now) 0 ?hr (no_streams, team_db) = (v, s')" by (rule prod.exhaust)
  have rid: "''r1'' = request_id sample_draws ?hr" by (simp add: request_id_def sample_http_def sample_draws_def)
  have "list_all (\<lambda>rt. match_route ''DELETE'' ''/jobs'' rt = None \<and> match_route ''POST'' ''/jobs'' rt = None) all_routes" by code_simp
  then have no: "\<forall>rt. match_route ''DELETE'' ''/jobs'' rt = None" "\<forall>rt. match_route ''POST'' ''/jobs'' rt = None"
    using all_routes_complete by (auto simp: list_all_iff)
  have get: "match_route ''GET'' ''/jobs'' ListJobs \<noteq> None" by code_simp
  note miss = mp [OF conjunct2 [OF conjunct2 [OF routing_outcome [OF run rid, unfolded sample_http_simps]]] no(1)]
  have ex: "\<exists>m rt. match_route m ''/jobs'' rt \<noteq> None" using get by (intro exI)
  obtain ms where ms: "s' = (no_streams, team_db)"
      "v = stamp ''r1'' (Plain 405 ((''Allow'', comma_list ms) # plain_headers) ''Method Not Allowed'')"
      "set ms = {m. \<exists>rt. match_route m ''/jobs'' rt \<noteq> None}"
    using miss unfolding if_P [OF ex] by (elim conjE exE)
  have "''GET'' \<in> set ms" unfolding ms(3) using get by (intro CollectI exI)
  moreover have "''POST'' \<notin> set ms" unfolding ms(3) using no(2) by simp
  ultimately show ?thesis using run ms(1,2) by (intro exI [of _ v] exI [of _ ms] conjI) simp_all
qed


lemma sample_pause_served:
  "\<exists>v d'. serve sample_server sample_draws (quiet_tx sample_now) 0 (sample_http ''POST'' ''/queues/aaaaaaa/pause'') (no_streams, team_db) =
    (v, no_streams, d') \<and> map q_paused (queues d') = [True]"
proof -
  let ?hr = "sample_http ''POST'' ''/queues/aaaaaaa/pause''"
  let ?r = "to_request ''r1'' [(''id'', ''aaaaaaa'')] ?hr"
  have "match_route ''POST'' ''/queues/aaaaaaa/pause'' PauseQueue = Some [(''id'', ''aaaaaaa'')]" by code_simp
  then have rt: "find_route ''POST'' ''/queues/aaaaaaa/pause'' = Some (PauseQueue, [(''id'', ''aaaaaaa'')])"
    unfolding find_route_iff .
  have rid: "request_id sample_draws ?hr = ''r1''" by (simp add: request_id_def sample_http_def sample_draws_def)
  have tok: "bearer ?r = ''abcd''" "parse_uuid one_uuid ''abcd'' = Some 4"
    by (simp_all add: bearer_def to_request_def sample_http_def cut_prefix_def trim_space_def is_space_def one_uuid_def)
  have ses: "authuser one_uuid ?r sample_now team_db = Inr ((1, 4), team_db)"
    using tok by (simp add: authuser_def session_sql_def team_db_def)
  have loc: "byPath one_uuid ''id'' queueScope ?r 1 team_db = Inr (Some (sample_scope\<lparr>sc_userID := 0, sc_sessionID := 0\<rparr>))"
    by (simp add: byPath_def one_uuid_def to_request_def queueScope_def scopeBy_def project_join_def member_role_def parseRole_def team_db_def
      sample_defs sample_scope_def)
  obtain v d1 where run: "pauseQueue (with_body Some ?r) sample_scope sample_now team_db = Inr (v, d1)" "map q_paused (queues d1) = [True]" "users d1 = users team_db"
    by (simp add: pauseQueue_def setPaused_def set_paused_sql_def update_queues_def update_where_def check_queue_def team_db_def sample_defs sample_scope_def
      api_emit_def query_row_def abind_def aret_def emit_def)
  have tx: "\<exists>res d'. guard_tx one_uuid member ''queue.pause'' ''queue'' (byPath one_uuid ''id'' queueScope) (via Some R_switch pauseQueue) ?r sample_now team_db =
      Inr (res, d') \<and> map q_paused (queues d') = [True]"
    using run ses loc
    by (simp add: guard_tx_def via_def audit_def sample_scope_def team_db_def less_role_def)
  show ?thesis using tx
    by (auto simp: serve_def rt rid Let_def serve_route_def guard_def run_in_tx_def maxTxRetries_def numeral_eq_Suc tx_attempt_def quiet_tx_def
      sample_server_def text_api_def)
qed


end
