(* ===== verification/Tenancy.thy ===== *)
theory Tenancy
  imports Server
begin

text \<open>
  Tenants: what an organisation owns (its row, members, projects, policies, queues with their shards, schedules and
  jobs) and that requests of others leave it alone.

  The proof looks at a transaction from outside: a \<open>realm\<close> names the organisations, projects and queues that are
  somebody else's and the ids of policies, schedules and jobs that are known to be the caller's own. \<open>apart\<close> says
  that the rows respect this division (a job is in its queue's project, and so on), \<open>elsewhere\<close> is all that
  belongs to the others, and \<open>spares\<close> the guarantee of one transaction: it keeps the division and changes nothing
  elsewhere.
\<close>

section \<open>Tenants and realms\<close>

record tenant_rows =
  tn_organizations :: "organization list"
  tn_members :: "org_member list"
  tn_projects :: "project list"
  tn_policies :: "retry_policy list"
  tn_queues :: "queue list"
  tn_shards :: "queue_shard list"
  tn_schedules :: "schedule list"
  tn_jobs :: "job list"

definition rows_within :: "uuid set \<Rightarrow> uuid set \<Rightarrow> uuid set \<Rightarrow> db \<Rightarrow> tenant_rows" where
  "rows_within os ps qs d =
     \<lparr>tn_organizations = filter (\<lambda>o'. o_id o' \<in> os) (organizations d), tn_members = filter (\<lambda>m. om_org_id m \<in> os) (org_members d),
      tn_projects = filter (\<lambda>p. pr_org_id p \<in> os) (projects d), tn_policies = filter (\<lambda>rp. p_project_id rp \<in> ps) (retry_policies d),
      tn_queues = filter (\<lambda>q. q_project_id q \<in> ps) (queues d), tn_shards = filter (\<lambda>s. s_queue_id s \<in> qs) (queue_shards d),
      tn_schedules = filter (\<lambda>s. sc_queue_id s \<in> qs) (schedules d), tn_jobs = filter (\<lambda>j. j_project_id j \<in> ps) (jobs d)\<rparr>"

definition projects_of :: "uuid \<Rightarrow> db \<Rightarrow> uuid set" where
  "projects_of org d = pr_id ` {p \<in> set (projects d). pr_org_id p = org}"

definition queues_of :: "uuid \<Rightarrow> db \<Rightarrow> uuid set" where
  "queues_of org d = q_id ` {q \<in> set (queues d). q_project_id q \<in> projects_of org d}"

text \<open>What organisation \<open>org\<close> owns.\<close>

definition tenant :: "uuid \<Rightarrow> db \<Rightarrow> tenant_rows" where
  "tenant org d = rows_within {org} (projects_of org d) (queues_of org d) d"

text \<open>Keys are unique and rows refer to rows of the same project.\<close>

definition tenants_ok :: "db \<Rightarrow> bool" where
  "tenants_ok d \<longleftrightarrow> distinct (map pr_id (projects d)) \<and> distinct (map p_id (retry_policies d)) \<and> distinct (map q_id (queues d)) \<and>
     distinct (map sc_id (schedules d)) \<and> distinct (map j_id (jobs d)) \<and>
     (\<forall>q \<in> set (queues d). q_project_id q \<in> pr_id ` set (projects d)) \<and>
     (\<forall>s \<in> set (schedules d). sc_queue_id s \<in> q_id ` set (queues d)) \<and>
     (\<forall>j \<in> set (jobs d). \<exists>q \<in> set (queues d). q_id q = j_queue_id j \<and> q_project_id q = j_project_id j) \<and>
     (\<forall>j \<in> set (jobs d). \<forall>i. j_schedule_id j = Some i \<longrightarrow> (\<exists>s \<in> set (schedules d). sc_id s = i \<and> sc_queue_id s = j_queue_id j)) \<and>
     (\<forall>x \<in> set (dead_letter_jobs d). \<forall>j \<in> set (jobs d). d_job_id x = j_id j \<longrightarrow> d_queue_id x = j_queue_id j)"

record realm =
  rm_orgs :: "uuid set"
  rm_projects :: "uuid set"
  rm_queues :: "uuid set"
  own_policies :: "uuid set"
  own_schedules :: "uuid set"
  own_jobs :: "uuid set"

definition elsewhere :: "realm \<Rightarrow> db \<Rightarrow> tenant_rows" where
  "elsewhere F d = rows_within (rm_orgs F) (rm_projects F) (rm_queues F) d"

definition projects_apart :: "realm \<Rightarrow> db \<Rightarrow> bool" where
  "projects_apart F d \<longleftrightarrow> rm_orgs F \<subseteq> o_id ` set (organizations d) \<and> rm_projects F \<subseteq> pr_id ` set (projects d) \<and>
     (\<forall>p \<in> set (projects d). pr_id p \<in> rm_projects F \<longleftrightarrow> pr_org_id p \<in> rm_orgs F)"

definition policies_apart :: "realm \<Rightarrow> db \<Rightarrow> bool" where
  "policies_apart F d \<longleftrightarrow> (\<forall>rp \<in> set (retry_policies d). p_id rp \<in> own_policies F \<longrightarrow> p_project_id rp \<notin> rm_projects F)"

definition queues_apart :: "realm \<Rightarrow> db \<Rightarrow> bool" where
  "queues_apart F d \<longleftrightarrow> rm_queues F \<subseteq> q_id ` set (queues d) \<and>
     (\<forall>q \<in> set (queues d). q_id q \<in> rm_queues F \<longleftrightarrow> q_project_id q \<in> rm_projects F)"

definition schedules_apart :: "realm \<Rightarrow> db \<Rightarrow> bool" where
  "schedules_apart F d \<longleftrightarrow> (\<forall>s \<in> set (schedules d). sc_id s \<in> own_schedules F \<longrightarrow> sc_queue_id s \<notin> rm_queues F)"

definition job_apart :: "realm \<Rightarrow> schedule list \<Rightarrow> dead_letter list \<Rightarrow> job \<Rightarrow> bool" where
  "job_apart F ss xs j \<longleftrightarrow> (j_queue_id j \<in> rm_queues F \<longleftrightarrow> j_project_id j \<in> rm_projects F) \<and>
     (j_id j \<in> own_jobs F \<longrightarrow> j_project_id j \<notin> rm_projects F) \<and>
     (\<forall>i. j_schedule_id j = Some i \<longrightarrow> i \<in> sc_id ` set ss \<and>
        (\<forall>s \<in> set ss. sc_id s = i \<longrightarrow> (sc_queue_id s \<in> rm_queues F \<longleftrightarrow> j_queue_id j \<in> rm_queues F))) \<and>
     (j_status j = Dead_letter \<longrightarrow>
        (\<forall>x \<in> set xs. d_job_id x = j_id j \<longrightarrow> (d_queue_id x \<in> rm_queues F \<longleftrightarrow> j_queue_id j \<in> rm_queues F)))"

definition jobs_apart :: "realm \<Rightarrow> db \<Rightarrow> bool" where
  "jobs_apart F d \<longleftrightarrow> (\<forall>j \<in> set (jobs d). job_apart F (schedules d) (dead_letter_jobs d) j)"

definition apart :: "realm \<Rightarrow> db \<Rightarrow> bool" where
  "apart F d \<longleftrightarrow> projects_apart F d \<and> policies_apart F d \<and> queues_apart F d \<and> schedules_apart F d \<and> jobs_apart F d"

definition spares :: "realm \<Rightarrow> db \<Rightarrow> db \<Rightarrow> bool" where
  "spares F d d' \<longleftrightarrow> (apart F d \<longrightarrow> apart F d' \<and> elsewhere F d' = elsewhere F d)"

lemma sparesI: "(apart F d \<Longrightarrow> apart F d' \<and> elsewhere F d' = elsewhere F d) \<Longrightarrow> spares F d d'"
  by (simp add: spares_def)

lemma spares_refl: "spares F d d"
  by (simp add: spares_def)

lemma spares_trans: "spares F a b \<Longrightarrow> spares F b c \<Longrightarrow> spares F a c"
  by (simp add: spares_def)

lemmas apart_defs = apart_def projects_apart_def policies_apart_def queues_apart_def schedules_apart_def jobs_apart_def

text \<open>A transaction that touches none of these tables spares everybody.\<close>

lemma spares_frame:
  assumes "organizations d' = organizations d" "org_members d' = org_members d" "projects d' = projects d" "retry_policies d' = retry_policies d"
    "queues d' = queues d" "queue_shards d' = queue_shards d" "schedules d' = schedules d" "jobs d' = jobs d" "dead_letter_jobs d' = dead_letter_jobs d"
  shows "spares F d d'"
  unfolding spares_def apart_defs elsewhere_def rows_within_def assms by blast

interpretation tenancy: tx_guarantee "spares F" for F
proof
  show "spares F d d" for d by (rule spares_refl)
  show "spares F a b \<Longrightarrow> spares F b c \<Longrightarrow> spares F a c" for a b c by (rule spares_trans)
  show "spares F d (emit topic entity project payload now d)" for d topic entity project payload now
    by (rule spares_frame) (simp_all add: emit_def)
qed

section \<open>Changes to one table\<close>

lemma filter_update_where: "(\<And>x. x \<in> set xs \<Longrightarrow> P x \<Longrightarrow> \<not> Q x \<and> \<not> Q (f x)) \<Longrightarrow> filter Q (update_where P f xs) = filter Q xs"
  by (induction xs) (auto simp: update_where_def)

lemma filter_delete_where: "(\<And>x. x \<in> set xs \<Longrightarrow> Q x \<Longrightarrow> \<not> P x) \<Longrightarrow> filter Q (delete_where P xs) = filter Q xs"
  by (induction xs) (auto simp: delete_where_def)

text \<open>Ids that belong to rows of others stay ids of rows.\<close>

lemma foreign_ids:
  assumes "filter Q xs' = filter Q xs" and "\<And>x. x \<in> set xs \<Longrightarrow> k x \<in> K \<Longrightarrow> Q x" and "K \<subseteq> k ` set xs"
  shows "K \<subseteq> k ` set xs'"
proof
  fix i assume i: "i \<in> K"
  then obtain x where x: "x \<in> set xs" "i = k x" using assms(3) by blast
  then have "x \<in> set (filter Q xs)" using assms(2) i by simp
  then have "x \<in> set (filter Q xs')" unfolding assms(1) .
  then have "x \<in> set xs'" by simp
  then show "i \<in> k ` set xs'" using x(2) by (metis imageI)
qed

lemma spares_organizations:
  assumes "filter (\<lambda>o'. o_id o' \<in> rm_orgs F) os = filter (\<lambda>o'. o_id o' \<in> rm_orgs F) (organizations d)"
  shows "spares F d (d\<lparr>organizations := os\<rparr>)"
proof (rule sparesI)
  assume a: "apart F d"
  have "rm_orgs F \<subseteq> o_id ` set os" using foreign_ids [OF assms, of o_id "rm_orgs F"] a by (simp add: apart_def projects_apart_def)
  then show "apart F (d\<lparr>organizations := os\<rparr>) \<and> elsewhere F (d\<lparr>organizations := os\<rparr>) = elsewhere F d"
    using a assms by (simp add: apart_defs elsewhere_def rows_within_def)
qed

lemma spares_members:
  assumes "filter (\<lambda>m. om_org_id m \<in> rm_orgs F) ms = filter (\<lambda>m. om_org_id m \<in> rm_orgs F) (org_members d)"
  shows "spares F d (d\<lparr>org_members := ms\<rparr>)"
  using assms by (simp add: spares_def apart_defs elsewhere_def rows_within_def)

lemma spares_projects:
  assumes "apart F d \<Longrightarrow> filter (\<lambda>p. pr_org_id p \<in> rm_orgs F) ps = filter (\<lambda>p. pr_org_id p \<in> rm_orgs F) (projects d)"
    and "apart F d \<Longrightarrow> \<forall>p \<in> set ps. pr_id p \<in> rm_projects F \<longleftrightarrow> pr_org_id p \<in> rm_orgs F"
  shows "spares F d (d\<lparr>projects := ps\<rparr>)"
proof (rule sparesI)
  assume a: "apart F d"
  have "rm_projects F \<subseteq> pr_id ` set ps"
    by (rule foreign_ids [OF assms(1) [OF a]]) (use a in \<open>auto simp: apart_def projects_apart_def\<close>)
  then show "apart F (d\<lparr>projects := ps\<rparr>) \<and> elsewhere F (d\<lparr>projects := ps\<rparr>) = elsewhere F d"
    using a assms by (simp add: apart_defs elsewhere_def rows_within_def)
qed

lemma spares_policies:
  assumes "apart F d \<Longrightarrow> filter (\<lambda>rp. p_project_id rp \<in> rm_projects F) rs = filter (\<lambda>rp. p_project_id rp \<in> rm_projects F) (retry_policies d)"
    and "apart F d \<Longrightarrow> \<forall>rp \<in> set rs. p_id rp \<in> own_policies F \<longrightarrow> p_project_id rp \<notin> rm_projects F"
  shows "spares F d (d\<lparr>retry_policies := rs\<rparr>)"
  using assms by (simp add: spares_def apart_defs elsewhere_def rows_within_def)

lemma spares_queues:
  assumes "apart F d \<Longrightarrow> filter (\<lambda>q. q_project_id q \<in> rm_projects F) qs = filter (\<lambda>q. q_project_id q \<in> rm_projects F) (queues d)"
    and "apart F d \<Longrightarrow> \<forall>q \<in> set qs. q_id q \<in> rm_queues F \<longleftrightarrow> q_project_id q \<in> rm_projects F"
  shows "spares F d (d\<lparr>queues := qs\<rparr>)"
proof (rule sparesI)
  assume a: "apart F d"
  have "rm_queues F \<subseteq> q_id ` set qs"
    by (rule foreign_ids [OF assms(1) [OF a]]) (use a in \<open>auto simp: apart_def queues_apart_def\<close>)
  then show "apart F (d\<lparr>queues := qs\<rparr>) \<and> elsewhere F (d\<lparr>queues := qs\<rparr>) = elsewhere F d"
    using a assms by (simp add: apart_defs elsewhere_def rows_within_def)
qed

lemma spares_shards:
  assumes "filter (\<lambda>s. s_queue_id s \<in> rm_queues F) ss = filter (\<lambda>s. s_queue_id s \<in> rm_queues F) (queue_shards d)"
  shows "spares F d (d\<lparr>queue_shards := ss\<rparr>)"
  using assms by (simp add: spares_def apart_defs elsewhere_def rows_within_def)

lemma spares_jobs:
  assumes "apart F d \<Longrightarrow> filter (\<lambda>j. j_project_id j \<in> rm_projects F) js = filter (\<lambda>j. j_project_id j \<in> rm_projects F) (jobs d)"
    and "apart F d \<Longrightarrow> \<forall>j \<in> set js. job_apart F (schedules d) (dead_letter_jobs d) j"
  shows "spares F d (d\<lparr>jobs := js\<rparr>)"
  using assms by (simp add: spares_def apart_defs elsewhere_def rows_within_def)

lemma spares_schedules:
  assumes "apart F d \<Longrightarrow> filter (\<lambda>s. sc_queue_id s \<in> rm_queues F) ss = filter (\<lambda>s. sc_queue_id s \<in> rm_queues F) (schedules d)"
    and "apart F d \<Longrightarrow> \<forall>s \<in> set ss. sc_id s \<in> own_schedules F \<longrightarrow> sc_queue_id s \<notin> rm_queues F"
    and "apart F d \<Longrightarrow> \<forall>j \<in> set (jobs d). job_apart F ss (dead_letter_jobs d) j"
  shows "spares F d (d\<lparr>schedules := ss\<rparr>)"
  using assms by (simp add: spares_def apart_defs elsewhere_def rows_within_def)

lemma spares_update_jobs:
  assumes run: "update_jobs P f d = Inr d'"
    and own: "\<And>j. apart F d \<Longrightarrow> j \<in> set (jobs d) \<Longrightarrow> P j \<Longrightarrow> j_project_id j \<notin> rm_projects F"
    and keys: "\<And>j. j_id (f j) = j_id j \<and> j_queue_id (f j) = j_queue_id j \<and> j_project_id (f j) = j_project_id j"
    and sched: "\<And>j. j_schedule_id (f j) = j_schedule_id j \<or> j_schedule_id (f j) = None"
    and status: "\<And>j. j_status (f j) = j_status j \<or> j_status (f j) \<noteq> Dead_letter"
  shows "spares F d d'"
proof -
  have d': "d' = d\<lparr>jobs := update_where P f (jobs d)\<rparr>" using run by (simp add: update_jobs_Inr_iff)
  have keep: "job_apart F ss xs j \<Longrightarrow> job_apart F ss xs (f j)" for ss xs j
    using sched [of j] status [of j] unfolding job_apart_def by (elim disjE) (simp_all add: keys)
  show ?thesis unfolding d'
  proof (rule spares_jobs)
    assume a: "apart F d"
    show "filter (\<lambda>j. j_project_id j \<in> rm_projects F) (update_where P f (jobs d)) = filter (\<lambda>j. j_project_id j \<in> rm_projects F) (jobs d)"
      by (rule filter_update_where) (use own [OF a] keys in simp)
    have "\<forall>j \<in> set (jobs d). job_apart F (schedules d) (dead_letter_jobs d) j" using a by (simp add: apart_def jobs_apart_def)
    then show "\<forall>j \<in> set (update_where P f (jobs d)). job_apart F (schedules d) (dead_letter_jobs d) j"
      by (auto simp: in_update_where_iff keep)
  qed
qed

section \<open>Policies, queues, schedules\<close>

lemma spares_insert_policy [tx_rules]: "pv_ProjectID v \<notin> rm_projects F \<Longrightarrow> assures (spares F) (insert_policy v)"
  by (rule assuresI) (auto simp: insert_policy_def policy_row_def apart_def policies_apart_def intro!: spares_policies split: if_split_asm)

lemma policy_of_own: "policy_of d i = Some p \<Longrightarrow> apart F d \<Longrightarrow> i \<in> own_policies F \<Longrightarrow> p_project_id p \<notin> rm_projects F"
  by (auto simp: apart_def policies_apart_def dest: lookup_row_SomeD)

lemma spares_update_policy [tx_rules]: "i \<in> own_policies F \<Longrightarrow> assures (spares F) (update_policy i req)"
proof (rule assuresI)
  fix d r d' assume i: "i \<in> own_policies F" and run: "update_policy i req d = Inr (r, d')"
  show "spares F d d'"
  proof (cases "policy_of d i")
    case None
    then show ?thesis using run by (simp add: update_policy_def spares_refl)
  next
    case (Some p)
    let ?v = "merge_policy req (policy_view p)"
    have d': "d' = d\<lparr>retry_policies := update_where (\<lambda>p. p_id p = i) (\<lambda>_. policy_row ?v) (retry_policies d)\<rparr>"
      using run Some by (auto simp: update_policy_def Let_def split: if_split_asm)
    have v: "p_project_id (policy_row ?v) = p_project_id p" by (simp add: policy_row_def merge_policy_def policy_view_def)
    show ?thesis unfolding d'
    proof (rule spares_policies)
      assume a: "apart F d"
      have own: "p_id x = i \<Longrightarrow> x \<in> set (retry_policies d) \<Longrightarrow> p_project_id x \<notin> rm_projects F" for x
        using a i by (simp add: apart_def policies_apart_def)
      have new: "p_project_id (policy_row ?v) \<notin> rm_projects F" unfolding v using policy_of_own [OF Some a i] .
      show "filter (\<lambda>rp. p_project_id rp \<in> rm_projects F) (update_where (\<lambda>p. p_id p = i) (\<lambda>_. policy_row ?v) (retry_policies d)) =
          filter (\<lambda>rp. p_project_id rp \<in> rm_projects F) (retry_policies d)"
        by (rule filter_update_where) (use own new in simp)
      show "\<forall>rp \<in> set (update_where (\<lambda>p. p_id p = i) (\<lambda>_. policy_row ?v) (retry_policies d)). p_id rp \<in> own_policies F \<longrightarrow> p_project_id rp \<notin> rm_projects F"
        using a new by (auto simp: in_update_where_iff apart_def policies_apart_def)
    qed
  qed
qed

lemma spares_delete_policy [tx_rules]: "i \<in> own_policies F \<Longrightarrow> assures (spares F) (delete_policy i)"
  by (rule assuresI)
     (auto simp: delete_policy_def set_delete_where apart_def policies_apart_def intro!: spares_policies filter_delete_where split: if_split_asm)

lemma queue_foreign: "apart F d \<Longrightarrow> q \<in> set (queues d) \<Longrightarrow> q_project_id q \<in> rm_projects F \<longleftrightarrow> q_id q \<in> rm_queues F"
  by (simp add: apart_def queues_apart_def)

lemma spares_spread:
  assumes run: "spread old new now d = Inr d'" and own: "q_id new \<notin> rm_queues F"
  shows "spares F d d'"
proof -
  let ?Q = "\<lambda>s. s_queue_id s \<in> rm_queues F" and ?mine = "\<lambda>s. s_queue_id s = q_id new"
  let ?cap = "\<lambda>s. s\<lparr>s_rl_tokens := min (s_rl_tokens s) (q_rl_burst new / of_int (q_shards new))\<rparr>"
  obtain kept where kept: "kept = queue_shards d \<or> kept = delete_where (\<lambda>s. ?mine s \<and> q_shards new \<le> s_shard s) (queue_shards d)"
    and d': "d' = d\<lparr>queue_shards := update_where ?mine ?cap (spread_insert new now kept)\<rparr>"
    using run by (auto simp: spread_def Let_def split: if_split_asm)
  have "filter ?Q (update_where ?mine ?cap (spread_insert new now kept)) = filter ?Q (spread_insert new now kept)"
    by (rule filter_update_where) (use own in simp)
  also have "\<dots> = filter ?Q kept" using own by (simp add: spread_insert_def)
  also have "\<dots> = filter ?Q (queue_shards d)" using kept own by (elim disjE) (auto intro: filter_delete_where)
  finally show ?thesis unfolding d' by (rule spares_shards)
qed

lemma spares_insert_queue [tx_rules]: "q_project_id q \<notin> rm_projects F \<Longrightarrow> assures (spares F) (insert_queue q now)"
proof (rule assuresI)
  fix d r d' assume p: "q_project_id q \<notin> rm_projects F" and "insert_queue q now d = Inr (r, d')"
  then have new: "q_id q \<notin> q_id ` set (queues d)" and sp: "spread None q now (d\<lparr>queues := queues d @ [q]\<rparr>) = Inr d'"
    by (auto simp: insert_queue_def queue_keys_clash_def result_simps split: if_split_asm)
  show "spares F d d'"
  proof (rule sparesI)
    assume a: "apart F d"
    then have q: "q_id q \<notin> rm_queues F" using new by (auto simp: apart_def queues_apart_def)
    have "spares F d (d\<lparr>queues := queues d @ [q]\<rparr>)" by (rule spares_queues) (use p q in \<open>auto simp: queue_foreign\<close>)
    with spares_spread [OF sp q] have "spares F d d'" by (blast intro: spares_trans)
    with a show "apart F d' \<and> elsewhere F d' = elsewhere F d" by (simp add: spares_def)
  qed
qed

lemma spares_update_queue [tx_rules]: "i \<notin> rm_queues F \<Longrightarrow> assures (spares F) (update_queue i req policy now)"
proof (rule assuresI)
  fix d r d' assume i: "i \<notin> rm_queues F" and run: "update_queue i req policy now d = Inr (r, d')"
  show "spares F d d'"
  proof (cases "queue_of d i")
    case None
    then show ?thesis using run by (simp add: update_queue_def spares_refl)
  next
    case (Some q)
    let ?n = "merge_queue req policy q"
    have n: "q_id ?n = i" "q_project_id ?n = q_project_id q" and q: "q \<in> set (queues d)" "q_id q = i"
      using lookup_row_SomeD [OF Some] by (auto simp: merge_queue_def)
    have sp: "spread (Some q) ?n now (d\<lparr>queues := update_where (\<lambda>r. q_id r = i) (\<lambda>_. ?n) (queues d)\<rparr>) = Inr d'"
      using run Some by (auto simp: update_queue_def Let_def result_simps split: if_split_asm)
    have "spares F d (d\<lparr>queues := update_where (\<lambda>r. q_id r = i) (\<lambda>_. ?n) (queues d)\<rparr>)"
    proof (rule spares_queues)
      assume a: "apart F d"
      have p: "q_project_id ?n \<notin> rm_projects F" using queue_foreign [OF a q(1)] q(2) i n(2) by simp
      show "filter (\<lambda>q. q_project_id q \<in> rm_projects F) (update_where (\<lambda>r. q_id r = i) (\<lambda>_. ?n) (queues d)) =
          filter (\<lambda>q. q_project_id q \<in> rm_projects F) (queues d)"
        by (rule filter_update_where) (use p queue_foreign [OF a] i in auto)
      show "\<forall>q \<in> set (update_where (\<lambda>r. q_id r = i) (\<lambda>_. ?n) (queues d)). q_id q \<in> rm_queues F \<longleftrightarrow> q_project_id q \<in> rm_projects F"
        using p n i queue_foreign [OF a] by (auto simp: in_update_where_iff)
    qed
    moreover have "q_id ?n \<notin> rm_queues F" using n(1) i by simp
    ultimately show ?thesis using spares_spread [OF sp] by (blast intro: spares_trans)
  qed
qed

lemma spares_set_paused [tx_rules]: "i \<notin> rm_queues F \<Longrightarrow> assures (spares F) (set_paused_sql i paused)"
  by (rule assuresI)
     (auto simp: set_paused_sql_def update_queues_Inr_iff result_simps in_update_where_iff queue_foreign spares_refl
       intro!: spares_queues filter_update_where split: if_split_asm)

text \<open>A new schedule has an id no job refers to; an update keeps id and queue.\<close>

lemma spares_insert_schedule [tx_rules]: "sc_queue_id s \<notin> rm_queues F \<Longrightarrow> assures (spares F) (insert_schedule known s)"
proof (rule assuresI)
  fix d r d' assume q: "sc_queue_id s \<notin> rm_queues F" and run: "insert_schedule known s d = Inr (r, d')"
  then have new: "sc_id s \<notin> sc_id ` set (schedules d)" and d': "d' = d\<lparr>schedules := schedules d @ [s]\<rparr>"
    by (auto simp: insert_schedule_def split: if_split_asm)
  have "job_apart F (schedules d) xs j \<Longrightarrow> job_apart F (schedules d @ [s]) xs j" for xs j
    using new unfolding job_apart_def by auto
  then show "spares F d d'" unfolding d'
    by (intro spares_schedules) (use q in \<open>auto simp: apart_def schedules_apart_def jobs_apart_def\<close>)
qed

lemma spares_schedule_rows:
  assumes own: "i \<in> own_schedules F" and keys: "\<And>s. sc_id (f s) = sc_id s \<and> sc_queue_id (f s) = sc_queue_id s"
  shows "spares F d (d\<lparr>schedules := update_where (\<lambda>s. sc_id s = i) f (schedules d)\<rparr>)"
proof (rule spares_schedules)
  let ?ss = "update_where (\<lambda>s. sc_id s = i) f (schedules d)"
  assume a: "apart F d"
  show "filter (\<lambda>s. sc_queue_id s \<in> rm_queues F) ?ss = filter (\<lambda>s. sc_queue_id s \<in> rm_queues F) (schedules d)"
    by (rule filter_update_where) (use a own keys in \<open>simp add: apart_def schedules_apart_def\<close>)
  show "\<forall>s \<in> set ?ss. sc_id s \<in> own_schedules F \<longrightarrow> sc_queue_id s \<notin> rm_queues F"
    using a keys by (auto simp: in_update_where_iff apart_def schedules_apart_def)
  have "map sc_id ?ss = map sc_id (schedules d)" using keys by (simp add: update_where_def)
  then have ids: "sc_id ` set ?ss = sc_id ` set (schedules d)" by (metis list.set_map)
  have "job_apart F ?ss xs j" if "job_apart F (schedules d) xs j" for xs j
    using that keys unfolding job_apart_def ids by (auto simp: in_update_where_iff)
  then show "\<forall>j \<in> set (jobs d). job_apart F ?ss (dead_letter_jobs d) j" using a by (simp add: apart_def jobs_apart_def)
qed

lemma spares_update_schedule [tx_rules]:
  "i \<in> own_schedules F \<Longrightarrow> assures (spares F) (update_schedule known i (merge_schedule req ov ca t))"
  by (rule assuresI) (auto simp: update_schedule_def merge_schedule_def spares_refl intro!: spares_schedule_rows split: option.split_asm if_split_asm)

lemma spares_set_enabled [tx_rules]: "i \<in> own_schedules F \<Longrightarrow> assures (spares F) (set_enabled_sql i on)"
  by (rule assuresI) (auto simp: set_enabled_sql_def spares_refl intro!: spares_schedule_rows split: if_split_asm)

section \<open>Deletions and their cascades\<close>

lemma job_apart_schedules:
  assumes "job_apart F ss xs j" and "set ss' \<subseteq> set ss" and "\<And>i. j_schedule_id j = Some i \<Longrightarrow> i \<in> sc_id ` set ss'"
  shows "job_apart F ss' xs j"
  using assms unfolding job_apart_def by blast

lemma spares_delete_schedules:
  assumes run: "delete_schedules P d = Inr d'"
    and own: "\<And>s e. apart F e \<Longrightarrow> s \<in> set (schedules e) \<Longrightarrow> P s \<Longrightarrow> sc_queue_id s \<notin> rm_queues F"
  shows "spares F d d'"
proof -
  let ?ids = "sc_id ` {s \<in> set (schedules d). P s}"
  let ?P = "\<lambda>j. \<exists>s \<in> ?ids. j_schedule_id j = Some s" and ?f = "\<lambda>j :: job. j\<lparr>j_schedule_id := None\<rparr>"
  obtain d1 where d1: "update_jobs ?P ?f d = Inr d1" and d': "d' = d1\<lparr>schedules := delete_where P (schedules d1)\<rparr>"
    using run by (auto simp: delete_schedules_def Let_def result_simps)
  have e1: "d1 = d\<lparr>jobs := update_where ?P ?f (jobs d)\<rparr>" using d1 by (simp add: update_jobs_Inr_iff)
  have mine: "j_project_id j \<notin> rm_projects F" if a: "apart F d" and j: "j \<in> set (jobs d)" and p: "?P j" for j
  proof -
    obtain s where s: "s \<in> set (schedules d)" "P s" "j_schedule_id j = Some (sc_id s)" using p by auto
    have "job_apart F (schedules d) (dead_letter_jobs d) j" using a j by (simp add: apart_def jobs_apart_def)
    then show ?thesis using own [OF a s(1,2)] s(1,3) by (auto simp: job_apart_def)
  qed
  have one: "spares F d d1" by (rule spares_update_jobs [OF d1 mine]) simp_all
  have "spares F d1 (d1\<lparr>schedules := delete_where P (schedules d1)\<rparr>)"
  proof (rule spares_schedules)
    assume a: "apart F d1"
    have gone: "s \<in> set (schedules d1) \<Longrightarrow> P s \<Longrightarrow> sc_queue_id s \<notin> rm_queues F" for s
      using own [OF a] by blast
    show "filter (\<lambda>s. sc_queue_id s \<in> rm_queues F) (delete_where P (schedules d1)) = filter (\<lambda>s. sc_queue_id s \<in> rm_queues F) (schedules d1)"
      by (rule filter_delete_where) (use gone in blast)
    show "\<forall>s \<in> set (delete_where P (schedules d1)). sc_id s \<in> own_schedules F \<longrightarrow> sc_queue_id s \<notin> rm_queues F"
      using a by (auto simp: set_delete_where apart_def schedules_apart_def)
    show "\<forall>j \<in> set (jobs d1). job_apart F (delete_where P (schedules d1)) (dead_letter_jobs d1) j"
    proof
      fix j assume j: "j \<in> set (jobs d1)"
      then have ap: "job_apart F (schedules d1) (dead_letter_jobs d1) j" using a by (simp add: apart_def jobs_apart_def)
      have free: "\<not> ?P j" using j by (auto simp: e1 in_update_where_iff)
      have "i \<in> sc_id ` set (delete_where P (schedules d1))" if i: "j_schedule_id j = Some i" for i
      proof -
        obtain s where s: "s \<in> set (schedules d1)" "i = sc_id s" using ap i by (auto simp: job_apart_def)
        then have "\<not> P s" using free i by (auto simp: e1)
        then show ?thesis using s by (auto simp: set_delete_where)
      qed
      then show "job_apart F (delete_where P (schedules d1)) (dead_letter_jobs d1) j"
        by (intro job_apart_schedules [OF ap]) (auto simp: set_delete_where)
    qed
  qed
  with one show ?thesis unfolding d' by (rule spares_trans)
qed

lemma spares_deleteSchedule [tx_rules]:
  "i \<in> own_schedules F \<Longrightarrow> assures (spares F) (\<lambda>d. rbind (delete_schedules (\<lambda>s. sc_id s = i) d) (\<lambda>d1. Inr ((), d1)))"
  by (rule assuresI) (auto simp: result_simps apart_def schedules_apart_def intro: spares_delete_schedules)

lemma spares_drop_jobs:
  assumes "\<And>j. apart F d \<Longrightarrow> j \<in> set (jobs d) \<Longrightarrow> P j \<Longrightarrow> j_project_id j \<notin> rm_projects F"
  shows "spares F d (drop_jobs P d)"
proof -
  have "spares F d (d\<lparr>jobs := delete_where P (jobs d)\<rparr>)"
    by (rule spares_jobs) (use assms in \<open>auto simp: set_delete_where apart_def jobs_apart_def intro!: filter_delete_where\<close>)
  moreover have "spares F (d\<lparr>jobs := delete_where P (jobs d)\<rparr>) (drop_jobs P d)"
    by (rule spares_frame) (simp_all add: drop_jobs_def Let_def)
  ultimately show ?thesis by (rule spares_trans)
qed

lemma spares_delete_queue [tx_rules]: "i \<notin> rm_queues F \<Longrightarrow> assures (spares F) (delete_queue i)"
proof (rule assuresI)
  fix d r d' assume i: "i \<notin> rm_queues F" and run: "delete_queue i d = Inr (r, d')"
  show "spares F d d'"
  proof (cases "queue_of d i")
    case None
    then show ?thesis using run by (simp add: delete_queue_def spares_refl)
  next
    case (Some q)
    then obtain d1 where d1: "delete_schedules (\<lambda>s. sc_queue_id s = i) d = Inr d1"
      and d': "d' = (let d2 = drop_jobs (\<lambda>j. j_queue_id j = i) d1 in d2\<lparr>queues := delete_where (\<lambda>q. q_id q = i) (queues d2),
             queue_shards := delete_where (\<lambda>s. s_queue_id s = i) (queue_shards d2),
             worker_queues := delete_where (\<lambda>(w, q). q = i) (worker_queues d2),
             idempotency_keys := delete_where (\<lambda>k. k_queue_id k = i) (idempotency_keys d2),
             queue_stats_minute := delete_where (\<lambda>m. m_queue_id m = i) (queue_stats_minute d2),
             failure_summaries := delete_where (\<lambda>f. fs_queue_id f = i) (failure_summaries d2)\<rparr>)"
      using run by (auto simp: delete_queue_def Let_def result_simps)
    let ?d2 = "drop_jobs (\<lambda>j. j_queue_id j = i) d1"
    let ?d3 = "?d2\<lparr>queues := delete_where (\<lambda>q. q_id q = i) (queues ?d2)\<rparr>"
    let ?d4 = "?d3\<lparr>queue_shards := delete_where (\<lambda>s. s_queue_id s = i) (queue_shards ?d3)\<rparr>"
    note [trans] = spares_trans
    have "spares F d d1" using d1 by (rule spares_delete_schedules) (use i in simp)
    also have "spares F d1 ?d2"
      by (rule spares_drop_jobs) (use i in \<open>auto simp: apart_def jobs_apart_def job_apart_def\<close>)
    also have "spares F ?d2 ?d3"
      by (rule spares_queues) (use i in \<open>auto simp: set_delete_where queue_foreign intro!: filter_delete_where\<close>)
    also have "spares F ?d3 ?d4" by (rule spares_shards, rule filter_delete_where) (use i in auto)
    also have "spares F ?d4 d'" unfolding d' Let_def by (rule spares_frame) simp_all
    finally show ?thesis .
  qed
qed

lemma foldr_result_spares:
  assumes step: "\<And>x d d'. x \<in> set xs \<Longrightarrow> f x d = Inr d' \<Longrightarrow> spares F d d'" and run: "foldr_result f xs d = Inr d'"
  shows "spares F d d'"
  using assms
proof (induction xs arbitrary: d)
  case (Cons x xs)
  then obtain d1 where "f x d = Inr d1" "foldr_result f xs d1 = Inr d'" by (auto simp: result_simps)
  then show ?case using Cons by (metis list.set_intros spares_trans)
qed (simp add: spares_refl)

lemma spares_delete_project: "delete_project p d = Inr d' \<Longrightarrow> p \<notin> rm_projects F \<Longrightarrow> spares F d d'"
proof -
  assume run: "delete_project p d = Inr d'" and p: "p \<notin> rm_projects F"
  show ?thesis
  proof (cases "p \<in> pr_id ` set (projects d)")
    case False
    with run show ?thesis by (simp add: delete_project_def spares_refl)
  next
    case True
    let ?e = "d\<lparr>projects := delete_where (\<lambda>pr. pr_id pr = p) (projects d)\<rparr>"
    from run True obtain d1 d2 where steps: "delete_policies p ?e = Inr d1" "delete_queues p d1 = Inr d2" "delete_workers p d2 = Inr d'"
      by (auto simp: delete_project_def result_simps)
    have one: "spares F d ?e"
      by (rule spares_projects) (use p in \<open>auto simp: set_delete_where apart_def projects_apart_def intro!: filter_delete_where\<close>)
    have two: "spares F ?e d1"
      using steps(1) p by (auto simp: delete_policies_def Let_def set_delete_where apart_def policies_apart_def
        intro!: spares_policies filter_delete_where split: if_split_asm)
    have three: "spares F d1 d2"
    proof (rule sparesI)
      assume a: "apart F d1"
      have "spares F d1 d2"
        using steps(2) unfolding delete_queues_def
        by (rule foldr_result_spares [rotated])
           (use p queue_foreign [OF a] in \<open>auto simp: result_simps intro: assuresD [OF spares_delete_queue]\<close>)
      with a show "apart F d2 \<and> elsewhere F d2 = elsewhere F d1" by (simp add: spares_def)
    qed
    have four: "spares F d2 d'"
      using steps(3) by (intro spares_frame) (auto simp: delete_workers_def Let_def split: if_split_asm)
    show ?thesis using one two three four by (blast intro: spares_trans)
  qed
qed

lemma spares_delete_org: "delete_org i d = Inr d' \<Longrightarrow> i \<notin> rm_orgs F \<Longrightarrow> spares F d d'"
proof -
  let ?e1 = "d\<lparr>organizations := delete_where (\<lambda>o'. o_id o' = i) (organizations d)\<rparr>"
  let ?e = "?e1\<lparr>org_members := delete_where (\<lambda>m. om_org_id m = i) (org_members ?e1)\<rparr>"
  let ?ps = "map pr_id (filter (\<lambda>p. pr_org_id p = i) (projects d))"
  assume "delete_org i d = Inr d'" and i: "i \<notin> rm_orgs F"
  then have run: "foldr_result delete_project ?ps ?e = Inr d'" by (simp add: delete_org_def Let_def)
  have "spares F d ?e1" by (rule spares_organizations, rule filter_delete_where) (use i in auto)
  also have "spares F ?e1 ?e" by (rule spares_members, rule filter_delete_where) (use i in auto)
  finally (spares_trans) have one: "spares F d ?e" .
  show ?thesis
  proof (rule sparesI)
    assume a: "apart F d"
    then have "\<forall>p \<in> set ?ps. p \<notin> rm_projects F" using i by (auto simp: apart_def projects_apart_def)
    then have "spares F ?e d'" by (intro foldr_result_spares [OF _ run]) (auto intro: spares_delete_project)
    with one a show "apart F d' \<and> elsewhere F d' = elsewhere F d" by (simp add: spares_def)
  qed
qed

lemma spares_cascades [tx_rules]:
  "p \<notin> rm_projects F \<Longrightarrow> assures (spares F) (\<lambda>d. rbind (delete_project p d) (\<lambda>d1. Inr ((), d1)))"
  "i \<notin> rm_orgs F \<Longrightarrow> assures (spares F) (\<lambda>d. rbind (delete_org i d) (\<lambda>d1. Inr ((), d1)))"
  by (rule assuresI, auto simp: result_simps intro: spares_delete_project spares_delete_org)+

section \<open>Organisations and projects\<close>

lemma spares_org_sql [tx_rules]:
  "om_org_id m \<notin> rm_orgs F \<Longrightarrow> assures (spares F) (insert_member m)"
  "om_org_id m \<notin> rm_orgs F \<Longrightarrow> assures (spares F) (upsert_member m)"
  "i \<notin> rm_orgs F \<Longrightarrow> assures (spares F) (update_org i name)"
  by (rule assuresI,
      auto simp: insert_member_def upsert_member_def update_org_def same_member_def Let_def
        intro!: spares_members spares_organizations filter_update_where split: if_split_asm)+

text \<open>Ids are taken from a table's key, so a new row never takes the id of somebody else's.\<close>

lemma insert_org_fresh: "insert_org o' d = Inr (r, d') \<Longrightarrow> apart F d \<Longrightarrow> o_id o' \<notin> rm_orgs F"
  by (auto simp: insert_org_def apart_def projects_apart_def split: if_split_asm)

lemma spares_insert_org [tx_rules]: "assures (spares F) (insert_org o')"
proof (rule assuresI, rule sparesI)
  fix d r d' assume run: "insert_org o' d = Inr (r, d')" and a: "apart F d"
  have "spares F d d'"
    using run insert_org_fresh [OF run a] by (auto simp: insert_org_def intro!: spares_organizations split: if_split_asm)
  with a show "apart F d' \<and> elsewhere F d' = elsewhere F d" by (simp add: spares_def)
qed

lemma spares_insert_project [tx_rules]: "pr_org_id p \<notin> rm_orgs F \<Longrightarrow> assures (spares F) (insert_project p)"
proof (rule assuresI)
  fix d r d' assume p: "pr_org_id p \<notin> rm_orgs F" and run: "insert_project p d = Inr (r, d')"
  then have new: "pr_id p \<notin> pr_id ` set (projects d)" and d': "d' = d\<lparr>projects := projects d @ [p]\<rparr>"
    by (auto simp: insert_project_def split: if_split_asm)
  show "spares F d d'" unfolding d'
    by (rule spares_projects) (use p new in \<open>auto simp: apart_def projects_apart_def\<close>)
qed

lemma spares_update_project [tx_rules]: "i \<notin> rm_projects F \<Longrightarrow> assures (spares F) (update_project i name)"
  by (rule assuresI)
     (auto simp: update_project_def in_update_where_iff apart_def projects_apart_def spares_refl
       intro!: spares_projects filter_update_where split: option.split_asm if_split_asm)

lemma spares_account_sql [tx_rules]:
  "assures (spares F) (insert_user u)" "assures (spares F) (insert_session sid uid now)" "assures (spares F) (revoke_session sid now)"
  by (rule assuresI, rule spares_frame; auto simp: insert_user_def insert_session_def revoke_session_def Let_def split: if_split_asm)+

section \<open>Jobs\<close>

lemma spares_insert_job:
  assumes run: "insert_job j d = Inr d'" and own: "j_project_id j \<notin> rm_projects F" "j_queue_id j \<notin> rm_queues F"
    and fresh: "j_schedule_id j = None" "j_status j \<noteq> Dead_letter"
  shows "spares F d d'"
proof -
  have d': "d' = d\<lparr>jobs := jobs d @ [j]\<rparr>" using run by (auto simp: insert_job_def split: if_split_asm)
  have "job_apart F ss xs j" for ss xs using own fresh by (simp add: job_apart_def)
  then show ?thesis unfolding d' by (intro spares_jobs) (use own in \<open>auto simp: apart_def jobs_apart_def\<close>)
qed

lemma spares_insert_submitted [tx_rules]:
  "p \<notin> rm_projects F \<Longrightarrow> q \<notin> rm_queues F \<Longrightarrow> assures (spares F) (insert_submitted (submitted_job i q p t pl pr ra to po pe now))"
  by (rule assuresI) (auto simp: insert_submitted_def submitted_job_def new_job_def Let_def result_simps elim!: spares_insert_job split: if_split_asm)

lemma spares_insert_batch [tx_rules]:
  assumes "p \<notin> rm_projects F" and "q \<notin> rm_queues F"
  shows "assures (spares F) (insert_batch (map (\<lambda>(n, s). batch_job q p pol b pr now (newid n) s) xs))"
proof (rule assuresI)
  let ?js = "map (\<lambda>(n, s). batch_job q p pol b pr now (newid n) s) xs"
  fix d r d' assume "insert_batch ?js d = Inr (r, d')"
  then have run: "foldr_result insert_job ?js d = Inr d'" by (auto simp: insert_batch_def result_simps)
  have js: "j_project_id j \<notin> rm_projects F \<and> j_queue_id j \<notin> rm_queues F \<and> j_schedule_id j = None \<and> j_status j \<noteq> Dead_letter" if "j \<in> set ?js" for j
    using that assms by (auto simp: batch_job_def new_job_def Let_def split: if_split_asm)
  show "spares F d d'" by (rule foldr_result_spares [OF _ run]) (use js in \<open>blast intro: spares_insert_job\<close>)
qed

lemma spares_submit_sql [tx_rules]:
  "assures (spares F) (queue_defaults q)" "assures (spares F) (queued_count q)" "assures (spares F) (find_idem q key now)"
  "assures (spares F) (delete_idem q key)" "assures (spares F) (insert_idem race q key i fp now)" "assures (spares F) (pending_parents ps p)"
  "assures (spares F) (cycle_sql i)" "assures (spares F) (cancelled_kin i)" "assures (spares F) (insert_deps i ps)"
  "assures (spares F) (cancel_exec i now)" "assures (spares F) (cancel_lease i)"
  by (rule assuresI, rule spares_frame;
      auto simp: queue_defaults_def queued_count_def find_idem_def delete_idem_def insert_idem_def pending_parents_def cycle_sql_def
        cancelled_kin_def insert_deps_def cancel_exec_def cancel_lease_def update_execs_Inr_iff reads_def result_simps split: if_split_asm)+

lemma spares_mark_replayed [tx_rules]: "assures (spares F) (mark_replayed A u now)"
proof (rule assuresI)
  fix d r d' assume "mark_replayed A u now d = Inr (r, d')"
  then have d': "d' = d\<lparr>dead_letter_jobs := update_where (\<lambda>x. d_job_id x \<in> A)
      (\<lambda>x. x\<lparr>d_replayed_at := Some now, d_replayed_by := Some u\<rparr>) (dead_letter_jobs d)\<rparr>"
    by (auto simp: mark_replayed_def split: if_split_asm)
  have "job_apart F ss (dead_letter_jobs d) j \<Longrightarrow> job_apart F ss (dead_letter_jobs d') j" for ss j
    unfolding job_apart_def d' by (auto simp: in_update_where_iff)
  then show "spares F d d'" by (simp add: d' spares_def apart_defs elsewhere_def rows_within_def)
qed

lemma own_job: "apart F d \<Longrightarrow> j \<in> set (jobs d) \<Longrightarrow> j_id j \<in> own_jobs F \<Longrightarrow> j_project_id j \<notin> rm_projects F \<and> j_queue_id j \<notin> rm_queues F"
  by (auto simp: apart_def jobs_apart_def job_apart_def)

lemma spares_job_sql [tx_rules]:
  "i \<in> own_jobs F \<Longrightarrow> assures (spares F) (retry_sql i now)" "i \<in> own_jobs F \<Longrightarrow> assures (spares F) (replay_sql i now)"
  "i \<in> own_jobs F \<Longrightarrow> assures (spares F) (cancel_sql i now)"
  by (rule assuresI,
      auto simp: retry_sql_def replay_sql_def cancel_sql_def retriable_def is_dead_def replay_row_def cancelled_row_def result_simps spares_refl own_job
        elim!: spares_update_jobs split: option.split_asm)+

lemma spares_release [tx_rules]: "q \<notin> rm_queues F \<Longrightarrow> assures (spares F) (\<lambda>d. Inr ((), queue_release q s n d))"
  by (rule assuresI) (auto simp: queue_release_def intro!: spares_shards filter_update_where)

lemma spares_emit_all: "spares F d (emit_all f now xs d)"
proof (induction xs arbitrary: d)
  case (Cons x xs)
  obtain t i p o' where "f x = (t, i, p, o')" by (cases "f x")
  then have "emit_all f now (x # xs) d = emit_all f now xs (emit t i p o' now d)" by (simp add: emit_all_def)
  then show ?case using Cons [of "emit t i p o' now d"] tenancy.emits spares_trans by metis
qed (simp add: emit_all_def spares_refl)

text \<open>A bulk replay picks dead letters of the queue, whose dead jobs are in that queue.\<close>

lemma spares_replay_dead [tx_rules]:
  assumes q: "q \<notin> rm_queues F"
  shows "assures (spares F) (replay_dead q cap rate actor now)"
proof (rule assuresI)
  fix d r d' assume run: "replay_dead q cap rate actor now d = Inr (r, d')"
  show "spares F d d'"
  proof (cases "queue_of d q")
    case None
    then show ?thesis using run by (simp add: replay_dead_def spares_refl)
  next
    case (Some qr)
    define ids where "ids = map d_job_id (order_limit d_dead_at (nat (replay_room q cap qr d)) (filter (replayable q d) (dead_letter_jobs d)))"
    let ?P = "\<lambda>j. j_id j \<in> set ids \<and> j_status j = Dead_letter" and ?f = "\<lambda>j. replay_row (replay_at ids rate now (j_id j)) j"
    from run Some consider "d' = d" | d1 d2 u where "update_jobs ?P ?f d = Inr d1" "mark_replayed (set ids) actor now d1 = Inr (u, d2)"
        "d' = emit_all (\<lambda>i. (''job.replayed'', i, q_project_id qr, [(''bulk'', JBool True)])) now (sort ids) d2"
      by (auto simp: replay_dead_def Let_def ids_def [symmetric] result_simps split: if_split_asm)
    then show ?thesis
    proof cases
      case 1
      then show ?thesis by (simp add: spares_refl)
    next
      case 2
      have mine: "j_project_id j \<notin> rm_projects F" if a: "apart F d" and j: "j \<in> set (jobs d)" "?P j" for j
      proof -
        obtain x where x: "x \<in> set (dead_letter_jobs d)" "d_queue_id x = q" "d_job_id x = j_id j"
          using j(2) unfolding ids_def by (auto simp: replayable_def dest!: subsetD [OF set_order_limit])
        have "job_apart F (schedules d) (dead_letter_jobs d) j" using a j(1) by (simp add: apart_def jobs_apart_def)
        then show ?thesis using x q j(2) by (auto simp: job_apart_def)
      qed
      have "spares F d d1" by (rule spares_update_jobs [OF 2(1) mine]) (simp_all add: replay_row_def)
      moreover have "spares F d1 d2" using assuresD [OF spares_mark_replayed 2(2)] .
      ultimately show ?thesis unfolding 2(3) by (blast intro: spares_trans spares_emit_all)
    qed
  qed
qed

section \<open>Handlers\<close>

lemma assures_bind_result:
  assumes "abind m g d = Inr (r, d')" and "assures (spares F) m"
    and "\<And>a d1. apart F d \<Longrightarrow> m d = Inr (a, d1) \<Longrightarrow> assures (spares F) (g a)"
  shows "spares F d d'"
proof (rule sparesI)
  assume a: "apart F d"
  obtain x d1 where run: "m d = Inr (x, d1)" "g x d1 = Inr (r, d')" using assms(1) unfolding abind_Inr by blast
  have "spares F d d1" "spares F d1 d'" using assuresD [OF assms(2) run(1)] assuresD [OF assms(3) [OF a run(1)] run(2)] by blast+
  with a show "apart F d' \<and> elsewhere F d' = elsewhere F d" by (simp add: spares_def)
qed

lemma spares_cancelJob:
  assumes e: "sc_entityID sc \<in> own_jobs F"
  shows "assures (spares F) (cancelJob r sc now)"
proof (rule assuresI)
  fix d x d' assume run: "cancelJob r sc now d = Inr (x, d')"
  show "spares F d d'"
  proof (rule assures_bind_result [OF run [unfolded cancelJob_def]])
    show "assures (spares F) (on_no_rows (notFound ''job'') (query_row (cancel_sql (sc_entityID sc) now)))" by (intro tx_rules e)
    fix a d1 assume a: "apart F d" and first: "on_no_rows (notFound ''job'') (query_row (cancel_sql (sc_entityID sc) now)) d = Inr (a, d1)"
    obtain j c where jc: "a = (j, c)" by (cases a)
    have "job_of d (sc_entityID sc) = Some j"
      using first jc by (auto simp: atx_simps cancel_sql_def result_simps split: option.split_asm)
    then have q: "j_queue_id j \<notin> rm_queues F" using own_job [OF a] e lookup_row_SomeD by metis
    show "assures (spares F) (case a of (j, cancelled) \<Rightarrow> let old = status_text (j_status j) in
       if \<not> cancelled then afail (conflict (''job is already in a terminal state: '' @ old))
       else abind (if old = ''claimed'' \<or> old = ''running''
         then abind (exec_sql (cancel_exec (sc_entityID sc) now)) (\<lambda>_.
              abind (exec_sql (cancel_lease (sc_entityID sc))) (\<lambda>_.
              exec_sql (\<lambda>d. Inr ((), queue_release (j_queue_id j) (j_shard j) 1 d))))
         else aret ()) (\<lambda>_.
       abind (api_emit ''job.cancelled'' (sc_entityID sc) (j_project_id j) [(''from'', JString old)] now) (\<lambda>_.
       aret (answer 0 (Some (sc_entityID sc, ''cancelled'', old)) 0 (Some [(''from'', JString old)])))))"
      unfolding jc Let_def prod.case by (intro tx_rules q)
  qed
qed

lemma spares_createOrg: "assures (spares F) (createOrg i r sc now)"
proof -
  let ?g = "\<lambda>name o'. abind (exec_sql (insert_member \<lparr>om_org_id = o_id o', om_user_id = sc_userID sc, om_role = ''owner''\<rparr>)) (\<lambda>_.
     aret (answer 201 (Some \<lparr>ov_ID = o_id o', ov_Name = name, ov_Role = ''owner'', ov_CreatedAt = o_created_at o'\<rparr>) 0 None))"
  have org: "assures (spares F) (abind (query_row (insert_org \<lparr>o_id = i, o_name = name, o_created_at = now\<rparr>)) (?g name))" for name
  proof (rule assuresI)
    let ?o = "\<lparr>o_id = i, o_name = name, o_created_at = now\<rparr>"
    fix d x d' assume run: "abind (query_row (insert_org ?o)) (?g name) d = Inr (x, d')"
    show "spares F d d'"
    proof (rule assures_bind_result [OF run])
      show "assures (spares F) (query_row (insert_org ?o))" by (intro tx_rules)
      fix a d1 assume ap: "apart F d" and "query_row (insert_org ?o) d = Inr (a, d1)"
      then have ins: "insert_org ?o d = Inr (Some a, d1)" by (simp add: query_row_Inr)
      have "o_id a \<notin> rm_orgs F" using ins insert_org_fresh [OF ins ap] by (auto simp: insert_org_def split: if_split_asm)
      then show "assures (spares F) (?g name a)" by (intro tx_rules) simp
    qed
  qed
  show ?thesis unfolding createOrg_def Let_def by (intro tx_rules org)
qed

lemma spares_parts [tx_rules]:
  "assures (spares F) (assertPolicyOwned i p)" "assures (spares F) (checkCron clib expr tz now)" "assures (spares F) (loadSubmitView i)"
  "assures (spares F) (link i ps)" "assures (spares F) (choose_policy lib preq p proj)" "assures (spares F) (check_idem fp q key now)"
  "assures (spares F) (find_user email)"
  unfolding assertPolicyOwned_def checkCron_def loadSubmitView_def link_def choose_policy_def check_idem_def find_user_def by (intro tx_rules)+

lemma spares_parentIDs [tx_rules]: "assures (spares F) (parentIDs lib ps)"
proof (induction ps)
  case (Cons p ps)
  then show ?case by (auto intro!: tx_rules split: option.split)
qed (auto simp: spares_refl intro: assuresI)

lemma spares_check_batch [tx_rules]: "assures (spares F) (check_batch lib ss)"
  by (induction ss) (auto simp only: check_batch.simps intro!: tx_rules)

lemma public_handlers_spare:
  "assures (spares F) (register lib rand i rr sc now)" "assures (spares F) (login lib ul sid rl sc now)" "assures (spares F) (logout r sc now)"
  unfolding register_def login_def logout_def Let_def by (intro tx_rules)+

lemma org_handlers_spare:
  assumes "sc_orgID sc \<notin> rm_orgs F"
  shows "assures (spares F) (updateOrg rn sc now)" "assures (spares F) (deleteOrg r sc now)" "assures (spares F) (addMember rm sc now)"
    "assures (spares F) (createProject i rn sc now)"
  unfolding updateOrg_def deleteOrg_def addMember_def createProject_def Let_def by (intro tx_rules; simp add: assms)+

lemma project_handlers_spare:
  assumes "sc_projectID sc \<notin> rm_projects F"
  shows "assures (spares F) (updateProject rn sc now)" "assures (spares F) (deleteProject r sc now)" "assures (spares F) (createPolicy i rp sc now)"
    "assures (spares F) (createQueue ul i rq sc now)"
  unfolding updateProject_def deleteProject_def createPolicy_def createQueue_def Let_def by (intro tx_rules; simp add: assms new_queue_def)+

lemma policy_handlers_spare:
  assumes "sc_entityID sc \<in> own_policies F"
  shows "assures (spares F) (updatePolicy rp sc now)" "assures (spares F) (deletePolicy r sc now)"
  unfolding updatePolicy_def deletePolicy_def by (intro tx_rules assms)+

lemma queue_handlers_spare:
  assumes "sc_entityID sc \<notin> rm_queues F"
  shows "assures (spares F) (updateQueue ul rq sc now)" "assures (spares F) (deleteQueue r sc now)" "assures (spares F) (setPaused paused topic r sc now)"
    "assures (spares F) (createSchedule clib lib known i rs sc now)" "assures (spares F) (replayQueue rb sc now)"
  unfolding updateQueue_def deleteQueue_def setPaused_def createSchedule_def replayQueue_def Let_def
  by (intro tx_rules; simp add: assms new_schedule_def)+

lemma schedule_handlers_spare:
  assumes "sc_entityID sc \<in> own_schedules F"
  shows "assures (spares F) (updateSchedule clib lib known rs sc now)" "assures (spares F) (deleteSchedule r sc now)"
    "assures (spares F) (setScheduleEnabled on r sc now)"
  unfolding updateSchedule_def deleteSchedule_def setScheduleEnabled_def by (intro tx_rules assms)+

lemma submit_handlers_spare:
  assumes "sc_entityID sc \<notin> rm_queues F" and "sc_projectID sc \<notin> rm_projects F"
  shows "assures (spares F) (submitJob lib race i rj sc now)" "assures (spares F) (submitBatch lib b newid rb sc now)"
  unfolding submitJob_def submit_new_def submitBatch_def Let_def by (intro tx_rules assms)+

lemma job_handlers_spare:
  assumes "sc_entityID sc \<in> own_jobs F"
  shows "assures (spares F) (retryJob r sc now)" "assures (spares F) (replayJob lib r sc now)"
  unfolding retryJob_def replayJob_def by (intro tx_rules assms)+

section \<open>Scopes and the realm of another organisation\<close>

definition realm_of :: "uuid \<Rightarrow> db \<Rightarrow> realm" where
  "realm_of org d =
     \<lparr>rm_orgs = {org}, rm_projects = projects_of org d, rm_queues = queues_of org d,
      own_policies = - (p_id ` {rp \<in> set (retry_policies d). p_project_id rp \<in> projects_of org d}),
      own_schedules = - (sc_id ` {s \<in> set (schedules d). sc_queue_id s \<in> queues_of org d}),
      own_jobs = - (j_id ` {j \<in> set (jobs d). j_project_id j \<in> projects_of org d})\<rparr>"

lemma realm_of_simps [simp]:
  "rm_orgs (realm_of org d) = {org}" "rm_projects (realm_of org d) = projects_of org d" "rm_queues (realm_of org d) = queues_of org d"
  by (simp_all add: realm_of_def)

lemma in_projects_of: "distinct (map pr_id (projects d)) \<Longrightarrow> p \<in> set (projects d) \<Longrightarrow> pr_id p \<in> projects_of org d \<longleftrightarrow> pr_org_id p = org"
  by (auto simp: projects_of_def dest: key_unique [of pr_id])

lemma in_queues_of: "distinct (map q_id (queues d)) \<Longrightarrow> q \<in> set (queues d) \<Longrightarrow> q_id q \<in> queues_of org d \<longleftrightarrow> q_project_id q \<in> projects_of org d"
  by (auto simp: queues_of_def dest: key_unique [of q_id])

lemma realm_apart:
  assumes ok: "tenants_ok d" and org: "org \<in> o_id ` set (organizations d)"
  shows "apart (realm_of org d) d"
proof -
  let ?F = "realm_of org d"
  note keys = ok [unfolded tenants_ok_def]
  have "projects_apart ?F d" using org in_projects_of [of d] keys by (auto simp: projects_apart_def projects_of_def)
  moreover have "policies_apart ?F d" "schedules_apart ?F d" by (auto simp: policies_apart_def schedules_apart_def realm_of_def)
  moreover have "queues_apart ?F d" using in_queues_of [of d] keys by (auto simp: queues_apart_def queues_of_def)
  moreover have "job_apart ?F (schedules d) (dead_letter_jobs d) j" if j: "j \<in> set (jobs d)" for j
  proof -
    obtain q where q: "q \<in> set (queues d)" "q_id q = j_queue_id j" "q_project_id q = j_project_id j" using keys j by blast
    have "j_queue_id j \<in> queues_of org d \<longleftrightarrow> j_project_id j \<in> projects_of org d" using in_queues_of [OF _ q(1)] q(2,3) keys by metis
    moreover have "j_id j \<in> own_jobs ?F \<longrightarrow> j_project_id j \<notin> projects_of org d" using j by (auto simp: realm_of_def)
    moreover have "i \<in> sc_id ` set (schedules d) \<and> (\<forall>s \<in> set (schedules d). sc_id s = i \<longrightarrow> sc_queue_id s = j_queue_id j)"
      if i: "j_schedule_id j = Some i" for i
    proof -
      obtain s where s: "s \<in> set (schedules d)" "sc_id s = i" "sc_queue_id s = j_queue_id j" using keys j i by blast
      then show ?thesis using keys key_unique [of sc_id "schedules d"] by blast
    qed
    moreover have "d_queue_id x = j_queue_id j" if "x \<in> set (dead_letter_jobs d)" "d_job_id x = j_id j" for x using keys j that by blast
    ultimately show ?thesis by (simp add: job_apart_def)
  qed
  ultimately show ?thesis by (simp add: apart_def jobs_apart_def)
qed

lemma lookup_unique: "lookup_row k i rs = Some x \<Longrightarrow> distinct (map k rs) \<Longrightarrow> y \<in> set rs \<Longrightarrow> k y = i \<Longrightarrow> y = x"
  by (metis lookup_row_Some_iff option.inject)

lemma project_join_other:
  assumes "project_join uid p d = Some (p', o', r)" and "distinct (map pr_id (projects d))" and "o' \<noteq> org"
  shows "p' = p \<and> p \<notin> projects_of org d"
proof -
  obtain pr where "lookup_row pr_id p (projects d) = Some pr" "p' = p" "o' = pr_org_id pr"
    using assms(1) by (auto simp: project_join_def split: option.split_asm)
  then show ?thesis using in_projects_of [OF assms(2), of pr org] assms(3) lookup_row_SomeD by metis
qed

text \<open>What a locator finds in another organisation is not in this one.\<close>

lemma scope_elsewhere:
  assumes ok: "tenants_ok d" and other: "sc_orgID sc \<noteq> org"
  shows "projectScope uid i d = Some sc \<Longrightarrow> sc_projectID sc \<notin> projects_of org d"
    and "queueScope uid i d = Some sc \<Longrightarrow> sc_entityID sc \<notin> queues_of org d \<and> sc_projectID sc \<notin> projects_of org d"
    and "policyScope uid i d = Some sc \<Longrightarrow> sc_entityID sc \<in> own_policies (realm_of org d)"
    and "scheduleScope uid i d = Some sc \<Longrightarrow> sc_entityID sc \<in> own_schedules (realm_of org d)"
    and "jobScope uid i d = Some sc \<Longrightarrow> sc_entityID sc \<in> own_jobs (realm_of org d)"
proof -
  note keys = ok [unfolded tenants_ok_def]
  have join: "p' = p \<and> p \<notin> projects_of org d" if "project_join uid p d = Some (p', sc_orgID sc, r)" for p p' r
    using project_join_other [OF that _ other] keys by blast
  show "projectScope uid i d = Some sc \<Longrightarrow> sc_projectID sc \<notin> projects_of org d"
  proof -
    assume "projectScope uid i d = Some sc"
    then obtain r where "project_join uid i d = Some (sc_projectID sc, sc_orgID sc, r)" by (auto simp: projectScope_def scopeBy_def)
    then show ?thesis using join by blast
  qed
  show "queueScope uid i d = Some sc \<Longrightarrow> sc_entityID sc \<notin> queues_of org d \<and> sc_projectID sc \<notin> projects_of org d"
  proof -
    assume "queueScope uid i d = Some sc"
    then obtain q r where q: "queue_of d i = Some q" "sc_entityID sc = i" "project_join uid (q_project_id q) d = Some (sc_projectID sc, sc_orgID sc, r)"
      by (auto simp: queueScope_def scopeBy_def split: option.split_asm)
    then show ?thesis using join [OF q(3)] in_queues_of [of d q org] keys lookup_row_SomeD [OF q(1)] by metis
  qed
  show "policyScope uid i d = Some sc \<Longrightarrow> sc_entityID sc \<in> own_policies (realm_of org d)"
  proof -
    assume "policyScope uid i d = Some sc"
    then obtain p r where p: "policy_of d i = Some p" "sc_entityID sc = i" "project_join uid (p_project_id p) d = Some (sc_projectID sc, sc_orgID sc, r)"
      by (auto simp: policyScope_def scopeBy_def split: option.split_asm)
    have "rp = p" if "rp \<in> set (retry_policies d)" "p_id rp = i" for rp
      using lookup_unique [OF p(1) _ that] keys by blast
    then show ?thesis using join [OF p(3)] p(2) by (auto simp: realm_of_def)
  qed
  show "scheduleScope uid i d = Some sc \<Longrightarrow> sc_entityID sc \<in> own_schedules (realm_of org d)"
  proof -
    assume "scheduleScope uid i d = Some sc"
    then obtain s q r where s: "schedule_of d i = Some s" "queue_of d (sc_queue_id s) = Some q" "sc_entityID sc = i"
        "project_join uid (q_project_id q) d = Some (sc_projectID sc, sc_orgID sc, r)"
      by (auto simp: scheduleScope_def scopeBy_def split: option.split_asm)
    have q: "sc_queue_id s \<notin> queues_of org d"
      using join [OF s(4)] in_queues_of [of d q org] keys lookup_row_SomeD [OF s(2)] by metis
    have "t = s" if "t \<in> set (schedules d)" "sc_id t = i" for t
      using lookup_unique [OF s(1) _ that] keys by blast
    then show ?thesis using q s(3) by (auto simp: realm_of_def)
  qed
  show "jobScope uid i d = Some sc \<Longrightarrow> sc_entityID sc \<in> own_jobs (realm_of org d)"
  proof -
    assume "jobScope uid i d = Some sc"
    then obtain j r where j: "job_of d i = Some j" "sc_entityID sc = i" "project_join uid (j_project_id j) d = Some (sc_projectID sc, sc_orgID sc, r)"
      by (auto simp: jobScope_def scopeBy_def split: option.split_asm)
    have "k = j" if "k \<in> set (jobs d)" "j_id k = i" for k
      using lookup_unique [OF j(1) _ that] keys by blast
    then show ?thesis using join [OF j(3)] j(2) by (auto simp: realm_of_def)
  qed
qed

lemma byPath_found: "byPath ul n sf r uid d = Inr (Some sc) \<Longrightarrow> \<exists>i. sf uid i d = Some sc"
  by (auto simp: byPath_def split: option.split_asm)

text \<open>Every guarded route that writes spares the organisations other than the one its locator found.\<close>

lemma route_spares:
  assumes mount: "mount lib dr rt = Guarded least action entity loc fn" and least: "member \<le> least"
    and loc: "loc r uid d = Inr (Some sc)" and ok: "tenants_ok d" and other: "sc_orgID sc \<noteq> org"
  shows "assures (spares (realm_of org d)) (fn r (sc\<lparr>sc_userID := uid, sc_sessionID := sid\<rparr>) now)"
proof -
  let ?F = "realm_of org d" and ?sc = "sc\<lparr>sc_userID := uid, sc_sessionID := sid\<rparr>"
  have org: "sc_orgID ?sc \<notin> rm_orgs ?F" using other by simp
  have pro: "sc_projectID ?sc \<notin> rm_projects ?F" if "byPath (al_uuid (sl_api lib)) n projectScope r uid d = Inr (Some sc)" for n
    using scope_elsewhere(1) [OF ok other] byPath_found [OF that] by auto
  have que: "sc_entityID ?sc \<notin> rm_queues ?F" "sc_projectID ?sc \<notin> rm_projects ?F"
    if "byPath (al_uuid (sl_api lib)) n queueScope r uid d = Inr (Some sc)" for n
    using scope_elsewhere(2) [OF ok other] byPath_found [OF that] by auto
  have pol: "sc_entityID ?sc \<in> own_policies ?F" if "byPath (al_uuid (sl_api lib)) n policyScope r uid d = Inr (Some sc)" for n
    using scope_elsewhere(3) [OF ok other] byPath_found [OF that] by auto
  have sch: "sc_entityID ?sc \<in> own_schedules ?F" if "byPath (al_uuid (sl_api lib)) n scheduleScope r uid d = Inr (Some sc)" for n
    using scope_elsewhere(4) [OF ok other] byPath_found [OF that] by auto
  have job: "sc_entityID ?sc \<in> own_jobs ?F" if "byPath (al_uuid (sl_api lib)) n jobScope r uid d = Inr (Some sc)" for n
    using scope_elsewhere(5) [OF ok other] byPath_found [OF that] by auto
  note spare = org_handlers_spare [OF org] project_handlers_spare [OF pro] policy_handlers_spare [OF pol] queue_handlers_spare [OF que(1)]
    schedule_handlers_spare [OF sch] submit_handlers_spare [OF que] job_handlers_spare [OF job] spares_cancelJob [OF job]
  show ?thesis
    using mount least loc
    by (cases rt) (auto simp: less_eq_role_def pauseQueue_def resumeQueue_def pauseSchedule_def resumeSchedule_def intro!: assures_via intro: spare)
qed

lemma tenant_same:
  assumes "elsewhere (realm_of org d) d' = elsewhere (realm_of org d) d"
  shows "tenant org d' = tenant org d"
proof -
  have same: "filter (\<lambda>p. pr_org_id p \<in> {org}) (projects d') = filter (\<lambda>p. pr_org_id p \<in> {org}) (projects d)"
    "filter (\<lambda>q. q_project_id q \<in> projects_of org d) (queues d') = filter (\<lambda>q. q_project_id q \<in> projects_of org d) (queues d)"
    using assms by (simp_all add: elsewhere_def rows_within_def)
  have p: "projects_of org d' = projects_of org d"
    unfolding projects_of_def using arg_cong [OF same(1), of set] by simp
  have q: "queues_of org d' = queues_of org d"
    unfolding queues_of_def p using arg_cong [OF same(2), of set] by simp
  show ?thesis using assms unfolding tenant_def p q by (simp add: elsewhere_def)
qed

lemma spares_tenant:
  assumes "spares (realm_of org d) d d'" and "tenants_ok d" and "org \<in> o_id ` set (organizations d)"
  shows "tenant org d' = tenant org d"
  using assms(1) realm_apart [OF assms(2,3)] tenant_same unfolding spares_def by blast

lemma token_independent: "bearer (to_request rid vars hr) = bearer (to_request '''' [] hr)"
  unfolding bearer_def subprotocols_def to_request_def request.select_convs by (rule refl)

section \<open>Isolation\<close>

text \<open>
  C6. Tenants are isolated. Whatever request anybody sends, to whatever path and with whatever body, an organisation
  that exists when the request takes effect keeps everything it owns (its row, members, projects, policies, queues,
  shards, schedules and jobs) exactly as it was, unless the request carries the token of a live session of a user
  who is a member of that organisation and more than a viewer. This holds through all retries of the transaction
  and for any changes other processes make in between; it assumes only that keys are unique and rows refer to
  rows of their own project.
\<close>

theorem tenants_isolated:
  assumes run: "serve lib dr env ch hr (h, d) = (v, h', d')"
    and ok: "\<forall>k < 5. tenants_ok (fold (\<lambda>i. ta_before (env i)) [0..<Suc k] d)"
  shows "d' = d \<or> (\<exists>k < 5. let dk = fold (\<lambda>i. ta_before (env i)) [0..<Suc k] d; now = ta_now (env k) in
    \<forall>org \<in> o_id ` set (organizations dk). tenant org d' = tenant org dk \<or>
      (\<exists>s \<in> set (sessions dk). parse_uuid (al_uuid (sl_api lib)) (bearer (to_request '''' [] hr)) = Some (ss_id s) \<and>
        ss_revoked_at s = None \<and> now < ss_expires_at s \<and> has_role (ss_user_id s) org member dk))"
  using run
proof (cases rule: serve_outcome)
  case (refused k)
  then show ?thesis by (auto simp: Let_def)
next
  case (open_to_all k rt vars fn res)
  let ?dk = "fold (\<lambda>i. ta_before (env i)) [0..<Suc k] d"
  have "assures (spares F) (fn r sc now)" for F r sc now
    using open_to_all(3) by (cases rt) (auto intro!: assures_via public_handlers_spare)
  from assuresD [OF this open_to_all(4)] have "tenant org d' = tenant org ?dk" if "org \<in> o_id ` set (organizations ?dk)" for org
    using spares_tenant that ok open_to_all(1) by blast
  then show ?thesis using open_to_all(1) unfolding Let_def by blast
next
  case (guarded k rt vars least action entity loc fn res)
  let ?dk = "fold (\<lambda>i. ta_before (env i)) [0..<Suc k] d" and ?r = "to_request (request_id dr hr) vars hr"
  obtain uid sid sc d1 where ses: "parse_uuid (al_uuid (sl_api lib)) (bearer ?r) = Some sid"
      "\<exists>s \<in> set (sessions ?dk). ss_id s = sid \<and> ss_user_id s = uid \<and> ss_revoked_at s = None \<and> ta_now (env k) < ss_expires_at s"
    and loc: "loc ?r uid ?dk = Inr (Some sc)" "least \<le> sc_role sc"
    and h: "fn ?r (sc\<lparr>sc_userID := uid, sc_sessionID := sid\<rparr>) (ta_now (env k)) ?dk = Inr (res, d1)"
    and d': "d' = d1\<lparr>audit_log := audit_log d1 @ audit_rows action entity uid sc res (ta_now (env k))\<rparr>"
    using guard_tx_Inr [OF guarded(4)] by blast
  have wf: "tenants_ok ?dk" using ok guarded(1) by blast
  have log: "spares F d1 d'" for F unfolding d' by (rule spares_frame) simp_all
  have "tenant org d' = tenant org ?dk \<or> has_role uid org member ?dk" if org: "org \<in> o_id ` set (organizations ?dk)" for org
  proof -
    have "spares (realm_of org ?dk) ?dk d1 \<or> has_role uid org member ?dk"
    proof (cases "rt \<in> {Logout, CreateOrg} \<or> get_route rt")
      case True
      let ?h = "fn ?r (sc\<lparr>sc_userID := uid, sc_sessionID := sid\<rparr>) (ta_now (env k))"
      have "assures untouched ?h \<or> assures (spares (realm_of org ?dk)) ?h"
        using True get_route_reads [OF _ guarded(3)] guarded(3) by (auto intro!: assures_via public_handlers_spare spares_createOrg)
      then show ?thesis
        using assuresD [of untouched ?h ?dk res d1] assuresD [of "spares (realm_of org ?dk)" ?h ?dk res d1] h spares_refl
        unfolding untouched_def by metis
    next
      case False
      have least: "member \<le> least" using writing_routes [of rt lib dr] guarded(3) False by auto
      obtain n sf where sf: "loc = byPath (al_uuid (sl_api lib)) n sf" "sf \<in> {orgScope, projectScope, queueScope, policyScope, scheduleScope, jobScope}"
        using writing_locators [OF guarded(3) least] by blast
      have "has_role uid (sc_orgID sc) member ?dk"
        using byPath_found [OF loc(1) [unfolded sf(1)]] scope_has_role [OF sf(2)] has_role_mono least loc(2) order_trans by metis
      then show ?thesis using assuresD [OF route_spares [OF guarded(3) least loc(1) wf] h] by metis
    qed
    then show ?thesis using log spares_trans spares_tenant wf org by blast
  qed
  then show ?thesis using ses guarded(1) unfolding Let_def token_independent [of "request_id dr hr" vars hr] by blast
qed simp

text \<open>A second organisation beside the sample one, with a project and a user of its own.\<close>

definition two_teams :: db where
  "two_teams = team_db\<lparr>organizations := organizations team_db @ [\<lparr>o_id = 50, o_name = ''other'', o_created_at = 0\<rparr>],
     org_members := org_members team_db @ [\<lparr>om_org_id = 50, om_user_id = 9, om_role = ''owner''\<rparr>],
     projects := projects team_db @ [\<lparr>pr_id = 51, pr_org_id = 50, pr_name = ''q'', pr_created_at = 0\<rparr>]\<rparr>"

lemma two_teams_ok: "tenants_ok two_teams"
  by (simp add: tenants_ok_def two_teams_def team_db_def sample_defs)

theorem tenants_isolated_witness:
  "\<exists>v h' d'. serve sample_server sample_draws (quiet_tx sample_now) 0 (sample_http ''DELETE'' ''/projects/aaa'') (no_streams, two_teams) =
      (v, h', d') \<and> tenant 50 d' = tenant 50 two_teams"
proof -
  let ?hr = "sample_http ''DELETE'' ''/projects/aaa''"
  obtain v h' d' where run: "serve sample_server sample_draws (quiet_tx sample_now) 0 ?hr (no_streams, two_teams) = (v, h', d')"
    by (cases "serve sample_server sample_draws (quiet_tx sample_now) 0 ?hr (no_streams, two_teams)") blast
  have same: "fold (\<lambda>i. ta_before (quiet_tx sample_now i)) xs two_teams = two_teams" for xs by (simp add: quiet_tx_def fold_id)
  have ok: "\<forall>k < 5. tenants_ok (fold (\<lambda>i. ta_before (quiet_tx sample_now i)) [0..<Suc k] two_teams)" unfolding same using two_teams_ok by simp
  have org: "50 \<in> o_id ` set (organizations two_teams)" by (simp add: two_teams_def)
  have no: "\<not> has_role (ss_user_id s) 50 member two_teams" if "s \<in> set (sessions two_teams)" for s
    using that by (auto simp: two_teams_def team_db_def has_role_def)
  have "tenant 50 d' = tenant 50 two_teams"
    using tenants_isolated [OF run ok] org no unfolding same Let_def by metis
  then show ?thesis using run by blast
qed

end
