(* ===== verification/Migrate.thy ===== *)
theory Migrate
  imports Paging "HOL-Library.List_Lexorder" "HOL-Library.Char_ord"
begin

text \<open>
  \<open>db/migrate.go\<close>: the schema is built by running the embedded SQL files in the order of their numbers, each in a
  transaction that also records its version. What a file does to the schema is the database's business: a
  parameter \<open>run\<close>, from a text and a schema to the new schema, or \<open>None\<close> when the statement fails. The advisory lock makes
  runs of different processes follow each other. The directory listing gives names with contents, \<open>None\<close> when the
  file cannot be read.
\<close>

section \<open>Loading the files\<close>

record Migration =
  mg_Version :: string
  mg_Name :: string
  mg_SQL :: string

text \<open>\<open>^(\d+)_(.+)\.sql$\<close>\<close>

definition match_name :: "string \<Rightarrow> (string \<times> string) option" where
  "match_name s =
    (let v = takeWhile is_digit s; r = dropWhile is_digit s; n = length r - 5
     in if v \<noteq> [] \<and> r \<noteq> [] \<and> hd r = CHR ''_'' \<and> 5 < length r \<and> drop (Suc n) r = ''.sql'' then Some (v, take n (tl r)) else None)"

fun load_loop :: "(string \<times> string option) list \<Rightarrow> string list \<Rightarrow> string + Migration list" where
  "load_loop [] seen = Inr []"
| "load_loop ((name, body) # es) seen =
    (case match_name name of
       None \<Rightarrow> load_loop es seen
     | Some (v, n) \<Rightarrow>
        if v \<in> set seen then Inl (''duplicate migration version '' @ v)
        else case body of
          None \<Rightarrow> Inl ''read''
        | Some sql \<Rightarrow> rbind (load_loop es (v # seen)) (\<lambda>out. Inr (\<lparr>mg_Version = v, mg_Name = n, mg_SQL = sql\<rparr> # out)))"

definition Load :: "(string \<times> string option) list option \<Rightarrow> string + Migration list" where
  "Load dir =
    (case dir of
       None \<Rightarrow> Inl ''readdir''
     | Some es \<Rightarrow> rbind (load_loop es []) (\<lambda>out. Inr (sort_key mg_Version out)))"

section \<open>Applying them\<close>

text \<open>The schema, and the table \<open>schema_migrations\<close> once it exists.\<close>

record 's schema_db =
  sd_schema :: 's
  sd_migrations :: "(string \<times> string) list option"

type_synonym 's run_sql = "string \<Rightarrow> 's \<Rightarrow> 's option"

definition recorded :: "'s schema_db \<Rightarrow> (string \<times> string) list" where
  "recorded d = (case sd_migrations d of None \<Rightarrow> [] | Some ms \<Rightarrow> ms)"

definition apply_tx :: "'s run_sql \<Rightarrow> Migration \<Rightarrow> 's schema_db \<Rightarrow> 's schema_db option" where
  "apply_tx run m d =
    (case run (mg_SQL m) (sd_schema d) of
       None \<Rightarrow> None
     | Some s \<Rightarrow>
        if mg_Version m \<in> fst ` set (recorded d) then None
        else Some \<lparr>sd_schema = s, sd_migrations = Some (recorded d @ [(mg_Version m, mg_Name m)])\<rparr>)"

text \<open>\<open>apply\<close> with its environment: the transaction runs, is rolled back, or its answer is lost.\<close>

definition apply_migration :: "'s run_sql \<Rightarrow> fate \<Rightarrow> Migration \<Rightarrow> 's schema_db \<Rightarrow> bool \<times> 's schema_db" where
  "apply_migration run f m d =
    (let after = (case apply_tx run m d of None \<Rightarrow> d | Some d1 \<Rightarrow> d1) in
     case f of
       Runs \<Rightarrow> (apply_tx run m d \<noteq> None, after)
     | Aborts c \<Rightarrow> (False, d)
     | Lost e landed \<Rightarrow> (False, if landed then after else d))"

text \<open>The versions applied, whether all went well, and the database.\<close>

fun migrate_loop :: "'s run_sql \<Rightarrow> (nat \<Rightarrow> fate) \<Rightarrow> string set \<Rightarrow> Migration list \<Rightarrow> 's schema_db \<Rightarrow> string list \<times> bool \<times> 's schema_db" where
  "migrate_loop run env already [] d = ([], True, d)"
| "migrate_loop run env already (m # ms) d =
    (if mg_Version m \<in> already then migrate_loop run env already ms d
     else case apply_migration run (env 0) m d of
       (False, d1) \<Rightarrow> ([], False, d1)
     | (True, d1) \<Rightarrow> (case migrate_loop run (\<lambda>i. env (Suc i)) already ms d1 of (vs, ok, d2) \<Rightarrow> (mg_Version m # vs, ok, d2)))"

text \<open>
  \<open>reach\<close> counts how far the preparations get: 0 no connection, 1 no lock, 2 the table cannot be created, 3 the
  versions cannot be read, anything else all of them succeed.
\<close>

definition migrate_run :: "'s run_sql \<Rightarrow> (string \<times> string option) list option \<Rightarrow> nat \<Rightarrow> (nat \<Rightarrow> fate) \<Rightarrow> 's schema_db \<Rightarrow>
    string list \<times> bool \<times> 's schema_db" where
  "migrate_run run dir reach env d =
    (case Load dir of
       Inl e \<Rightarrow> ([], False, d)
     | Inr ms \<Rightarrow>
        if reach \<le> 2 then ([], False, d)
        else let d1 = d\<lparr>sd_migrations := Some (recorded d)\<rparr>
             in if reach = 3 then ([], False, d1)
                else migrate_loop run env (fst ` set (recorded d1)) ms d1)"

section \<open>The files in order\<close>

lemma load_loop_versions:
  "load_loop es seen = Inr ms \<Longrightarrow> distinct (map mg_Version ms) \<and> set (map mg_Version ms) \<inter> set seen = {}"
proof (induction es seen arbitrary: ms rule: load_loop.induct)
  case (2 name body es seen)
  show ?case
  proof (cases "match_name name")
    case None
    with 2 show ?thesis by simp
  next
    case (Some vn)
    obtain v n where vn: "vn = (v, n)" by (cases vn)
    with 2(3) Some obtain sql out where out: "v \<notin> set seen" "body = Some sql" "load_loop es (v # seen) = Inr out"
      "ms = \<lparr>mg_Version = v, mg_Name = n, mg_SQL = sql\<rparr> # out" by (auto simp: result_simps split: if_split_asm option.split_asm)
    with 2(2) [OF Some vn [symmetric]] show ?thesis unfolding vn by auto
  qed
qed simp

lemma Load_versions:
  assumes "Load dir = Inr ms"
  shows "distinct (map mg_Version ms)" and "sorted (map mg_Version ms)"
proof -
  obtain es out where out: "dir = Some es" "load_loop es [] = Inr out" "ms = sort_key mg_Version out"
    using assms by (auto simp: Load_def result_simps split: option.split_asm)
  then show "distinct (map mg_Version ms)" using load_loop_versions [OF out(2)] by (simp add: distinct_map_sort_key)
  show "sorted (map mg_Version ms)" by (simp add: out(3))
qed

section \<open>Once each, in order, whatever fails\<close>

fun run_all :: "'s run_sql \<Rightarrow> Migration list \<Rightarrow> 's \<Rightarrow> 's option" where
  "run_all run [] s = Some s"
| "run_all run (m # ms) s = Option.bind (run (mg_SQL m) s) (run_all run ms)"

definition version_row :: "Migration \<Rightarrow> string \<times> string" where
  "version_row m = (mg_Version m, mg_Name m)"

text \<open>The first \<open>k\<close> files have been applied, and nothing else.\<close>

definition progress :: "'s run_sql \<Rightarrow> Migration list \<Rightarrow> 's \<Rightarrow> nat \<Rightarrow> 's schema_db \<Rightarrow> bool" where
  "progress run ms s0 k d \<longleftrightarrow> k \<le> length ms \<and> recorded d = map version_row (take k ms) \<and> run_all run (take k ms) s0 = Some (sd_schema d)"

lemma run_all_append: "run_all run (xs @ ys) s = Option.bind (run_all run xs s) (run_all run ys)"
proof (induction xs arbitrary: s)
  case (Cons x xs)
  then show ?case by (cases "run (mg_SQL x) s") simp_all
qed simp

lemma progress_step:
  assumes "progress run ms s0 k d" and "k < length ms" and "apply_tx run (ms ! k) d = Some d1"
  shows "progress run ms s0 (Suc k) d1"
proof -
  obtain s where s: "run (mg_SQL (ms ! k)) (sd_schema d) = Some s" "sd_schema d1 = s" "recorded d1 = recorded d @ [version_row (ms ! k)]"
    using assms(3) by (auto simp: apply_tx_def recorded_def version_row_def split: option.split_asm if_split_asm)
  have t: "take (Suc k) ms = take k ms @ [ms ! k]" using assms(2) by (rule take_Suc_conv_app_nth)
  then show ?thesis using assms(1,2) s by (auto simp: progress_def run_all_append)
qed

lemma migrate_skip: "mg_Version ` set pre \<subseteq> already \<Longrightarrow> migrate_loop run env already (pre @ rest) d = migrate_loop run env already rest d"
  by (induction pre) auto

lemma migrate_rest:
  assumes "progress run ms s0 k d" and "rest = drop k ms" and "mg_Version ` set rest \<inter> already = {}"
    and "migrate_loop run env already rest d = (vs, ok, d')"
  shows "\<exists>k'. k \<le> k' \<and> progress run ms s0 k' d' \<and> vs = map mg_Version (take (length vs) rest) \<and> k + length vs \<le> k' \<and>
    (ok \<longrightarrow> k' = length ms \<and> k + length vs = k')"
  using assms
proof (induction rest arbitrary: k d env vs)
  case Nil
  then have "k = length ms" by (simp add: progress_def)
  with Nil show ?case by auto
next
  case (Cons m rest)
  have short: "k < length ms" by (rule ccontr) (use Cons.prems(2) in simp)
  then have "m # rest = ms ! k # drop (Suc k) ms" using Cons.prems(2) by (simp add: Cons_nth_drop_Suc)
  with short have k: "k < length ms" "m = ms ! k" "rest = drop (Suc k) ms" by simp_all
  have fresh: "mg_Version m \<notin> already" "mg_Version ` set rest \<inter> already = {}" using Cons.prems(3) by auto
  obtain b d1 where one: "apply_migration run (env 0) m d = (b, d1)" by (cases "apply_migration run (env 0) m d")
  have step: "d1 = d \<or> apply_tx run m d = Some d1" "b \<Longrightarrow> apply_tx run m d = Some d1"
    using one by (auto simp: apply_migration_def Let_def split: fate.split_asm option.split_asm if_split_asm)
  have moved: "progress run ms s0 (Suc k) d1" if "apply_tx run m d = Some d1"
    using progress_step [OF Cons.prems(1) k(1)] that k(2) by simp
  show ?case
  proof (cases b)
    case False
    with Cons.prems(4) fresh one have "vs = []" "\<not> ok" "d' = d1" by simp_all
    moreover have "\<exists>k' \<ge> k. progress run ms s0 k' d1" using step(1) moved Cons.prems(1) by (metis le_SucI order.refl)
    ultimately show ?thesis by auto
  next
    case True
    with Cons.prems(4) fresh one obtain ws where ws: "vs = mg_Version m # ws" "migrate_loop run (\<lambda>i. env (Suc i)) already rest d1 = (ws, ok, d')"
      by (auto split: prod.split_asm)
    from Cons.IH [OF moved [OF step(2) [OF True]] k(3) fresh(2) ws(2)] obtain k' where
      "Suc k \<le> k'" "progress run ms s0 k' d'" "ws = map mg_Version (take (length ws) rest)" "Suc k + length ws \<le> k'"
      "ok \<longrightarrow> k' = length ms \<and> Suc k + length ws = k'" by blast
    then show ?thesis by (intro exI [of _ k']) (simp add: ws(1))
  qed
qed

lemma migrate_progress:
  assumes load: "Load dir = Inr ms" and prog: "progress run ms s0 k d" and res: "migrate_run run dir reach env d = (vs, ok, d')"
  shows "\<exists>k'. k \<le> k' \<and> progress run ms s0 k' d' \<and> vs = map mg_Version (take (length vs) (drop k ms)) \<and> k + length vs \<le> k' \<and>
    (ok \<longrightarrow> k' = length ms \<and> k + length vs = k')"
proof -
  let ?d = "d\<lparr>sd_migrations := Some (recorded d)\<rparr>"
  have prog1: "progress run ms s0 k ?d" using prog by (simp add: progress_def recorded_def)
  have dist: "distinct (map mg_Version (take k ms @ drop k ms))" using Load_versions(1) [OF load] by simp
  have rec: "fst ` set (recorded ?d) = mg_Version ` set (take k ms)" using prog1 by (auto simp: progress_def version_row_def image_comp comp_def)
  consider "reach \<le> 2" | "reach = 3" | "3 < reach" by linarith
  then show ?thesis
  proof cases
    case 3
    then have "migrate_loop run env (fst ` set (recorded ?d)) (take k ms @ drop k ms) ?d = (vs, ok, d')"
      using res load by (simp add: migrate_run_def Let_def)
    then have "migrate_loop run env (mg_Version ` set (take k ms)) (drop k ms) ?d = (vs, ok, d')"
      unfolding rec by (subst (asm) migrate_skip) simp_all
    then show ?thesis using dist by (intro migrate_rest [OF prog1 refl]) (auto simp del: append_take_drop_id)
  qed (use res load prog prog1 in \<open>auto simp: migrate_run_def Let_def\<close>)
qed

text \<open>Without faults a run finishes, if the files run at all.\<close>

lemma migrate_rest_completes:
  assumes "progress run ms s0 k d" and "distinct (map mg_Version ms)" and "rest = drop k ms" and "mg_Version ` set rest \<inter> already = {}"
    and "run_all run ms s0 \<noteq> None"
  shows "\<exists>vs d'. migrate_loop run (\<lambda>_. Runs) already rest d = (vs, True, d')"
  using assms
proof (induction rest arbitrary: k d)
  case (Cons m rest)
  have short: "k < length ms" by (rule ccontr) (use Cons.prems(3) in simp)
  then have "m # rest = ms ! k # drop (Suc k) ms" using Cons.prems(3) by (simp add: Cons_nth_drop_Suc)
  then have k: "m = ms ! k" "rest = drop (Suc k) ms" by simp_all
  have fresh: "mg_Version m \<notin> already" "mg_Version ` set rest \<inter> already = {}" using Cons.prems(4) by auto
  have "ms = take k ms @ m # rest" using Cons.prems(3) by (metis append_take_drop_id)
  then have "run_all run (take k ms @ m # rest) s0 \<noteq> None" using Cons.prems(5) by simp
  then obtain s where s: "run (mg_SQL m) (sd_schema d) = Some s"
    using Cons.prems(1) by (auto simp: run_all_append progress_def split: bind_splits)
  have "distinct (map mg_Version (take k ms @ m # rest))" using Cons.prems(2) \<open>ms = take k ms @ m # rest\<close> by metis
  then have "mg_Version m \<notin> fst ` set (recorded d)" using Cons.prems(1) by (auto simp: progress_def version_row_def image_comp comp_def)
  with s obtain d1 where d1: "apply_tx run m d = Some d1" by (simp add: apply_tx_def)
  then have "apply_migration run Runs m d = (True, d1)" by (simp add: apply_migration_def)
  moreover have "progress run ms s0 (Suc k) d1" using progress_step [OF Cons.prems(1) short] d1 k(1) by simp
  from Cons.IH [OF this Cons.prems(2) k(2) fresh(2) Cons.prems(5)] obtain vs d' where
    "migrate_loop run (\<lambda>_. Runs) already rest d1 = (vs, True, d')" by blast
  ultimately show ?case using fresh(1) by simp
qed simp

lemma migrate_completes:
  assumes load: "Load dir = Inr ms" and prog: "progress run ms s0 k d" and good: "run_all run ms s0 \<noteq> None" and reach: "3 < reach"
  shows "\<exists>vs d'. migrate_run run dir reach (\<lambda>_. Runs) d = (vs, True, d')"
proof -
  let ?d = "d\<lparr>sd_migrations := Some (recorded d)\<rparr>"
  have prog1: "progress run ms s0 k ?d" using prog by (simp add: progress_def recorded_def)
  have dist: "distinct (map mg_Version ms)" using Load_versions(1) [OF load] .
  then have dist2: "distinct (map mg_Version (take k ms @ drop k ms))" by simp
  have rec: "fst ` set (recorded ?d) = mg_Version ` set (take k ms)" using prog1 by (auto simp: progress_def version_row_def image_comp comp_def)
  have "\<exists>vs d'. migrate_loop run (\<lambda>_. Runs) (mg_Version ` set (take k ms)) (drop k ms) ?d = (vs, True, d')"
    using dist2 by (intro migrate_rest_completes [OF prog1 dist refl _ good]) (auto simp del: append_take_drop_id)
  moreover have "migrate_run run dir reach (\<lambda>_. Runs) d = migrate_loop run (\<lambda>_. Runs) (mg_Version ` set (take k ms)) (take k ms @ drop k ms) ?d"
    using load reach rec by (simp add: migrate_run_def Let_def)
  ultimately show ?thesis by (simp only: migrate_skip [OF order.refl])
qed

inductive migrate_step :: "'s run_sql \<Rightarrow> (string \<times> string option) list option \<Rightarrow> 's schema_db \<Rightarrow> 's schema_db \<Rightarrow> bool" for run dir where
  ran: "migrate_run run dir reach env d = (vs, ok, d') \<Longrightarrow> migrate_step run dir d d'"

lemma migrate_steps_progress:
  assumes "(migrate_step run dir)\<^sup>*\<^sup>* d d'" and "Load dir = Inr ms" and "progress run ms s0 k d"
  shows "\<exists>k'. progress run ms s0 k' d'"
  using assms
proof (induction rule: rtranclp_induct)
  case (step y z)
  then obtain k' where "progress run ms s0 k' y" by blast
  with step.hyps(2) step.prems(1) show ?case by (auto elim!: migrate_step.cases dest: migrate_progress)
qed blast

text \<open>
  C37. Every migration is applied once, in the order of the numbers, however often the runner is started and wherever it
  fails: no connection, no lock, a failing file, a rolled back transaction, a commit whose answer is lost. At any
  moment the schema is the result of running a prefix of the sorted files, each once, on the schema one
  started with, and the recorded versions are exactly that prefix. A run that reports success has applied exactly the
  rest, and the next run applies nothing. If the files run at all, a run without faults succeeds.
\<close>

theorem migrations_once_in_order:
  assumes load: "Load dir = Inr ms" and new: "sd_migrations d = None" and runs: "(migrate_step run dir)\<^sup>*\<^sup>* d d'"
  shows "\<exists>k \<le> length ms. recorded d' = map version_row (take k ms) \<and> run_all run (take k ms) (sd_schema d) = Some (sd_schema d') \<and>
    sorted (map fst (recorded d')) \<and> distinct (map fst (recorded d')) \<and>
    (\<forall>reach env vs e. migrate_run run dir reach env d' = (vs, True, e) \<longrightarrow>
       vs = map mg_Version (drop k ms) \<and> recorded e = map version_row ms \<and> (\<forall>reach' > 3. \<forall>env'. \<exists>e'. migrate_run run dir reach' env' e = ([], True, e'))) \<and>
    (run_all run ms (sd_schema d) \<noteq> None \<longrightarrow> (\<exists>vs e. migrate_run run dir 4 (\<lambda>_. Runs) d' = (vs, True, e)))"
proof -
  have "progress run ms (sd_schema d) 0 d" using new by (simp add: progress_def recorded_def)
  from migrate_steps_progress [OF runs load this] obtain k where k: "progress run ms (sd_schema d) k d'" by blast
  have fst: "map fst (recorded d') = take k (map mg_Version ms)" using k by (simp add: progress_def version_row_def comp_def take_map)
  have again: "\<exists>e'. migrate_run run dir reach' env' e = ([], True, e')" if p: "progress run ms s0 (length ms) e" "3 < reach'" for s0 e reach' env'
  proof -
    have "fst ` set (recorded e) = mg_Version ` set ms" using p(1) by (auto simp: progress_def version_row_def image_comp comp_def)
    then show ?thesis using p(2) load migrate_skip [of ms _ run env' "[]"] by (auto simp: migrate_run_def Let_def recorded_def)
  qed
  have "vs = map mg_Version (drop k ms) \<and> recorded e = map version_row ms \<and> (\<forall>reach' > 3. \<forall>env'. \<exists>e'. migrate_run run dir reach' env' e = ([], True, e'))"
    if res: "migrate_run run dir reach env d' = (vs, True, e)" for reach env vs e
  proof -
    from migrate_progress [OF load k res] have f: "progress run ms (sd_schema d) (length ms) e" "k + length vs = length ms"
      "vs = map mg_Version (take (length vs) (drop k ms))" by auto
    then have "length vs = length (drop k ms)" by simp
    with f(3) have "vs = map mg_Version (drop k ms)" by simp
    then show ?thesis using f(1) again by (auto simp: progress_def)
  qed
  moreover have "sorted (map fst (recorded d')) \<and> distinct (map fst (recorded d'))"
    unfolding fst using Load_versions [OF load] by (simp add: sorted_wrt_take)
  moreover have "\<exists>vs e. migrate_run run dir 4 (\<lambda>_. Runs) d' = (vs, True, e)" if "run_all run ms (sd_schema d) \<noteq> None"
    by (rule migrate_completes [OF load k that]) simp
  ultimately show ?thesis using k unfolding progress_def by blast
qed

text \<open>Two files, of which the second is rolled back in the first run.\<close>

definition sample_dir :: "(string \<times> string option) list option" where
  "sample_dir = Some [(''002_more.sql'', Some ''B''), (''001_base.sql'', Some ''A''), (''README'', Some '''')]"

definition append_sql :: "string list run_sql" where
  "append_sql sql s = Some (s @ [sql])"

definition fresh_schema :: "string list schema_db" where
  "fresh_schema = \<lparr>sd_schema = [], sd_migrations = None\<rparr>"

definition half_schema :: "string list schema_db" where
  "half_schema = \<lparr>sd_schema = [''A''], sd_migrations = Some [(''001'', ''base'')]\<rparr>"

lemma sample_Load: "Load sample_dir = Inr [\<lparr>mg_Version = ''001'', mg_Name = ''base'', mg_SQL = ''A''\<rparr>, \<lparr>mg_Version = ''002'', mg_Name = ''more'', mg_SQL = ''B''\<rparr>]"
  by (simp add: sample_dir_def Load_def match_name_def is_digit_def Let_def less_char_def)

lemma sample_half: "migrate_run append_sql sample_dir 4 (\<lambda>i. if i = 0 then Runs else Aborts ''57014'') fresh_schema = ([''001''], False, half_schema)"
  by (simp add: migrate_run_def sample_Load fresh_schema_def half_schema_def recorded_def apply_migration_def apply_tx_def append_sql_def Let_def)

theorem migrations_once_in_order_witness:
  "migrate_run append_sql sample_dir 4 (\<lambda>i. if i = 0 then Runs else Aborts ''57014'') fresh_schema = ([''001''], False, half_schema) \<and>
   (\<exists>vs e. migrate_run append_sql sample_dir 4 (\<lambda>_. Runs) half_schema = (vs, True, e) \<and> map fst (recorded e) = [''001'', ''002''])"
proof -
  have new: "sd_migrations fresh_schema = None" by (simp add: fresh_schema_def)
  have "(migrate_step append_sql sample_dir)\<^sup>*\<^sup>* fresh_schema half_schema" using sample_half by (blast intro: migrate_step.ran)
  from migrations_once_in_order [OF sample_Load new this] obtain vs e where
    "migrate_run append_sql sample_dir 4 (\<lambda>_. Runs) half_schema = (vs, True, e)" "recorded e = [(''001'', ''base''), (''002'', ''more'')]"
    by (auto simp: append_sql_def version_row_def)
  then show ?thesis using sample_half by simp
qed

end
