(* ===== verification/Commands.thy ===== *)
theory Commands
  imports Passwords Worker Migrate "HOL-Library.Word"
begin

text \<open>
  The processes' own code: \<open>src/cmd\<close> with \<open>Open\<close> of \<open>src/internal/db/db.go\<close>. Each \<open>main\<close> reads the environment, opens a
  connection pool and hands over to a package; what it reads and refuses, the pool it opens and what it hands over
  are modelled. The driver (parsing a URL, making a pool, pinging it) is a parameter. An unset variable is the empty
  string, as \<open>os.Getenv\<close> has it. Where the source converts to a 32-bit or multiplies a 64-bit number, the words wrap.
\<close>

section \<open>Opening a pool\<close>

record pool_config =
  pc_MaxConns :: int
  pc_Params :: "string \<rightharpoonup> string"
  pc_Lifetime :: interval

record pg_driver =
  pg_ParseConfig :: "string \<Rightarrow> string + pool_config"
  pg_New :: "pool_config \<Rightarrow> string option"
  pg_Ping :: "pool_config \<Rightarrow> string option"

definition pool_settings :: "string \<Rightarrow> 32 word \<Rightarrow> interval \<Rightarrow> pool_config \<Rightarrow> pool_config" where
  "pool_settings prog maxConns txTimeout cfg =
     cfg\<lparr>pc_MaxConns := (if 0 < sint maxConns then sint maxConns else pc_MaxConns cfg),
         pc_Params := (let ps = (pc_Params cfg)(''application_name'' \<mapsto> prog, ''statement_timeout'' \<mapsto> ''30s'')
           in if 0 < txTimeout then ps(''transaction_timeout'' \<mapsto> nat_text (nat (milliseconds txTimeout)) @ ''ms'') else ps),
         pc_Lifetime := 3600 * 1000000\<rparr>"

definition open_pool :: "pg_driver \<Rightarrow> string \<Rightarrow> string \<Rightarrow> 32 word \<Rightarrow> interval \<Rightarrow> string + pool_config" where
  "open_pool drv prog url maxConns txTimeout =
    (case pg_ParseConfig drv url of
       Inl e \<Rightarrow> Inl e
     | Inr parsed \<Rightarrow>
        let cfg = pool_settings prog maxConns txTimeout parsed in
        (case pg_New drv cfg of
           Some e \<Rightarrow> Inl e
         | None \<Rightarrow> (case pg_Ping drv cfg of Some e \<Rightarrow> Inl e | None \<Rightarrow> Inr cfg)))"

section \<open>The worker\<close>

type_synonym environ = "string \<Rightarrow> string"

record worker_settings =
  ws_url :: string
  ws_queueID :: uuid
  ws_concurrency :: int

definition worker_env :: "uuid_lib \<Rightarrow> environ \<Rightarrow> string + worker_settings" where
  "worker_env lib env =
    (if env ''DATABASE_URL'' = '''' then Inl ''DATABASE_URL is not set''
     else case parse_uuid lib (env ''WORKER_QUEUE'') of
       None \<Rightarrow> Inl ''WORKER_QUEUE must be a queue id''
     | Some queueID \<Rightarrow>
        let v = env ''WORKER_CONCURRENCY'' in
        if v = '''' then Inr \<lparr>ws_url = env ''DATABASE_URL'', ws_queueID = queueID, ws_concurrency = 4\<rparr>
        else case parse_int v of
          None \<Rightarrow> Inl ''WORKER_CONCURRENCY must be a positive number''
        | Some n \<Rightarrow>
           if n < 1 then Inl ''WORKER_CONCURRENCY must be a positive number''
           else Inr \<lparr>ws_url = env ''DATABASE_URL'', ws_queueID = queueID, ws_concurrency = n\<rparr>)"

text \<open>\<open>int32(concurrency+4)\<close>\<close>

definition worker_conns :: "int \<Rightarrow> 32 word" where
  "worker_conns concurrency = word_of_int (concurrency + 4)"

text \<open>Up to the call of \<open>worker.Run\<close>: the pool and the configuration it gets, or the message of \<open>log.Fatal\<close>.\<close>

definition worker_main ::
  "uuid_lib \<Rightarrow> pg_driver \<Rightarrow> string \<Rightarrow> environ \<Rightarrow> stmt_env \<Rightarrow> uuid \<Rightarrow> string option \<Rightarrow> int \<Rightarrow> db \<Rightarrow>
     ((string + go_error) + pool_config \<times> WorkerConfig) \<times> db" where
  "worker_main lib drv prog env st i hostname pid d =
    (case worker_env lib env of
       Inl msg \<Rightarrow> (Inl (Inl msg), d)
     | Inr ws \<Rightarrow>
        (case open_pool drv prog (ws_url ws) (worker_conns (ws_concurrency ws)) (30 * 1000000) of
           Inl msg \<Rightarrow> (Inl (Inl msg), d)
         | Inr pool \<Rightarrow>
            (case Register st i hostname pid (ws_queueID ws) (ws_concurrency ws) d of
               (Inl e, d1) \<Rightarrow> (Inl (Inr e), d1)
             | (Inr workerID, d1) \<Rightarrow>
                 (Inr (pool, DefaultWorkerConfig\<lparr>wc_QueueID := ws_queueID ws, wc_WorkerID := workerID,
                    wc_Concurrency := ws_concurrency ws\<rparr>), d1))))"

text \<open>
  The handlers the worker comes with. \<open>sleep\<close> waits for the milliseconds of its payload (\<open>ms_of\<close> reads it) or until its
  context is done, which happens after some nanoseconds with some error, whichever comes first; \<open>stopped\<close> says which one
  \<open>select\<close> takes when both are ready.
\<close>

definition sleep_ns :: "int \<Rightarrow> int" where
  "sleep_ns ms = max 0 (sint (word_of_int ms * 1000000 :: 64 word))"

definition sleep_handler :: "(string \<Rightarrow> int option) \<Rightarrow> string \<Rightarrow> (int \<times> string) option \<Rightarrow> bool \<Rightarrow> herr" where
  "sleep_handler ms_of payload done_at stopped =
    (case ms_of payload of
       None \<Rightarrow> H_error False ''bad sleep payload''
     | Some ms \<Rightarrow>
        (case done_at of
           None \<Rightarrow> H_nil
         | Some (t, err) \<Rightarrow> if t < sleep_ns ms \<or> t = sleep_ns ms \<and> stopped then H_error False err else H_nil))"

definition job_handlers :: "(string \<Rightarrow> int option) \<Rightarrow> string \<Rightarrow> (string \<Rightarrow> (int \<times> string) option \<Rightarrow> bool \<Rightarrow> herr) option" where
  "job_handlers ms_of name =
    (if name = ''noop'' then Some (\<lambda>_ _ _. H_nil)
     else if name = ''sleep'' then Some (sleep_handler ms_of)
     else if name = ''fail'' then Some (\<lambda>_ _ _. H_error False ''deliberate failure'')
     else None)"

section \<open>The other processes\<close>

text \<open>The API server: its address, the pool and the origins it allows (\<open>None\<close> leaves the default).\<close>

definition api_addr :: "environ \<Rightarrow> string" where
  "api_addr env =
    (if env ''API_ADDR'' \<noteq> '''' then env ''API_ADDR''
     else '':'' @ (if env ''API_PORT'' = '''' then ''3001'' else env ''API_PORT''))"

definition api_origins :: "environ \<Rightarrow> string list option" where
  "api_origins env = (if env ''API_ALLOWED_ORIGINS'' = '''' then None else Some (split_on (CHR '','') (env ''API_ALLOWED_ORIGINS'')))"

definition with_url :: "environ \<Rightarrow> (string \<Rightarrow> string + 'a) \<Rightarrow> string + 'a" where
  "with_url env run = (if env ''DATABASE_URL'' = '''' then Inl ''DATABASE_URL is not set'' else run (env ''DATABASE_URL''))"

definition api_main :: "pg_driver \<Rightarrow> string \<Rightarrow> environ \<Rightarrow> string + pool_config \<times> string \<times> string list option" where
  "api_main drv prog env = with_url env (\<lambda>url.
     rbind (open_pool drv prog url 20 (10 * 1000000)) (\<lambda>pool. Inr (pool, api_addr env, api_origins env)))"

definition scheduler_main :: "pg_driver \<Rightarrow> string \<Rightarrow> environ \<Rightarrow> string + pool_config \<times> SchedConfig" where
  "scheduler_main drv prog env = with_url env (\<lambda>url.
     rbind (open_pool drv prog url 10 (30 * 1000000)) (\<lambda>pool. Inr (pool, DefaultSchedConfig)))"

definition archiver_main :: "pg_driver \<Rightarrow> string \<Rightarrow> environ \<Rightarrow> string + pool_config \<times> ArchConfig" where
  "archiver_main drv prog env = with_url env (\<lambda>url.
     rbind (open_pool drv prog url 4 0) (\<lambda>pool. Inr (pool, DefaultArchConfig)))"

text \<open>The migrator: the exit code, the last line it prints on success, and the schema.\<close>

definition migrate_main :: "pg_driver \<Rightarrow> string \<Rightarrow> environ \<Rightarrow> 's run_sql \<Rightarrow> (string \<times> string option) list option \<Rightarrow> nat \<Rightarrow> (nat \<Rightarrow> fate) \<Rightarrow>
    's schema_db \<Rightarrow> (nat \<times> string option) \<times> 's schema_db" where
  "migrate_main drv prog env run dir reach fates d =
    (case with_url env (\<lambda>url. open_pool drv prog url 1 0) of
       Inl msg \<Rightarrow> ((1, None), d)
     | Inr pool \<Rightarrow>
        (case migrate_run run dir reach fates d of
           (applied, ok, d1) \<Rightarrow>
             if \<not> ok then ((1, None), d1)
             else ((0, Some (if applied = [] then ''up to date'' else ''applied '' @ nat_text (length applied))), d1)))"

section \<open>What a worker starts with\<close>

lemma sint_conns: "sint (worker_conns n) = signed_take_bit 31 (n + 4)"
proof -
  have "sint (word_of_int k :: 32 word) = signed_take_bit 31 k" for k by (simp add: sint_sbintrunc')
  then show ?thesis unfolding worker_conns_def .
qed

lemma worker_conns_fits: "1 \<le> n \<Longrightarrow> n \<le> 2147483643 \<Longrightarrow> sint (worker_conns n) = n + 4"
  unfolding sint_conns by (rule signed_take_bit_int_eq_self) simp_all

lemma worker_conns_wraps: "2147483643 < n \<Longrightarrow> n \<le> 2147483647 \<Longrightarrow> sint (worker_conns n) < 0"
proof -
  assume n: "2147483643 < n" "n \<le> 2147483647"
  have "signed_take_bit 31 (n + 4 - 4294967296) = signed_take_bit 31 (n + 4)"
    unfolding signed_take_bit_eq_iff_take_bit_eq take_bit_eq_mod using mod_add_self2 [of "n + 4 - 4294967296" "4294967296 :: int"] by (simp add: add.commute)
  moreover have "signed_take_bit 31 (n + 4 - 4294967296) = n + 4 - 4294967296"
    using n by (intro signed_take_bit_int_eq_self) simp_all
  ultimately show ?thesis using n unfolding sint_conns by simp
qed

lemma nat_text_30000: "nat_text 30000 = ''30000''"
proof -
  have "char_of (51 :: nat) = CHR ''3''" "char_of (48 :: nat) = CHR ''0''" by code_simp+
  then show ?thesis by (simp add: nat_text_big nat_text_small)
qed

lemma Register_Inr:
  assumes "Register st i hostname pid queue n d = (Inr w, d')"
  shows "w = i \<and> 0 < n \<and> (\<exists>r \<in> set (workers d'). w_id r = i \<and> w_max_concurrency r = n)"
proof -
  from assms have "scan_row (stmt st (register_sql i queue (coalesce hostname ''unknown'') pid n) d) = (Inr w, d')"
    by (auto simp: Register_def split: prod.split_asm sum.split_asm go_error.split_asm)
  then have "register_sql i queue (coalesce hostname ''unknown'') pid n (se_now st) (se_before st d) = Inr (Some w, d')"
    by (auto simp: scan_row_def stmt_def run_tx_Inr split: prod.split_asm sum.split_asm option.split_asm)
  then show ?thesis by (auto simp: register_sql_def split: option.split_asm if_split_asm)
qed

text \<open>
  C39. A worker process starts the way its environment says, or not at all. Without a database URL, a queue id and a
  positive concurrency (or none, which means four) it ends with a message and has not touched the database. When
  it starts, it is registered with exactly that concurrency, its configuration is the default one otherwise, and its
  pool has four connections more than it has slots; only for the last four concurrencies below \<open>2 ^ 31\<close> the
  32-bit conversion wraps to a negative number, and the pool silently keeps the driver's default size.
\<close>

theorem worker_starts_as_configured:
  assumes parse: "pg_ParseConfig drv (env ''DATABASE_URL'') = Inr base"
  shows "case worker_main lib drv prog env st i hostname pid d of
      (Inl (Inl msg), d') \<Rightarrow> d' = d
    | (Inl (Inr e), d') \<Rightarrow> \<exists>ws. worker_env lib env = Inr ws
    | (Inr (pool, cfg), d') \<Rightarrow>
        env ''DATABASE_URL'' \<noteq> '''' \<and> parse_uuid lib (env ''WORKER_QUEUE'') = Some (wc_QueueID cfg) \<and> 1 \<le> wc_Concurrency cfg \<and>
        (if env ''WORKER_CONCURRENCY'' = '''' then wc_Concurrency cfg = 4 else parse_int (env ''WORKER_CONCURRENCY'') = Some (wc_Concurrency cfg)) \<and>
        (\<exists>r \<in> set (workers d'). w_id r = wc_WorkerID cfg \<and> w_max_concurrency r = wc_Concurrency cfg) \<and>
        pc_Params pool ''transaction_timeout'' = Some ''30000ms'' \<and>
        (wc_Concurrency cfg \<le> 2147483643 \<longrightarrow> pc_MaxConns pool = wc_Concurrency cfg + 4) \<and>
        (2147483643 < wc_Concurrency cfg \<and> wc_Concurrency cfg \<le> 2147483647 \<longrightarrow> pc_MaxConns pool = pc_MaxConns base)"
proof (cases "worker_env lib env")
  case (Inl msg)
  then show ?thesis by (simp add: worker_main_def)
next
  case (Inr ws)
  have ws: "env ''DATABASE_URL'' \<noteq> ''''" "ws_url ws = env ''DATABASE_URL''" "parse_uuid lib (env ''WORKER_QUEUE'') = Some (ws_queueID ws)"
    "1 \<le> ws_concurrency ws"
    "if env ''WORKER_CONCURRENCY'' = '''' then ws_concurrency ws = 4 else parse_int (env ''WORKER_CONCURRENCY'') = Some (ws_concurrency ws)"
    using Inr by (auto simp: worker_env_def Let_def split: if_split_asm option.split_asm)
  show ?thesis
  proof (cases "open_pool drv prog (ws_url ws) (worker_conns (ws_concurrency ws)) (30 * 1000000)")
    case (Inl msg)
    then show ?thesis using Inr by (simp add: worker_main_def)
  next
    case pool: (Inr pool)
    then have p: "pool = pool_settings prog (worker_conns (ws_concurrency ws)) (30 * 1000000) base"
      using parse ws(2) by (auto simp: open_pool_def Let_def split: option.split_asm)
    have tt: "pc_Params pool ''transaction_timeout'' = Some ''30000ms''"
      by (simp add: p pool_settings_def milliseconds_def nat_text_30000)
    have size: "ws_concurrency ws \<le> 2147483643 \<longrightarrow> pc_MaxConns pool = ws_concurrency ws + 4"
      "2147483643 < ws_concurrency ws \<and> ws_concurrency ws \<le> 2147483647 \<longrightarrow> pc_MaxConns pool = pc_MaxConns base"
      using worker_conns_fits [OF ws(4)] worker_conns_wraps [of "ws_concurrency ws"] ws(4) by (auto simp: p pool_settings_def)
    obtain r d' where reg: "Register st i hostname pid (ws_queueID ws) (ws_concurrency ws) d = (r, d')" by fastforce
    show ?thesis
    proof (cases r)
      case (Inl e)
      then show ?thesis using Inr pool reg by (simp add: worker_main_def)
    next
      case w: (Inr w)
      then have "\<exists>k \<in> set (workers d'). w_id k = w \<and> w_max_concurrency k = ws_concurrency ws"
        using Register_Inr [of st i hostname pid "ws_queueID ws" "ws_concurrency ws" d w d'] reg by auto
      then show ?thesis
        using Inr pool reg w ws tt size by (simp add: worker_main_def)
    qed
  qed
qed

definition sample_driver :: pg_driver where
  "sample_driver = \<lparr>pg_ParseConfig = (\<lambda>url. Inr \<lparr>pc_MaxConns = 4, pc_Params = Map.empty, pc_Lifetime = 0\<rparr>), pg_New = (\<lambda>_. None), pg_Ping = (\<lambda>_. None)\<rparr>"

definition sample_environ :: environ where
  "sample_environ k = (if k = ''DATABASE_URL'' then ''postgres://db'' else if k = ''WORKER_QUEUE'' then uuid_text unary_uuid 7 else '''')"

theorem worker_starts_as_configured_witness:
  "case worker_main unary_uuid sample_driver ''worker'' sample_environ (quiet_stmt sample_now) 6 None 1 sample_db of
      (Inl (Inl msg), d') \<Rightarrow> False
    | (Inl (Inr e), d') \<Rightarrow> False
    | (Inr (pool, cfg), d') \<Rightarrow> wc_Concurrency cfg = 4 \<and> pc_MaxConns pool = 8"
proof -
  have q: "parse_uuid unary_uuid (uuid_text unary_uuid 7) = Some 7"
    by (simp add: unary_uuid_def)
  have p: "pg_ParseConfig sample_driver (sample_environ ''DATABASE_URL'') = Inr \<lparr>pc_MaxConns = 4, pc_Params = Map.empty, pc_Lifetime = 0\<rparr>"
    by (simp add: sample_driver_def)
  have e: "worker_env unary_uuid sample_environ = Inr \<lparr>ws_url = ''postgres://db'', ws_queueID = 7, ws_concurrency = 4\<rparr>"
    using q by (simp add: worker_env_def sample_environ_def Let_def)
  obtain pool cfg d' where run: "worker_main unary_uuid sample_driver ''worker'' sample_environ (quiet_stmt sample_now) 6 None 1 sample_db = (Inr (pool, cfg), d')"
    by (simp add: worker_main_def e open_pool_def sample_driver_def Let_def Register_def register_sql_def scan_row_def stmt_def quiet_stmt_def sample_defs)
  then have "wc_Concurrency cfg = 4" by (auto simp: worker_main_def e split: sum.split_asm prod.split_asm)
  with worker_starts_as_configured [of sample_driver sample_environ, OF p, where lib = unary_uuid and prog = "''worker''" and st = "quiet_stmt sample_now" and i = 6 and
      hostname = None and pid = 1 and d = sample_db] run show ?thesis by simp
qed

end
