(* ===== verification/Diagram.thy ===== *)
theory Diagram
  imports Commands
begin

text \<open>
  \<open>src/cmd/diagram/main.go\<close>: the diagrams of the schema as Mermaid text, from the rows of five queries on the catalog. The
  queries on \<open>pg_catalog\<close> are parameters, lists of rows or an error; the transitions are those of the table
  \<open>job_transitions\<close>. Any error ends the process before a file is written.
\<close>

section \<open>Text\<close>

definition nl :: char where
  "nl = CHR 0x0A"

definition lines_text :: "string list \<Rightarrow> string" where
  "lines_text ls = concat (map (\<lambda>l. l @ [nl]) ls)"

definition hex_digits :: string where
  "hex_digits = ''0123456789abcdef''"

text \<open>The verb \<open>%q\<close> on ASCII text.\<close>

definition quote_char :: "char \<Rightarrow> string" where
  "quote_char c =
    (let n = of_char c :: nat; esc = (\<lambda>x. [CHR 0x5C, x]) in
     if n = 34 \<or> n = 92 then esc c
     else if 32 \<le> n \<and> n < 127 then [c]
     else if n = 7 then esc (CHR ''a'') else if n = 8 then esc (CHR ''b'') else if n = 12 then esc (CHR ''f'')
     else if n = 10 then esc (CHR ''n'') else if n = 13 then esc (CHR ''r'') else if n = 9 then esc (CHR ''t'')
     else if n = 11 then esc (CHR ''v'')
     else [CHR 0x5C, CHR ''x'', hex_digits ! (n div 16), hex_digits ! (n mod 16)])"

definition quote :: "string \<Rightarrow> string" where
  "quote s = [CHR 0x22] @ concat (map quote_char s) @ [CHR 0x22]"

section \<open>The job lifecycle\<close>

type_synonym transition_row = "string \<times> string \<times> string"

fun lifecycle_line :: "transition_row \<Rightarrow> string" where
  "lifecycle_line (src, dst, note) = ''    '' @ src @ '' --> '' @ dst @ '': '' @ note"

definition lifecycle_intro :: "string list" where
  "lifecycle_intro = [''## The job lifecycle'', '''',
     ''Every edge is a row in `job_transitions`. A trigger rejects any move not listed'',
     ''here, so this is the whole state machine and not a summary of it.'', '''',
     ''```mermaid'', ''stateDiagram-v2'']"

definition lifecycle :: "transition_row list \<Rightarrow> string" where
  "lifecycle rows = lines_text (lifecycle_intro @ map lifecycle_line rows @ [''```'', ''''])"

fun status_rank :: "job_status \<Rightarrow> nat" where
  "status_rank Scheduled = 0"
| "status_rank Queued = 1"
| "status_rank Claimed = 2"
| "status_rank Running = 3"
| "status_rank Completed = 4"
| "status_rank Retry_wait = 5"
| "status_rank Dead_letter = 6"
| "status_rank Cancelled = 7"

text \<open>\<open>transitionsSQL\<close>; enum values sort in the order of their declaration.\<close>

definition transition_rows :: "(job_status \<Rightarrow> job_status \<Rightarrow> string) \<Rightarrow> transition_row list" where
  "transition_rows note = map (\<lambda>(a, b). (status_text a, status_text b, note a b))
     (sort_key (\<lambda>(a, b). (status_rank a, status_rank b)) job_transitions)"

section \<open>Entities\<close>

record relation_row =
  rl_src :: string
  rl_tgt :: string
  rl_del :: string
  rl_required :: bool
  rl_cols :: string

record key_row =
  kr_name :: string
  kr_col :: string
  kr_typ :: string
  kr_pk :: bool
  kr_fk :: bool

definition onDelete :: "string \<Rightarrow> string" where
  "onDelete d = (if d = ''a'' then ''no action'' else if d = ''r'' then ''restrict'' else if d = ''c'' then ''cascade''
     else if d = ''n'' then ''set null'' else if d = ''d'' then ''set default'' else '''')"

definition relation_line :: "relation_row \<Rightarrow> string" where
  "relation_line r = ''    '' @ rl_tgt r @ '' '' @ (if rl_required r then ''||--|{'' else ''||--o{'') @ '' '' @ rl_src r @ '' : '' @
     quote (rl_cols r @ '', '' @ onDelete (rl_del r))"

definition key_mark :: "key_row \<Rightarrow> string" where
  "key_mark r = (if kr_pk r \<and> kr_fk r then ''PK, FK'' else if kr_pk r then ''PK'' else ''FK'')"

definition key_line :: "key_row \<Rightarrow> string" where
  "key_line r = ''        '' @ kr_typ r @ '' '' @ kr_col r @ '' '' @ key_mark r"

text \<open>The loop over the key columns, which closes a block when the table changes.\<close>

fun key_loop :: "string \<Rightarrow> key_row list \<Rightarrow> string list" where
  "key_loop table [] = (if table \<noteq> '''' then [''    }''] else [])"
| "key_loop table (r # rs) =
    (if kr_name r \<noteq> table then (if table \<noteq> '''' then [''    }''] else []) @ [''    '' @ kr_name r @ '' {''] else []) @
    [key_line r] @ key_loop (kr_name r) rs"

definition entities :: "relation_row list \<Rightarrow> key_row list \<Rightarrow> string" where
  "entities rels keys = lines_text
     ([''## Entities'', '''',
       ''Key columns only. The label on each line is what happens to the child when the'', ''parent is deleted.'', '''',
       ''```mermaid'', ''erDiagram''] @ map relation_line rels @ key_loop '''' keys @ [''```'', ''''])"

section \<open>Every table\<close>

fun table_line :: "string \<times> string \<Rightarrow> string" where
  "table_line (name, kind) = ''    '' @ name @ (if kind = ''partitioned'' then ''[('' @ name @ '')]'' else ''['' @ name @ '']'')"

fun link_line :: "string \<times> string \<Rightarrow> string" where
  "link_line (src, tgt) = ''    '' @ src @ '' --> '' @ tgt"

definition tableGraph :: "(string \<times> string) list \<Rightarrow> (string \<times> string) list \<Rightarrow> string" where
  "tableGraph tables links = lines_text
     ([''## Every table'', '''', ''Cylinders are partitioned by day.'', '''', ''```mermaid'', ''graph LR''] @
      map table_line tables @ map link_line links @ [''```''])"

section \<open>The command\<close>

text \<open>The file it writes and its contents, or the message it dies with; \<open>None\<close> for a query is an error.\<close>

record catalog =
  cl_transitions :: "transition_row list option"
  cl_relations :: "relation_row list option"
  cl_keys :: "key_row list option"
  cl_tables :: "(string \<times> string) list option"
  cl_links :: "(string \<times> string) list option"

definition query_rows :: "'r list option \<Rightarrow> string + 'r list" where
  "query_rows x = (case x of None \<Rightarrow> Inl ''query'' | Some rs \<Rightarrow> Inr rs)"

definition diagram_main :: "pg_driver \<Rightarrow> string \<Rightarrow> environ \<Rightarrow> string list \<Rightarrow> catalog \<Rightarrow> string + string \<times> string" where
  "diagram_main drv prog env args cat = with_url env (\<lambda>url.
     rbind (open_pool drv prog url 1 0) (\<lambda>_.
     rbind (query_rows (cl_transitions cat)) (\<lambda>ts.
     rbind (query_rows (cl_relations cat)) (\<lambda>rels.
     rbind (query_rows (cl_keys cat)) (\<lambda>keys.
     rbind (query_rows (cl_tables cat)) (\<lambda>tables.
     rbind (query_rows (cl_links cat)) (\<lambda>links.
       Inr (case args of [] \<Rightarrow> ''DIAGRAMS.md'' | out # _ \<Rightarrow> out,
         lines_text [''# Diagrams'', '''', ''Generated from a migrated database by `make diagram`. Everything here is read'',
           ''out of the live catalog, so it cannot drift from the schema it describes.'', ''''] @
         lifecycle ts @ entities rels keys @ tableGraph tables links))))))))"

section \<open>Lines read back\<close>

lemma split_lines: "\<forall>l \<in> set ls. nl \<notin> set l \<Longrightarrow> split_on nl (lines_text ls) = ls @ ['''']"
  by (induction ls) (auto simp: lines_text_def split_on_field)

lemma intro_lines: "\<forall>l \<in> set lifecycle_intro. nl \<notin> set l" "\<forall>l \<in> set lifecycle_intro. take 1 l \<noteq> '' ''"
  by (simp_all add: lifecycle_intro_def nl_def)

lemma status_text_line: "nl \<notin> set (status_text a)"
  by (cases a) (simp_all add: nl_def)

lemma transition_lines:
  "\<forall>a b. nl \<notin> set (note a b) \<Longrightarrow> \<forall>r \<in> set (transition_rows note). nl \<notin> set (lifecycle_line r)"
  using status_text_line by (auto simp: transition_rows_def nl_def)

lemma lifecycle_lines:
  assumes "\<forall>a b. nl \<notin> set (note a b)"
  shows "split_on nl (lifecycle (transition_rows note)) =
    (lifecycle_intro @ map lifecycle_line (transition_rows note) @ [''```'', '''']) @ ['''']"
  unfolding lifecycle_def using intro_lines(1) transition_lines [OF assms] by (intro split_lines) (auto simp: nl_def)

lemma set_transition_rows: "set (transition_rows note) = (\<lambda>(a, b). (status_text a, status_text b, note a b)) ` set job_transitions"
  by (simp add: transition_rows_def)

text \<open>A status and what follows it, up to the first blank or colon.\<close>

lemma status_text_ends:
  assumes "status_text a @ c # u = status_text a' @ c # v" "c = CHR '' '' \<or> c = CHR '':''"
  shows "a = a' \<and> u = v"
  using assms by (cases a; cases a') auto

lemma edge_line_inj:
  assumes "lifecycle_line (status_text a, status_text b, n) = lifecycle_line (status_text a', status_text b', n')"
  shows "a = a' \<and> b = b'"
proof -
  have "a = a' \<and> ''--> '' @ status_text b @ '': '' @ n = ''--> '' @ status_text b' @ '': '' @ n'"
    using assms by (intro status_text_ends [where c = "CHR '' ''"]) simp_all
  moreover from this have "b = b' \<and> '' '' @ n = '' '' @ n'" by (intro status_text_ends [where c = "CHR '':''"]) simp_all
  ultimately show ?thesis by blast
qed

lemma edge_lines:
  assumes "\<forall>a b. nl \<notin> set (note a b)"
  shows "(\<exists>n. lifecycle_line (status_text a, status_text b, n) \<in> set (split_on nl (lifecycle (transition_rows note))))
    \<longleftrightarrow> (a, b) \<in> set job_transitions"
proof
  assume "\<exists>n. lifecycle_line (status_text a, status_text b, n) \<in> set (split_on nl (lifecycle (transition_rows note)))"
  then obtain n where n: "lifecycle_line (status_text a, status_text b, n) \<in> set (split_on nl (lifecycle (transition_rows note)))" ..
  have "take 1 (lifecycle_line (status_text a, status_text b, n)) = '' ''" by simp
  then have "lifecycle_line (status_text a, status_text b, n) \<notin> set lifecycle_intro" using intro_lines(2) by blast
  moreover have "lifecycle_line (status_text a, status_text b, n) \<notin> set [''```'', '''']" by simp
  ultimately have "lifecycle_line (status_text a, status_text b, n) \<in> lifecycle_line ` set (transition_rows note)"
    using n unfolding lifecycle_lines [OF assms] set_append set_map by simp
  then obtain a' b' where "(a', b') \<in> set job_transitions"
      "lifecycle_line (status_text a, status_text b, n) = lifecycle_line (status_text a', status_text b', note a' b')"
    unfolding set_transition_rows by (elim imageE) (simp del: lifecycle_line.simps split: prod.split_asm)
  then show "(a, b) \<in> set job_transitions" using edge_line_inj by blast
next
  assume "(a, b) \<in> set job_transitions"
  then have "(status_text a, status_text b, note a b) \<in> set (transition_rows note)" unfolding set_transition_rows by force
  then show "\<exists>n. lifecycle_line (status_text a, status_text b, n) \<in> set (split_on nl (lifecycle (transition_rows note)))"
    unfolding lifecycle_lines [OF assms] set_append set_map by blast
qed

section \<open>Key columns by table\<close>

text \<open>Each table once, in the order of its first row, and its block with all its rows.\<close>

fun table_names :: "key_row list \<Rightarrow> string list" where
  "table_names [] = []"
| "table_names (r # rs) = kr_name r # filter (\<lambda>n. n \<noteq> kr_name r) (table_names rs)"

definition table_block :: "key_row list \<Rightarrow> string \<Rightarrow> string list" where
  "table_block rs n = (''    '' @ n @ '' {'') # map key_line (filter (\<lambda>r. kr_name r = n) rs) @ [''    }'']"

lemma set_table_names: "set (table_names rs) = kr_name ` set rs"
  by (induction rs) auto

lemma table_block_skip [simp]: "kr_name r \<noteq> n \<Longrightarrow> table_block (r # rs) n = table_block rs n"
  by (simp add: table_block_def)

lemma table_block_own: "table_block (r # rs) (kr_name r) =
    (''    '' @ kr_name r @ '' {'') # key_line r # map key_line (filter (\<lambda>q. kr_name q = kr_name r) rs) @ [''    }'']"
  by (simp add: table_block_def)

lemma other_blocks [simp]: "kr_name r = t \<Longrightarrow>
    concat (map (table_block (r # rs)) (filter (\<lambda>n. n \<noteq> t) ns)) = concat (map (table_block rs) (filter (\<lambda>n. n \<noteq> t) ns))"
  by (induction ns) auto

lemma key_loop_blocks:
  assumes "inj rank" "\<forall>r \<in> set rs. kr_name r \<noteq> ''''" "sorted (map (rank \<circ> kr_name) rs)"
    and "t \<noteq> ''''" "\<forall>r \<in> set rs. (rank t :: nat) \<le> rank (kr_name r)"
  shows "key_loop t rs = map key_line (filter (\<lambda>r. kr_name r = t) rs) @ [''    }''] @
    concat (map (table_block rs) (filter (\<lambda>n. n \<noteq> t) (table_names rs)))"
  using assms(2-5)
proof (induction rs arbitrary: t)
  case Nil
  then show ?case by simp
next
  case (Cons r rs)
  have IH: "key_loop (kr_name r) rs = map key_line (filter (\<lambda>q. kr_name q = kr_name r) rs) @ [''    }''] @
      concat (map (table_block rs) (filter (\<lambda>n. n \<noteq> kr_name r) (table_names rs)))"
    using Cons.prems by (intro Cons.IH) auto
  show ?case
  proof (cases "kr_name r = t")
    case True
    then show ?thesis using IH by simp
  next
    case False
    then have "rank t < rank (kr_name r)" using Cons.prems(4) injD [OF assms(1)] by (fastforce simp: le_less)
    then have gone: "\<forall>q \<in> set rs. kr_name q \<noteq> t" using Cons.prems(2) by fastforce
    then have "filter (\<lambda>n. n \<noteq> t) (filter (\<lambda>n. n \<noteq> kr_name r) (table_names rs)) = filter (\<lambda>n. n \<noteq> kr_name r) (table_names rs)"
      by (intro filter_True) (auto simp: set_table_names)
    then show ?thesis
      using False IH gone Cons.prems(3) by (simp add: table_block_own)
  qed
qed

lemma key_loop_start:
  assumes "inj rank" "\<forall>r \<in> set rs. kr_name r \<noteq> ''''" "sorted (map ((rank :: string \<Rightarrow> nat) \<circ> kr_name) rs)"
  shows "key_loop '''' rs = concat (map (table_block rs) (table_names rs))"
proof (cases rs)
  case (Cons r qs)
  then have "key_loop (kr_name r) qs = map key_line (filter (\<lambda>q. kr_name q = kr_name r) qs) @ [''    }''] @
      concat (map (table_block qs) (filter (\<lambda>n. n \<noteq> kr_name r) (table_names qs)))"
    using assms by (intro key_loop_blocks [OF assms(1)]) auto
  then show ?thesis using Cons assms(2) by (simp add: table_block_own)
qed simp

section \<open>The property\<close>

text \<open>
  C40. The generated document shows the schema as it is. When no note of \<open>job_transitions\<close> has a line break, the state diagram has
  a line for an edge exactly if the trigger of \<open>jobs\<close> accepts that change of status. When the key columns come in the order of
  their tables, whatever the collation, the loop that opens and closes blocks as it goes writes one block per table, with exactly
  the rows of that table in it.
\<close>

theorem diagram_shows_schema:
  assumes "\<forall>a b. nl \<notin> set (note a b)"
    and "inj rank" "\<forall>r \<in> set rs. kr_name r \<noteq> ''''" "sorted (map ((rank :: string \<Rightarrow> nat) \<circ> kr_name) rs)"
  shows "((\<exists>n. ''    '' @ status_text a @ '' --> '' @ status_text b @ '': '' @ n \<in> set (split_on nl (lifecycle (transition_rows note))))
      \<longleftrightarrow> legal_transition a b) \<and>
    distinct (table_names rs) \<and> set (table_names rs) = kr_name ` set rs \<and>
    key_loop '''' rs = concat (map (table_block rs) (table_names rs))"
proof -
  have "(\<exists>n. ''    '' @ status_text a @ '' --> '' @ status_text b @ '': '' @ n \<in> set (split_on nl (lifecycle (transition_rows note))))
      \<longleftrightarrow> (a, b) \<in> set job_transitions"
    using edge_lines [OF assms(1), of a b] by simp
  moreover have "(a, b) \<in> set job_transitions \<longleftrightarrow> legal_transition a b"
    by (cases a; cases b) (simp_all add: job_transitions_def)
  moreover have "distinct (table_names rs)" by (induction rs) auto
  ultimately show ?thesis using key_loop_start [OF assms(2-4)] set_table_names by blast
qed

text \<open>Two tables, the first with two key columns, and the order by the first letter's code and the rest.\<close>

definition sample_keys :: "key_row list" where
  "sample_keys =
    [\<lparr>kr_name = ''jobs'', kr_col = ''id'', kr_typ = ''uuid'', kr_pk = True, kr_fk = False\<rparr>,
     \<lparr>kr_name = ''jobs'', kr_col = ''queue_id'', kr_typ = ''uuid'', kr_pk = False, kr_fk = True\<rparr>,
     \<lparr>kr_name = ''queues'', kr_col = ''id'', kr_typ = ''uuid'', kr_pk = True, kr_fk = False\<rparr>]"

fun name_rank :: "string \<Rightarrow> nat" where
  "name_rank [] = 0"
| "name_rank (c # s) = of_char c + 256 * name_rank s + 1"

lemma base_digit: "a < (256 :: nat) \<Longrightarrow> b < 256 \<Longrightarrow> a + 256 * m = b + 256 * n \<Longrightarrow> a = b \<and> m = n"
proof -
  assume l: "a < 256" "b < 256" and e: "a + 256 * m = b + 256 * n"
  have "(a + 256 * m) mod 256 = a" "(b + 256 * n) mod 256 = b" using l by simp_all
  then show ?thesis using e by simp
qed

lemma name_rank_inj: "inj name_rank"
proof (rule injI)
  fix s t :: string
  show "name_rank s = name_rank t \<Longrightarrow> s = t"
  proof (induction s arbitrary: t)
    case Nil
    then show ?case by (cases t) simp_all
  next
    case (Cons c s)
    then obtain x u where t: "t = x # u" by (cases t) simp_all
    have e: "of_char c + 256 * name_rank s = of_char x + 256 * name_rank u" using Cons.prems t by simp
    have "of_char c < (256 :: nat)" "of_char x < (256 :: nat)" by simp_all
    then have "of_char c = (of_char x :: nat)" "name_rank s = name_rank u"
      using base_digit [OF _ _ e] by blast+
    then show ?case using Cons.IH t by simp
  qed
qed

theorem diagram_shows_schema_witness:
  "(\<exists>n. ''    '' @ status_text Running @ '' --> '' @ status_text Completed @ '': '' @ n \<in>
      set (split_on nl (lifecycle (transition_rows (\<lambda>_ _. ''note''))))) \<and>
   key_loop '''' sample_keys =
     [''    jobs {'', ''        uuid id PK'', ''        uuid queue_id FK'', ''    }'', ''    queues {'', ''        uuid id PK'', ''    }'']"
proof -
  have "\<forall>r \<in> set sample_keys. kr_name r \<noteq> ''''" "sorted (map (name_rank \<circ> kr_name) sample_keys)"
    by (simp_all add: sample_keys_def)
  note at = diagram_shows_schema [OF _ name_rank_inj this, of "\<lambda>_ _. ''note''" Running Completed]
  have "nl \<notin> set ''note''" by (simp add: nl_def)
  then have "(\<exists>n. ''    '' @ status_text Running @ '' --> '' @ status_text Completed @ '': '' @ n \<in>
      set (split_on nl (lifecycle (transition_rows (\<lambda>_ _. ''note''))))) \<longleftrightarrow> legal_transition Running Completed"
    and "key_loop '''' sample_keys = concat (map (table_block sample_keys) (table_names sample_keys))"
    using at by blast+
  moreover have "concat (map (table_block sample_keys) (table_names sample_keys)) =
     [''    jobs {'', ''        uuid id PK'', ''        uuid queue_id FK'', ''    }'', ''    queues {'', ''        uuid id PK'', ''    }'']"
    by (simp add: sample_keys_def key_line_def key_mark_def table_block_def)
  moreover have "legal_transition Running Completed" by simp
  ultimately show ?thesis by simp
qed

end
