(* ===== verification/Spec2Isabelle.thy ===== *)
theory Spec2Isabelle
  imports Slots Server Tenancy Summarizer Diagram
begin

text \<open>
  \<^bold>\<open>Fenceline: a durable job scheduler on Postgres.\<close>

  \<^bold>\<open>The program.\<close> Several kinds of processes share one Postgres database and talk through nothing else.
  API servers (\<open>src/internal/api\<close>) accept jobs and answer questions about them. Workers (\<open>src/internal/worker\<close>,
  on \<open>src/internal/jobs\<close>) ask the admission gate of a queue for slots, claim due jobs under a new fence and a
  lease, run them and report their end. Schedulers (\<open>src/internal/scheduler\<close>) promote waiting jobs, age queued
  ones, take back jobs whose lease expired, fire cron schedules, open and close circuit breakers and keep
  partitions, statistics, notifications and summaries. The archiver (\<open>src/internal/archiver\<close>) moves finished
  jobs to cold tables. Much of the logic is SQL: the text of the statements in the Go files and the functions
  and triggers of \<open>src/migrations\<close>. Both are modelled, the SQL in the version of the last migration.

  \<^bold>\<open>How it is modelled.\<close> A database is the record \<open>db\<close> of \<open>Schema\<close>, each table the list of its rows, each
  row a record with the columns the code reads or writes. A statement or database function is a function
  \<open>db \<Rightarrow> pg_error + 'a \<times> db\<close>; an error is a check, key, reference or trigger of the schema that refuses it, and a
  refused statement changes nothing. A Go call is such a function run under a \<open>fate\<close>: it runs, is aborted by
  the server with some code, or the connection is lost before or after the commit (theory \<open>Calls\<close>); what other
  processes do in between are functions on the database in the environment records (\<open>stmt_env\<close>,
  \<open>claim_env\<close>, \<open>job_run\<close>, \<open>tx_env\<close>), so theorems hold for every interleaving unless they say \<open>quiet\<close>. The clock, random
  draws, new ids, row locks skipped by other sessions and the order of concurrent reads are arguments.

  \<^bold>\<open>Theories and what they show.\<close>
  \<^item> \<open>Prelude\<close>: results, row updates, lookups, ordering with limits, transition systems (the locale of invariants
    over reachable states).
  \<^item> \<open>Schema\<close>, \<open>Lifecycle\<close>, \<open>Samples\<close>: tables, checks, the trigger \<open>jobs_fsm\<close>, events, \<open>fl.backoff\<close>; the inlined
    transition function is the documented table, backoff stays within its policy. \<open>Samples\<close> is the small
    database the witnesses use.
  \<^item> \<open>Admission\<close>: \<open>fl.queue_admit\<close>, \<open>fl.queue_release\<close>, reconciliation, \<open>fl.spread\<close>. Grants are sound, never fail, and
    any interleaving keeps a queue within its concurrency.
  \<^item> \<open>Claim\<close>: \<open>claim.go\<close>. The first due jobs in order are taken; a whole call keeps slots and jobs in step.
  \<^item> \<open>Dependencies\<close>: \<open>021_dependency_flow.sql\<close>. Exactly the reachable idle descendants are cancelled.
  \<^item> \<open>Report\<close>, \<open>Fencing\<close>: \<open>report.go\<close> and \<open>028_shard_release.sql\<close>. The outcome of every report on every branch, and
    that a token takes effect once.
  \<^item> \<open>Lease\<close>, \<open>Reaper\<close>, \<open>Promote\<close>, \<open>Breaker\<close>, \<open>Cron\<close>, \<open>Housekeeping\<close>, \<open>Archiver\<close>: the rest of \<open>jobs\<close>, the tasks of the
    scheduler, the archiver. A stale token writes nothing; expired jobs are recovered; each tick gives at most
    one job; the archive neither loses nor splits a job, and its loop ends.
  \<^item> \<open>Calls\<close>, \<open>Worker\<close>, \<open>WorkerRun\<close>, \<open>WorkerLoop\<close>: \<open>src/internal/worker\<close>. Retries perform an operation at most once, a
    claimed job runs to completion, and \<open>Run\<close>, as a step relation of its goroutines, loses no claimed job.
  \<^item> \<open>Api\<close>, \<open>Paging\<close>, \<open>JobsApi\<close>, \<open>DlqApi\<close>: the guard with sessions, roles, retried transactions and audit; cursors and
    their round trip; submission, batches, lists, cancel, retry, replay.
  \<^item> \<open>TxLogic\<close>: how a guarantee of single statements becomes one of whole handlers, for any guarantee.
  \<^item> \<open>ConfigApi\<close>, \<open>Passwords\<close>, \<open>Accounts\<close>: policies, queues, schedules, users, sessions, organisations, members and
    projects, with the cascades and restrictions of their tables. The administrative state stays consistent; a login
    gives a session to whoever knows the password and to nobody else; a logout is final.
  \<^item> \<open>Events\<close>, \<open>Stats\<close>: the event list, the stream with its hub of subscribers and its pump, batches, workers,
    statistics, health and failure summaries. A stream delivers every event once and in order; the grouped
    health queries agree with the statistics of each queue.
  \<^item> \<open>Server\<close>: the table of routes and a whole request from method and path to the answer. Routes are unambiguous;
    what reads changes nothing; what writes needs a session and a role.
  \<^item> \<open>Tenancy\<close>: requests leave the organisations alone that their caller is not a member of.
  \<^item> \<open>Migrate\<close>: \<open>src/internal/db/migrate.go\<close>. Each file is applied once and in order, through failures and restarts.
  \<^item> \<open>System\<close>: all transactions that touch jobs, of all processes in any order, refine an abstract machine over
    (status, fence, owner, queue) per job, so that no two workers ever hold a job under the same fence.
  \<^item> \<open>Invariants\<close>: the checks of the test suites (\<open>src/internal/testdb/fixtures.go\<close>) hold of every run: leases are exactly
    the claimed and running jobs, no job has two open executions, and once its workers are gone a reap strands none.
  \<^item> \<open>Slots\<close>: \<open>System\<close> with the admission gate and the slots in the hands of workers. A queue never runs more jobs than
    its concurrency. The steps leave out what breaks it: the release after a take whose commit landed but whose reply
    was lost (\<open>claim.go\<close>), and \<open>fl.reconcile_in_flight\<close>, which no process calls.
  \<^item> \<open>Summarizer\<close>: \<open>src/internal/ai\<close>. The message to the summary model is bounded, and only trimmed, non-empty answers are
    stored.
  \<^item> \<open>Commands\<close>, \<open>Diagram\<close>: \<open>src/cmd\<close> and \<open>src/internal/db/db.go\<close>. A worker starts only with a proper environment and
    runs as configured, with the wrap-around of the pool size; the generated state diagram is the trigger's.

  \<^bold>\<open>Interfaces.\<close> \<open>transition_system\<close> (Prelude) is interpreted for admissions, for the worker loop, for administration,
  for the hub of streams, for the leases and the slots of the whole system and, through \<open>simulation\<close> (System), for its
  refinement; \<open>tx_order\<close> and \<open>tx_guarantee\<close> (TxLogic) for every guarantee that goes through handlers (consistent
  configuration and accounts, jobs that only evolve, reading only, sparing other tenants, leaving leases and slots
  alone, keeping them in step); the other locales of the library are interpreted on the model's
  operations in the theories that declare them.

  \<^bold>\<open>Bounds and fuel.\<close> The recursive queries of dependencies and of the cycle check get one level per edge, which is
  enough because a path repeats no node. \<open>due_loop\<close> has the cap of 100000 ticks the source has. Retries are
  the three of the worker and the five of the API. \<open>drain\<close>, the archiver's inner loop, may not end (batch size
  zero); not returning is \<open>None\<close>, and it is proved to return with a positive batch. A client that follows
  cursors gets one page more than there are jobs.

  \<^bold>\<open>Not modelled.\<close> Waiting for locks and deadlocks (a deadlock is a fate), isolation anomalies inside one
  transaction other than the key race of a submission and the stale reads of the admission gate, text
  collation (strings compare as the order of the sort keys used), overflow of \<open>int4\<close> and \<open>bigint\<close> columns,
  floating-point percentiles (exact rationals here), contents of log lines, panics. JSON, UUID and time texts,
  the cron parser, time zones, the hash, the database driver and the client of the summary model are parameters: fields of \<open>api_lib\<close>,
  \<open>cron_lib\<close> and the like, with what the code relies on as named hypotheses. Of the
  stream, accepting the websocket and the goroutine that waits for notifications are driver calls; a notification
  is the operation \<open>wake\<close>. \<open>worker/wake.go\<close> only shortens the wait between polls. Signals and
  the HTTP listener of the commands, the queries of \<open>diagram\<close> on the system catalog (their rows are parameters), the
  dashboard, and the test helpers that create databases and fixture rows are glue around what is modelled.
\<close>

end
